(* ===== verification/SM_Prelude.thy ===== *)
theory SM_Prelude
  imports Main "HOL-Library.Char_ord" "HOL-Library.List_Lexorder" "HOL-Library.Product_Lexorder"
    "HOL-Library.Option_ord"
begin

text \<open>
  Shared vocabulary of the development: the collections of rewrite rules that the component
  theories fill and use, first-occurrence deduplication (Rust's \<^verbatim>\<open>retain(|x| seen.insert(x))\<close>),
  forward and backward position search on vectors (\<^verbatim>\<open>Iterator::position\<close> and
  \<^verbatim>\<open>Iterator::rposition\<close>), and the map idioms that the overlays use
  (\<^verbatim>\<open>entry(k).or_default()\<close>, restoring a saved entry).
\<close>

named_theorems undo_simps \<open>how one undo entry acts on the state\<close>
named_theorems graph_simps \<open>how graph operations act on the canonical edge list\<close>
named_theorems matrix_simps \<open>projections of the privilege-matrix operations\<close>
named_theorems frame_simps \<open>state fields an operation leaves alone\<close>

section \<open>Position search\<close>

fun position :: "('a \<Rightarrow> bool) \<Rightarrow> 'a list \<Rightarrow> nat option" where
  "position P [] = None"
| "position P (x # xs) = (if P x then Some 0 else map_option Suc (position P xs))"

fun rposition :: "('a \<Rightarrow> bool) \<Rightarrow> 'a list \<Rightarrow> nat option" where
  "rposition P [] = None"
| "rposition P (x # xs) =
     (case rposition P xs of
        Some i \<Rightarrow> Some (Suc i)
      | None \<Rightarrow> if P x then Some 0 else None)"

lemma rposition_None_iff: "rposition P xs = None \<longleftrightarrow> (\<forall>x \<in> set xs. \<not> P x)"
  by (induction xs) (auto split: option.splits)

lemma rposition_SomeD:
  "rposition P xs = Some i \<Longrightarrow> i < length xs \<and> P (xs ! i) \<and> (\<forall>j. i < j \<longrightarrow> j < length xs \<longrightarrow> \<not> P (xs ! j))"
proof (induction xs arbitrary: i)
  case Nil
  then show ?case by simp
next
  case (Cons x xs)
  show ?case
  proof (cases "rposition P xs")
    case None
    with Cons.prems have "i = 0" "P x" by (auto split: if_splits)
    moreover have "\<forall>y \<in> set xs. \<not> P y" using None by (simp add: rposition_None_iff)
    ultimately show ?thesis by (auto simp: nth_Cons split: nat.splits)
  next
    case (Some k)
    with Cons.prems have "i = Suc k" by simp
    with Cons.IH [OF Some] show ?thesis by (auto simp: nth_Cons split: nat.splits)
  qed
qed

lemma rposition_append:
  "rposition P (xs @ ys) =
     (case rposition P ys of Some i \<Rightarrow> Some (length xs + i) | None \<Rightarrow> rposition P xs)"
  by (induction xs) (auto split: option.splits)

lemma position_SomeD:
  "position P xs = Some i \<Longrightarrow> i < length xs \<and> P (xs ! i) \<and> (\<forall>j < i. \<not> P (xs ! j))"
proof (induction xs arbitrary: i)
  case Nil
  then show ?case by simp
next
  case (Cons x xs)
  show ?case
  proof (cases "P x")
    case True
    with Cons.prems show ?thesis by simp
  next
    case False
    with Cons.prems obtain k where "position P xs = Some k" "i = Suc k" by auto
    with Cons.IH False show ?thesis by (auto simp: nth_Cons split: nat.splits)
  qed
qed

lemma position_None_iff: "position P xs = None \<longleftrightarrow> (\<forall>x \<in> set xs. \<not> P x)"
  by (induction xs) auto

section \<open>Deduplication that keeps first occurrences\<close>

fun dedup_from :: "'a set \<Rightarrow> 'a list \<Rightarrow> 'a list" where
  "dedup_from seen [] = []"
| "dedup_from seen (x # xs) =
     (if x \<in> seen then dedup_from seen xs else x # dedup_from (insert x seen) xs)"

abbreviation dedup :: "'a list \<Rightarrow> 'a list" where
  "dedup \<equiv> dedup_from {}"

lemma set_dedup_from: "set (dedup_from seen xs) = set xs - seen"
  by (induction seen xs rule: dedup_from.induct) auto

lemma set_dedup [simp]: "set (dedup xs) = set xs"
  by (simp add: set_dedup_from)

lemma distinct_dedup_from: "distinct (dedup_from seen xs)"
  by (induction seen xs rule: dedup_from.induct) (auto simp: set_dedup_from)

lemma distinct_dedup [simp]: "distinct (dedup xs)"
  by (rule distinct_dedup_from)

lemma dedup_from_id: "distinct xs \<Longrightarrow> set xs \<inter> seen = {} \<Longrightarrow> dedup_from seen xs = xs"
  by (induction seen xs rule: dedup_from.induct) auto

lemma dedup_id [simp]: "distinct xs \<Longrightarrow> dedup xs = xs"
  by (simp add: dedup_from_id)

lemma length_dedup_from_le: "length (dedup_from seen xs) \<le> length xs"
  by (induction seen xs rule: dedup_from.induct) auto

section \<open>Map idioms\<close>

text \<open>The set stored under a key, empty when there is none (\<^verbatim>\<open>get(k)\<close> read as a set).\<close>

definition mget :: "('k \<rightharpoonup> 'v set) \<Rightarrow> 'k \<Rightarrow> 'v set" where
  "mget m k = (case m k of None \<Rightarrow> {} | Some s \<Rightarrow> s)"

text \<open>\<^verbatim>\<open>entry(k).or_default().extend(vs)\<close>.\<close>

definition mextend :: "('k \<rightharpoonup> 'v set) \<Rightarrow> 'k \<Rightarrow> 'v set \<Rightarrow> ('k \<rightharpoonup> 'v set)" where
  "mextend m k vs = m(k \<mapsto> mget m k \<union> vs)"

text \<open>\<^verbatim>\<open>if let Some(s) = get_mut(k) { *s = f(s) }\<close>.\<close>

definition mmodify :: "('k \<rightharpoonup> 'v) \<Rightarrow> 'k \<Rightarrow> ('v \<Rightarrow> 'v) \<Rightarrow> ('k \<rightharpoonup> 'v)" where
  "mmodify m k f = (case m k of None \<Rightarrow> m | Some v \<Rightarrow> m(k \<mapsto> f v))"

text \<open>Writing back a saved entry: \<^verbatim>\<open>insert\<close> when there was one, \<^verbatim>\<open>remove\<close> when there was none.\<close>

definition mrestore :: "('k \<rightharpoonup> 'v) \<Rightarrow> 'k \<Rightarrow> 'v option \<Rightarrow> ('k \<rightharpoonup> 'v)" where
  "mrestore m k prev = m(k := prev)"

lemma mget_mextend [simp]: "mget (mextend m k vs) k' = (if k' = k then mget m k \<union> vs else mget m k')"
  by (simp add: mget_def mextend_def)

lemma mget_mmodify: "mget (mmodify m k f) k' = (if k' = k \<and> m k \<noteq> None then f (mget m k) else mget m k')"
  by (auto simp: mget_def mmodify_def split: option.splits)

lemma mget_update [simp]: "mget (m(k \<mapsto> s)) k' = (if k' = k then s else mget m k')"
  by (simp add: mget_def)

lemma mget_remove [simp]: "mget (m(k := None)) k' = (if k' = k then {} else mget m k')"
  by (simp add: mget_def)

lemma dom_mmodify [simp]: "dom (mmodify m k f) = dom m"
  by (auto simp: mmodify_def split: option.splits)

lemma mmodify_apply: "mmodify m k f k' = (if k' = k then map_option f (m k) else m k')"
  by (auto simp: mmodify_def split: option.splits)

lemma mrestore_undo [simp]: "mrestore (m(k := v)) k (m k) = m"
  by (simp add: mrestore_def)

text \<open>Writing back a list of saved entries, one per key, restores every key of the list.\<close>

lemma mrestore_fold_apply:
  "fold (\<lambda>k m'. mrestore m' k (m k)) ks g k' = (if k' \<in> set ks then m k' else g k')"
  by (induction ks arbitrary: g) (auto simp: mrestore_def)

lemma mrestore_fold_undo:
  "(\<And>k. k \<notin> set ks \<Longrightarrow> g k = m k) \<Longrightarrow> fold (\<lambda>k m'. mrestore m' k (m k)) (rev ks) g = m"
  by (auto simp: fun_eq_iff mrestore_fold_apply)

end
