(* ===== verification/Identifiers.thy ===== *)
theory Identifiers
  imports SM_Prelude
begin

text \<open>
  Identifiers and object identities (\<^verbatim>\<open>src/src/_internal/ast/identifiers.rs\<close>).

  A Rust \<^verbatim>\<open>String\<close> is its UTF-8 byte sequence, so a \<open>string\<close> here is a list of bytes and
  \<open>length\<close> counts bytes, as \<^verbatim>\<open>str::len\<close> does. \<^verbatim>\<open>ObjectId\<close> compares and hashes by schema and
  name only; \<open>object_id\<close> keeps all three fields, and the type
  \<open>oid\<close> holds the two that equality sees. Every hash map, hash set and dependency edge of the model
  is keyed by an \<open>oid\<close>.
\<close>

section \<open>Identifier folding and truncation\<close>

record ident =
  ident_text :: string
  ident_quoted :: bool

record qualified_name =
  qn_schema :: "ident option"
  qn_name :: ident

definition byte :: "char \<Rightarrow> nat" where
  "byte c = of_char c"

definition ascii_lower :: "char \<Rightarrow> char" where
  "ascii_lower c = (if 65 \<le> byte c \<and> byte c \<le> 90 then char_of (byte c + 32) else c)"

definition to_ascii_lowercase :: "string \<Rightarrow> string" where
  "to_ascii_lowercase s = map ascii_lower s"

text \<open>A UTF-8 continuation byte is \<open>10xxxxxx\<close>; a character boundary is any other position.\<close>

definition is_continuation :: "char \<Rightarrow> bool" where
  "is_continuation c \<longleftrightarrow> 128 \<le> byte c \<and> byte c < 192"

definition is_char_boundary :: "string \<Rightarrow> nat \<Rightarrow> bool" where
  "is_char_boundary s i \<longleftrightarrow>
     (if i = 0 then True
      else if length s \<le> i then i = length s
      else \<not> is_continuation (s ! i))"

definition max_identifier_bytes :: nat where
  "max_identifier_bytes = 63"

fun boundary_floor :: "string \<Rightarrow> nat \<Rightarrow> nat" where
  "boundary_floor s 0 = 0"
| "boundary_floor s (Suc n) = (if is_char_boundary s (Suc n) then Suc n else boundary_floor s n)"

definition truncate_postgres_identifier :: "string \<Rightarrow> string" where
  "truncate_postgres_identifier s =
     take (boundary_floor s (min (length s) max_identifier_bytes)) s"

definition folded_text :: "ident \<Rightarrow> string" where
  "folded_text i = (if ident_quoted i then ident_text i else to_ascii_lowercase (ident_text i))"

definition resolve :: "ident \<Rightarrow> string" where
  "resolve i = truncate_postgres_identifier (folded_text i)"

section \<open>Object identities\<close>

record object_id =
  oid_schema :: string
  oid_name :: string
  inferred_schema :: bool

text \<open>What equality, ordering and hashing of an \<^verbatim>\<open>ObjectId\<close> see: the schema and the name.\<close>

datatype oid = Oid (schema_of: string) (name_of: string)

definition object_id_new :: "string \<Rightarrow> string \<Rightarrow> object_id" where
  "object_id_new s n = \<lparr>oid_schema = s, oid_name = n, inferred_schema = False\<rparr>"

definition oid :: "object_id \<Rightarrow> oid" where
  "oid i = Oid (oid_schema i) (oid_name i)"

definition object_id_eq :: "object_id \<Rightarrow> object_id \<Rightarrow> bool" where
  "object_id_eq a b \<longleftrightarrow> oid_schema a = oid_schema b \<and> oid_name a = oid_name b"

text \<open>\<^verbatim>\<open>cmp_identity\<close> compares the schemas and, when they are equal, the names.\<close>

definition cmp_identity_le :: "object_id \<Rightarrow> object_id \<Rightarrow> bool" where
  "cmp_identity_le a b \<longleftrightarrow>
     oid_schema a < oid_schema b \<or> (oid_schema a = oid_schema b \<and> oid_name a \<le> oid_name b)"

definition object_id_display :: "object_id \<Rightarrow> string" where
  "object_id_display i =
     oid_schema i @ ''.'' @ oid_name i @ (if inferred_schema i then '' (inferred)'' else [])"

definition column_name :: "object_id \<Rightarrow> string \<Rightarrow> string" where
  "column_name i column =
     oid_schema i @ ''.'' @ oid_name i @ ''.'' @ column @
       (if inferred_schema i then '' (inferred)'' else [])"

text \<open>The order of identities, that of \<^verbatim>\<open>cmp_identity\<close>.\<close>

instantiation oid :: linorder
begin

definition less_eq_oid :: "oid \<Rightarrow> oid \<Rightarrow> bool" where
  "less_eq_oid a b \<longleftrightarrow> (schema_of a, name_of a) \<le> (schema_of b, name_of b)"

definition less_oid :: "oid \<Rightarrow> oid \<Rightarrow> bool" where
  "less_oid a b \<longleftrightarrow> (schema_of a, name_of a) < (schema_of b, name_of b)"

instance
  by standard (auto simp: less_eq_oid_def less_oid_def oid.expand)

end

section \<open>Lemmas\<close>

lemma cmp_identity_le_iff: "cmp_identity_le a b \<longleftrightarrow> oid a \<le> oid b"
  by (auto simp: cmp_identity_le_def less_eq_oid_def oid_def)

lemma byte_less_256 [simp]: "byte c < 256"
  by (simp add: byte_def)

lemma byte_char_of [simp]: "byte (char_of n) = n mod 256"
  by (simp add: byte_def)

lemma ascii_lower_idem [simp]: "ascii_lower (ascii_lower c) = ascii_lower c"
  by (auto simp: ascii_lower_def)

lemma to_ascii_lowercase_idem [simp]: "to_ascii_lowercase (to_ascii_lowercase s) = to_ascii_lowercase s"
  by (simp add: to_ascii_lowercase_def)

lemma length_to_ascii_lowercase [simp]: "length (to_ascii_lowercase s) = length s"
  by (simp add: to_ascii_lowercase_def)

lemma is_char_boundary_0 [simp]: "is_char_boundary s 0"
  by (simp add: is_char_boundary_def)

lemma is_char_boundary_length [simp]: "is_char_boundary s (length s)"
  by (simp add: is_char_boundary_def)

lemma is_char_boundary_le: "is_char_boundary s i \<Longrightarrow> i \<le> length s"
  by (auto simp: is_char_boundary_def split: if_splits)

lemma boundary_floor_le: "boundary_floor s n \<le> n"
  by (induction s n rule: boundary_floor.induct) auto

lemma boundary_floor_boundary: "is_char_boundary s (boundary_floor s n)"
  by (induction s n rule: boundary_floor.induct) auto

lemma boundary_floor_greatest: "is_char_boundary s i \<Longrightarrow> i \<le> n \<Longrightarrow> i \<le> boundary_floor s n"
  by (induction s n rule: boundary_floor.induct) (auto simp: le_Suc_eq)

lemma boundary_floor_fix: "is_char_boundary s n \<Longrightarrow> boundary_floor s n = n"
  by (cases n) auto

lemma length_truncate:
  "length (truncate_postgres_identifier s) = boundary_floor s (min (length s) max_identifier_bytes)"
  using boundary_floor_le [of s "min (length s) max_identifier_bytes"]
  by (simp add: truncate_postgres_identifier_def)

lemma length_truncate_le:
  "length (truncate_postgres_identifier s) \<le> min (length s) max_identifier_bytes"
  by (simp only: length_truncate boundary_floor_le)

lemma truncate_short: "length s \<le> max_identifier_bytes \<Longrightarrow> truncate_postgres_identifier s = s"
  by (simp add: truncate_postgres_identifier_def boundary_floor_fix)

lemma truncate_idem [simp]:
  "truncate_postgres_identifier (truncate_postgres_identifier s) = truncate_postgres_identifier s"
  by (rule truncate_short) (use length_truncate_le [of s] in simp)

lemma truncate_take: "\<exists>n. truncate_postgres_identifier s = take n s"
  by (auto simp: truncate_postgres_identifier_def)

lemma oid_eq_iff: "oid a = oid b \<longleftrightarrow> object_id_eq a b"
  by (simp add: oid_def object_id_eq_def)

lemma oid_new [simp]: "oid (object_id_new s n) = Oid s n"
  by (simp add: oid_def object_id_new_def)

section \<open>Properties\<close>

text \<open>
  C28. the lookup spelling of an identifier is the longest prefix of its folded text that ends on
  a character boundary and has at most 63 bytes: it is a prefix, it is cut on a boundary, it has
  at most 63 bytes, and no longer prefix of at most 63 bytes ends on a boundary.
\<close>

theorem resolve_longest_prefix:
  "resolve i = take (length (resolve i)) (folded_text i)
    \<and> is_char_boundary (folded_text i) (length (resolve i))
    \<and> length (resolve i) \<le> 63
    \<and> (\<forall>n. is_char_boundary (folded_text i) n \<and> n \<le> 63 \<longrightarrow> n \<le> length (resolve i))"
proof (intro conjI allI impI)
  let ?b = "boundary_floor (folded_text i) (min (length (folded_text i)) 63)"
  have len: "length (resolve i) = ?b"
    by (simp add: resolve_def length_truncate max_identifier_bytes_def)
  show "resolve i = take (length (resolve i)) (folded_text i)"
    unfolding len by (simp add: resolve_def truncate_postgres_identifier_def max_identifier_bytes_def)
  show "is_char_boundary (folded_text i) (length (resolve i))"
    unfolding len by (rule boundary_floor_boundary)
  show "length (resolve i) \<le> 63"
    unfolding len using boundary_floor_le [of "folded_text i" "min (length (folded_text i)) 63"] by simp
  fix n assume n: "is_char_boundary (folded_text i) n \<and> n \<le> 63"
  then show "n \<le> length (resolve i)"
    unfolding len by (intro boundary_floor_greatest) (auto dest: is_char_boundary_le)
qed

text \<open>
  The 70-byte name of two-byte characters: the cut falls one byte short of 63, on a boundary.
\<close>

theorem resolve_longest_prefix_witness:
  "length (resolve \<lparr>ident_text = concat (replicate 35 [CHR 0xC3, CHR 0xA9]), ident_quoted = True\<rparr>) = 62"
proof -
  let ?s = "concat (replicate 35 [CHR 0xC3, CHR 0xA9])"
  let ?i = "\<lparr>ident_text = ?s, ident_quoted = True\<rparr>"
  have "is_char_boundary (folded_text ?i) 62 \<and> \<not> is_char_boundary (folded_text ?i) 63"
    by code_simp
  with resolve_longest_prefix [of ?i] have "62 \<le> length (resolve ?i)" "length (resolve ?i) \<noteq> 63"
      "length (resolve ?i) \<le> 63" by auto
  then show ?thesis by linarith
qed

text \<open>
  resolution is idempotent: a resolved name, written again either quoted or unquoted when it
  was folded, resolves to itself, so an object identity built from a lookup spelling is stable.
\<close>

theorem resolve_idempotent:
  "resolve \<lparr>ident_text = resolve i, ident_quoted = True\<rparr> = resolve i
   \<and> (\<not> ident_quoted i \<longrightarrow> resolve \<lparr>ident_text = resolve i, ident_quoted = False\<rparr> = resolve i)"
proof -
  have "to_ascii_lowercase (truncate_postgres_identifier (to_ascii_lowercase s)) =
      truncate_postgres_identifier (to_ascii_lowercase s)" for s
    using truncate_take [of "to_ascii_lowercase s"]
    by (auto simp: to_ascii_lowercase_def take_map)
  then show ?thesis by (simp add: resolve_def folded_text_def)
qed

theorem resolve_idempotent_witness:
  "resolve \<lparr>ident_text = resolve \<lparr>ident_text = ''Users'', ident_quoted = False\<rparr>, ident_quoted = False\<rparr>
     = ''users''"
proof -
  have "resolve \<lparr>ident_text = ''Users'', ident_quoted = False\<rparr> = ''users''" by code_simp
  then show ?thesis
    using resolve_idempotent [of "\<lparr>ident_text = ''Users'', ident_quoted = False\<rparr>"] by simp
qed

end
