(* ===== verification/Privileges.thy ===== *)
theory Privileges
  imports Identifiers "HOL-Library.Multiset"
begin

text \<open>
  The relation privilege matrix (\<^verbatim>\<open>PrivilegeMatrix\<close> in \<^verbatim>\<open>src/src/_internal/model/relation.rs\<close>):
  direct grants, grant options and the provenance of both, with targeted and cascading revokes.

  Loops over a \<^verbatim>\<open>HashSet<Privilege>\<close> run over \<open>privilege_list\<close>, the set in declaration order; the
  result does not depend on that choice (\<open>fold_revoke_one_order\<close>). The one loop whose result does
  depend on the iteration order of a hash map, the cascade, takes that order as an argument: the
  map only loses entries while the cascade runs, so the order of its keys is fixed.
\<close>

datatype privilege =
    PSelect | PInsert | PUpdate | PDelete | PTruncate | PReferences | PTrigger | PAll | PMaintain

definition all_privileges :: "privilege list" where
  "all_privileges =
     [PSelect, PInsert, PUpdate, PDelete, PTruncate, PReferences, PTrigger, PAll, PMaintain]"

text \<open>The order of declaration.\<close>

primrec privilege_rank :: "privilege \<Rightarrow> nat" where
  "privilege_rank PSelect = 0"
| "privilege_rank PInsert = 1"
| "privilege_rank PUpdate = 2"
| "privilege_rank PDelete = 3"
| "privilege_rank PTruncate = 4"
| "privilege_rank PReferences = 5"
| "privilege_rank PTrigger = 6"
| "privilege_rank PAll = 7"
| "privilege_rank PMaintain = 8"

lemma privilege_rank_inject: "privilege_rank p = privilege_rank q \<longleftrightarrow> p = q"
  by (cases p; cases q; simp)

instantiation privilege :: linorder
begin

definition less_eq_privilege :: "privilege \<Rightarrow> privilege \<Rightarrow> bool" where
  "less_eq_privilege p q \<longleftrightarrow> privilege_rank p \<le> privilege_rank q"

definition less_privilege :: "privilege \<Rightarrow> privilege \<Rightarrow> bool" where
  "less_privilege p q \<longleftrightarrow> privilege_rank p < privilege_rank q"

instance
  by standard (auto simp: less_eq_privilege_def less_privilege_def privilege_rank_inject)

end

definition privilege_list :: "privilege set \<Rightarrow> privilege list" where
  "privilege_list ps = filter (\<lambda>p. p \<in> ps) all_privileges"

record privilege_matrix =
  grants :: "oid \<rightharpoonup> privilege set"
  grant_options :: "oid \<rightharpoonup> privilege set"
  grantors :: "(oid \<times> privilege) \<rightharpoonup> oid set"
  grant_option_grantors :: "(oid \<times> privilege) \<rightharpoonup> oid set"

definition matrix_default :: privilege_matrix where
  "matrix_default = \<lparr>grants = Map.empty, grant_options = Map.empty, grantors = Map.empty,
     grant_option_grantors = Map.empty\<rparr>"

section \<open>Operations\<close>

definition grant :: "oid \<Rightarrow> privilege set \<Rightarrow> privilege_matrix \<Rightarrow> privilege_matrix" where
  "grant role ps m = m\<lparr>grants := mextend (grants m) role ps\<rparr>"

definition grant_with_option :: "oid \<Rightarrow> privilege set \<Rightarrow> privilege_matrix \<Rightarrow> privilege_matrix" where
  "grant_with_option role ps m =
     (let m1 = grant role ps m in m1\<lparr>grant_options := mextend (grant_options m1) role ps\<rparr>)"

text \<open>One iteration of the provenance loop of \<^verbatim>\<open>grant_from\<close>.\<close>

definition record_grantor :: "oid \<Rightarrow> oid \<Rightarrow> bool \<Rightarrow> privilege \<Rightarrow> privilege_matrix \<Rightarrow> privilege_matrix" where
  "record_grantor role grantor with_grant_option p m =
     (let m1 = m\<lparr>grantors := mextend (grantors m) (role, p) {grantor}\<rparr>
      in if with_grant_option
         then m1\<lparr>grant_option_grantors := mextend (grant_option_grantors m1) (role, p) {grantor}\<rparr>
         else m1)"

definition grant_from ::
  "oid \<Rightarrow> privilege set \<Rightarrow> oid option \<Rightarrow> bool \<Rightarrow> privilege_matrix \<Rightarrow> privilege_matrix" where
  "grant_from role ps grantor with_grant_option m =
     (let m1 = (if with_grant_option then grant_with_option role ps m else grant role ps m)
      in case grantor of
           None \<Rightarrow> m1
         | Some g \<Rightarrow> fold (record_grantor role g with_grant_option) (privilege_list ps) m1)"

text \<open>Removing \<open>ps\<close> from a stored set; the pseudo-privilege \<open>ALL\<close> clears it.\<close>

definition strip :: "privilege set \<Rightarrow> privilege set \<Rightarrow> privilege set" where
  "strip ps owned = (if PAll \<in> ps then {} else owned - ps)"

text \<open>The provenance keys a revoke addresses.\<close>

definition addressed :: "oid \<Rightarrow> privilege set \<Rightarrow> oid \<times> privilege \<Rightarrow> bool" where
  "addressed role ps key \<longleftrightarrow> fst key = role \<and> (PAll \<in> ps \<or> snd key \<in> ps)"

definition revoke_grant_option :: "oid \<Rightarrow> privilege set \<Rightarrow> privilege_matrix \<Rightarrow> privilege_matrix" where
  "revoke_grant_option role ps m =
     m\<lparr>grant_options := mmodify (grant_options m) role (strip ps),
       grant_option_grantors :=
         (\<lambda>k. if addressed role ps k then None else grant_option_grantors m k)\<rparr>"

text \<open>Removing one source, or all of them, from a provenance entry; an emptied entry disappears.\<close>

definition drop_source :: "oid option \<Rightarrow> oid set option \<Rightarrow> oid set option" where
  "drop_source grantor entry =
     (case entry of
        None \<Rightarrow> None
      | Some sources \<Rightarrow>
          (let rest = (case grantor of Some g \<Rightarrow> sources - {g} | None \<Rightarrow> {})
           in if rest = {} then None else Some rest))"

definition remove_grant_provenance ::
  "oid \<Rightarrow> privilege set \<Rightarrow> oid option \<Rightarrow> privilege_matrix \<Rightarrow> privilege_matrix" where
  "remove_grant_provenance role ps grantor m =
     m\<lparr>grantors :=
         (\<lambda>k. if addressed role ps k then drop_source grantor (grantors m k) else grantors m k),
       grant_option_grantors :=
         (\<lambda>k. if addressed role ps k then drop_source grantor (grant_option_grantors m k)
              else grant_option_grantors m k)\<rparr>"

definition revoke :: "oid \<Rightarrow> privilege set \<Rightarrow> privilege_matrix \<Rightarrow> privilege_matrix" where
  "revoke role ps m =
     remove_grant_provenance role ps None
       (revoke_grant_option role ps (m\<lparr>grants := mmodify (grants m) role (strip ps)\<rparr>))"

definition has_privilege :: "privilege_matrix \<Rightarrow> oid \<Rightarrow> privilege \<Rightarrow> bool" where
  "has_privilege m role p \<longleftrightarrow>
     (case grants m role of
        None \<Rightarrow> False
      | Some owned \<Rightarrow> p \<in> owned \<or> (p \<noteq> PAll \<and> PAll \<in> owned))"

definition has_grant_option :: "privilege_matrix \<Rightarrow> oid \<Rightarrow> privilege \<Rightarrow> bool" where
  "has_grant_option m role p \<longleftrightarrow>
     (case grant_options m role of
        None \<Rightarrow> False
      | Some owned \<Rightarrow> p \<in> owned \<or> (p \<noteq> PAll \<and> PAll \<in> owned))"

definition public_role :: oid where
  "public_role = Oid '''' ''public''"

definition has_direct_privilege :: "privilege_matrix \<Rightarrow> oid \<Rightarrow> privilege \<Rightarrow> bool" where
  "has_direct_privilege m role p \<longleftrightarrow> has_privilege m role p \<or> has_privilege m public_role p"

definition has_direct_grant_option :: "privilege_matrix \<Rightarrow> oid \<Rightarrow> privilege \<Rightarrow> bool" where
  "has_direct_grant_option m role p \<longleftrightarrow> has_grant_option m role p \<or> has_grant_option m public_role p"

text \<open>Whether a revoke of \<open>ps\<close> concerns the stored privilege \<open>p\<close>.\<close>

definition requested :: "privilege set \<Rightarrow> privilege \<Rightarrow> bool" where
  "requested ps p \<longleftrightarrow> PAll \<in> ps \<or> p \<in> ps \<or> (p = PAll \<and> list_ex (\<lambda>q. q \<in> ps \<and> q \<noteq> PAll) all_privileges)"

definition targeted_revoke_provenance_is_known :: "privilege_matrix \<Rightarrow> oid \<Rightarrow> privilege set \<Rightarrow> bool" where
  "targeted_revoke_provenance_is_known m role ps \<longleftrightarrow>
     (case grants m role of
        None \<Rightarrow> True
      | Some owned \<Rightarrow>
          list_all (\<lambda>p. \<not> requested ps p \<or> grantors m (role, p) \<noteq> None) (privilege_list owned))"

definition targeted_grant_option_revoke_provenance_is_known ::
  "privilege_matrix \<Rightarrow> oid \<Rightarrow> privilege set \<Rightarrow> bool" where
  "targeted_grant_option_revoke_provenance_is_known m role ps \<longleftrightarrow>
     (case grant_options m role of
        None \<Rightarrow> True
      | Some owned \<Rightarrow>
          list_all (\<lambda>p. \<not> requested ps p \<or> grant_option_grantors m (role, p) \<noteq> None)
            (privilege_list owned))"

definition expand_privileges :: "privilege_matrix \<Rightarrow> oid \<Rightarrow> privilege set \<Rightarrow> privilege set" where
  "expand_privileges m role ps = (if PAll \<in> ps then mget (grants m) role - {PAll} else ps)"

text \<open>One iteration of the loop of \<^verbatim>\<open>revoke_from\<close> with a known grantor.\<close>

definition revoke_one :: "oid \<Rightarrow> oid \<Rightarrow> privilege \<Rightarrow> privilege_matrix \<Rightarrow> privilege_matrix" where
  "revoke_one role g p m =
     (let key = (role, p);
          remove_effective =
            (case grantors m key of Some sources \<Rightarrow> sources - {g} = {} | None \<Rightarrow> True);
          m1 = m\<lparr>grantors := (grantors m)(key := drop_source (Some g) (grantors m key))\<rparr>;
          m2 = (case grant_option_grantors m1 key of
                  Some sources \<Rightarrow>
                    if sources - {g} = {}
                    then m1\<lparr>grant_option_grantors := (grant_option_grantors m1)(key := None),
                           grant_options := mmodify (grant_options m1) role (\<lambda>owned. owned - {p})\<rparr>
                    else m1\<lparr>grant_option_grantors :=
                           (grant_option_grantors m1)(key \<mapsto> sources - {g})\<rparr>
                | None \<Rightarrow> m1)
      in if remove_effective
         then (let m3 = m2\<lparr>grants := mmodify (grants m2) role (\<lambda>owned. owned - {p})\<rparr>
               in if grant_option_grantors m3 key = None
                  then m3\<lparr>grant_options := mmodify (grant_options m3) role (\<lambda>owned. owned - {p})\<rparr>
                  else m3)
         else m2)"

definition revoke_from :: "oid \<Rightarrow> privilege set \<Rightarrow> oid option \<Rightarrow> privilege_matrix \<Rightarrow> privilege_matrix" where
  "revoke_from role ps grantor m =
     (case grantor of
        None \<Rightarrow> revoke role ps m
      | Some g \<Rightarrow> fold (revoke_one role g) (privilege_list (expand_privileges m role ps)) m)"

text \<open>
  The grantees that hold \<open>p\<close> from \<open>lost\<close>, in the order \<open>ks\<close> in which the hash map yields its keys.
\<close>

definition downstream :: "(oid \<times> privilege) list \<Rightarrow> oid \<Rightarrow> privilege \<Rightarrow> privilege_matrix \<Rightarrow> oid list" where
  "downstream ks lost p m =
     map fst (filter (\<lambda>k. snd k = p \<and> lost \<in> mget (grantors m) k) ks)"

text \<open>The worklist of the cascade; the head of \<open>pending\<close> is the top of the Rust vector.\<close>

function cascade_loop ::
  "(oid \<times> privilege) list \<Rightarrow> (oid \<times> privilege) list \<Rightarrow> (oid \<times> privilege) set \<Rightarrow> privilege_matrix
     \<Rightarrow> privilege_matrix" where
  "cascade_loop ks [] visited m = m"
| "cascade_loop ks ((lost, p) # pending) visited m =
     (if (lost, p) \<in> visited then cascade_loop ks pending visited m
      else if has_grant_option m lost p
        then cascade_loop ks pending (insert (lost, p) visited) m
      else
        cascade_loop ks (rev (map (\<lambda>g. (g, p)) (downstream ks lost p m)) @ pending)
          (insert (lost, p) visited)
          (fold (\<lambda>g. revoke_from g {p} (Some lost)) (downstream ks lost p m) m))"
  by pat_completeness auto

lemma downstream_keys: "g \<in> set (downstream ks lost p m) \<Longrightarrow> (g, p) \<in> set ks"
  by (auto simp: downstream_def)

termination cascade_loop
proof (relation "inv_image (finite_psubset <*lex*> less_than)
    (\<lambda>(ks, pending, visited, m). ((set ks \<union> set pending) - visited, length pending))")
  show "wf (inv_image (finite_psubset <*lex*> less_than)
    (\<lambda>(ks, pending, visited, m). ((set ks \<union> set pending) - visited, length pending)))"
    by (auto intro: wf_inv_image)
qed (auto simp: finite_psubset_def dest: downstream_keys)

definition revoke_from_cascade ::
  "(oid \<times> privilege) list \<Rightarrow> oid \<Rightarrow> privilege set \<Rightarrow> oid option \<Rightarrow> bool \<Rightarrow> privilege_matrix
     \<Rightarrow> privilege_matrix" where
  "revoke_from_cascade ks role ps grantor cascade m =
     (let expanded = expand_privileges m role ps;
          m1 = revoke_from role expanded grantor m
      in if cascade
         then cascade_loop ks (rev (map (\<lambda>p. (role, p)) (privilege_list expanded))) {} m1
         else m1)"

text \<open>One iteration of the loop of \<^verbatim>\<open>revoke_grant_option_from\<close>.\<close>

definition revoke_option_one :: "oid \<Rightarrow> oid \<Rightarrow> privilege \<Rightarrow> privilege_matrix \<Rightarrow> privilege_matrix" where
  "revoke_option_one role g p m =
     (case grant_option_grantors m (role, p) of
        Some sources \<Rightarrow>
          if sources - {g} = {}
          then m\<lparr>grant_option_grantors := (grant_option_grantors m)((role, p) := None),
                grant_options := mmodify (grant_options m) role (\<lambda>owned. owned - {p})\<rparr>
          else m\<lparr>grant_option_grantors :=
                (grant_option_grantors m)((role, p) \<mapsto> sources - {g})\<rparr>
      | None \<Rightarrow> m\<lparr>grant_options := mmodify (grant_options m) role (\<lambda>owned. owned - {p})\<rparr>)"

definition revoke_grant_option_from ::
  "oid \<Rightarrow> privilege set \<Rightarrow> oid option \<Rightarrow> privilege_matrix \<Rightarrow> privilege_matrix" where
  "revoke_grant_option_from role ps grantor m =
     (case grantor of
        None \<Rightarrow> revoke_grant_option role ps m
      | Some g \<Rightarrow>
          (let m1 = fold (revoke_option_one role g) (privilege_list (expand_privileges m role ps)) m
           in m1\<lparr>grant_option_grantors :=
                (\<lambda>k. if addressed role ps k then None else grant_option_grantors m1 k)\<rparr>))"


section \<open>How each operation acts on the four maps\<close>

definition sole_source :: "privilege_matrix \<Rightarrow> oid \<Rightarrow> oid \<times> privilege \<Rightarrow> bool" where
  "sole_source m g key \<longleftrightarrow>
     (case grantors m key of Some sources \<Rightarrow> sources - {g} = {} | None \<Rightarrow> True)"

definition option_lost :: "privilege_matrix \<Rightarrow> oid \<Rightarrow> oid \<times> privilege \<Rightarrow> bool" where
  "option_lost m g key \<longleftrightarrow>
     (case grant_option_grantors m key of
        Some sources \<Rightarrow> sources - {g} = {}
      | None \<Rightarrow> sole_source m g key)"

lemma set_privilege_list [simp]: "set (privilege_list ps) = ps"
proof -
  have "p \<in> set all_privileges" for p by (cases p) (simp_all add: all_privileges_def)
  then show ?thesis by (auto simp: privilege_list_def)
qed

lemma distinct_privilege_list [simp]: "distinct (privilege_list ps)"
  by (simp add: privilege_list_def all_privileges_def)

lemma mmodify_comp [simp]: "mmodify (mmodify m k f) k h = mmodify m k (h \<circ> f)"
  by (auto simp: mmodify_def split: option.splits)

lemma mmodify_cong: "(\<And>v. f v = h v) \<Longrightarrow> mmodify m k f = mmodify m k h"
  by (auto simp: mmodify_def split: option.splits)

lemma drop_source_simps [simp]:
  "drop_source g None = None"
  "drop_source (Some a) (Some s) = (if s - {a} = {} then None else Some (s - {a}))"
  "drop_source None (Some s) = None"
  by (simp_all add: drop_source_def Let_def)

lemma mget_drop_source: "(case drop_source (Some g) e of None \<Rightarrow> {} | Some s \<Rightarrow> s) = (case e of None \<Rightarrow> {} | Some s \<Rightarrow> s) - {g}"
  by (auto simp: drop_source_def Let_def split: option.splits)

lemma grantors_revoke_one [matrix_simps]:
  "grantors (revoke_one role g p m) =
     (grantors m)((role, p) := drop_source (Some g) (grantors m (role, p)))"
  by (auto simp: revoke_one_def Let_def split: option.splits)

lemma grant_option_grantors_revoke_one [matrix_simps]:
  "grant_option_grantors (revoke_one role g p m) =
     (grant_option_grantors m)((role, p) := drop_source (Some g) (grant_option_grantors m (role, p)))"
  by (auto simp: revoke_one_def Let_def split: option.splits)

lemma grants_revoke_one [matrix_simps]:
  "grants (revoke_one role g p m) =
     (if sole_source m g (role, p) then mmodify (grants m) role (\<lambda>s. s - {p}) else grants m)"
  by (auto simp: revoke_one_def Let_def sole_source_def split: option.splits)

lemma grant_options_revoke_one [matrix_simps]:
  "grant_options (revoke_one role g p m) =
     (if option_lost m g (role, p) then mmodify (grant_options m) role (\<lambda>s. s - {p})
      else grant_options m)"
  by (auto simp: revoke_one_def Let_def sole_source_def option_lost_def intro: mmodify_cong split: option.splits)

lemma sole_source_revoke_one [simp]:
  "key \<noteq> (role, p) \<Longrightarrow> sole_source (revoke_one role g p m) g' key = sole_source m g' key"
  by (simp add: sole_source_def matrix_simps)

lemma option_lost_revoke_one [simp]:
  "key \<noteq> (role, p) \<Longrightarrow> option_lost (revoke_one role g p m) g' key = option_lost m g' key"
  by (auto simp: option_lost_def matrix_simps split: option.splits)

lemma revoke_one_commute:
  "revoke_one role g p (revoke_one role g q m) = revoke_one role g q (revoke_one role g p m)"
proof (cases "p = q")
  case False
  have c: "(\<lambda>s. s - {p}) \<circ> (\<lambda>s. s - {q}) = (\<lambda>s. s - {q}) \<circ> (\<lambda>s :: privilege set. s - {p})" by auto
  show ?thesis
    using False by (intro privilege_matrix.equality) (auto simp: matrix_simps c fun_upd_twist)
qed simp

lemma fold_revoke_one_order:
  assumes "distinct xs" "distinct ys" "set xs = set ys"
  shows "fold (revoke_one role g) xs = fold (revoke_one role g) ys"
  using assms by (intro fold_multiset_equiv) (auto simp: fun_eq_iff revoke_one_commute set_eq_iff_mset_eq_distinct)

section \<open>Coherence of the matrix\<close>

definition matrix_wf :: "privilege_matrix \<Rightarrow> bool" where
  "matrix_wf m \<longleftrightarrow>
     (\<forall>r. mget (grant_options m) r \<subseteq> mget (grants m) r)
     \<and> (\<forall>k. mget (grant_option_grantors m) k \<subseteq> mget (grantors m) k)
     \<and> (\<forall>k. grantors m k \<noteq> Some {} \<and> grant_option_grantors m k \<noteq> Some {})
     \<and> (\<forall>r p. grantors m (r, p) \<noteq> None \<longrightarrow> p \<in> mget (grants m) r)
     \<and> (\<forall>r p. grant_option_grantors m (r, p) \<noteq> None \<longrightarrow> p \<in> mget (grant_options m) r)"

lemma matrix_wfI:
  assumes "\<And>r. mget (grant_options m) r \<subseteq> mget (grants m) r"
    and "\<And>k. mget (grant_option_grantors m) k \<subseteq> mget (grantors m) k"
    and "\<And>k. grantors m k \<noteq> Some {}" and "\<And>k. grant_option_grantors m k \<noteq> Some {}"
    and "\<And>r p s. grantors m (r, p) = Some s \<Longrightarrow> p \<in> mget (grants m) r"
    and "\<And>r p s. grant_option_grantors m (r, p) = Some s \<Longrightarrow> p \<in> mget (grant_options m) r"
  shows "matrix_wf m"
  using assms by (auto simp: matrix_wf_def)

lemma matrix_wfD:
  assumes "matrix_wf m"
  shows "mget (grant_options m) r \<subseteq> mget (grants m) r"
    and "mget (grant_option_grantors m) k \<subseteq> mget (grantors m) k"
    and "grantors m k \<noteq> Some {}" and "grant_option_grantors m k \<noteq> Some {}"
    and "grantors m (r, p) = Some s \<Longrightarrow> p \<in> mget (grants m) r"
    and "grant_option_grantors m (r, p) = Some s \<Longrightarrow> p \<in> mget (grant_options m) r"
  using assms unfolding matrix_wf_def by (blast, blast, blast, blast, metis option.distinct(1), metis option.distinct(1))

lemma matrix_wf_default [simp]: "matrix_wf matrix_default"
  by (simp add: matrix_wf_def matrix_default_def mget_def)

lemma sole_source_option_lost: "matrix_wf m \<Longrightarrow> sole_source m g key \<Longrightarrow> option_lost m g key"
  using matrix_wfD(2,4) [of m key]
  by (auto simp: sole_source_def option_lost_def mget_def split: option.splits)

lemma mget_mmodify_minus:
  "mget (mmodify f r (\<lambda>s. s - x)) r' = (if r' = r then mget f r - x else mget f r')"
  by (auto simp: mget_def mmodify_apply split: option.splits)

lemma mget_drop:
  "mget (f(k := drop_source (Some g) (f k))) k' = (if k' = k then mget f k - {g} else mget f k')"
  by (auto simp: mget_def drop_source_def Let_def split: option.splits)

lemma revoke_one_wf:
  assumes "matrix_wf m"
  shows "matrix_wf (revoke_one role g p m)"
proof (rule matrix_wfI)
  note wf = matrix_wfD [OF assms]
  note lost = sole_source_option_lost [OF assms, of g "(role, p)"]
  fix r k q s
  show "mget (grant_options (revoke_one role g p m)) r \<subseteq> mget (grants (revoke_one role g p m)) r"
    using wf(1) [of r] lost by (auto simp: matrix_simps mget_mmodify_minus)
  show "mget (grant_option_grantors (revoke_one role g p m)) k \<subseteq> mget (grantors (revoke_one role g p m)) k"
    using wf(2) [of k] by (auto simp: matrix_simps mget_drop)
  show "grantors (revoke_one role g p m) k \<noteq> Some {}"
    using wf(3) [of k] by (auto simp: matrix_simps drop_source_def Let_def split: option.splits)
  show "grant_option_grantors (revoke_one role g p m) k \<noteq> Some {}"
    using wf(4) [of k] by (auto simp: matrix_simps drop_source_def Let_def split: option.splits)
  show "q \<in> mget (grants (revoke_one role g p m)) r" if "grantors (revoke_one role g p m) (r, q) = Some s"
    using that wf(5) [of r q]
    by (cases "grantors m (r, q)")
      (auto simp: matrix_simps mget_mmodify_minus sole_source_def split: if_splits)
  show "q \<in> mget (grant_options (revoke_one role g p m)) r"
    if "grant_option_grantors (revoke_one role g p m) (r, q) = Some s"
    using that wf(6) [of r q]
    by (cases "grant_option_grantors m (r, q)")
      (auto simp: matrix_simps mget_mmodify_minus option_lost_def split: if_splits)
qed

lemma fold_revoke_one_wf: "matrix_wf m \<Longrightarrow> matrix_wf (fold (revoke_one role g) ps m)"
  by (induction ps arbitrary: m) (auto simp: revoke_one_wf)

lemma mget_mmodify_strip:
  "mget (mmodify f r (strip ps)) r' = (if r' = r then strip ps (mget f r) else mget f r')"
  by (auto simp: mget_def mmodify_apply strip_def split: option.splits)

lemma revoke_wf:
  assumes "matrix_wf m"
  shows "matrix_wf (revoke role ps m)"
proof (rule matrix_wfI)
  note wf = matrix_wfD [OF assms]
  have gs: "grantors (revoke role ps m) k = (if addressed role ps k then None else grantors m k)" for k
    by (cases "grantors m k")
      (simp_all add: revoke_def remove_grant_provenance_def revoke_grant_option_def)
  have os: "grant_option_grantors (revoke role ps m) k =
      (if addressed role ps k then None else grant_option_grantors m k)" for k
    by (simp add: revoke_def remove_grant_provenance_def revoke_grant_option_def)
  have g: "mget (grants (revoke role ps m)) r = (if r = role then strip ps (mget (grants m) r) else mget (grants m) r)" for r
    by (simp add: revoke_def remove_grant_provenance_def revoke_grant_option_def mget_mmodify_strip)
  have o: "mget (grant_options (revoke role ps m)) r =
      (if r = role then strip ps (mget (grant_options m) r) else mget (grant_options m) r)" for r
    by (simp add: revoke_def remove_grant_provenance_def revoke_grant_option_def mget_mmodify_strip)
  fix r k q s
  show "mget (grant_options (revoke role ps m)) r \<subseteq> mget (grants (revoke role ps m)) r"
    using wf(1) [of r] by (auto simp: g o strip_def)
  show "mget (grant_option_grantors (revoke role ps m)) k \<subseteq> mget (grantors (revoke role ps m)) k"
    using wf(2) [of k] by (auto simp: mget_def gs os)
  show "grantors (revoke role ps m) k \<noteq> Some {}" using wf(3) by (simp add: gs)
  show "grant_option_grantors (revoke role ps m) k \<noteq> Some {}" using wf(4) by (simp add: os)
  show "q \<in> mget (grants (revoke role ps m)) r" if "grantors (revoke role ps m) (r, q) = Some s"
    using that wf(5) [of r q s] by (auto simp: gs g addressed_def strip_def split: if_splits)
  show "q \<in> mget (grant_options (revoke role ps m)) r"
    if "grant_option_grantors (revoke role ps m) (r, q) = Some s"
    using that wf(6) [of r q s] by (auto simp: os o addressed_def strip_def split: if_splits)
qed

lemma revoke_from_wf: "matrix_wf m \<Longrightarrow> matrix_wf (revoke_from role ps grantor m)"
  by (auto simp: revoke_from_def revoke_wf fold_revoke_one_wf split: option.splits)

lemma fold_revoke_from_wf: "matrix_wf m \<Longrightarrow> matrix_wf (fold (\<lambda>g. revoke_from g ps s) gs m)"
  by (induction gs arbitrary: m) (auto simp: revoke_from_wf)

lemma cascade_loop_wf: "matrix_wf m \<Longrightarrow> matrix_wf (cascade_loop ks pending visited m)"
  by (induction ks pending visited m rule: cascade_loop.induct) (auto simp: fold_revoke_from_wf)

lemma revoke_from_cascade_wf: "matrix_wf m \<Longrightarrow> matrix_wf (revoke_from_cascade ks role ps grantor c m)"
  by (simp add: revoke_from_cascade_def Let_def revoke_from_wf cascade_loop_wf)

lemma grants_record_grantors [simp]:
  "grants (fold (record_grantor role g w) xs m) = grants m"
  by (induction xs arbitrary: m) (simp_all add: record_grantor_def Let_def)

lemma grant_options_record_grantors [simp]:
  "grant_options (fold (record_grantor role g w) xs m) = grant_options m"
  by (induction xs arbitrary: m) (simp_all add: record_grantor_def Let_def)

lemma grantors_record_grantors:
  "grantors (fold (record_grantor role g w) xs m) =
     (\<lambda>k. if fst k = role \<and> snd k \<in> set xs then Some (insert g (mget (grantors m) k)) else grantors m k)"
  by (induction xs arbitrary: m) (auto simp: record_grantor_def Let_def fun_eq_iff mextend_def mget_def)

lemma grant_option_grantors_record_grantors:
  "grant_option_grantors (fold (record_grantor role g w) xs m) =
     (\<lambda>k. if w \<and> fst k = role \<and> snd k \<in> set xs then Some (insert g (mget (grant_option_grantors m) k))
          else grant_option_grantors m k)"
  by (induction xs arbitrary: m) (auto simp: record_grantor_def Let_def fun_eq_iff mextend_def mget_def)

lemma grant_from_maps [matrix_simps]:
  "mget (grants (grant_from role ps g w m)) r = (if r = role then mget (grants m) r \<union> ps else mget (grants m) r)"
  "mget (grant_options (grant_from role ps g w m)) r =
     (if w \<and> r = role then mget (grant_options m) r \<union> ps else mget (grant_options m) r)"
  "grantors (grant_from role ps g w m) k =
     (case g of Some a \<Rightarrow>
        if fst k = role \<and> snd k \<in> ps then Some (insert a (mget (grantors m) k)) else grantors m k
      | None \<Rightarrow> grantors m k)"
  "grant_option_grantors (grant_from role ps g w m) k =
     (case g of Some a \<Rightarrow>
        if w \<and> fst k = role \<and> snd k \<in> ps then Some (insert a (mget (grant_option_grantors m) k))
        else grant_option_grantors m k
      | None \<Rightarrow> grant_option_grantors m k)"
  by (auto simp: grant_from_def Let_def grant_def grant_with_option_def grantors_record_grantors
      grant_option_grantors_record_grantors split: option.splits)

lemma grant_from_wf:
  assumes "matrix_wf m"
  shows "matrix_wf (grant_from role ps g w m)"
proof (rule matrix_wfI)
  note wf = matrix_wfD [OF assms]
  fix r k q s
  show "mget (grant_options (grant_from role ps g w m)) r \<subseteq> mget (grants (grant_from role ps g w m)) r"
    using wf(1) [of r] by (auto simp: matrix_simps)
  show "mget (grant_option_grantors (grant_from role ps g w m)) k \<subseteq> mget (grantors (grant_from role ps g w m)) k"
    using wf(2) [of k] by (cases g) (auto simp: mget_def matrix_simps)
  show "grantors (grant_from role ps g w m) k \<noteq> Some {}"
    using wf(3) by (cases g) (auto simp: matrix_simps)
  show "grant_option_grantors (grant_from role ps g w m) k \<noteq> Some {}"
    using wf(4) by (cases g) (auto simp: matrix_simps)
  show "q \<in> mget (grants (grant_from role ps g w m)) r" if "grantors (grant_from role ps g w m) (r, q) = Some s"
    using that wf(5) [of r q] by (cases g) (auto simp: matrix_simps split: if_splits)
  show "q \<in> mget (grant_options (grant_from role ps g w m)) r"
    if "grant_option_grantors (grant_from role ps g w m) (r, q) = Some s"
    using that wf(6) [of r q] by (cases g) (auto simp: matrix_simps split: if_splits)
qed

lemma revoke_option_one_maps [matrix_simps]:
  "grants (revoke_option_one role g p m) = grants m"
  "grantors (revoke_option_one role g p m) = grantors m"
  "grant_option_grantors (revoke_option_one role g p m) =
     (grant_option_grantors m)((role, p) := drop_source (Some g) (grant_option_grantors m (role, p)))"
  "grant_options (revoke_option_one role g p m) =
     (if drop_source (Some g) (grant_option_grantors m (role, p)) = None
      then mmodify (grant_options m) role (\<lambda>s. s - {p}) else grant_options m)"
  by (auto simp: revoke_option_one_def fun_upd_idem split: option.splits)

lemma revoke_option_one_wf:
  assumes "matrix_wf m"
  shows "matrix_wf (revoke_option_one role g p m)"
proof (rule matrix_wfI)
  note wf = matrix_wfD [OF assms]
  fix r k q s
  show "mget (grant_options (revoke_option_one role g p m)) r \<subseteq> mget (grants (revoke_option_one role g p m)) r"
    using wf(1) [of r] by (auto simp: matrix_simps mget_mmodify_minus)
  show "mget (grant_option_grantors (revoke_option_one role g p m)) k
      \<subseteq> mget (grantors (revoke_option_one role g p m)) k"
    using wf(2) [of k] by (auto simp: matrix_simps mget_drop)
  show "grant_option_grantors (revoke_option_one role g p m) k \<noteq> Some {}"
    using wf(4) [of k] by (auto simp: matrix_simps drop_source_def Let_def split: option.splits)
  show "q \<in> mget (grant_options (revoke_option_one role g p m)) r"
    if "grant_option_grantors (revoke_option_one role g p m) (r, q) = Some s"
    using that wf(6) [of r q]
    by (cases "grant_option_grantors m (r, q)") (auto simp: matrix_simps mget_mmodify_minus split: if_splits)
qed (use matrix_wfD [OF assms] in \<open>auto simp: matrix_simps\<close>)

lemma fold_revoke_option_one_wf: "matrix_wf m \<Longrightarrow> matrix_wf (fold (revoke_option_one role g) ps m)"
  by (induction ps arbitrary: m) (auto simp: revoke_option_one_wf)

lemma matrix_wf_sweep:
  assumes "matrix_wf m"
  shows "matrix_wf (m\<lparr>grant_option_grantors := (\<lambda>k. if P k then None else grant_option_grantors m k)\<rparr>)"
  using matrix_wfD [OF assms] by (intro matrix_wfI) (auto simp: mget_def split: if_splits)

lemma revoke_grant_option_wf:
  assumes "matrix_wf m"
  shows "matrix_wf (revoke_grant_option role ps m)"
proof (rule matrix_wfI)
  note wf = matrix_wfD [OF assms]
  let ?m = "revoke_grant_option role ps m"
  have unchanged: "grants ?m = grants m" "grantors ?m = grantors m"
    and os: "grant_option_grantors ?m k = (if addressed role ps k then None else grant_option_grantors m k)"
    and o: "mget (grant_options ?m) r =
      (if r = role then strip ps (mget (grant_options m) r) else mget (grant_options m) r)" for k r
    by (simp_all add: revoke_grant_option_def mget_mmodify_strip)
  fix r k q s
  show "mget (grant_options ?m) r \<subseteq> mget (grants ?m) r"
    using wf(1) [of r] by (auto simp: unchanged o strip_def)
  show "mget (grant_option_grantors ?m) k \<subseteq> mget (grantors ?m) k"
    using wf(2) [of k] by (auto simp: mget_def unchanged os)
  show "grantors ?m k \<noteq> Some {}" using wf(3) by (simp add: unchanged)
  show "grant_option_grantors ?m k \<noteq> Some {}" using wf(4) by (simp add: os)
  show "q \<in> mget (grants ?m) r" if "grantors ?m (r, q) = Some s"
    using that wf(5) [of r q s] by (simp add: unchanged)
  show "q \<in> mget (grant_options ?m) r" if "grant_option_grantors ?m (r, q) = Some s"
    using that wf(6) [of r q s] by (auto simp: os o addressed_def strip_def split: if_splits)
qed

lemma revoke_grant_option_from_wf:
  "matrix_wf m \<Longrightarrow> matrix_wf (revoke_grant_option_from role ps grantor m)"
  by (auto simp: revoke_grant_option_from_def Let_def revoke_grant_option_wf matrix_wf_sweep
      fold_revoke_option_one_wf split: option.splits)

section \<open>Matrices the analyzer builds\<close>

inductive reachable_matrix :: "privilege_matrix \<Rightarrow> bool" where
  rm_default: "reachable_matrix matrix_default"
| rm_grant: "reachable_matrix m \<Longrightarrow> reachable_matrix (grant_from role ps g w m)"
| rm_revoke: "reachable_matrix m \<Longrightarrow> reachable_matrix (revoke_from_cascade ks role ps g c m)"
| rm_option: "reachable_matrix m \<Longrightarrow> reachable_matrix (revoke_grant_option_from role ps g m)"

lemma reachable_matrix_wf: "reachable_matrix m \<Longrightarrow> matrix_wf m"
  by (induction rule: reachable_matrix.induct)
    (simp_all add: grant_from_wf revoke_from_cascade_wf revoke_grant_option_from_wf)

section \<open>The effect of a targeted revoke\<close>

lemma sole_source_revoke_one_same [simp]:
  "sole_source (revoke_one role g p m) g key = sole_source m g key"
  by (cases "key = (role, p)"; cases "grantors m (role, p)") (auto simp: sole_source_def matrix_simps)

lemma grantors_fold_revoke_one:
  "grantors (fold (revoke_one role g) xs m) k =
     (if fst k = role \<and> snd k \<in> set xs then drop_source (Some g) (grantors m k) else grantors m k)"
proof (induction xs arbitrary: m)
  case (Cons p xs)
  have "drop_source (Some g) (drop_source (Some g) e) = drop_source (Some g) e" for e
    by (auto simp: drop_source_def Let_def split: option.splits)
  with Cons show ?case by (cases k) (auto simp: matrix_simps)
qed simp

lemma grant_option_grantors_fold_revoke_one:
  "grant_option_grantors (fold (revoke_one role g) xs m) k =
     (if fst k = role \<and> snd k \<in> set xs then drop_source (Some g) (grant_option_grantors m k)
      else grant_option_grantors m k)"
proof (induction xs arbitrary: m)
  case (Cons p xs)
  have "drop_source (Some g) (drop_source (Some g) e) = drop_source (Some g) e" for e
    by (auto simp: drop_source_def Let_def split: option.splits)
  with Cons show ?case by (cases k) (auto simp: matrix_simps)
qed simp

lemma grants_fold_revoke_one:
  "mget (grants (fold (revoke_one role g) xs m)) r =
     (if r = role then mget (grants m) r - {p \<in> set xs. sole_source m g (role, p)} else mget (grants m) r)"
  by (induction xs arbitrary: m) (auto simp: matrix_simps mget_mmodify_minus)

lemma grant_options_fold_revoke_one:
  "distinct xs \<Longrightarrow> mget (grant_options (fold (revoke_one role g) xs m)) r =
     (if r = role then mget (grant_options m) r - {p \<in> set xs. option_lost m g (role, p)}
      else mget (grant_options m) r)"
proof (induction xs arbitrary: m)
  case (Cons p xs)
  have "option_lost (revoke_one role g p m) g (role, q) = option_lost m g (role, q)" if "q \<in> set xs" for q
    using that Cons.prems by (intro option_lost_revoke_one) auto
  then have "{q \<in> set xs. option_lost (revoke_one role g p m) g (role, q)} = {q \<in> set xs. option_lost m g (role, q)}"
    by blast
  with Cons show ?case by (auto simp: matrix_simps mget_mmodify_minus)
qed simp

lemma sole_source_alt: "sole_source m g key \<longleftrightarrow> mget (grantors m) key \<subseteq> {g}"
  by (auto simp: sole_source_def mget_def split: option.splits)

section \<open>The cascade\<close>

lemma privilege_list_single [simp]: "privilege_list {p} = [p]"
  by (cases p) (simp_all add: privilege_list_def all_privileges_def)

lemma revoke_from_single: "p \<noteq> PAll \<Longrightarrow> revoke_from r {p} (Some g) m = revoke_one r g p m"
  by (simp add: revoke_from_def expand_privileges_def)

text \<open>Two matrices agree on everything that concerns one privilege of one role.\<close>

definition same_at :: "oid \<Rightarrow> privilege \<Rightarrow> privilege_matrix \<Rightarrow> privilege_matrix \<Rightarrow> bool" where
  "same_at r p m m' \<longleftrightarrow>
     grantors m' (r, p) = grantors m (r, p)
     \<and> grant_option_grantors m' (r, p) = grant_option_grantors m (r, p)
     \<and> (p \<in> mget (grants m') r \<longleftrightarrow> p \<in> mget (grants m) r)
     \<and> (p \<in> mget (grant_options m') r \<longleftrightarrow> p \<in> mget (grant_options m) r)"

lemma same_at_refl [simp]: "same_at r p m m"
  by (simp add: same_at_def)

lemma same_at_trans: "same_at r p m m' \<Longrightarrow> same_at r p m' m'' \<Longrightarrow> same_at r p m m''"
  by (simp add: same_at_def)

lemma same_at_revoke_one: "(r, p) \<noteq> (role, q) \<Longrightarrow> same_at r p m (revoke_one role g q m)"
  by (auto simp: same_at_def matrix_simps mget_mmodify_minus)

lemma same_at_fold_revoke_one:
  "r \<notin> set rs \<or> p \<noteq> q \<Longrightarrow> same_at r p m (fold (\<lambda>r'. revoke_one r' g q) rs m)"
  by (induction rs arbitrary: m) (auto intro: same_at_trans same_at_revoke_one)

lemma grantors_mono_revoke_one: "mget (grantors (revoke_one r g p m)) k \<subseteq> mget (grantors m) k"
  by (auto simp: matrix_simps mget_drop split: if_splits)

lemma grantors_mono_fold: "mget (grantors (fold (\<lambda>r. revoke_one r g p) rs m)) k \<subseteq> mget (grantors m) k"
  by (induction rs arbitrary: m) (use grantors_mono_revoke_one in fastforce)+

lemma fold_revoke_from_single:
  "p \<noteq> PAll \<Longrightarrow> fold (\<lambda>r. revoke_from r {p} (Some g)) rs m = fold (\<lambda>r. revoke_one r g p) rs m"
  by (induction rs arbitrary: m) (simp_all add: revoke_from_single)

lemma set_downstream: "set (downstream ks lost p m) = {r. (r, p) \<in> set ks \<and> lost \<in> mget (grantors m) (r, p)}"
  by (force simp: downstream_def)

text \<open>
  The cascade touches only privileges that were delegated, directly or not, by a pending role:
  any property of (role, privilege) pairs that holds of the pending ones and is closed under
  delegation holds of everything that changes.
\<close>

lemma cascade_loop_frame:
  assumes "\<And>r p. (r, p) \<in> set pending \<Longrightarrow> P r p \<and> p \<noteq> PAll"
    and "\<And>a b p. P a p \<Longrightarrow> a \<in> mget (grantors m) (b, p) \<Longrightarrow> P b p"
    and "\<not> P x q"
  shows "same_at x q m (cascade_loop ks pending visited m)"
  using assms
proof (induction ks pending visited m rule: cascade_loop.induct)
  case (1 ks visited m)
  then show ?case by simp
next
  case (2 ks lost p pending visited m)
  let ?ds = "downstream ks lost p m"
  let ?m = "fold (\<lambda>g. revoke_one g lost p) ?ds m"
  have p: "P lost p" "p \<noteq> PAll" using 2(4) [of lost p] by auto
  have rest: "\<And>r q. (r, q) \<in> set pending \<Longrightarrow> P r q \<and> q \<noteq> PAll" using 2(4) by auto
  have ds: "P r p" if "r \<in> set ?ds" for r
    using that 2(5) [of lost p r] p(1) by (auto simp: set_downstream)
  show ?case
  proof (cases "(lost, p) \<in> visited \<or> has_grant_option m lost p")
    case True
    then show ?thesis using 2(1) [OF _ rest 2(5,6)] 2(2) [OF _ _ rest 2(5,6)] by auto
  next
    case False
    have "same_at x q ?m (cascade_loop ks (rev (map (\<lambda>g. (g, p)) ?ds) @ pending) (insert (lost, p) visited) ?m)"
    proof (rule 2(3) [unfolded fold_revoke_from_single [OF p(2)]])
      show "P r s \<and> s \<noteq> PAll" if "(r, s) \<in> set (rev (map (\<lambda>g. (g, p)) ?ds) @ pending)" for r s
        using that rest ds p by auto
      show "P b s" if "P a s" "a \<in> mget (grantors ?m) (b, s)" for a b s
        using that 2(5) grantors_mono_fold [of lost p ?ds m] by blast
    qed (use False 2(6) in auto)
    moreover have "same_at x q m ?m"
      using 2(6) ds by (intro same_at_fold_revoke_one) auto
    ultimately show ?thesis
      using False by (auto simp: fold_revoke_from_single [OF p(2)] intro: same_at_trans)
  qed
qed

section \<open>Delegation chains\<close>

text \<open>
  Every recorded grant was made by a role that may still make it: the owner, or a holder of the
  grant option. \<open>single_source\<close>: no privilege was granted to the same role by two grantors.
\<close>

definition delegation_valid :: "oid \<Rightarrow> privilege_matrix \<Rightarrow> bool" where
  "delegation_valid owner m \<longleftrightarrow>
     (\<forall>a b p. a \<in> mget (grantors m) (b, p) \<longrightarrow> a = owner \<or> p \<in> mget (grant_options m) a)"

definition single_source :: "privilege_matrix \<Rightarrow> bool" where
  "single_source m \<longleftrightarrow> (\<forall>a b k. a \<in> mget (grantors m) k \<longrightarrow> b \<in> mget (grantors m) k \<longrightarrow> a = b)"

definition no_all_option :: "privilege_matrix \<Rightarrow> bool" where
  "no_all_option m \<longleftrightarrow> (\<forall>r. PAll \<notin> mget (grant_options m) r)"

lemma has_grant_option_iff:
  "no_all_option m \<Longrightarrow> has_grant_option m r p \<longleftrightarrow> p \<in> mget (grant_options m) r"
  by (auto simp: has_grant_option_def no_all_option_def mget_def split: option.splits)

lemma grant_options_fold_downstream:
  assumes "distinct rs"
  shows "q \<in> mget (grant_options (fold (\<lambda>r. revoke_one r g p) rs m)) b \<longleftrightarrow>
     q \<in> mget (grant_options m) b \<and> \<not> (q = p \<and> b \<in> set rs \<and> option_lost m g (b, p))"
  using assms
proof (induction rs arbitrary: m)
  case (Cons r rs)
  have "option_lost (revoke_one r g p m) g (b, p) = option_lost m g (b, p)" if "b \<in> set rs"
    using that Cons.prems by (intro option_lost_revoke_one) auto
  with Cons show ?case by (auto simp: matrix_simps mget_mmodify_minus)
qed simp

lemma grantors_fold_downstream:
  "mget (grantors (fold (\<lambda>r. revoke_one r g p) rs m)) (b, q) =
     (if q = p \<and> b \<in> set rs then mget (grantors m) (b, q) - {g} else mget (grantors m) (b, q))"
  by (induction rs arbitrary: m) (auto simp: matrix_simps mget_drop)

lemma distinct_downstream:
  assumes "distinct ks"
  shows "distinct (downstream ks lost p m)"
proof -
  have "inj_on fst {k \<in> set ks. snd k = p \<and> lost \<in> mget (grantors m) k}"
    by (auto simp: inj_on_def prod_eq_iff)
  with assms show ?thesis by (auto simp: downstream_def distinct_map)
qed

lemma fold_downstream_wf: "matrix_wf m \<Longrightarrow> matrix_wf (fold (\<lambda>r. revoke_one r g p) rs m)"
  by (induction rs arbitrary: m) (auto simp: revoke_one_wf)

lemma downstream_option_lost:
  assumes "matrix_wf m" "single_source m" "r \<in> set (downstream ks lost p m)"
  shows "option_lost m lost (r, p)"
proof -
  have "lost \<in> mget (grantors m) (r, p)" using assms(3) by (simp add: set_downstream)
  with assms(2) have "mget (grantors m) (r, p) \<subseteq> {lost}" by (auto simp: single_source_def)
  then show ?thesis
    using assms(1) by (intro sole_source_option_lost) (simp_all add: sole_source_alt)
qed

text \<open>
  The invariant of the worklist. A grantor that lost its option is still to be processed; a
  pending or processed role that kept its option is the only pending role for that privilege.
\<close>

definition cascade_inv ::
  "oid \<Rightarrow> (oid \<times> privilege) list \<Rightarrow> (oid \<times> privilege) list \<Rightarrow> (oid \<times> privilege) set \<Rightarrow> privilege_matrix
     \<Rightarrow> bool" where
  "cascade_inv owner ks pending visited m \<longleftrightarrow>
     matrix_wf m \<and> single_source m \<and> no_all_option m \<and> distinct ks
     \<and> (\<forall>k. mget (grantors m) k \<noteq> {} \<longrightarrow> k \<in> set ks)
     \<and> (\<forall>a p. (a, p) \<in> set pending \<longrightarrow> p \<noteq> PAll)
     \<and> (\<forall>a b p. a \<in> mget (grantors m) (b, p) \<longrightarrow> a \<noteq> owner \<longrightarrow> p \<notin> mget (grant_options m) a \<longrightarrow>
          (a, p) \<in> set pending - visited)
     \<and> (\<forall>a b p. (a, p) \<in> set pending \<union> visited \<longrightarrow> p \<in> mget (grant_options m) a \<longrightarrow>
          (b, p) \<in> set pending \<longrightarrow> b = a)"

lemma cascade_invD:
  assumes "cascade_inv owner ks pending visited m"
  shows "matrix_wf m" "single_source m" "no_all_option m" "distinct ks"
    and "mget (grantors m) k \<noteq> {} \<Longrightarrow> k \<in> set ks"
    and "(a, p) \<in> set pending \<Longrightarrow> p \<noteq> PAll"
    and "a \<in> mget (grantors m) (b, p) \<Longrightarrow> a \<noteq> owner \<Longrightarrow> p \<notin> mget (grant_options m) a \<Longrightarrow>
          (a, p) \<in> set pending \<and> (a, p) \<notin> visited"
    and "(a, p) \<in> set pending \<union> visited \<Longrightarrow> p \<in> mget (grant_options m) a \<Longrightarrow>
          (b, p) \<in> set pending \<Longrightarrow> b = a"
  using assms unfolding cascade_inv_def by (blast, blast, blast, blast, blast, blast, blast, blast)

lemma cascade_invI:
  assumes "matrix_wf m" "single_source m" "no_all_option m" "distinct ks"
    and "\<And>k. mget (grantors m) k \<noteq> {} \<Longrightarrow> k \<in> set ks"
    and "\<And>a p. (a, p) \<in> set pending \<Longrightarrow> p \<noteq> PAll"
    and "\<And>a b p. a \<in> mget (grantors m) (b, p) \<Longrightarrow> a \<noteq> owner \<Longrightarrow> p \<notin> mget (grant_options m) a \<Longrightarrow>
          (a, p) \<in> set pending - visited"
    and "\<And>a b p. (a, p) \<in> set pending \<union> visited \<Longrightarrow> p \<in> mget (grant_options m) a \<Longrightarrow>
          (b, p) \<in> set pending \<Longrightarrow> b = a"
  shows "cascade_inv owner ks pending visited m"
  unfolding cascade_inv_def by (intro conjI allI impI; (rule assms; assumption)?; fact?)

lemma cascade_inv_skip:
  assumes inv: "cascade_inv owner ks ((lost, p) # pending) visited m"
    and skip: "(lost, p) \<in> visited \<or> p \<in> mget (grant_options m) lost"
  shows "cascade_inv owner ks pending (insert (lost, p) visited) m"
proof (rule cascade_invI)
  note I = cascade_invD [OF inv]
  show "matrix_wf m" "single_source m" "no_all_option m" "distinct ks" by (fact I)+
  show "k \<in> set ks" if "mget (grantors m) k \<noteq> {}" for k using I(5) that by blast
  show "q \<noteq> PAll" if "(a, q) \<in> set pending" for a q using I(6) [of a q] that by simp
  show "(a, q) \<in> set pending - insert (lost, p) visited"
    if "a \<in> mget (grantors m) (b, q)" "a \<noteq> owner" "q \<notin> mget (grant_options m) a" for a b q
    using I(7) [OF that] that(3) skip by auto
  show "b = a" if "(a, q) \<in> set pending \<union> insert (lost, p) visited"
      "q \<in> mget (grant_options m) a" "(b, q) \<in> set pending" for a b q
    using that I(8) [of a q b] by auto
qed

lemma cascade_inv_step:
  assumes inv: "cascade_inv owner ks ((lost, p) # pending) visited m"
    and new: "(lost, p) \<notin> visited" and lacks: "p \<notin> mget (grant_options m) lost"
  defines "ds \<equiv> downstream ks lost p m"
  defines "m' \<equiv> fold (\<lambda>r. revoke_one r lost p) ds m"
  shows "cascade_inv owner ks (rev (map (\<lambda>g. (g, p)) ds) @ pending) (insert (lost, p) visited) m'"
proof -
  note I = cascade_invD [OF inv]
  have opt: "q \<in> mget (grant_options m') b \<longleftrightarrow> q \<in> mget (grant_options m) b \<and> \<not> (q = p \<and> b \<in> set ds)" for q b
    using downstream_option_lost [OF I(1,2)]
    by (auto simp: m'_def ds_def grant_options_fold_downstream distinct_downstream I(4))
  have prov: "mget (grantors m') (b, q) =
      (if q = p \<and> b \<in> set ds then mget (grantors m) (b, q) - {lost} else mget (grantors m) (b, q))" for b q
    by (simp add: m'_def grantors_fold_downstream)
  have mono: "mget (grantors m') k \<subseteq> mget (grantors m) k" for k
    unfolding m'_def by (rule grantors_mono_fold)
  have gone: "lost \<notin> mget (grantors m') (b, p)" for b
    using I(5) [of "(b, p)"] by (auto simp: prov ds_def set_downstream)
  have only: "a = lost" if "(a, p) \<in> set ((lost, p) # pending) \<union> visited" "p \<in> mget (grant_options m) a" for a
    using I(8) [OF that, of lost] by simp
  have pend: "(a, q) \<in> set (rev (map (\<lambda>g. (g, p)) ds) @ pending) \<longleftrightarrow> (q = p \<and> a \<in> set ds) \<or> (a, q) \<in> set pending" for a q
    by auto
  show ?thesis
  proof (rule cascade_invI)
    show "matrix_wf m'" unfolding m'_def by (rule fold_downstream_wf [OF I(1)])
    show "single_source m'" using I(2) mono unfolding single_source_def by blast
    show "no_all_option m'" using I(3) opt unfolding no_all_option_def by blast
    show "distinct ks" by (rule I(4))
    show "k \<in> set ks" if "mget (grantors m') k \<noteq> {}" for k using that mono I(5) by blast
    show "q \<noteq> PAll" if "(a, q) \<in> set (rev (map (\<lambda>g. (g, p)) ds) @ pending)" for a q
      using that I(6) [of lost p] I(6) [of a q] by (auto simp: pend)
    show "(a, q) \<in> set (rev (map (\<lambda>g. (g, p)) ds) @ pending) - insert (lost, p) visited"
      if h: "a \<in> mget (grantors m') (b, q)" "a \<noteq> owner" "q \<notin> mget (grant_options m') a" for a b q
    proof (cases "q \<in> mget (grant_options m) a")
      case True
      with h(3) have *: "q = p" "a \<in> set ds" by (auto simp: opt)
      moreover have "a \<noteq> lost" using True lacks * by auto
      moreover have "(a, p) \<notin> visited" using only [of a] True * \<open>a \<noteq> lost\<close> by auto
      ultimately show ?thesis by (auto simp: pend)
    next
      case False
      with I(7) [of a b q] h mono have "(a, q) \<in> set ((lost, p) # pending)" "(a, q) \<notin> visited" by blast+
      moreover have "(a, q) \<noteq> (lost, p)" using h(1) gone by auto
      ultimately show ?thesis by (auto simp: pend)
    qed
    show "b = a" if h: "(a, q) \<in> set (rev (map (\<lambda>g. (g, p)) ds) @ pending) \<union> insert (lost, p) visited"
        "q \<in> mget (grant_options m') a" "(b, q) \<in> set (rev (map (\<lambda>g. (g, p)) ds) @ pending)" for a b q
    proof -
      have o: "q \<in> mget (grant_options m) a" "\<not> (q = p \<and> a \<in> set ds)" using h(2) by (auto simp: opt)
      then have "(a, q) \<in> set pending \<union> visited" using h(1) lacks by (auto simp: pend)
      moreover from this have "q \<noteq> p" using only [of a] o lacks by auto
      ultimately show ?thesis using h(3) I(8) [of a q b] o by (auto simp: pend)
    qed
  qed
qed

lemma cascade_loop_delegation:
  "cascade_inv owner ks pending visited m \<Longrightarrow> delegation_valid owner (cascade_loop ks pending visited m)"
proof (induction ks pending visited m rule: cascade_loop.induct)
  case (1 ks visited m)
  then show ?case unfolding cascade_inv_def delegation_valid_def by fastforce
next
  case (2 ks lost p pending visited m)
  have p: "p \<noteq> PAll" and opt: "has_grant_option m lost p \<longleftrightarrow> p \<in> mget (grant_options m) lost"
    using cascade_invD(3,6) [OF 2(4)] by (auto simp: has_grant_option_iff)
  show ?case
  proof (cases "(lost, p) \<in> visited \<or> has_grant_option m lost p")
    case True
    with opt have "cascade_inv owner ks pending (insert (lost, p) visited) m"
      by (intro cascade_inv_skip [OF 2(4)]) auto
    with True 2(1,2) show ?thesis by (auto simp: insert_absorb)
  next
    case False
    then show ?thesis
      using 2(3) cascade_inv_step [OF 2(4)] opt by (simp add: fold_revoke_from_single [OF p])
  qed
qed

lemma PAll_not_expanded: "PAll \<notin> expand_privileges m role ps"
  by (simp add: expand_privileges_def)

lemma revoke_from_maps:
  assumes "PAll \<notin> ps"
  shows "mget (grantors (revoke_from role ps grantor m)) k \<subseteq> mget (grantors m) k"
    and "mget (grant_options (revoke_from role ps grantor m)) r \<subseteq> mget (grant_options m) r"
    and "p \<in> mget (grant_options m) r \<Longrightarrow> \<not> (r = role \<and> p \<in> ps) \<Longrightarrow>
           p \<in> mget (grant_options (revoke_from role ps grantor m)) r"
proof -
  have rv: "mget (grantors (revoke role ps m)) k \<subseteq> mget (grantors m) k"
    by (auto simp: mget_def revoke_def remove_grant_provenance_def revoke_grant_option_def split: option.splits)
  have ro: "mget (grant_options (revoke role ps m)) r =
      (if r = role then strip ps (mget (grant_options m) r) else mget (grant_options m) r)"
    by (simp add: revoke_def remove_grant_provenance_def revoke_grant_option_def mget_mmodify_strip)
  have fv: "mget (grantors (fold (revoke_one role g) xs m)) k \<subseteq> mget (grantors m) k" for g xs
    by (induction xs arbitrary: m) (use grantors_mono_revoke_one in fastforce)+
  have e: "expand_privileges m role ps = ps" using assms by (simp add: expand_privileges_def)
  show "mget (grantors (revoke_from role ps grantor m)) k \<subseteq> mget (grantors m) k"
    using rv fv by (auto simp: revoke_from_def split: option.splits)
  show "mget (grant_options (revoke_from role ps grantor m)) r \<subseteq> mget (grant_options m) r"
    using assms by (auto simp: revoke_from_def ro strip_def e grant_options_fold_revoke_one split: option.splits if_splits)
  show "p \<in> mget (grant_options (revoke_from role ps grantor m)) r"
    if "p \<in> mget (grant_options m) r" "\<not> (r = role \<and> p \<in> ps)"
    using that assms by (auto simp: revoke_from_def ro strip_def e grant_options_fold_revoke_one split: option.splits)
qed

lemma cascade_inv_start:
  assumes "matrix_wf m" "single_source m" "no_all_option m" "distinct ks" "delegation_valid owner m"
    and ks: "\<And>k. mget (grantors m) k \<noteq> {} \<Longrightarrow> k \<in> set ks" and ps: "PAll \<notin> ps"
  shows "cascade_inv owner ks (rev (map (\<lambda>p. (role, p)) (privilege_list ps))) {} (revoke_from role ps grantor m)"
proof (rule cascade_invI)
  note M = revoke_from_maps [OF ps, where role = role and grantor = grantor and m = m]
  show "matrix_wf (revoke_from role ps grantor m)" by (rule revoke_from_wf [OF assms(1)])
  show "single_source (revoke_from role ps grantor m)"
    using assms(2) M(1) unfolding single_source_def by blast
  show "no_all_option (revoke_from role ps grantor m)"
    using assms(3) M(2) unfolding no_all_option_def by blast
  show "distinct ks" by (rule assms(4))
  show "k \<in> set ks" if "mget (grantors (revoke_from role ps grantor m)) k \<noteq> {}" for k
    using that ks M(1) by blast
  show "p \<noteq> PAll" if "(a, p) \<in> set (rev (map (\<lambda>p. (role, p)) (privilege_list ps)))" for a p
    using that ps by auto
  show "(a, p) \<in> set (rev (map (\<lambda>p. (role, p)) (privilege_list ps))) - {}"
    if h: "a \<in> mget (grantors (revoke_from role ps grantor m)) (b, p)" "a \<noteq> owner"
      "p \<notin> mget (grant_options (revoke_from role ps grantor m)) a" for a b p
  proof -
    have "a \<in> mget (grantors m) (b, p)" using h(1) M(1) by blast
    then have "p \<in> mget (grant_options m) a" using assms(5) h(2) unfolding delegation_valid_def by blast
    then have "a = role \<and> p \<in> ps" using h(3) M(3) [of p a] by blast
    then show ?thesis by auto
  qed
  show "b = a" if "(a, p) \<in> set (rev (map (\<lambda>p. (role, p)) (privilege_list ps))) \<union> {}"
      "(b, p) \<in> set (rev (map (\<lambda>p. (role, p)) (privilege_list ps)))" for a b p
    using that by auto
qed

section \<open>Properties\<close>

text \<open>
  C6. whatever sequence of grants and revokes the analyzer performs, the matrix stays coherent: a
  role that may re-grant a privilege holds it, every recorded source belongs to a privilege that
  is held, every source of a grant option is also a source of the grant, and no provenance entry
  is empty.
\<close>

theorem reachable_matrix_coherent:
  assumes "reachable_matrix m"
  shows "(has_grant_option m r p \<longrightarrow> has_privilege m r p)
    \<and> (grantors m (r, p) \<noteq> None \<longrightarrow> has_privilege m r p)
    \<and> (grant_option_grantors m (r, p) \<noteq> None \<longrightarrow> has_grant_option m r p)
    \<and> mget (grant_option_grantors m) (r, p) \<subseteq> mget (grantors m) (r, p)
    \<and> grantors m (r, p) \<noteq> Some {} \<and> grant_option_grantors m (r, p) \<noteq> Some {}"
proof -
  note wf = matrix_wfD [OF reachable_matrix_wf [OF assms]]
  have hp: "has_privilege m r p \<longleftrightarrow> p \<in> mget (grants m) r \<or> p \<noteq> PAll \<and> PAll \<in> mget (grants m) r"
    by (auto simp: has_privilege_def mget_def split: option.splits)
  have ho: "has_grant_option m r p \<longleftrightarrow>
      p \<in> mget (grant_options m) r \<or> p \<noteq> PAll \<and> PAll \<in> mget (grant_options m) r"
    by (auto simp: has_grant_option_def mget_def split: option.splits)
  show ?thesis
    using wf(1) [of r] wf(2-4) [of "(r, p)"] wf(5,6) [of r p] by (auto simp: hp ho)
qed

text \<open>
  a targeted revoke withdraws exactly the privileges whose only known source is the revoking
  grantor: after \<open>revoke_from\<close> a role still holds \<open>p\<close> if and only if it held \<open>p\<close> before and, when
  \<open>p\<close> was revoked, another grantor is on record for it.
\<close>

theorem targeted_revoke_exact:
  "p \<in> mget (grants (revoke_from role ps (Some g) m)) r \<longleftrightarrow>
     p \<in> mget (grants m) r
     \<and> (r = role \<and> p \<in> expand_privileges m role ps \<longrightarrow> (\<exists>g'. g' \<noteq> g \<and> g' \<in> mget (grantors m) (role, p)))"
  by (auto simp: revoke_from_def grants_fold_revoke_one sole_source_alt)

text \<open>
  C27. In a coherent matrix, granting privileges that the role does not hold on behalf of a grantor and
  revoking them for the same grantor returns the matrix to where it was: every role has the
  privileges and grant options it had, although an empty entry may stay behind, and the recorded
  provenance is the same. \<^verbatim>\<open>ALL\<close> is excluded: revoking it takes everything the role holds.
\<close>

theorem grant_revoke_roundtrip:
  assumes "matrix_wf m" and "PAll \<notin> ps" and "ps \<inter> mget (grants m) role = {}"
  shows "let m' = revoke_from role ps (Some g) (grant_from role ps (Some g) w m) in
    mget (grants m') = mget (grants m) \<and> mget (grant_options m') = mget (grant_options m)
    \<and> grantors m' = grantors m \<and> grant_option_grantors m' = grant_option_grantors m"
proof -
  let ?m = "grant_from role ps (Some g) w m"
  let ?m' = "revoke_from role ps (Some g) ?m"
  note wf = matrix_wfD [OF assms(1)]
  have e: "expand_privileges ?m role ps = ps" using assms(2) by (simp add: expand_privileges_def)
  have none: "grantors m (role, p) = None" "grant_option_grantors m (role, p) = None" if "p \<in> ps" for p
    using that assms(3) wf(1) [of role] wf(5) [of role p] wf(6) [of role p] by fastforce+
  have sole: "sole_source ?m g (role, p)" "option_lost ?m g (role, p)" if "p \<in> ps" for p
    using none [OF that] that by (auto simp: sole_source_def option_lost_def matrix_simps mget_def)
  then have "{p \<in> ps. sole_source ?m g (role, p)} = ps" "{p \<in> ps. option_lost ?m g (role, p)} = ps"
    by auto
  then have "mget (grants ?m') r = mget (grants m) r" "mget (grant_options ?m') r = mget (grant_options m) r" for r
    using assms(3) wf(1) [of role]
    by (auto simp: revoke_from_def e grants_fold_revoke_one grant_options_fold_revoke_one matrix_simps)
  moreover have "grantors ?m' k = grantors m k" "grant_option_grantors ?m' k = grant_option_grantors m k" for k
    using none [of "snd k"] by (cases k; simp add: revoke_from_def e grantors_fold_revoke_one
        grant_option_grantors_fold_revoke_one matrix_simps mget_def)+
  ultimately show ?thesis unfolding Let_def fun_eq_iff by blast
qed

theorem grant_revoke_roundtrip_witness:
  "let m = grant_from (Oid [] ''a'') {PSelect} (Some (Oid [] ''o'')) True matrix_default;
       m' = revoke_from (Oid [] ''a'') {PInsert} (Some (Oid [] ''o''))
              (grant_from (Oid [] ''a'') {PInsert} (Some (Oid [] ''o'')) True m)
   in mget (grants m') = mget (grants m) \<and> grantors m' = grantors m"
  using grant_revoke_roundtrip
    [of "grant_from (Oid [] ''a'') {PSelect} (Some (Oid [] ''o'')) True matrix_default" "{PInsert}"
      "Oid [] ''a''" "Oid [] ''o''" True]
  by (simp add: Let_def grant_from_wf matrix_simps) (simp add: matrix_default_def mget_def)

text \<open>
  a cascading revoke is confined to the delegation chains of the revoked role: a privilege
  that a role does not hold through a chain of grants starting at the revoked role keeps its
  grant, its grant option and all of its provenance.
\<close>

theorem cascade_confined:
  assumes "(role, x) \<notin> {(a, b). a \<in> mget (grantors m) (b, q)}\<^sup>*"
  shows "same_at x q m (revoke_from_cascade ks role ps grantor c m)"
proof -
  let ?E = "expand_privileges m role ps"
  let ?m1 = "revoke_from role ?E grantor m"
  let ?P = "\<lambda>a p. (role, a) \<in> {(a, b). a \<in> mget (grantors m) (b, p)}\<^sup>*"
  have "x \<noteq> role" using assms by auto
  have e: "expand_privileges m role ?E = ?E" by (simp add: expand_privileges_def)
  have m1: "same_at x q m ?m1"
    using \<open>x \<noteq> role\<close> e
    by (cases grantor)
      (auto simp: same_at_def revoke_from_def revoke_def remove_grant_provenance_def revoke_grant_option_def
        addressed_def mget_mmodify_strip grantors_fold_revoke_one grant_option_grantors_fold_revoke_one
        grants_fold_revoke_one grant_options_fold_revoke_one)
  have "same_at x q ?m1 (cascade_loop ks (rev (map (\<lambda>p. (role, p)) (privilege_list ?E))) {} ?m1)"
  proof (rule cascade_loop_frame [where P = ?P])
    show "?P r p \<and> p \<noteq> PAll" if "(r, p) \<in> set (rev (map (\<lambda>p. (role, p)) (privilege_list ?E)))" for r p
      using that PAll_not_expanded [of m role ps] by auto
    show "?P b p" if "?P a p" "a \<in> mget (grantors ?m1) (b, p)" for a b p
      using that revoke_from_maps(1) [OF PAll_not_expanded [of m role ps], of role grantor m "(b, p)"]
      by (auto intro: rtrancl_into_rtrancl)
  qed (rule assms)
  with m1 show ?thesis
    by (auto simp: revoke_from_cascade_def Let_def intro: same_at_trans)
qed


text \<open>
  when no privilege has two grantors, a cascading revoke leaves no dangling grant: if every
  recorded grant was made by the owner or by a role that may re-grant the privilege, the same
  holds afterwards, so each grant whose grantor lost its option has been withdrawn too, whatever
  the order in which the hash map yields its entries.
\<close>

theorem cascade_leaves_no_dangling_grant:
  assumes "matrix_wf m" "single_source m" "no_all_option m" "delegation_valid owner m"
    and "distinct ks" "set ks = dom (grantors m)"
  shows "delegation_valid owner (revoke_from_cascade ks role ps grantor True m)"
proof -
  let ?E = "expand_privileges m role ps"
  have "k \<in> set ks" if "mget (grantors m) k \<noteq> {}" for k
    using that assms(6) by (auto simp: mget_def split: option.splits)
  then have "cascade_inv owner ks (rev (map (\<lambda>p. (role, p)) (privilege_list ?E))) {}
      (revoke_from role ?E grantor m)"
    using assms PAll_not_expanded by (intro cascade_inv_start)
  then show ?thesis
    by (simp add: revoke_from_cascade_def Let_def cascade_loop_delegation)
qed

definition sample_role :: "string \<Rightarrow> oid" where
  "sample_role n = Oid [] n"

definition sample_chain :: privilege_matrix where
  "sample_chain =
     grant_from (sample_role ''b'') {PSelect} (Some (sample_role ''a'')) False
       (grant_from (sample_role ''a'') {PSelect} (Some (sample_role ''o'')) True matrix_default)"

lemma mget_matrix_default [simp]:
  "mget (grants matrix_default) r = {}" "mget (grant_options matrix_default) r = {}"
  "mget (grantors matrix_default) k = {}" "mget (grant_option_grantors matrix_default) k = {}"
  by (simp_all add: matrix_default_def mget_def)

lemma sample_role_eq [simp]: "sample_role a = sample_role b \<longleftrightarrow> a = b"
  by (simp add: sample_role_def)

lemma sample_chain_grantors:
  "grantors sample_chain =
     [(sample_role ''a'', PSelect) \<mapsto> {sample_role ''o''}, (sample_role ''b'', PSelect) \<mapsto> {sample_role ''a''}]"
  by (auto simp: sample_chain_def matrix_simps fun_eq_iff matrix_default_def mget_def sample_role_def)

lemma sample_chain_sources:
  "mget (grantors sample_chain) k =
     (if k = (sample_role ''b'', PSelect) then {sample_role ''a''}
      else if k = (sample_role ''a'', PSelect) then {sample_role ''o''} else {})"
  by (simp add: sample_chain_grantors mget_def)

lemma sample_chain_options:
  "mget (grant_options sample_chain) r = (if r = sample_role ''a'' then {PSelect} else {})"
  by (auto simp: sample_chain_def matrix_simps)

lemma sample_chain_wf: "matrix_wf sample_chain"
  by (simp add: sample_chain_def grant_from_wf)

theorem cascade_leaves_no_dangling_grant_witness:
  "delegation_valid (sample_role ''o'')
     (revoke_from_cascade [(sample_role ''b'', PSelect), (sample_role ''a'', PSelect)] (sample_role ''a'')
        {PSelect} (Some (sample_role ''o'')) True sample_chain)"
proof (rule cascade_leaves_no_dangling_grant [OF sample_chain_wf])
  show "single_source sample_chain"
    by (auto simp: single_source_def sample_chain_grantors mget_def split: if_splits)
  show "no_all_option sample_chain" by (simp add: no_all_option_def sample_chain_options)
  show "delegation_valid (sample_role ''o'') sample_chain"
    by (auto simp: delegation_valid_def sample_chain_sources sample_chain_options split: if_splits)
qed (auto simp: sample_chain_grantors sample_role_def)

definition sample_diamond :: privilege_matrix where
  "sample_diamond =
     grant_from (sample_role ''z'') {PSelect} (Some (sample_role ''x'')) False
     (grant_from (sample_role ''x'') {PSelect} (Some (sample_role ''y'')) True
     (grant_from (sample_role ''y'') {PSelect} (Some (sample_role ''r'')) True
     (grant_from (sample_role ''x'') {PSelect} (Some (sample_role ''r'')) True
     (grant_from (sample_role ''r'') {PSelect} (Some (sample_role ''o'')) True matrix_default))))"

definition sample_order1 :: "(oid \<times> privilege) list" where
  "sample_order1 = map (\<lambda>n. (sample_role n, PSelect)) [''x'', ''y'', ''z'', ''r'']"

definition sample_order2 :: "(oid \<times> privilege) list" where
  "sample_order2 = map (\<lambda>n. (sample_role n, PSelect)) [''y'', ''x'', ''z'', ''r'']"

lemma sample_diamond_dom: "dom (grantors sample_diamond) = set sample_order1"
  by (auto simp: sample_diamond_def matrix_simps matrix_default_def sample_order1_def split: if_splits)

definition sample_result :: "(oid \<times> privilege) list \<Rightarrow> privilege_matrix" where
  "sample_result ks =
     revoke_from_cascade ks (sample_role ''r'') {PSelect} (Some (sample_role ''o'')) True sample_diamond"

lemma sample_result1:
  "\<not> has_privilege (sample_result sample_order1) (sample_role ''x'') PSelect
   \<and> \<not> has_privilege (sample_result sample_order1) (sample_role ''z'') PSelect"
  by code_simp

lemma sample_result2:
  "\<not> has_privilege (sample_result sample_order2) (sample_role ''x'') PSelect
   \<and> \<not> has_grant_option (sample_result sample_order2) (sample_role ''x'') PSelect
   \<and> has_privilege (sample_result sample_order2) (sample_role ''z'') PSelect
   \<and> sample_role ''x'' \<in> mget (grantors (sample_result sample_order2)) (sample_role ''z'', PSelect)"
  by code_simp

text \<open>
  with two grantors for one privilege the cascade depends on the iteration order of the hash
  map. Both orders below list the provenance entries of the same reachable matrix, in which \<open>r\<close>
  delegated to \<open>x\<close> and \<open>y\<close>, \<open>y\<close> also delegated to \<open>x\<close>, and \<open>x\<close> granted to \<open>z\<close>. Revoking \<open>r\<close>
  strips \<open>x\<close> under either order, but under the second one \<open>z\<close> keeps what \<open>x\<close> granted: \<open>x\<close> was
  visited while \<open>y\<close> still backed it and is not visited again after \<open>y\<close> is stripped.
\<close>

theorem cascade_depends_on_hash_order:
  "\<exists>m ks ks' r g x z. reachable_matrix m \<and> distinct ks \<and> distinct ks'
     \<and> set ks = dom (grantors m) \<and> set ks' = dom (grantors m)
     \<and> \<not> has_privilege (revoke_from_cascade ks r {PSelect} (Some g) True m) z PSelect
     \<and> has_privilege (revoke_from_cascade ks' r {PSelect} (Some g) True m) z PSelect
     \<and> x \<in> mget (grantors (revoke_from_cascade ks' r {PSelect} (Some g) True m)) (z, PSelect)
     \<and> \<not> has_grant_option (revoke_from_cascade ks' r {PSelect} (Some g) True m) x PSelect"
proof (intro exI conjI)
  show "reachable_matrix sample_diamond"
    unfolding sample_diamond_def by (intro rm_grant rm_default)
  show "distinct sample_order1" "distinct sample_order2"
    by (simp_all add: sample_order1_def sample_order2_def sample_role_def)
  show "set sample_order1 = dom (grantors sample_diamond)" "set sample_order2 = dom (grantors sample_diamond)"
    by (auto simp: sample_diamond_dom sample_order1_def sample_order2_def)
  show "\<not> has_privilege (revoke_from_cascade sample_order1 (sample_role ''r'') {PSelect}
      (Some (sample_role ''o'')) True sample_diamond) (sample_role ''z'') PSelect"
    using sample_result1 by (simp add: sample_result_def)
  show "has_privilege (revoke_from_cascade sample_order2 (sample_role ''r'') {PSelect}
      (Some (sample_role ''o'')) True sample_diamond) (sample_role ''z'') PSelect"
    "sample_role ''x'' \<in> mget (grantors (revoke_from_cascade sample_order2 (sample_role ''r'') {PSelect}
      (Some (sample_role ''o'')) True sample_diamond)) (sample_role ''z'', PSelect)"
    "\<not> has_grant_option (revoke_from_cascade sample_order2 (sample_role ''r'') {PSelect}
      (Some (sample_role ''o'')) True sample_diamond) (sample_role ''x'') PSelect"
    using sample_result2 by (simp_all add: sample_result_def)
qed

theorem reachable_matrix_coherent_witness:
  "has_grant_option sample_chain (sample_role ''a'') PSelect
   \<and> has_privilege sample_chain (sample_role ''a'') PSelect"
proof -
  have r: "reachable_matrix sample_chain"
    unfolding sample_chain_def by (intro rm_grant rm_default)
  have o: "has_grant_option sample_chain (sample_role ''a'') PSelect" by code_simp
  show ?thesis using reachable_matrix_coherent [OF r, of "sample_role ''a''" PSelect] o by simp
qed

theorem targeted_revoke_exact_witness:
  "PSelect \<notin> mget (grants (revoke_from (sample_role ''b'') {PSelect} (Some (sample_role ''a'')) sample_chain))
     (sample_role ''b'')"
  by (simp add: targeted_revoke_exact sample_chain_sources expand_privileges_def)

theorem cascade_confined_witness:
  "same_at (sample_role ''a'') PSelect sample_chain
     (revoke_from_cascade [(sample_role ''a'', PSelect), (sample_role ''b'', PSelect)] (sample_role ''b'')
        {PSelect} (Some (sample_role ''a'')) True sample_chain)"
proof (rule cascade_confined)
  show "(sample_role ''b'', sample_role ''a'') \<notin> {(a, b). a \<in> mget (grantors sample_chain) (b, PSelect)}\<^sup>*"
  proof
    assume "(sample_role ''b'', sample_role ''a'') \<in> {(a, b). a \<in> mget (grantors sample_chain) (b, PSelect)}\<^sup>*"
    then show False
      by (cases rule: converse_rtranclE) (auto simp: sample_chain_sources split: if_splits)
  qed
qed

end
