(* ===== verification/Expr_IR.thy ===== *)
theory Expr_IR
  imports Identifiers
begin

text \<open>
  The expression IR (\<^verbatim>\<open>src/src/_internal/analysis/expr_ir.rs\<close>): column references, opacity and
  volatility. The column collector threads its \<^verbatim>\<open>BTreeSet\<close> as a set. The lemmas relate the three
  analyses to the structure of the expression and, for column references, to what an expression
  can depend on under any interpretation of its functions and operators.
\<close>

datatype expr_ir =
    Literal string
  | ColumnRef string
  | FunctionCall string "expr_ir list"
  | BinaryOp expr_ir string expr_ir
  | Cast expr_ir string
  | Sentinel string
  | Omitted
  | UnaryOp string expr_ir

section \<open>Analyses\<close>

fun collect :: "expr_ir \<Rightarrow> string set \<Rightarrow> string set option"
  and collect_args :: "expr_ir list \<Rightarrow> string set \<Rightarrow> string set option" where
  "collect (Literal _) cs = Some cs"
| "collect (ColumnRef column) cs = Some (insert column cs)"
| "collect (FunctionCall _ args) cs = collect_args args cs"
| "collect (BinaryOp left _ right) cs =
     (case collect left cs of None \<Rightarrow> None | Some cs' \<Rightarrow> collect right cs')"
| "collect (Cast expr _) cs = collect expr cs"
| "collect (UnaryOp _ expr) cs = collect expr cs"
| "collect (Sentinel _) cs = None"
| "collect Omitted cs = None"
| "collect_args [] cs = Some cs"
| "collect_args (a # as) cs =
     (case collect a cs of None \<Rightarrow> None | Some cs' \<Rightarrow> collect_args as cs')"

definition referenced_columns :: "expr_ir \<Rightarrow> string set option" where
  "referenced_columns e = collect e {}"

definition sentinels :: "string list" where
  "sentinels =
     [''<array>'', ''<between>'', ''<case>'', ''<cast_inner>'', ''<collation>'', ''<complex>'',
      ''<field>'', ''<fn>'', ''<index>'', ''<lhs>'', ''<op>'', ''<paren>'', ''<postfix>'',
      ''<prefix>'', ''<rhs>'', ''<slice>'', ''<type>'']"

definition is_sentinel :: "string \<Rightarrow> bool" where
  "is_sentinel v \<longleftrightarrow> List.member sentinels v"

fun contains_opaque :: "expr_ir \<Rightarrow> bool" where
  "contains_opaque (Sentinel _) = True"
| "contains_opaque (Literal _) = False"
| "contains_opaque (ColumnRef _) = False"
| "contains_opaque (FunctionCall name args) = (is_sentinel name \<or> list_ex contains_opaque args)"
| "contains_opaque (BinaryOp left op right) =
     (is_sentinel op \<or> contains_opaque left \<or> contains_opaque right)"
| "contains_opaque (Cast expr target_type) = (is_sentinel target_type \<or> contains_opaque expr)"
| "contains_opaque (UnaryOp op expr) =
     (\<not> (op = ''+'' \<or> op = ''-'' \<or> op = ''NOT'') \<or> contains_opaque expr)"
| "contains_opaque Omitted = True"

definition volatile_functions :: "string list" where
  "volatile_functions =
     [''clock_timestamp'', ''timeofday'', ''random'', ''setseed'', ''txid_current'',
      ''txid_current_snapshot'', ''txid_snapshot_xip'', ''txid_snapshot_xmax'',
      ''txid_snapshot_xmin'', ''nextval'', ''currval'', ''lastval'', ''setval'',
      ''gen_random_uuid'', ''uuid_generate_v1'', ''uuid_generate_v1mc'', ''uuid_generate_v4'']"

text \<open>\<^verbatim>\<open>str::strip_prefix\<close>.\<close>

definition strip_prefix :: "string \<Rightarrow> string \<Rightarrow> string option" where
  "strip_prefix pre s = (if take (length pre) s = pre then Some (drop (length pre) s) else None)"

definition known_volatile :: "string \<Rightarrow> bool" where
  "known_volatile name \<longleftrightarrow>
     (let normalized = to_ascii_lowercase name
      in List.member volatile_functions normalized
         \<or> (case strip_prefix ''pg_catalog.'' normalized of
              None \<Rightarrow> False
            | Some rest \<Rightarrow> List.member volatile_functions rest))"

fun is_volatile :: "expr_ir \<Rightarrow> bool" where
  "is_volatile (FunctionCall name args) = (known_volatile name \<or> list_ex is_volatile args)"
| "is_volatile (BinaryOp left _ right) = (is_volatile left \<or> is_volatile right)"
| "is_volatile (Cast expr _) = is_volatile expr"
| "is_volatile (UnaryOp _ expr) = is_volatile expr"
| "is_volatile (Sentinel _) = False"
| "is_volatile (Literal _) = False"
| "is_volatile (ColumnRef _) = False"
| "is_volatile Omitted = False"

section \<open>Subexpressions\<close>

fun subexprs :: "expr_ir \<Rightarrow> expr_ir set" where
  "subexprs (FunctionCall f args) = insert (FunctionCall f args) (\<Union>a \<in> set args. subexprs a)"
| "subexprs (BinaryOp l op r) = insert (BinaryOp l op r) (subexprs l \<union> subexprs r)"
| "subexprs (Cast e ty) = insert (Cast e ty) (subexprs e)"
| "subexprs (UnaryOp op e) = insert (UnaryOp op e) (subexprs e)"
| "subexprs e = {e}"

definition lost_syntax :: "expr_ir \<Rightarrow> bool" where
  "lost_syntax e \<longleftrightarrow> Omitted \<in> subexprs e \<or> (\<exists>s. Sentinel s \<in> subexprs e)"

definition columns_in :: "expr_ir \<Rightarrow> string set" where
  "columns_in e = {c. ColumnRef c \<in> subexprs e}"

lemma lost_syntax_simps [simp]:
  "\<not> lost_syntax (Literal v)" "\<not> lost_syntax (ColumnRef c)" "lost_syntax (Sentinel s)" "lost_syntax Omitted"
  "lost_syntax (FunctionCall f args) \<longleftrightarrow> (\<exists>a \<in> set args. lost_syntax a)"
  "lost_syntax (BinaryOp l op r) \<longleftrightarrow> lost_syntax l \<or> lost_syntax r"
  "lost_syntax (Cast e ty) \<longleftrightarrow> lost_syntax e"
  "lost_syntax (UnaryOp op e) \<longleftrightarrow> lost_syntax e"
  by (auto simp: lost_syntax_def)

lemma columns_in_simps [simp]:
  "columns_in (Literal v) = {}" "columns_in (ColumnRef c) = {c}" "columns_in (Sentinel s) = {}"
  "columns_in Omitted = {}" "columns_in (FunctionCall f args) = (\<Union>a \<in> set args. columns_in a)"
  "columns_in (BinaryOp l op r) = columns_in l \<union> columns_in r"
  "columns_in (Cast e ty) = columns_in e" "columns_in (UnaryOp op e) = columns_in e"
  by (auto simp: columns_in_def)

lemma collect_spec:
  "collect e cs = (if lost_syntax e then None else Some (cs \<union> columns_in e))"
  "collect_args as cs =
     (if \<exists>a \<in> set as. lost_syntax a then None else Some (cs \<union> (\<Union>a \<in> set as. columns_in a)))"
  by (induction e cs and as cs rule: collect_collect_args.induct) auto

section \<open>What an expression can depend on\<close>

text \<open>
  Evaluation under an interpretation of literals, functions, binary operators, casts and unary
  operators and a row \<open>env\<close>; syntax that the conversion lost has no value.
\<close>

record 'v interpretation_of =
  literal_of :: "string \<Rightarrow> 'v"
  function_of :: "string \<Rightarrow> 'v list \<Rightarrow> 'v"
  binary_of :: "string \<Rightarrow> 'v \<Rightarrow> 'v \<Rightarrow> 'v"
  cast_of :: "string \<Rightarrow> 'v \<Rightarrow> 'v"
  unary_of :: "string \<Rightarrow> 'v \<Rightarrow> 'v"

fun evaluate :: "'v interpretation_of \<Rightarrow> (string \<Rightarrow> 'v) \<Rightarrow> expr_ir \<Rightarrow> 'v option" where
  "evaluate I env (Literal v) = Some (literal_of I v)"
| "evaluate I env (ColumnRef c) = Some (env c)"
| "evaluate I env (FunctionCall f args) =
     (let vs = map (evaluate I env) args
      in if list_all (\<lambda>v. v \<noteq> None) vs then Some (function_of I f (map the vs)) else None)"
| "evaluate I env (BinaryOp l op r) =
     (case (evaluate I env l, evaluate I env r) of
        (Some a, Some b) \<Rightarrow> Some (binary_of I op a b) | _ \<Rightarrow> None)"
| "evaluate I env (Cast e ty) = map_option (cast_of I ty) (evaluate I env e)"
| "evaluate I env (UnaryOp op e) = map_option (unary_of I op) (evaluate I env e)"
| "evaluate I env (Sentinel _) = None"
| "evaluate I env Omitted = None"

lemma evaluate_None_iff: "evaluate I env e = None \<longleftrightarrow> lost_syntax e"
  by (induction e) (auto simp: list_all_iff Let_def simp del: not_None_eq split: option.splits)

lemma evaluate_cong:
  "(\<And>c. c \<in> columns_in e \<Longrightarrow> env c = env' c) \<Longrightarrow> evaluate I env e = evaluate I env' e"
proof (induction e)
  case (FunctionCall f args)
  then have "map (evaluate I env) args = map (evaluate I env') args" by auto
  then show ?case by (simp only: evaluate.simps)
next
  case (BinaryOp l op r)
  then have "evaluate I env l = evaluate I env' l" "evaluate I env r = evaluate I env' r" by auto
  then show ?case by simp
qed auto

text \<open>
  the columns reported for an expression are complete. When \<open>referenced_columns\<close> answers, the
  expression has a value under every interpretation, it is determined by the reported columns
  alone, and each reported column is referenced; it answers whenever no part of the expression is
  opaque.
\<close>

theorem referenced_columns_complete:
  "(\<forall>cs. referenced_columns e = Some cs \<longrightarrow>
      cs = columns_in e
      \<and> (\<forall>(I :: 'v interpretation_of) env. \<not> evaluate I env e = None)
      \<and> (\<forall>(I :: 'v interpretation_of) env env'.
           (\<forall>c \<in> cs. env c = env' c) \<longrightarrow> evaluate I env e = evaluate I env' e))
   \<and> (\<not> contains_opaque e \<longrightarrow> referenced_columns e \<noteq> None)"
proof -
  have "\<not> contains_opaque e \<Longrightarrow> \<not> lost_syntax e"
    by (induction e) (auto simp: list_ex_iff)
  then show ?thesis
    by (auto simp: referenced_columns_def collect_spec evaluate_None_iff simp del: not_None_eq
        intro: evaluate_cong split: if_splits)
qed

theorem referenced_columns_complete_witness:
  "referenced_columns (BinaryOp (ColumnRef ''a'') ''+'' (Literal ''1'')) = Some {''a''}
   \<and> evaluate \<lparr>literal_of = (\<lambda>_. 1), function_of = (\<lambda>_ _. 0), binary_of = (\<lambda>_ x y. x + y),
        cast_of = (\<lambda>_ x. x), unary_of = (\<lambda>_ x. - x)\<rparr> (\<lambda>c. if c = ''a'' then 2 else 7)
        (BinaryOp (ColumnRef ''a'') ''+'' (Literal ''1''))
      = evaluate \<lparr>literal_of = (\<lambda>_. 1), function_of = (\<lambda>_ _. 0), binary_of = (\<lambda>_ x y. x + y),
        cast_of = (\<lambda>_ x. x), unary_of = (\<lambda>_ x. - x)\<rparr> (\<lambda>_. 2 :: int)
        (BinaryOp (ColumnRef ''a'') ''+'' (Literal ''1''))"
  using referenced_columns_complete [where ?'v = int, of "BinaryOp (ColumnRef ''a'') ''+'' (Literal ''1'')"]
  by (simp add: referenced_columns_def)

text \<open>
  an expression is volatile exactly when a call of a known volatile function occurs somewhere
  inside it, at any depth.
\<close>

theorem is_volatile_iff:
  "is_volatile e \<longleftrightarrow> (\<exists>f args. FunctionCall f args \<in> subexprs e \<and> known_volatile f)"
proof (induction e)
  case (FunctionCall f args)
  have "is_volatile (FunctionCall f args) \<longleftrightarrow> known_volatile f \<or> (\<exists>a \<in> set args. is_volatile a)"
    by (simp add: list_ex_iff)
  also have "\<dots> \<longleftrightarrow> known_volatile f
      \<or> (\<exists>a \<in> set args. \<exists>g as. FunctionCall g as \<in> subexprs a \<and> known_volatile g)"
    using FunctionCall.IH by (simp cong: bex_cong)
  finally show ?case by (auto simp only: subexprs.simps insert_iff UN_iff expr_ir.inject)
next
  case (BinaryOp l op r)
  then show ?case by (simp only: is_volatile.simps subexprs.simps) blast
qed auto

end
