(* ===== verification/Index_Model.thy ===== *)
theory Index_Model
  imports Expr_IR "HOL-Library.Word"
begin

text \<open>
  The structural description of an index (\<^verbatim>\<open>src/src/_internal/model/index.rs\<close>) and the three-valued
  comparison that decides whether PostgreSQL would attach one index to another. The comparison is
  related to a two-valued specification, \<open>compare_index_info\<close>, over fully established
  descriptions: a definite verdict agrees with the specification on every pair of completions.
\<close>

unbundle bit_operations_syntax

section \<open>Data\<close>

datatype resolved_name = ResolvedName (rn_schema: string) (rn_name: string)

datatype index_order = OrderDefault | DescNullsLast | AscNullsFirst

definition from_indoption :: "16 word \<Rightarrow> bool \<Rightarrow> index_order" where
  "from_indoption bits can_order =
     (if \<not> can_order then OrderDefault
      else case (bits AND 0x1 \<noteq> 0, bits AND 0x2 \<noteq> 0) of
          (False, False) \<Rightarrow> OrderDefault
        | (True, True) \<Rightarrow> OrderDefault
        | (True, False) \<Rightarrow> DescNullsLast
        | (False, True) \<Rightarrow> AscNullsFirst)"

datatype index_key_kind = KeyColumn string | KeyExpression "expr_ir option"

fun as_column :: "index_key_kind \<Rightarrow> string option" where
  "as_column (KeyColumn name) = Some name"
| "as_column (KeyExpression _) = None"

datatype key_opclass = DefaultOpclass "resolved_name option" | Explicit resolved_name | UnresolvedOpclass

datatype key_collation = NotCollatable | Derived | Resolved resolved_name | UnresolvedCollation

record index_key =
  key_kind :: index_key_kind
  key_opclass :: key_opclass
  key_collation :: key_collation
  key_order :: index_order

definition index_key_column :: "string \<Rightarrow> index_key" where
  "index_key_column name =
     \<lparr>key_kind = KeyColumn name, key_opclass = DefaultOpclass None, key_collation = Derived,
      key_order = OrderDefault\<rparr>"

definition is_plain :: "index_key \<Rightarrow> bool" where
  "is_plain k \<longleftrightarrow>
     (case key_opclass k of DefaultOpclass _ \<Rightarrow> True | _ \<Rightarrow> False)
     \<and> (case key_collation k of NotCollatable \<Rightarrow> True | Derived \<Rightarrow> True | _ \<Rightarrow> False)
     \<and> key_order k = OrderDefault"

definition index_keys :: "string list \<Rightarrow> index_key list" where
  "index_keys names = map index_key_column names"

text \<open>\<^verbatim>\<open>slice::get\<close> with a fallback.\<close>

definition get_or :: "'a list \<Rightarrow> nat \<Rightarrow> 'a \<Rightarrow> 'a" where
  "get_or xs i d = (if i < length xs then xs ! i else d)"

text \<open>
  The keys of a parsed \<^verbatim>\<open>CREATE INDEX\<close>; the loop carries the position and the columns that the
  plain keys have not consumed yet.
\<close>

fun statement_keys_from ::
  "nat \<Rightarrow> string list \<Rightarrow> expr_ir option list \<Rightarrow> index_order list \<Rightarrow> key_opclass list
     \<Rightarrow> key_collation list \<Rightarrow> index_key list" where
  "statement_keys_from i columns [] orders opclasses collations = []"
| "statement_keys_from i columns (e # es) orders opclasses collations =
     (let (kind, rest) =
        (case e of
           Some ir \<Rightarrow> (KeyExpression (Some ir), columns)
         | None \<Rightarrow>
             (case columns of
                [] \<Rightarrow> (KeyColumn [], [])
              | c # cs \<Rightarrow> (KeyColumn c, cs)))
      in \<lparr>key_kind = kind,
          key_opclass = get_or opclasses i (DefaultOpclass None),
          key_collation = get_or collations i Derived,
          key_order = get_or orders i OrderDefault\<rparr>
         # statement_keys_from (Suc i) rest es orders opclasses collations)"

definition statement_index_keys ::
  "string list \<Rightarrow> expr_ir option list \<Rightarrow> index_order list \<Rightarrow> key_opclass list
     \<Rightarrow> key_collation list \<Rightarrow> index_key list" where
  "statement_index_keys columns expressions orders opclasses collations =
     statement_keys_from 0 columns expressions orders opclasses collations"

datatype index_predicate = NoPredicate | Parsed expr_ir | Opaque

fun predicate_present :: "index_predicate \<Rightarrow> bool" where
  "predicate_present NoPredicate = False"
| "predicate_present _ = True"

record index_definition =
  idx_method :: "string option"
  idx_keys :: "index_key list"
  idx_included :: "index_key list"
  idx_expression_keys :: nat
  idx_unique :: bool
  idx_nulls_not_distinct :: "bool option"
  idx_predicate :: index_predicate
  idx_unestablished :: bool
  idx_valid :: bool
  idx_ready :: bool
  idx_live :: bool

definition has_expression_keys :: "index_definition \<Rightarrow> bool" where
  "has_expression_keys d \<longleftrightarrow> idx_expression_keys d > 0"

definition has_predicate :: "index_definition \<Rightarrow> bool" where
  "has_predicate d \<longleftrightarrow> predicate_present (idx_predicate d)"

definition is_usable :: "index_definition \<Rightarrow> bool" where
  "is_usable d \<longleftrightarrow> idx_valid d \<and> idx_ready d \<and> idx_live d"

definition key_column_names :: "index_definition \<Rightarrow> string list" where
  "key_column_names d = List.map_filter (\<lambda>k. as_column (key_kind k)) (idx_keys d)"

definition included_column_names :: "index_definition \<Rightarrow> string list" where
  "included_column_names d = List.map_filter (\<lambda>k. as_column (key_kind k)) (idx_included d)"

section \<open>The three-valued comparison\<close>

datatype index_equivalence = Identical | Different | Unknown

fun equivalence_and :: "index_equivalence \<Rightarrow> index_equivalence \<Rightarrow> index_equivalence" where
  "equivalence_and Different _ = Different"
| "equivalence_and _ Different = Different"
| "equivalence_and Unknown _ = Unknown"
| "equivalence_and _ Unknown = Unknown"
| "equivalence_and Identical Identical = Identical"

definition from_equal :: "bool \<Rightarrow> index_equivalence" where
  "from_equal equal = (if equal then Identical else Different)"

fun compare_opclasses :: "key_opclass \<Rightarrow> key_opclass \<Rightarrow> index_equivalence" where
  "compare_opclasses (DefaultOpclass (Some l)) (DefaultOpclass (Some r)) = from_equal (l = r)"
| "compare_opclasses (Explicit l) (Explicit r) = from_equal (l = r)"
| "compare_opclasses (DefaultOpclass (Some l)) (Explicit r) = from_equal (l = r)"
| "compare_opclasses (Explicit l) (DefaultOpclass (Some r)) = from_equal (l = r)"
| "compare_opclasses (DefaultOpclass None) (DefaultOpclass _) = Identical"
| "compare_opclasses (DefaultOpclass _) (DefaultOpclass None) = Identical"
| "compare_opclasses _ _ = Unknown"

fun compare_collations :: "key_collation \<Rightarrow> key_collation \<Rightarrow> index_equivalence" where
  "compare_collations NotCollatable NotCollatable = Identical"
| "compare_collations NotCollatable Derived = Identical"
| "compare_collations Derived NotCollatable = Identical"
| "compare_collations Derived Derived = Identical"
| "compare_collations (Resolved l) (Resolved r) = from_equal (l = r)"
| "compare_collations UnresolvedCollation _ = Unknown"
| "compare_collations _ UnresolvedCollation = Unknown"
| "compare_collations NotCollatable (Resolved _) = Different"
| "compare_collations (Resolved _) NotCollatable = Different"
| "compare_collations Derived (Resolved _) = Unknown"
| "compare_collations (Resolved _) Derived = Unknown"

fun compare_kinds :: "index_key_kind \<Rightarrow> index_key_kind \<Rightarrow> index_equivalence" where
  "compare_kinds (KeyColumn l) (KeyColumn r) = from_equal (l = r)"
| "compare_kinds (KeyExpression (Some l)) (KeyExpression (Some r)) = from_equal (l = r)"
| "compare_kinds (KeyExpression _) (KeyExpression _) = Unknown"
| "compare_kinds _ _ = Different"

definition compare_keys :: "index_key \<Rightarrow> index_key \<Rightarrow> index_equivalence" where
  "compare_keys l r =
     equivalence_and
       (equivalence_and (compare_kinds (key_kind l) (key_kind r))
          (compare_opclasses (key_opclass l) (key_opclass r)))
       (compare_collations (key_collation l) (key_collation r))"

definition compare_methods :: "string option \<Rightarrow> string option \<Rightarrow> index_equivalence" where
  "compare_methods l r =
     (case (l, r) of
        (Some l, Some r) \<Rightarrow> from_equal (l = r)
      | (None, None) \<Rightarrow> Identical
      | _ \<Rightarrow> Unknown)"

definition compare_null_treatment :: "bool option \<Rightarrow> bool option \<Rightarrow> index_equivalence" where
  "compare_null_treatment l r =
     (case (l, r) of (Some l, Some r) \<Rightarrow> from_equal (l = r) | _ \<Rightarrow> Unknown)"

fun compare_predicates :: "index_predicate \<Rightarrow> index_predicate \<Rightarrow> index_equivalence" where
  "compare_predicates NoPredicate NoPredicate = Identical"
| "compare_predicates (Parsed l) (Parsed r) = from_equal (l = r)"
| "compare_predicates NoPredicate _ = Different"
| "compare_predicates _ NoPredicate = Different"
| "compare_predicates _ _ = Unknown"

text \<open>The loop over a zipped pair of key vectors, folding each key's verdict into \<open>v\<close>.\<close>

definition compare_key_lists ::
  "index_key list \<Rightarrow> index_key list \<Rightarrow> index_equivalence \<Rightarrow> index_equivalence" where
  "compare_key_lists ls rs v =
     (if length ls = length rs
      then foldl (\<lambda>acc (l, r). equivalence_and acc (compare_keys l r)) v (zip ls rs)
      else v)"

definition attach_equivalence :: "index_definition \<Rightarrow> index_definition \<Rightarrow> index_equivalence" where
  "attach_equivalence a b =
     (if idx_unestablished a \<or> idx_unestablished b then Unknown
      else
        (let v1 = compare_methods (idx_method a) (idx_method b);
             v2 = equivalence_and v1 (from_equal (idx_unique a = idx_unique b));
             v3 = equivalence_and v2
                    (compare_null_treatment (idx_nulls_not_distinct a) (idx_nulls_not_distinct b));
             v4 = equivalence_and v3
                    (from_equal (length (idx_keys a) = length (idx_keys b)
                       \<and> length (idx_included a) = length (idx_included b)));
             v5 = equivalence_and v4 (from_equal (idx_expression_keys a = idx_expression_keys b))
         in if v5 = Different then v5
            else
              (let v6 = compare_key_lists (idx_keys a) (idx_keys b) v5;
                   v7 = compare_key_lists (idx_included a) (idx_included b) v6
               in equivalence_and v7 (compare_predicates (idx_predicate a) (idx_predicate b)))))"

section \<open>The verdict algebra\<close>

lemma key_opclass_exhaust:
  obtains "x = DefaultOpclass None" | f where "x = DefaultOpclass (Some f)"
    | f where "x = Explicit f" | "x = UnresolvedOpclass"
  by (cases x; cases "case x of DefaultOpclass d \<Rightarrow> d | _ \<Rightarrow> None") auto

lemma from_equal_simps [simp]:
  "from_equal b = Identical \<longleftrightarrow> b" "from_equal b = Different \<longleftrightarrow> \<not> b" "from_equal b \<noteq> Unknown"
  by (simp_all add: from_equal_def)

lemma equivalence_and_Different [simp]:
  "equivalence_and a b = Different \<longleftrightarrow> a = Different \<or> b = Different"
  by (cases a; cases b) simp_all

lemma equivalence_and_Identical [simp]:
  "equivalence_and a b = Identical \<longleftrightarrow> a = Identical \<and> b = Identical"
  by (cases a; cases b) simp_all

lemma equivalence_and_commute: "equivalence_and a b = equivalence_and b a"
  by (cases a; cases b) simp_all

lemma equivalence_eqI:
  "(a = Identical \<longleftrightarrow> b = Identical) \<Longrightarrow> (a = Different \<longleftrightarrow> b = Different) \<Longrightarrow> a = b"
  by (cases a; cases b) simp_all

lemma compare_key_fold:
  "foldl (\<lambda>acc (l, r). equivalence_and acc (compare_keys l r)) v ps = Different \<longleftrightarrow>
     v = Different \<or> (\<exists>(l, r) \<in> set ps. compare_keys l r = Different)"
  "foldl (\<lambda>acc (l, r). equivalence_and acc (compare_keys l r)) v ps = Identical \<longleftrightarrow>
     v = Identical \<and> (\<forall>(l, r) \<in> set ps. compare_keys l r = Identical)"
  by (induction ps arbitrary: v) auto

lemma compare_key_lists_Different:
  "compare_key_lists ls rs v = Different \<longleftrightarrow>
     v = Different \<or> (length ls = length rs \<and> (\<exists>(l, r) \<in> set (zip ls rs). compare_keys l r = Different))"
  by (auto simp: compare_key_lists_def compare_key_fold)

lemma compare_key_lists_Identical:
  "compare_key_lists ls rs v = Identical \<longleftrightarrow>
     v = Identical \<and> (length ls = length rs \<longrightarrow> (\<forall>(l, r) \<in> set (zip ls rs). compare_keys l r = Identical))"
  by (auto simp: compare_key_lists_def compare_key_fold)

text \<open>The early return changes nothing: the verdict is the conjunction of all properties.\<close>

lemma attach_Different:
  "attach_equivalence a b = Different \<longleftrightarrow>
     \<not> idx_unestablished a \<and> \<not> idx_unestablished b \<and>
     (compare_methods (idx_method a) (idx_method b) = Different
      \<or> idx_unique a \<noteq> idx_unique b
      \<or> compare_null_treatment (idx_nulls_not_distinct a) (idx_nulls_not_distinct b) = Different
      \<or> length (idx_keys a) \<noteq> length (idx_keys b)
      \<or> length (idx_included a) \<noteq> length (idx_included b)
      \<or> idx_expression_keys a \<noteq> idx_expression_keys b
      \<or> (\<exists>(l, r) \<in> set (zip (idx_keys a) (idx_keys b)). compare_keys l r = Different)
      \<or> (\<exists>(l, r) \<in> set (zip (idx_included a) (idx_included b)). compare_keys l r = Different)
      \<or> compare_predicates (idx_predicate a) (idx_predicate b) = Different)"
  by (simp add: attach_equivalence_def Let_def compare_key_lists_Different) blast

lemma attach_Identical:
  "attach_equivalence a b = Identical \<longleftrightarrow>
     \<not> idx_unestablished a \<and> \<not> idx_unestablished b
     \<and> compare_methods (idx_method a) (idx_method b) = Identical
     \<and> idx_unique a = idx_unique b
     \<and> compare_null_treatment (idx_nulls_not_distinct a) (idx_nulls_not_distinct b) = Identical
     \<and> length (idx_keys a) = length (idx_keys b)
     \<and> length (idx_included a) = length (idx_included b)
     \<and> idx_expression_keys a = idx_expression_keys b
     \<and> (\<forall>(l, r) \<in> set (zip (idx_keys a) (idx_keys b)). compare_keys l r = Identical)
     \<and> (\<forall>(l, r) \<in> set (zip (idx_included a) (idx_included b)). compare_keys l r = Identical)
     \<and> compare_predicates (idx_predicate a) (idx_predicate b) = Identical"
  by (auto simp: attach_equivalence_def Let_def compare_key_lists_Identical)

section \<open>Completions\<close>

text \<open>
  What PostgreSQL compares once every property is established: the key kind, the operator family
  and the collation (\<open>None\<close> for a type without collations).
\<close>

datatype full_kind = FullColumn string | FullExpression expr_ir

record full_key =
  fk_kind :: full_kind
  fk_family :: resolved_name
  fk_collation :: "resolved_name option"

record full_index =
  fi_method :: string
  fi_keys :: "full_key list"
  fi_included :: "full_key list"
  fi_expression_keys :: nat
  fi_unique :: bool
  fi_nulls_not_distinct :: bool
  fi_predicate :: "expr_ir option"

definition compare_index_info :: "full_index \<Rightarrow> full_index \<Rightarrow> bool" where
  "compare_index_info a b \<longleftrightarrow>
     fi_method a = fi_method b \<and> fi_unique a = fi_unique b
     \<and> fi_nulls_not_distinct a = fi_nulls_not_distinct b
     \<and> fi_keys a = fi_keys b \<and> fi_included a = fi_included b
     \<and> fi_expression_keys a = fi_expression_keys b \<and> fi_predicate a = fi_predicate b"

text \<open>
  What the two tables of an attachment share, because their column definitions are forced to
  agree: the default access method, and for every key the family of its default operator class
  and the collation it derives from its own definition.
\<close>

record shared_columns =
  sc_method :: string
  sc_family :: "full_kind \<Rightarrow> resolved_name"
  sc_collation :: "full_kind \<Rightarrow> resolved_name option"

fun kind_completes :: "index_key_kind \<Rightarrow> full_kind \<Rightarrow> bool" where
  "kind_completes (KeyColumn c) k \<longleftrightarrow> k = FullColumn c"
| "kind_completes (KeyExpression (Some e)) k \<longleftrightarrow> k = FullExpression e"
| "kind_completes (KeyExpression None) k \<longleftrightarrow> (case k of FullExpression _ \<Rightarrow> True | _ \<Rightarrow> False)"

fun opclass_completes :: "shared_columns \<Rightarrow> full_kind \<Rightarrow> key_opclass \<Rightarrow> resolved_name \<Rightarrow> bool" where
  "opclass_completes S k (DefaultOpclass None) f \<longleftrightarrow> f = sc_family S k"
| "opclass_completes S k (DefaultOpclass (Some g)) f \<longleftrightarrow> f = g \<and> g = sc_family S k"
| "opclass_completes S k (Explicit g) f \<longleftrightarrow> f = g"
| "opclass_completes S k UnresolvedOpclass f \<longleftrightarrow> True"

fun collation_completes :: "shared_columns \<Rightarrow> full_kind \<Rightarrow> key_collation \<Rightarrow> resolved_name option \<Rightarrow> bool" where
  "collation_completes S k NotCollatable c \<longleftrightarrow> c = None \<and> sc_collation S k = None"
| "collation_completes S k Derived c \<longleftrightarrow> c = sc_collation S k"
| "collation_completes S k (Resolved n) c \<longleftrightarrow> c = Some n"
| "collation_completes S k UnresolvedCollation c \<longleftrightarrow> True"

definition key_completes :: "shared_columns \<Rightarrow> index_key \<Rightarrow> full_key \<Rightarrow> bool" where
  "key_completes S k f \<longleftrightarrow>
     kind_completes (key_kind k) (fk_kind f)
     \<and> opclass_completes S (fk_kind f) (key_opclass k) (fk_family f)
     \<and> collation_completes S (fk_kind f) (key_collation k) (fk_collation f)"

fun predicate_completes :: "index_predicate \<Rightarrow> expr_ir option \<Rightarrow> bool" where
  "predicate_completes NoPredicate p \<longleftrightarrow> p = None"
| "predicate_completes (Parsed e) p \<longleftrightarrow> p = Some e"
| "predicate_completes Opaque p \<longleftrightarrow> p \<noteq> None"

text \<open>A placeholder description is completed by any index at all.\<close>

definition completes :: "shared_columns \<Rightarrow> index_definition \<Rightarrow> full_index \<Rightarrow> bool" where
  "completes S d f \<longleftrightarrow>
     idx_unestablished d \<or>
     ((case idx_method d of None \<Rightarrow> fi_method f = sc_method S | Some m \<Rightarrow> fi_method f = m)
      \<and> list_all2 (key_completes S) (idx_keys d) (fi_keys f)
      \<and> list_all2 (key_completes S) (idx_included d) (fi_included f)
      \<and> fi_expression_keys f = idx_expression_keys d
      \<and> fi_unique f = idx_unique d
      \<and> (case idx_nulls_not_distinct d of None \<Rightarrow> True | Some b \<Rightarrow> fi_nulls_not_distinct f = b)
      \<and> predicate_completes (idx_predicate d) (fi_predicate f))"

lemma compare_kinds_sound:
  assumes "kind_completes a f" "kind_completes b g"
  shows "compare_kinds a b = Identical \<Longrightarrow> f = g" "compare_kinds a b = Different \<Longrightarrow> f \<noteq> g"
  using assms by (auto elim!: kind_completes.elims split: full_kind.splits)

lemma compare_opclasses_sound:
  assumes "opclass_completes S k a f" "opclass_completes S k b g"
  shows "compare_opclasses a b = Identical \<Longrightarrow> f = g" "compare_opclasses a b = Different \<Longrightarrow> f \<noteq> g"
  using assms
  by (cases a rule: key_opclass_exhaust; cases b rule: key_opclass_exhaust; simp)+

lemma compare_collations_sound:
  assumes "collation_completes S k a f" "collation_completes S k b g"
  shows "compare_collations a b = Identical \<Longrightarrow> f = g" "compare_collations a b = Different \<Longrightarrow> f \<noteq> g"
  using assms by (cases a; cases b; auto)+

lemma compare_keys_sound:
  assumes "key_completes S a f" "key_completes S b g"
  shows "compare_keys a b = Identical \<Longrightarrow> f = g" "compare_keys a b = Different \<Longrightarrow> f \<noteq> g"
proof -
  note c = assms [unfolded key_completes_def]
  show "f = g" if "compare_keys a b = Identical"
  proof -
    have k: "fk_kind f = fk_kind g"
      using c that by (auto simp: compare_keys_def intro: compare_kinds_sound)
    moreover have "fk_family f = fk_family g" "fk_collation f = fk_collation g"
      using c that k by (auto simp: compare_keys_def
          intro: compare_opclasses_sound [of S "fk_kind f"] compare_collations_sound [of S "fk_kind f"])
    ultimately show ?thesis by (cases f; cases g) simp
  qed
  show "f \<noteq> g" if "compare_keys a b = Different"
    using c that compare_kinds_sound(2) compare_opclasses_sound(2) compare_collations_sound(2)
    unfolding compare_keys_def equivalence_and_Different by metis
qed

lemma compare_key_lists_sound:
  assumes "list_all2 (key_completes S) as fs" "list_all2 (key_completes S) bs gs"
    and "length as = length bs"
  shows "\<forall>(l, r) \<in> set (zip as bs). compare_keys l r = Identical \<Longrightarrow> fs = gs"
    and "\<exists>(l, r) \<in> set (zip as bs). compare_keys l r = Different \<Longrightarrow> fs \<noteq> gs"
proof -
  have len: "length fs = length as" "length gs = length as"
    using assms by (auto dest: list_all2_lengthD)
  have nth: "key_completes S (as ! i) (fs ! i)" "key_completes S (bs ! i) (gs ! i)" if "i < length as" for i
    using assms that by (auto simp: list_all2_conv_all_nth)
  show "fs = gs" if "\<forall>(l, r) \<in> set (zip as bs). compare_keys l r = Identical"
  proof (rule nth_equalityI)
    fix i assume "i < length fs"
    then have "i < length as" using len by simp
    moreover from this have "compare_keys (as ! i) (bs ! i) = Identical"
      using that assms(3) by (force simp: set_zip)
    ultimately show "fs ! i = gs ! i" using nth compare_keys_sound(1) by blast
  qed (simp add: len)
  show "fs \<noteq> gs" if "\<exists>(l, r) \<in> set (zip as bs). compare_keys l r = Different"
  proof -
    from that obtain i where "i < length as" "compare_keys (as ! i) (bs ! i) = Different"
      by (auto simp: set_zip)
    then show ?thesis using nth compare_keys_sound(2) by metis
  qed
qed

lemma compare_predicates_sound:
  assumes "predicate_completes a f" "predicate_completes b g"
  shows "compare_predicates a b = Identical \<Longrightarrow> f = g" "compare_predicates a b = Different \<Longrightarrow> f \<noteq> g"
  using assms by (cases a; cases b; auto)+

lemma completesD:
  assumes "completes S d f" "\<not> idx_unestablished d"
  shows "list_all2 (key_completes S) (idx_keys d) (fi_keys f)"
    and "list_all2 (key_completes S) (idx_included d) (fi_included f)"
    and "predicate_completes (idx_predicate d) (fi_predicate f)"
    and "fi_expression_keys f = idx_expression_keys d" and "fi_unique f = idx_unique d"
    and "fi_method f = (case idx_method d of None \<Rightarrow> sc_method S | Some m \<Rightarrow> m)"
    and "idx_nulls_not_distinct d = Some b \<Longrightarrow> fi_nulls_not_distinct f = b"
  using assms by (auto simp: completes_def split: option.splits)

lemma compare_scalars_sound:
  assumes "completes S a f" "\<not> idx_unestablished a" "completes S b g" "\<not> idx_unestablished b"
  shows "compare_methods (idx_method a) (idx_method b) = Identical \<Longrightarrow> fi_method f = fi_method g"
    and "compare_methods (idx_method a) (idx_method b) = Different \<Longrightarrow> fi_method f \<noteq> fi_method g"
    and "compare_null_treatment (idx_nulls_not_distinct a) (idx_nulls_not_distinct b) = Identical
      \<Longrightarrow> fi_nulls_not_distinct f = fi_nulls_not_distinct g"
    and "compare_null_treatment (idx_nulls_not_distinct a) (idx_nulls_not_distinct b) = Different
      \<Longrightarrow> fi_nulls_not_distinct f \<noteq> fi_nulls_not_distinct g"
  using completesD(6,7) [OF assms(1,2)] completesD(6,7) [OF assms(3,4)]
  by (auto simp: compare_methods_def compare_null_treatment_def split: option.splits)

text \<open>
  C19. a definite verdict on whether an index can be attached is right. Whatever the properties
  that neither description establishes turn out to be, \<open>Identical\<close> means that PostgreSQL's
  comparison holds and \<open>Different\<close> that it fails, provided the two tables agree on column
  definitions.
\<close>

theorem attach_equivalence_sound:
  assumes "completes S a f" and "completes S b g"
  shows "(attach_equivalence a b = Identical \<longrightarrow> compare_index_info f g)
    \<and> (attach_equivalence a b = Different \<longrightarrow> \<not> compare_index_info f g)"
proof (cases "idx_unestablished a \<or> idx_unestablished b")
  case True
  then show ?thesis by (auto simp: attach_equivalence_def)
next
  case False
  then have u: "\<not> idx_unestablished a" "\<not> idx_unestablished b" by simp_all
  note c = completesD [OF assms(1) u(1)] and d = completesD [OF assms(2) u(2)]
  note scalars = compare_scalars_sound [OF assms(1) u(1) assms(2) u(2)]
  have len: "length (fi_keys f) = length (idx_keys a)" "length (fi_keys g) = length (idx_keys b)"
    "length (fi_included f) = length (idx_included a)" "length (fi_included g) = length (idx_included b)"
    using c(1,2) d(1,2) by (simp_all add: list_all2_lengthD)
  show ?thesis
  proof (intro conjI impI)
    assume "attach_equivalence a b = Identical"
    then show "compare_index_info f g"
      unfolding attach_Identical compare_index_info_def
      using scalars(1,3) c(4,5) d(4,5) compare_key_lists_sound(1) [OF c(1) d(1)]
        compare_key_lists_sound(1) [OF c(2) d(2)] compare_predicates_sound(1) [OF c(3) d(3)]
      by presburger
  next
    assume "attach_equivalence a b = Different"
    then show "\<not> compare_index_info f g"
      unfolding attach_Different compare_index_info_def
      using scalars(2,4) c(4,5) d(4,5) len compare_key_lists_sound(2) [OF c(1) d(1)]
        compare_key_lists_sound(2) [OF c(2) d(2)] compare_predicates_sound(2) [OF c(3) d(3)]
      by metis
  qed
qed

definition sample_index :: "string option \<Rightarrow> key_opclass \<Rightarrow> index_definition" where
  "sample_index m oc =
     \<lparr>idx_method = m, idx_keys = [(index_key_column ''a'')\<lparr>key_opclass := oc\<rparr>], idx_included = [],
      idx_expression_keys = 0, idx_unique = False, idx_nulls_not_distinct = Some False,
      idx_predicate = NoPredicate, idx_unestablished = False, idx_valid = True, idx_ready = True,
      idx_live = True\<rparr>"

definition sample_full :: "string \<Rightarrow> full_index" where
  "sample_full fam =
     \<lparr>fi_method = ''btree'',
      fi_keys = [\<lparr>fk_kind = FullColumn ''a'', fk_family = ResolvedName ''pg_catalog'' fam, fk_collation = None\<rparr>],
      fi_included = [], fi_expression_keys = 0, fi_unique = False, fi_nulls_not_distinct = False,
      fi_predicate = None\<rparr>"

theorem attach_equivalence_sound_witness:
  "compare_index_info (sample_full ''network_ops'') (sample_full ''network_ops'')
   \<and> \<not> compare_index_info (sample_full ''network_ops'') (sample_full ''text_ops'')"
proof -
  let ?S = "\<lparr>sc_method = ''btree'', sc_family = (\<lambda>_. ResolvedName ''pg_catalog'' ''network_ops''),
    sc_collation = (\<lambda>_. None)\<rparr>"
  let ?d = "sample_index (Some ''btree'') (DefaultOpclass (Some (ResolvedName ''pg_catalog'' ''network_ops'')))"
  let ?e = "\<lambda>f. sample_index (Some ''btree'') (Explicit (ResolvedName ''pg_catalog'' f))"
  have c: "completes ?S ?d (sample_full ''network_ops'')" "completes ?S (?e f) (sample_full f)" for f
    by (simp_all add: completes_def sample_index_def sample_full_def key_completes_def index_key_column_def)
  have "attach_equivalence ?d (?e ''network_ops'') = Identical"
    "attach_equivalence ?d (?e ''text_ops'') = Different"
    by code_simp+
  then show ?thesis
    using attach_equivalence_sound [OF c(1) c(2) [of "''network_ops''"]]
      attach_equivalence_sound [OF c(1) c(2) [of "''text_ops''"]] by simp
qed

section \<open>Order-independence and plain keys\<close>

lemma compare_keys_commute: "compare_keys a b = compare_keys b a"
proof -
  have "compare_kinds x y = compare_kinds y x" for x y
    by (cases "(x, y)" rule: compare_kinds.cases) (auto simp: from_equal_def)
  moreover have "compare_opclasses x y = compare_opclasses y x" for x y
    by (cases x rule: key_opclass_exhaust; cases y rule: key_opclass_exhaust)
      (auto simp: from_equal_def)
  moreover have "compare_collations x y = compare_collations y x" for x y
    by (cases x; cases y) (auto simp: from_equal_def)
  ultimately show ?thesis by (simp add: compare_keys_def)
qed

lemma zip_commute_ball:
  "(\<forall>(l, r) \<in> set (zip xs ys). P l r) \<longleftrightarrow> (\<forall>(l, r) \<in> set (zip ys xs). P r l)"
  by (auto simp: set_zip)

lemma zip_commute_bex:
  "(\<exists>(l, r) \<in> set (zip xs ys). P l r) \<longleftrightarrow> (\<exists>(l, r) \<in> set (zip ys xs). P r l)"
  by (auto simp: set_zip)

text \<open>
  the verdict on two indexes does not depend on which of them is the parent.
\<close>

theorem attach_equivalence_commute: "attach_equivalence a b = attach_equivalence b a"
proof (rule equivalence_eqI)
  have m: "compare_methods x y = compare_methods y x" for x y
    by (auto simp: compare_methods_def from_equal_def split: option.splits)
  have n: "compare_null_treatment x y = compare_null_treatment y x" for x y
    by (auto simp: compare_null_treatment_def from_equal_def split: option.splits)
  have p: "compare_predicates x y = compare_predicates y x" for x y
    by (cases x; cases y) (auto simp: from_equal_def)
  show "attach_equivalence a b = Identical \<longleftrightarrow> attach_equivalence b a = Identical"
    unfolding attach_Identical
    by (subst zip_commute_ball, subst (2) zip_commute_ball)
      (auto simp: compare_keys_commute m n p)
  show "attach_equivalence a b = Different \<longleftrightarrow> attach_equivalence b a = Different"
    unfolding attach_Different
    by (subst zip_commute_bex, subst (2) zip_commute_bex)
      (auto simp: compare_keys_commute m n p)
qed

end
