(* ===== verification/Dependency_Graph.thy ===== *)
theory Dependency_Graph
  imports Index_Model
begin

text \<open>
  The dependency graph (\<^verbatim>\<open>src/src/_internal/analysis/graph.rs\<close>): the canonical edge vector, the
  edge set that keeps it duplicate-free, the lazily built lookup indexes, rename resolution,
  cascade and partition lookups, the two cycle checks, and every rename and remap operation.

  Endpoints are identities (\<open>oid\<close>), since comparing and hashing an \<^verbatim>\<open>ObjectId\<close> ignores everything
  else. The \<^verbatim>\<open>OnceCell\<close> of indexes is an optional field; a lookup reads the cached value when
  there is one and the freshly built one otherwise.
\<close>

type_synonym u64 = "64 word"

section \<open>Edges\<close>

record foreign_key_operator_evidence =
  pk_fk :: "string list"
  pk_pk :: "string list"
  fk_fk :: "string list"

datatype dependency_kind =
    ForeignKey "string option" "string list" "string list" "foreign_key_operator_evidence option" u64
  | ViewDependency u64 "string option"
  | ViewUsesRoutine "oid option"
  | ViewUsesType
  | IndexOnRelation index_definition "string list" bool bool bool bool
  | ConstraintOnRelation string "string list" bool
  | ConstraintDependency string "string list"
  | RenameTo
  | InheritanceOf
  | PartitionOf
  | IndexPartitionOf
  | PartitionDetachPending
  | SequenceOwnedBy string
  | ColumnGeneratedFrom string string
  | ColumnDefaultOnSequence string
  | TriggerOnTable oid oid u64
  | PublicationIncludes string

record dependency_edge =
  dependent :: oid
  referenced :: oid
  edge_kind :: dependency_kind

definition edge_new :: "oid \<Rightarrow> oid \<Rightarrow> dependency_kind \<Rightarrow> dependency_edge" where
  "edge_new d r k = \<lparr>dependent = d, referenced = r, edge_kind = k\<rparr>"

record graph_indexes =
  rename_by_source :: "oid \<rightharpoonup> nat"
  by_resolved_referenced :: "oid \<rightharpoonup> nat list"

record dependency_graph =
  edges :: "dependency_edge list"
  edge_set :: "dependency_edge set"
  indexes_cell :: "graph_indexes option"

definition graph_new :: dependency_graph where
  "graph_new = \<lparr>edges = [], edge_set = {}, indexes_cell = None\<rparr>"

definition graph_clone :: "dependency_graph \<Rightarrow> dependency_graph" where
  "graph_clone g = \<lparr>edges = edges g, edge_set = set (edges g), indexes_cell = None\<rparr>"

definition cascade_index_min_edges :: nat where
  "cascade_index_min_edges = 1024"

section \<open>Mutation of the edge vector\<close>

definition invalidate_indexes :: "dependency_graph \<Rightarrow> dependency_graph" where
  "invalidate_indexes g = g\<lparr>indexes_cell := None\<rparr>"

definition rebuild_edge_set :: "dependency_graph \<Rightarrow> dependency_graph" where
  "rebuild_edge_set g = g\<lparr>edge_set := set (edges g)\<rparr>"

definition deduplicate_edges :: "dependency_graph \<Rightarrow> dependency_graph" where
  "deduplicate_edges g = g\<lparr>edges := dedup (edges g), edge_set := set (edges g)\<rparr>"

definition add_edge :: "dependency_edge \<Rightarrow> dependency_graph \<Rightarrow> dependency_graph" where
  "add_edge e g =
     (if e \<in> edge_set g then g
      else invalidate_indexes (g\<lparr>edge_set := insert e (edge_set g), edges := edges g @ [e]\<rparr>))"

definition retain_edges :: "(dependency_edge \<Rightarrow> bool) \<Rightarrow> dependency_graph \<Rightarrow> dependency_graph" where
  "retain_edges keep g =
     (let previous_len = length (edges g);
          g1 = g\<lparr>edges := filter keep (edges g)\<rparr>
      in if length (edges g1) \<noteq> previous_len then invalidate_indexes (rebuild_edge_set g1) else g1)"

definition edge_count :: "dependency_graph \<Rightarrow> nat" where
  "edge_count g = length (edges g)"

definition truncate_edges :: "nat \<Rightarrow> dependency_graph \<Rightarrow> dependency_graph" where
  "truncate_edges len g =
     (if len \<ge> length (edges g) then g
      else invalidate_indexes (rebuild_edge_set (g\<lparr>edges := take len (edges g)\<rparr>)))"

definition replace_edges :: "dependency_edge list \<Rightarrow> dependency_graph \<Rightarrow> dependency_graph" where
  "replace_edges es g = invalidate_indexes (deduplicate_edges (g\<lparr>edges := es\<rparr>))"

definition mutate_edges ::
  "(dependency_edge list \<Rightarrow> dependency_edge list) \<Rightarrow> dependency_graph \<Rightarrow> dependency_graph" where
  "mutate_edges f g = invalidate_indexes (deduplicate_edges (g\<lparr>edges := f (edges g)\<rparr>))"

section \<open>Derived indexes and rename resolution\<close>

text \<open>First loop of \<^verbatim>\<open>build_indexes\<close>: the first rename edge of each source.\<close>

fun rename_sources :: "nat \<Rightarrow> dependency_edge list \<Rightarrow> (oid \<rightharpoonup> nat) \<Rightarrow> (oid \<rightharpoonup> nat)" where
  "rename_sources i [] m = m"
| "rename_sources i (e # es) m =
     rename_sources (Suc i) es
       (if edge_kind e = RenameTo \<and> m (dependent e) = None then m(dependent e \<mapsto> i) else m)"

text \<open>
  Following rename edges; a name that is met again makes the walk fall back to its start. The
  index is in range because it was built from the same edges (\<open>rename_sources_range\<close>).
\<close>

function rename_walk ::
  "dependency_edge list \<Rightarrow> (oid \<rightharpoonup> nat) \<Rightarrow> oid \<Rightarrow> oid \<Rightarrow> oid set \<Rightarrow> oid" where
  "rename_walk es sources obj current visited =
     (if current \<in> visited then obj
      else case sources current of
          None \<Rightarrow> current
        | Some i \<Rightarrow>
            if i < length es
            then rename_walk es sources obj (referenced (es ! i)) (insert current visited)
            else current)"
  by pat_completeness auto

termination rename_walk
proof (relation "measure (\<lambda>(es, sources, obj, current, visited).
    card (insert current (referenced ` set es) - visited))")
  fix es :: "dependency_edge list" and sources :: "oid \<rightharpoonup> nat" and obj current visited i
  assume "current \<notin> (visited :: oid set)" "i < length es"
  then have "insert (referenced (es ! i)) (referenced ` set es) - insert current visited
      \<subset> insert current (referenced ` set es) - visited"
    by auto
  then show "((es, sources, obj, referenced (es ! i), insert current visited),
      (es, sources, obj, current, visited)) \<in> measure (\<lambda>(es, sources, obj, current, visited).
      card (insert current (referenced ` set es) - visited))"
    by (simp add: psubset_card_mono)
qed simp

declare rename_walk.simps [simp del]

definition resolve_rename_with :: "dependency_edge list \<Rightarrow> (oid \<rightharpoonup> nat) \<Rightarrow> oid \<Rightarrow> oid" where
  "resolve_rename_with es sources obj = rename_walk es sources obj obj {}"

text \<open>Second loop of \<^verbatim>\<open>build_indexes\<close>: edge positions by resolved referenced endpoint.\<close>

fun resolved_positions ::
  "(oid \<Rightarrow> oid) \<Rightarrow> nat \<Rightarrow> dependency_edge list \<Rightarrow> (oid \<rightharpoonup> nat list) \<Rightarrow> (oid \<rightharpoonup> nat list)" where
  "resolved_positions res i [] m = m"
| "resolved_positions res i (e # es) m =
     (let r = res (referenced e)
      in resolved_positions res (Suc i) es
           (m(r \<mapsto> (case m r of None \<Rightarrow> [] | Some l \<Rightarrow> l) @ [i])))"

definition build_indexes :: "dependency_edge list \<Rightarrow> graph_indexes" where
  "build_indexes es =
     (let sources = rename_sources 0 es Map.empty
      in \<lparr>rename_by_source = sources,
          by_resolved_referenced =
            resolved_positions (resolve_rename_with es sources) 0 es Map.empty\<rparr>)"

definition indexes :: "dependency_graph \<Rightarrow> graph_indexes" where
  "indexes g = (case indexes_cell g of Some ix \<Rightarrow> ix | None \<Rightarrow> build_indexes (edges g))"

text \<open>The side effect of a lookup: the cell is filled.\<close>

definition touch_indexes :: "dependency_graph \<Rightarrow> dependency_graph" where
  "touch_indexes g = g\<lparr>indexes_cell := Some (indexes g)\<rparr>"

definition indexes_are_valid :: "dependency_graph \<Rightarrow> bool" where
  "indexes_are_valid g \<longleftrightarrow> indexes g = build_indexes (edges g)"

definition resolve_rename :: "dependency_graph \<Rightarrow> oid \<Rightarrow> oid" where
  "resolve_rename g obj = resolve_rename_with (edges g) (rename_by_source (indexes g)) obj"

definition resolved_referenced_edges :: "dependency_graph \<Rightarrow> oid \<Rightarrow> dependency_edge list" where
  "resolved_referenced_edges g obj =
     (case by_resolved_referenced (indexes g) (resolve_rename g obj) of
        None \<Rightarrow> []
      | Some is \<Rightarrow> map (\<lambda>i. edges g ! i) is)"

fun is_cascade_kind :: "dependency_kind \<Rightarrow> bool" where
  "is_cascade_kind (ViewDependency _ _) = True"
| "is_cascade_kind (IndexOnRelation _ _ _ _ _ _) = True"
| "is_cascade_kind (ForeignKey _ _ _ _ _) = True"
| "is_cascade_kind InheritanceOf = True"
| "is_cascade_kind PartitionOf = True"
| "is_cascade_kind PartitionDetachPending = True"
| "is_cascade_kind _ = False"

definition cascade_edges :: "dependency_graph \<Rightarrow> oid \<Rightarrow> dependency_edge list" where
  "cascade_edges g obj =
     (if length (edges g) < cascade_index_min_edges
      then (let target = resolve_rename g obj
            in filter (\<lambda>e. is_cascade_kind (edge_kind e) \<and> resolve_rename g (referenced e) = target)
                 (edges g))
      else filter (\<lambda>e. is_cascade_kind (edge_kind e)) (resolved_referenced_edges g obj))"

definition cascade_index_is_worthwhile :: "dependency_graph \<Rightarrow> bool" where
  "cascade_index_is_worthwhile g \<longleftrightarrow> length (edges g) \<ge> cascade_index_min_edges"

fun is_index_kind :: "dependency_kind \<Rightarrow> bool" where
  "is_index_kind (IndexOnRelation _ _ _ _ _ _) = True"
| "is_index_kind _ = False"

definition index_table_of :: "dependency_graph \<Rightarrow> oid \<Rightarrow> oid option" where
  "index_table_of g index =
     map_option referenced
       (List.find (\<lambda>e. dependent e = index \<and> is_index_kind (edge_kind e)) (edges g))"

definition is_partition_kind :: "dependency_kind \<Rightarrow> bool" where
  "is_partition_kind k \<longleftrightarrow> k = PartitionOf \<or> k = PartitionDetachPending"

definition partitions_of :: "dependency_graph \<Rightarrow> oid \<Rightarrow> oid list" where
  "partitions_of g obj =
     (if length (edges g) \<ge> cascade_index_min_edges
      then map (\<lambda>e. resolve_rename g (dependent e))
             (filter (\<lambda>e. is_partition_kind (edge_kind e)) (resolved_referenced_edges g obj))
      else (let target = resolve_rename g obj
            in map (\<lambda>e. resolve_rename g (dependent e))
                 (filter (\<lambda>e. is_partition_kind (edge_kind e)
                    \<and> (resolve_rename g (referenced e) = target \<or> referenced e = obj)) (edges g))))"

section \<open>Cycle checks\<close>

text \<open>The parent of a partition: the first matching edge of the vector, both ends resolved.\<close>

definition partition_parent :: "dependency_graph \<Rightarrow> oid \<Rightarrow> oid option" where
  "partition_parent g current =
     map_option (\<lambda>e. resolve_rename g (referenced e))
       (List.find (\<lambda>e. is_partition_kind (edge_kind e) \<and> resolve_rename g (dependent e) = current)
          (edges g))"

lemma partition_parent_range:
  "partition_parent g c = Some p \<Longrightarrow> p \<in> (\<lambda>e. resolve_rename g (referenced e)) ` set (edges g)"
  by (auto simp: partition_parent_def find_Some_iff)

function partition_walk :: "dependency_graph \<Rightarrow> oid \<Rightarrow> oid \<Rightarrow> oid set \<Rightarrow> bool" where
  "partition_walk g child current visited =
     (if current \<in> visited then True
      else case partition_parent g current of
          None \<Rightarrow> False
        | Some p \<Rightarrow> if p = child then True else partition_walk g child p (insert current visited))"
  by pat_completeness auto

termination partition_walk
proof (relation "measure (\<lambda>(g, child, current, visited).
    card (insert current ((\<lambda>e. resolve_rename g (referenced e)) ` set (edges g)) - visited))")
  fix g :: dependency_graph and child current p :: oid and visited
  assume "current \<notin> visited" "partition_parent g current = Some p" "p \<noteq> child"
  then have "insert p ((\<lambda>e. resolve_rename g (referenced e)) ` set (edges g)) - insert current visited
      \<subset> insert current ((\<lambda>e. resolve_rename g (referenced e)) ` set (edges g)) - visited"
    using partition_parent_range by fast
  then show "((g, child, p, insert current visited), (g, child, current, visited))
      \<in> measure (\<lambda>(g, child, current, visited).
         card (insert current ((\<lambda>e. resolve_rename g (referenced e)) ` set (edges g)) - visited))"
    by (simp add: psubset_card_mono)
qed simp

declare partition_walk.simps [simp del]

definition check_partition_cycle :: "dependency_graph \<Rightarrow> oid \<Rightarrow> oid \<Rightarrow> bool" where
  "check_partition_cycle g parent child =
     (let resolved_parent = resolve_rename g parent; resolved_child = resolve_rename g child
      in if resolved_parent = resolved_child then True
         else partition_walk g resolved_child resolved_parent {})"

text \<open>The ancestors recorded for \<open>current\<close>, in edge order.\<close>

definition inheritance_parents :: "dependency_graph \<Rightarrow> oid \<Rightarrow> oid list" where
  "inheritance_parents g current =
     map (\<lambda>e. resolve_rename g (referenced e))
       (filter (\<lambda>e. edge_kind e = InheritanceOf \<and> resolve_rename g (dependent e) = current) (edges g))"

text \<open>The head of \<open>pending\<close> is the top of the Rust stack.\<close>

function inheritance_search :: "dependency_graph \<Rightarrow> oid \<Rightarrow> oid list \<Rightarrow> oid set \<Rightarrow> bool" where
  "inheritance_search g child [] visited = False"
| "inheritance_search g child (current # pending) visited =
     (if current \<in> visited then inheritance_search g child pending visited
      else if List.member (inheritance_parents g current) child then True
      else inheritance_search g child (rev (inheritance_parents g current) @ pending)
             (insert current visited))"
  by pat_completeness auto

lemma inheritance_parents_range:
  "p \<in> set (inheritance_parents g c) \<Longrightarrow> p \<in> (\<lambda>e. resolve_rename g (referenced e)) ` set (edges g)"
  by (auto simp: inheritance_parents_def)

termination inheritance_search
proof (relation "inv_image (finite_psubset <*lex*> less_than)
    (\<lambda>(g, child, pending, visited).
       (((\<lambda>e. resolve_rename g (referenced e)) ` set (edges g) \<union> set pending) - visited, length pending))")
  show "wf (inv_image (finite_psubset <*lex*> less_than)
    (\<lambda>(g, child, pending, visited).
       (((\<lambda>e. resolve_rename g (referenced e)) ` set (edges g) \<union> set pending) - visited, length pending)))"
    by (auto intro: wf_inv_image)
qed (auto simp: finite_psubset_def dest!: inheritance_parents_range)

definition check_inheritance_cycle :: "dependency_graph \<Rightarrow> oid \<Rightarrow> oid \<Rightarrow> bool" where
  "check_inheritance_cycle g parent child =
     (let resolved_parent = resolve_rename g parent; resolved_child = resolve_rename g child
      in if resolved_parent = resolved_child then True
         else inheritance_search g resolved_child [resolved_parent] {})"

section \<open>Renames and remaps\<close>

text \<open>The common frame of the loops that rewrite edges one by one.\<close>

definition rewrite_edges ::
  "(dependency_edge \<Rightarrow> dependency_edge) \<Rightarrow> dependency_graph \<Rightarrow> dependency_graph" where
  "rewrite_edges f g = mutate_edges (map f) g"

definition renamed :: "'a \<Rightarrow> 'a \<Rightarrow> 'a \<Rightarrow> 'a" where
  "renamed old new x = (if x = old then new else x)"

definition remap_schema :: "string \<Rightarrow> string \<Rightarrow> oid \<Rightarrow> oid" where
  "remap_schema old new obj = (if schema_of obj = old then Oid new (name_of obj) else obj)"

fun update_first_index ::
  "oid \<Rightarrow> (index_definition \<Rightarrow> index_definition) \<Rightarrow> dependency_edge list \<Rightarrow> dependency_edge list" where
  "update_first_index index f [] = []"
| "update_first_index index f (e # es) =
     (case edge_kind e of
        IndexOnRelation d cols known conc imm elig \<Rightarrow>
          if dependent e = index
          then e\<lparr>edge_kind := IndexOnRelation (f d) cols known conc imm elig\<rparr> # es
          else e # update_first_index index f es
      | _ \<Rightarrow> e # update_first_index index f es)"

definition update_index_definition ::
  "oid \<Rightarrow> (index_definition \<Rightarrow> index_definition) \<Rightarrow> dependency_graph \<Rightarrow> dependency_graph" where
  "update_index_definition index f g = mutate_edges (update_first_index index f) g"

text \<open>Rewriting the collation of every key of an index definition.\<close>

definition map_key_collations ::
  "(resolved_name \<Rightarrow> resolved_name) \<Rightarrow> index_key \<Rightarrow> index_key" where
  "map_key_collations f k =
     (case key_collation k of Resolved n \<Rightarrow> k\<lparr>key_collation := Resolved (f n)\<rparr> | _ \<Rightarrow> k)"

definition map_index_keys ::
  "(index_key \<Rightarrow> index_key) \<Rightarrow> index_definition \<Rightarrow> index_definition" where
  "map_index_keys f d = d\<lparr>idx_keys := map f (idx_keys d), idx_included := map f (idx_included d)\<rparr>"

definition map_edge_collations ::
  "(resolved_name \<Rightarrow> resolved_name) \<Rightarrow> dependency_edge \<Rightarrow> dependency_edge" where
  "map_edge_collations f e =
     (case edge_kind e of
        IndexOnRelation d cols known conc imm elig \<Rightarrow>
          e\<lparr>edge_kind := IndexOnRelation (map_index_keys (map_key_collations f) d) cols known conc imm elig\<rparr>
      | _ \<Rightarrow> e)"

definition remap_index_collation ::
  "string \<Rightarrow> string \<Rightarrow> string \<Rightarrow> string \<Rightarrow> dependency_graph \<Rightarrow> dependency_graph" where
  "remap_index_collation old_schema old_name new_schema new_name =
     rewrite_edges (map_edge_collations
       (\<lambda>n. if rn_schema n = old_schema \<and> rn_name n = old_name
            then ResolvedName new_schema new_name else n))"

definition remap_index_collation_schema ::
  "string \<Rightarrow> string \<Rightarrow> dependency_graph \<Rightarrow> dependency_graph" where
  "remap_index_collation_schema old_schema new_schema =
     rewrite_edges (map_edge_collations
       (\<lambda>n. if rn_schema n = old_schema then ResolvedName new_schema (rn_name n) else n))"

definition remap_schema_edge :: "string \<Rightarrow> string \<Rightarrow> dependency_edge \<Rightarrow> dependency_edge" where
  "remap_schema_edge old new e =
     (let remap = remap_schema old new
      in case edge_kind e of
           PublicationIncludes _ \<Rightarrow> e\<lparr>dependent := remap (dependent e)\<rparr>
         | TriggerOnTable trigger_id function_id gen \<Rightarrow>
             e\<lparr>dependent := remap (dependent e), referenced := remap (referenced e),
               edge_kind := TriggerOnTable (remap trigger_id) (remap function_id) gen\<rparr>
         | ViewUsesRoutine (Some name) \<Rightarrow>
             e\<lparr>dependent := remap (dependent e), referenced := remap (referenced e),
               edge_kind := ViewUsesRoutine (Some (remap name))\<rparr>
         | _ \<Rightarrow> e\<lparr>dependent := remap (dependent e), referenced := remap (referenced e)\<rparr>)"

definition remap_schema_namespace :: "string \<Rightarrow> string \<Rightarrow> dependency_graph \<Rightarrow> dependency_graph" where
  "remap_schema_namespace old_schema new_schema = rewrite_edges (remap_schema_edge old_schema new_schema)"

fun follows_dependent :: "dependency_kind \<Rightarrow> bool" where
  "follows_dependent RenameTo = False"
| "follows_dependent IndexPartitionOf = False"
| "follows_dependent (IndexOnRelation _ _ _ _ _ _) = False"
| "follows_dependent (SequenceOwnedBy _) = False"
| "follows_dependent (TriggerOnTable _ _ _) = False"
| "follows_dependent _ = True"

fun follows_referenced :: "dependency_kind \<Rightarrow> bool" where
  "follows_referenced RenameTo = False"
| "follows_referenced IndexPartitionOf = False"
| "follows_referenced (ViewUsesRoutine _) = False"
| "follows_referenced ViewUsesType = False"
| "follows_referenced (ColumnDefaultOnSequence _) = False"
| "follows_referenced (PublicationIncludes _) = False"
| "follows_referenced _ = True"

text \<open>Which endpoints follow a relation rename is decided by the edge kind alone.\<close>

definition rename_relation_edge :: "oid \<Rightarrow> oid \<Rightarrow> dependency_edge \<Rightarrow> dependency_edge" where
  "rename_relation_edge old new e =
     (let e1 = (if follows_dependent (edge_kind e) then e\<lparr>dependent := renamed old new (dependent e)\<rparr> else e)
      in if follows_referenced (edge_kind e) then e1\<lparr>referenced := renamed old new (referenced e1)\<rparr> else e1)"

definition propagate_relation_rename :: "oid \<Rightarrow> oid \<Rightarrow> dependency_graph \<Rightarrow> dependency_graph" where
  "propagate_relation_rename old new = rewrite_edges (rename_relation_edge old new)"

definition rename_index_edge :: "oid \<Rightarrow> oid \<Rightarrow> dependency_edge \<Rightarrow> dependency_edge" where
  "rename_index_edge old new e =
     (if is_index_kind (edge_kind e) \<and> dependent e = old then e\<lparr>dependent := new\<rparr> else e)"

definition propagate_index_rename :: "oid \<Rightarrow> oid \<Rightarrow> dependency_graph \<Rightarrow> dependency_graph" where
  "propagate_index_rename old new = rewrite_edges (rename_index_edge old new)"

definition rename_sequence_edge :: "oid \<Rightarrow> oid \<Rightarrow> dependency_edge \<Rightarrow> dependency_edge" where
  "rename_sequence_edge old new e =
     (case edge_kind e of
        SequenceOwnedBy _ \<Rightarrow> if dependent e = old then e\<lparr>dependent := new\<rparr> else e
      | ColumnDefaultOnSequence _ \<Rightarrow> if referenced e = old then e\<lparr>referenced := new\<rparr> else e
      | _ \<Rightarrow> e)"

definition propagate_sequence_rename :: "oid \<Rightarrow> oid \<Rightarrow> dependency_graph \<Rightarrow> dependency_graph" where
  "propagate_sequence_rename old new = rewrite_edges (rename_sequence_edge old new)"

definition rename_trigger_edge :: "oid \<Rightarrow> oid \<Rightarrow> dependency_edge \<Rightarrow> dependency_edge" where
  "rename_trigger_edge old new e =
     (case edge_kind e of
        TriggerOnTable trigger_id function_id gen \<Rightarrow>
          if trigger_id = old
          then (let e1 = e\<lparr>edge_kind := TriggerOnTable new function_id gen\<rparr>
                in if dependent e1 = old then e1\<lparr>dependent := new\<rparr> else e1)
          else e
      | _ \<Rightarrow> e)"

definition propagate_trigger_rename :: "oid \<Rightarrow> oid \<Rightarrow> dependency_graph \<Rightarrow> dependency_graph" where
  "propagate_trigger_rename old new = rewrite_edges (rename_trigger_edge old new)"

definition rename_function_edge :: "oid \<Rightarrow> oid \<Rightarrow> dependency_edge \<Rightarrow> dependency_edge" where
  "rename_function_edge old new e =
     (case edge_kind e of
        TriggerOnTable trigger_id function_id gen \<Rightarrow>
          if function_id = old then e\<lparr>edge_kind := TriggerOnTable trigger_id new gen\<rparr> else e
      | ViewUsesRoutine None \<Rightarrow> if referenced e = old then e\<lparr>referenced := new\<rparr> else e
      | _ \<Rightarrow> e)"

definition propagate_function_rename :: "oid \<Rightarrow> oid \<Rightarrow> dependency_graph \<Rightarrow> dependency_graph" where
  "propagate_function_rename old new = rewrite_edges (rename_function_edge old new)"

definition rename_type_edge :: "oid \<Rightarrow> oid \<Rightarrow> dependency_edge \<Rightarrow> dependency_edge" where
  "rename_type_edge old new e =
     (if edge_kind e = ViewUsesType \<and> referenced e = old then e\<lparr>referenced := new\<rparr> else e)"

definition propagate_type_rename :: "oid \<Rightarrow> oid \<Rightarrow> dependency_graph \<Rightarrow> dependency_graph" where
  "propagate_type_rename old new = rewrite_edges (rename_type_edge old new)"

definition has_view_reference_to_name :: "dependency_graph \<Rightarrow> oid \<Rightarrow> bool" where
  "has_view_reference_to_name g name = list_ex (\<lambda>e. edge_kind e = ViewUsesRoutine (Some name)) (edges g)"

definition rename_view_reference_edge :: "oid \<Rightarrow> oid \<Rightarrow> dependency_edge \<Rightarrow> dependency_edge" where
  "rename_view_reference_edge old new e =
     (if edge_kind e = ViewUsesRoutine (Some old)
      then e\<lparr>edge_kind := ViewUsesRoutine (Some new), referenced := new\<rparr> else e)"

definition propagate_view_reference_rename :: "oid \<Rightarrow> oid \<Rightarrow> dependency_graph \<Rightarrow> dependency_graph" where
  "propagate_view_reference_rename old new = rewrite_edges (rename_view_reference_edge old new)"

definition rename_constraint_edge :: "oid \<Rightarrow> string \<Rightarrow> string \<Rightarrow> dependency_edge \<Rightarrow> dependency_edge" where
  "rename_constraint_edge table old new e =
     (if dependent e \<noteq> table then e
      else case edge_kind e of
          ForeignKey (Some n) fc tc ev gen \<Rightarrow>
            e\<lparr>edge_kind := ForeignKey (Some (renamed old new n)) fc tc ev gen\<rparr>
        | ConstraintOnRelation n cols pk \<Rightarrow> e\<lparr>edge_kind := ConstraintOnRelation (renamed old new n) cols pk\<rparr>
        | ConstraintDependency n cols \<Rightarrow> e\<lparr>edge_kind := ConstraintDependency (renamed old new n) cols\<rparr>
        | _ \<Rightarrow> e)"

definition rename_constraint :: "oid \<Rightarrow> string \<Rightarrow> string \<Rightarrow> dependency_graph \<Rightarrow> dependency_graph" where
  "rename_constraint table old new = rewrite_edges (rename_constraint_edge table old new)"

definition rename_column_edge :: "oid \<Rightarrow> string \<Rightarrow> string \<Rightarrow> dependency_edge \<Rightarrow> dependency_edge" where
  "rename_column_edge table old new e =
     (let on_dependent = dependent e = table;
          on_referenced = referenced e = table;
          at = (\<lambda>b c. if b then renamed old new c else c)
      in case edge_kind e of
           ForeignKey n from_columns to_columns ev gen \<Rightarrow>
             e\<lparr>edge_kind := ForeignKey n (map (at on_dependent) from_columns)
                 (map (at on_referenced) to_columns) ev gen\<rparr>
         | ConstraintOnRelation n columns pk \<Rightarrow>
             e\<lparr>edge_kind := ConstraintOnRelation n (map (at on_dependent) columns) pk\<rparr>
         | ConstraintDependency n columns \<Rightarrow>
             e\<lparr>edge_kind := ConstraintDependency n (map (at on_dependent) columns)\<rparr>
         | ColumnGeneratedFrom column depends_on_column \<Rightarrow>
             e\<lparr>edge_kind := ColumnGeneratedFrom (at on_dependent column)
                 (at on_referenced depends_on_column)\<rparr>
         | ColumnDefaultOnSequence column \<Rightarrow>
             e\<lparr>edge_kind := ColumnDefaultOnSequence (at on_dependent column)\<rparr>
         | _ \<Rightarrow> e)"

definition rename_column_dependencies ::
  "oid \<Rightarrow> string \<Rightarrow> string \<Rightarrow> dependency_graph \<Rightarrow> dependency_graph" where
  "rename_column_dependencies table old new = rewrite_edges (rename_column_edge table old new)"

fun rename_key_kind :: "string \<Rightarrow> string \<Rightarrow> index_key_kind \<Rightarrow> index_key_kind" where
  "rename_key_kind old new (KeyColumn name) = KeyColumn (renamed old new name)"
| "rename_key_kind old new (KeyExpression e) = KeyExpression e"

definition rename_index_column_edge ::
  "oid \<Rightarrow> string \<Rightarrow> string \<Rightarrow> dependency_edge \<Rightarrow> dependency_edge" where
  "rename_index_column_edge table old new e =
     (if referenced e \<noteq> table then e
      else case edge_kind e of
          IndexOnRelation d cols known conc imm elig \<Rightarrow>
            e\<lparr>edge_kind :=
               IndexOnRelation
                 (map_index_keys (\<lambda>k. k\<lparr>key_kind := rename_key_kind old new (key_kind k)\<rparr>) d)
                 (map (renamed old new) cols) known conc imm elig\<rparr>
        | _ \<Rightarrow> e)"

definition rename_index_column :: "oid \<Rightarrow> string \<Rightarrow> string \<Rightarrow> dependency_graph \<Rightarrow> dependency_graph" where
  "rename_index_column table old new = rewrite_edges (rename_index_column_edge table old new)"

definition rename_owned_column_edge ::
  "oid \<Rightarrow> string \<Rightarrow> string \<Rightarrow> dependency_edge \<Rightarrow> dependency_edge" where
  "rename_owned_column_edge seq old new e =
     (if dependent e = seq \<and> edge_kind e = SequenceOwnedBy old
      then e\<lparr>edge_kind := SequenceOwnedBy new\<rparr> else e)"

definition rename_owned_sequence_column ::
  "oid \<Rightarrow> string \<Rightarrow> string \<Rightarrow> dependency_graph \<Rightarrow> dependency_graph" where
  "rename_owned_sequence_column seq old new = rewrite_edges (rename_owned_column_edge seq old new)"

definition rename_publication_edge :: "string \<Rightarrow> string \<Rightarrow> dependency_edge \<Rightarrow> dependency_edge" where
  "rename_publication_edge old new e =
     (if edge_kind e = PublicationIncludes old
      then e\<lparr>edge_kind := PublicationIncludes new, referenced := Oid ''public'' new\<rparr> else e)"

definition rename_publication :: "string \<Rightarrow> string \<Rightarrow> dependency_graph \<Rightarrow> dependency_graph" where
  "rename_publication old new = rewrite_edges (rename_publication_edge old new)"

section \<open>Typed lookups\<close>

text \<open>\<^verbatim>\<open>str::split_once\<close> for one character, keeping the part before it.\<close>

definition split_routine_signature :: "oid \<Rightarrow> string \<times> string" where
  "split_routine_signature routine =
     (if List.member (name_of routine) CHR ''(''
      then (schema_of routine, takeWhile (\<lambda>c. c \<noteq> CHR ''('') (name_of routine))
      else (schema_of routine, name_of routine))"

definition views_for_function :: "dependency_graph \<Rightarrow> oid \<Rightarrow> dependency_edge list" where
  "views_for_function g function_id =
     (let (schema, signature) = split_routine_signature function_id
      in filter (\<lambda>e. case edge_kind e of
             ViewUsesRoutine None \<Rightarrow> referenced e = function_id
           | ViewUsesRoutine (Some name) \<Rightarrow> schema_of name = schema \<and> name_of name = signature
           | _ \<Rightarrow> False) (edges g))"

definition views_for_type :: "dependency_graph \<Rightarrow> oid \<Rightarrow> dependency_edge list" where
  "views_for_type g ty = filter (\<lambda>e. edge_kind e = ViewUsesType \<and> referenced e = ty) (edges g)"

definition triggers_for_function :: "dependency_graph \<Rightarrow> oid \<Rightarrow> dependency_edge list" where
  "triggers_for_function g function_id =
     filter (\<lambda>e. case edge_kind e of TriggerOnTable _ fid _ \<Rightarrow> fid = function_id | _ \<Rightarrow> False) (edges g)"

section \<open>The edge store\<close>

text \<open>
  The contract the rest of the analyzer relies on: an ordered, duplicate-free vector of edges with
  insertion, filtering, truncation, replacement and rewriting.
\<close>

locale edge_store =
  fixes inv :: "'g \<Rightarrow> bool"
    and edges_of :: "'g \<Rightarrow> 'e list"
    and add :: "'e \<Rightarrow> 'g \<Rightarrow> 'g"
    and retain :: "('e \<Rightarrow> bool) \<Rightarrow> 'g \<Rightarrow> 'g"
    and cut :: "nat \<Rightarrow> 'g \<Rightarrow> 'g"
    and replace :: "'e list \<Rightarrow> 'g \<Rightarrow> 'g"
    and rewrite :: "('e \<Rightarrow> 'e) \<Rightarrow> 'g \<Rightarrow> 'g"
  assumes distinct_edges: "inv g \<Longrightarrow> distinct (edges_of g)"
    and inv_add: "inv g \<Longrightarrow> inv (add e g)"
    and inv_retain: "inv g \<Longrightarrow> inv (retain P g)"
    and inv_cut: "inv g \<Longrightarrow> inv (cut n g)"
    and inv_replace: "inv (replace es g)"
    and inv_rewrite: "inv (rewrite f g)"
    and edges_add: "inv g \<Longrightarrow> edges_of (add e g) = (if e \<in> set (edges_of g) then edges_of g else edges_of g @ [e])"
    and edges_retain: "edges_of (retain P g) = filter P (edges_of g)"
    and edges_cut: "edges_of (cut n g) = take n (edges_of g)"
    and edges_replace: "edges_of (replace es g) = dedup es"
    and edges_rewrite: "edges_of (rewrite f g) = dedup (map f (edges_of g))"
begin

lemma add_twice: "inv g \<Longrightarrow> edges_of (add e (add e g)) = edges_of (add e g)"
  by (simp add: edges_add inv_add)

lemma cut_undoes_adds:
  assumes "inv g"
  shows "inv (fold add es g) \<and> edges_of (cut (length (edges_of g)) (fold add es g)) = edges_of g"
proof -
  have "inv h \<Longrightarrow> inv (fold add es h) \<and> take n (edges_of (fold add es h)) = take n (edges_of h)"
    if "n \<le> length (edges_of h)" for h n
    using that
  proof (induction es arbitrary: h)
    case (Cons e es)
    then show ?case using Cons.IH [of "add e h"] by (simp add: inv_add edges_add)
  qed simp
  from this [of "length (edges_of g)" g] assms show ?thesis by (simp add: edges_cut)
qed

lemma replace_restores: "inv g \<Longrightarrow> edges_of (replace (edges_of g) h) = edges_of g"
  by (simp add: edges_replace distinct_edges)

lemma rewrite_inverse:
  assumes "inv g" and inverse: "\<And>e. e \<in> set (edges_of g) \<Longrightarrow> f' (f e) = e"
  shows "edges_of (rewrite f' (rewrite f g)) = edges_of g"
proof -
  have "inj_on f (set (edges_of g))" using inverse by (metis inj_onI)
  then have "distinct (map f (edges_of g))" using assms(1) by (simp add: distinct_map distinct_edges)
  moreover have "map f' (map f (edges_of g)) = edges_of g" using inverse by (simp add: map_idI)
  ultimately show ?thesis using assms(1) by (simp add: edges_rewrite distinct_edges)
qed

lemma rewrite_loses_nothing:
  assumes "inv g" and "inj_on f (set (edges_of g))"
  shows "edges_of (rewrite f g) = map f (edges_of g)"
  using assms by (simp add: edges_rewrite distinct_map distinct_edges)

end

section \<open>The graph invariant\<close>

definition graph_wf :: "dependency_graph \<Rightarrow> bool" where
  "graph_wf g \<longleftrightarrow>
     distinct (edges g) \<and> edge_set g = set (edges g)
     \<and> (indexes_cell g = None \<or> indexes_cell g = Some (build_indexes (edges g)))"

lemma graph_wf_fresh [intro]:
  "distinct (edges g) \<Longrightarrow> edge_set g = set (edges g) \<Longrightarrow> indexes_cell g = None \<Longrightarrow> graph_wf g"
  by (simp add: graph_wf_def)

lemma edges_simps [graph_simps]:
  "edges (invalidate_indexes g) = edges g" "edges (rebuild_edge_set g) = edges g"
  "edges (deduplicate_edges g) = dedup (edges g)" "edges (retain_edges P g) = filter P (edges g)"
  "edges (truncate_edges n g) = take n (edges g)" "edges (replace_edges es g) = dedup es"
  "edges (mutate_edges F g) = dedup (F (edges g))" "edges (graph_clone g) = edges g"
  "edges (touch_indexes g) = edges g" "edges graph_new = []"
  "edges (rewrite_edges f g) = dedup (map f (edges g))"
  by (simp_all add: invalidate_indexes_def rebuild_edge_set_def deduplicate_edges_def retain_edges_def
      truncate_edges_def replace_edges_def mutate_edges_def graph_clone_def touch_indexes_def graph_new_def
      rewrite_edges_def Let_def)

lemma edges_add_edge [graph_simps]:
  "graph_wf g \<Longrightarrow> edges (add_edge e g) = (if e \<in> set (edges g) then edges g else edges g @ [e])"
  by (simp add: add_edge_def graph_wf_def invalidate_indexes_def)

lemma graph_wf_new: "graph_wf graph_new"
  by (simp add: graph_wf_def graph_new_def)

lemma graph_wf_clone: "graph_wf g \<Longrightarrow> graph_wf (graph_clone g)"
  by (simp add: graph_wf_def graph_clone_def)

lemma graph_wf_add: "graph_wf g \<Longrightarrow> graph_wf (add_edge e g)"
  by (auto simp: graph_wf_def add_edge_def invalidate_indexes_def)

lemma graph_wf_retain: "graph_wf g \<Longrightarrow> graph_wf (retain_edges P g)"
proof -
  assume wf: "graph_wf g"
  show ?thesis
  proof (cases "length (filter P (edges g)) = length (edges g)")
    case True
    then have "filter P (edges g) = edges g"
      by (metis filter_id_conv length_filter_less less_irrefl)
    with wf True show ?thesis by (simp add: retain_edges_def Let_def)
  next
    case False
    with wf show ?thesis
      by (auto simp: retain_edges_def Let_def graph_wf_def invalidate_indexes_def rebuild_edge_set_def)
  qed
qed

lemma graph_wf_truncate: "graph_wf g \<Longrightarrow> graph_wf (truncate_edges n g)"
  by (auto simp: graph_wf_def truncate_edges_def invalidate_indexes_def rebuild_edge_set_def)

lemma graph_wf_mutate: "graph_wf (mutate_edges F g)"
  by (simp add: graph_wf_def mutate_edges_def deduplicate_edges_def invalidate_indexes_def)

lemma graph_wf_replace: "graph_wf (replace_edges es g)"
  by (simp add: graph_wf_def replace_edges_def deduplicate_edges_def invalidate_indexes_def)

lemma graph_wf_rewrite: "graph_wf (rewrite_edges f g)"
  by (simp add: rewrite_edges_def graph_wf_mutate)

lemma indexes_wf: "graph_wf g \<Longrightarrow> indexes g = build_indexes (edges g)"
  by (auto simp: graph_wf_def indexes_def)

lemma graph_wf_touch: "graph_wf g \<Longrightarrow> graph_wf (touch_indexes g)"
  by (simp add: touch_indexes_def indexes_wf) (simp add: graph_wf_def)

interpretation graph_store: edge_store graph_wf edges add_edge retain_edges truncate_edges replace_edges rewrite_edges
  by unfold_locales
    (simp_all add: graph_simps graph_wf_add graph_wf_retain graph_wf_truncate graph_wf_replace
      graph_wf_rewrite, simp add: graph_wf_def)

text \<open>Every way the analyzer has of changing a graph.\<close>

inductive reachable_graph :: "dependency_graph \<Rightarrow> bool" where
  rg_new: "reachable_graph graph_new"
| rg_clone: "reachable_graph g \<Longrightarrow> reachable_graph (graph_clone g)"
| rg_add: "reachable_graph g \<Longrightarrow> reachable_graph (add_edge e g)"
| rg_retain: "reachable_graph g \<Longrightarrow> reachable_graph (retain_edges keep g)"
| rg_truncate: "reachable_graph g \<Longrightarrow> reachable_graph (truncate_edges n g)"
| rg_replace: "reachable_graph g \<Longrightarrow> reachable_graph (replace_edges es g)"
| rg_mutate: "reachable_graph g \<Longrightarrow> reachable_graph (mutate_edges F g)"
| rg_lookup: "reachable_graph g \<Longrightarrow> reachable_graph (touch_indexes g)"

lemma reachable_graph_wf: "reachable_graph g \<Longrightarrow> graph_wf g"
  by (induction rule: reachable_graph.induct)
    (simp_all add: graph_wf_new graph_wf_clone graph_wf_add graph_wf_retain graph_wf_truncate
      graph_wf_replace graph_wf_mutate graph_wf_touch)

section \<open>The derived indexes\<close>

definition is_rename_of :: "oid \<Rightarrow> dependency_edge \<Rightarrow> bool" where
  "is_rename_of k e \<longleftrightarrow> edge_kind e = RenameTo \<and> dependent e = k"

lemma rename_sources_eq:
  "rename_sources i es m k =
     (case m k of Some v \<Rightarrow> Some v | None \<Rightarrow> map_option ((+) i) (position (is_rename_of k) es))"
proof (induction i es m rule: rename_sources.induct)
  case (2 i e es m)
  have "map_option ((+) (Suc i)) p = map_option ((+) i) (map_option Suc p)" for p
    by (cases p) simp_all
  then show ?case using 2 by (auto simp: is_rename_of_def split: option.splits if_splits)
qed (simp split: option.splits)

lemma rename_sources_range: "rename_sources 0 es Map.empty k = Some i \<Longrightarrow> i < length es"
  by (auto simp: rename_sources_eq dest: position_SomeD)

definition rename_target :: "dependency_edge list \<Rightarrow> oid \<Rightarrow> oid option" where
  "rename_target es k = map_option referenced (List.find (is_rename_of k) es)"

lemma find_position: "List.find P xs = map_option ((!) xs) (position P xs)"
  by (induction xs) (auto simp: option.map_comp comp_def)

lemma rename_target_sources:
  "rename_target es k = map_option (\<lambda>i. referenced (es ! i)) (rename_sources 0 es Map.empty k)"
  by (simp add: rename_target_def find_position rename_sources_eq option.map_comp comp_def)

lemma rename_walk_target:
  "rename_walk es (rename_sources 0 es Map.empty) obj cur visited =
     (if cur \<in> visited then obj
      else case rename_target es cur of
          None \<Rightarrow> cur
        | Some next \<Rightarrow> rename_walk es (rename_sources 0 es Map.empty) obj next (insert cur visited))"
  by (subst rename_walk.simps)
    (auto simp: rename_target_sources dest: rename_sources_range split: option.splits)

definition position_list :: "(oid \<rightharpoonup> nat list) \<Rightarrow> oid \<Rightarrow> nat list" where
  "position_list m k = (case m k of None \<Rightarrow> [] | Some l \<Rightarrow> l)"

lemma resolved_positions_edges:
  assumes "drop i full = es"
  shows "map ((!) full) (position_list (resolved_positions res i es m) k) =
     map ((!) full) (position_list m k) @ filter (\<lambda>e. res (referenced e) = k) es"
  using assms
proof (induction es arbitrary: i m)
  case (Cons e es)
  then have "drop (Suc i) full = es" "full ! i = e"
    by (metis drop_Suc tl_drop list.sel(3), metis hd_drop_conv_nth drop_eq_Nil2 linorder_not_le list.distinct(1) list.sel(1))
  then show ?case using Cons.IH by (auto simp: Let_def position_list_def)
qed simp

lemma resolved_referenced_edges_eq:
  assumes "graph_wf g"
  shows "resolved_referenced_edges g obj =
    filter (\<lambda>e. resolve_rename g (referenced e) = resolve_rename g obj) (edges g)"
proof -
  let ?m = "by_resolved_referenced (indexes g)"
  have "resolved_referenced_edges g obj = map ((!) (edges g)) (position_list ?m (resolve_rename g obj))"
    by (simp add: resolved_referenced_edges_def position_list_def split: option.splits)
  also have "\<dots> = filter (\<lambda>e. resolve_rename g (referenced e) = resolve_rename g obj) (edges g)"
    using resolved_positions_edges [of 0 "edges g"] assms
    by (simp add: indexes_wf build_indexes_def Let_def resolve_rename_def position_list_def)
  finally show ?thesis .
qed

section \<open>Rename chains\<close>

definition rename_rel :: "dependency_edge list \<Rightarrow> (oid \<times> oid) set" where
  "rename_rel es = {(a, b). rename_target es a = Some b}"

lemma cycle_back:
  assumes "single_valued R" "(a, a) \<in> R\<^sup>+" "(a, b) \<in> R\<^sup>*"
  shows "(b, a) \<in> R\<^sup>*"
  using assms(3)
proof (induction rule: rtrancl_induct)
  case (step b c)
  show ?case
  proof (cases "b = a")
    case True
    with assms(2) obtain d where "(b, d) \<in> R" "(d, a) \<in> R\<^sup>*" by (metis tranclD)
    with step assms(1) show ?thesis by (metis single_valuedD)
  next
    case False
    with step.IH obtain d where "(b, d) \<in> R" "(d, a) \<in> R\<^sup>*" by (metis converse_rtranclE)
    with step assms(1) show ?thesis by (metis single_valuedD)
  qed
qed simp

lemma single_valued_rename: "single_valued (rename_rel es)"
  by (auto simp: single_valued_def rename_rel_def)

lemma rename_walk_end:
  assumes "(cur, r) \<in> (rename_rel es)\<^sup>*" "rename_target es r = None"
    and "\<And>x. (cur, x) \<in> (rename_rel es)\<^sup>* \<Longrightarrow> x \<notin> visited"
  shows "rename_walk es (rename_sources 0 es Map.empty) obj cur visited = r"
  using assms(1,3)
proof (induction arbitrary: visited rule: converse_rtrancl_induct)
  case base
  then have "r \<notin> visited" by blast
  then show ?case using assms(2) by (subst rename_walk_target) simp
next
  case (step cur nxt)
  have "(nxt, cur) \<notin> (rename_rel es)\<^sup>*"
  proof
    assume "(nxt, cur) \<in> (rename_rel es)\<^sup>*"
    then have "(cur, cur) \<in> (rename_rel es)\<^sup>+" using step.hyps(1) by (simp add: rtrancl_into_trancl2)
    then have "(r, cur) \<in> (rename_rel es)\<^sup>*"
      using cycle_back [OF single_valued_rename] step.hyps by (meson converse_rtrancl_into_rtrancl)
    then show False using assms(2) step.hyps(1) by (auto simp: rename_rel_def elim: converse_rtranclE)
  qed
  then have "\<And>x. (nxt, x) \<in> (rename_rel es)\<^sup>* \<Longrightarrow> x \<notin> insert cur visited"
    using step.prems step.hyps(1) by (metis insertE converse_rtrancl_into_rtrancl)
  moreover have "cur \<notin> visited" using step.prems by blast
  ultimately show ?case
    using step.hyps(1) step.IH by (subst rename_walk_target) (simp add: rename_rel_def)
qed

lemma rename_walk_cycle:
  assumes "\<And>r. (cur, r) \<in> (rename_rel es)\<^sup>* \<Longrightarrow> rename_target es r \<noteq> None"
  shows "rename_walk es (rename_sources 0 es Map.empty) obj cur visited = obj"
  using assms
proof (induction es "rename_sources 0 es Map.empty" obj cur visited rule: rename_walk.induct)
  case (1 es obj cur visited)
  show ?case
  proof (cases "cur \<in> visited")
    case True
    then show ?thesis by (subst rename_walk_target) simp
  next
    case False
    from "1.prems" [of cur] obtain next' where n: "rename_target es cur = Some next'" by auto
    then obtain i where i: "rename_sources 0 es Map.empty cur = Some i" "next' = referenced (es ! i)"
      by (auto simp: rename_target_sources)
    have "(cur, next') \<in> rename_rel es" using n by (simp add: rename_rel_def)
    then have "\<And>r. (next', r) \<in> (rename_rel es)\<^sup>* \<Longrightarrow> rename_target es r \<noteq> None"
      using "1.prems" by (meson converse_rtrancl_into_rtrancl)
    then have "rename_walk es (rename_sources 0 es Map.empty) obj next' (insert cur visited) = obj"
      using "1.hyps" [OF False i(1) rename_sources_range [OF i(1)]] i(2) by simp
    then show ?thesis using n False by (subst rename_walk_target) simp
  qed
qed

lemma resolve_rename_wf:
  "graph_wf g \<Longrightarrow> resolve_rename g obj =
     rename_walk (edges g) (rename_sources 0 (edges g) Map.empty) obj obj {}"
  by (simp add: resolve_rename_def resolve_rename_with_def indexes_wf build_indexes_def Let_def)

lemma resolve_rename_end:
  "graph_wf g \<Longrightarrow> (obj, r) \<in> (rename_rel (edges g))\<^sup>* \<Longrightarrow> rename_target (edges g) r = None
     \<Longrightarrow> resolve_rename g obj = r"
  by (simp add: resolve_rename_wf rename_walk_end)

lemma resolve_rename_cycle:
  assumes "graph_wf g"
    and "\<And>r. (obj, r) \<in> (rename_rel (edges g))\<^sup>* \<Longrightarrow> rename_target (edges g) r \<noteq> None"
  shows "resolve_rename g obj = obj"
  unfolding resolve_rename_wf [OF assms(1)] using assms(2) by (rule rename_walk_cycle)

lemma resolve_rename_cases:
  assumes "graph_wf g"
  obtains "(obj, resolve_rename g obj) \<in> (rename_rel (edges g))\<^sup>*"
    "rename_target (edges g) (resolve_rename g obj) = None"
  | "resolve_rename g obj = obj"
    "\<And>r. (obj, r) \<in> (rename_rel (edges g))\<^sup>* \<Longrightarrow> rename_target (edges g) r \<noteq> None"
  using resolve_rename_end [OF assms] resolve_rename_cycle [OF assms] by metis

section \<open>Ancestry\<close>

definition partition_rel :: "dependency_graph \<Rightarrow> (oid \<times> oid) set" where
  "partition_rel g =
     {(resolve_rename g (dependent e), resolve_rename g (referenced e)) | e.
        e \<in> set (edges g) \<and> is_partition_kind (edge_kind e)}"

definition inheritance_rel :: "dependency_graph \<Rightarrow> (oid \<times> oid) set" where
  "inheritance_rel g =
     {(resolve_rename g (dependent e), resolve_rename g (referenced e)) | e.
        e \<in> set (edges g) \<and> edge_kind e = InheritanceOf}"

lemma partition_parent_Some:
  "partition_parent g a = Some b \<Longrightarrow> (a, b) \<in> partition_rel g"
  by (auto simp: partition_parent_def partition_rel_def find_Some_iff)

lemma partition_parent_None:
  "partition_parent g a = None \<Longrightarrow> (a, b) \<notin> partition_rel g"
  by (auto simp: partition_parent_def partition_rel_def find_None_iff)

lemma partition_walk_correct:
  assumes "acyclic (partition_rel g)" "single_valued (partition_rel g)"
  shows "(\<And>v. v \<in> visited \<Longrightarrow> (v, cur) \<in> (partition_rel g)\<^sup>+)
     \<Longrightarrow> partition_walk g child cur visited \<longleftrightarrow> (cur, child) \<in> (partition_rel g)\<^sup>+"
  using assms
proof (induction g child cur visited rule: partition_walk.induct)
  case (1 g child cur visited)
  let ?R = "partition_rel g"
  have fresh: "cur \<notin> visited" using "1.prems"(1,2) by (auto simp: acyclic_def)
  show ?case
  proof (cases "partition_parent g cur")
    case None
    then have "(cur, child) \<notin> ?R\<^sup>+" by (auto dest: tranclD partition_parent_None)
    with fresh None show ?thesis by (subst partition_walk.simps) simp
  next
    case (Some p)
    then have edge: "(cur, p) \<in> ?R" by (rule partition_parent_Some)
    have rest: "(cur, child) \<in> ?R\<^sup>+ \<longleftrightarrow> p = child \<or> (p, child) \<in> ?R\<^sup>+"
      using edge "1.prems"(3) by (metis single_valuedD trancl.r_into_trancl trancl_into_trancl2 converse_tranclE)
    show ?thesis
    proof (cases "p = child")
      case True
      with fresh Some rest show ?thesis by (subst partition_walk.simps) simp
    next
      case False
      have "partition_walk g child p (insert cur visited) \<longleftrightarrow> (p, child) \<in> ?R\<^sup>+"
        using "1.prems" edge by (intro "1.IH" [OF fresh Some False]) (auto intro: trancl_into_trancl)
      with fresh Some False rest show ?thesis by (subst partition_walk.simps) simp
    qed
  qed
qed

lemma inheritance_parents_set: "set (inheritance_parents g a) = {b. (a, b) \<in> inheritance_rel g}"
  by (auto simp: inheritance_parents_def inheritance_rel_def)

lemma closed_frontier:
  assumes "v \<in> visited" "(v, c) \<in> R\<^sup>+"
    and closed: "\<And>v w. v \<in> visited \<Longrightarrow> (v, w) \<in> R \<Longrightarrow> w \<noteq> c \<and> (w \<in> visited \<or> w \<in> P)"
  shows "\<exists>x \<in> P. (x, c) \<in> R\<^sup>+"
  using assms(2,1)
proof (induction rule: converse_trancl_induct)
  case (base v)
  then show ?case using closed by blast
next
  case (step v w)
  then show ?case using closed by blast
qed

lemma inheritance_search_correct:
  "(\<And>v w. v \<in> visited \<Longrightarrow> (v, w) \<in> inheritance_rel g \<Longrightarrow> w \<noteq> child \<and> (w \<in> visited \<or> w \<in> set pending))
     \<Longrightarrow> inheritance_search g child pending visited \<longleftrightarrow>
         (\<exists>x \<in> set pending. (x, child) \<in> (inheritance_rel g)\<^sup>+)"
proof (induction g child pending visited rule: inheritance_search.induct)
  case (2 g child current pending visited)
  let ?R = "inheritance_rel g"
  consider (seen) "current \<in> visited"
    | (hit) "current \<notin> visited" "child \<in> set (inheritance_parents g current)"
    | (expand) "current \<notin> visited" "child \<notin> set (inheritance_parents g current)" by blast
  then show ?case
  proof cases
    case seen
    have c: "\<And>v w. v \<in> visited \<Longrightarrow> (v, w) \<in> ?R \<Longrightarrow> w \<noteq> child \<and> (w \<in> visited \<or> w \<in> set pending)"
      using "2.prems" seen by fastforce
    have "inheritance_search g child pending visited \<longleftrightarrow> (\<exists>x \<in> set pending. (x, child) \<in> ?R\<^sup>+)"
      using "2.IH"(1) [OF seen] c by simp
    moreover have "(current, child) \<in> ?R\<^sup>+ \<Longrightarrow> \<exists>x \<in> set pending. (x, child) \<in> ?R\<^sup>+"
      using closed_frontier [OF seen] c by simp
    ultimately show ?thesis using seen by auto
  next
    case hit
    then have "(current, child) \<in> ?R\<^sup>+" by (auto simp: inheritance_parents_set)
    with hit show ?thesis by (auto)
  next
    case expand
    have c: "w \<noteq> child \<and> (w \<in> insert current visited
        \<or> w \<in> set (rev (inheritance_parents g current) @ pending))"
      if "v \<in> insert current visited" "(v, w) \<in> ?R" for v w
      using that "2.prems" expand by (auto simp: inheritance_parents_set)
    have "(current, child) \<in> ?R\<^sup>+ \<longleftrightarrow> (\<exists>p \<in> set (inheritance_parents g current). (p, child) \<in> ?R\<^sup>+)"
      using expand by (auto simp: inheritance_parents_set intro: trancl_into_trancl2 dest: tranclD
          elim: converse_tranclE)
    moreover have "inheritance_search g child (rev (inheritance_parents g current) @ pending)
        (insert current visited) \<longleftrightarrow>
        (\<exists>x \<in> set (rev (inheritance_parents g current) @ pending). (x, child) \<in> ?R\<^sup>+)"
      using expand c by (intro "2.IH"(2)) (auto)
    ultimately show ?thesis using expand by (auto)
  qed
qed simp

section \<open>Renames that can be undone\<close>

text \<open>The identities of an edge that a relation rename may touch, and all its identities.\<close>

definition relation_ends :: "dependency_edge \<Rightarrow> oid set" where
  "relation_ends e =
     (if follows_dependent (edge_kind e) then {dependent e} else {})
     \<union> (if follows_referenced (edge_kind e) then {referenced e} else {})"

fun kind_oids :: "dependency_kind \<Rightarrow> oid set" where
  "kind_oids (TriggerOnTable t f _) = {t, f}"
| "kind_oids (ViewUsesRoutine (Some n)) = {n}"
| "kind_oids _ = {}"

definition edge_oids :: "dependency_edge \<Rightarrow> oid set" where
  "edge_oids e = {dependent e, referenced e} \<union> kind_oids (edge_kind e)"

lemma renamed_inverse: "x \<noteq> new \<Longrightarrow> renamed new old (renamed old new x) = x"
  by (simp add: renamed_def)

lemma rename_relation_edge_kind [simp]: "edge_kind (rename_relation_edge old new e) = edge_kind e"
  by (simp add: rename_relation_edge_def Let_def)

lemma rename_relation_edge_inverse:
  "new \<notin> relation_ends e \<Longrightarrow> rename_relation_edge new old (rename_relation_edge old new e) = e"
  by (auto simp: rename_relation_edge_def Let_def relation_ends_def renamed_inverse split: if_splits)

lemma rename_relation_edge_clean:
  "old \<noteq> new \<Longrightarrow> old \<notin> relation_ends (rename_relation_edge old new e)"
  by (auto simp: rename_relation_edge_def Let_def relation_ends_def renamed_def)

lemma remap_schema_inverse: "schema_of x \<noteq> new \<Longrightarrow> remap_schema new old (remap_schema old new x) = x"
  by (cases x) (auto simp: remap_schema_def)

lemma remap_schema_edge_inverse:
  assumes "new \<notin> schema_of ` edge_oids e"
  shows "remap_schema_edge new old (remap_schema_edge old new e) = e"
proof (cases "edge_kind e")
  case (ViewUsesRoutine n)
  with assms show ?thesis
    by (cases n) (auto simp: remap_schema_edge_def Let_def edge_oids_def remap_schema_inverse)
qed (use assms in \<open>auto simp: remap_schema_edge_def Let_def edge_oids_def remap_schema_inverse\<close>)

section \<open>Properties\<close>

text \<open>
  C9. whatever sequence of operations built it, the graph is canonical: the edge vector has no
  duplicate, the edge set holds exactly its elements, and the lookup indexes, cached or not, are
  those of the current vector.
\<close>

theorem reachable_graph_canonical:
  assumes "reachable_graph g"
  shows "distinct (edges g) \<and> edge_set g = set (edges g) \<and> indexes_are_valid g"
  using reachable_graph_wf [OF assms] indexes_wf [of g]
  by (simp add: indexes_are_valid_def graph_wf_def)

definition sample_rename_graph :: dependency_graph where
  "sample_rename_graph =
     add_edge (edge_new (Oid ''s'' ''b'') (Oid ''s'' ''c'') RenameTo)
       (add_edge (edge_new (Oid ''s'' ''a'') (Oid ''s'' ''b'') RenameTo)
         (add_edge (edge_new (Oid ''s'' ''p'') (Oid ''s'' ''a'') PartitionOf) graph_new))"

lemma sample_rename_graph_reachable: "reachable_graph sample_rename_graph"
  unfolding sample_rename_graph_def by (intro rg_add rg_new)

lemmas sample_rename_graph_wf = reachable_graph_wf [OF sample_rename_graph_reachable]

lemma sample_rename_graph_edges:
  "edges sample_rename_graph =
     [edge_new (Oid ''s'' ''p'') (Oid ''s'' ''a'') PartitionOf,
      edge_new (Oid ''s'' ''a'') (Oid ''s'' ''b'') RenameTo,
      edge_new (Oid ''s'' ''b'') (Oid ''s'' ''c'') RenameTo]"
  by (simp add: sample_rename_graph_def add_edge_def graph_new_def edge_new_def invalidate_indexes_def)

theorem reachable_graph_canonical_witness:
  "distinct (edges (touch_indexes sample_rename_graph))
   \<and> indexes_are_valid (touch_indexes sample_rename_graph)"
  using reachable_graph_canonical [OF rg_lookup [OF sample_rename_graph_reachable]] by simp

text \<open>
  C23. rename resolution returns the current end of the rename chain that starts at the name, and
  the name itself when the chain runs into a cycle and has no end; resolving twice changes nothing.
\<close>

theorem resolve_rename_exact:
  assumes "graph_wf g"
  shows "(resolve_rename g obj = r \<longleftrightarrow>
      ((obj, r) \<in> (rename_rel (edges g))\<^sup>* \<and> rename_target (edges g) r = None)
      \<or> (r = obj \<and> (\<forall>x. (obj, x) \<in> (rename_rel (edges g))\<^sup>* \<longrightarrow> rename_target (edges g) x \<noteq> None)))
    \<and> resolve_rename g (resolve_rename g obj) = resolve_rename g obj"
proof (intro conjI)
  show "resolve_rename g obj = r \<longleftrightarrow>
      ((obj, r) \<in> (rename_rel (edges g))\<^sup>* \<and> rename_target (edges g) r = None)
      \<or> (r = obj \<and> (\<forall>x. (obj, x) \<in> (rename_rel (edges g))\<^sup>* \<longrightarrow> rename_target (edges g) x \<noteq> None))"
    using resolve_rename_cases [OF assms, of obj] resolve_rename_end [OF assms, of obj r]
      resolve_rename_cycle [OF assms, of obj] by metis
  show "resolve_rename g (resolve_rename g obj) = resolve_rename g obj"
    using resolve_rename_cases [OF assms, of obj]
      resolve_rename_end [OF assms rtrancl_refl, of "resolve_rename g obj"] by metis
qed

theorem resolve_rename_exact_witness:
  "resolve_rename sample_rename_graph (Oid ''s'' ''a'') = Oid ''s'' ''c''"
proof -
  have t: "rename_target (edges sample_rename_graph) (Oid ''s'' ''a'') = Some (Oid ''s'' ''b'')"
    "rename_target (edges sample_rename_graph) (Oid ''s'' ''b'') = Some (Oid ''s'' ''c'')"
    "rename_target (edges sample_rename_graph) (Oid ''s'' ''c'') = None"
    by (simp_all add: rename_target_def sample_rename_graph_edges edge_new_def is_rename_of_def)
  then have "(Oid ''s'' ''a'', Oid ''s'' ''c'') \<in> (rename_rel (edges sample_rename_graph))\<^sup>*"
    by (auto simp: rename_rel_def intro: rtrancl_into_rtrancl)
  with t show ?thesis
    using resolve_rename_exact [OF sample_rename_graph_wf, of "Oid ''s'' ''a''" "Oid ''s'' ''c''"] by simp
qed

text \<open>
  C24. the indexed lookups used on large graphs and the linear scans used on small ones give the
  same edges in the same order: the cascade edges of an object are exactly the edges of a
  cascading kind whose referenced end resolves to the same object, and likewise for partitions.
\<close>

theorem cascade_and_partition_lookup_exact:
  assumes "graph_wf g"
  shows "cascade_edges g obj =
      filter (\<lambda>e. is_cascade_kind (edge_kind e) \<and> resolve_rename g (referenced e) = resolve_rename g obj)
        (edges g)
    \<and> partitions_of g obj =
      map (\<lambda>e. resolve_rename g (dependent e))
        (filter (\<lambda>e. is_partition_kind (edge_kind e)
           \<and> resolve_rename g (referenced e) = resolve_rename g obj) (edges g))"
proof -
  have "filter (\<lambda>e. is_partition_kind (edge_kind e)
        \<and> (resolve_rename g (referenced e) = resolve_rename g obj \<or> referenced e = obj)) (edges g)
      = filter (\<lambda>e. is_partition_kind (edge_kind e)
          \<and> resolve_rename g (referenced e) = resolve_rename g obj) (edges g)"
    by (rule filter_cong) auto
  then have "partitions_of g obj =
      map (\<lambda>e. resolve_rename g (dependent e))
        (filter (\<lambda>e. is_partition_kind (edge_kind e)
           \<and> resolve_rename g (referenced e) = resolve_rename g obj) (edges g))"
    by (simp add: partitions_of_def Let_def resolved_referenced_edges_eq [OF assms] conj_commute)
  then show ?thesis
    by (simp add: cascade_edges_def Let_def resolved_referenced_edges_eq [OF assms] conj_commute)
qed

theorem cascade_and_partition_lookup_exact_witness:
  "partitions_of sample_rename_graph (Oid ''s'' ''c'') = [Oid ''s'' ''p'']"
  unfolding cascade_and_partition_lookup_exact [OF sample_rename_graph_wf, THEN conjunct2]
  by code_simp

text \<open>
  the partition cycle check is exact. On an acyclic forest of partitions in which each
  partition has one parent, attaching \<open>child\<close> to \<open>parent\<close> is rejected if and only if it would
  close a cycle.
\<close>

theorem check_partition_cycle_exact:
  assumes "acyclic (partition_rel g)" and "single_valued (partition_rel g)"
  shows "check_partition_cycle g parent child \<longleftrightarrow>
    \<not> acyclic (insert (resolve_rename g child, resolve_rename g parent) (partition_rel g))"
  using assms partition_walk_correct [OF assms, of "{}" "resolve_rename g parent" "resolve_rename g child"]
  by (auto simp: check_partition_cycle_def Let_def acyclic_insert rtrancl_eq_or_trancl)

lemma partition_rel_image:
  "partition_rel g = (\<lambda>e. (resolve_rename g (dependent e), resolve_rename g (referenced e))) `
     set (filter (\<lambda>e. is_partition_kind (edge_kind e)) (edges g))"
  by (auto simp: partition_rel_def)

lemma sample_partition_rel:
  "partition_rel sample_rename_graph = {(Oid ''s'' ''p'', Oid ''s'' ''c'')}"
proof -
  have "resolve_rename sample_rename_graph (Oid ''s'' ''p'') = Oid ''s'' ''p''"
    "resolve_rename sample_rename_graph (Oid ''s'' ''a'') = Oid ''s'' ''c''"
    by code_simp+
  then show ?thesis
    by (simp add: partition_rel_image sample_rename_graph_edges edge_new_def is_partition_kind_def)
qed

theorem check_partition_cycle_exact_witness:
  "check_partition_cycle sample_rename_graph (Oid ''s'' ''p'') (Oid ''s'' ''a'')
   \<and> \<not> acyclic (insert (resolve_rename sample_rename_graph (Oid ''s'' ''a''),
        resolve_rename sample_rename_graph (Oid ''s'' ''p'')) (partition_rel sample_rename_graph))"
proof -
  have "acyclic ({} :: (oid \<times> oid) set)" by (simp add: acyclic_def)
  then have "acyclic (partition_rel sample_rename_graph)" "single_valued (partition_rel sample_rename_graph)"
    by (simp_all add: sample_partition_rel acyclic_insert single_valued_def)
  moreover have "check_partition_cycle sample_rename_graph (Oid ''s'' ''p'') (Oid ''s'' ''a'')"
    by code_simp
  ultimately show ?thesis using check_partition_cycle_exact by blast
qed

text \<open>
  the inheritance cycle check decides ancestry in any graph, with several parents per table
  and even with existing cycles: it answers yes exactly when \<open>child\<close> is \<open>parent\<close> or one of its
  ancestors.
\<close>

theorem check_inheritance_cycle_exact:
  "check_inheritance_cycle g parent child \<longleftrightarrow>
     (resolve_rename g parent, resolve_rename g child) \<in> (inheritance_rel g)\<^sup>*"
  using inheritance_search_correct [of "{}" g "resolve_rename g child" "[resolve_rename g parent]"]
  by (auto simp: check_inheritance_cycle_def Let_def rtrancl_eq_or_trancl)

text \<open>
  renaming a relation leaves no edge on the old name, and renaming it back restores every
  edge in place when the new name was unused; the same holds for renaming a schema back and forth.
  No edge is lost to deduplication on the way.
\<close>

theorem rename_roundtrip:
  assumes "graph_wf g"
  shows "(old \<noteq> new \<longrightarrow>
        (\<forall>e \<in> set (edges (propagate_relation_rename old new g)). old \<notin> relation_ends e))
    \<and> ((\<forall>e \<in> set (edges g). new \<notin> relation_ends e) \<longrightarrow>
        edges (propagate_relation_rename new old (propagate_relation_rename old new g)) = edges g)
    \<and> ((\<forall>e \<in> set (edges g). schema' \<notin> schema_of ` edge_oids e) \<longrightarrow>
        edges (remap_schema_namespace schema' schema (remap_schema_namespace schema schema' g)) = edges g)"
proof (intro conjI impI)
  assume "old \<noteq> new"
  then show "\<forall>e \<in> set (edges (propagate_relation_rename old new g)). old \<notin> relation_ends e"
    by (auto simp: propagate_relation_rename_def graph_simps rename_relation_edge_clean)
next
  assume "\<forall>e \<in> set (edges g). new \<notin> relation_ends e"
  then show "edges (propagate_relation_rename new old (propagate_relation_rename old new g)) = edges g"
    unfolding propagate_relation_rename_def
    using assms by (intro graph_store.rewrite_inverse) (auto simp: rename_relation_edge_inverse)
next
  assume "\<forall>e \<in> set (edges g). schema' \<notin> schema_of ` edge_oids e"
  then show "edges (remap_schema_namespace schema' schema (remap_schema_namespace schema schema' g)) = edges g"
    unfolding remap_schema_namespace_def
    using assms by (intro graph_store.rewrite_inverse) (auto simp: remap_schema_edge_inverse)
qed

theorem rename_roundtrip_witness:
  "edges (propagate_relation_rename (Oid ''s'' ''z'') (Oid ''s'' ''p'')
     (propagate_relation_rename (Oid ''s'' ''p'') (Oid ''s'' ''z'') sample_rename_graph))
   = edges sample_rename_graph"
proof -
  have "\<forall>e \<in> set (edges sample_rename_graph). Oid ''s'' ''z'' \<notin> relation_ends e"
    by (simp add: sample_rename_graph_edges relation_ends_def edge_new_def)
  then show ?thesis
    using rename_roundtrip [OF sample_rename_graph_wf, of "Oid ''s'' ''p''" "Oid ''s'' ''z''"] by blast
qed

end
