(* ===== verification/Relation_Model.thy ===== *)
theory Relation_Model
  imports Privileges Dependency_Graph
begin

text \<open>
  Relations and their columns (\<^verbatim>\<open>RelationState\<close>, \<^verbatim>\<open>ColumnAction\<close> and the enums around them in
  \<^verbatim>\<open>src/src/_internal/model/relation.rs\<close>, \<^verbatim>\<open>Column\<close> in \<^verbatim>\<open>model/column.rs\<close>).

  A column rename rewrites the stored SQL of partition keys, partition constraints, generated
  columns and statistics with two functions of the expression visitor that rest on an external
  SQL parser. They are parameters here: \<open>rename_key\<close> for partition keys and \<open>rename_source\<close> for
  expressions, each taking the source, the table name and the old and new column names.
\<close>

datatype 'a overlay = Present 'a | Dropped

section \<open>Trimming\<close>

text \<open>The encodings of the characters that \<^verbatim>\<open>str::trim\<close> removes (Unicode White_Space).\<close>

definition whitespace_encodings :: "string list" where
  "whitespace_encodings = map (map char_of)
     ([[9], [10], [11], [12], [13], [32], [0xC2, 0x85], [0xC2, 0xA0], [0xE1, 0x9A, 0x80],
       [0xE2, 0x80, 0xA8], [0xE2, 0x80, 0xA9], [0xE2, 0x80, 0xAF], [0xE2, 0x81, 0x9F],
       [0xE3, 0x80, 0x80]]
      @ map (\<lambda>b. [0xE2, 0x80, b]) [0x80 ..< 0x8B :: nat])"

definition leading :: "string list \<Rightarrow> string \<Rightarrow> string option" where
  "leading encodings s = List.find (\<lambda>w. w \<noteq> [] \<and> take (length w) s = w) encodings"

function trim_leading :: "string list \<Rightarrow> string \<Rightarrow> string" where
  "trim_leading encodings s =
     (case leading encodings s of
        None \<Rightarrow> s
      | Some w \<Rightarrow> trim_leading encodings (drop (length w) s))"
  by pat_completeness auto

lemma leading_length: "leading encodings s = Some w \<Longrightarrow> 0 < length w \<and> length w \<le> length s"
proof -
  assume "leading encodings s = Some w"
  then have "w \<noteq> []" "take (length w) s = w" by (auto simp: leading_def find_Some_iff)
  then show ?thesis by (metis length_greater_0_conv length_take min.cobounded1 min.commute)
qed

termination trim_leading
proof (relation "measure (\<lambda>(_, s). length s)")
  fix encodings :: "string list" and s w
  assume "leading encodings s = Some w"
  from leading_length [OF this]
  show "((encodings, drop (length w) s), encodings, s) \<in> measure (\<lambda>(_, s). length s)"
    by (simp, linarith)
qed simp

declare trim_leading.simps [simp del]

definition trim :: "string \<Rightarrow> string" where
  "trim s =
     rev (trim_leading (map rev whitespace_encodings) (rev (trim_leading whitespace_encodings s)))"

definition eq_ignore_ascii_case :: "string \<Rightarrow> string \<Rightarrow> bool" where
  "eq_ignore_ascii_case a b \<longleftrightarrow> to_ascii_lowercase a = to_ascii_lowercase b"

section \<open>Columns\<close>

record column =
  col_name :: string
  col_data_type :: "string option"
  col_type_id :: "oid option"
  col_is_nullable :: bool
  col_default :: "expr_ir option"
  col_avg_width :: "int option"
  col_default_expr_text :: "string option"
  col_type_modifier :: "int option"
  col_storage :: "string option"
  col_compression :: "string option"
  col_statistics_target :: "int option"
  col_options :: "string \<rightharpoonup> string"
  col_generated :: "bool option"

definition migration_created ::
  "string \<Rightarrow> string option \<Rightarrow> bool \<Rightarrow> expr_ir option \<Rightarrow> column" where
  "migration_created n ty nullable def =
     \<lparr>col_name = n, col_data_type = ty, col_type_id = None, col_is_nullable = nullable,
      col_default = def, col_avg_width = None, col_default_expr_text = None,
      col_type_modifier = None, col_storage = None, col_compression = None,
      col_statistics_target = None, col_options = Map.empty, col_generated = Some False\<rparr>"

section \<open>Relations\<close>

datatype relation_kind = Table | View | MaterializedView | ForeignTable

fun is_table_like :: "relation_kind \<Rightarrow> bool" where
  "is_table_like Table = True"
| "is_table_like ForeignTable = True"
| "is_table_like _ = False"

datatype view_updatability_reason =
    Distinct | GroupBy | Having | SetOperation | With | Limit | Aggregate | Window
  | SingleRelation | Tablesample | NoUpdatableColumns

datatype view_updatability = UnknownUpdatability | Updatable | NotUpdatable view_updatability_reason

fun hint :: "view_updatability_reason \<Rightarrow> string" where
  "hint Distinct = ''Views containing DISTINCT are not automatically updatable.''"
| "hint GroupBy = ''Views containing GROUP BY are not automatically updatable.''"
| "hint Having = ''Views containing HAVING are not automatically updatable.''"
| "hint SetOperation = ''Views containing UNION, INTERSECT, or EXCEPT are not automatically updatable.''"
| "hint With = ''Views containing WITH are not automatically updatable.''"
| "hint Limit = ''Views containing LIMIT or OFFSET are not automatically updatable.''"
| "hint Aggregate = ''Views that return aggregate functions are not automatically updatable.''"
| "hint Window = ''Views that return window functions are not automatically updatable.''"
| "hint SingleRelation =
     ''Views that do not select from a single table or view are not automatically updatable.''"
| "hint Tablesample = ''Views containing TABLESAMPLE are not automatically updatable.''"
| "hint NoUpdatableColumns =
     ''Views that have no updatable columns are not automatically updatable.''"

datatype persistence = Permanent | Temporary | Unlogged

datatype on_commit_action = PreserveRows | DeleteRows | DropOnCommit

datatype rule_enable_mode = RuleOrigin | RuleDisabled | RuleReplica | RuleAlways

definition rule_enable_mode_from_pg_code :: "char \<Rightarrow> rule_enable_mode option" where
  "rule_enable_mode_from_pg_code c =
     (if c = CHR ''O'' then Some RuleOrigin else if c = CHR ''D'' then Some RuleDisabled
      else if c = CHR ''R'' then Some RuleReplica else if c = CHR ''A'' then Some RuleAlways
      else None)"

datatype identity_generation = IdentityAlways | IdentityByDefault

definition identity_from_pg_code :: "char \<Rightarrow> identity_generation option" where
  "identity_from_pg_code c =
     (if c = CHR ''a'' then Some IdentityAlways
      else if c = CHR ''d'' then Some IdentityByDefault else None)"

datatype generated_column_kind = Stored | Virtual

definition generated_from_pg_code :: "char \<Rightarrow> generated_column_kind option" where
  "generated_from_pg_code c =
     (if c = CHR ''s'' then Some Stored else if c = CHR ''v'' then Some Virtual else None)"

record generated_column_state =
  gen_kind :: generated_column_kind
  gen_expression :: "string option"

record extended_statistics_state =
  stat_id :: oid
  stat_kinds :: "string list"
  stat_columns :: "string list"
  stat_expressions :: "string option"
  stat_target :: "int option"

record column_inheritance =
  parent_count :: "32 word"
  is_local :: bool

record relation_state =
  r_id :: oid
  r_owner :: oid
  r_columns :: "column list"
  r_column_inheritance :: "string \<rightharpoonup> column_inheritance"
  r_generation :: u64
  r_estimated_rows :: "u64 option"
  r_relpages :: "u64 option"
  r_kind :: relation_kind
  r_persistence :: persistence
  r_on_commit :: "on_commit_action option"
  r_triggers :: "string set"
  r_policies :: "string set"
  r_rules :: "string \<rightharpoonup> rule_enable_mode"
  r_identity_columns :: "string \<rightharpoonup> identity_generation"
  r_generated_columns :: "string \<rightharpoonup> generated_column_state"
  r_extended_statistics :: "oid \<rightharpoonup> extended_statistics_state"
  r_last_analyze :: "string option"
  r_last_autoanalyze :: "string option"
  r_created_at_tx_depth :: nat
  r_privileges :: privilege_matrix
  r_partition_type :: "string option"
  r_partition_by :: "string option"
  r_partition_keys :: "(string \<times> string) list"
  r_partition_bound :: "string option"
  r_partition_constraint :: "string option"
  r_is_fk_dependency :: bool
  r_is_populated :: "bool option"
  r_view_updatability :: view_updatability
  r_tablespace :: "string option"
  r_access_method :: "string option"
  r_cluster_index :: "string option"
  r_row_security :: "bool option"
  r_force_row_security :: "bool option"
  r_replica_identity :: "string option"
  r_table_options :: "string \<rightharpoonup> string"
  r_of_type :: "oid option"
  r_columns_complete :: bool
  r_has_toast_table :: "bool option"

definition relation_new ::
  "oid \<Rightarrow> oid \<Rightarrow> u64 \<Rightarrow> u64 option \<Rightarrow> relation_kind \<Rightarrow> persistence \<Rightarrow> nat \<Rightarrow> relation_state" where
  "relation_new i owner gen rows kind pers depth =
     \<lparr>r_id = i, r_owner = owner, r_columns = [], r_column_inheritance = Map.empty,
      r_generation = gen, r_estimated_rows = rows, r_relpages = None, r_kind = kind,
      r_persistence = pers, r_on_commit = None, r_triggers = {}, r_policies = {},
      r_rules = Map.empty, r_identity_columns = Map.empty, r_generated_columns = Map.empty,
      r_extended_statistics = Map.empty, r_last_analyze = None, r_last_autoanalyze = None,
      r_created_at_tx_depth = depth, r_privileges = matrix_default, r_partition_type = None,
      r_partition_by = None, r_partition_keys = [], r_partition_bound = None,
      r_partition_constraint = None, r_is_fk_dependency = False, r_is_populated = None,
      r_view_updatability = UnknownUpdatability, r_tablespace = None, r_access_method = None,
      r_cluster_index = None, r_row_security = None, r_force_row_security = None,
      r_replica_identity = None, r_table_options = Map.empty, r_of_type = None,
      r_columns_complete = True, r_has_toast_table = None\<rparr>"

definition relation_default :: relation_state where
  "relation_default =
     relation_new (Oid ''public'' ''dummy'') (Oid ''public'' ''postgres'') 0 (Some 0) Table Permanent 0"

definition normalize_column_default :: "expr_ir option \<Rightarrow> expr_ir option" where
  "normalize_column_default d =
     (case d of
        Some (Literal v) \<Rightarrow> if eq_ignore_ascii_case (trim v) ''null'' then None else d
      | _ \<Rightarrow> d)"

definition mark_fk_dependency :: "relation_state \<Rightarrow> relation_state" where
  "mark_fk_dependency r = r\<lparr>r_is_fk_dependency := True\<rparr>"

definition clear_index_settings :: "string \<Rightarrow> relation_state \<Rightarrow> relation_state" where
  "clear_index_settings index_name r =
     (let r1 = (if r_cluster_index r = Some index_name then r\<lparr>r_cluster_index := None\<rparr> else r)
      in if r_replica_identity r1 = Some (''USING INDEX '' @ index_name)
         then r1\<lparr>r_replica_identity := Some ''USING INDEX''\<rparr> else r1)"

definition has_column :: "relation_state \<Rightarrow> string \<Rightarrow> bool" where
  "has_column r n = list_ex (\<lambda>c. col_name c = n) (r_columns r)"

definition get_column :: "relation_state \<Rightarrow> string \<Rightarrow> column option" where
  "get_column r n = List.find (\<lambda>c. col_name c = n) (r_columns r)"

definition is_stale :: "relation_state \<Rightarrow> bool" where
  "is_stale r \<longleftrightarrow> r_last_analyze r = None \<and> r_last_autoanalyze r = None"

section \<open>Column actions\<close>

datatype column_action =
    AddColumn string "string option" bool "expr_ir option"
  | DropColumn string
  | RenameColumn string string
  | SetNotNull string
  | DropNotNull string
  | SetType string string
  | SetDefault string "expr_ir option"
  | SetStorage string string
  | SetCompression string "string option"
  | SetStatistics string "int option"
  | SetOptions string "string \<rightharpoonup> string"
  | ResetOptions string "string list"

definition serial_type :: "string option \<Rightarrow> string option" where
  "serial_type data_type =
     (case map_option (\<lambda>ty. to_ascii_lowercase (trim ty)) data_type of
        None \<Rightarrow> None
      | Some ty \<Rightarrow>
          if ty = ''smallserial'' \<or> ty = ''serial2'' then Some ''smallint''
          else if ty = ''serial'' \<or> ty = ''serial4'' then Some ''integer''
          else if ty = ''bigserial'' \<or> ty = ''serial8'' then Some ''bigint''
          else None)"

definition add_column ::
  "string \<Rightarrow> string option \<Rightarrow> bool \<Rightarrow> expr_ir option \<Rightarrow> relation_state \<Rightarrow> relation_state" where
  "add_column n data_type not_null def r =
     (if has_column r n then r
      else
        (let st = serial_type data_type;
             is_serial = st \<noteq> None;
             d = (if is_serial then Some (FunctionCall ''nextval'' []) else normalize_column_default def);
             ty = (case st of Some t \<Rightarrow> Some t | None \<Rightarrow> data_type)
         in r\<lparr>r_columns := r_columns r @ [migration_created n ty (\<not> (not_null \<or> is_serial)) d],
              r_column_inheritance :=
                (r_column_inheritance r)(n \<mapsto> \<lparr>parent_count = 0, is_local = True\<rparr>)\<rparr>))"

definition drop_column :: "string \<Rightarrow> relation_state \<Rightarrow> relation_state" where
  "drop_column n r =
     r\<lparr>r_columns := filter (\<lambda>c. col_name c \<noteq> n) (r_columns r),
       r_column_inheritance := (r_column_inheritance r)(n := None),
       r_identity_columns := (r_identity_columns r)(n := None),
       r_generated_columns := (r_generated_columns r)(n := None)\<rparr>"

text \<open>\<^verbatim>\<open>if let Some(v) = map.remove(from) { map.insert(to, v) }\<close>.\<close>

definition move_key :: "'k \<Rightarrow> 'k \<Rightarrow> ('k \<rightharpoonup> 'v) \<Rightarrow> ('k \<rightharpoonup> 'v)" where
  "move_key from to m = (case m from of None \<Rightarrow> m | Some v \<Rightarrow> m(from := None, to \<mapsto> v))"

type_synonym source_rewriter = "string \<Rightarrow> string \<Rightarrow> string \<Rightarrow> string \<Rightarrow> string option"

definition rewrite_stored :: "source_rewriter \<Rightarrow> relation_state \<Rightarrow> string \<Rightarrow> string \<Rightarrow> string option \<Rightarrow> string option" where
  "rewrite_stored rw r from to src =
     (case src of None \<Rightarrow> None | Some s \<Rightarrow> rw s (name_of (r_id r)) from to)"

definition rename_partition_key :: "string \<Rightarrow> string \<Rightarrow> string \<times> string \<Rightarrow> string \<times> string" where
  "rename_partition_key from to k =
     (let (resolved, raw) = k
      in if resolved = from then (to, if raw = from then to else raw) else (resolved, raw))"

definition rename_statistics ::
  "source_rewriter \<Rightarrow> relation_state \<Rightarrow> string \<Rightarrow> string \<Rightarrow> extended_statistics_state
     \<Rightarrow> extended_statistics_state" where
  "rename_statistics rename_source r from to s =
     s\<lparr>stat_columns := map (renamed from to) (stat_columns s),
       stat_expressions := rewrite_stored rename_source r from to (stat_expressions s)\<rparr>"

definition rename_column ::
  "source_rewriter \<Rightarrow> source_rewriter \<Rightarrow> string \<Rightarrow> string \<Rightarrow> relation_state \<Rightarrow> relation_state" where
  "rename_column rename_key rename_source from to r =
     (case position (\<lambda>c. col_name c = from) (r_columns r) of
        None \<Rightarrow> r
      | Some pos \<Rightarrow>
          if has_column r to then r
          else
            r\<lparr>r_columns := (r_columns r)[pos := (r_columns r ! pos)\<lparr>col_name := to\<rparr>],
              r_column_inheritance := move_key from to (r_column_inheritance r),
              r_partition_by := rewrite_stored rename_key r from to (r_partition_by r),
              r_partition_keys := map (rename_partition_key from to) (r_partition_keys r),
              r_partition_constraint :=
                rewrite_stored rename_source r from to (r_partition_constraint r),
              r_identity_columns := move_key from to (r_identity_columns r),
              r_generated_columns :=
                (\<lambda>k. map_option
                   (\<lambda>g. g\<lparr>gen_expression := rewrite_stored rename_source r from to (gen_expression g)\<rparr>)
                   (move_key from to (r_generated_columns r) k)),
              r_extended_statistics :=
                (\<lambda>k. map_option (rename_statistics rename_source r from to) (r_extended_statistics r k))\<rparr>)"

text \<open>\<^verbatim>\<open>if let Some(col) = columns.iter_mut().find(..) { f(col) }\<close>: the first match is updated.\<close>

fun update_first :: "('a \<Rightarrow> bool) \<Rightarrow> ('a \<Rightarrow> 'a) \<Rightarrow> 'a list \<Rightarrow> 'a list" where
  "update_first P f [] = []"
| "update_first P f (x # xs) = (if P x then f x # xs else x # update_first P f xs)"

definition update_column :: "string \<Rightarrow> (column \<Rightarrow> column) \<Rightarrow> relation_state \<Rightarrow> relation_state" where
  "update_column n f r = r\<lparr>r_columns := update_first (\<lambda>c. col_name c = n) f (r_columns r)\<rparr>"

fun apply_column_action ::
  "source_rewriter \<Rightarrow> source_rewriter \<Rightarrow> column_action \<Rightarrow> relation_state \<Rightarrow> relation_state" where
  "apply_column_action rk rs (AddColumn n ty not_null def) r = add_column n ty not_null def r"
| "apply_column_action rk rs (DropColumn n) r = drop_column n r"
| "apply_column_action rk rs (RenameColumn from to) r = rename_column rk rs from to r"
| "apply_column_action rk rs (SetNotNull n) r = update_column n (\<lambda>c. c\<lparr>col_is_nullable := False\<rparr>) r"
| "apply_column_action rk rs (DropNotNull n) r = update_column n (\<lambda>c. c\<lparr>col_is_nullable := True\<rparr>) r"
| "apply_column_action rk rs (SetType n ty) r =
     update_column n (\<lambda>c. c\<lparr>col_data_type := Some ty, col_type_id := None, col_type_modifier := None,
       col_avg_width := None, col_storage := None, col_compression := None\<rparr>) r"
| "apply_column_action rk rs (SetDefault n d) r =
     update_column n (\<lambda>c. c\<lparr>col_default := normalize_column_default d, col_default_expr_text := None\<rparr>) r"
| "apply_column_action rk rs (SetStorage n mode) r =
     update_column n
       (\<lambda>c. c\<lparr>col_storage := (if eq_ignore_ascii_case mode ''default'' then None else Some mode)\<rparr>) r"
| "apply_column_action rk rs (SetCompression n m) r = update_column n (\<lambda>c. c\<lparr>col_compression := m\<rparr>) r"
| "apply_column_action rk rs (SetStatistics n t) r = update_column n (\<lambda>c. c\<lparr>col_statistics_target := t\<rparr>) r"
| "apply_column_action rk rs (SetOptions n opts) r =
     update_column n (\<lambda>c. c\<lparr>col_options := col_options c ++ opts\<rparr>) r"
| "apply_column_action rk rs (ResetOptions n names) r =
     update_column n (\<lambda>c. c\<lparr>col_options := fold (\<lambda>k m. m(k := None)) names (col_options c)\<rparr>) r"

section \<open>The shape of a relation\<close>

definition column_names :: "relation_state \<Rightarrow> string list" where
  "column_names r = map col_name (r_columns r)"

definition relation_wf :: "relation_state \<Rightarrow> bool" where
  "relation_wf r \<longleftrightarrow>
     distinct (column_names r)
     \<and> dom (r_column_inheritance r) \<subseteq> set (column_names r)
     \<and> dom (r_identity_columns r) \<subseteq> set (column_names r)
     \<and> dom (r_generated_columns r) \<subseteq> set (column_names r)"

lemma relation_wf_new: "relation_wf (relation_new i ow gen rows kind pers depth)"
  by (simp add: relation_wf_def relation_new_def column_names_def)

lemma has_column_iff: "has_column r n \<longleftrightarrow> n \<in> set (column_names r)"
  by (auto simp: has_column_def column_names_def list_ex_iff)

lemma get_column_None: "get_column r n = None \<longleftrightarrow> n \<notin> set (column_names r)"
  by (auto simp: get_column_def column_names_def find_None_iff)

lemma update_first_map:
  "(\<And>x. g (f x) = g x) \<Longrightarrow> map g (update_first P f xs) = map g xs"
  by (induction xs) auto

lemma find_update_first:
  "(\<And>x. Q (f x) = Q x) \<Longrightarrow> (\<And>x. P x \<Longrightarrow> \<not> Q x) \<Longrightarrow> List.find Q (update_first P f xs) = List.find Q xs"
  by (induction xs) auto

lemma find_update_first_same:
  "(\<And>x. P (f x) = P x) \<Longrightarrow> List.find P (update_first P f xs) = map_option f (List.find P xs)"
  by (induction xs) auto

lemma dom_move_key:
  "dom m \<subseteq> names \<Longrightarrow> dom (move_key from to m) \<subseteq> insert to (names - {from})"
  by (cases "m from") (auto simp: move_key_def split: if_splits)

lemma position_distinct_update:
  assumes "distinct (map f xs)" "position (\<lambda>x. f x = a) xs = Some i" "b \<notin> f ` set xs"
    and "f (g (xs ! i)) = b"
  shows "distinct (map f (xs[i := g (xs ! i)]))" "f ` set (xs[i := g (xs ! i)]) = insert b (f ` set xs - {a})"
proof -
  from assms(2) have i: "i < length xs" "f (xs ! i) = a" by (auto dest: position_SomeD)
  have m: "map f (xs[i := g (xs ! i)]) = (map f xs)[i := b]" using assms(4) by (simp add: map_update)
  have a: "map f xs ! i = a" using i by simp
  show "distinct (map f (xs[i := g (xs ! i)]))"
    unfolding m using assms(1,3) by (simp add: distinct_list_update)
  have "set ((map f xs)[i := b]) = insert b (set (map f xs) - {map f xs ! i})"
    using assms(1) i by (intro set_update_distinct) simp_all
  then show "f ` set (xs[i := g (xs ! i)]) = insert b (f ` set xs - {a})"
    unfolding a by (metis m image_set)
qed

lemma column_names_update_column:
  "(\<And>c. col_name (f c) = col_name c) \<Longrightarrow> column_names (update_column n f r) = column_names r"
  by (simp add: column_names_def update_column_def update_first_map)

lemma relation_wf_update_column:
  "(\<And>c. col_name (f c) = col_name c) \<Longrightarrow> relation_wf r \<Longrightarrow> relation_wf (update_column n f r)"
  unfolding relation_wf_def by (simp add: column_names_update_column) (simp add: update_column_def)

lemma relation_wf_add_column: "relation_wf r \<Longrightarrow> relation_wf (add_column n ty nn d r)"
  by (auto simp: relation_wf_def add_column_def Let_def column_names_def has_column_def list_ex_iff
      migration_created_def)

lemma relation_wf_drop_column: "relation_wf r \<Longrightarrow> relation_wf (drop_column n r)"
  unfolding relation_wf_def drop_column_def column_names_def
  by (auto simp: distinct_map_filter)

lemma rename_column_names:
  assumes "relation_wf r" "from \<in> set (column_names r)" "to \<notin> set (column_names r)"
  shows "distinct (column_names (rename_column rk rs from to r))"
    and "set (column_names (rename_column rk rs from to r)) = insert to (set (column_names r) - {from})"
proof -
  obtain i where i: "position (\<lambda>c. col_name c = from) (r_columns r) = Some i"
    using assms(2) position_None_iff [of "\<lambda>c. col_name c = from" "r_columns r"]
    by (auto simp: column_names_def)
  have d: "distinct (map col_name (r_columns r))" and t: "to \<notin> col_name ` set (r_columns r)"
    using assms(1,3) by (auto simp: relation_wf_def column_names_def)
  have n: "column_names (rename_column rk rs from to r) =
      map col_name ((r_columns r)[i := (r_columns r ! i)\<lparr>col_name := to\<rparr>])"
    using i assms(3) by (simp add: rename_column_def has_column_iff column_names_def)
  show "distinct (column_names (rename_column rk rs from to r))"
    unfolding n using position_distinct_update(1) [OF d i t, where g = "col_name_update (\<lambda>_. to)"] by simp
  show "set (column_names (rename_column rk rs from to r)) = insert to (set (column_names r) - {from})"
    unfolding n using position_distinct_update(2) [OF d i t, where g = "col_name_update (\<lambda>_. to)"]
    by (simp add: column_names_def)
qed

lemma rename_column_noop:
  "from \<notin> set (column_names r) \<or> to \<in> set (column_names r) \<Longrightarrow> rename_column rk rs from to r = r"
  by (auto simp: rename_column_def has_column_iff column_names_def position_None_iff
      split: option.splits dest!: position_SomeD)

lemma relation_wf_rename_column:
  assumes "relation_wf r"
  shows "relation_wf (rename_column rk rs from to r)"
proof (cases "from \<in> set (column_names r) \<and> to \<notin> set (column_names r)")
  case True
  then obtain i where i: "position (\<lambda>c. col_name c = from) (r_columns r) = Some i"
    using position_None_iff [of "\<lambda>c. col_name c = from" "r_columns r"] by (auto simp: column_names_def)
  note names = rename_column_names [OF assms conjunct1 [OF True] conjunct2 [OF True], of rk rs]
  have gen: "dom (\<lambda>k. map_option g (m k)) = dom m" for g :: "'y \<Rightarrow> 'y" and m :: "string \<rightharpoonup> 'y"
    by auto
  have "r_column_inheritance (rename_column rk rs from to r) = move_key from to (r_column_inheritance r)"
    "r_identity_columns (rename_column rk rs from to r) = move_key from to (r_identity_columns r)"
    "dom (r_generated_columns (rename_column rk rs from to r)) = dom (move_key from to (r_generated_columns r))"
    using True i by (simp_all add: rename_column_def has_column_iff gen)
  with names assms show ?thesis by (simp add: relation_wf_def dom_move_key)
next
  case False
  then show ?thesis using assms by (simp add: rename_column_noop)
qed

lemmas relation_wf_intros =
  relation_wf_add_column relation_wf_drop_column relation_wf_rename_column relation_wf_update_column

fun touched_columns :: "column_action \<Rightarrow> string set" where
  "touched_columns (AddColumn n _ _ _) = {n}"
| "touched_columns (DropColumn n) = {n}"
| "touched_columns (RenameColumn from to) = {from, to}"
| "touched_columns (SetNotNull n) = {n}"
| "touched_columns (DropNotNull n) = {n}"
| "touched_columns (SetType n _) = {n}"
| "touched_columns (SetDefault n _) = {n}"
| "touched_columns (SetStorage n _) = {n}"
| "touched_columns (SetCompression n _) = {n}"
| "touched_columns (SetStatistics n _) = {n}"
| "touched_columns (SetOptions n _) = {n}"
| "touched_columns (ResetOptions n _) = {n}"

lemma get_column_update_other:
  "(\<And>c. col_name (f c) = col_name c) \<Longrightarrow> m \<noteq> n \<Longrightarrow> get_column (update_column n f r) m = get_column r m"
  by (auto simp: get_column_def update_column_def intro: find_update_first)

lemma get_column_update_same:
  "(\<And>c. col_name (f c) = col_name c) \<Longrightarrow> get_column (update_column n f r) n = map_option f (get_column r n)"
  by (auto simp: get_column_def update_column_def intro: find_update_first_same)

lemma find_append: "List.find P (xs @ ys) = (case List.find P xs of None \<Rightarrow> List.find P ys | Some x \<Rightarrow> Some x)"
  by (induction xs) auto

lemma find_filter: "(\<And>x. P x \<Longrightarrow> Q x) \<Longrightarrow> List.find P (filter Q xs) = List.find P xs"
  by (induction xs) auto

lemma find_list_update:
  "\<not> P (xs ! i) \<Longrightarrow> \<not> P v \<Longrightarrow> List.find P (xs[i := v]) = List.find P xs"
  by (induction xs arbitrary: i) (auto split: nat.splits)

lemma get_column_rename_other:
  assumes "m \<noteq> from" "m \<noteq> to"
  shows "get_column (rename_column rk rs from to r) m = get_column r m"
proof (cases "position (\<lambda>c. col_name c = from) (r_columns r)")
  case (Some i)
  from position_SomeD [OF Some] assms show ?thesis
    by (auto simp: get_column_def rename_column_def Some intro!: find_list_update)
qed (simp add: rename_column_def)

lemma find_renamed:
  assumes "position (\<lambda>c. col_name c = from) cs = Some i" "to \<notin> col_name ` set cs"
  shows "List.find (\<lambda>c. col_name c = to) (cs[i := (cs ! i)\<lparr>col_name := to\<rparr>]) =
    map_option (col_name_update (\<lambda>_. to)) (List.find (\<lambda>c. col_name c = from) cs)"
  using assms
proof (induction cs arbitrary: i)
  case (Cons c cs)
  show ?case
  proof (cases "col_name c = from")
    case False
    with Cons.prems obtain j where "position (\<lambda>c. col_name c = from) cs = Some j" "i = Suc j" by auto
    with Cons False show ?thesis by auto
  qed (use Cons.prems in simp)
qed simp

text \<open>
  every column action keeps a relation well formed: column names stay distinct, and
  inheritance, identity and generation metadata stay attached to existing columns.
\<close>

theorem column_action_keeps_shape:
  assumes "relation_wf r"
  shows "relation_wf (apply_column_action rk rs a r)"
  using assms by (cases a) (simp_all add: relation_wf_intros)

text \<open>
  a column action affects the columns it names and no other. Any other column reads as before;
  an added column is present, a dropped one absent, and a rename moves the column with all its
  attributes when the source exists and the target is free, and does nothing otherwise.
\<close>

theorem column_action_effect:
  assumes "relation_wf r"
  shows "(n \<notin> touched_columns a \<longrightarrow> get_column (apply_column_action rk rs a r) n = get_column r n)
    \<and> has_column (apply_column_action rk rs (AddColumn n ty nn d) r) n
    \<and> \<not> has_column (apply_column_action rk rs (DropColumn n) r) n
    \<and> (if has_column r src \<and> \<not> has_column r dst
       then get_column (apply_column_action rk rs (RenameColumn src dst) r) dst =
              map_option (col_name_update (\<lambda>_. dst)) (get_column r src)
            \<and> get_column (apply_column_action rk rs (RenameColumn src dst) r) src = None
       else apply_column_action rk rs (RenameColumn src dst) r = r)"
proof (intro conjI impI)
  assume "n \<notin> touched_columns a"
  then show "get_column (apply_column_action rk rs a r) n = get_column r n"
    by (cases a) (simp_all add: get_column_update_other get_column_rename_other,
        auto simp: get_column_def add_column_def drop_column_def Let_def find_append find_filter
          migration_created_def split: option.splits)
next
  show "has_column (apply_column_action rk rs (AddColumn n ty nn d) r) n"
    by (auto simp: add_column_def has_column_def Let_def migration_created_def)
  show "\<not> has_column (apply_column_action rk rs (DropColumn n) r) n"
    by (auto simp: drop_column_def has_column_def list_ex_iff)
  show "if has_column r src \<and> \<not> has_column r dst
       then get_column (apply_column_action rk rs (RenameColumn src dst) r) dst =
              map_option (col_name_update (\<lambda>_. dst)) (get_column r src)
            \<and> get_column (apply_column_action rk rs (RenameColumn src dst) r) src = None
       else apply_column_action rk rs (RenameColumn src dst) r = r"
  proof (cases "has_column r src \<and> \<not> has_column r dst")
    case True
    then have c: "src \<in> set (column_names r)" "dst \<notin> set (column_names r)" by (simp_all add: has_column_iff)
    then obtain i where i: "position (\<lambda>c. col_name c = src) (r_columns r) = Some i"
      using position_None_iff [of "\<lambda>c. col_name c = src" "r_columns r"] by (auto simp: column_names_def)
    have "get_column (rename_column rk rs src dst r) dst =
        map_option (col_name_update (\<lambda>_. dst)) (get_column r src)"
      using find_renamed [OF i] c True by (simp add: get_column_def rename_column_def i column_names_def)
    moreover have "get_column (rename_column rk rs src dst r) src = None"
      using rename_column_names(2) [OF assms c] c by (auto simp: get_column_None)
    ultimately show ?thesis using True by simp
  next
    case False
    then have "rename_column rk rs src dst r = r" by (intro rename_column_noop) (auto simp: has_column_iff)
    with False show ?thesis by auto
  qed
qed

definition sample_relation :: relation_state where
  "sample_relation =
     add_column ''a'' (Some ''serial'') False None
       (relation_new (Oid ''s'' ''t'') (Oid [] ''o'') 0 None Table Permanent 0)"

lemma sample_relation_wf: "relation_wf sample_relation"
  by (simp add: sample_relation_def relation_wf_add_column relation_wf_new)

theorem column_action_keeps_shape_witness:
  "relation_wf (apply_column_action (\<lambda>s _ _ _. Some s) (\<lambda>s _ _ _. Some s)
     (RenameColumn ''a'' ''b'') sample_relation)"
  by (rule column_action_keeps_shape [OF sample_relation_wf])

theorem column_action_effect_witness:
  "get_column (apply_column_action (\<lambda>s _ _ _. Some s) (\<lambda>s _ _ _. Some s)
     (RenameColumn ''a'' ''b'') sample_relation) ''a'' = None"
proof -
  have "has_column sample_relation ''a'' \<and> \<not> has_column sample_relation ''b''"
    by (simp add: sample_relation_def add_column_def has_column_def relation_new_def
        migration_created_def Let_def)
  moreover have "if has_column sample_relation ''a'' \<and> \<not> has_column sample_relation ''b''
    then get_column (apply_column_action (\<lambda>s _ _ _. Some s) (\<lambda>s _ _ _. Some s)
           (RenameColumn ''a'' ''b'') sample_relation) ''b'' =
           map_option (col_name_update (\<lambda>_. ''b'')) (get_column sample_relation ''a'')
         \<and> get_column (apply_column_action (\<lambda>s _ _ _. Some s) (\<lambda>s _ _ _. Some s)
           (RenameColumn ''a'' ''b'') sample_relation) ''a'' = None
    else apply_column_action (\<lambda>s _ _ _. Some s) (\<lambda>s _ _ _. Some s)
           (RenameColumn ''a'' ''b'') sample_relation = sample_relation"
    using column_action_effect [OF sample_relation_wf] by blast
  ultimately show ?thesis by presburger
qed

section \<open>Trimming text without blanks\<close>

lemma whitespace_bytes:
  "w \<in> set whitespace_encodings \<Longrightarrow>
     w \<noteq> [] \<and> (byte (hd w) \<le> 32 \<or> 128 \<le> byte (hd w)) \<and> (byte (last w) \<le> 32 \<or> 128 \<le> byte (last w))"
  by (auto simp: whitespace_encodings_def byte_def upt_rec)

lemma leading_plain:
  assumes "\<And>w. w \<in> set ws \<Longrightarrow> byte (hd w) \<le> 32 \<or> 128 \<le> byte (hd w)" "32 < byte (hd s)" "byte (hd s) < 128"
  shows "trim_leading ws s = s"
proof -
  have "leading ws s = None"
    unfolding leading_def find_None_iff
  proof (intro notI, elim exE conjE)
    fix w assume w: "w \<in> set ws" "w \<noteq> []" "take (length w) s = w"
    then have "hd w = hd s" by (metis hd_take length_greater_0_conv)
    with assms w(1) show False by fastforce
  qed
  then show ?thesis by (simp add: trim_leading.simps [of ws s])
qed

lemma trim_plain:
  assumes "s \<noteq> []" "32 < byte (hd s)" "byte (hd s) < 128" "32 < byte (last s)" "byte (last s) < 128"
  shows "trim s = s"
proof -
  have "trim_leading whitespace_encodings s = s" using assms whitespace_bytes by (intro leading_plain) auto
  moreover have "trim_leading (map rev whitespace_encodings) (rev s) = rev s"
    using assms whitespace_bytes by (intro leading_plain) (fastforce simp: hd_rev)+
  ultimately show ?thesis by (simp add: trim_def)
qed

end
