(* ===== verification/Namespace.thy ===== *)
theory Namespace
  imports Identifiers
begin

text \<open>
  PostgreSQL's implicit namespaces (\<^verbatim>\<open>src/src/_internal/analysis/namespace.rs\<close>): entries of the
  effective search path, and the lookup of an unqualified name through it. An entry that the
  model cannot search is \<open>Unresolved\<close>; a name found past such an entry is not certain.
\<close>

definition session_temp_schema :: string where
  "session_temp_schema = ''pg_temp''"

definition system_catalog_schema :: string where
  "system_catalog_schema = ''pg_catalog''"

datatype search_path_entry = Schema string | Unresolved "string option"

fun entry_name :: "search_path_entry \<Rightarrow> string option" where
  "entry_name (Schema n) = Some n"
| "entry_name (Unresolved n) = n"

fun searched_schema :: "search_path_entry \<Rightarrow> string option" where
  "searched_schema (Schema n) = Some n"
| "searched_schema (Unresolved n) = None"

definition from_catalog_names :: "string list \<Rightarrow> search_path_entry list" where
  "from_catalog_names names = map Schema names"

text \<open>The loop over the path; \<open>shadowed\<close> records that an unsearchable entry was passed.\<close>

fun resolve_loop :: "bool \<Rightarrow> search_path_entry list \<Rightarrow> (string \<Rightarrow> 'a option) \<Rightarrow> 'a option" where
  "resolve_loop shadowed [] lookup = None"
| "resolve_loop shadowed (Unresolved n # path) lookup = resolve_loop True path lookup"
| "resolve_loop shadowed (Schema s # path) lookup =
     (case lookup s of
        Some found \<Rightarrow> if shadowed then None else Some found
      | None \<Rightarrow> resolve_loop shadowed path lookup)"

definition names_system_catalog :: "search_path_entry list \<Rightarrow> bool" where
  "names_system_catalog path \<longleftrightarrow> list_ex (\<lambda>e. searched_schema e = Some system_catalog_schema) path"

definition resolve_unqualified :: "search_path_entry list \<Rightarrow> (string \<Rightarrow> 'a option) \<Rightarrow> 'a option" where
  "resolve_unqualified path lookup =
     (if \<not> names_system_catalog path \<and> lookup system_catalog_schema \<noteq> None
      then lookup system_catalog_schema
      else resolve_loop False path lookup)"

definition is_session_temp_schema :: "string \<Rightarrow> bool" where
  "is_session_temp_schema s \<longleftrightarrow> s = session_temp_schema"

definition temp_object_id :: "string \<Rightarrow> object_id" where
  "temp_object_id n = object_id_new session_temp_schema n"

section \<open>What the server may search\<close>

text \<open>
  An unresolved entry stands for a schema the server may or may not have: the server's path
  results from the modelled one by deleting each unresolved entry or by replacing it with a
  schema of its own.
\<close>

inductive server_path :: "search_path_entry list \<Rightarrow> search_path_entry list \<Rightarrow> bool" where
  sp_nil: "server_path [] []"
| sp_schema: "server_path p q \<Longrightarrow> server_path (Schema s # p) (Schema s # q)"
| sp_absent: "server_path p q \<Longrightarrow> server_path (Unresolved n # p) q"
| sp_present: "server_path p q \<Longrightarrow> server_path (Unresolved n # p) (Schema s # q)"

inductive_simps server_path_Nil [simp]: "server_path [] q"
inductive_cases server_path_SchemaE: "server_path (Schema s # p) q"

lemma server_path_names_catalog:
  "server_path p q \<Longrightarrow> names_system_catalog p \<Longrightarrow> names_system_catalog q"
  by (induction rule: server_path.induct) (auto simp: names_system_catalog_def)

lemma resolve_loop_shadowed: "resolve_loop True path lookup = None"
proof (induction path)
  case (Cons e path)
  then show ?case by (cases e) (auto split: option.splits)
qed simp

lemma resolve_loop_Some_iff:
  "resolve_loop False path lookup = Some x \<longleftrightarrow>
     (\<exists>pre s post. path = map Schema pre @ Schema s # post \<and> lookup s = Some x
        \<and> (\<forall>t \<in> set pre. lookup t = None))"
proof (induction path)
  case Nil
  then show ?case by simp
next
  case (Cons e path)
  show ?case
  proof (cases e)
    case (Unresolved n)
    then show ?thesis by (auto simp: resolve_loop_shadowed map_eq_Cons_conv Cons_eq_append_conv)
  next
    case (Schema s)
    show ?thesis
    proof (cases "lookup s")
      case None
      have "(\<exists>pre t post. Schema s # path = map Schema pre @ Schema t # post \<and> lookup t = Some x
            \<and> (\<forall>u \<in> set pre. lookup u = None)) \<longleftrightarrow>
          (\<exists>pre t post. path = map Schema pre @ Schema t # post \<and> lookup t = Some x
            \<and> (\<forall>u \<in> set pre. lookup u = None))" (is "?L \<longleftrightarrow> ?R")
      proof
        assume ?L
        then obtain pre t post where *: "Schema s # path = map Schema pre @ Schema t # post"
            "lookup t = Some x" "\<forall>u \<in> set pre. lookup u = None" by blast
        with None obtain pre' where "pre = s # pre'" by (cases pre) auto
        with * show ?R by auto
      next
        assume ?R
        then obtain pre t post where "path = map Schema pre @ Schema t # post"
            "lookup t = Some x" "\<forall>u \<in> set pre. lookup u = None" by blast
        with None show ?L by (intro exI [of _ "s # pre"] exI [of _ t] exI [of _ post]) simp
      qed
      with Schema None Cons.IH show ?thesis by simp
    next
      case (Some y)
      with Schema show ?thesis
        by (auto simp: Cons_eq_append_conv map_eq_Cons_conv intro: exI [of _ "[]"])
    qed
  qed
qed

lemma resolve_loop_server_path:
  "server_path p q \<Longrightarrow> resolve_loop False p lookup = Some x \<Longrightarrow> resolve_loop False q lookup = Some x"
  by (induction rule: server_path.induct)
    (auto simp: resolve_loop_shadowed split: option.splits)

section \<open>Properties\<close>

text \<open>
  an unqualified name resolves to an answer exactly when PostgreSQL's order determines it:
  either the path does not name the system catalog and the system catalog has the object, or
  some searchable entry has it, every entry before that one is searchable and does not have it,
  and the implicit system catalog, if it is searched first, does not have it either.
\<close>

theorem resolve_unqualified_exact:
  "resolve_unqualified path lookup = Some x \<longleftrightarrow>
     (\<not> names_system_catalog path \<and> lookup system_catalog_schema = Some x)
     \<or> ((names_system_catalog path \<or> lookup system_catalog_schema = None)
        \<and> (\<exists>pre s post. path = map Schema pre @ Schema s # post \<and> lookup s = Some x
             \<and> (\<forall>t \<in> set pre. lookup t = None)))"
  unfolding resolve_unqualified_def resolve_loop_Some_iff [symmetric] by auto

theorem resolve_unqualified_exact_witness:
  "resolve_unqualified [Schema ''app'', Schema ''public'', Unresolved None]
     (\<lambda>s. if s = ''public'' then Some (1 :: nat) else None) = Some 1"
  unfolding resolve_unqualified_exact
  by (auto simp: names_system_catalog_def system_catalog_schema_def
      intro: exI [of _ "[''app'']"])

text \<open>
  C29. a certain answer is the server's answer: whatever schemas the unresolved entries turn out
  to name on the server, or whether they exist at all, the server's own path yields the same
  object, as long as no unresolved entry names the system catalog itself.
\<close>

theorem resolve_unqualified_sound:
  assumes "resolve_unqualified p lookup = Some x"
    and "server_path p q"
    and "names_system_catalog q \<longleftrightarrow> names_system_catalog p"
  shows "resolve_unqualified q lookup = Some x"
  using assms resolve_loop_server_path [of p q lookup x]
  by (auto simp: resolve_unqualified_def split: if_splits)

theorem resolve_unqualified_sound_witness:
  "resolve_unqualified [Schema ''public'', Schema ''hidden'']
     (\<lambda>s. if s = ''public'' then Some (1 :: nat) else if s = ''hidden'' then Some 2 else None) = Some 1"
proof (rule resolve_unqualified_sound)
  show "server_path [Schema ''public'', Unresolved None] [Schema ''public'', Schema ''hidden'']"
    by (intro sp_schema sp_present sp_nil)
  show "names_system_catalog [Schema ''public'', Schema ''hidden''] \<longleftrightarrow>
      names_system_catalog [Schema ''public'', Unresolved None]"
    by (simp add: names_system_catalog_def system_catalog_schema_def)
qed (simp add: resolve_unqualified_def names_system_catalog_def system_catalog_schema_def)

end
