(* ===== verification/Catalog_Model.thy ===== *)
theory Catalog_Model
  imports Relation_Model Namespace
begin

text \<open>
  The other catalog objects the analyzer tracks (\<^verbatim>\<open>src/src/_internal/model/\<close>: schema, sequence,
  role, trigger, constraint, extension, function, types, replication and collation) and the
  coverage contract of a synchronized baseline (\<^verbatim>\<open>db/cache/coverage.rs\<close>). Every overlay enum is the
  polymorphic \<open>overlay\<close>.
\<close>

section \<open>Schemas, sequences and roles\<close>

record schema_state =
  sch_name :: string
  sch_owner :: oid
  sch_generation :: u64

datatype sequence_kind = Standalone | Owned | SerialLike | Identity

datatype sequence_persistence = SeqPermanent | SeqTemporary | SeqUnlogged

record sequence_parameters =
  seqp_data_type :: string
  seqp_start_value :: "64 word"
  seqp_increment :: "64 word"
  seqp_min_value :: "64 word"
  seqp_max_value :: "64 word"
  seqp_cache_size :: "64 word"
  seqp_cycle :: bool
  seqp_persistence :: sequence_persistence

text \<open>Signed values are two's complement words; the maximum is \<^verbatim>\<open>i64::MAX\<close>.\<close>

definition sequence_parameters_default :: sequence_parameters where
  "sequence_parameters_default =
     \<lparr>seqp_data_type = ''bigint'', seqp_start_value = 1, seqp_increment = 1, seqp_min_value = 1,
      seqp_max_value = 0x7FFFFFFFFFFFFFFF, seqp_cache_size = 1, seqp_cycle = False,
      seqp_persistence = SeqPermanent\<rparr>"

record sequence_runtime =
  seqr_last_value :: "64 word option"
  seqr_is_called :: "bool option"

definition sequence_runtime_unknown :: sequence_runtime where
  "sequence_runtime_unknown = \<lparr>seqr_last_value = None, seqr_is_called = None\<rparr>"

definition sequence_runtime_fresh :: "64 word \<Rightarrow> sequence_runtime" where
  "sequence_runtime_fresh start = \<lparr>seqr_last_value = Some start, seqr_is_called = Some False\<rparr>"

record sequence_state =
  seq_id :: oid
  seq_owner :: oid
  seq_owned_by :: "(object_id \<times> string) option"
  seq_kind :: sequence_kind
  seq_parameters :: sequence_parameters
  seq_runtime :: sequence_runtime
  seq_runtime_exact :: bool
  seq_generation :: u64

record role_state =
  role_id :: oid
  role_can_login :: bool
  role_is_superuser :: bool
  role_inherits :: bool
  role_member_of :: "oid list"
  role_can_administer_membership :: "oid list"
  role_can_inherit_from :: "oid list"
  role_can_set_role_to :: "oid list"

record role_membership_grantor =
  mem_member :: oid
  mem_role :: oid
  mem_grantor :: oid
  mem_admin :: bool
  mem_inherit :: bool
  mem_set :: bool

section \<open>Triggers, constraints and extensions\<close>

datatype trigger_enable_mode = TriggerDisabled | TriggerOrigin | TriggerReplica | TriggerAlways

definition trigger_enable_mode_from_pg_code :: "string \<Rightarrow> trigger_enable_mode option" where
  "trigger_enable_mode_from_pg_code code =
     (if code = ''D'' then Some TriggerDisabled else if code = ''O'' then Some TriggerOrigin
      else if code = ''R'' then Some TriggerReplica else if code = ''A'' then Some TriggerAlways
      else None)"

record trigger_state =
  trg_name :: string
  trg_id :: oid
  trg_table_id :: oid
  trg_function_id :: oid
  trg_row_level :: bool
  trg_parent_trigger_id :: "oid option"
  trg_enabled_mode :: trigger_enable_mode
  trg_generation :: u64

datatype constraint_kind = Check | ForeignKeyConstraint | PrimaryKey | Unique | Exclusion | NotNull

record constraint_state =
  con_table_id :: oid
  con_name :: string
  con_kind :: constraint_kind
  con_validated :: bool
  con_definition :: "string option"
  con_backing_index :: "oid option"

datatype extension_member_kind =
    MemberSchema | MemberRelation | MemberSequence | MemberIndex | MemberType | MemberRoutine
  | MemberConstraint | MemberTrigger | MemberCollation | MemberCast | MemberUnmodeled string

record extension_member =
  exm_kind :: extension_member_kind
  exm_id :: oid

record extension_config_table =
  exc_table :: oid
  exc_condition :: "string option"

record extension_state =
  ext_name :: string
  ext_schema :: "string option"
  ext_version :: "string option"
  ext_relocatable :: "bool option"
  ext_owner :: oid
  ext_members :: "extension_member set"
  ext_members_complete :: bool
  ext_config_tables :: "extension_config_table list"
  ext_generation :: u64

section \<open>Routines and types\<close>

datatype volatility = Volatile | Stable | Immutable

datatype security_mode = Invoker | Definer

datatype routine_kind = RoutineFunction | RoutineProcedure | RoutineAggregate | RoutineWindow

datatype parameter_mode = ModeIn | ModeOut | ModeInOut | ModeVariadic | ModeTable

fun is_input :: "parameter_mode \<Rightarrow> bool" where
  "is_input ModeIn = True" | "is_input ModeInOut = True" | "is_input ModeVariadic = True"
| "is_input _ = False"

fun is_output :: "parameter_mode \<Rightarrow> bool" where
  "is_output ModeOut = True" | "is_output ModeInOut = True" | "is_output ModeTable = True"
| "is_output _ = False"

definition parameter_mode_from_pg :: "string \<Rightarrow> parameter_mode option" where
  "parameter_mode_from_pg code =
     (if code = ''i'' then Some ModeIn else if code = ''o'' then Some ModeOut
      else if code = ''b'' then Some ModeInOut else if code = ''v'' then Some ModeVariadic
      else if code = ''t'' then Some ModeTable else None)"

record routine_parameter =
  par_name :: "string option"
  par_mode :: parameter_mode
  par_ty :: string

datatype aggregate_kind = AggregateNormal | AggregateOrderedSet | AggregateHypothetical

definition aggregate_kind_from_catalog :: "string \<Rightarrow> aggregate_kind option" where
  "aggregate_kind_from_catalog v =
     (if v = ''n'' then Some AggregateNormal else if v = ''o'' then Some AggregateOrderedSet
      else if v = ''h'' then Some AggregateHypothetical else None)"

record aggregate_metadata =
  agg_kind :: aggregate_kind
  agg_direct_count :: nat

record function_state =
  fun_id :: oid
  fun_routine_kind :: routine_kind
  fun_arg_types :: "string list"
  fun_arg_type_ids :: "oid option list"
  fun_return_type :: string
  fun_returns_set :: bool
  fun_parameters :: "routine_parameter list"
  fun_default_count :: "32 word"
  fun_return_type_id :: "oid option"
  fun_volatility :: volatility
  fun_language :: string
  fun_security :: security_mode
  fun_internal_type_owner :: "oid option"
  fun_aggregate :: "aggregate_metadata option"

record domain_constraint_state =
  dom_name :: string
  dom_expression :: "expr_ir option"
  dom_expression_text :: "string option"
  dom_definition :: string
  dom_validated :: bool

record composite_field_state =
  fld_name :: string
  fld_data_type :: string
  fld_data_type_id :: "oid option"
  fld_collation :: "string option"
  fld_collation_id :: "oid option"

datatype base_type_length = Fixed "16 word" | Variable

record base_type_options =
  bto_input :: "string option"
  bto_output :: "string option"
  bto_receive :: "string option"
  bto_send :: "string option"
  bto_typmod_in :: "string option"
  bto_typmod_out :: "string option"
  bto_analyze :: "string option"
  bto_subscript :: "string option"
  bto_internallength :: "base_type_length option"
  bto_passed_by_value :: "bool option"
  bto_alignment :: "string option"
  bto_storage :: "string option"
  bto_like :: "string option"
  bto_category :: "string option"
  bto_preferred :: "bool option"
  bto_default :: "string option"
  bto_element :: "string option"
  bto_delimiter :: "string option"
  bto_collatable :: "bool option"

definition or_else :: "'a option \<Rightarrow> 'a option \<Rightarrow> 'a option" where
  "or_else a b = (case a of Some _ \<Rightarrow> a | None \<Rightarrow> b)"

definition base_type_options_merge :: "base_type_options \<Rightarrow> base_type_options \<Rightarrow> base_type_options" where
  "base_type_options_merge s other =
     \<lparr>bto_input = or_else (bto_input other) (bto_input s),
      bto_output = or_else (bto_output other) (bto_output s),
      bto_receive = or_else (bto_receive other) (bto_receive s),
      bto_send = or_else (bto_send other) (bto_send s),
      bto_typmod_in = or_else (bto_typmod_in other) (bto_typmod_in s),
      bto_typmod_out = or_else (bto_typmod_out other) (bto_typmod_out s),
      bto_analyze = or_else (bto_analyze other) (bto_analyze s),
      bto_subscript = or_else (bto_subscript other) (bto_subscript s),
      bto_internallength = or_else (bto_internallength other) (bto_internallength s),
      bto_passed_by_value = or_else (bto_passed_by_value other) (bto_passed_by_value s),
      bto_alignment = or_else (bto_alignment other) (bto_alignment s),
      bto_storage = or_else (bto_storage other) (bto_storage s),
      bto_like = or_else (bto_like other) (bto_like s),
      bto_category = or_else (bto_category other) (bto_category s),
      bto_preferred = or_else (bto_preferred other) (bto_preferred s),
      bto_default = or_else (bto_default other) (bto_default s),
      bto_element = or_else (bto_element other) (bto_element s),
      bto_delimiter = or_else (bto_delimiter other) (bto_delimiter s),
      bto_collatable = or_else (bto_collatable other) (bto_collatable s)\<rparr>"

definition routine_references :: "base_type_options \<Rightarrow> string list" where
  "routine_references s =
     List.map_filter (\<lambda>x. x)
       [bto_input s, bto_output s, bto_receive s, bto_send s, bto_typmod_in s, bto_typmod_out s,
        bto_analyze s, bto_subscript s]"

datatype type_kind =
    EnumType "string list"
  | Domain string "oid option" "string option" "oid option" "expr_ir option" "string option" bool
      "string option" "string \<rightharpoonup> domain_constraint_state"
  | BaseType bool base_type_options
  | Composite "composite_field_state list"
  | RangeType "string option" "oid option" "oid option" "string option" "oid option" "string option"
      "oid option" "string option" "oid option" "string option" "oid option"
  | Multirange "oid option"

record type_state =
  typ_id :: oid
  typ_generation :: u64
  typ_owner :: oid
  typ_kind :: type_kind

section \<open>Replication\<close>

record attribute_fact =
  attr_name :: string
  attr_value :: "string option"
  attr_namespace :: "string option"

datatype publication_row_filter = ParsedFilter expr_ir | CatalogSql string

datatype publication_object_fact =
    PublishedTable qualified_name bool bool "string list option" "publication_row_filter option"
  | SchemaTables string "publication_row_filter option"
  | CurrentSchemaShorthand
  | UnknownObject

datatype publication_scope = AllTables "string list" | ExplicitObjects "publication_object_fact list"

datatype connection_target = LiteralTarget "string option" | ServerTarget "string option" | Redacted

record publication_state =
  pub_name :: string
  pub_owner :: "string option"
  pub_scope :: publication_scope
  pub_params :: "attribute_fact list"
  pub_generation :: u64

record subscription_state =
  sub_name :: string
  sub_owner :: "string option"
  sub_connection :: connection_target
  sub_publications :: "string list"
  sub_params :: "attribute_fact list option"
  sub_enabled :: bool
  sub_slot_name :: "string option"
  sub_generation :: u64

section \<open>Collations\<close>

record collation_catalogue =
  coll_entries :: "resolved_name set"

definition builtin_collation :: "string \<Rightarrow> string \<Rightarrow> bool" where
  "builtin_collation schema name \<longleftrightarrow>
     schema = ''pg_catalog'' \<and> (name = ''C'' \<or> name = ''POSIX'' \<or> name = ''default'')"

definition collation_from_entries :: "resolved_name list \<Rightarrow> collation_catalogue" where
  "collation_from_entries es = \<lparr>coll_entries = set es\<rparr>"

definition collation_has :: "collation_catalogue \<Rightarrow> string \<Rightarrow> string \<Rightarrow> bool" where
  "collation_has c schema name \<longleftrightarrow>
     ResolvedName schema name \<in> coll_entries c \<or> builtin_collation schema name"

definition move_one :: "collation_catalogue \<Rightarrow> string \<Rightarrow> string \<Rightarrow> string \<Rightarrow> collation_catalogue" where
  "move_one c old_schema name new_schema =
     \<lparr>coll_entries =
        insert (ResolvedName new_schema name) (coll_entries c - {ResolvedName old_schema name})\<rparr>"

definition drop_one :: "collation_catalogue \<Rightarrow> string \<Rightarrow> string \<Rightarrow> collation_catalogue" where
  "drop_one c schema name = \<lparr>coll_entries = coll_entries c - {ResolvedName schema name}\<rparr>"

definition collation_remap_schema :: "collation_catalogue \<Rightarrow> string \<Rightarrow> string \<Rightarrow> collation_catalogue" where
  "collation_remap_schema c old_schema new_schema =
     \<lparr>coll_entries =
        (\<lambda>n. ResolvedName (if rn_schema n = old_schema then new_schema else rn_schema n) (rn_name n))
          ` coll_entries c\<rparr>"

definition collation_lookup :: "collation_catalogue \<Rightarrow> string \<Rightarrow> string \<Rightarrow> resolved_name option" where
  "collation_lookup c schema name =
     (if ResolvedName schema name \<in> coll_entries c \<or> builtin_collation schema name
      then Some (ResolvedName schema name) else None)"

record written_name =
  wn_schema :: "string option"
  wn_name :: string

definition collation_resolve ::
  "collation_catalogue \<Rightarrow> written_name \<Rightarrow> search_path_entry list \<Rightarrow> resolved_name option" where
  "collation_resolve c written search_path =
     (case wn_schema written of
        Some schema \<Rightarrow> collation_lookup c schema (wn_name written)
      | None \<Rightarrow> resolve_unqualified search_path (\<lambda>schema. collation_lookup c schema (wn_name written)))"

section \<open>Baseline coverage\<close>

datatype catalog_family =
    FamSchemas | FamRelations | FamSequences | FamIndexes | FamConstraints | FamTriggers
  | FamRoutines | FamTypes | FamExtensions | FamDependencies | FamInheritance | FamRoles
  | FamPublications | FamSubscriptions

datatype schema_coverage = AllNonSystem | ExplicitSchemas "string set"

definition coverage_from_sync_scope :: "string list option \<Rightarrow> schema_coverage" where
  "coverage_from_sync_scope schemas =
     (case schemas of Some ss \<Rightarrow> ExplicitSchemas (set ss) | None \<Rightarrow> AllNonSystem)"

fun covers :: "schema_coverage \<Rightarrow> string \<Rightarrow> bool" where
  "covers AllNonSystem schema = True"
| "covers (ExplicitSchemas schemas) schema = (schema \<in> schemas)"

record catalog_coverage =
  cov_schema_scope :: schema_coverage
  cov_families :: "catalog_family set"

definition coverage_has :: "catalog_coverage \<Rightarrow> catalog_family \<Rightarrow> bool" where
  "coverage_has c f \<longleftrightarrow> f \<in> cov_families c"

definition coverage_default :: catalog_coverage where
  "coverage_default = \<lparr>cov_schema_scope = AllNonSystem, cov_families = {}\<rparr>"

record scoped_dependency_edge =
  sde_family :: catalog_family
  sde_scoped :: oid
  sde_external :: "oid option"

end
