(* ===== verification/Evidence.thy ===== *)
theory Evidence
  imports SM_Prelude
begin

text \<open>
  Conservative-analysis evidence (\<^verbatim>\<open>src/src/_internal/analysis/evidence.rs\<close>) and the outcome of an
  analysis run (\<^verbatim>\<open>src/src/_internal/analysis/outcome.rs\<close>). The derived \<^verbatim>\<open>Ord\<close> of the Rust enums and
  structs is the order of declaration, field by field; it is instantiated here as a linear order,
  so that Rust's \<^verbatim>\<open>Vec::sort\<close> is the library's \<open>sort\<close>.
\<close>

datatype evidence_code =
    BaselineUnavailable
  | BaselineStale
  | CatalogCoverageIncomplete
  | UnsupportedStatement
  | UnsupportedSemantics
  | UnresolvedReference
  | UnknownObjectState
  | TransactionStateUnknown
  | UnmodeledState

fun as_str :: "evidence_code \<Rightarrow> string" where
  "as_str BaselineUnavailable = ''baseline_unavailable''"
| "as_str BaselineStale = ''baseline_stale''"
| "as_str CatalogCoverageIncomplete = ''catalog_coverage_incomplete''"
| "as_str UnsupportedStatement = ''unsupported_statement''"
| "as_str UnsupportedSemantics = ''unsupported_semantics''"
| "as_str UnresolvedReference = ''unresolved_reference''"
| "as_str UnknownObjectState = ''unknown_object_state''"
| "as_str TransactionStateUnknown = ''transaction_state_unknown''"
| "as_str UnmodeledState = ''unmodeled_state''"

fun summary :: "evidence_code \<Rightarrow> string" where
  "summary BaselineUnavailable = ''no synchronized baseline was available''"
| "summary BaselineStale = ''the synchronized baseline may be stale''"
| "summary CatalogCoverageIncomplete =
     ''the synchronized catalog does not contain all required evidence''"
| "summary UnsupportedStatement = ''the statement has no typed semantic model''"
| "summary UnsupportedSemantics = ''the statement contains unsupported semantics''"
| "summary UnresolvedReference = ''an object reference could not be resolved exactly''"
| "summary UnknownObjectState = ''the required object state is unknown''"
| "summary TransactionStateUnknown = ''transaction state cannot be modeled exactly''"
| "summary UnmodeledState =
     ''required PostgreSQL state is deliberately outside the semantic model''"

datatype evidence_scope = StatementScope | ChainScope

datatype evidence_location =
  EvidenceLocation (loc_file: string) (loc_statement_index: nat)

datatype evidence_record =
  EvidenceRecord (rec_code: evidence_code) (rec_scope: evidence_scope) (rec_summary: string)
    (rec_location: "evidence_location option")

definition evidence_record_new :: "evidence_code \<Rightarrow> evidence_scope \<Rightarrow> evidence_record" where
  "evidence_record_new code scope = EvidenceRecord code scope (summary code) None"

section \<open>The derived order\<close>

fun code_rank :: "evidence_code \<Rightarrow> nat" where
  "code_rank BaselineUnavailable = 0"
| "code_rank BaselineStale = 1"
| "code_rank CatalogCoverageIncomplete = 2"
| "code_rank UnsupportedStatement = 3"
| "code_rank UnsupportedSemantics = 4"
| "code_rank UnresolvedReference = 5"
| "code_rank UnknownObjectState = 6"
| "code_rank TransactionStateUnknown = 7"
| "code_rank UnmodeledState = 8"

fun scope_rank :: "evidence_scope \<Rightarrow> nat" where
  "scope_rank StatementScope = 0"
| "scope_rank ChainScope = 1"

definition location_key :: "evidence_location \<Rightarrow> string \<times> nat" where
  "location_key l = (loc_file l, loc_statement_index l)"

definition record_key :: "evidence_record \<Rightarrow> nat \<times> nat \<times> string \<times> (string \<times> nat) option" where
  "record_key r =
     (code_rank (rec_code r), scope_rank (rec_scope r), rec_summary r,
      map_option location_key (rec_location r))"

lemma code_rank_inject [simp]: "code_rank a = code_rank b \<longleftrightarrow> a = b"
  by (cases a; cases b) simp_all

lemma scope_rank_inject [simp]: "scope_rank a = scope_rank b \<longleftrightarrow> a = b"
  by (cases a; cases b) simp_all

lemma location_key_inject [simp]: "location_key a = location_key b \<longleftrightarrow> a = b"
  by (cases a; cases b) (simp add: location_key_def)

lemma map_location_key_inject [simp]:
  "map_option location_key a = map_option location_key b \<longleftrightarrow> a = b"
  by (cases a; cases b) simp_all

lemma record_key_inject [simp]: "record_key a = record_key b \<longleftrightarrow> a = b"
  by (cases a; cases b) (simp add: record_key_def)

instantiation evidence_record :: linorder
begin

definition less_eq_evidence_record :: "evidence_record \<Rightarrow> evidence_record \<Rightarrow> bool" where
  "less_eq_evidence_record a b \<longleftrightarrow> record_key a \<le> record_key b"

definition less_evidence_record :: "evidence_record \<Rightarrow> evidence_record \<Rightarrow> bool" where
  "less_evidence_record a b \<longleftrightarrow> record_key a < record_key b"

instance
  by standard
    (auto simp: less_eq_evidence_record_def less_evidence_record_def intro: antisym dest: order_antisym)

end

section \<open>The evidence log\<close>

record evidence_log =
  log_records :: "evidence_record list"

definition log_default :: evidence_log where
  "log_default = \<lparr>log_records = []\<rparr>"

definition log_contains :: "evidence_log \<Rightarrow> evidence_record \<Rightarrow> bool" where
  "log_contains log r \<longleftrightarrow> r \<in> set (log_records log)"

definition log_insert :: "evidence_log \<Rightarrow> evidence_record \<Rightarrow> evidence_log \<times> bool" where
  "log_insert log r =
     (if log_contains log r then (log, False)
      else (\<lparr>log_records = sort (log_records log @ [r])\<rparr>, True))"

definition log_wf :: "evidence_log \<Rightarrow> bool" where
  "log_wf log \<longleftrightarrow> sorted (log_records log) \<and> distinct (log_records log)"

lemma log_wf_default [simp]: "log_wf log_default"
  by (simp add: log_wf_def log_default_def)

lemma log_insert_wf: "log_wf log \<Longrightarrow> log_wf (fst (log_insert log r))"
  by (auto simp: log_insert_def log_wf_def log_contains_def)

lemma set_log_insert [simp]:
  "set (log_records (fst (log_insert log r))) = insert r (set (log_records log))"
  by (auto simp: log_insert_def log_contains_def)

lemma log_eqI:
  assumes "log_wf a" "log_wf b" "set (log_records a) = set (log_records b)"
  shows "a = b"
  using assms sorted_distinct_set_unique [of "log_records a" "log_records b"]
  by (simp add: log_wf_def)

section \<open>Analysis outcomes\<close>

datatype confidence = Exact | Tainted

record 'a analysis_outcome =
  findings :: "'a list"
  outcome_confidence :: confidence
  outcome_evidence :: "evidence_record list"

definition outcome_new :: "'a list \<Rightarrow> confidence \<Rightarrow> evidence_record list \<Rightarrow> 'a analysis_outcome" where
  "outcome_new fs c es = \<lparr>findings = fs, outcome_confidence = c, outcome_evidence = es\<rparr>"

definition with_evidence :: "'a analysis_outcome \<Rightarrow> evidence_record \<Rightarrow> 'a analysis_outcome" where
  "with_evidence oc r =
     (if r \<in> set (outcome_evidence oc) then oc
      else oc\<lparr>outcome_evidence := sort (outcome_evidence oc @ [r])\<rparr>)
       \<lparr>outcome_confidence := Tainted\<rparr>"

section \<open>Properties\<close>

text \<open>
  the log is a sorted set: recording a batch of evidence from a well-formed log leaves it
  sorted and free of duplicates, it then holds exactly the old and the new records, and the
  order in which the batch was recorded, or repetitions in it, make no difference.
\<close>

theorem log_insert_canonical:
  assumes "log_wf log"
  shows "log_wf (fold (\<lambda>r l. fst (log_insert l r)) rs log)
    \<and> set (log_records (fold (\<lambda>r l. fst (log_insert l r)) rs log)) = set rs \<union> set (log_records log)
    \<and> (set rs = set rs' \<longrightarrow>
         fold (\<lambda>r l. fst (log_insert l r)) rs log = fold (\<lambda>r l. fst (log_insert l r)) rs' log)"
proof -
  have inv: "log_wf (fold (\<lambda>r l. fst (log_insert l r)) xs log)
      \<and> set (log_records (fold (\<lambda>r l. fst (log_insert l r)) xs log)) = set xs \<union> set (log_records log)" for xs
    using assms by (induction xs arbitrary: log) (auto simp: log_insert_wf)
  then show ?thesis by (auto intro: log_eqI)
qed

theorem log_insert_canonical_witness:
  "fold (\<lambda>r l. fst (log_insert l r))
     [evidence_record_new UnmodeledState ChainScope, evidence_record_new BaselineStale ChainScope,
      evidence_record_new UnmodeledState ChainScope] log_default
   = \<lparr>log_records = [evidence_record_new BaselineStale ChainScope,
        evidence_record_new UnmodeledState ChainScope]\<rparr>"
proof -
  let ?a = "evidence_record_new UnmodeledState ChainScope"
  let ?b = "evidence_record_new BaselineStale ChainScope"
  have "fold (\<lambda>r l. fst (log_insert l r)) [?a, ?b, ?a] log_default =
      fold (\<lambda>r l. fst (log_insert l r)) [?b, ?a] log_default"
    using log_insert_canonical [OF log_wf_default, of "[?a, ?b, ?a]" "[?b, ?a]"] by auto
  also have "\<dots> = \<lparr>log_records = [?b, ?a]\<rparr>"
    by (simp add: log_insert_def log_contains_def log_default_def evidence_record_new_def
        less_eq_evidence_record_def record_key_def less_eq_prod_def)
  finally show ?thesis .
qed

text \<open>
  attaching chain-level evidence to an outcome always taints it, records the evidence exactly
  once, keeps every finding, and keeps the evidence sorted and free of duplicates; attaching the
  same record again changes nothing.
\<close>

theorem with_evidence_taints:
  fixes oc :: "'a analysis_outcome"
  assumes "sorted (outcome_evidence oc)" "distinct (outcome_evidence oc)"
  shows "outcome_confidence (with_evidence oc r) = Tainted
    \<and> findings (with_evidence oc r) = findings oc
    \<and> set (outcome_evidence (with_evidence oc r)) = insert r (set (outcome_evidence oc))
    \<and> sorted (outcome_evidence (with_evidence oc r))
    \<and> distinct (outcome_evidence (with_evidence oc r))
    \<and> with_evidence (with_evidence oc r) r = with_evidence oc r"
  using assms by (auto simp: with_evidence_def)

theorem with_evidence_taints_witness:
  "outcome_confidence (with_evidence (outcome_new [''finding''] Exact [])
      (evidence_record_new BaselineUnavailable ChainScope)) = Tainted
   \<and> findings (with_evidence (outcome_new [''finding''] Exact [])
      (evidence_record_new BaselineUnavailable ChainScope)) = [''finding'']"
  using with_evidence_taints
    [of "outcome_new [''finding''] Exact []" "evidence_record_new BaselineUnavailable ChainScope"]
  by (simp add: outcome_new_def)

end
