(* ===== verification/Analysis_State.thy ===== *)
theory Analysis_State
  imports Catalog_Model Evidence
begin

text \<open>
  The state of the analyzer (\<^verbatim>\<open>src/src/_internal/analysis/state/mod.rs\<close>), the undo log of a
  transaction frame (\<^verbatim>\<open>analysis/transaction.rs\<close>), the snapshot functions that append to it
  (\<^verbatim>\<open>state/snapshots.rs\<close>), its replay (\<^verbatim>\<open>state/rollback.rs\<close>), evidence recording
  (\<^verbatim>\<open>state/evidence.rs\<close>), the scoped settings (\<^verbatim>\<open>analysis/settings.rs\<close>) and the read accessors.

  Left out of the record: four catalogues that are hydrated once and that no modelled operation
  reads (built-in types, operator classes, casts, aggregates), and the reporting field
  \<^verbatim>\<open>not_evaluated\<close>. Vectors keep the order of the source: the last transaction
  frame is the innermost one and the last undo entry the most recent one. The eight role fields
  that are always saved and restored together form the record \<open>role_context\<close>.
\<close>

section \<open>Settings and transaction frames\<close>

record 'a scoped_setting =
  ss_default :: 'a
  ss_session :: 'a
  ss_effective :: 'a

definition scoped_setting_new :: "'a \<Rightarrow> 'a scoped_setting" where
  "scoped_setting_new d = \<lparr>ss_default = d, ss_session = d, ss_effective = d\<rparr>"

definition reset_effective_to_session :: "'a scoped_setting \<Rightarrow> 'a scoped_setting" where
  "reset_effective_to_session s = s\<lparr>ss_effective := ss_session s\<rparr>"

type_synonym timeout_setting_state = "u64 option scoped_setting"

record namespace_snapshot =
  ns_schemas :: "string \<rightharpoonup> schema_state overlay"
  ns_relations :: "oid \<rightharpoonup> relation_state overlay"
  ns_types :: "oid \<rightharpoonup> type_state overlay"
  ns_functions :: "oid \<rightharpoonup> function_state overlay"
  ns_sequences :: "oid \<rightharpoonup> sequence_state overlay"
  ns_collations :: collation_catalogue
  ns_extensions :: "string \<rightharpoonup> extension_state overlay"
  ns_publications :: "string \<rightharpoonup> publication_state overlay"
  ns_triggers :: "oid \<rightharpoonup> trigger_state overlay"
  ns_constraints :: "(oid \<times> string) \<rightharpoonup> constraint_state"
  ns_graph :: "dependency_edge list"
  ns_pending_validation :: "(oid \<times> string) set"
  ns_baseline_relations :: "oid set"
  ns_baseline_indexes :: "oid set"
  ns_baseline_foreign_keys :: "(oid \<times> string) set"
  ns_baseline_fk_dependencies :: "oid set"
  ns_baseline_sequences :: "oid set"
  ns_scoped_external_dependencies :: "scoped_dependency_edge set"
  ns_baseline_schemas :: "string set option"
  ns_search_path :: "search_path_entry list"
  ns_search_path_template :: "string list"
  ns_session_search_path_template :: "string list"

record role_context =
  rc_current_role :: string
  rc_current_role_known :: bool
  rc_persistent_current_role :: string
  rc_persistent_current_role_known :: bool
  rc_session_role :: string
  rc_session_role_known :: bool
  rc_persistent_session_role :: string
  rc_persistent_session_role_known :: bool

datatype state_change =
    SchemaSnapshot string "schema_state overlay option"
  | NamespaceSnapshot namespace_snapshot
  | RelationSnapshot oid "relation_state overlay option"
  | TypeSnapshot oid "type_state overlay option"
  | SequenceSnapshot oid "sequence_state overlay option"
  | ExtensionSnapshot string "extension_state overlay option"
  | SearchPathSnapshot "search_path_entry list" "string list" "string list"
  | TimeoutSettingsSnapshot timeout_setting_state timeout_setting_state
  | GenerationCounterSnapshot u64
  | PendingValidationSnapshot "(oid \<times> string) set"
  | GraphLengthMarker nat
  | GraphSnapshot "dependency_edge list"
  | FunctionSnapshot oid "function_state overlay option"
  | PublicationSnapshot oid "publication_state overlay option"
  | SubscriptionSnapshot oid "subscription_state overlay option"
  | RoleSnapshot oid "role_state overlay option"
  | RoleMembershipGrantorsSnapshot "role_membership_grantor list" bool
  | TriggerSnapshot oid "trigger_state overlay option"
  | ConstraintSnapshot oid string "constraint_state option"
  | BaselineForeignKeysSnapshot "(oid \<times> string) set"
  | RoleContextSnapshot role_context
  | ConfidenceSnapshot confidence
  | EvidenceSnapshot evidence_log

datatype transaction_frame_kind = Root | Savepoint string

record transaction_frame =
  frame_kind :: transaction_frame_kind
  undo_log :: "state_change list"

definition frame_root :: transaction_frame where
  "frame_root = \<lparr>frame_kind = Root, undo_log = []\<rparr>"

definition frame_savepoint :: "string \<Rightarrow> transaction_frame" where
  "frame_savepoint name = \<lparr>frame_kind = Savepoint name, undo_log = []\<rparr>"

definition is_named_savepoint :: "string \<Rightarrow> transaction_frame \<Rightarrow> bool" where
  "is_named_savepoint name f \<longleftrightarrow> frame_kind f = Savepoint name"

section \<open>The state\<close>

record local_state =
  l_schemas :: "string \<rightharpoonup> schema_state overlay"
  l_relations :: "oid \<rightharpoonup> relation_state overlay"
  l_types :: "oid \<rightharpoonup> type_state overlay"
  l_functions :: "oid \<rightharpoonup> function_state overlay"
  l_sequences :: "oid \<rightharpoonup> sequence_state overlay"
  l_extensions :: "string \<rightharpoonup> extension_state overlay"
  l_publications :: "string \<rightharpoonup> publication_state overlay"
  l_subscriptions :: "string \<rightharpoonup> subscription_state overlay"
  l_roles :: "oid \<rightharpoonup> role_state overlay"
  l_role_membership_grantors :: "role_membership_grantor list"
  l_role_membership_grantors_complete :: bool
  l_bootstrap_superuser :: "string option"
  l_triggers :: "oid \<rightharpoonup> trigger_state overlay"
  l_constraints :: "(oid \<times> string) \<rightharpoonup> constraint_state"
  l_graph :: dependency_graph
  l_search_path :: "search_path_entry list"
  l_collations :: collation_catalogue
  l_saw_temp_object :: bool
  l_search_path_template :: "string list"
  l_session_search_path_template :: "string list"
  l_default_search_path_template :: "string list"
  l_source_existing_schemas :: "string set option"
  l_lock_timeout :: timeout_setting_state
  l_statement_timeout :: timeout_setting_state
  l_role_context :: role_context
  l_authenticated_role :: string
  l_authenticated_role_known :: bool
  l_roles_known :: bool
  l_confidence :: confidence
  l_evidence :: evidence_log
  l_current_evidence_location :: "evidence_location option"
  l_transactions :: "transaction_frame list"
  l_transaction_aborted :: bool
  l_pending_validation :: "(oid \<times> string) set"
  l_generation_counter :: u64

record analysis_state =
  pg_version_num :: "32 word option"
  asserted_pg_version_num :: "32 word option"
  st_target_database :: "string option"
  baseline_available :: bool
  baseline_boundary_queries_complete :: bool
  baseline_coverage :: catalog_coverage
  baseline_schemas :: "string set option"
  baseline_relations :: "oid set"
  baseline_indexes :: "oid set"
  baseline_foreign_keys :: "(oid \<times> string) set"
  baseline_fk_dependencies :: "oid set"
  baseline_sequences :: "oid set"
  scoped_external_dependencies :: "scoped_dependency_edge set"
  external_referencing_schemas :: "string set"
  co_dropped_objects :: "oid set"
  local :: local_state

abbreviation transactions :: "analysis_state \<Rightarrow> transaction_frame list" where
  "transactions s \<equiv> l_transactions (local s)"

abbreviation graph_of :: "analysis_state \<Rightarrow> dependency_graph" where
  "graph_of s \<equiv> l_graph (local s)"

abbreviation role_context_of :: "analysis_state \<Rightarrow> role_context" where
  "role_context_of s \<equiv> l_role_context (local s)"

section \<open>Outcomes\<close>

datatype conflict_kind = ConcurrentInTransaction | Rejected string

datatype mutation_result =
    Applied | NoOp | NotExecuted | Unresolved evidence_code | Conflict conflict_kind

fun is_unresolved :: "mutation_result \<Rightarrow> bool" where
  "is_unresolved (Unresolved _) = True" | "is_unresolved _ = False"

fun unresolved_cause :: "mutation_result \<Rightarrow> evidence_code option" where
  "unresolved_cause (Unresolved cause) = Some cause" | "unresolved_cause _ = None"

fun is_conflict :: "mutation_result \<Rightarrow> bool" where
  "is_conflict (Conflict _) = True" | "is_conflict _ = False"

definition conflict :: "string \<Rightarrow> mutation_result" where
  "conflict reason = Conflict (Rejected reason)"

fun conflict_reason :: "mutation_result \<Rightarrow> string option" where
  "conflict_reason (Conflict (Rejected reason)) = Some reason"
| "conflict_reason (Conflict ConcurrentInTransaction) =
     Some ''CONCURRENTLY operation cannot run inside a transaction block''"
| "conflict_reason _ = None"

datatype object_lookup = LookupPresent | WrongKind | Tombstone | AuthoritativelyAbsent | LookupUnknown

section \<open>Versions\<close>

datatype pg_version = Observed "32 word" | Assumed "32 word" | UnresolvedVersion

definition oldest_supported_pg_version_num :: "32 word" where
  "oldest_supported_pg_version_num = 140000"

fun version_num :: "pg_version \<Rightarrow> 32 word option" where
  "version_num (Observed v) = Some v"
| "version_num (Assumed v) = Some v"
| "version_num UnresolvedVersion = None"

fun satisfies :: "pg_version \<Rightarrow> (32 word \<Rightarrow> bool) \<Rightarrow> bool" where
  "satisfies (Observed v) P = P v"
| "satisfies (Assumed v) P = P v"
| "satisfies UnresolvedVersion P = False"

fun is_asserted :: "pg_version \<Rightarrow> bool" where
  "is_asserted (Observed _) = False" | "is_asserted _ = True"

definition conservative_num :: "pg_version \<Rightarrow> 32 word" where
  "conservative_num v = (case version_num v of Some n \<Rightarrow> n | None \<Rightarrow> oldest_supported_pg_version_num)"

definition effective_pg_version :: "analysis_state \<Rightarrow> pg_version" where
  "effective_pg_version s =
     (case (pg_version_num s, asserted_pg_version_num s) of
        (Some v, _) \<Rightarrow> Observed v
      | (None, Some v) \<Rightarrow> Assumed v
      | (None, None) \<Rightarrow> UnresolvedVersion)"

definition bare_routine_name :: "string \<Rightarrow> string" where
  "bare_routine_name identity = takeWhile (\<lambda>c. c \<noteq> CHR ''('') identity"

section \<open>Appending to the undo log\<close>

text \<open>\<^verbatim>\<open>if let Some(frame) = transactions.last_mut() { frame.undo_log.push(..) }\<close>.\<close>

definition log_on_top :: "state_change list \<Rightarrow> transaction_frame list \<Rightarrow> transaction_frame list" where
  "log_on_top cs ts =
     (if ts = [] then [] else butlast ts @ [(last ts)\<lparr>undo_log := undo_log (last ts) @ cs\<rparr>])"

definition log_change :: "(analysis_state \<Rightarrow> state_change) \<Rightarrow> analysis_state \<Rightarrow> analysis_state" where
  "log_change change s = s\<lparr>local := (local s)\<lparr>l_transactions := log_on_top [change s] (transactions s)\<rparr>\<rparr>"

definition snapshot_relation :: "oid \<Rightarrow> analysis_state \<Rightarrow> analysis_state" where
  "snapshot_relation i = log_change (\<lambda>s. RelationSnapshot i (l_relations (local s) i))"

definition snapshot_schema :: "string \<Rightarrow> analysis_state \<Rightarrow> analysis_state" where
  "snapshot_schema n = log_change (\<lambda>s. SchemaSnapshot n (l_schemas (local s) n))"

definition capture_namespace :: "analysis_state \<Rightarrow> namespace_snapshot" where
  "capture_namespace s =
     \<lparr>ns_schemas = l_schemas (local s), ns_relations = l_relations (local s),
      ns_types = l_types (local s), ns_functions = l_functions (local s),
      ns_sequences = l_sequences (local s), ns_collations = l_collations (local s),
      ns_extensions = l_extensions (local s), ns_publications = l_publications (local s),
      ns_triggers = l_triggers (local s), ns_constraints = l_constraints (local s),
      ns_graph = edges (graph_of s), ns_pending_validation = l_pending_validation (local s),
      ns_baseline_relations = baseline_relations s, ns_baseline_indexes = baseline_indexes s,
      ns_baseline_foreign_keys = baseline_foreign_keys s,
      ns_baseline_fk_dependencies = baseline_fk_dependencies s,
      ns_baseline_sequences = baseline_sequences s,
      ns_scoped_external_dependencies = scoped_external_dependencies s,
      ns_baseline_schemas = baseline_schemas s, ns_search_path = l_search_path (local s),
      ns_search_path_template = l_search_path_template (local s),
      ns_session_search_path_template = l_session_search_path_template (local s)\<rparr>"

definition snapshot_namespace :: "analysis_state \<Rightarrow> analysis_state" where
  "snapshot_namespace = log_change (\<lambda>s. NamespaceSnapshot (capture_namespace s))"

definition snapshot_type :: "oid \<Rightarrow> analysis_state \<Rightarrow> analysis_state" where
  "snapshot_type i = log_change (\<lambda>s. TypeSnapshot i (l_types (local s) i))"

definition snapshot_sequence :: "oid \<Rightarrow> analysis_state \<Rightarrow> analysis_state" where
  "snapshot_sequence i = log_change (\<lambda>s. SequenceSnapshot i (l_sequences (local s) i))"

definition snapshot_extension :: "string \<Rightarrow> analysis_state \<Rightarrow> analysis_state" where
  "snapshot_extension n = log_change (\<lambda>s. ExtensionSnapshot n (l_extensions (local s) n))"

definition snapshot_function :: "oid \<Rightarrow> analysis_state \<Rightarrow> analysis_state" where
  "snapshot_function i = log_change (\<lambda>s. FunctionSnapshot i (l_functions (local s) i))"

definition snapshot_publication :: "string \<Rightarrow> analysis_state \<Rightarrow> analysis_state" where
  "snapshot_publication n = log_change (\<lambda>s. PublicationSnapshot (Oid '''' n) (l_publications (local s) n))"

definition snapshot_subscription :: "string \<Rightarrow> analysis_state \<Rightarrow> analysis_state" where
  "snapshot_subscription n = log_change (\<lambda>s. SubscriptionSnapshot (Oid '''' n) (l_subscriptions (local s) n))"

definition snapshot_role :: "oid \<Rightarrow> analysis_state \<Rightarrow> analysis_state" where
  "snapshot_role i = log_change (\<lambda>s. RoleSnapshot i (l_roles (local s) i))"

definition snapshot_role_membership_grantors :: "analysis_state \<Rightarrow> analysis_state" where
  "snapshot_role_membership_grantors =
     log_change (\<lambda>s. RoleMembershipGrantorsSnapshot (l_role_membership_grantors (local s))
       (l_role_membership_grantors_complete (local s)))"

definition snapshot_trigger :: "oid \<Rightarrow> analysis_state \<Rightarrow> analysis_state" where
  "snapshot_trigger i = log_change (\<lambda>s. TriggerSnapshot i (l_triggers (local s) i))"

definition snapshot_constraint :: "oid \<Rightarrow> string \<Rightarrow> analysis_state \<Rightarrow> analysis_state" where
  "snapshot_constraint t n = log_change (\<lambda>s. ConstraintSnapshot t n (l_constraints (local s) (t, n)))"

definition snapshot_role_context :: "analysis_state \<Rightarrow> analysis_state" where
  "snapshot_role_context = log_change (\<lambda>s. RoleContextSnapshot (role_context_of s))"

definition snapshot_search_path :: "analysis_state \<Rightarrow> analysis_state" where
  "snapshot_search_path =
     log_change (\<lambda>s. SearchPathSnapshot (l_search_path (local s)) (l_search_path_template (local s))
       (l_session_search_path_template (local s)))"

definition snapshot_timeout_settings :: "analysis_state \<Rightarrow> analysis_state" where
  "snapshot_timeout_settings =
     log_change (\<lambda>s. TimeoutSettingsSnapshot (l_lock_timeout (local s)) (l_statement_timeout (local s)))"

definition snapshot_generation_counter :: "analysis_state \<Rightarrow> analysis_state" where
  "snapshot_generation_counter = log_change (\<lambda>s. GenerationCounterSnapshot (l_generation_counter (local s)))"

definition snapshot_pending_validation :: "analysis_state \<Rightarrow> analysis_state" where
  "snapshot_pending_validation = log_change (\<lambda>s. PendingValidationSnapshot (l_pending_validation (local s)))"

definition snapshot_confidence :: "analysis_state \<Rightarrow> analysis_state" where
  "snapshot_confidence = log_change (\<lambda>s. ConfidenceSnapshot (l_confidence (local s)))"

definition snapshot_evidence :: "analysis_state \<Rightarrow> analysis_state" where
  "snapshot_evidence = log_change (\<lambda>s. EvidenceSnapshot (l_evidence (local s)))"

definition snapshot_baseline_foreign_keys :: "analysis_state \<Rightarrow> analysis_state" where
  "snapshot_baseline_foreign_keys = log_change (\<lambda>s. BaselineForeignKeysSnapshot (baseline_foreign_keys s))"

definition snapshot_graph :: "analysis_state \<Rightarrow> analysis_state" where
  "snapshot_graph = log_change (\<lambda>s. GraphLengthMarker (edge_count (graph_of s)))"

definition snapshot_graph_full :: "analysis_state \<Rightarrow> analysis_state" where
  "snapshot_graph_full = log_change (\<lambda>s. GraphSnapshot (edges (graph_of s)))"

section \<open>Replaying the undo log\<close>

definition restore_namespace :: "namespace_snapshot \<Rightarrow> analysis_state \<Rightarrow> analysis_state" where
  "restore_namespace n s =
     s\<lparr>local := (local s)\<lparr>l_schemas := ns_schemas n, l_relations := ns_relations n,
          l_types := ns_types n, l_functions := ns_functions n, l_sequences := ns_sequences n,
          l_collations := ns_collations n, l_extensions := ns_extensions n,
          l_publications := ns_publications n, l_triggers := ns_triggers n,
          l_constraints := ns_constraints n,
          l_graph := replace_edges (ns_graph n) (graph_of s),
          l_pending_validation := ns_pending_validation n,
          l_search_path := ns_search_path n, l_search_path_template := ns_search_path_template n,
          l_session_search_path_template := ns_session_search_path_template n\<rparr>,
       baseline_relations := ns_baseline_relations n, baseline_indexes := ns_baseline_indexes n,
       baseline_foreign_keys := ns_baseline_foreign_keys n,
       baseline_fk_dependencies := ns_baseline_fk_dependencies n,
       baseline_sequences := ns_baseline_sequences n,
       scoped_external_dependencies := ns_scoped_external_dependencies n,
       baseline_schemas := ns_baseline_schemas n\<rparr>"

fun undo_change :: "state_change \<Rightarrow> analysis_state \<Rightarrow> analysis_state" where
  "undo_change (SchemaSnapshot n p) s = s\<lparr>local := (local s)\<lparr>l_schemas := mrestore (l_schemas (local s)) n p\<rparr>\<rparr>"
| "undo_change (NamespaceSnapshot n) s = restore_namespace n s"
| "undo_change (RelationSnapshot i p) s =
     s\<lparr>local := (local s)\<lparr>l_relations := mrestore (l_relations (local s)) i p\<rparr>\<rparr>"
| "undo_change (TypeSnapshot i p) s = s\<lparr>local := (local s)\<lparr>l_types := mrestore (l_types (local s)) i p\<rparr>\<rparr>"
| "undo_change (SequenceSnapshot i p) s =
     s\<lparr>local := (local s)\<lparr>l_sequences := mrestore (l_sequences (local s)) i p\<rparr>\<rparr>"
| "undo_change (ExtensionSnapshot n p) s =
     s\<lparr>local := (local s)\<lparr>l_extensions := mrestore (l_extensions (local s)) n p\<rparr>\<rparr>"
| "undo_change (FunctionSnapshot i p) s =
     s\<lparr>local := (local s)\<lparr>l_functions := mrestore (l_functions (local s)) i p\<rparr>\<rparr>"
| "undo_change (PublicationSnapshot i p) s =
     s\<lparr>local := (local s)\<lparr>l_publications := mrestore (l_publications (local s)) (name_of i) p\<rparr>\<rparr>"
| "undo_change (SubscriptionSnapshot i p) s =
     s\<lparr>local := (local s)\<lparr>l_subscriptions := mrestore (l_subscriptions (local s)) (name_of i) p\<rparr>\<rparr>"
| "undo_change (RoleSnapshot i p) s = s\<lparr>local := (local s)\<lparr>l_roles := mrestore (l_roles (local s)) i p\<rparr>\<rparr>"
| "undo_change (RoleMembershipGrantorsSnapshot p c) s =
     s\<lparr>local := (local s)\<lparr>l_role_membership_grantors := p, l_role_membership_grantors_complete := c\<rparr>\<rparr>"
| "undo_change (TriggerSnapshot i p) s =
     s\<lparr>local := (local s)\<lparr>l_triggers := mrestore (l_triggers (local s)) i p\<rparr>\<rparr>"
| "undo_change (ConstraintSnapshot t n p) s =
     s\<lparr>local := (local s)\<lparr>l_constraints := mrestore (l_constraints (local s)) (t, n) p\<rparr>\<rparr>"
| "undo_change (BaselineForeignKeysSnapshot p) s = s\<lparr>baseline_foreign_keys := p\<rparr>"
| "undo_change (GraphLengthMarker len) s = s\<lparr>local := (local s)\<lparr>l_graph := truncate_edges len (graph_of s)\<rparr>\<rparr>"
| "undo_change (GraphSnapshot p) s = s\<lparr>local := (local s)\<lparr>l_graph := replace_edges p (graph_of s)\<rparr>\<rparr>"
| "undo_change (RoleContextSnapshot c) s = s\<lparr>local := (local s)\<lparr>l_role_context := c\<rparr>\<rparr>"
| "undo_change (SearchPathSnapshot p t st) s =
     s\<lparr>local := (local s)\<lparr>l_search_path := p, l_search_path_template := t, l_session_search_path_template := st\<rparr>\<rparr>"
| "undo_change (TimeoutSettingsSnapshot lt st) s =
     s\<lparr>local := (local s)\<lparr>l_lock_timeout := lt, l_statement_timeout := st\<rparr>\<rparr>"
| "undo_change (GenerationCounterSnapshot p) s = s\<lparr>local := (local s)\<lparr>l_generation_counter := p\<rparr>\<rparr>"
| "undo_change (PendingValidationSnapshot p) s = s\<lparr>local := (local s)\<lparr>l_pending_validation := p\<rparr>\<rparr>"
| "undo_change (ConfidenceSnapshot p) s = s\<lparr>local := (local s)\<lparr>l_confidence := p\<rparr>\<rparr>"
| "undo_change (EvidenceSnapshot p) s = s\<lparr>local := (local s)\<lparr>l_evidence := p\<rparr>\<rparr>"

text \<open>Entries are popped from the end: the most recent change is undone first.\<close>

definition rollback_undo_log :: "state_change list \<Rightarrow> analysis_state \<Rightarrow> analysis_state" where
  "rollback_undo_log log s = foldr undo_change log s"

definition rollback_frame :: "transaction_frame \<Rightarrow> analysis_state \<Rightarrow> analysis_state" where
  "rollback_frame frame s = rollback_undo_log (undo_log frame) s"

definition transaction_undo_checkpoint :: "analysis_state \<Rightarrow> (nat \<times> nat) option" where
  "transaction_undo_checkpoint s =
     (if transactions s = [] then None
      else Some (length (transactions s), length (undo_log (last (transactions s)))))"

definition rollback_to_transaction_undo_checkpoint ::
  "nat \<Rightarrow> nat \<Rightarrow> analysis_state \<Rightarrow> string + analysis_state" where
  "rollback_to_transaction_undo_checkpoint transaction_depth undo_len s =
     (if length (transactions s) \<noteq> transaction_depth
      then Inl ''statement changed transaction depth while using an undo checkpoint''
      else if transactions s = []
      then Inl ''statement undo checkpoint lost its transaction frame''
      else
        (let frame = last (transactions s)
         in if length (undo_log frame) < undo_len
            then Inl ''statement shortened the transaction undo log unexpectedly''
            else Inr (rollback_undo_log (drop undo_len (undo_log frame))
              (s\<lparr>local := (local s)\<lparr>l_transactions :=
                 butlast (transactions s) @ [frame\<lparr>undo_log := take undo_len (undo_log frame)\<rparr>]\<rparr>\<rparr>))))"

section \<open>Evidence\<close>

definition located :: "evidence_location option \<Rightarrow> evidence_record \<Rightarrow> evidence_record" where
  "located loc r =
     (if rec_location r = None then EvidenceRecord (rec_code r) (rec_scope r) (rec_summary r) loc else r)"

definition mark_tainted :: "analysis_state \<Rightarrow> analysis_state" where
  "mark_tainted s =
     (if l_confidence (local s) \<noteq> Tainted
      then (let s1 = snapshot_confidence s in s1\<lparr>local := (local s1)\<lparr>l_confidence := Tainted\<rparr>\<rparr>)
      else s)"

definition record_evidence :: "evidence_record \<Rightarrow> analysis_state \<Rightarrow> analysis_state" where
  "record_evidence r s =
     (let r1 = located (l_current_evidence_location (local s)) r
      in if log_contains (l_evidence (local s)) r1 then s
         else
           (let s1 = mark_tainted (snapshot_evidence s)
            in s1\<lparr>local := (local s1)\<lparr>l_evidence := fst (log_insert (l_evidence (local s1)) r1)\<rparr>\<rparr>))"

definition taint :: "evidence_code \<Rightarrow> evidence_scope \<Rightarrow> analysis_state \<Rightarrow> analysis_state" where
  "taint code scope = record_evidence (evidence_record_new code scope)"

definition unresolved :: "evidence_code \<Rightarrow> analysis_state \<Rightarrow> mutation_result \<times> analysis_state" where
  "unresolved code s = (Unresolved code, taint code ChainScope s)"

definition unresolved_statement :: "evidence_code \<Rightarrow> analysis_state \<Rightarrow> mutation_result \<times> analysis_state" where
  "unresolved_statement code s = (Unresolved code, taint code StatementScope s)"

definition set_target_database :: "string option \<Rightarrow> analysis_state \<Rightarrow> analysis_state" where
  "set_target_database database s = s\<lparr>st_target_database := database\<rparr>"

definition set_evidence_location :: "evidence_location option \<Rightarrow> analysis_state \<Rightarrow> analysis_state" where
  "set_evidence_location loc s = s\<lparr>local := (local s)\<lparr>l_current_evidence_location := loc\<rparr>\<rparr>"

definition mark_transaction_aborted :: "analysis_state \<Rightarrow> analysis_state" where
  "mark_transaction_aborted s = s\<lparr>local := (local s)\<lparr>l_transaction_aborted := True\<rparr>\<rparr>"

section \<open>Presence and coverage\<close>

fun is_present :: "'a overlay option \<Rightarrow> bool" where
  "is_present (Some (Present _)) = True"
| "is_present _ = False"

fun present :: "'a overlay \<Rightarrow> 'a option" where
  "present (Present v) = Some v"
| "present Dropped = None"

definition relation_is_present :: "analysis_state \<Rightarrow> oid \<Rightarrow> bool" where
  "relation_is_present s i = is_present (l_relations (local s) i)"

definition sequence_is_present :: "analysis_state \<Rightarrow> oid \<Rightarrow> bool" where
  "sequence_is_present s i = is_present (l_sequences (local s) i)"

definition type_is_present :: "analysis_state \<Rightarrow> oid \<Rightarrow> bool" where
  "type_is_present s i = is_present (l_types (local s) i)"

definition routine_is_present :: "analysis_state \<Rightarrow> oid \<Rightarrow> bool" where
  "routine_is_present s i = is_present (l_functions (local s) i)"

definition schema_is_present :: "analysis_state \<Rightarrow> string \<Rightarrow> bool" where
  "schema_is_present s n = is_present (l_schemas (local s) n)"

definition in_scope :: "string set option \<Rightarrow> string \<Rightarrow> bool" where
  "in_scope scope n = (case scope of None \<Rightarrow> True | Some schemas \<Rightarrow> n \<in> schemas)"

definition schema_absence_is_authoritative :: "analysis_state \<Rightarrow> string \<Rightarrow> bool" where
  "schema_absence_is_authoritative s n \<longleftrightarrow>
     l_schemas (local s) n = Some Dropped
     \<or> (baseline_available s \<and> coverage_has (baseline_coverage s) FamSchemas
        \<and> in_scope (baseline_schemas s) n)"

definition schema_lookup :: "analysis_state \<Rightarrow> string \<Rightarrow> object_lookup" where
  "schema_lookup s n =
     (case l_schemas (local s) n of
        Some (Present _) \<Rightarrow> LookupPresent
      | Some Dropped \<Rightarrow> Tombstone
      | None \<Rightarrow> if schema_absence_is_authoritative s n then AuthoritativelyAbsent else LookupUnknown)"

definition baseline_covers_object :: "analysis_state \<Rightarrow> oid \<Rightarrow> bool" where
  "baseline_covers_object s i \<longleftrightarrow>
     baseline_available s \<and> covers (cov_schema_scope (baseline_coverage s)) (schema_of i)
     \<and> in_scope (baseline_schemas s) (schema_of i)"

definition baseline_covers_family_object :: "analysis_state \<Rightarrow> oid \<Rightarrow> catalog_family \<Rightarrow> bool" where
  "baseline_covers_family_object s i family \<longleftrightarrow>
     baseline_covers_object s i \<and> coverage_has (baseline_coverage s) family"

definition exposes :: "catalog_family \<Rightarrow> oid \<Rightarrow> scoped_dependency_edge \<Rightarrow> bool" where
  "exposes family i e \<longleftrightarrow> sde_family e = family \<and> sde_scoped e = i"

definition baseline_scoped_family_object :: "analysis_state \<Rightarrow> oid \<Rightarrow> catalog_family \<Rightarrow> bool" where
  "baseline_scoped_family_object s i family \<longleftrightarrow>
     \<not> (baseline_schemas s = None \<or> \<not> baseline_covers_family_object s i family)
     \<and> (if \<not> baseline_boundary_queries_complete s then True
        else if family = FamRelations \<or> family = FamTypes \<or> family = FamRoutines \<or> family = FamIndexes
        then (\<exists>e \<in> scoped_external_dependencies s. exposes family i e)
        else True)"

section \<open>Search path\<close>

text \<open>
  Whether some relation or type overlay, dropped ones included, lives in the temporary schema.
\<close>

definition temp_key_exists :: "analysis_state \<Rightarrow> bool" where
  "temp_key_exists s \<longleftrightarrow>
     (\<exists>i \<in> dom (l_relations (local s)). is_session_temp_schema (schema_of i))
     \<or> (\<exists>i \<in> dom (l_types (local s)). is_session_temp_schema (schema_of i))"

definition temp_namespace_exists :: "analysis_state \<Rightarrow> bool" where
  "temp_namespace_exists s \<longleftrightarrow> l_saw_temp_object (local s) \<and> temp_key_exists s"

definition schema_did_not_exist_at_sync :: "analysis_state \<Rightarrow> string \<Rightarrow> bool" where
  "schema_did_not_exist_at_sync s n =
     (case l_source_existing_schemas (local s) of None \<Rightarrow> False | Some schemas \<Rightarrow> n \<notin> schemas)"

definition path_entry :: "analysis_state \<Rightarrow> string \<Rightarrow> search_path_entry option" where
  "path_entry s schema =
     (if is_session_temp_schema schema
      then (if \<not> temp_namespace_exists s then None else Some (Schema schema))
      else if schema = system_catalog_schema then Some (Schema schema)
      else if schema_is_present s schema then Some (Schema schema)
      else if schema_absence_is_authoritative s schema \<or> schema_did_not_exist_at_sync s schema then None
      else Some (Namespace.Unresolved (Some schema)))"

definition push_new :: "'a \<Rightarrow> 'a list \<Rightarrow> 'a list" where
  "push_new x xs = (if List.member xs x then xs else xs @ [x])"

definition push_path_entry :: "analysis_state \<Rightarrow> string \<Rightarrow> search_path_entry list \<Rightarrow> search_path_entry list" where
  "push_path_entry s schema effective =
     (case path_entry s schema of None \<Rightarrow> effective | Some e \<Rightarrow> push_new e effective)"

definition push_template_entry :: "analysis_state \<Rightarrow> string \<Rightarrow> search_path_entry list \<Rightarrow> search_path_entry list" where
  "push_template_entry s entry effective =
     (if entry = ''$user''
      then (if rc_current_role_known (role_context_of s)
            then push_path_entry s (rc_current_role (role_context_of s)) effective
            else push_new (Namespace.Unresolved None) effective)
      else push_path_entry s entry effective)"

definition effective_path :: "analysis_state \<Rightarrow> search_path_entry list" where
  "effective_path s = fold (push_template_entry s) (l_search_path_template (local s)) []"

definition refresh_role_sensitive_search_path :: "analysis_state \<Rightarrow> analysis_state" where
  "refresh_role_sensitive_search_path s = s\<lparr>local := (local s)\<lparr>l_search_path := effective_path s\<rparr>\<rparr>"

definition note_temp_object_created :: "analysis_state \<Rightarrow> analysis_state" where
  "note_temp_object_created s =
     refresh_role_sensitive_search_path (s\<lparr>local := (local s)\<lparr>l_saw_temp_object := True\<rparr>\<rparr>)"

fun path_shadows_from :: "bool \<Rightarrow> string \<Rightarrow> search_path_entry list \<Rightarrow> bool" where
  "path_shadows_from shadow schema [] = shadow"
| "path_shadows_from shadow schema (Schema n # es) =
     (if n = schema then shadow else path_shadows_from shadow schema es)"
| "path_shadows_from shadow schema (Namespace.Unresolved _ # es) = path_shadows_from True schema es"

definition path_shadows :: "analysis_state \<Rightarrow> string \<Rightarrow> bool" where
  "path_shadows s schema = path_shadows_from False schema (l_search_path (local s))"

definition relation_search_path :: "analysis_state \<Rightarrow> search_path_entry list" where
  "relation_search_path s =
     (if \<not> temp_namespace_exists s
         \<or> list_ex (\<lambda>e. searched_schema e = Some session_temp_schema) (l_search_path (local s))
      then l_search_path (local s)
      else Schema session_temp_schema # l_search_path (local s))"

definition routine_search_path :: "analysis_state \<Rightarrow> search_path_entry list" where
  "routine_search_path s = filter (\<lambda>e. entry_name e \<noteq> Some session_temp_schema) (l_search_path (local s))"

definition creation_schema :: "analysis_state \<Rightarrow> string option" where
  "creation_schema s =
     (case List.find (\<lambda>e. searched_schema e \<noteq> None \<and> searched_schema e \<noteq> Some system_catalog_schema)
             (l_search_path (local s)) of
        None \<Rightarrow> None
      | Some e \<Rightarrow> searched_schema e)"

section \<open>Lookups\<close>

text \<open>An object identifier as written: its identity and whether its schema was inferred.\<close>

definition lookup_shadowed :: "analysis_state \<Rightarrow> object_id \<Rightarrow> bool" where
  "lookup_shadowed s i \<longleftrightarrow> inferred_schema i \<and> path_shadows s (oid_schema i)"

definition index_is_present :: "analysis_state \<Rightarrow> oid \<Rightarrow> bool" where
  "index_is_present s i = list_ex (\<lambda>e. dependent e = i \<and> is_index_kind (edge_kind e)) (edges (graph_of s))"

definition relation_lookup :: "analysis_state \<Rightarrow> object_id \<Rightarrow> (relation_kind \<Rightarrow> bool) \<Rightarrow> object_lookup" where
  "relation_lookup s i expected =
     (if lookup_shadowed s i then LookupUnknown
      else case l_relations (local s) (oid i) of
          Some (Present r) \<Rightarrow> if expected (r_kind r) then LookupPresent else WrongKind
        | Some Dropped \<Rightarrow> Tombstone
        | None \<Rightarrow>
            if sequence_is_present s (oid i) \<or> index_is_present s (oid i) then WrongKind
            else if baseline_covers_family_object s (oid i) FamRelations then AuthoritativelyAbsent
            else LookupUnknown)"

definition type_lookup :: "analysis_state \<Rightarrow> object_id \<Rightarrow> (type_kind \<Rightarrow> bool) \<Rightarrow> object_lookup" where
  "type_lookup s i expected =
     (if lookup_shadowed s i then LookupUnknown
      else case l_types (local s) (oid i) of
          Some (Present t) \<Rightarrow> if expected (typ_kind t) then LookupPresent else WrongKind
        | Some Dropped \<Rightarrow> Tombstone
        | None \<Rightarrow>
            if baseline_covers_family_object s (oid i) FamTypes then AuthoritativelyAbsent
            else LookupUnknown)"

type_synonym 'a fallible = "(mutation_result + 'a) \<times> analysis_state"

definition ensure_relation_target ::
  "object_id \<Rightarrow> (relation_kind \<Rightarrow> bool) \<Rightarrow> string \<Rightarrow> string \<Rightarrow> analysis_state \<Rightarrow> unit fallible" where
  "ensure_relation_target i expected missing_reason wrong_kind_reason s =
     (case relation_lookup s i expected of
        LookupPresent \<Rightarrow> (Inr (), s)
      | WrongKind \<Rightarrow> (Inl (conflict wrong_kind_reason), s)
      | AuthoritativelyAbsent \<Rightarrow> (Inl (conflict missing_reason), s)
      | Tombstone \<Rightarrow> (Inl (conflict missing_reason), s)
      | LookupUnknown \<Rightarrow> (case unresolved UnknownObjectState s of (r, s') \<Rightarrow> (Inl r, s')))"

definition ensure_routine_target ::
  "object_id \<Rightarrow> routine_kind \<Rightarrow> string \<Rightarrow> string \<Rightarrow> analysis_state \<Rightarrow> unit fallible" where
  "ensure_routine_target i expected missing_reason wrong_kind_reason s =
     (if lookup_shadowed s i
      then (case unresolved UnknownObjectState s of (r, s') \<Rightarrow> (Inl r, s'))
      else case l_functions (local s) (oid i) of
          Some (Present f) \<Rightarrow>
            if fun_routine_kind f = expected then (Inr (), s) else (Inl (conflict wrong_kind_reason), s)
        | Some Dropped \<Rightarrow> (Inl (conflict missing_reason), s)
        | None \<Rightarrow>
            if baseline_covers_family_object s (oid i) FamRoutines then (Inl (conflict missing_reason), s)
            else (case unresolved UnknownObjectState s of (r, s') \<Rightarrow> (Inl r, s')))"

text \<open>
  A schema never looks up as an object of another kind (\<open>schema_lookup_kind\<close>), so the branch
  that the source marks unreachable is.
\<close>

definition ensure_schema_target :: "string \<Rightarrow> analysis_state \<Rightarrow> unit fallible" where
  "ensure_schema_target schema s =
     (if is_session_temp_schema schema then (Inr (), s)
      else case schema_lookup s schema of
          LookupPresent \<Rightarrow> (Inr (), s)
        | LookupUnknown \<Rightarrow> (case unresolved UnknownObjectState s of (r, s') \<Rightarrow> (Inl r, s'))
        | _ \<Rightarrow>
            (Inl (conflict (if schema = '''' then ''no schema has been selected to create in''
               else ''schema '' @ [CHR 0x27] @ schema @ [CHR 0x27] @ '' does not exist'')), s))"

definition ensure_creation_target :: "object_id \<Rightarrow> analysis_state \<Rightarrow> unit fallible" where
  "ensure_creation_target i s =
     (if is_session_temp_schema (oid_schema i) then (Inr (), s)
      else if lookup_shadowed s i
      then (case unresolved UnknownObjectState s of (r, s') \<Rightarrow> (Inl r, s'))
      else ensure_schema_target (oid_schema i) s)"

lemma schema_lookup_kind: "schema_lookup s schema \<noteq> WrongKind"
  by (simp add: schema_lookup_def split: option.splits overlay.splits)

end
