(* ===== verification/Undo_Log.thy ===== *)
theory Undo_Log
  imports Analysis_State
begin

text \<open>
  Why a rollback restores the state. A journal is a stack of logs whose entries undo changes; the
  locale states what an entry must satisfy and proves, once, that opening, extending, merging and
  cutting frames keep every frame leading back to the state at which it was opened. The analyzer's
  undo log is an interpretation. A step of the analyzer is \<open>logged\<close> when it appends to the top frame
  a log that undoes it; the rules below cover each kind of entry, compose sequentially, and carry
  the proofs of the operations in the later theories.
\<close>


section \<open>Journals\<close>

text \<open>
  \<open>marked undo core ls ms s\<close>: the logs \<open>ls\<close> of the open frames, outermost first, lead from the
  current state back to the marks \<open>ms\<close>, the cores at which the frames were opened.
\<close>

definition marked :: "('c \<Rightarrow> 's \<Rightarrow> 's) \<Rightarrow> ('s \<Rightarrow> 'k) \<Rightarrow> 'c list list \<Rightarrow> 'k list \<Rightarrow> 's \<Rightarrow> bool" where
  "marked undo core ls ms s \<longleftrightarrow>
     length ms = length ls
     \<and> (\<forall>i < length ls. core (foldr undo (concat (drop i ls)) s) = ms ! i)"

lemma drop_split: "i \<le> p \<Longrightarrow> p \<le> length ls \<Longrightarrow> drop i ls = drop i (take p ls) @ drop p ls"
  using drop_append [of i "take p ls" "drop p ls"] by (simp add: min_def)

lemma concat_drop_log:
  "ls \<noteq> [] \<Longrightarrow> i < length ls \<Longrightarrow> concat (drop i (butlast ls @ [last ls @ d])) = concat (drop i ls) @ d"
  by (cases ls rule: rev_cases) simp_all

lemma concat_drop_merge:
  assumes "i \<le> q" "q < length ls"
  shows "concat (drop i (take q ls @ [ls ! q @ concat (drop (Suc q) ls)])) = concat (drop i ls)"
proof -
  have "drop i ls = drop i (take q ls) @ ls ! q # drop (Suc q) ls"
    using assms drop_split [of i q ls] Cons_nth_drop_Suc [of q ls] by (metis order_less_imp_le)
  then show ?thesis using assms by simp
qed

text \<open>
  The contract of an undo log: undoing an entry depends only on, and determines, the core of the
  state.
\<close>

locale undo_journal =
  fixes undo :: "'c \<Rightarrow> 's \<Rightarrow> 's"
    and core :: "'s \<Rightarrow> 'k"
  assumes undo_cong: "core s = core t \<Longrightarrow> core (undo c s) = core (undo c t)"
begin

lemma unwind_cong: "core s = core t \<Longrightarrow> core (foldr undo cs s) = core (foldr undo cs t)"
  by (induction cs) (auto intro: undo_cong)

lemma unwind_trans:
  assumes "core (foldr undo d t) = core s" "core (foldr undo e u) = core t"
  shows "core (foldr undo (d @ e) u) = core s"
  using assms unwind_cong [of "foldr undo e u" t d] by simp

lemma marked_open: "marked undo core ls ms s \<Longrightarrow> marked undo core (ls @ [[]]) (ms @ [core s]) s"
  by (auto simp: marked_def nth_append less_Suc_eq)

lemma marked_log:
  assumes "marked undo core ls ms s" "ls \<noteq> []" "core (foldr undo d t) = core s"
  shows "marked undo core (butlast ls @ [last ls @ d]) ms t"
proof -
  have "core (foldr undo (concat (drop i (butlast ls @ [last ls @ d]))) t) = ms ! i"
    if "i < length ls" for i
    unfolding concat_drop_log [OF assms(2) that] foldr_append comp_apply
    using assms(1) that unwind_cong [OF assms(3), of "concat (drop i ls)"] by (simp add: marked_def)
  then show ?thesis using assms(1,2) by (simp add: marked_def)
qed

lemma marked_merge:
  assumes "marked undo core ls ms s" "0 < p" "p < length ls"
  shows "marked undo core (take (p - 1) ls @ [ls ! (p - 1) @ concat (drop p ls)]) (take p ms) s"
proof -
  from assms(2) obtain q where p: "p = Suc q" by (cases p) auto
  have "concat (drop i (take q ls @ [ls ! q @ concat (drop (Suc q) ls)])) = concat (drop i ls)"
    if "i < p" for i
    using that assms(3) concat_drop_merge [of i q ls] by (simp only: p less_Suc_eq_le Suc_le_lessD order_less_imp_le)
  then show ?thesis using assms by (simp add: marked_def p)
qed

lemma marked_cut:
  assumes "marked undo core ls ms s" "p < length ls"
    and "core t = core (foldr undo (concat (drop p ls)) s)"
  shows "marked undo core (take p ls @ [[]]) (take (Suc p) ms) t" "core t = ms ! p"
proof -
  show "core t = ms ! p" using assms by (simp add: marked_def)
  have "core (foldr undo (concat (drop i (take p ls @ [[]]))) t) = ms ! i" if "i \<le> p" for i
  proof -
    have split: "drop i ls = drop i (take p ls) @ drop p ls"
      using that assms(2) drop_split [of i p ls] by (simp only: order_less_imp_le)
    have "core (foldr undo (concat (drop i (take p ls))) t) = core (foldr undo (concat (drop i ls)) s)"
      using unwind_cong [OF assms(3), of "concat (drop i (take p ls))"]
      unfolding split concat_append foldr_append comp_apply .
    then show ?thesis using assms(1,2) that by (simp add: marked_def)
  qed
  then show "marked undo core (take p ls @ [[]]) (take (Suc p) ms) t"
    using assms(1,2) by (simp add: marked_def min_def less_Suc_eq_le)
qed

end

section \<open>The journal of the analyzer\<close>

text \<open>
  What a rollback is expected to restore: everything but the transaction stack itself, the
  aborted flag, the source location that evidence is stamped with, and the lookup indexes of the
  graph, which are derived.
\<close>

definition core :: "analysis_state \<Rightarrow> analysis_state" where
  "core s = s\<lparr>local := (local s)\<lparr>l_transactions := [], l_transaction_aborted := False,
     l_current_evidence_location := None, l_graph := graph_clone (graph_of s)\<rparr>\<rparr>"

lemma graph_clone_simps [simp]:
  "graph_clone (graph_clone g) = graph_clone g"
  "graph_clone (replace_edges es (graph_clone g)) = graph_clone (replace_edges es g)"
  "graph_clone (truncate_edges n (graph_clone g)) = graph_clone (truncate_edges n g)"
  by (simp_all add: graph_clone_def graph_simps)

lemma graph_clone_eq_iff: "graph_clone g = graph_clone h \<longleftrightarrow> edges g = edges h"
  by (auto simp: graph_clone_def)

lemma undo_change_core: "core (undo_change c (core s)) = core (undo_change c s)"
  by (cases c) (simp_all add: core_def restore_namespace_def)

lemma undo_change_cong: "core s = core t \<Longrightarrow> core (undo_change c s) = core (undo_change c t)"
  using undo_change_core [of c s] undo_change_core [of c t] by simp

interpretation state_journal: undo_journal undo_change core
  by unfold_locales (rule undo_change_cong)

lemma undo_change_frame [frame_simps]:
  "transactions (undo_change c s) = transactions s"
  "l_transaction_aborted (local (undo_change c s)) = l_transaction_aborted (local s)"
  by (cases c; simp add: restore_namespace_def)+

lemma rollback_undo_log_frame [frame_simps]:
  "transactions (rollback_undo_log cs s) = transactions s"
  "l_transaction_aborted (local (rollback_undo_log cs s)) = l_transaction_aborted (local s)"
  by (induction cs) (simp_all add: rollback_undo_log_def frame_simps)

lemma rollback_undo_log_simps [undo_simps]:
  "rollback_undo_log [] s = s"
  "rollback_undo_log (c # cs) s = undo_change c (rollback_undo_log cs s)"
  "rollback_undo_log (cs @ ds) s = rollback_undo_log cs (rollback_undo_log ds s)"
  by (simp_all add: rollback_undo_log_def)

lemma log_on_top_append [undo_simps]: "log_on_top d (log_on_top c ts) = log_on_top (c @ d) ts"
  by (simp add: log_on_top_def)

lemma log_on_top_Nil [undo_simps]: "log_on_top [] ts = ts"
  by (simp add: log_on_top_def)

lemma log_on_top_eq_Nil [simp]: "log_on_top d ts = [] \<longleftrightarrow> ts = []"
  by (simp add: log_on_top_def)

lemma length_log_on_top [simp]: "length (log_on_top d ts) = length ts"
  by (simp add: log_on_top_def)

section \<open>Logged steps\<close>

text \<open>
  A step is logged when it records in the top frame a log that leads back to where it started,
  opens or closes no frame, leaves the aborted flag alone, and keeps the graph canonical.
\<close>

definition logged :: "analysis_state \<Rightarrow> analysis_state \<Rightarrow> bool" where
  "logged s t \<longleftrightarrow>
     (graph_wf (graph_of s) \<longrightarrow>
        graph_wf (graph_of t)
        \<and> l_transaction_aborted (local t) = l_transaction_aborted (local s)
        \<and> (\<exists>d. transactions t = log_on_top d (transactions s) \<and> core (rollback_undo_log d t) = core s))"

lemma loggedI:
  assumes "graph_wf (graph_of s) \<Longrightarrow> graph_wf (graph_of t)"
    and "l_transaction_aborted (local t) = l_transaction_aborted (local s)"
    and "transactions t = log_on_top d (transactions s)"
    and "graph_wf (graph_of s) \<Longrightarrow> core (rollback_undo_log d t) = core s"
  shows "logged s t"
  using assms by (auto simp: logged_def)

lemma logged_refl [simp]: "logged s s"
  by (rule loggedI [where d = "[]"]) (simp_all add: undo_simps)

lemma logged_trans [trans]:
  assumes "logged s t" "logged t u"
  shows "logged s u"
proof (cases "graph_wf (graph_of s)")
  case True
  from assms(1) True obtain d where t: "graph_wf (graph_of t)"
      "l_transaction_aborted (local t) = l_transaction_aborted (local s)"
      "transactions t = log_on_top d (transactions s)" "core (rollback_undo_log d t) = core s"
    by (auto simp: logged_def)
  from assms(2) t(1) obtain e where u: "graph_wf (graph_of u)"
      "l_transaction_aborted (local u) = l_transaction_aborted (local t)"
      "transactions u = log_on_top e (transactions t)" "core (rollback_undo_log e u) = core t"
    by (auto simp: logged_def)
  have "core (rollback_undo_log (d @ e) u) = core s"
    using state_journal.unwind_trans t(4) u(4) unfolding rollback_undo_log_def by blast
  with t u show ?thesis by (auto simp: logged_def undo_simps)
qed (simp add: logged_def)

lemma set_evidence_location_logged: "logged s (set_evidence_location loc s)"
  by (rule loggedI [where d = "[]"])
    (simp_all add: set_evidence_location_def log_on_top_def core_def rollback_undo_log_def)

lemma logged_fold:
  "(\<And>x u. x \<in> set xs \<Longrightarrow> logged u (f x u)) \<Longrightarrow> logged s (fold f xs s)"
proof (induction xs arbitrary: s)
  case (Cons x xs)
  then have "logged s (f x s)" "logged (f x s) (fold f xs (f x s))" by auto
  then show ?case using logged_trans by auto
qed simp

lemma logged_keeps_wf: "logged s t \<Longrightarrow> graph_wf (graph_of s) \<Longrightarrow> graph_wf (graph_of t)"
  by (simp add: logged_def)

lemma logged_keeps_depth:
  "logged s t \<Longrightarrow> graph_wf (graph_of s) \<Longrightarrow> length (transactions t) = length (transactions s)"
  by (auto simp: logged_def)

lemma log_change_frame [simp]:
  "local (log_change ch s) = (local s)\<lparr>l_transactions := log_on_top [ch s] (transactions s)\<rparr>"
  "core (log_change ch s) = core s"
  by (simp_all add: log_change_def core_def)

text \<open>The commonest step: save one thing, then change it.\<close>

lemma logged_change:
  assumes "graph_wf (graph_of s) \<Longrightarrow> graph_wf (graph_of t)"
    and "l_transaction_aborted (local t) = l_transaction_aborted (local s)"
    and "transactions t = log_on_top [ch s] (transactions s)"
    and "graph_wf (graph_of s) \<Longrightarrow> core (undo_change (ch s) t) = core s"
  shows "logged s t"
  using assms by (intro loggedI [where d = "[ch s]"]) (simp_all add: undo_simps)

definition upd_local :: "(local_state \<Rightarrow> local_state) \<Rightarrow> analysis_state \<Rightarrow> analysis_state" where
  "upd_local f s = s\<lparr>local := f (local s)\<rparr>"

definition on_graph :: "(dependency_graph \<Rightarrow> dependency_graph) \<Rightarrow> analysis_state \<Rightarrow> analysis_state" where
  "on_graph F s = s\<lparr>local := (local s)\<lparr>l_graph := F (graph_of s)\<rparr>\<rparr>"

lemmas snapshot_defs =
  snapshot_relation_def snapshot_schema_def snapshot_namespace_def snapshot_type_def
  snapshot_sequence_def snapshot_extension_def snapshot_function_def snapshot_publication_def
  snapshot_subscription_def snapshot_role_def snapshot_role_membership_grantors_def
  snapshot_trigger_def snapshot_constraint_def snapshot_role_context_def snapshot_search_path_def
  snapshot_timeout_settings_def snapshot_generation_counter_def snapshot_pending_validation_def
  snapshot_confidence_def snapshot_evidence_def snapshot_baseline_foreign_keys_def
  snapshot_graph_def snapshot_graph_full_def

text \<open>One rule per kind of entry: what may follow the snapshot.\<close>

lemma logged_relation:
  "logged s (upd_local (\<lambda>l. l\<lparr>l_relations := (l_relations l)(i := v)\<rparr>) (snapshot_relation i s))"
  by (rule logged_change [where ch = "\<lambda>s. RelationSnapshot i (l_relations (local s) i)"])
    (simp_all add: upd_local_def snapshot_defs core_def log_change_def)

lemma logged_sequence:
  "logged s (upd_local (\<lambda>l. l\<lparr>l_sequences := (l_sequences l)(i := v)\<rparr>) (snapshot_sequence i s))"
  by (rule logged_change [where ch = "\<lambda>s. SequenceSnapshot i (l_sequences (local s) i)"])
    (simp_all add: upd_local_def snapshot_defs core_def log_change_def)

lemma logged_trigger:
  "logged s (upd_local (\<lambda>l. l\<lparr>l_triggers := (l_triggers l)(i := v)\<rparr>) (snapshot_trigger i s))"
  by (rule logged_change [where ch = "\<lambda>s. TriggerSnapshot i (l_triggers (local s) i)"])
    (simp_all add: upd_local_def snapshot_defs core_def log_change_def)

lemma logged_publication:
  "logged s (upd_local (\<lambda>l. l\<lparr>l_publications := (l_publications l)(n := v)\<rparr>) (snapshot_publication n s))"
  by (rule logged_change [where ch = "\<lambda>s. PublicationSnapshot (Oid [] n) (l_publications (local s) n)"])
    (simp_all add: upd_local_def snapshot_defs core_def log_change_def)

lemma logged_constraint:
  "logged s (upd_local (\<lambda>l. l\<lparr>l_constraints := (l_constraints l)((i, n) := v)\<rparr>) (snapshot_constraint i n s))"
  by (rule logged_change [where ch = "\<lambda>s. ConstraintSnapshot i n (l_constraints (local s) (i, n))"])
    (simp_all add: upd_local_def snapshot_defs core_def log_change_def)

lemma logged_role:
  "logged s (upd_local (\<lambda>l. l\<lparr>l_roles := (l_roles l)(i := v)\<rparr>) (snapshot_role i s))"
  by (rule logged_change [where ch = "\<lambda>s. RoleSnapshot i (l_roles (local s) i)"])
    (simp_all add: upd_local_def snapshot_defs core_def log_change_def)

lemma logged_pending_validation:
  "logged s (upd_local (\<lambda>l. l\<lparr>l_pending_validation := v\<rparr>) (snapshot_pending_validation s))"
  by (rule logged_change [where ch = "\<lambda>s. PendingValidationSnapshot (l_pending_validation (local s))"])
    (simp_all add: upd_local_def snapshot_defs core_def log_change_def)

lemma logged_baseline_foreign_keys:
  "logged s ((snapshot_baseline_foreign_keys s)\<lparr>baseline_foreign_keys := v\<rparr>)"
  by (rule logged_change [where ch = "\<lambda>s. BaselineForeignKeysSnapshot (baseline_foreign_keys s)"])
    (simp_all add: snapshot_defs core_def log_change_def)

lemma logged_timeouts:
  "logged s (upd_local (\<lambda>l. l\<lparr>l_lock_timeout := v, l_statement_timeout := w\<rparr>) (snapshot_timeout_settings s))"
  by (rule logged_change [where ch = "\<lambda>s. TimeoutSettingsSnapshot (l_lock_timeout (local s)) (l_statement_timeout (local s))"])
    (simp_all add: upd_local_def snapshot_defs core_def log_change_def)

lemma logged_confidence:
  "logged s (upd_local (\<lambda>l. l\<lparr>l_confidence := v\<rparr>) (snapshot_confidence s))"
  by (rule logged_change [where ch = "\<lambda>s. ConfidenceSnapshot (l_confidence (local s))"])
    (simp_all add: upd_local_def snapshot_defs core_def log_change_def)

lemma logged_graph_full:
  assumes "\<And>g. graph_wf g \<Longrightarrow> graph_wf (F g)"
  shows "logged s (on_graph F (snapshot_graph_full s))"
  using assms
  by (intro logged_change [where ch = "\<lambda>s. GraphSnapshot (edges (graph_of s))"])
    (simp_all add: on_graph_def snapshot_defs core_def log_change_def graph_clone_eq_iff
      graph_store.replace_restores)

lemma logged_graph_add: "logged s (on_graph (fold add_edge es) (snapshot_graph s))"
proof (rule logged_change [where ch = "\<lambda>s. GraphLengthMarker (edge_count (graph_of s))"])
  assume wf: "graph_wf (graph_of s)"
  note adds = graph_store.cut_undoes_adds [OF wf, of es]
  then show "graph_wf (graph_of (on_graph (fold add_edge es) (snapshot_graph s)))"
    by (simp add: on_graph_def snapshot_defs log_change_def)
  show "core (undo_change (GraphLengthMarker (edge_count (graph_of s)))
      (on_graph (fold add_edge es) (snapshot_graph s))) = core s"
    using adds by (simp add: on_graph_def snapshot_defs log_change_def core_def graph_clone_eq_iff edge_count_def)
qed (simp_all add: on_graph_def snapshot_defs log_change_def)

section \<open>Evidence is logged\<close>

lemma record_evidence_logged: "logged s (record_evidence r s)"
  by (rule loggedI [where d = "if log_contains (l_evidence (local s)) (located (l_current_evidence_location (local s)) r)
      then [] else EvidenceSnapshot (l_evidence (local s)) #
        (if l_confidence (local s) = Tainted then [] else [ConfidenceSnapshot (l_confidence (local s))])"])
    (auto simp: record_evidence_def mark_tainted_def snapshot_defs Let_def core_def undo_simps log_change_def)

lemma taint_logged: "logged s (taint code scope s)"
  by (simp add: taint_def record_evidence_logged)

lemma unresolved_logged: "logged s (snd (unresolved code s))"
  by (simp add: unresolved_def taint_logged)

lemmas logged_intros =
  taint_logged unresolved_logged record_evidence_logged logged_relation logged_sequence logged_trigger
  logged_publication logged_constraint logged_role logged_pending_validation
  logged_baseline_foreign_keys logged_timeouts logged_confidence

end
