(* ===== verification/Handlers.thy ===== *)
theory Handlers
  imports Undo_Log
begin

text \<open>
  A small library for handlers with early returns. A \<open>step\<close> reads and changes the state and either
  goes on with a value or returns the result of the handler at once; \<open>None\<close> stands for a search
  that does not end. A handler built from the combinators is logged as soon as its updates are, and
  ends as soon as its searches do.
\<close>

section \<open>Combinators\<close>

type_synonym 'a step = "analysis_state \<Rightarrow> ((mutation_result + 'a) \<times> analysis_state) option"

definition ret :: "'a \<Rightarrow> 'a step" where
  "ret x s = Some (Inr x, s)"

definition return_with :: "mutation_result \<Rightarrow> 'a step" where
  "return_with r s = Some (Inl r, s)"

definition modify :: "(analysis_state \<Rightarrow> analysis_state) \<Rightarrow> unit step" where
  "modify f s = Some (Inr (), f s)"

definition asks :: "(analysis_state \<Rightarrow> 'a) \<Rightarrow> 'a step" where
  "asks f s = Some (Inr (f s), s)"

definition query :: "(analysis_state \<Rightarrow> 'a option) \<Rightarrow> 'a step" where
  "query f s = map_option (\<lambda>x. (Inr x, s)) (f s)"

definition ensure :: "(analysis_state \<Rightarrow> (mutation_result + 'a) \<times> analysis_state) \<Rightarrow> 'a step" where
  "ensure f s = Some (f s)"

definition give_up :: "evidence_code \<Rightarrow> 'a step" where
  "give_up code s = (case unresolved code s of (r, t) \<Rightarrow> Some (Inl r, t))"

definition andthen :: "'a step \<Rightarrow> ('a \<Rightarrow> 'b step) \<Rightarrow> 'b step" where
  "andthen m f s =
     (case m s of
        None \<Rightarrow> None
      | Some (Inl r, t) \<Rightarrow> Some (Inl r, t)
      | Some (Inr x, t) \<Rightarrow> f x t)"

fun for_each :: "('a \<Rightarrow> unit step) \<Rightarrow> 'a list \<Rightarrow> unit step" where
  "for_each f [] = ret ()"
| "for_each f (x # xs) = andthen (f x) (\<lambda>_. for_each f xs)"

fun collect_each :: "('a \<Rightarrow> 'b step) \<Rightarrow> 'a list \<Rightarrow> 'b list step" where
  "collect_each f [] = ret []"
| "collect_each f (x # xs) = andthen (f x) (\<lambda>y. andthen (collect_each f xs) (\<lambda>ys. ret (y # ys)))"

definition finish :: "unit step \<Rightarrow> analysis_state \<Rightarrow> (mutation_result \<times> analysis_state) option" where
  "finish m s =
     (case m s of
        None \<Rightarrow> None
      | Some (Inl r, t) \<Rightarrow> Some (r, t)
      | Some (Inr _, t) \<Rightarrow> Some (Applied, t))"

lemma andthen_Inr:
  "andthen m f s = Some (Inr y, t) \<longleftrightarrow> (\<exists>x u. m s = Some (Inr x, u) \<and> f x u = Some (Inr y, t))"
  by (auto simp: andthen_def split: option.splits sum.splits)

section \<open>What a step guarantees\<close>

definition holds :: "(analysis_state \<Rightarrow> analysis_state \<Rightarrow> bool) \<Rightarrow> 'a step \<Rightarrow> bool" where
  "holds R m \<longleftrightarrow> (\<forall>s r t. m s = Some (r, t) \<longrightarrow> R s t)"

named_theorems holds_intros

text \<open>A reflexive and transitive guarantee of the parts is one of the whole.\<close>

locale step_contract =
  fixes R :: "analysis_state \<Rightarrow> analysis_state \<Rightarrow> bool"
  assumes contract_refl: "R s s"
    and contract_trans: "R s t \<Longrightarrow> R t u \<Longrightarrow> R s u"
begin

lemma holds_ret [holds_intros]: "holds R (ret x)"
  by (simp add: holds_def ret_def contract_refl)

lemma holds_return_with [holds_intros]: "holds R (return_with r)"
  by (simp add: holds_def return_with_def contract_refl)

lemma holds_modify: "(\<And>s. R s (f s)) \<Longrightarrow> holds R (modify f)"
  by (simp add: holds_def modify_def)

lemma holds_asks [holds_intros]: "holds R (asks f)"
  by (simp add: holds_def asks_def contract_refl)

lemma holds_query [holds_intros]: "holds R (query f)"
  by (auto simp: holds_def query_def contract_refl)

lemma holds_ensure: "(\<And>s. R s (snd (f s))) \<Longrightarrow> holds R (ensure f)"
  unfolding holds_def ensure_def by (metis option.inject snd_conv)

lemma holds_andthen [holds_intros]:
  assumes "holds R m" "\<And>x. holds R (f x)"
  shows "holds R (andthen m f)"
  unfolding holds_def
proof (intro allI impI)
  fix s r t assume run: "andthen m f s = Some (r, t)"
  then obtain q u where q: "m s = Some (q, u)" by (auto simp: andthen_def split: option.splits)
  then have su: "R s u" using assms(1) by (auto simp: holds_def)
  show "R s t"
  proof (cases q)
    case (Inl r')
    then show ?thesis using run q su by (simp add: andthen_def)
  next
    case (Inr x)
    then have "f x u = Some (r, t)" using run q by (simp add: andthen_def)
    then have "R u t" using assms(2) by (auto simp: holds_def)
    with su show ?thesis by (rule contract_trans)
  qed
qed

lemma holds_for_each [holds_intros]: "(\<And>x. holds R (f x)) \<Longrightarrow> holds R (for_each f xs)"
  by (induction xs) (simp_all add: holds_ret holds_andthen)

lemma holds_collect_each [holds_intros]: "(\<And>x. holds R (f x)) \<Longrightarrow> holds R (collect_each f xs)"
  by (induction xs) (simp_all add: holds_ret holds_andthen)

lemma holds_finish: "holds R m \<Longrightarrow> finish m s = Some (r, t) \<Longrightarrow> R s t"
  by (auto simp: finish_def holds_def split: option.splits sum.splits)

lemma contract_fold: "(\<And>x u. R u (f x u)) \<Longrightarrow> R s (fold f xs s)"
  by (induction xs arbitrary: s) (auto intro: contract_refl contract_trans)

end

lemma holds_if [holds_intros]: "holds R m \<Longrightarrow> holds R n \<Longrightarrow> holds R (if b then m else n)"
  by simp

lemma holds_option [holds_intros]:
  "holds R m \<Longrightarrow> (\<And>x. holds R (f x)) \<Longrightarrow> holds R (case x of None \<Rightarrow> m | Some y \<Rightarrow> f y)"
  by (simp split: option.splits)

lemma holds_bool_option [holds_intros]:
  "holds R a \<Longrightarrow> holds R b \<Longrightarrow> holds R c \<Longrightarrow> holds R (case x of None \<Rightarrow> a | Some True \<Rightarrow> b | Some False \<Rightarrow> c)"
  by (simp split: option.splits bool.splits)

lemma holds_overlay [holds_intros]:
  "(\<And>r. holds R (f r)) \<Longrightarrow> holds R n \<Longrightarrow> holds R (case entry of Present r \<Rightarrow> f r | Dropped \<Rightarrow> n)"
  by (simp split: overlay.splits)

lemma holds_prod: "(\<And>a b. holds R (f a b)) \<Longrightarrow> holds R (case x of (a, b) \<Rightarrow> f a b)"
  by (simp split: prod.splits)

lemma holds_sum:
  "(\<And>a. holds R (f a)) \<Longrightarrow> (\<And>b. holds R (g b)) \<Longrightarrow> holds R (case x of Inl a \<Rightarrow> f a | Inr b \<Rightarrow> g b)"
  by (simp split: sum.splits)

lemma holds_lookup [holds_intros]:
  "holds R a \<Longrightarrow> holds R b \<Longrightarrow> holds R c \<Longrightarrow> holds R d \<Longrightarrow> holds R e \<Longrightarrow>
   holds R (case x of LookupPresent \<Rightarrow> a | WrongKind \<Rightarrow> b | AuthoritativelyAbsent \<Rightarrow> c | Tombstone \<Rightarrow> d | LookupUnknown \<Rightarrow> e)"
  by (cases x) simp_all

text \<open>A guarantee that evidence does not disturb holds of the steps that only look and record.\<close>

locale evidence_contract = step_contract +
  assumes contract_taint: "R s (taint code scope s)"
begin

lemma holds_taint [holds_intros]: "holds R (modify (taint code scope))"
  by (rule holds_modify) (rule contract_taint)

lemma holds_give_up [holds_intros]: "holds R (give_up code)"
  using contract_taint by (auto simp: holds_def give_up_def unresolved_def)

lemma holds_ensure_relation [holds_intros]: "holds R (ensure (ensure_relation_target i P m w))"
  by (rule holds_ensure)
    (simp add: ensure_relation_target_def unresolved_def contract_refl contract_taint split: object_lookup.splits)

lemma holds_ensure_routine [holds_intros]: "holds R (ensure (ensure_routine_target i k m w))"
  by (rule holds_ensure)
    (simp add: ensure_routine_target_def unresolved_def contract_refl contract_taint split: option.splits overlay.splits)

lemma holds_ensure_schema [holds_intros]: "holds R (ensure (ensure_schema_target n))"
  by (rule holds_ensure)
    (simp add: ensure_schema_target_def unresolved_def contract_refl contract_taint split: object_lookup.splits)

lemma holds_ensure_creation [holds_intros]: "holds R (ensure (ensure_creation_target i))"
  by (rule holds_ensure)
    (simp add: ensure_creation_target_def ensure_schema_target_def unresolved_def contract_refl contract_taint
      split: object_lookup.splits)

end

interpretation logging: evidence_contract logged
  by unfold_locales (auto intro: logged_trans taint_logged)

lemma logged_modify [holds_intros]: "(\<And>s. logged s (f s)) \<Longrightarrow> holds logged (modify f)"
  by (rule logging.holds_modify)

text \<open>An invariant that evidence does not disturb.\<close>

definition preserving :: "(analysis_state \<Rightarrow> bool) \<Rightarrow> analysis_state \<Rightarrow> analysis_state \<Rightarrow> bool" where
  "preserving I s t \<longleftrightarrow> (I s \<longrightarrow> I t)"

section \<open>Steps that end\<close>

text \<open>A logged change touches finitely many roles, so a finite role catalogue stays finite.\<close>

abbreviation roles_finite :: "analysis_state \<Rightarrow> bool" where
  "roles_finite s \<equiv> finite (dom (l_roles (local s)))"

lemma finite_dom_upd: "finite (dom (m(k := v))) \<longleftrightarrow> finite (dom m)"
  by (auto simp: dom_fun_upd)

lemma undo_change_roles: "roles_finite (undo_change c s) \<longleftrightarrow> roles_finite s"
  by (cases c) (simp_all add: mrestore_def finite_dom_upd restore_namespace_def)

lemma unwind_roles: "roles_finite (foldr undo_change cs s) \<longleftrightarrow> roles_finite s"
  by (induction cs) (simp_all add: undo_change_roles)

lemma core_roles: "core s = core t \<Longrightarrow> l_roles (local s) = l_roles (local t)"
proof -
  assume "core s = core t"
  then have "l_roles (local (core s)) = l_roles (local (core t))" by simp
  then show ?thesis by (simp add: core_def)
qed

lemma logged_roles:
  assumes "logged s t" "graph_wf (graph_of s)"
  shows "roles_finite t \<longleftrightarrow> roles_finite s"
proof -
  obtain d where "core (foldr undo_change d t) = core s"
    using assms by (auto simp: logged_def rollback_undo_log_def)
  from core_roles [OF this] show ?thesis using unwind_roles [of d t] by simp
qed

definition terminates :: "'a step \<Rightarrow> bool" where
  "terminates m \<longleftrightarrow> (\<forall>s. graph_wf (graph_of s) \<and> roles_finite s \<longrightarrow> m s \<noteq> None)"

named_theorems terminates_intros

lemma terminates_basic [terminates_intros]:
  "terminates (ret x)" "terminates (return_with r)" "terminates (modify f)" "terminates (asks g)" "terminates (ensure e)" "terminates (give_up code)"
  by (simp_all add: terminates_def ret_def return_with_def modify_def asks_def ensure_def give_up_def split: prod.splits)

lemma terminates_query [terminates_intros]: "(\<And>s. roles_finite s \<Longrightarrow> f s \<noteq> None) \<Longrightarrow> terminates (query f)"
  by (simp add: terminates_def query_def)

lemma terminates_andthen [terminates_intros]:
  assumes "holds logged m" "terminates m" "\<And>x. terminates (f x)"
  shows "terminates (andthen m f)"
  unfolding terminates_def
proof (intro allI impI)
  fix s assume s: "graph_wf (graph_of s) \<and> roles_finite s"
  then obtain q u where q: "m s = Some (q, u)" using assms(2) by (fastforce simp: terminates_def)
  then have "logged s u" using assms(1) by (auto simp: holds_def)
  then have "graph_wf (graph_of u) \<and> roles_finite u" using s logged_keeps_wf logged_roles by blast
  then show "andthen m f s \<noteq> None" using q assms(3) by (cases q) (auto simp: andthen_def terminates_def)
qed

lemma terminates_for_each [terminates_intros]: "(\<And>x. holds logged (f x)) \<Longrightarrow> (\<And>x. terminates (f x)) \<Longrightarrow> terminates (for_each f xs)"
  by (induction xs) (simp_all add: terminates_intros holds_intros)

lemma terminates_collect_each [terminates_intros]: "(\<And>x. holds logged (f x)) \<Longrightarrow> (\<And>x. terminates (f x)) \<Longrightarrow> terminates (collect_each f xs)"
  by (induction xs) (simp_all add: terminates_intros holds_intros)

lemma terminates_if [terminates_intros]: "terminates m \<Longrightarrow> terminates n \<Longrightarrow> terminates (if b then m else n)"
  by simp

lemma terminates_option [terminates_intros]: "terminates m \<Longrightarrow> (\<And>x. terminates (f x)) \<Longrightarrow> terminates (case x of None \<Rightarrow> m | Some y \<Rightarrow> f y)"
  by (simp split: option.splits)

text \<open>A step without a search ends in every state.\<close>

definition total :: "'a step \<Rightarrow> bool" where
  "total m \<longleftrightarrow> (\<forall>s. m s \<noteq> None)"

named_theorems total_intros

lemma total_basic [total_intros]:
  "total (ret x)" "total (return_with r)" "total (modify f)" "total (asks g)" "total (ensure e)" "total (give_up code)"
  by (simp_all add: total_def ret_def return_with_def modify_def asks_def ensure_def give_up_def split: prod.splits)

lemma total_andthen [total_intros]: "total m \<Longrightarrow> (\<And>x. total (f x)) \<Longrightarrow> total (andthen m f)"
  by (auto simp: total_def andthen_def split: option.splits sum.splits)

lemma total_for_each [total_intros]: "(\<And>x. total (f x)) \<Longrightarrow> total (for_each f xs)"
  by (induction xs) (simp_all add: total_intros)

lemma total_collect_each [total_intros]: "(\<And>x. total (f x)) \<Longrightarrow> total (collect_each f xs)"
  by (induction xs) (simp_all add: total_intros)

lemma total_if [total_intros]: "total m \<Longrightarrow> total n \<Longrightarrow> total (if b then m else n)"
  by simp

lemma total_option [total_intros]: "total m \<Longrightarrow> (\<And>x. total (f x)) \<Longrightarrow> total (case x of None \<Rightarrow> m | Some y \<Rightarrow> f y)"
  by (simp split: option.splits)

lemma total_overlay [total_intros]: "(\<And>r. total (f r)) \<Longrightarrow> total n \<Longrightarrow> total (case x of Present r \<Rightarrow> f r | Dropped \<Rightarrow> n)"
  by (simp split: overlay.splits)

lemma total_prod [total_intros]: "(\<And>a b. total (f a b)) \<Longrightarrow> total (case x of (a, b) \<Rightarrow> f a b)"
  by (simp split: prod.splits)

lemma total_sum [total_intros]: "(\<And>a. total (f a)) \<Longrightarrow> (\<And>b. total (g b)) \<Longrightarrow> total (case x of Inl a \<Rightarrow> f a | Inr b \<Rightarrow> g b)"
  by (simp split: sum.splits)

lemma total_lookup [total_intros]:
  "total a \<Longrightarrow> total b \<Longrightarrow> total c \<Longrightarrow> total d \<Longrightarrow> total e \<Longrightarrow>
   total (case x of LookupPresent \<Rightarrow> a | WrongKind \<Rightarrow> b | AuthoritativelyAbsent \<Rightarrow> c | Tombstone \<Rightarrow> d | LookupUnknown \<Rightarrow> e)"
  by (cases x) simp_all

lemma total_terminates: "total m \<Longrightarrow> terminates m"
  by (simp add: total_def terminates_def)

lemma finish_terminates: "terminates m \<Longrightarrow> graph_wf (graph_of s) \<Longrightarrow> roles_finite s \<Longrightarrow> finish m s \<noteq> None"
  by (auto simp: terminates_def finish_def split: option.splits sum.splits prod.splits)

section \<open>Weakest preconditions\<close>

text \<open>
  What has to hold before a step so that \<open>Q\<close> holds of the value and state it goes on with and \<open>E\<close> of
  the state in which it returns early. The equations compute it from the combinators.
\<close>

definition wp :: "'a step \<Rightarrow> ('a \<Rightarrow> analysis_state \<Rightarrow> bool) \<Rightarrow> (analysis_state \<Rightarrow> bool) \<Rightarrow> analysis_state \<Rightarrow> bool" where
  "wp m Q E s \<longleftrightarrow>
     (case m s of None \<Rightarrow> True | Some (Inl _, t) \<Rightarrow> E t | Some (Inr x, t) \<Rightarrow> Q x t)"

named_theorems wp_simps

lemma wp_ret [wp_simps]: "wp (ret x) Q E s = Q x s"
  by (simp add: wp_def ret_def)

lemma wp_return_with [wp_simps]: "wp (return_with r) Q E s = E s"
  by (simp add: wp_def return_with_def)

lemma wp_modify [wp_simps]: "wp (modify f) Q E s = Q () (f s)"
  by (simp add: wp_def modify_def)

lemma wp_asks [wp_simps]: "wp (asks g) Q E s = Q (g s) s"
  by (simp add: wp_def asks_def)

lemma wp_give_up [wp_simps]: "wp (give_up code) Q E s = E (taint code ChainScope s)"
  by (simp add: wp_def give_up_def unresolved_def)

lemma wp_andthen [wp_simps]: "wp (andthen m f) Q E s = wp m (\<lambda>x. wp (f x) Q E) E s"
  by (auto simp: wp_def andthen_def split: option.splits sum.splits)

lemma wp_if [wp_simps]: "wp (if b then m else n) Q E s = (if b then wp m Q E s else wp n Q E s)"
  by simp

lemma wp_option [wp_simps]:
  "wp (case x of None \<Rightarrow> m | Some y \<Rightarrow> f y) Q E s = (case x of None \<Rightarrow> wp m Q E s | Some y \<Rightarrow> wp (f y) Q E s)"
  by (simp split: option.splits)

lemma wp_overlay [wp_simps]:
  "wp (case x of Present y \<Rightarrow> f y | Dropped \<Rightarrow> m) Q E s = (case x of Present y \<Rightarrow> wp (f y) Q E s | Dropped \<Rightarrow> wp m Q E s)"
  by (simp split: overlay.splits)

lemma wp_prod [wp_simps]: "wp (case x of (a, b) \<Rightarrow> f a b) Q E s = (case x of (a, b) \<Rightarrow> wp (f a b) Q E s)"
  by (simp split: prod.splits)

lemma wp_sum [wp_simps]:
  "wp (case x of Inl a \<Rightarrow> f a | Inr b \<Rightarrow> g b) Q E s = (case x of Inl a \<Rightarrow> wp (f a) Q E s | Inr b \<Rightarrow> wp (g b) Q E s)"
  by (simp split: sum.splits)

lemma wp_lookup [wp_simps]:
  "wp (case x of LookupPresent \<Rightarrow> a | WrongKind \<Rightarrow> b | AuthoritativelyAbsent \<Rightarrow> c | Tombstone \<Rightarrow> d | LookupUnknown \<Rightarrow> e) Q E s =
   (case x of LookupPresent \<Rightarrow> wp a Q E s | WrongKind \<Rightarrow> wp b Q E s | AuthoritativelyAbsent \<Rightarrow> wp c Q E s
      | Tombstone \<Rightarrow> wp d Q E s | LookupUnknown \<Rightarrow> wp e Q E s)"
  by (cases x) simp_all

lemma wp_mono: "wp m Q E s \<Longrightarrow> (\<And>x t. Q x t \<Longrightarrow> Q' x t) \<Longrightarrow> (\<And>t. E t \<Longrightarrow> E' t) \<Longrightarrow> wp m Q' E' s"
  by (auto simp: wp_def split: option.splits sum.splits)

lemma wp_for_each:
  "I s \<Longrightarrow> (\<And>x u. x \<in> set xs \<Longrightarrow> I u \<Longrightarrow> wp (f x) (\<lambda>_. I) E u) \<Longrightarrow> wp (for_each f xs) (\<lambda>_. I) E s"
proof (induction xs arbitrary: s)
  case (Cons x xs)
  have "wp (f x) (\<lambda>_. I) E s" using Cons.prems by simp
  moreover have "I u \<Longrightarrow> wp (for_each f xs) (\<lambda>_. I) E u" for u using Cons by simp
  ultimately have "wp (f x) (\<lambda>_. wp (for_each f xs) (\<lambda>_. I) E) E s" by (rule wp_mono) simp
  then show ?case by (simp add: wp_andthen)
qed (simp add: wp_simps)

lemma wp_for_each_then:
  assumes "I s" "\<And>x u. x \<in> set xs \<Longrightarrow> I u \<Longrightarrow> wp (f x) (\<lambda>_. I) E u" "\<And>u. I u \<Longrightarrow> Q () u"
  shows "wp (for_each f xs) Q E s"
  by (rule wp_mono [OF wp_for_each [OF assms(1,2)]]) (simp_all add: assms(3))

lemma wp_ensure_relation [wp_simps]:
  "wp (ensure (ensure_relation_target i P m w)) Q E s =
     (case relation_lookup s i P of
        LookupPresent \<Rightarrow> Q () s | LookupUnknown \<Rightarrow> E (taint UnknownObjectState ChainScope s) | _ \<Rightarrow> E s)"
  by (simp add: wp_def ensure_def ensure_relation_target_def unresolved_def split: object_lookup.split)

lemma wp_ensure_schema [wp_simps]:
  "wp (ensure (ensure_schema_target n)) Q E s =
     (if is_session_temp_schema n then Q () s
      else case schema_lookup s n of
          LookupPresent \<Rightarrow> Q () s | LookupUnknown \<Rightarrow> E (taint UnknownObjectState ChainScope s) | _ \<Rightarrow> E s)"
  by (simp add: wp_def ensure_def ensure_schema_target_def unresolved_def split: object_lookup.split)

lemma wp_ensure_creation [wp_simps]:
  "wp (ensure (ensure_creation_target i)) Q E s =
     (if is_session_temp_schema (oid_schema i) then Q () s
      else if lookup_shadowed s i then E (taint UnknownObjectState ChainScope s)
      else wp (ensure (ensure_schema_target (oid_schema i))) Q E s)"
  by (simp add: wp_def ensure_def ensure_creation_target_def unresolved_def)

lemma wp_ensure_routine [wp_simps]:
  "wp (ensure (ensure_routine_target i k m w)) Q E s =
     (if lookup_shadowed s i then E (taint UnknownObjectState ChainScope s)
      else case l_functions (local s) (oid i) of
          Some (Present f) \<Rightarrow> if fun_routine_kind f = k then Q () s else E s
        | Some Dropped \<Rightarrow> E s
        | None \<Rightarrow> if baseline_covers_family_object s (oid i) FamRoutines then E s else E (taint UnknownObjectState ChainScope s))"
  by (simp add: wp_def ensure_def ensure_routine_target_def unresolved_def split: option.split overlay.split)

lemma wp_finish: "wp m (\<lambda>_. Q) E s \<Longrightarrow> finish m s = Some (r, t) \<Longrightarrow> Q t \<or> E t"
  by (auto simp: wp_def finish_def split: option.splits sum.splits)

lemma wp_finish_applied:
  "wp m (\<lambda>_. Q) (\<lambda>_. True) s \<Longrightarrow> m s = Some (Inr x, t) \<Longrightarrow> Q t"
  by (auto simp: wp_def)

section \<open>More logged updates\<close>

lemma evidence_view [simp]:
  "l_relations (local (taint code scope s)) = l_relations (local s)" "l_triggers (local (taint code scope s)) = l_triggers (local s)"
  "l_sequences (local (taint code scope s)) = l_sequences (local s)" "graph_of (taint code scope s) = graph_of s"
  by (simp_all add: taint_def record_evidence_def mark_tainted_def snapshot_defs Let_def log_change_def)

lemma set_edges_add: "graph_wf g \<Longrightarrow> set (edges (add_edge e g)) = insert e (set (edges g))"
  by (auto simp: graph_store.edges_add)

lemma logged_snapshot_role: "logged s (snapshot_role i s)"
  by (rule logged_change [where ch = "\<lambda>s. RoleSnapshot i (l_roles (local s) i)"])
    (simp_all add: snapshot_defs core_def log_change_def mrestore_def)

definition bump_generation :: "analysis_state \<Rightarrow> analysis_state" where
  "bump_generation s =
     upd_local (\<lambda>l. l\<lparr>l_generation_counter := l_generation_counter l + 1\<rparr>) (snapshot_generation_counter s)"

lemma bump_generation_logged: "logged s (bump_generation s)"
  unfolding bump_generation_def
  by (rule logged_change [where ch = "\<lambda>s. GenerationCounterSnapshot (l_generation_counter (local s))"])
    (simp_all add: upd_local_def snapshot_defs core_def log_change_def)

lemma logged_snapshot_relation: "logged s (snapshot_relation i s)"
  by (rule logged_change [where ch = "\<lambda>s. RelationSnapshot i (l_relations (local s) i)"])
    (simp_all add: snapshot_defs core_def log_change_def mrestore_def)

text \<open>\<^verbatim>\<open>snapshot_relation\<close>, then a change under \<^verbatim>\<open>if let Some(Present(..)) = get_mut(..)\<close>.\<close>

definition update_relation :: "oid \<Rightarrow> (relation_state \<Rightarrow> relation_state) \<Rightarrow> analysis_state \<Rightarrow> analysis_state" where
  "update_relation i f s =
     upd_local (\<lambda>l. l\<lparr>l_relations := (l_relations l)(i :=
        (case l_relations (local s) i of Some (Present r) \<Rightarrow> Some (Present (f r)) | other \<Rightarrow> other))\<rparr>) (snapshot_relation i s)"

lemma update_relation_logged: "logged s (update_relation i f s)"
  unfolding update_relation_def by (rule logged_relation)

text \<open>
  After a snapshot of the namespace any of its parts may change: the catalogue maps, the graph, the
  search path and the baseline sets.
\<close>

definition in_namespace :: "(analysis_state \<Rightarrow> analysis_state) \<Rightarrow> bool" where
  "in_namespace f \<longleftrightarrow>
     (\<forall>s. (graph_wf (graph_of s) \<longrightarrow> graph_wf (graph_of (f s)))
        \<and> transactions (f s) = transactions s
        \<and> l_transaction_aborted (local (f s)) = l_transaction_aborted (local s)
        \<and> (\<forall>n. core (restore_namespace n (f s)) = core (restore_namespace n s)))"

named_theorems namespace_intros

lemma in_namespace_id [namespace_intros]: "in_namespace (\<lambda>s. s)"
  by (simp add: in_namespace_def)

lemma in_namespace_comp:
  assumes "in_namespace f" "in_namespace g"
  shows "in_namespace (\<lambda>s. g (f s))"
  using assms by (simp add: in_namespace_def)

lemma in_namespace_if [namespace_intros]: "in_namespace f \<Longrightarrow> in_namespace g \<Longrightarrow> in_namespace (\<lambda>s. if P s then f s else g s)"
  by (simp add: in_namespace_def)

lemma core_restore_graph:
  "core (restore_namespace n (s\<lparr>local := (local s)\<lparr>l_graph := g\<rparr>\<rparr>)) = core (restore_namespace n s)"
  by (simp add: restore_namespace_def core_def graph_clone_def graph_simps)

lemma in_namespace_graph [namespace_intros]:
  "(\<And>g. graph_wf g \<Longrightarrow> graph_wf (F g)) \<Longrightarrow> in_namespace (on_graph F)"
  by (simp add: in_namespace_def on_graph_def core_restore_graph)

lemma in_namespace_sequences [namespace_intros]:
  "in_namespace (\<lambda>s. s\<lparr>local := (local s)\<lparr>l_sequences := F s\<rparr>\<rparr>)"
  by (simp add: in_namespace_def restore_namespace_def core_def)

lemma in_namespace_baseline_sequences [namespace_intros]: "in_namespace (\<lambda>s. s\<lparr>baseline_sequences := F s\<rparr>)"
  by (simp add: in_namespace_def restore_namespace_def core_def)

lemma restore_captured:
  "graph_wf (graph_of s) \<Longrightarrow> core (restore_namespace (capture_namespace s) s) = core s"
  by (simp add: restore_namespace_def capture_namespace_def core_def graph_clone_eq_iff graph_store.replace_restores)

lemma logged_namespace:
  assumes "in_namespace f"
  shows "logged s (f (snapshot_namespace s))"
proof (rule logged_change [where ch = "\<lambda>s. NamespaceSnapshot (capture_namespace s)"])
  let ?s = "snapshot_namespace s"
  have "core (restore_namespace n ?s) = core (restore_namespace n s)" for n
    by (simp add: snapshot_namespace_def restore_namespace_def core_def log_change_def)
  then show "core (undo_change (NamespaceSnapshot (capture_namespace s)) (f ?s)) = core s" if "graph_wf (graph_of s)"
    using assms restore_captured [OF that] by (simp add: in_namespace_def)
qed (use assms in \<open>simp_all add: in_namespace_def snapshot_namespace_def log_change_def\<close>)

text \<open>
  Several updates of one entry may follow a single snapshot of it, with other changes saved one by
  one in between. Forgetting the entry gives a second journal: what is logged in it, starting right
  after the snapshot, is logged.
\<close>

definition logged_modulo :: "(analysis_state \<Rightarrow> analysis_state) \<Rightarrow> analysis_state \<Rightarrow> analysis_state \<Rightarrow> bool" where
  "logged_modulo forget s t \<longleftrightarrow>
     (graph_wf (graph_of s) \<longrightarrow>
        graph_wf (graph_of t)
        \<and> l_transaction_aborted (local t) = l_transaction_aborted (local s)
        \<and> (\<exists>d. transactions t = log_on_top d (transactions s)
               \<and> forget (core (foldr undo_change d t)) = forget (core s)))"

lemma logged_imp_modulo: "logged s t \<Longrightarrow> logged_modulo forget s t"
  by (auto simp: logged_def logged_modulo_def rollback_undo_log_def)

locale saved_entry =
  fixes change :: "analysis_state \<Rightarrow> state_change" and forget :: "analysis_state \<Rightarrow> analysis_state"
  assumes undo_forget: "forget (core (undo_change c (forget (core s)))) = forget (core (undo_change c s))"
    and undo_restores: "forget (core u) = forget (core s) \<Longrightarrow> core (undo_change (change s) u) = core s"
begin

sublocale journal: undo_journal undo_change "\<lambda>s. forget (core s)"
proof
  show "forget (core s) = forget (core t) \<Longrightarrow> forget (core (undo_change c s)) = forget (core (undo_change c t))" for c s t
    using undo_forget [of c s] undo_forget [of c t] by simp
qed

lemma modulo_refl: "logged_modulo forget s s"
  by (auto simp: logged_modulo_def undo_simps intro!: exI [of _ "[]"])

lemma modulo_trans:
  assumes "logged_modulo forget s t" "logged_modulo forget t u"
  shows "logged_modulo forget s u"
proof (cases "graph_wf (graph_of s)")
  case True
  from assms(1) True obtain d where t: "graph_wf (graph_of t)" "l_transaction_aborted (local t) = l_transaction_aborted (local s)"
    "transactions t = log_on_top d (transactions s)" "forget (core (foldr undo_change d t)) = forget (core s)"
    by (auto simp: logged_modulo_def)
  from assms(2) t(1) obtain e where u: "graph_wf (graph_of u)" "l_transaction_aborted (local u) = l_transaction_aborted (local t)"
    "transactions u = log_on_top e (transactions t)" "forget (core (foldr undo_change e u)) = forget (core t)"
    by (auto simp: logged_modulo_def)
  have "forget (core (foldr undo_change (d @ e) u)) = forget (core s)"
    by (rule journal.unwind_trans [OF t(4) u(4)])
  with t u show ?thesis by (auto simp: logged_modulo_def undo_simps)
qed (simp add: logged_modulo_def)

sublocale modulo: evidence_contract "logged_modulo forget"
  by unfold_locales (auto intro: modulo_refl modulo_trans logged_imp_modulo taint_logged)

text \<open>A change of the entry itself.\<close>

lemma modulo_entry:
  assumes "graph_of t = graph_of s" "transactions t = transactions s"
    "l_transaction_aborted (local t) = l_transaction_aborted (local s)" "forget (core t) = forget (core s)"
  shows "logged_modulo forget s t"
  using assms by (auto simp: logged_modulo_def undo_simps intro!: exI [of _ "[]"])

lemma after_snapshot:
  assumes "logged_modulo forget (log_change change s) t"
  shows "logged s t"
proof (cases "graph_wf (graph_of s)")
  case True
  let ?s = "log_change change s"
  have fr: "transactions ?s = log_on_top [change s] (transactions s)" "graph_of ?s = graph_of s" "core ?s = core s"
    "l_transaction_aborted (local ?s) = l_transaction_aborted (local s)"
    by (simp_all add: log_change_def core_def)
  from assms True fr obtain d where d: "graph_wf (graph_of t)"
    "l_transaction_aborted (local t) = l_transaction_aborted (local s)"
    "transactions t = log_on_top d (transactions ?s)" "forget (core (foldr undo_change d t)) = forget (core ?s)"
    by (auto simp: logged_modulo_def)
  then have "core (foldr undo_change ([change s] @ d) t) = core s"
    using undo_restores fr(3) by simp
  then show ?thesis using d fr(1)
    by (intro loggedI [where d = "[change s] @ d"]) (simp_all add: undo_simps rollback_undo_log_def)
qed (simp add: logged_def)

lemma holds_after_snapshot:
  assumes "holds (logged_modulo forget) m"
  shows "holds logged (andthen (modify (log_change change)) (\<lambda>_. m))"
  using assms by (auto simp: holds_def andthen_def modify_def intro: after_snapshot)

end

definition forget_grantors :: "analysis_state \<Rightarrow> analysis_state" where
  "forget_grantors s = s\<lparr>local := (local s)\<lparr>l_role_membership_grantors := [], l_role_membership_grantors_complete := True\<rparr>\<rparr>"

lemma grantors_restored:
  assumes "forget_grantors (core u) = forget_grantors (core s)"
  shows "core (undo_change (RoleMembershipGrantorsSnapshot (l_role_membership_grantors (local s))
    (l_role_membership_grantors_complete (local s))) u) = core s"
proof -
  let ?c = "RoleMembershipGrantorsSnapshot (l_role_membership_grantors (local s)) (l_role_membership_grantors_complete (local s))"
  have "core (undo_change ?c (forget_grantors (core v))) = core (undo_change ?c v)" for v
    by (simp add: forget_grantors_def core_def)
  then have "core (undo_change ?c u) = core (undo_change ?c s)" using assms by metis
  then show ?thesis by (simp add: core_def)
qed

interpretation saved_grantors: saved_entry
  "\<lambda>s. RoleMembershipGrantorsSnapshot (l_role_membership_grantors (local s)) (l_role_membership_grantors_complete (local s))"
  forget_grantors
proof
  show "forget_grantors (core (undo_change c (forget_grantors (core s)))) = forget_grantors (core (undo_change c s))" for c s
    by (cases c) (simp_all add: forget_grantors_def core_def restore_namespace_def)
qed (rule grantors_restored)

abbreviation logged_upto :: "analysis_state \<Rightarrow> analysis_state \<Rightarrow> bool" where
  "logged_upto \<equiv> logged_modulo forget_grantors"

lemmas logged_upto_refl [simp] = saved_grantors.modulo_refl
lemmas logged_upto_trans = saved_grantors.modulo_trans

lemma logged_imp_upto: "logged s t \<Longrightarrow> logged_upto s t"
  by (rule logged_imp_modulo)

definition set_grantors :: "role_membership_grantor list \<Rightarrow> analysis_state \<Rightarrow> analysis_state" where
  "set_grantors rs = upd_local (\<lambda>l. l\<lparr>l_role_membership_grantors := rs\<rparr>)"

definition forget_completeness :: "analysis_state \<Rightarrow> analysis_state" where
  "forget_completeness = upd_local (\<lambda>l. l\<lparr>l_role_membership_grantors_complete := False\<rparr>)"

lemma forget_completeness_upto: "logged_upto s (forget_completeness s)"
  by (rule saved_grantors.modulo_entry) (simp_all add: forget_completeness_def upd_local_def forget_grantors_def core_def)

lemma set_grantors_upto: "logged_upto s (set_grantors rs s)"
  by (rule saved_grantors.modulo_entry) (simp_all add: set_grantors_def upd_local_def forget_grantors_def core_def)

lemma logged_fold_upto: "(\<And>x u. logged_upto u (f x u)) \<Longrightarrow> logged_upto s (fold f xs s)"
  by (rule saved_grantors.modulo.contract_fold)

lemma after_grantors_snapshot: "logged_upto (snapshot_role_membership_grantors s) t \<Longrightarrow> logged s t"
  unfolding snapshot_role_membership_grantors_def by (rule saved_grantors.after_snapshot)

end
