(* ===== verification/Session.thy ===== *)
theory Session
  imports Undo_Log
begin

text \<open>
  Session settings and roles: the effective search path and timeouts, \<^verbatim>\<open>SET ROLE\<close> and
  \<^verbatim>\<open>SET SESSION AUTHORIZATION\<close> (\<^verbatim>\<open>src/src/_internal/analysis/state/apply_settings.rs\<close>, the tail of
  \<^verbatim>\<open>state/schemas.rs\<close>), and the role graph (\<^verbatim>\<open>state/roles.rs\<close>).

  The three walks over role memberships share one worklist, \<open>role_search\<close>; it may not end on an
  infinite role catalogue, so it is a partial function, and it is shown to end on a finite one.
\<close>

section \<open>Roles\<close>

datatype role_fact = UnknownRole | Named string bool | CurrentUser | CurrentRole | SessionUser

definition role_fact_identity :: "analysis_state \<Rightarrow> role_fact \<Rightarrow> (string \<times> bool) option" where
  "role_fact_identity s r =
     (case r of
        Named name _ \<Rightarrow> Some (name, True)
      | CurrentUser \<Rightarrow> Some (rc_current_role (role_context_of s), rc_current_role_known (role_context_of s))
      | CurrentRole \<Rightarrow> Some (rc_current_role (role_context_of s), rc_current_role_known (role_context_of s))
      | SessionUser \<Rightarrow> Some (rc_session_role (role_context_of s), rc_session_role_known (role_context_of s))
      | UnknownRole \<Rightarrow> None)"

definition resolve_role_name :: "role_fact \<Rightarrow> string \<Rightarrow> string \<Rightarrow> oid option" where
  "resolve_role_name r current_role session_role =
     map_option (Oid [])
       (case r of
          Named name _ \<Rightarrow> Some name
        | CurrentUser \<Rightarrow> Some current_role
        | CurrentRole \<Rightarrow> Some current_role
        | SessionUser \<Rightarrow> Some session_role
        | UnknownRole \<Rightarrow> None)"

definition present_role :: "analysis_state \<Rightarrow> string \<Rightarrow> role_state option" where
  "present_role s name =
     (case l_roles (local s) (Oid [] name) of Some (Present r) \<Rightarrow> Some r | _ \<Rightarrow> None)"

text \<open>What a worklist does with the role it has just popped.\<close>

datatype visit = Found | Abort | Expand "oid list"

text \<open>The head of \<open>pending\<close> is the top of the stack; \<open>Some None\<close> is the answer \<^verbatim>\<open>None\<close>.\<close>

partial_function (option) role_search ::
  "(oid \<Rightarrow> visit) \<Rightarrow> oid list \<Rightarrow> oid set \<Rightarrow> bool option option" where
  "role_search visit pending visited =
     (case pending of
        [] \<Rightarrow> Some (Some False)
      | x # rest \<Rightarrow>
          if x \<in> visited then role_search visit rest visited
          else case visit x of
              Found \<Rightarrow> Some (Some True)
            | Abort \<Rightarrow> Some None
            | Expand ys \<Rightarrow> role_search visit (rev ys @ rest) (insert x visited))"

definition visit_set_role :: "analysis_state \<Rightarrow> string \<Rightarrow> oid \<Rightarrow> visit" where
  "visit_set_role s target x =
     (if name_of x = target then Found
      else Expand (case present_role s (name_of x) of None \<Rightarrow> [] | Some r \<Rightarrow> role_can_set_role_to r))"

definition can_set_role_to :: "analysis_state \<Rightarrow> string \<Rightarrow> bool option option" where
  "can_set_role_to s target =
     (if \<not> l_roles_known (local s) \<or> \<not> rc_session_role_known (role_context_of s) then Some None
      else if present_role s target = None then Some (Some False)
      else if rc_session_role (role_context_of s) = target then Some (Some True)
      else case present_role s (rc_session_role (role_context_of s)) of
          None \<Rightarrow> Some None
        | Some session \<Rightarrow>
            if role_is_superuser session then Some (Some True)
            else role_search (visit_set_role s target) (rev (role_can_set_role_to session)) {})"

text \<open>
  The roles whose privileges a role exercises: PostgreSQL 16 records inheritance per membership,
  earlier servers gate it on the role's own attribute.
\<close>

definition expand_inherited :: "analysis_state \<Rightarrow> role_state \<Rightarrow> visit" where
  "expand_inherited s r =
     (case version_num (effective_pg_version s) of
        None \<Rightarrow> Abort
      | Some v \<Rightarrow> if v \<ge> 160000 \<or> role_inherits r then Expand (role_can_inherit_from r) else Expand [])"

definition visit_privilege ::
  "analysis_state \<Rightarrow> relation_state \<Rightarrow> privilege \<Rightarrow> bool \<Rightarrow> oid \<Rightarrow> visit" where
  "visit_privilege s relation p grant_option x =
     (if (if grant_option then has_direct_grant_option (r_privileges relation) x p
          else has_direct_privilege (r_privileges relation) x p)
      then Found
      else case present_role s (name_of x) of
          None \<Rightarrow> Abort
        | Some r \<Rightarrow> expand_inherited s r)"

definition effective_relation_privilege ::
  "analysis_state \<Rightarrow> relation_state \<Rightarrow> oid \<Rightarrow> privilege \<Rightarrow> bool \<Rightarrow> bool option option" where
  "effective_relation_privilege s relation role p grant_option =
     (if \<not> l_roles_known (local s) then Some None
      else role_search (visit_privilege s relation p grant_option) [role] {})"

definition visit_admin :: "analysis_state \<Rightarrow> oid \<Rightarrow> oid \<Rightarrow> oid \<Rightarrow> visit" where
  "visit_admin s member target x =
     (case present_role s (name_of x) of
        None \<Rightarrow> Abort
      | Some r \<Rightarrow>
          if (x = member \<and> role_is_superuser r) \<or> List.member (role_can_administer_membership r) target
          then Found else expand_inherited s r)"

definition has_admin_privileges_on_role :: "analysis_state \<Rightarrow> oid \<Rightarrow> oid \<Rightarrow> bool option option" where
  "has_admin_privileges_on_role s member target =
     (if \<not> l_roles_known (local s) then Some None
      else role_search (visit_admin s member target) [member] {})"

text \<open>
  The loop over the privilege set: the first privilege without a definite grant option ends it.
\<close>

fun authorize_all :: "(privilege \<Rightarrow> bool option option) \<Rightarrow> privilege list \<Rightarrow> bool option option" where
  "authorize_all check [] = Some (Some True)"
| "authorize_all check (p # ps) =
     (case check p of
        None \<Rightarrow> None
      | Some answer \<Rightarrow> if answer \<noteq> Some True then Some (Some False) else authorize_all check ps)"

definition authorize_relation_grant ::
  "analysis_state \<Rightarrow> relation_state \<Rightarrow> privilege set \<Rightarrow> oid option \<Rightarrow> bool option option" where
  "authorize_relation_grant s relation ps grantor =
     (case grantor of
        None \<Rightarrow> Some None
      | Some g \<Rightarrow>
          (case present_role s (name_of g) of
             None \<Rightarrow> Some None
           | Some role \<Rightarrow>
               if role_is_superuser role \<or> r_owner relation = g then Some (Some True)
               else authorize_all (\<lambda>p. effective_relation_privilege s relation g p True)
                      (privilege_list ps)))"

definition can_set_session_authorization_to :: "analysis_state \<Rightarrow> string \<Rightarrow> bool option" where
  "can_set_session_authorization_to s target =
     (if \<not> l_roles_known (local s) \<or> \<not> l_authenticated_role_known (local s) then None
      else if present_role s target = None then Some False
      else if l_authenticated_role (local s) = target then Some True
      else Some (case present_role s (l_authenticated_role (local s)) of
                   None \<Rightarrow> False | Some r \<Rightarrow> role_is_superuser r))"

definition grantor_identity :: "analysis_state \<Rightarrow> role_fact option \<Rightarrow> oid option" where
  "grantor_identity s granted_by =
     or_else
       (case granted_by of
          None \<Rightarrow> None
        | Some rf \<Rightarrow> map_option (\<lambda>i. Oid [] (fst i)) (role_fact_identity s rf))
       (if rc_current_role_known (role_context_of s)
        then Some (Oid [] (rc_current_role (role_context_of s))) else None)"

definition role_membership_grantor :: "analysis_state \<Rightarrow> role_fact option \<Rightarrow> oid option" where
  "role_membership_grantor s granted_by =
     or_else
       (case granted_by of
          None \<Rightarrow> None
        | Some rf \<Rightarrow> map_option (\<lambda>i. Oid [] (fst i)) (role_fact_identity s rf))
       (if \<not> rc_current_role_known (role_context_of s) then None
        else
          (let current = Oid [] (rc_current_role (role_context_of s));
               is_superuser =
                 (case l_roles (local s) current of Some (Present r) \<Rightarrow> role_is_superuser r | _ \<Rightarrow> False)
           in if is_superuser
              then (case version_num (effective_pg_version s) of
                      Some v \<Rightarrow> if v \<ge> 160000 then map_option (Oid []) (l_bootstrap_superuser (local s))
                               else Some current
                    | None \<Rightarrow> None)
              else Some current))"

definition membership_record_index :: "analysis_state \<Rightarrow> oid \<Rightarrow> oid \<Rightarrow> oid \<Rightarrow> nat option" where
  "membership_record_index s member role grantor =
     position (\<lambda>r. mem_member r = member \<and> mem_role r = role \<and> mem_grantor r = grantor)
       (l_role_membership_grantors (local s))"

definition membership_admin_from_other_record ::
  "analysis_state \<Rightarrow> oid \<Rightarrow> oid \<Rightarrow> nat option \<Rightarrow> bool" where
  "membership_admin_from_other_record s member role exclude =
     list_ex (\<lambda>(i, r). Some i \<noteq> exclude \<and> mem_member r = member \<and> mem_role r = role \<and> mem_admin r)
       (List.enumerate 0 (l_role_membership_grantors (local s)))"

definition project_membership :: "oid \<Rightarrow> role_membership_grantor \<Rightarrow> role_state \<Rightarrow> role_state" where
  "project_membership member record role =
     (if mem_member record \<noteq> member then role
      else
        role\<lparr>role_member_of := push_new (mem_role record) (role_member_of role),
          role_can_administer_membership :=
            (if mem_admin record then push_new (mem_role record) (role_can_administer_membership role)
             else role_can_administer_membership role),
          role_can_inherit_from :=
            (if mem_inherit record then push_new (mem_role record) (role_can_inherit_from role)
             else role_can_inherit_from role),
          role_can_set_role_to :=
            (if mem_set record then push_new (mem_role record) (role_can_set_role_to role)
             else role_can_set_role_to role)\<rparr>)"

definition reconcile_membership_projection :: "oid \<Rightarrow> analysis_state \<Rightarrow> analysis_state" where
  "reconcile_membership_projection member s =
     (if \<not> l_role_membership_grantors_complete (local s) then s
      else case l_roles (local s) member of
          Some (Present role) \<Rightarrow>
            (let cleared = role\<lparr>role_member_of := [], role_can_administer_membership := [],
                   role_can_inherit_from := [], role_can_set_role_to := []\<rparr>;
                 projected = fold (project_membership member) (l_role_membership_grantors (local s)) cleared
             in s\<lparr>local := (local s)\<lparr>l_roles := (l_roles (local s))(member \<mapsto> Present projected)\<rparr>\<rparr>)
        | _ \<Rightarrow> s)"

section \<open>Settings\<close>

datatype search_path_target = DefaultPath | Schemas "string list"
datatype timeout_setting = LockTimeout | StatementTimeout
datatype timeout_setting_value = DefaultTimeout | Milliseconds u64 | CurrentTimeout | Invalid string
datatype reset_setting_target = ResetAll | ResetSearchPath | ResetLockTimeout | ResetStatementTimeout

record search_path_change =
  spc_target :: search_path_target
  spc_local :: bool

record timeout_setting_change =
  tsc_setting :: timeout_setting
  tsc_value :: timeout_setting_value
  tsc_local :: bool

definition apply_search_path :: "search_path_change \<Rightarrow> analysis_state \<Rightarrow> mutation_result \<times> analysis_state" where
  "apply_search_path change s =
     (if spc_local change \<and> transactions s = [] then (NoOp, s)
      else
        (let s1 = snapshot_confidence (snapshot_search_path s);
             template = (case spc_target change of
                           DefaultPath \<Rightarrow> l_default_search_path_template (local s1)
                         | Schemas schemas \<Rightarrow> schemas);
             s2 = s1\<lparr>local := (local s1)\<lparr>l_search_path_template := template\<rparr>\<rparr>;
             s3 = (if spc_local change then s2
                   else s2\<lparr>local := (local s2)\<lparr>l_session_search_path_template := template\<rparr>\<rparr>)
         in (Applied, refresh_role_sensitive_search_path s3)))"

definition timeout_of :: "timeout_setting \<Rightarrow> analysis_state \<Rightarrow> timeout_setting_state" where
  "timeout_of setting s =
     (case setting of LockTimeout \<Rightarrow> l_lock_timeout (local s) | StatementTimeout \<Rightarrow> l_statement_timeout (local s))"

definition put_timeout :: "timeout_setting \<Rightarrow> timeout_setting_state \<Rightarrow> analysis_state \<Rightarrow> analysis_state" where
  "put_timeout setting v s =
     (case setting of
        LockTimeout \<Rightarrow> s\<lparr>local := (local s)\<lparr>l_lock_timeout := v\<rparr>\<rparr>
      | StatementTimeout \<Rightarrow> s\<lparr>local := (local s)\<lparr>l_statement_timeout := v\<rparr>\<rparr>)"

definition set_timeout :: "timeout_setting \<Rightarrow> bool \<Rightarrow> u64 option \<Rightarrow> analysis_state \<Rightarrow> analysis_state" where
  "set_timeout setting local_only v s =
     (let s1 = snapshot_timeout_settings s;
          t = (timeout_of setting s1)\<lparr>ss_effective := v\<rparr>
      in put_timeout setting (if local_only then t else t\<lparr>ss_session := v\<rparr>) s1)"

definition apply_timeout_setting ::
  "timeout_setting_change \<Rightarrow> analysis_state \<Rightarrow> mutation_result \<times> analysis_state" where
  "apply_timeout_setting change s =
     (if tsc_local change \<and> transactions s = [] then (NoOp, s)
      else case tsc_value change of
          DefaultTimeout \<Rightarrow>
            (Applied, set_timeout (tsc_setting change) (tsc_local change)
               (ss_default (timeout_of (tsc_setting change) s)) s)
        | Milliseconds ms \<Rightarrow>
            (Applied, set_timeout (tsc_setting change) (tsc_local change) (Some ms) s)
        | CurrentTimeout \<Rightarrow>
            (Applied, set_timeout (tsc_setting change) (tsc_local change)
               (ss_effective (timeout_of (tsc_setting change) s)) s)
        | Invalid reason \<Rightarrow> (conflict reason, s))"

definition reset_timeout :: "timeout_setting_state \<Rightarrow> timeout_setting_state" where
  "reset_timeout t = t\<lparr>ss_session := ss_default t, ss_effective := ss_default t\<rparr>"

definition reset_search_path :: "analysis_state \<Rightarrow> analysis_state" where
  "reset_search_path s =
     (let s1 = snapshot_confidence (snapshot_search_path s);
          template = l_default_search_path_template (local s1)
      in refresh_role_sensitive_search_path
           (s1\<lparr>local := (local s1)\<lparr>l_session_search_path_template := template,
              l_search_path_template := template\<rparr>\<rparr>))"

definition reset_timeouts :: "reset_setting_target \<Rightarrow> analysis_state \<Rightarrow> analysis_state" where
  "reset_timeouts target s =
     (let s1 = snapshot_timeout_settings s;
          s2 = (if target = ResetAll \<or> target = ResetLockTimeout
                then put_timeout LockTimeout (reset_timeout (l_lock_timeout (local s1))) s1 else s1)
      in if target = ResetAll \<or> target = ResetStatementTimeout
         then put_timeout StatementTimeout (reset_timeout (l_statement_timeout (local s2))) s2 else s2)"

definition apply_reset_settings ::
  "reset_setting_target \<Rightarrow> analysis_state \<Rightarrow> mutation_result \<times> analysis_state" where
  "apply_reset_settings target s =
     (let s1 = (if target = ResetAll \<or> target = ResetSearchPath then reset_search_path s else s);
          s2 = (if target = ResetAll \<or> target = ResetLockTimeout \<or> target = ResetStatementTimeout
                then reset_timeouts target s1 else s1)
      in (Applied, s2))"

definition quoted :: "string \<Rightarrow> string" where
  "quoted name = CHR 0x27 # name @ [CHR 0x27]"

text \<open>The part of a role switch after authorization.\<close>

definition switch_role_to ::
  "string \<Rightarrow> bool \<Rightarrow> (string \<times> bool) option \<Rightarrow> bool \<Rightarrow> bool \<Rightarrow> analysis_state \<Rightarrow> analysis_state" where
  "switch_role_to target known reset_target local_only is_session_auth s =
     (let s1 = snapshot_confidence (snapshot_search_path (snapshot_role_context s));
          c = role_context_of s1;
          c1 = (if is_session_auth
                then (let c' = c\<lparr>rc_session_role := target, rc_session_role_known := known,
                            rc_current_role := target, rc_current_role_known := known\<rparr>
                      in if local_only then c'
                         else c'\<lparr>rc_persistent_session_role := target,
                               rc_persistent_session_role_known := known,
                               rc_persistent_current_role := target,
                               rc_persistent_current_role_known := known\<rparr>)
                else (let c' = c\<lparr>rc_current_role := target, rc_current_role_known := known\<rparr>
                      in if local_only then c'
                         else (let (pn, pk) = (case reset_target of Some t \<Rightarrow> t | None \<Rightarrow> (target, known))
                               in c'\<lparr>rc_persistent_current_role := pn, rc_persistent_current_role_known := pk\<rparr>)))
      in refresh_role_sensitive_search_path (s1\<lparr>local := (local s1)\<lparr>l_role_context := c1\<rparr>\<rparr>))"

definition switch_target :: "role_fact option \<Rightarrow> bool \<Rightarrow> analysis_state \<Rightarrow> (string \<times> bool) option" where
  "switch_target role is_session_auth s =
     (case role of
        Some r \<Rightarrow> role_fact_identity s r
      | None \<Rightarrow>
          if is_session_auth then Some (l_authenticated_role (local s), l_authenticated_role_known (local s))
          else Some (rc_session_role (role_context_of s), rc_session_role_known (role_context_of s)))"

text \<open>\<open>None\<close> only if the walk over the role graph does not end.\<close>

definition apply_switch_role ::
  "role_fact option \<Rightarrow> bool \<Rightarrow> bool \<Rightarrow> analysis_state \<Rightarrow> (mutation_result \<times> analysis_state) option" where
  "apply_switch_role role local_only is_session_auth s =
     (if local_only \<and> transactions s = [] then Some (NoOp, s)
      else case switch_target role is_session_auth s of
          None \<Rightarrow> Some (unresolved UnresolvedReference s)
        | Some (target, known) \<Rightarrow>
            (let reset_target =
                   (if role = None \<and> \<not> is_session_auth
                    then Some (rc_persistent_session_role (role_context_of s),
                           rc_persistent_session_role_known (role_context_of s))
                    else None);
                 authorized =
                   (if role = None then Some (Some True)
                    else if is_session_auth then Some (can_set_session_authorization_to s target)
                    else can_set_role_to s target)
             in case authorized of
                  None \<Rightarrow> None
                | Some (Some False) \<Rightarrow>
                    Some (conflict
                      (if present_role s target = None
                       then ''role '' @ quoted target @ '' does not exist''
                       else ''permission denied to set role '' @ quoted target), s)
                | Some None \<Rightarrow>
                    Some (Applied, switch_role_to target known reset_target local_only is_session_auth
                      (taint CatalogCoverageIncomplete ChainScope s))
                | Some (Some True) \<Rightarrow>
                    Some (Applied, switch_role_to target known reset_target local_only is_session_auth s)))"

definition restore_persistent_role_context :: "analysis_state \<Rightarrow> analysis_state" where
  "restore_persistent_role_context s =
     (let c = role_context_of s
      in refresh_role_sensitive_search_path
           (s\<lparr>local := (local s)\<lparr>
              l_role_context := c\<lparr>rc_current_role := rc_persistent_current_role c,
                rc_current_role_known := rc_persistent_current_role_known c,
                rc_session_role := rc_persistent_session_role c,
                rc_session_role_known := rc_persistent_session_role_known c\<rparr>,
              l_search_path_template := l_session_search_path_template (local s),
              l_lock_timeout := reset_effective_to_session (l_lock_timeout (local s)),
              l_statement_timeout := reset_effective_to_session (l_statement_timeout (local s))\<rparr>\<rparr>))"

datatype object_kind =
    KindTable | KindIndex | KindView | KindMaterializedView | KindFunction | KindProcedure | KindTrigger
  | KindSequence | KindSchema | KindRole | KindPublication | KindSubscription | KindDatabase
  | KindDomain | KindPolicy | KindType | KindExtension | KindOpaque | KindUnknown

datatype opaque_mutation =
    UnsupportedStatementOpaque | DoBlock | Execute | PrepareTransaction | SetTransaction
  | SetConstraints | UnresolvedReferenceOpaque object_kind string

definition apply_opaque :: "opaque_mutation \<Rightarrow> analysis_state \<Rightarrow> mutation_result \<times> analysis_state" where
  "apply_opaque opaque s =
     (Applied,
      taint (case opaque of
               UnsupportedStatementOpaque \<Rightarrow> UnsupportedStatement
             | UnresolvedReferenceOpaque _ _ \<Rightarrow> UnresolvedReference
             | _ \<Rightarrow> UnsupportedSemantics) ChainScope s)"

section \<open>The role worklist\<close>

definition visit_rel :: "(oid \<Rightarrow> visit) \<Rightarrow> (oid \<times> oid) set" where
  "visit_rel visit = {(a, b). \<exists>ys. visit a = Expand ys \<and> b \<in> set ys}"

definition visits :: "(oid \<Rightarrow> visit) \<Rightarrow> oid set \<Rightarrow> oid set" where
  "visits visit xs = (visit_rel visit)\<^sup>* `` xs"

lemma visits_self: "x \<in> xs \<Longrightarrow> x \<in> visits visit xs"
  by (auto simp: visits_def)

lemma visits_mono: "xs \<subseteq> ys \<Longrightarrow> visits visit xs \<subseteq> visits visit ys"
  by (auto simp: visits_def)

lemma visits_step: "visit x = Expand ys \<Longrightarrow> x \<in> xs \<Longrightarrow> visits visit (set ys) \<subseteq> visits visit xs"
  by (auto simp: visits_def visit_rel_def intro: converse_rtrancl_into_rtrancl)

lemma visits_closed:
  assumes "\<And>v ys. v \<in> xs \<Longrightarrow> visit v = Expand ys \<Longrightarrow> set ys \<subseteq> xs"
  shows "visits visit xs = xs"
proof -
  have "y \<in> xs" if "(x, y) \<in> (visit_rel visit)\<^sup>*" "x \<in> xs" for x y
    using that by (induction rule: rtrancl_induct) (use assms in \<open>auto simp: visit_rel_def\<close>)
  then show ?thesis by (auto simp: visits_def)
qed

definition search_answer :: "(oid \<Rightarrow> visit) \<Rightarrow> oid set \<Rightarrow> oid set \<Rightarrow> bool option \<Rightarrow> bool" where
  "search_answer visit pending visited r \<longleftrightarrow>
     (case r of
        Some True \<Rightarrow> \<exists>x \<in> visits visit pending. visit x = Found
      | None \<Rightarrow> \<exists>x \<in> visits visit pending. visit x = Abort
      | Some False \<Rightarrow> \<forall>x \<in> visits visit (pending \<union> visited). \<exists>ys. visit x = Expand ys)"

lemma search_answer_seen:
  "x \<in> visited \<Longrightarrow> search_answer visit pending visited r \<Longrightarrow> search_answer visit (insert x pending) visited r"
  using visits_mono [of pending "insert x pending" visit]
  by (auto simp: search_answer_def insert_absorb split: option.splits bool.splits)

lemma search_answer_expand:
  assumes "visit x = Expand ys" "search_answer visit (set ys \<union> pending) (insert x visited) r"
  shows "search_answer visit (insert x pending) visited r"
proof -
  have "visits visit (set ys \<union> pending) \<subseteq> visits visit (insert x pending)"
    using visits_step [where visit = visit and x = x and ys = ys and xs = "insert x pending"] assms(1) visits_mono [of pending "insert x pending" visit]
    by (auto simp: visits_def)
  moreover have "visits visit (insert x pending \<union> visited) \<subseteq> visits visit (set ys \<union> pending \<union> insert x visited)"
    by (intro visits_mono) auto
  ultimately show ?thesis using assms(2)
    by (auto simp: search_answer_def split: option.splits bool.splits)
qed

lemma role_search_answers:
  assumes "finite U" and closed: "\<And>x ys. x \<in> U \<Longrightarrow> visit x = Expand ys \<Longrightarrow> set ys \<subseteq> U"
    and "set pending \<subseteq> U"
    and "\<And>v. v \<in> visited \<Longrightarrow> \<exists>ys. visit v = Expand ys \<and> set ys \<subseteq> visited \<union> set pending"
  shows "\<exists>r. role_search visit pending visited = Some r \<and> search_answer visit (set pending) visited r"
  using assms(3,4)
proof (induction "(U - visited, length pending)" arbitrary: pending visited
    rule: wf_induct_rule [OF wf_lex_prod [OF wf_finite_psubset wf_less_than]])
  case (1 pending visited)
  show ?case
  proof (cases pending)
    case Nil
    have "visits visit visited = visited" using "1.prems"(2) Nil by (intro visits_closed) fastforce
    moreover have "\<forall>v \<in> visited. \<exists>ys. visit v = Expand ys" using "1.prems"(2) by blast
    ultimately show ?thesis using Nil by (subst role_search.simps) (simp add: search_answer_def)
  next
    case (Cons x rest)
    consider (seen) "x \<in> visited" | (found) "x \<notin> visited" "visit x = Found"
      | (abort) "x \<notin> visited" "visit x = Abort" | (expand) ys where "x \<notin> visited" "visit x = Expand ys"
      by (cases "visit x") auto
    then show ?thesis
    proof cases
      case seen
      have "visited \<union> set pending = visited \<union> set rest" using seen Cons by auto
      then have "\<exists>r. role_search visit rest visited = Some r \<and> search_answer visit (set rest) visited r"
        using "1.prems" Cons by (intro "1.hyps") auto
      then show ?thesis using seen Cons
        by (subst role_search.simps) (auto intro: search_answer_seen)
    next
      case found
      then show ?thesis using Cons visits_self [of x "insert x (set rest)" visit]
        by (subst role_search.simps) (auto simp: search_answer_def)
    next
      case abort
      then show ?thesis using Cons visits_self [of x "insert x (set rest)" visit]
        by (subst role_search.simps) (auto simp: search_answer_def)
    next
      case (expand ys)
      have x: "x \<in> U" using "1.prems"(1) Cons by simp
      have "\<exists>r. role_search visit (rev ys @ rest) (insert x visited) = Some r
          \<and> search_answer visit (set (rev ys @ rest)) (insert x visited) r"
      proof (rule "1.hyps")
        show "((U - insert x visited, length (rev ys @ rest)), (U - visited, length pending))
            \<in> finite_psubset <*lex*> less_than"
          using x expand(1) assms(1) by (auto simp: finite_psubset_def)
        show "set (rev ys @ rest) \<subseteq> U" using "1.prems"(1) Cons closed [OF x expand(2)] by auto
        show "\<exists>zs. visit v = Expand zs \<and> set zs \<subseteq> insert x visited \<union> set (rev ys @ rest)"
          if "v \<in> insert x visited" for v
          using that expand(2) "1.prems"(2) [of v] Cons by fastforce
      qed
      then show ?thesis
        using expand Cons search_answer_expand [where visit = visit and x = x and ys = ys and pending = "set rest"]
        by (subst role_search.simps) auto
    qed
  qed
qed

lemma finite_role_lists:
  assumes "finite (dom (l_roles (local s)))"
  shows "finite {x. \<exists>n r. present_role s n = Some r \<and> x \<in> set (f r)}"
proof (rule finite_subset)
  show "{x. \<exists>n r. present_role s n = Some r \<and> x \<in> set (f r)} \<subseteq>
      (\<Union>i \<in> dom (l_roles (local s)). case l_roles (local s) i of Some (Present r) \<Rightarrow> set (f r) | _ \<Rightarrow> {})"
  proof
    fix x assume "x \<in> {x. \<exists>n r. present_role s n = Some r \<and> x \<in> set (f r)}"
    then obtain n r where "present_role s n = Some r" "x \<in> set (f r)" by blast
    then have "l_roles (local s) (Oid [] n) = Some (Present r)" "x \<in> set (f r)"
      by (auto simp: present_role_def split: option.splits overlay.splits)
    then show "x \<in> (\<Union>i \<in> dom (l_roles (local s)).
        case l_roles (local s) i of Some (Present r) \<Rightarrow> set (f r) | _ \<Rightarrow> {})"
      by (intro UN_I [of "Oid [] n"]) auto
  qed
  show "finite (\<Union>i \<in> dom (l_roles (local s)). case l_roles (local s) i of Some (Present r) \<Rightarrow> set (f r) | _ \<Rightarrow> {})"
    using assms by (auto split: option.splits overlay.splits)
qed

text \<open>A walk whose expansions stay inside the listed memberships ends with a right answer.\<close>

lemma role_search_ends:
  assumes "finite (dom (l_roles (local s)))"
    and "\<And>x ys y. visit x = Expand ys \<Longrightarrow> y \<in> set ys \<Longrightarrow> \<exists>n r. present_role s n = Some r \<and> y \<in> set (f r)"
  shows "\<exists>r. role_search visit pending {} = Some r \<and> search_answer visit (set pending) {} r"
  by (rule role_search_answers [where U = "set pending \<union> {x. \<exists>n r. present_role s n = Some r \<and> x \<in> set (f r)}"])
    (use assms finite_role_lists [OF assms(1), of f] in auto)

lemma visit_set_role_lists:
  "visit_set_role s target x = Expand ys \<Longrightarrow> y \<in> set ys \<Longrightarrow>
     \<exists>n r. present_role s n = Some r \<and> y \<in> set (role_can_set_role_to r)"
  by (auto simp: visit_set_role_def split: if_splits option.splits)

lemma expand_inherited_lists:
  "expand_inherited s r = Expand ys \<Longrightarrow> y \<in> set ys \<Longrightarrow> y \<in> set (role_can_inherit_from r)"
  by (auto simp: expand_inherited_def split: option.splits if_splits)

lemma visit_privilege_lists:
  "visit_privilege s relation p g x = Expand ys \<Longrightarrow> y \<in> set ys \<Longrightarrow>
     \<exists>n r. present_role s n = Some r \<and> y \<in> set (role_can_inherit_from r)"
  by (auto simp: visit_privilege_def split: if_splits option.splits dest: expand_inherited_lists)

lemma visit_set_role_not_Abort: "visit_set_role s target x \<noteq> Abort"
  by (simp add: visit_set_role_def)

text \<open>Who a session may become: its own role, any role as a superuser, or along memberships.\<close>

definition set_role_edges :: "analysis_state \<Rightarrow> (oid \<times> oid) set" where
  "set_role_edges s =
     {(a, b). \<exists>r. present_role s (name_of a) = Some r \<and> b \<in> set (role_can_set_role_to r)}"

lemma set_role_reach:
  "(\<exists>y \<in> visits (visit_set_role s target) xs. visit_set_role s target y = Found) \<longleftrightarrow>
     (\<exists>x \<in> xs. \<exists>y. (x, y) \<in> (set_role_edges s)\<^sup>* \<and> name_of y = target)"
proof
  assume "\<exists>y \<in> visits (visit_set_role s target) xs. visit_set_role s target y = Found"
  then obtain x y where xy: "x \<in> xs" "(x, y) \<in> (visit_rel (visit_set_role s target))\<^sup>*" "name_of y = target"
    by (auto simp: visits_def visit_set_role_def split: if_splits)
  have "visit_rel (visit_set_role s target) \<subseteq> set_role_edges s"
    by (auto simp: visit_rel_def visit_set_role_def set_role_edges_def split: if_splits option.splits)
  then have "(x, y) \<in> (set_role_edges s)\<^sup>*" using xy(2) rtrancl_mono by blast
  with xy show "\<exists>x \<in> xs. \<exists>y. (x, y) \<in> (set_role_edges s)\<^sup>* \<and> name_of y = target" by blast
next
  assume "\<exists>x \<in> xs. \<exists>y. (x, y) \<in> (set_role_edges s)\<^sup>* \<and> name_of y = target"
  then obtain x y where "(x, y) \<in> (set_role_edges s)\<^sup>*" "x \<in> xs" "name_of y = target" by blast
  then show "\<exists>y \<in> visits (visit_set_role s target) xs. visit_set_role s target y = Found"
  proof (induction arbitrary: xs rule: converse_rtrancl_induct)
    case base
    then show ?case using visits_self by (force simp: visit_set_role_def)
  next
    case (step x z)
    show ?case
    proof (cases "name_of x = target")
      case True
      then show ?thesis using step.prems(1) visits_self by (force simp: visit_set_role_def)
    next
      case False
      then obtain ys where "visit_set_role s target x = Expand ys" "z \<in> set ys"
        using step.hyps(1) by (auto simp: visit_set_role_def set_role_edges_def)
      then have v: "visits (visit_set_role s target) (set ys) \<subseteq> visits (visit_set_role s target) xs"
        using step.prems(1) visits_step [where visit = "visit_set_role s target"] by simp
      have "\<exists>y \<in> visits (visit_set_role s target) (set ys). visit_set_role s target y = Found"
        using step.IH \<open>z \<in> set ys\<close> step.prems(2) by blast
      with v show ?thesis by blast
    qed
  qed
qed

section \<open>Settings are logged\<close>

lemmas state_step_defs = core_def undo_simps log_change_def Let_def refresh_role_sensitive_search_path_def

lemma apply_search_path_logged: "logged s (snd (apply_search_path change s))"
  by (rule loggedI [where d = "if spc_local change \<and> transactions s = [] then []
      else [SearchPathSnapshot (l_search_path (local s)) (l_search_path_template (local s))
              (l_session_search_path_template (local s)), ConfidenceSnapshot (l_confidence (local s))]"])
    (auto simp: apply_search_path_def snapshot_defs state_step_defs)

lemmas timeout_step_defs = put_timeout_def timeout_of_def snapshot_defs core_def log_change_def Let_def

lemma set_timeout_logged: "logged s (set_timeout st b v s)"
  by (rule logged_change [where ch = "\<lambda>s. TimeoutSettingsSnapshot (l_lock_timeout (local s)) (l_statement_timeout (local s))"])
    (cases st; simp add: set_timeout_def timeout_step_defs)+

lemma reset_timeouts_logged: "logged s (reset_timeouts target s)"
  by (rule logged_change [where ch = "\<lambda>s. TimeoutSettingsSnapshot (l_lock_timeout (local s)) (l_statement_timeout (local s))"])
    (simp_all add: reset_timeouts_def timeout_step_defs)

lemma apply_timeout_setting_logged: "logged s (snd (apply_timeout_setting change s))"
  by (simp add: apply_timeout_setting_def set_timeout_logged split: timeout_setting_value.splits)

lemma reset_search_path_logged: "logged s (reset_search_path s)"
  by (rule loggedI [where d = "[SearchPathSnapshot (l_search_path (local s)) (l_search_path_template (local s))
              (l_session_search_path_template (local s)), ConfidenceSnapshot (l_confidence (local s))]"])
    (auto simp: reset_search_path_def snapshot_defs state_step_defs)

lemma apply_reset_settings_logged: "logged s (snd (apply_reset_settings target s))"
  using logged_trans [OF reset_search_path_logged reset_timeouts_logged]
  by (simp add: apply_reset_settings_def Let_def reset_search_path_logged reset_timeouts_logged)

lemma switch_role_to_logged: "logged s (switch_role_to target known reset b sa s)"
  by (rule loggedI [where d = "[RoleContextSnapshot (role_context_of s),
      SearchPathSnapshot (l_search_path (local s)) (l_search_path_template (local s))
        (l_session_search_path_template (local s)), ConfidenceSnapshot (l_confidence (local s))]"])
    (simp_all add: switch_role_to_def snapshot_defs state_step_defs)

lemma apply_switch_role_logged: "apply_switch_role role b sa s = Some (r, t) \<Longrightarrow> logged s t"
  by (auto simp: apply_switch_role_def Let_def unresolved_def switch_role_to_logged taint_logged
      logged_trans [OF taint_logged switch_role_to_logged]
      split: if_splits option.splits bool.splits)

lemma apply_opaque_logged: "logged s (snd (apply_opaque opaque s))"
  by (simp add: apply_opaque_def taint_logged)

section \<open>Settings that end with the transaction\<close>

text \<open>The settings of a session, and the state the search path is computed from.\<close>

definition session_view ::
  "analysis_state \<Rightarrow> role_context \<times> string list \<times> string list \<times> search_path_entry list
     \<times> timeout_setting_state \<times> timeout_setting_state" where
  "session_view s =
     (role_context_of s, l_search_path_template (local s), l_session_search_path_template (local s),
      l_search_path (local s), l_lock_timeout (local s), l_statement_timeout (local s))"

lemma path_entry_cong:
  assumes "l_relations (local t) = l_relations (local s)" "l_types (local t) = l_types (local s)"
    and "l_schemas (local t) = l_schemas (local s)" "l_saw_temp_object (local t) = l_saw_temp_object (local s)"
    and "l_source_existing_schemas (local t) = l_source_existing_schemas (local s)"
    and "baseline_available t = baseline_available s" "baseline_coverage t = baseline_coverage s"
    and "baseline_schemas t = baseline_schemas s"
  shows "path_entry t = path_entry s"
  by (rule ext) (simp add: path_entry_def temp_namespace_exists_def temp_key_exists_def
      schema_is_present_def schema_absence_is_authoritative_def schema_did_not_exist_at_sync_def assms)

lemma effective_path_cong:
  assumes "path_entry t = path_entry s" "role_context_of t = role_context_of s"
    and "l_search_path_template (local t) = l_search_path_template (local s)"
  shows "effective_path t = effective_path s"
proof -
  have "push_template_entry t = push_template_entry s"
    by (intro ext) (simp add: push_template_entry_def push_path_entry_def assms)
  then show ?thesis by (simp add: effective_path_def assms)
qed

text \<open>The fields of a state that restoring the persistent settings reads.\<close>

definition persistent_part :: "analysis_state \<Rightarrow> _" where
  "persistent_part s =
     ((rc_persistent_current_role (role_context_of s), rc_persistent_current_role_known (role_context_of s),
       rc_persistent_session_role (role_context_of s), rc_persistent_session_role_known (role_context_of s)),
      l_session_search_path_template (local s),
      (ss_default (l_lock_timeout (local s)), ss_session (l_lock_timeout (local s))),
      (ss_default (l_statement_timeout (local s)), ss_session (l_statement_timeout (local s))),
      path_entry s)"

lemma restore_view_cong:
  assumes "persistent_part t = persistent_part s"
  shows "session_view (restore_persistent_role_context t) = session_view (restore_persistent_role_context s)"
proof -
  let ?u = "\<lambda>s. s\<lparr>local := (local s)\<lparr>
      l_role_context := (role_context_of s)\<lparr>
        rc_current_role := rc_persistent_current_role (role_context_of s),
        rc_current_role_known := rc_persistent_current_role_known (role_context_of s),
        rc_session_role := rc_persistent_session_role (role_context_of s),
        rc_session_role_known := rc_persistent_session_role_known (role_context_of s)\<rparr>,
      l_search_path_template := l_session_search_path_template (local s),
      l_lock_timeout := reset_effective_to_session (l_lock_timeout (local s)),
      l_statement_timeout := reset_effective_to_session (l_statement_timeout (local s))\<rparr>\<rparr>"
  have same: "path_entry (?u s') = path_entry s'" for s' by (rule path_entry_cong) simp_all
  have rc: "role_context_of (?u t) = role_context_of (?u s)"
    using assms by (simp add: persistent_part_def role_context.equality)
  have "effective_path (?u t) = effective_path (?u s)"
    using assms rc same [of t] same [of s] by (intro effective_path_cong) (simp_all add: persistent_part_def)
  with assms rc show ?thesis
    by (simp add: restore_persistent_role_context_def session_view_def Let_def persistent_part_def
        refresh_role_sensitive_search_path_def reset_effective_to_session_def)
qed

lemma persistent_part_refresh [simp]:
  "persistent_part (refresh_role_sensitive_search_path s) = persistent_part s"
  using path_entry_cong [of "refresh_role_sensitive_search_path s" s]
  by (simp add: persistent_part_def refresh_role_sensitive_search_path_def)

lemma persistent_part_frame:
  assumes "role_context_of t = (role_context_of s)\<lparr>rc_current_role := a, rc_current_role_known := b,
      rc_session_role := c, rc_session_role_known := d\<rparr>"
    and "l_session_search_path_template (local t) = l_session_search_path_template (local s)"
    and "l_lock_timeout (local t) = (l_lock_timeout (local s))\<lparr>ss_effective := e\<rparr>"
    and "l_statement_timeout (local t) = (l_statement_timeout (local s))\<lparr>ss_effective := f\<rparr>"
    and "path_entry t = path_entry s"
  shows "persistent_part t = persistent_part s"
  using assms by (simp add: persistent_part_def)

lemma persistent_part_taint [simp]: "persistent_part (taint code scope s) = persistent_part s"
  by (rule persistent_part_frame [where a = "rc_current_role (role_context_of s)"
        and b = "rc_current_role_known (role_context_of s)" and c = "rc_session_role (role_context_of s)"
        and d = "rc_session_role_known (role_context_of s)" and e = "ss_effective (l_lock_timeout (local s))"
        and f = "ss_effective (l_statement_timeout (local s))"])
    (auto simp: taint_def record_evidence_def mark_tainted_def Let_def snapshot_defs log_change_def intro: path_entry_cong)

lemma persistent_part_local_path:
  "spc_local change \<Longrightarrow> persistent_part (snd (apply_search_path change s)) = persistent_part s"
  by (auto simp: apply_search_path_def Let_def snapshot_defs log_change_def persistent_part_def
      refresh_role_sensitive_search_path_def intro: path_entry_cong)

lemma persistent_part_local_timeout:
  "tsc_local change \<Longrightarrow> persistent_part (snd (apply_timeout_setting change s)) = persistent_part s"
  by (auto simp: apply_timeout_setting_def set_timeout_def put_timeout_def timeout_of_def Let_def snapshot_defs
      log_change_def persistent_part_def intro: path_entry_cong
      split: timeout_setting_value.splits timeout_setting.splits)

lemma persistent_part_local_switch:
  "persistent_part (switch_role_to target known reset True sa s) = persistent_part s"
  by (auto simp: switch_role_to_def Let_def snapshot_defs log_change_def persistent_part_def
      refresh_role_sensitive_search_path_def intro: path_entry_cong)

section \<open>Properties of the settings\<close>

text \<open>
  A setting changed with \<^verbatim>\<open>LOCAL\<close> ends with the transaction: after the persistent settings are
  restored, the roles, the search path and both timeouts are what they would have been without it.
\<close>

theorem local_settings_end_with_transaction:
  "(spc_local change \<longrightarrow>
      session_view (restore_persistent_role_context (snd (apply_search_path change s)))
        = session_view (restore_persistent_role_context s))
   \<and> (tsc_local timeout \<longrightarrow>
      session_view (restore_persistent_role_context (snd (apply_timeout_setting timeout s)))
        = session_view (restore_persistent_role_context s))
   \<and> (apply_switch_role role True is_session_auth s = Some (r, t) \<longrightarrow>
      session_view (restore_persistent_role_context t) = session_view (restore_persistent_role_context s))"
proof (intro conjI impI restore_view_cong persistent_part_local_path persistent_part_local_timeout)
  assume "apply_switch_role role True is_session_auth s = Some (r, t)"
  then show "persistent_part t = persistent_part s"
    by (auto simp: apply_switch_role_def Let_def unresolved_def persistent_part_local_switch
        split: if_splits option.splits bool.splits)
qed

section \<open>Properties of the role graph\<close>

lemma set_role_edge_first:
  assumes "present_role s (name_of a) = Some r"
  shows "(a, y) \<in> (set_role_edges s)\<^sup>* \<longleftrightarrow>
     y = a \<or> (\<exists>x \<in> set (role_can_set_role_to r). (x, y) \<in> (set_role_edges s)\<^sup>*)"
proof
  assume "(a, y) \<in> (set_role_edges s)\<^sup>*"
  then show "y = a \<or> (\<exists>x \<in> set (role_can_set_role_to r). (x, y) \<in> (set_role_edges s)\<^sup>*)"
    by (cases rule: converse_rtranclE) (use assms in \<open>auto simp: set_role_edges_def\<close>)
next
  have "(a, x) \<in> set_role_edges s" if "x \<in> set (role_can_set_role_to r)" for x
    using that assms by (simp add: set_role_edges_def)
  then show "y = a \<or> (\<exists>x \<in> set (role_can_set_role_to r). (x, y) \<in> (set_role_edges s)\<^sup>*)
      \<Longrightarrow> (a, y) \<in> (set_role_edges s)\<^sup>*"
    by (auto intro: converse_rtrancl_into_rtrancl)
qed

text \<open>
  C25. With the role catalogue known, the analyzer lets a session become a role exactly when the
  session's role is a superuser or reaches the role along memberships that carry \<^verbatim>\<open>SET\<close>; the walk
  ends whatever cycles the memberships have.
\<close>

theorem can_set_role_to_exact:
  assumes "finite (dom (l_roles (local s)))" "l_roles_known (local s)"
    and "rc_session_role_known (role_context_of s)" "present_role s target \<noteq> None"
    and "present_role s (rc_session_role (role_context_of s)) = Some session"
  shows "can_set_role_to s target =
     Some (Some (role_is_superuser session
       \<or> (\<exists>y. (Oid [] (rc_session_role (role_context_of s)), y) \<in> (set_role_edges s)\<^sup>* \<and> name_of y = target)))"
proof -
  let ?me = "Oid [] (rc_session_role (role_context_of s))"
  have reach: "(\<exists>y. (?me, y) \<in> (set_role_edges s)\<^sup>* \<and> name_of y = target) \<longleftrightarrow>
      rc_session_role (role_context_of s) = target
      \<or> (\<exists>x \<in> set (role_can_set_role_to session). \<exists>y. (x, y) \<in> (set_role_edges s)\<^sup>* \<and> name_of y = target)"
    using assms(5)
    by (subst set_role_edge_first [of s ?me session]) auto
  obtain r where r: "role_search (visit_set_role s target) (rev (role_can_set_role_to session)) {} = Some r"
      "search_answer (visit_set_role s target) (set (role_can_set_role_to session)) {} r"
    using role_search_ends [where visit = "visit_set_role s target" and f = role_can_set_role_to
        and pending = "rev (role_can_set_role_to session)", OF assms(1)] visit_set_role_lists [of s target]
    by auto
  have "r = Some (\<exists>x \<in> set (role_can_set_role_to session). \<exists>y. (x, y) \<in> (set_role_edges s)\<^sup>* \<and> name_of y = target)"
    using r(2) visit_set_role_not_Abort [of s target]
    unfolding set_role_reach [symmetric]
    by (auto simp: search_answer_def split: option.splits bool.splits)
  with r(1) assms(2-5) reach show ?thesis by (auto simp: can_set_role_to_def)
qed

definition inherit_edges :: "analysis_state \<Rightarrow> (oid \<times> oid) set" where
  "inherit_edges s =
     {(a, b). \<exists>r v. present_role s (name_of a) = Some r \<and> version_num (effective_pg_version s) = Some v
        \<and> (v \<ge> 160000 \<or> role_inherits r) \<and> b \<in> set (role_can_inherit_from r)}"

lemma expand_inherited_edges:
  "present_role s (name_of a) = Some r \<Longrightarrow> expand_inherited s r = Expand ys \<Longrightarrow>
     b \<in> set ys \<longleftrightarrow> (a, b) \<in> inherit_edges s"
  by (auto simp: expand_inherited_def inherit_edges_def split: option.splits if_splits)

lemma privilege_visits:
  "visits (visit_privilege s relation p g) xs \<subseteq> (inherit_edges s)\<^sup>* `` xs"
proof -
  have "visit_rel (visit_privilege s relation p g) \<subseteq> inherit_edges s"
    by (auto simp: visit_rel_def visit_privilege_def expand_inherited_edges split: if_splits option.splits)
  from rtrancl_mono [OF this] show ?thesis by (auto simp: visits_def)
qed

lemma inherit_visits:
  assumes "\<And>x. x \<in> visits (visit_privilege s relation p g) {role} \<Longrightarrow> \<exists>ys. visit_privilege s relation p g x = Expand ys"
    and "(role, y) \<in> (inherit_edges s)\<^sup>*"
  shows "y \<in> visits (visit_privilege s relation p g) {role}"
  using assms(2)
proof (induction rule: rtrancl_induct)
  case base
  then show ?case by (simp add: visits_self)
next
  case (step y z)
  from assms(1) [OF step.IH] obtain ys where ys: "visit_privilege s relation p g y = Expand ys" by blast
  then have "z \<in> set ys" using step.hyps(2)
    by (auto simp: visit_privilege_def expand_inherited_edges split: if_splits option.splits)
  with ys step.IH show ?case
    by (auto simp: visits_def visit_rel_def intro: rtrancl_into_rtrancl)
qed

text \<open>
  C26. The effective privilege of a role is always decided or declared unknown; a positive answer
  comes from a direct grant to a role it inherits from, a negative one means that no role it
  inherits from holds such a grant.
\<close>

theorem effective_relation_privilege_sound:
  assumes "finite (dom (l_roles (local s)))"
  shows "\<exists>answer. effective_relation_privilege s relation role p grant_option = Some answer
     \<and> (answer = Some True \<longrightarrow>
          (\<exists>x. (role, x) \<in> (inherit_edges s)\<^sup>*
             \<and> (if grant_option then has_direct_grant_option (r_privileges relation) x p
                else has_direct_privilege (r_privileges relation) x p)))
     \<and> (answer = Some False \<longrightarrow>
          (\<forall>x. (role, x) \<in> (inherit_edges s)\<^sup>* \<longrightarrow>
             \<not> (if grant_option then has_direct_grant_option (r_privileges relation) x p
                else has_direct_privilege (r_privileges relation) x p)))"
proof (cases "l_roles_known (local s)")
  case True
  let ?visit = "visit_privilege s relation p grant_option"
  obtain r where r: "role_search ?visit [role] {} = Some r" "search_answer ?visit {role} {} r"
    using role_search_ends [where visit = ?visit and f = role_can_inherit_from and pending = "[role]", OF assms]
      visit_privilege_lists [of s relation p grant_option]
    by auto
  have direct: "?visit x = Found \<longleftrightarrow> (if grant_option then has_direct_grant_option (r_privileges relation) x p
                else has_direct_privilege (r_privileges relation) x p)" for x
    by (auto simp: visit_privilege_def expand_inherited_def split: option.splits)
  have pos: "\<exists>x. (role, x) \<in> (inherit_edges s)\<^sup>* \<and> ?visit x = Found" if "r = Some True"
    using r(2) that privilege_visits [of s relation p grant_option "{role}"] by (auto simp: search_answer_def)
  have neg: "\<forall>x. (role, x) \<in> (inherit_edges s)\<^sup>* \<longrightarrow> ?visit x \<noteq> Found" if "r = Some False"
    using r(2) that inherit_visits [of s relation p grant_option role] by (force simp: search_answer_def)
  show ?thesis using r(1) pos neg True unfolding direct by (auto simp: effective_relation_privilege_def)
qed (simp add: effective_relation_privilege_def)

text \<open>
  The authorization of a \<^verbatim>\<open>GRANT\<close> turns missing evidence into a definite refusal: when the
  grantor's grant option is unknown, the answer is \<^verbatim>\<open>Some(false)\<close>, which the handler reports as a
  conflict, although \<^verbatim>\<open>effective_relation_privilege\<close> is documented to keep the two apart.
\<close>

theorem authorize_relation_grant_denies_on_missing_evidence:
  assumes "present_role s (name_of g) = Some role" "\<not> role_is_superuser role" "r_owner relation \<noteq> g"
    and "effective_relation_privilege s relation g p True = Some None"
  shows "authorize_relation_grant s relation {p} (Some g) = Some (Some False)"
  using assms by (cases p) (simp_all add: authorize_relation_grant_def privilege_list_def all_privileges_def)

lemma set_push_new [simp]: "set (push_new x xs) = insert x (set xs)"
  by (auto simp: push_new_def)

lemma distinct_push_new [simp]: "distinct (push_new x xs) \<longleftrightarrow> distinct xs"
  by (auto simp: push_new_def)

text \<open>The records of a membership that carry an option.\<close>

definition membership_roles ::
  "(role_membership_grantor \<Rightarrow> bool) \<Rightarrow> oid \<Rightarrow> role_membership_grantor list \<Rightarrow> oid set" where
  "membership_roles P member records = mem_role ` {r \<in> set records. mem_member r = member \<and> P r}"

lemma membership_roles_simps [simp]:
  "membership_roles P member [] = {}"
  "membership_roles P member (r # rs) =
     (if mem_member r = member \<and> P r then insert (mem_role r) (membership_roles P member rs)
      else membership_roles P member rs)"
  by (auto simp: membership_roles_def)

lemma project_fold:
  "set (role_member_of (fold (project_membership member) rs role)) =
     set (role_member_of role) \<union> membership_roles (\<lambda>_. True) member rs"
  "set (role_can_administer_membership (fold (project_membership member) rs role)) =
     set (role_can_administer_membership role) \<union> membership_roles mem_admin member rs"
  "set (role_can_inherit_from (fold (project_membership member) rs role)) =
     set (role_can_inherit_from role) \<union> membership_roles mem_inherit member rs"
  "set (role_can_set_role_to (fold (project_membership member) rs role)) =
     set (role_can_set_role_to role) \<union> membership_roles mem_set member rs"
  by (induction rs arbitrary: role) (auto simp: project_membership_def)

text \<open>
  Rebuilding the membership lists of a role from complete grantor records gives exactly the
  roles of its records, and for each option exactly those whose records carry it; no other role
  changes.
\<close>

theorem reconcile_membership_projection_exact:
  assumes "l_role_membership_grantors_complete (local s)" "l_roles (local s) member = Some (Present role)"
  shows "\<exists>projected. l_roles (local (reconcile_membership_projection member s)) =
       (l_roles (local s))(member \<mapsto> Present projected)
     \<and> set (role_member_of projected) = membership_roles (\<lambda>_. True) member (l_role_membership_grantors (local s))
     \<and> set (role_can_administer_membership projected) = membership_roles mem_admin member (l_role_membership_grantors (local s))
     \<and> set (role_can_inherit_from projected) = membership_roles mem_inherit member (l_role_membership_grantors (local s))
     \<and> set (role_can_set_role_to projected) = membership_roles mem_set member (l_role_membership_grantors (local s))"
  by (rule exI [where x = "fold (project_membership member) (l_role_membership_grantors (local s))
      (role\<lparr>role_member_of := [], role_can_administer_membership := [], role_can_inherit_from := [],
        role_can_set_role_to := []\<rparr>)"])
    (use assms in \<open>simp add: reconcile_membership_projection_def project_fold\<close>)

section \<open>Witnesses\<close>

text \<open>An application role that may become its owner role through a group, on PostgreSQL 17.\<close>

definition sample_role_state :: "string \<Rightarrow> oid list \<Rightarrow> role_state" where
  "sample_role_state name groups = \<lparr>role_id = Oid [] name, role_can_login = True, role_is_superuser = False,
     role_inherits = True, role_member_of = groups, role_can_administer_membership = [],
     role_can_inherit_from = groups, role_can_set_role_to = groups\<rparr>"

definition sample_roles :: "oid \<rightharpoonup> role_state overlay" where
  "sample_roles = [Oid [] ''app'' \<mapsto> Present (sample_role_state ''app'' [Oid [] ''team'']),
     Oid [] ''team'' \<mapsto> Present (sample_role_state ''team'' [Oid [] ''owner'', Oid [] ''app'']),
     Oid [] ''owner'' \<mapsto> Present (sample_role_state ''owner'' [])]"

definition sample_context :: role_context where
  "sample_context = \<lparr>rc_current_role = ''app'', rc_current_role_known = True,
     rc_persistent_current_role = ''app'', rc_persistent_current_role_known = True,
     rc_session_role = ''app'', rc_session_role_known = True,
     rc_persistent_session_role = ''app'', rc_persistent_session_role_known = True\<rparr>"

definition sample_local :: local_state where
  "sample_local = \<lparr>l_schemas = Map.empty, l_relations = Map.empty, l_types = Map.empty,
     l_functions = Map.empty, l_sequences = Map.empty, l_extensions = Map.empty, l_publications = Map.empty,
     l_subscriptions = Map.empty, l_roles = sample_roles,
     l_role_membership_grantors =
       [\<lparr>mem_member = Oid [] ''app'', mem_role = Oid [] ''team'', mem_grantor = Oid [] ''owner'',
         mem_admin = False, mem_inherit = False, mem_set = True\<rparr>],
     l_role_membership_grantors_complete = True, l_bootstrap_superuser = None, l_triggers = Map.empty,
     l_constraints = Map.empty, l_graph = graph_new, l_search_path = [],
     l_collations = \<lparr>coll_entries = {}\<rparr>, l_saw_temp_object = False, l_search_path_template = [],
     l_session_search_path_template = [], l_default_search_path_template = [],
     l_source_existing_schemas = None, l_lock_timeout = scoped_setting_new None,
     l_statement_timeout = scoped_setting_new None, l_role_context = sample_context,
     l_authenticated_role = ''app'', l_authenticated_role_known = True, l_roles_known = True,
     l_confidence = Exact, l_evidence = log_default, l_current_evidence_location = None,
     l_transactions = [], l_transaction_aborted = False, l_pending_validation = {}, l_generation_counter = 0\<rparr>"

definition sample_state :: analysis_state where
  "sample_state = \<lparr>pg_version_num = Some 170000, asserted_pg_version_num = None, st_target_database = None, baseline_available = True,
     baseline_boundary_queries_complete = True,
     baseline_coverage = \<lparr>cov_schema_scope = AllNonSystem, cov_families = {}\<rparr>, baseline_schemas = None,
     baseline_relations = {}, baseline_indexes = {}, baseline_foreign_keys = {},
     baseline_fk_dependencies = {}, baseline_sequences = {}, scoped_external_dependencies = {},
     external_referencing_schemas = {}, co_dropped_objects = {}, local = sample_local\<rparr>"

lemma sample_present:
  "present_role sample_state ''app'' = Some (sample_role_state ''app'' [Oid [] ''team''])"
  "present_role sample_state ''team'' = Some (sample_role_state ''team'' [Oid [] ''owner'', Oid [] ''app''])"
  "present_role sample_state ''owner'' = Some (sample_role_state ''owner'' [])"
  by (simp_all add: present_role_def sample_state_def sample_local_def sample_roles_def)

lemma sample_known:
  "finite (dom (l_roles (local sample_state)))" "l_roles_known (local sample_state)"
  "rc_session_role_known (role_context_of sample_state)" "rc_session_role (role_context_of sample_state) = ''app''"
  by (simp_all add: sample_state_def sample_local_def sample_roles_def sample_context_def)

theorem local_settings_end_with_transaction_witness:
  "session_view (restore_persistent_role_context (snd (apply_search_path
       \<lparr>spc_target = Schemas [''s''], spc_local = True\<rparr> sample_state)))
     = session_view (restore_persistent_role_context sample_state)"
  using local_settings_end_with_transaction [of "\<lparr>spc_target = Schemas [''s''], spc_local = True\<rparr>"] by simp

theorem can_set_role_to_exact_witness: "can_set_role_to sample_state ''owner'' = Some (Some True)"
proof -
  have "(Oid [] ''app'', Oid [] ''team'') \<in> set_role_edges sample_state"
    "(Oid [] ''team'', Oid [] ''owner'') \<in> set_role_edges sample_state"
    by (simp_all add: set_role_edges_def sample_present sample_role_state_def)
  then have "(Oid [] ''app'', Oid [] ''owner'') \<in> (set_role_edges sample_state)\<^sup>*" by auto
  then show ?thesis
    using can_set_role_to_exact [OF sample_known(1-3), of "''owner''" "sample_role_state ''app'' [Oid [] ''team'']"]
    by (auto simp: sample_present sample_known)
qed

theorem effective_relation_privilege_sound_witness:
  "\<exists>answer. effective_relation_privilege sample_state sample_relation (Oid [] ''app'') PSelect False = Some answer"
  using effective_relation_privilege_sound [OF sample_known(1), of sample_relation "Oid [] ''app''" PSelect False]
  by blast

theorem authorize_relation_grant_denies_on_missing_evidence_witness:
  "authorize_relation_grant (sample_state\<lparr>pg_version_num := None\<rparr>) sample_relation {PSelect}
     (Some (Oid [] ''app'')) = Some (Some False)"
proof (rule authorize_relation_grant_denies_on_missing_evidence)
  let ?s = "sample_state\<lparr>pg_version_num := None\<rparr>"
  show present: "present_role ?s (name_of (Oid [] ''app'')) = Some (sample_role_state ''app'' [Oid [] ''team''])"
    by (simp add: present_role_def sample_state_def sample_local_def sample_roles_def)
  show "\<not> role_is_superuser (sample_role_state ''app'' [Oid [] ''team''])" by (simp add: sample_role_state_def)
  show "r_owner sample_relation \<noteq> Oid [] ''app''"
    by (simp add: sample_relation_def add_column_def relation_new_def Let_def)
  have "visit_privilege ?s sample_relation PSelect True (Oid [] ''app'') = Abort"
    using present
    by (simp add: visit_privilege_def expand_inherited_def effective_pg_version_def sample_state_def
        has_direct_grant_option_def has_grant_option_def sample_relation_def add_column_def relation_new_def
        matrix_default_def Let_def)
  then show "effective_relation_privilege ?s sample_relation (Oid [] ''app'') PSelect True = Some None"
    by (simp add: effective_relation_privilege_def sample_known role_search.simps)
qed

theorem reconcile_membership_projection_exact_witness:
  "\<exists>projected. l_roles (local (reconcile_membership_projection (Oid [] ''app'') sample_state)) =
       sample_roles(Oid [] ''app'' \<mapsto> Present projected)
     \<and> set (role_can_inherit_from projected) = {} \<and> set (role_can_set_role_to projected) = {Oid [] ''team''}"
  using reconcile_membership_projection_exact
    [of sample_state "Oid [] ''app''" "sample_role_state ''app'' [Oid [] ''team'']"]
  by (auto simp: sample_state_def sample_local_def sample_roles_def)

end
