(* ===== verification/Cascade.thy ===== *)
theory Cascade
  imports Session
begin

text \<open>
  The closure of \<^verbatim>\<open>DROP ... CASCADE\<close> (\<^verbatim>\<open>src/src/_internal/analysis/state/cascade.rs\<close> and
  \<^verbatim>\<open>cascade_for_relations\<close> of \<^verbatim>\<open>state/apply_view_index.rs\<close>).

  The walk is a depth-first search that threads the set of visited objects through the loop over the
  edges. Its recursion has no structural argument, so the model carries fuel for the depth; every
  call below the first visits a new end of an edge, so one more than the number of edges is enough
  (\<open>walk_cascade_total\<close>) and \<open>get_cascade_closure\<close> runs with that much.
\<close>

section \<open>The walk\<close>

record cascade_result =
  dropped_relations :: "oid set"
  dropped_indexes :: "oid set"
  dropped_constraints :: "(oid \<times> string) set"

definition cascade_default :: cascade_result where
  "cascade_default = \<lparr>dropped_relations = {}, dropped_indexes = {}, dropped_constraints = {}\<rparr>"

definition dependency_edge_is_current :: "analysis_state \<Rightarrow> dependency_edge \<Rightarrow> bool" where
  "dependency_edge_is_current s e =
     (case edge_kind e of
        ForeignKey _ _ _ _ generation \<Rightarrow>
          (case l_relations (local s) (resolve_rename (graph_of s) (dependent e)) of
             Some (Present relation) \<Rightarrow> r_generation relation = generation
           | Some Dropped \<Rightarrow> False
           | None \<Rightarrow> True)
      | ViewDependency generation _ \<Rightarrow>
          (case l_relations (local s) (resolve_rename (graph_of s) (dependent e)) of
             Some (Present relation) \<Rightarrow> r_generation relation = generation
           | Some Dropped \<Rightarrow> False
           | None \<Rightarrow> True)
      | TriggerOnTable trigger_id _ generation \<Rightarrow>
          (case l_triggers (local s) (resolve_rename (graph_of s) trigger_id) of
             Some (Present trigger) \<Rightarrow> trg_generation trigger = generation
           | Some Dropped \<Rightarrow> False
           | None \<Rightarrow> True)
      | _ \<Rightarrow> True)"

type_synonym walk_state = "oid set \<times> cascade_result"

text \<open>One edge; \<open>walk\<close> is the recursive call.\<close>

definition walk_cascade_edge ::
  "(oid \<Rightarrow> walk_state \<Rightarrow> walk_state option) \<Rightarrow> analysis_state \<Rightarrow> oid \<Rightarrow> dependency_edge
     \<Rightarrow> walk_state \<Rightarrow> walk_state option" where
  "walk_cascade_edge walk s resolved_current e acc =
     (let child = resolve_rename (graph_of s) (dependent e);
          here = (resolve_rename (graph_of s) (referenced e) = resolved_current);
          descend = (if here \<and> child \<notin> fst acc then walk child acc else Some acc)
      in if \<not> dependency_edge_is_current s e then Some acc
         else case edge_kind e of
             ViewDependency _ _ \<Rightarrow> descend
           | IndexOnRelation _ _ _ _ _ _ \<Rightarrow>
               Some (if here then (fst acc, (snd acc)\<lparr>dropped_indexes := insert child (dropped_indexes (snd acc))\<rparr>)
                     else acc)
           | ForeignKey (Some cname) _ _ _ _ \<Rightarrow>
               Some (if here
                     then (fst acc, (snd acc)\<lparr>dropped_constraints := insert (child, cname) (dropped_constraints (snd acc))\<rparr>)
                     else acc)
           | InheritanceOf \<Rightarrow> descend
           | PartitionOf \<Rightarrow> descend
           | _ \<Rightarrow> Some acc)"

fun walk_cascade_edges ::
  "(oid \<Rightarrow> walk_state \<Rightarrow> walk_state option) \<Rightarrow> analysis_state \<Rightarrow> oid \<Rightarrow> dependency_edge list
     \<Rightarrow> walk_state \<Rightarrow> walk_state option" where
  "walk_cascade_edges walk s c [] acc = Some acc"
| "walk_cascade_edges walk s c (e # es) acc =
     (case walk_cascade_edge walk s c e acc of
        None \<Rightarrow> None
      | Some acc' \<Rightarrow> walk_cascade_edges walk s c es acc')"

fun walk_cascade :: "nat \<Rightarrow> analysis_state \<Rightarrow> oid \<Rightarrow> walk_state \<Rightarrow> walk_state option" where
  "walk_cascade 0 s current acc = None"
| "walk_cascade (Suc fuel) s current acc =
     (let c = resolve_rename (graph_of s) current
      in if c \<in> fst acc then Some acc
         else walk_cascade_edges (walk_cascade fuel s) s c
           (if cascade_index_is_worthwhile (graph_of s) then cascade_edges (graph_of s) c else edges (graph_of s))
           (insert c (fst acc), (snd acc)\<lparr>dropped_relations := insert c (dropped_relations (snd acc))\<rparr>))"

definition get_cascade_closure :: "analysis_state \<Rightarrow> oid \<Rightarrow> cascade_result" where
  "get_cascade_closure s target =
     (case walk_cascade (Suc (Suc (length (edges (graph_of s))))) s target ({}, cascade_default) of
        None \<Rightarrow> cascade_default
      | Some (_, result) \<Rightarrow> result)"

definition merge_cascade :: "cascade_result \<Rightarrow> cascade_result \<Rightarrow> cascade_result" where
  "merge_cascade closure cascade =
     \<lparr>dropped_relations = dropped_relations cascade \<union> dropped_relations closure,
      dropped_indexes = dropped_indexes cascade \<union> dropped_indexes closure,
      dropped_constraints = dropped_constraints cascade \<union> dropped_constraints closure\<rparr>"

definition cascade_for_relations :: "analysis_state \<Rightarrow> oid list \<Rightarrow> cascade_result" where
  "cascade_for_relations s roots =
     fold (\<lambda>root cascade. merge_cascade (get_cascade_closure s root) cascade) roots cascade_default"

section \<open>What the walk computes\<close>

text \<open>The dependents a drop carries away with an object.\<close>

fun drags :: "dependency_kind \<Rightarrow> bool" where
  "drags (ViewDependency _ _) = True"
| "drags InheritanceOf = True"
| "drags PartitionOf = True"
| "drags _ = False"

definition cascade_rel :: "analysis_state \<Rightarrow> (oid \<times> oid) set" where
  "cascade_rel s =
     {(a, b). \<exists>e \<in> set (edges (graph_of s)). dependency_edge_is_current s e \<and> drags (edge_kind e)
        \<and> a = resolve_rename (graph_of s) (referenced e) \<and> b = resolve_rename (graph_of s) (dependent e)}"

text \<open>The index or foreign key an edge attaches to the object it references.\<close>

definition item_of_edge :: "analysis_state \<Rightarrow> dependency_edge \<Rightarrow> (oid + oid \<times> string) set" where
  "item_of_edge s e =
     (if \<not> dependency_edge_is_current s e then {}
      else case edge_kind e of
          IndexOnRelation _ _ _ _ _ _ \<Rightarrow> {Inl (resolve_rename (graph_of s) (dependent e))}
        | ForeignKey (Some cname) _ _ _ _ \<Rightarrow> {Inr (resolve_rename (graph_of s) (dependent e), cname)}
        | _ \<Rightarrow> {})"

definition hanging :: "analysis_state \<Rightarrow> oid set \<Rightarrow> (oid + oid \<times> string) set" where
  "hanging s V =
     {i. \<exists>e \<in> set (edges (graph_of s)). resolve_rename (graph_of s) (referenced e) \<in> V \<and> i \<in> item_of_edge s e}"

definition items :: "cascade_result \<Rightarrow> (oid + oid \<times> string) set" where
  "items r = Inl ` dropped_indexes r \<union> Inr ` dropped_constraints r"

lemma items_simps [simp]:
  "items (r\<lparr>dropped_relations := a\<rparr>) = items r"
  "items (r\<lparr>dropped_indexes := insert i (dropped_indexes r)\<rparr>) = insert (Inl i) (items r)"
  "items (r\<lparr>dropped_constraints := insert k (dropped_constraints r)\<rparr>) = insert (Inr k) (items r)"
  "items cascade_default = {}"
  by (auto simp: items_def cascade_default_def)

lemma hanging_mono: "A \<subseteq> B \<Longrightarrow> hanging s A \<subseteq> hanging s B"
  by (auto simp: hanging_def)

lemma hanging_Un: "hanging s (A \<union> B) = hanging s A \<union> hanging s B"
  by (auto simp: hanging_def)

definition ends :: "analysis_state \<Rightarrow> oid set" where
  "ends s = (\<lambda>e. resolve_rename (graph_of s) (dependent e)) ` set (edges (graph_of s))"

lemma finite_ends: "finite (ends s)"
  by (simp add: ends_def)

lemma card_ends: "card (ends s) \<le> length (edges (graph_of s))"
  unfolding ends_def by (meson card_image_le card_length finite_set le_trans)

text \<open>
  The contract of one call: it only adds visited objects, all of them reachable from \<open>A\<close>; what it
  adds is closed under dragging up to what was visited before; what hangs off the added objects is
  recorded, and nothing else is.
\<close>

definition sane :: "analysis_state \<Rightarrow> walk_state \<Rightarrow> bool" where
  "sane s acc \<longleftrightarrow> dropped_relations (snd acc) = fst acc \<and> items (snd acc) \<subseteq> hanging s (fst acc)"

definition walked :: "analysis_state \<Rightarrow> oid set \<Rightarrow> walk_state \<Rightarrow> walk_state \<Rightarrow> bool" where
  "walked s A acc acc' \<longleftrightarrow>
     fst acc \<subseteq> fst acc' \<and> fst acc' \<subseteq> fst acc \<union> (cascade_rel s)\<^sup>* `` A
     \<and> cascade_rel s `` (fst acc' - fst acc) \<subseteq> fst acc'
     \<and> items (snd acc) \<subseteq> items (snd acc') \<and> hanging s (fst acc' - fst acc) \<subseteq> items (snd acc')
     \<and> (sane s acc \<longrightarrow> sane s acc')"

lemma walked_refl [simp]: "walked s A acc acc"
  by (simp add: walked_def hanging_def)

lemma walked_trans:
  assumes "walked s A acc acc'" "walked s A acc' acc''"
  shows "walked s A acc acc''"
proof -
  have "fst acc'' - fst acc = (fst acc'' - fst acc') \<union> (fst acc' - fst acc)"
    using assms by (auto simp: walked_def)
  then show ?thesis using assms unfolding walked_def by (simp add: hanging_Un Image_Un) blast
qed

lemma walked_from: "(c, a) \<in> cascade_rel s \<Longrightarrow> walked s {a} acc acc' \<Longrightarrow> walked s {c} acc acc'"
  unfolding walked_def by (auto intro: converse_rtrancl_into_rtrancl)

lemma walked_item:
  assumes "fst acc' = fst acc" "items (snd acc') = items (snd acc) \<union> X" "X \<subseteq> hanging s (fst acc)"
    and "dropped_relations (snd acc') = dropped_relations (snd acc)"
  shows "walked s A acc acc'"
  using assms by (auto simp: walked_def sane_def hanging_def)

text \<open>What the loop over the edges of \<open>c\<close> owes to one edge.\<close>

definition covered :: "analysis_state \<Rightarrow> oid \<Rightarrow> dependency_edge \<Rightarrow> walk_state \<Rightarrow> bool" where
  "covered s c e acc \<longleftrightarrow>
     (resolve_rename (graph_of s) (referenced e) = c \<longrightarrow>
        item_of_edge s e \<subseteq> items (snd acc)
        \<and> (dependency_edge_is_current s e \<and> drags (edge_kind e) \<longrightarrow>
             resolve_rename (graph_of s) (dependent e) \<in> fst acc))"

lemma covered_mono: "covered s c e acc \<Longrightarrow> walked s A acc acc' \<Longrightarrow> covered s c e acc'"
  by (auto simp: covered_def walked_def)

lemma resolve_rename_idem [simp]:
  assumes "graph_wf g"
  shows "resolve_rename g (resolve_rename g obj) = resolve_rename g obj"
  using resolve_rename_cases [OF assms, of obj] resolve_rename_end [OF assms rtrancl_refl] by metis

lemma cascade_edges_eq:
  "graph_wf g \<Longrightarrow> cascade_edges g obj =
     filter (\<lambda>e. is_cascade_kind (edge_kind e) \<and> resolve_rename g (referenced e) = resolve_rename g obj) (edges g)"
  by (simp add: cascade_edges_def Let_def resolved_referenced_edges_eq conj_commute)

text \<open>What a recursive call must satisfy for the loop of its caller.\<close>

definition walks :: "analysis_state \<Rightarrow> (oid \<Rightarrow> walk_state \<Rightarrow> walk_state option) \<Rightarrow> bool" where
  "walks s walk \<longleftrightarrow>
     (\<forall>c acc acc'. walk c acc = Some acc' \<longrightarrow> resolve_rename (graph_of s) c = c \<longrightarrow>
        c \<in> fst acc' \<and> walked s {c} acc acc')"

lemma walksD:
  "walks s walk \<Longrightarrow> walk c acc = Some acc' \<Longrightarrow> resolve_rename (graph_of s) c = c \<Longrightarrow>
     c \<in> fst acc' \<and> walked s {c} acc acc'"
  unfolding walks_def by blast

lemma descend_walked:
  assumes "graph_wf (graph_of s)" "walks s walk" "e \<in> set (edges (graph_of s))" "dependency_edge_is_current s e" "drags (edge_kind e)"
    and "(if resolve_rename (graph_of s) (referenced e) = c \<and> resolve_rename (graph_of s) (dependent e) \<notin> fst acc
          then walk (resolve_rename (graph_of s) (dependent e)) acc else Some acc) = Some acc'"
  shows "walked s {c} acc acc' \<and> (resolve_rename (graph_of s) (referenced e) = c \<longrightarrow>
     resolve_rename (graph_of s) (dependent e) \<in> fst acc')"
proof (cases "resolve_rename (graph_of s) (referenced e) = c \<and> resolve_rename (graph_of s) (dependent e) \<notin> fst acc")
  case True
  then have "(c, resolve_rename (graph_of s) (dependent e)) \<in> cascade_rel s"
    using assms(3-5) by (auto simp: cascade_rel_def)
  moreover have "resolve_rename (graph_of s) (dependent e) \<in> fst acc'
      \<and> walked s {resolve_rename (graph_of s) (dependent e)} acc acc'"
    using assms(1,6) True by (intro walksD [OF assms(2)]) simp_all
  ultimately show ?thesis using walked_from by blast
qed (use assms(6) in \<open>auto split: if_splits\<close>)

lemma walk_cascade_edge_walked:
  assumes "graph_wf (graph_of s)" "walks s walk" "e \<in> set (edges (graph_of s))" "c \<in> fst acc"
    and "walk_cascade_edge walk s c e acc = Some acc'"
  shows "walked s {c} acc acc' \<and> covered s c e acc'"
proof (cases "dependency_edge_is_current s e")
  case True
  note dw = descend_walked [OF assms(1-3) True, of c acc acc']
  have hang: "item_of_edge s e \<subseteq> hanging s (fst acc)" if "resolve_rename (graph_of s) (referenced e) = c"
    using that assms(3,4) by (auto simp: hanging_def)
  show ?thesis
  proof (cases "drags (edge_kind e)")
    case drag: True
    then have "item_of_edge s e = {}" by (cases "edge_kind e") (simp_all add: item_of_edge_def)
    with drag dw show ?thesis using assms(5) True
      by (cases "edge_kind e") (simp_all add: walk_cascade_edge_def Let_def covered_def)
  next
    case False
    have "fst acc' = fst acc \<and> dropped_relations (snd acc') = dropped_relations (snd acc)
        \<and> items (snd acc') = items (snd acc) \<union>
            (if resolve_rename (graph_of s) (referenced e) = c then item_of_edge s e else {})"
      using assms(5) True False
      by (cases "edge_kind e") (auto simp: walk_cascade_edge_def Let_def item_of_edge_def split: option.splits)
    then show ?thesis using hang False
      by (intro conjI walked_item [where X = "if resolve_rename (graph_of s) (referenced e) = c then item_of_edge s e else {}"])
        (auto simp: covered_def)
  qed
qed (use assms(5) in \<open>simp add: walk_cascade_edge_def Let_def covered_def item_of_edge_def\<close>)

lemma walk_cascade_edges_walked:
  assumes "graph_wf (graph_of s)" "walks s walk"
  shows "set es \<subseteq> set (edges (graph_of s)) \<Longrightarrow> c \<in> fst acc \<Longrightarrow>
    walk_cascade_edges walk s c es acc = Some acc' \<Longrightarrow>
    walked s {c} acc acc' \<and> (\<forall>e \<in> set es. covered s c e acc')"
proof (induction es arbitrary: acc)
  case (Cons e es)
  from Cons.prems(3) obtain acc1 where acc1: "walk_cascade_edge walk s c e acc = Some acc1"
    "walk_cascade_edges walk s c es acc1 = Some acc'" by (auto split: option.splits)
  have one: "walked s {c} acc acc1 \<and> covered s c e acc1"
    using Cons.prems(1,2) acc1(1) by (intro walk_cascade_edge_walked [OF assms]) auto
  then have "c \<in> fst acc1" using Cons.prems(2) by (auto simp: walked_def)
  then have rest: "walked s {c} acc1 acc' \<and> (\<forall>e \<in> set es. covered s c e acc')"
    using Cons.IH Cons.prems(1) acc1(2) by simp
  have "covered s c e acc'" using covered_mono one rest by blast
  with one rest show ?case using walked_trans [of s "{c}" acc acc1 acc'] by simp
qed simp

lemma not_cascade_kind: "\<not> is_cascade_kind k \<Longrightarrow> \<not> drags k"
  by (cases k) simp_all

lemma not_cascade_item: "\<not> is_cascade_kind (edge_kind e) \<Longrightarrow> item_of_edge s e = {}"
  by (cases "edge_kind e") (simp_all add: item_of_edge_def)

text \<open>The indexed candidates of a large graph and the scan of a small one cover the same edges.\<close>

definition candidates :: "analysis_state \<Rightarrow> oid \<Rightarrow> dependency_edge list" where
  "candidates s c =
     (if cascade_index_is_worthwhile (graph_of s) then cascade_edges (graph_of s) c else edges (graph_of s))"

lemma candidates_covered:
  assumes "graph_wf (graph_of s)" "resolve_rename (graph_of s) c = c"
    and "\<forall>e \<in> set (candidates s c). covered s c e acc" "e \<in> set (edges (graph_of s))"
  shows "covered s c e acc"
  using assms not_cascade_kind [of "edge_kind e"] not_cascade_item [of e s]
  by (cases "e \<in> set (candidates s c)") (auto simp: covered_def candidates_def cascade_edges_eq split: if_splits)

lemma candidates_edges: "graph_wf (graph_of s) \<Longrightarrow> set (candidates s c) \<subseteq> set (edges (graph_of s))"
  by (auto simp: candidates_def cascade_edges_eq)

lemma walk_start:
  assumes "c \<notin> fst acc" "\<forall>e \<in> set (edges (graph_of s)). covered s c e acc'"
    and "walked s {c} (insert c (fst acc), (snd acc)\<lparr>dropped_relations := insert c (dropped_relations (snd acc))\<rparr>) acc'"
  shows "walked s {c} acc acc'"
proof -
  have diff: "fst acc' - fst acc = insert c (fst acc' - insert c (fst acc))"
    using assms(1,3) by (auto simp: walked_def)
  have "cascade_rel s `` {c} \<subseteq> fst acc'" "hanging s {c} \<subseteq> items (snd acc')"
    using assms(2) by (auto simp: cascade_rel_def hanging_def covered_def)
  moreover have "sane s (insert c (fst acc), (snd acc)\<lparr>dropped_relations := insert c (dropped_relations (snd acc))\<rparr>)"
    if "sane s acc"
    using that hanging_mono [of "fst acc" "insert c (fst acc)" s] by (auto simp: sane_def)
  ultimately show ?thesis using assms(3) unfolding walked_def diff
    by (auto simp: hanging_def)
qed

lemma walk_cascade_walks: "graph_wf (graph_of s) \<Longrightarrow> walks s (walk_cascade fuel s)"
proof (induction fuel)
  case (Suc fuel)
  have "c \<in> fst acc' \<and> walked s {c} acc acc'"
    if w: "walk_cascade (Suc fuel) s c acc = Some acc'" and c: "resolve_rename (graph_of s) c = c" for c acc acc'
  proof (cases "c \<in> fst acc")
    case False
    let ?acc = "(insert c (fst acc), (snd acc)\<lparr>dropped_relations := insert c (dropped_relations (snd acc))\<rparr>)"
    have "walk_cascade_edges (walk_cascade fuel s) s c (candidates s c) ?acc = Some acc'"
      using w c False by (simp add: candidates_def Let_def)
    from walk_cascade_edges_walked [OF Suc.prems Suc.IH [OF Suc.prems] candidates_edges [OF Suc.prems] _ this]
    have loop: "walked s {c} ?acc acc'" "\<forall>e \<in> set (candidates s c). covered s c e acc'"
      by simp_all
    then show ?thesis
      using walk_start [OF False _ loop(1)] candidates_covered [OF Suc.prems c loop(2)]
      by (auto simp: walked_def)
  qed (use w c in simp)
  then show ?case by (simp add: walks_def del: walk_cascade.simps)
qed (simp add: walks_def)

section \<open>The walk ends\<close>

lemma walk_cascade_edge_total:
  "walk (resolve_rename (graph_of s) (dependent e)) acc \<noteq> None \<Longrightarrow> walk_cascade_edge walk s c e acc \<noteq> None"
  unfolding walk_cascade_edge_def Let_def
  by (simp split: dependency_kind.splits option.splits del: not_None_eq)

lemma walk_cascade_edges_total:
  assumes "graph_wf (graph_of s)" "walks s walk"
    and total: "\<And>d acc'. d \<in> ends s \<Longrightarrow> resolve_rename (graph_of s) d = d \<Longrightarrow> fst acc \<subseteq> fst acc' \<Longrightarrow> walk d acc' \<noteq> None"
  shows "set es \<subseteq> set (edges (graph_of s)) \<Longrightarrow> c \<in> fst acc1 \<Longrightarrow> fst acc \<subseteq> fst acc1 \<Longrightarrow>
    walk_cascade_edges walk s c es acc1 \<noteq> None"
proof (induction es arbitrary: acc1)
  case (Cons e es)
  have "resolve_rename (graph_of s) (dependent e) \<in> ends s" using Cons.prems(1) by (auto simp: ends_def)
  then have "walk (resolve_rename (graph_of s) (dependent e)) acc1 \<noteq> None"
    using total Cons.prems(3) assms(1) by simp
  from walk_cascade_edge_total [of walk s e acc1 c, OF this]
  obtain acc2 where acc2: "walk_cascade_edge walk s c e acc1 = Some acc2" by blast
  have "walked s {c} acc1 acc2"
    using Cons.prems(1,2) acc2 walk_cascade_edge_walked [OF assms(1,2), of e c acc1 acc2] by simp
  then have "fst acc1 \<subseteq> fst acc2" by (simp add: walked_def)
  then have "walk_cascade_edges walk s c es acc2 \<noteq> None"
    using Cons.prems by (intro Cons.IH) auto
  with acc2 show ?case by simp
qed simp

lemma walk_cascade_total:
  assumes "graph_wf (graph_of s)"
  shows "resolve_rename (graph_of s) c = c \<Longrightarrow> card (ends s - insert c (fst acc)) < fuel \<Longrightarrow>
    walk_cascade (Suc fuel) s c acc \<noteq> None"
proof (induction fuel arbitrary: c acc)
  case (Suc fuel)
  show ?case
  proof (cases "c \<in> fst acc")
    case False
    let ?acc = "(insert c (fst acc), (snd acc)\<lparr>dropped_relations := insert c (dropped_relations (snd acc))\<rparr>)"
    have "walk_cascade (Suc fuel) s d acc' \<noteq> None"
      if d: "d \<in> ends s" "resolve_rename (graph_of s) d = d" "fst ?acc \<subseteq> fst acc'" for d acc'
    proof (cases "d \<in> fst acc'")
      case False
      have "ends s - insert d (fst acc') \<subset> ends s - insert c (fst acc)" using d False by auto
      then have "card (ends s - insert d (fst acc')) < card (ends s - insert c (fst acc))"
        by (intro psubset_card_mono finite_Diff finite_ends)
      then show ?thesis using Suc.prems(2) d(2) by (intro Suc.IH) linarith+
    qed (simp add: d(2))
    then have "walk_cascade_edges (walk_cascade (Suc fuel) s) s c (candidates s c) ?acc \<noteq> None"
      using candidates_edges [OF assms]
      by (intro walk_cascade_edges_total [OF assms walk_cascade_walks [OF assms], of ?acc]) auto
    then show ?thesis using Suc.prems(1) False by (simp add: candidates_def Let_def)
  qed (simp add: Suc.prems(1))
qed simp

lemma walk_cascade_resolved:
  "graph_wf (graph_of s) \<Longrightarrow> walk_cascade fuel s (resolve_rename (graph_of s) t) acc = walk_cascade fuel s t acc"
  by (cases fuel) simp_all

lemma cascade_closure_exact:
  assumes "graph_wf (graph_of s)"
  shows "dropped_relations (get_cascade_closure s t) = (cascade_rel s)\<^sup>* `` {resolve_rename (graph_of s) t}"
    and "items (get_cascade_closure s t) = hanging s ((cascade_rel s)\<^sup>* `` {resolve_rename (graph_of s) t})"
proof -
  let ?c = "resolve_rename (graph_of s) t" and ?n = "Suc (length (edges (graph_of s)))"
  have "card (ends s - insert ?c (fst ({}, cascade_default))) < ?n"
    using card_ends [of s] card_mono [of "ends s" "ends s - insert ?c {}"] finite_ends [of s] by force
  then have "walk_cascade (Suc ?n) s ?c ({}, cascade_default) \<noteq> None"
    using assms by (intro walk_cascade_total) simp_all
  then obtain V r where w: "walk_cascade (Suc ?n) s ?c ({}, cascade_default) = Some (V, r)" by force
  from walksD [OF walk_cascade_walks [OF assms] w] assms
  have "?c \<in> V" and wd: "walked s {?c} ({}, cascade_default) (V, r)" by simp_all
  have "cascade_rel s `` V \<subseteq> V" using wd by (simp add: walked_def)
  from Image_closed_trancl [OF this] have "(cascade_rel s)\<^sup>* `` {?c} \<subseteq> V" using \<open>?c \<in> V\<close> by blast
  then have V: "V = (cascade_rel s)\<^sup>* `` {?c}" using wd by (auto simp: walked_def)
  have "sane s ({}, cascade_default)" by (simp add: sane_def cascade_default_def items_def)
  then have "dropped_relations r = V" "items r = hanging s V" using wd by (auto simp: walked_def sane_def)
  moreover have "get_cascade_closure s t = r"
    using w unfolding get_cascade_closure_def walk_cascade_resolved [OF assms, of "Suc ?n" t] by simp
  ultimately show "dropped_relations (get_cascade_closure s t) = (cascade_rel s)\<^sup>* `` {?c}"
    "items (get_cascade_closure s t) = hanging s ((cascade_rel s)\<^sup>* `` {?c})" by (simp_all add: V)
qed

lemma merge_cascade_fold:
  "dropped_relations (fold (\<lambda>root. merge_cascade (f root)) roots acc) =
     dropped_relations acc \<union> (\<Union>root \<in> set roots. dropped_relations (f root))"
  "items (fold (\<lambda>root. merge_cascade (f root)) roots acc) = items acc \<union> (\<Union>root \<in> set roots. items (f root))"
  by (induction roots arbitrary: acc) (auto simp: merge_cascade_def items_def)

section \<open>Properties\<close>

text \<open>
  C8. The closure of \<^verbatim>\<open>CASCADE\<close> is exact, and is found on every graph: the relations are those that
  the named ones reach through current view, inheritance and partition edges, renames followed; the
  indexes and foreign keys are those attached to one of these relations. It does not depend on
  whether the graph is large enough to be searched through its indexes, and a cycle does not
  prevent the walk from ending.
\<close>

theorem cascade_for_relations_exact:
  assumes "graph_wf (graph_of s)"
  shows "dropped_relations (cascade_for_relations s roots) =
      (cascade_rel s)\<^sup>* `` (resolve_rename (graph_of s) ` set roots)
    \<and> items (cascade_for_relations s roots) =
      hanging s ((cascade_rel s)\<^sup>* `` (resolve_rename (graph_of s) ` set roots))"
  unfolding cascade_for_relations_def merge_cascade_fold cascade_closure_exact [OF assms]
  by (auto simp: cascade_default_def items_def hanging_def)

text \<open>
  A partition whose detachment is pending is left out of the closure: no object is dropped
  because of such an edge, although \<^verbatim>\<open>cascade_edges\<close> offers the edge to the walk, and although a drop
  without \<^verbatim>\<open>CASCADE\<close> counts it as a dependent.
\<close>

theorem detach_pending_not_followed:
  assumes "graph_wf (graph_of s)" "edges (graph_of s) = [edge_new p t PartitionDetachPending]"
  shows "cascade_edges (graph_of s) t = [edge_new p t PartitionDetachPending]
    \<and> dropped_relations (cascade_for_relations s [t]) = {t}"
proof -
  have "resolve_rename (graph_of s) t = t"
    using assms by (intro resolve_rename_end [OF _ rtrancl_refl])
      (simp_all add: rename_target_def is_rename_of_def edge_new_def)
  moreover have "cascade_rel s = {}" using assms by (auto simp: cascade_rel_def edge_new_def)
  ultimately show ?thesis
    using assms cascade_closure_exact(1) [OF assms(1), of t]
    by (simp add: cascade_edges_eq edge_new_def cascade_for_relations_def merge_cascade_def cascade_default_def)
qed

definition with_edges :: "dependency_edge list \<Rightarrow> analysis_state" where
  "with_edges es = on_graph (fold add_edge es) sample_state"

lemma with_edges_wf: "graph_wf (graph_of (with_edges es))"
proof -
  have "graph_wf (fold add_edge es g)" if "graph_wf g" for g
    using that by (induction es arbitrary: g) (simp_all add: graph_wf_add)
  then show ?thesis by (simp add: with_edges_def on_graph_def sample_state_def sample_local_def graph_wf_new)
qed

lemma with_edges_two:
  "a \<noteq> b \<Longrightarrow> edges (graph_of (with_edges [a, b])) = [a, b]" "edges (graph_of (with_edges [a])) = [a]"
  by (simp_all add: with_edges_def on_graph_def sample_state_def sample_local_def add_edge_def graph_new_def
      invalidate_indexes_def)

lemma no_rename:
  "graph_wf g \<Longrightarrow> (\<And>e. e \<in> set (edges g) \<Longrightarrow> edge_kind e \<noteq> RenameTo) \<Longrightarrow> resolve_rename g i = i"
  by (rule resolve_rename_end [OF _ rtrancl_refl])
    (auto simp: rename_target_def is_rename_of_def find_None_iff)

theorem cascade_for_relations_exact_witness:
  "Oid ''s'' ''w'' \<in> dropped_relations (cascade_for_relations
     (with_edges [edge_new (Oid ''s'' ''v'') (Oid ''s'' ''t'') (ViewDependency 0 None),
        edge_new (Oid ''s'' ''w'') (Oid ''s'' ''v'') (ViewDependency 0 None)]) [Oid ''s'' ''t''])"
proof -
  define s where "s = with_edges [edge_new (Oid ''s'' ''v'') (Oid ''s'' ''t'') (ViewDependency 0 None),
        edge_new (Oid ''s'' ''w'') (Oid ''s'' ''v'') (ViewDependency 0 None)]"
  have es: "edges (graph_of s) = [edge_new (Oid ''s'' ''v'') (Oid ''s'' ''t'') (ViewDependency 0 None),
        edge_new (Oid ''s'' ''w'') (Oid ''s'' ''v'') (ViewDependency 0 None)]"
    unfolding s_def by (rule with_edges_two) (simp add: edge_new_def)
  have wf: "graph_wf (graph_of s)" unfolding s_def by (rule with_edges_wf)
  have res: "resolve_rename (graph_of s) i = i" for i
    using es wf by (intro no_rename) (auto simp: edge_new_def)
  have rels: "l_relations (local s) = Map.empty"
    by (simp add: s_def with_edges_def on_graph_def sample_state_def sample_local_def)
  have "cascade_rel s = {(Oid ''s'' ''t'', Oid ''s'' ''v''), (Oid ''s'' ''v'', Oid ''s'' ''w'')}"
    unfolding cascade_rel_def res es by (auto simp: edge_new_def dependency_edge_is_current_def rels)
  then have "(Oid ''s'' ''t'', Oid ''s'' ''w'') \<in> (cascade_rel s)\<^sup>*"
    by (auto intro: rtrancl_trans)
  then have "Oid ''s'' ''w'' \<in> dropped_relations (cascade_for_relations s [Oid ''s'' ''t''])"
    using cascade_for_relations_exact [OF wf] by (simp add: res)
  then show ?thesis by (simp only: s_def)
qed

theorem detach_pending_not_followed_witness:
  "dropped_relations (cascade_for_relations
     (with_edges [edge_new (Oid ''s'' ''p'') (Oid ''s'' ''t'') PartitionDetachPending]) [Oid ''s'' ''t''])
       = {Oid ''s'' ''t''}"
  using detach_pending_not_followed [OF with_edges_wf with_edges_two(2)] by blast

end
