(* ===== verification/Drop_Table.thy ===== *)
theory Drop_Table
  imports Cascade
begin

text \<open>
  \<^verbatim>\<open>DROP TABLE\<close> (\<^verbatim>\<open>src/src/_internal/analysis/state/apply_relation/drop.rs\<close>) with the helpers it calls:
  the removal of constraint metadata (\<^verbatim>\<open>state/lookup.rs\<close>), the extension guard
  (\<^verbatim>\<open>state/apply_extension.rs\<close>) and name resolution (\<^verbatim>\<open>state/accessors.rs\<close>).

  A loop over a hash map or a hash set runs in the order that the argument \<open>h\<close> gives to its keys;
  no theorem assumes more of it than that it lists every key.
\<close>

section \<open>Helpers\<close>

record hash_order =
  ho_ids :: "oid set \<Rightarrow> oid list"
  ho_names :: "string set \<Rightarrow> string list"
  ho_keys :: "(oid \<times> string) set \<Rightarrow> (oid \<times> string) list"
  ho_grants :: "(oid \<times> privilege) set \<Rightarrow> (oid \<times> privilege) list"

definition lists_all :: "hash_order \<Rightarrow> bool" where
  "lists_all h \<longleftrightarrow>
     (\<forall>A. finite A \<longrightarrow> set (ho_ids h A) = A) \<and> (\<forall>A. finite A \<longrightarrow> set (ho_names h A) = A)
     \<and> (\<forall>A. finite A \<longrightarrow> set (ho_keys h A) = A) \<and> (\<forall>A. finite A \<longrightarrow> set (ho_grants h A) = A)"

definition relation_namespace_object_is_present :: "analysis_state \<Rightarrow> oid \<Rightarrow> bool" where
  "relation_namespace_object_is_present s i \<longleftrightarrow>
     relation_is_present s i \<or> sequence_is_present s i \<or> index_is_present s i"

fun first_candidate :: "analysis_state \<Rightarrow> string \<Rightarrow> search_path_entry list \<Rightarrow> oid option" where
  "first_candidate s name [] = None"
| "first_candidate s name (entry # path) =
     (case searched_schema entry of
        None \<Rightarrow> first_candidate s name path
      | Some schema \<Rightarrow>
          if relation_namespace_object_is_present s (Oid schema name) then Some (Oid schema name)
          else first_candidate s name path)"

definition resolve_relation_id :: "analysis_state \<Rightarrow> qualified_name \<Rightarrow> oid" where
  "resolve_relation_id s name =
     (case qn_schema name of
        Some schema \<Rightarrow> Oid (resolve schema) (resolve (qn_name name))
      | None \<Rightarrow>
          (case first_candidate s (resolve (qn_name name)) (l_search_path (local s)) of
             Some i \<Rightarrow> i
           | None \<Rightarrow>
               Oid (case l_search_path (local s) of
                      [] \<Rightarrow> []
                    | entry # _ \<Rightarrow> (case entry_name entry of Some n \<Rightarrow> n | None \<Rightarrow> []))
                 (resolve (qn_name name))))"

definition remap_attached_extension_member :: "analysis_state \<Rightarrow> extension_member \<Rightarrow> extension_member" where
  "remap_attached_extension_member s m =
     (case rposition (\<lambda>c. c = CHR ''.'') (name_of (exm_id m)) of
        None \<Rightarrow> m
      | Some k \<Rightarrow>
          (let table = Oid (schema_of (exm_id m)) (take k (name_of (exm_id m)));
               object_name = drop (Suc k) (name_of (exm_id m));
               resolved = resolve_rename (graph_of s) table
           in if resolved = table then m
              else m\<lparr>exm_id := Oid (schema_of resolved) (name_of resolved @ ''.'' @ object_name)\<rparr>))"

definition resolve_extension_member :: "analysis_state \<Rightarrow> extension_member \<Rightarrow> extension_member" where
  "resolve_extension_member s m =
     (if exm_kind m = MemberConstraint \<or> exm_kind m = MemberTrigger then remap_attached_extension_member s m
      else if exm_kind m = MemberSchema then m
      else m\<lparr>exm_id := resolve_rename (graph_of s) (exm_id m)\<rparr>)"

definition extension_member_drop_conflict ::
  "hash_order \<Rightarrow> analysis_state \<Rightarrow> extension_member_kind \<Rightarrow> object_id \<Rightarrow> string \<Rightarrow> mutation_result option" where
  "extension_member_drop_conflict h s kind i object_name =
     map_option
       (\<lambda>extension. conflict (''cannot drop '' @ object_name @ '' '' @ object_id_display i
          @ '' because extension '' @ extension @ '' requires it''))
       (List.find
          (\<lambda>name. case l_extensions (local s) name of
              Some (Present extension) \<Rightarrow>
                (\<exists>m \<in> ext_members extension. exm_kind m = kind \<and> exm_id (resolve_extension_member s m) = oid i)
            | _ \<Rightarrow> False)
          (ho_names h (dom (l_extensions (local s)))))"

text \<open>\<^verbatim>\<open>snapshot\<close> then \<^verbatim>\<open>insert(.., Dropped)\<close> or \<^verbatim>\<open>remove\<close>.\<close>

definition drop_relation :: "oid \<Rightarrow> analysis_state \<Rightarrow> analysis_state" where
  "drop_relation i s =
     upd_local (\<lambda>l. l\<lparr>l_relations := (l_relations l)(i := Some Dropped)\<rparr>) (snapshot_relation i s)"

definition drop_sequence :: "oid \<Rightarrow> analysis_state \<Rightarrow> analysis_state" where
  "drop_sequence i s =
     upd_local (\<lambda>l. l\<lparr>l_sequences := (l_sequences l)(i := Some Dropped)\<rparr>) (snapshot_sequence i s)"

definition drop_trigger :: "oid \<Rightarrow> analysis_state \<Rightarrow> analysis_state" where
  "drop_trigger i s =
     upd_local (\<lambda>l. l\<lparr>l_triggers := (l_triggers l)(i := Some Dropped)\<rparr>) (snapshot_trigger i s)"

definition remove_constraint :: "oid \<times> string \<Rightarrow> analysis_state \<Rightarrow> analysis_state" where
  "remove_constraint k s =
     (case k of (i, n) \<Rightarrow>
        upd_local (\<lambda>l. l\<lparr>l_constraints := (l_constraints l)((i, n) := None)\<rparr>) (snapshot_constraint i n s))"

definition retain_graph :: "(dependency_edge \<Rightarrow> bool) \<Rightarrow> analysis_state \<Rightarrow> analysis_state" where
  "retain_graph P s = on_graph (retain_edges P) (snapshot_graph_full s)"

definition constraint_goes ::
  "analysis_state \<Rightarrow> oid set \<Rightarrow> (oid \<times> string) set \<Rightarrow> oid \<times> string \<Rightarrow> bool" where
  "constraint_goes s relations constraints k \<longleftrightarrow>
     (case k of (table_id, name) \<Rightarrow>
        (let resolved_table = resolve_rename (graph_of s) table_id
         in resolved_table \<in> relations \<or> (resolved_table, name) \<in> constraints))"

definition forget_pending :: "(oid \<times> string \<Rightarrow> bool) \<Rightarrow> analysis_state \<Rightarrow> analysis_state" where
  "forget_pending goes s =
     (if \<exists>k \<in> l_pending_validation (local s). goes k
      then upd_local (\<lambda>l. l\<lparr>l_pending_validation := {k \<in> l_pending_validation (local s). \<not> goes k}\<rparr>)
             (snapshot_pending_validation s)
      else s)"

definition forget_baseline_foreign_keys :: "(oid \<times> string \<Rightarrow> bool) \<Rightarrow> analysis_state \<Rightarrow> analysis_state" where
  "forget_baseline_foreign_keys goes s =
     (if \<exists>k \<in> baseline_foreign_keys s. goes k
      then (snapshot_baseline_foreign_keys s)\<lparr>baseline_foreign_keys := {k \<in> baseline_foreign_keys s. \<not> goes k}\<rparr>
      else s)"

definition remove_dropped_constraints ::
  "hash_order \<Rightarrow> oid set \<Rightarrow> (oid \<times> string) set \<Rightarrow> analysis_state \<Rightarrow> analysis_state" where
  "remove_dropped_constraints h relations constraints s =
     (let goes = constraint_goes s relations constraints
      in forget_baseline_foreign_keys goes (forget_pending goes
           (fold remove_constraint (filter goes (ho_keys h (dom (l_constraints (local s))))) s)))"

section \<open>The handler\<close>

record drop_table =
  dt_ids :: "object_id list"
  dt_if_exists :: bool
  dt_cascade :: bool

text \<open>The closure \<^verbatim>\<open>resolve\<close>, over the rename edges at the start of the statement.\<close>

function follow_renames :: "dependency_edge list \<Rightarrow> oid \<Rightarrow> oid \<Rightarrow> oid set \<Rightarrow> oid" where
  "follow_renames renames obj current visited =
     (if current \<in> visited then obj
      else case List.find (\<lambda>r. dependent r = current) renames of
          None \<Rightarrow> current
        | Some e \<Rightarrow> follow_renames renames obj (referenced e) (insert current visited))"
  by pat_completeness auto

termination follow_renames
proof (relation "measure (\<lambda>(renames, obj, current, visited).
    card (insert current (referenced ` set renames) - visited))")
  fix renames obj current visited e
  assume "current \<notin> (visited :: oid set)" "List.find (\<lambda>r. dependent r = current) renames = Some e"
  then have "insert (referenced e) (referenced ` set renames) - insert current visited
      \<subset> insert current (referenced ` set renames) - visited"
    by (auto simp: find_Some_iff)
  then show "((renames, obj, referenced e, insert current visited), (renames, obj, current, visited))
      \<in> measure (\<lambda>(renames, obj, current, visited). card (insert current (referenced ` set renames) - visited))"
    by (simp add: psubset_card_mono)
qed simp

declare follow_renames.simps [simp del]

definition drop_resolve :: "analysis_state \<Rightarrow> oid \<Rightarrow> oid" where
  "drop_resolve s i = follow_renames (filter (\<lambda>e. edge_kind e = RenameTo) (edges (graph_of s))) i i {}"

text \<open>
  The loop over the named tables: \<open>Inl\<close> is an early return, \<open>Inr\<close> the tables found and whether one
  of them is unknown.
\<close>

fun drop_targets ::
  "analysis_state \<Rightarrow> bool \<Rightarrow> object_id list \<Rightarrow> object_id list \<Rightarrow> bool
     \<Rightarrow> (mutation_result \<times> analysis_state) + (object_id list \<times> bool)" where
  "drop_targets s if_exists [] found unknown = Inr (found, unknown)"
| "drop_targets s if_exists (i # ids) found unknown =
     (case relation_lookup s i (\<lambda>kind. kind = Table) of
        LookupPresent \<Rightarrow> drop_targets s if_exists ids (found @ [i]) unknown
      | WrongKind \<Rightarrow> Inl (conflict (quoted (object_id_display i) @ '' is not a table''), s)
      | AuthoritativelyAbsent \<Rightarrow>
          if if_exists then drop_targets s if_exists ids found unknown
          else Inl (conflict (''table '' @ quoted (object_id_display i) @ '' does not exist''), s)
      | Tombstone \<Rightarrow>
          if if_exists then drop_targets s if_exists ids found unknown
          else Inl (conflict (''table '' @ quoted (object_id_display i) @ '' does not exist''), s)
      | LookupUnknown \<Rightarrow>
          if \<not> if_exists then Inl (unresolved UnknownObjectState s)
          else drop_targets s if_exists ids found True)"

fun join_names :: "string list \<Rightarrow> string" where
  "join_names [] = []"
| "join_names [x] = x"
| "join_names (x # xs) = x @ '', '' @ join_names xs"

definition depends_into ::
  "analysis_state \<Rightarrow> (oid \<Rightarrow> oid) \<Rightarrow> oid set \<Rightarrow> dependency_edge \<Rightarrow> bool" where
  "depends_into s res roots e \<longleftrightarrow>
     res (referenced e) \<in> roots \<and> res (dependent e) \<notin> roots \<and> res (dependent e) \<notin> co_dropped_objects s"

fun is_view_kind :: "dependency_kind \<Rightarrow> bool" where
  "is_view_kind (ViewDependency _ _) = True"
| "is_view_kind _ = False"

fun is_fk_kind :: "dependency_kind \<Rightarrow> bool" where
  "is_fk_kind (ForeignKey _ _ _ _ _) = True"
| "is_fk_kind _ = False"

fun is_trigger_kind :: "dependency_kind \<Rightarrow> bool" where
  "is_trigger_kind (TriggerOnTable _ _ _) = True"
| "is_trigger_kind _ = False"

fun is_publication_kind :: "dependency_kind \<Rightarrow> bool" where
  "is_publication_kind (PublicationIncludes _) = True"
| "is_publication_kind _ = False"

definition has_dependents :: "analysis_state \<Rightarrow> (oid \<Rightarrow> oid) \<Rightarrow> oid set \<Rightarrow> bool" where
  "has_dependents s res roots \<longleftrightarrow>
     list_ex (\<lambda>e. dependency_edge_is_current s e \<and> is_view_kind (edge_kind e) \<and> depends_into s res roots e)
       (edges (graph_of s))
     \<or> list_ex (\<lambda>e. dependency_edge_is_current s e \<and> is_fk_kind (edge_kind e) \<and> depends_into s res roots e)
       (edges (graph_of s))
     \<or> list_ex (\<lambda>e. (edge_kind e = InheritanceOf \<or> edge_kind e = PartitionOf \<or> edge_kind e = PartitionDetachPending)
          \<and> depends_into s res roots e)
       (edges (graph_of s))"

text \<open>The edges kept by the first sweep, with and without \<^verbatim>\<open>CASCADE\<close>.\<close>

definition cascade_keeps :: "(oid \<Rightarrow> oid) \<Rightarrow> cascade_result \<Rightarrow> dependency_edge \<Rightarrow> bool" where
  "cascade_keeps res closure e =
     (case edge_kind e of
        IndexOnRelation _ _ _ _ _ _ \<Rightarrow> res (dependent e) \<notin> dropped_indexes closure
      | ForeignKey constraint_name _ _ _ _ \<Rightarrow>
          \<not> (res (dependent e) \<in> dropped_relations closure \<or> res (referenced e) \<in> dropped_relations closure
             \<or> (case constraint_name of
                   Some cname \<Rightarrow> (res (dependent e), cname) \<in> dropped_constraints closure
                 | None \<Rightarrow> False))
      | ViewDependency _ _ \<Rightarrow> res (dependent e) \<notin> dropped_relations closure
      | SequenceOwnedBy _ \<Rightarrow> res (referenced e) \<notin> dropped_relations closure
      | _ \<Rightarrow> True)"

definition restrict_keeps :: "(oid \<Rightarrow> oid) \<Rightarrow> oid set \<Rightarrow> dependency_edge \<Rightarrow> bool" where
  "restrict_keeps res roots e =
     (if res (dependent e) \<in> roots
      then (case edge_kind e of
              ForeignKey _ _ _ _ _ \<Rightarrow> False
            | ColumnGeneratedFrom _ _ \<Rightarrow> False
            | ColumnDefaultOnSequence _ \<Rightarrow> False
            | _ \<Rightarrow> True)
      else if res (referenced e) \<in> roots
      then (case edge_kind e of
              IndexOnRelation _ _ _ _ _ _ \<Rightarrow> False
            | SequenceOwnedBy _ \<Rightarrow> False
            | ColumnGeneratedFrom _ _ \<Rightarrow> False
            | _ \<Rightarrow> True)
      else True)"

definition owned_by_dropped :: "(oid \<Rightarrow> oid) \<Rightarrow> oid set \<Rightarrow> analysis_state \<Rightarrow> oid \<Rightarrow> bool" where
  "owned_by_dropped res relations s i =
     (case l_sequences (local s) i of
        Some (Present q) \<Rightarrow> (case seq_owned_by q of Some (table, _) \<Rightarrow> res (oid table) \<in> relations | None \<Rightarrow> False)
      | _ \<Rightarrow> False)"

definition trigger_on_dropped :: "(oid \<Rightarrow> oid) \<Rightarrow> oid set \<Rightarrow> analysis_state \<Rightarrow> oid \<Rightarrow> bool" where
  "trigger_on_dropped res relations s i =
     (case l_triggers (local s) i of
        Some (Present t) \<Rightarrow>
          res (trg_table_id t) \<in> relations
          \<or> list_ex (\<lambda>e. is_trigger_kind (edge_kind e) \<and> dependent e = i \<and> res (referenced e) \<in> relations)
              (edges (graph_of s))
      | _ \<Rightarrow> False)"

fun publishes_dropped :: "(oid \<Rightarrow> oid) \<Rightarrow> oid set \<Rightarrow> analysis_state \<Rightarrow> publication_object_fact \<Rightarrow> bool" where
  "publishes_dropped res relations s (PublishedTable name _ _ _ _) \<longleftrightarrow>
     res (resolve_relation_id s name) \<in> relations"
| "publishes_dropped res relations s _ \<longleftrightarrow> False"

definition publication_update ::
  "(oid \<Rightarrow> oid) \<Rightarrow> oid set \<Rightarrow> analysis_state \<Rightarrow> string \<Rightarrow> (string \<times> publication_object_fact list) option" where
  "publication_update res relations s name =
     (case l_publications (local s) name of
        Some (Present p) \<Rightarrow>
          (case pub_scope p of
             ExplicitObjects objects \<Rightarrow>
               (let retained = filter (\<lambda>x. \<not> publishes_dropped res relations s x) objects
                in if length retained \<noteq> length objects then Some (name, retained) else None)
           | AllTables _ \<Rightarrow> None)
      | _ \<Rightarrow> None)"

definition set_publication_objects :: "string \<times> publication_object_fact list \<Rightarrow> analysis_state \<Rightarrow> analysis_state" where
  "set_publication_objects u s =
     (case u of (name, retained) \<Rightarrow>
        upd_local
          (\<lambda>l. l\<lparr>l_publications := (l_publications l)(name :=
             (case l_publications (local s) name of
                Some (Present p) \<Rightarrow>
                  Some (Present (case pub_scope p of
                     ExplicitObjects _ \<Rightarrow> p\<lparr>pub_scope := ExplicitObjects retained\<rparr>
                   | AllTables _ \<Rightarrow> p))
              | other \<Rightarrow> other))\<rparr>)
          (snapshot_publication name s))"

text \<open>The named tables and, with \<^verbatim>\<open>CASCADE\<close>, the closure; \<open>Inl\<close> is an early return.\<close>

definition drop_roots ::
  "hash_order \<Rightarrow> drop_table \<Rightarrow> cascade_result option \<Rightarrow> (oid \<Rightarrow> oid) \<Rightarrow> oid list \<Rightarrow> analysis_state
     \<Rightarrow> (mutation_result \<times> analysis_state) + (cascade_result \<times> analysis_state)" where
  "drop_roots h d precomputed res targets s =
     (let roots = res ` set targets
      in if dt_cascade d
         then
           (let closure = (case precomputed of Some c \<Rightarrow> c | None \<Rightarrow> cascade_for_relations s targets);
                touches_baseline =
                  ((\<exists>i \<in> dropped_relations closure. i \<in> baseline_relations s \<and> i \<notin> roots)
                   \<or> (\<exists>k \<in> dropped_constraints closure. k \<in> baseline_foreign_keys s))
            in if touches_baseline \<and> \<not> coverage_has (baseline_coverage s) FamDependencies
               then Inl (unresolved CatalogCoverageIncomplete s)
               else
                 (let s1 = (if \<exists>i \<in> dropped_relations closure. \<not> relation_is_present s i \<and> i \<notin> baseline_relations s
                            then taint UnknownObjectState ChainScope s else s);
                      s2 = fold drop_relation (ho_ids h (dropped_relations closure)) s1
                  in Inr (closure, retain_graph (cascade_keeps res closure) s2)))
         else if has_dependents s res roots
         then Inl (conflict
                ((if length targets = 1 then ''relation'' else ''relations'') @ '' ''
                 @ quoted (join_names (map object_id_display (dt_ids d))) @ '' still ''
                 @ (if length targets = 1 then ''has'' else ''have'') @ '' dependent objects; use CASCADE''), s)
         else Inr (\<lparr>dropped_relations = roots, dropped_indexes = {}, dropped_constraints = {}\<rparr>,
                retain_graph (restrict_keeps res roots) (fold drop_relation (ho_ids h roots) s)))"

text \<open>What goes with the relations: owned sequences, constraints, triggers, edges, publications.\<close>

definition drop_attached ::
  "hash_order \<Rightarrow> (oid \<Rightarrow> oid) \<Rightarrow> cascade_result \<Rightarrow> analysis_state \<Rightarrow> analysis_state" where
  "drop_attached h res closure s =
     (let relations = dropped_relations closure;
          s1 = fold drop_sequence (filter (owned_by_dropped res relations s) (ho_ids h (dom (l_sequences (local s))))) s;
          s2 = remove_dropped_constraints h relations (dropped_constraints closure) s1;
          s3 = fold drop_trigger (filter (trigger_on_dropped res relations s2) (ho_ids h (dom (l_triggers (local s2))))) s2;
          s4 = retain_graph (\<lambda>e. \<not> (is_trigger_kind (edge_kind e) \<and> res (referenced e) \<in> relations)) s3;
          s5 = retain_graph (\<lambda>e. res (dependent e) \<notin> relations \<and> res (referenced e) \<notin> relations
                 \<and> res (dependent e) \<notin> dropped_indexes closure) s4;
          s6 = fold set_publication_objects
                 (List.map_filter (publication_update res relations s5) (ho_names h (dom (l_publications (local s5))))) s5
      in retain_graph (\<lambda>e. \<not> is_publication_kind (edge_kind e) \<or> res (dependent e) \<notin> relations) s6)"

text \<open>
  \<^verbatim>\<open>sort_unstable_by_key(to_string)\<close> then \<^verbatim>\<open>dedup\<close>: names that print alike may come in any order,
  and only the set of the targets and their number (in a message) are used.
\<close>

definition present_targets :: "object_id list \<Rightarrow> oid list" where
  "present_targets found = remdups_adj (map oid (sort_key object_id_display found))"

definition apply_drop_table ::
  "hash_order \<Rightarrow> drop_table \<Rightarrow> cascade_result option \<Rightarrow> analysis_state \<Rightarrow> mutation_result \<times> analysis_state" where
  "apply_drop_table h d precomputed s =
     (if dt_ids d = [] then (NoOp, s)
      else case List.map_filter (\<lambda>i. extension_member_drop_conflict h s MemberRelation i ''table'') (dt_ids d) of
          r # _ \<Rightarrow> (r, s)
        | [] \<Rightarrow>
            (case drop_targets s (dt_if_exists d) (dt_ids d) [] False of
               Inl early \<Rightarrow> early
             | Inr (found, unknown_target) \<Rightarrow>
                 (let targets = present_targets found
                  in if unknown_target then unresolved UnknownObjectState s
                     else if targets = [] then (NoOp, s)
                     else
                       (let incomplete_closure =
                              (list_ex (\<lambda>i. i \<in> baseline_relations s) targets
                                 \<and> \<not> coverage_has (baseline_coverage s) FamDependencies)
                              \<or> list_ex (\<lambda>i. baseline_scoped_family_object s i FamRelations) targets;
                            res = drop_resolve s
                        in case drop_roots h d precomputed res targets s of
                             Inl early \<Rightarrow> early
                           | Inr (closure, s1) \<Rightarrow>
                               (let s2 = drop_attached h res closure s1
                                in (Applied,
                                    if incomplete_closure then taint CatalogCoverageIncomplete ChainScope s2
                                    else s2))))))"

section \<open>Every step is logged\<close>

lemma drop_steps_logged:
  "logged s (drop_relation i s)" "logged s (drop_sequence i s)" "logged s (drop_trigger i s)"
  "logged s (remove_constraint k s)" "logged s (set_publication_objects u s)"
  by (simp_all add: drop_relation_def drop_sequence_def drop_trigger_def remove_constraint_def
      set_publication_objects_def logged_intros split: prod.splits)

lemma retain_graph_logged: "logged s (retain_graph P s)"
  unfolding retain_graph_def by (rule logged_graph_full) (rule graph_wf_retain)

lemma logged_fold_from:
  assumes "logged s t" "\<And>x u. logged u (f x u)"
  shows "logged s (fold f xs t)"
  using assms logged_fold [of xs f t] logged_trans by blast

lemma forget_logged: "logged s (forget_pending goes s)" "logged s (forget_baseline_foreign_keys goes s)"
  by (simp_all add: forget_pending_def forget_baseline_foreign_keys_def logged_intros)

lemma remove_dropped_constraints_logged: "logged s (remove_dropped_constraints h rs cs s)"
  unfolding remove_dropped_constraints_def Let_def
  by (intro logged_trans [OF _ forget_logged(1)] logged_trans [OF _ forget_logged(2)]
      logged_fold_from [OF logged_refl drop_steps_logged(4)])

lemmas drop_logged_from =
  logged_trans [OF _ retain_graph_logged] logged_trans [OF _ remove_dropped_constraints_logged]
  logged_fold_from [OF _ drop_steps_logged(1)] logged_fold_from [OF _ drop_steps_logged(2)]
  logged_fold_from [OF _ drop_steps_logged(3)] logged_fold_from [OF _ drop_steps_logged(5)]
  logged_refl taint_logged

lemma drop_attached_logged: "logged s (drop_attached h res closure s)"
  unfolding drop_attached_def Let_def by (intro drop_logged_from)

lemma drop_roots_logged:
  "drop_roots h d pre res targets s = Inl (r, t) \<Longrightarrow> logged s t"
  "drop_roots h d pre res targets s = Inr (closure, t) \<Longrightarrow> logged s t"
  by (auto simp: drop_roots_def Let_def unresolved_def split: if_splits intro!: drop_logged_from)

lemma drop_targets_logged: "drop_targets s b ids found unknown = Inl (r, t) \<Longrightarrow> logged s t"
  by (induction s b ids found unknown rule: drop_targets.induct)
    (auto simp: unresolved_def taint_logged split: object_lookup.splits if_splits)

lemma apply_drop_table_logged: "logged s (snd (apply_drop_table h d pre s))"
proof -
  have rest: "logged s (if b then taint CatalogCoverageIncomplete ChainScope (drop_attached h res c t)
      else drop_attached h res c t)" if "drop_roots h d pre res targets s = Inr (c, t)" for b res targets c t
    using logged_trans [OF drop_roots_logged(2) [OF that] drop_attached_logged [of t h res c]] taint_logged
    by (auto intro: logged_trans)
  show ?thesis
    by (auto simp: apply_drop_table_def Let_def unresolved_def taint_logged rest
        dest: drop_roots_logged(1) drop_targets_logged split: list.splits sum.splits prod.splits)
qed

section \<open>What the statement leaves behind\<close>

lemma find_in_filter: "List.find P (filter Q xs) = List.find (\<lambda>x. Q x \<and> P x) xs"
  by (induction xs) auto

lemma follow_renames_eq:
  "rename_walk es (rename_sources 0 es Map.empty) obj current visited =
     follow_renames (filter (\<lambda>e. edge_kind e = RenameTo) es) obj current visited"
proof (induction "filter (\<lambda>e. edge_kind e = RenameTo) es" obj current visited rule: follow_renames.induct)
  case (1 obj current visited)
  have "rename_target es current =
      map_option referenced (List.find (\<lambda>r. dependent r = current) (filter (\<lambda>e. edge_kind e = RenameTo) es))"
    by (simp add: rename_target_def find_in_filter is_rename_of_def [abs_def] conj_commute)
  then show ?case using 1
    by (subst rename_walk_target, subst follow_renames.simps) (auto split: option.splits)
qed

text \<open>The local closure of the handler is the resolution of the graph.\<close>

lemma drop_resolve_eq: "graph_wf (graph_of s) \<Longrightarrow> drop_resolve s = resolve_rename (graph_of s)"
  by (rule ext) (simp add: drop_resolve_def resolve_rename_wf follow_renames_eq)

lemma resolve_rename_renames:
  "graph_wf g \<Longrightarrow> graph_wf g' \<Longrightarrow>
     filter (\<lambda>e. edge_kind e = RenameTo) (edges g) = filter (\<lambda>e. edge_kind e = RenameTo) (edges g') \<Longrightarrow>
     resolve_rename g i = resolve_rename g' i"
  by (simp add: resolve_rename_wf follow_renames_eq)

lemma fold_frame: "(\<And>x u. F (f x u) = F u) \<Longrightarrow> F (fold f xs s) = F s"
  by (induction xs arbitrary: s) simp_all

lemmas drop_step_defs =
  drop_relation_def drop_sequence_def drop_trigger_def remove_constraint_def set_publication_objects_def
  retain_graph_def upd_local_def on_graph_def snapshot_defs log_change_def

lemma drop_step_relations [frame_simps]:
  "l_relations (local (drop_sequence i s)) = l_relations (local s)"
  "l_relations (local (drop_trigger i s)) = l_relations (local s)"
  "l_relations (local (remove_constraint k s)) = l_relations (local s)"
  "l_relations (local (set_publication_objects u s)) = l_relations (local s)"
  "l_relations (local (retain_graph P s)) = l_relations (local s)"
  "l_relations (local (taint c sc s)) = l_relations (local s)"
  by (simp_all add: drop_step_defs taint_def record_evidence_def mark_tainted_def Let_def split: prod.splits)

lemma drop_step_sequences [frame_simps]:
  "l_sequences (local (drop_relation i s)) = l_sequences (local s)"
  "l_sequences (local (drop_trigger i s)) = l_sequences (local s)"
  "l_sequences (local (remove_constraint k s)) = l_sequences (local s)"
  "l_sequences (local (set_publication_objects u s)) = l_sequences (local s)"
  "l_sequences (local (retain_graph P s)) = l_sequences (local s)"
  "l_sequences (local (taint c sc s)) = l_sequences (local s)"
  by (simp_all add: drop_step_defs taint_def record_evidence_def mark_tainted_def Let_def split: prod.splits)

lemma drop_step_constraints [frame_simps]:
  "l_constraints (local (drop_relation i s)) = l_constraints (local s)"
  "l_constraints (local (drop_sequence i s)) = l_constraints (local s)"
  "l_constraints (local (drop_trigger i s)) = l_constraints (local s)"
  "l_constraints (local (set_publication_objects u s)) = l_constraints (local s)"
  "l_constraints (local (retain_graph P s)) = l_constraints (local s)"
  "l_constraints (local (taint c sc s)) = l_constraints (local s)"
  by (simp_all add: drop_step_defs taint_def record_evidence_def mark_tainted_def Let_def split: prod.splits)

lemma drop_step_graph [frame_simps]:
  "graph_of (drop_relation i s) = graph_of s"
  "graph_of (drop_sequence i s) = graph_of s"
  "graph_of (drop_trigger i s) = graph_of s"
  "graph_of (remove_constraint k s) = graph_of s"
  "graph_of (set_publication_objects u s) = graph_of s"
  "graph_of (retain_graph P s) = retain_edges P (graph_of s)"
  "graph_of (taint c sc s) = graph_of s"
  by (simp_all add: drop_step_defs taint_def record_evidence_def mark_tainted_def Let_def split: prod.splits)

lemma fold_drop_frames [frame_simps]:
  "l_relations (local (fold drop_sequence xs s)) = l_relations (local s)"
  "l_relations (local (fold drop_trigger xs s)) = l_relations (local s)"
  "l_relations (local (fold remove_constraint ks s)) = l_relations (local s)"
  "l_relations (local (fold set_publication_objects us s)) = l_relations (local s)"
  "l_sequences (local (fold drop_relation xs s)) = l_sequences (local s)"
  "l_sequences (local (fold drop_trigger xs s)) = l_sequences (local s)"
  "l_sequences (local (fold remove_constraint ks s)) = l_sequences (local s)"
  "l_sequences (local (fold set_publication_objects us s)) = l_sequences (local s)"
  "l_constraints (local (fold drop_relation xs s)) = l_constraints (local s)"
  "l_constraints (local (fold drop_sequence xs s)) = l_constraints (local s)"
  "l_constraints (local (fold drop_trigger xs s)) = l_constraints (local s)"
  "l_constraints (local (fold set_publication_objects us s)) = l_constraints (local s)"
  by (rule fold_frame, simp add: frame_simps)+

lemma fold_drop_graph [frame_simps]:
  "graph_of (fold drop_relation xs s) = graph_of s"
  "graph_of (fold drop_sequence xs s) = graph_of s"
  "graph_of (fold drop_trigger xs s) = graph_of s"
  "graph_of (fold remove_constraint ks s) = graph_of s"
  "graph_of (fold set_publication_objects us s) = graph_of s"
  by (rule fold_frame [where F = graph_of], simp add: frame_simps)+

lemma fold_drop_relation:
  "l_relations (local (fold drop_relation xs s)) i = (if i \<in> set xs then Some Dropped else l_relations (local s) i)"
  by (induction xs arbitrary: s) (auto simp: drop_step_defs)

lemma fold_drop_sequence:
  "l_sequences (local (fold drop_sequence xs s)) i = (if i \<in> set xs then Some Dropped else l_sequences (local s) i)"
  by (induction xs arbitrary: s) (auto simp: drop_step_defs)

lemma fold_remove_constraint:
  "l_constraints (local (fold remove_constraint ks s)) k = (if k \<in> set ks then None else l_constraints (local s) k)"
  by (induction ks arbitrary: s) (auto simp: drop_step_defs split: prod.splits)

lemmas forget_defs =
  forget_pending_def forget_baseline_foreign_keys_def upd_local_def snapshot_defs log_change_def

lemma forget_frames [frame_simps]:
  "l_relations (local (forget_pending g s)) = l_relations (local s)"
  "l_sequences (local (forget_pending g s)) = l_sequences (local s)"
  "l_constraints (local (forget_pending g s)) = l_constraints (local s)"
  "graph_of (forget_pending g s) = graph_of s"
  "l_relations (local (forget_baseline_foreign_keys g s)) = l_relations (local s)"
  "l_sequences (local (forget_baseline_foreign_keys g s)) = l_sequences (local s)"
  "l_constraints (local (forget_baseline_foreign_keys g s)) = l_constraints (local s)"
  "graph_of (forget_baseline_foreign_keys g s) = graph_of s"
  by (simp_all add: forget_defs)

lemma remove_dropped_constraints_frames [frame_simps]:
  "l_relations (local (remove_dropped_constraints h R C s)) = l_relations (local s)"
  "l_sequences (local (remove_dropped_constraints h R C s)) = l_sequences (local s)"
  "graph_of (remove_dropped_constraints h R C s) = graph_of s"
  by (simp_all add: remove_dropped_constraints_def Let_def frame_simps)

lemma remove_dropped_constraints_effect:
  "lists_all h \<Longrightarrow> finite (dom (l_constraints (local s))) \<Longrightarrow>
     l_constraints (local (remove_dropped_constraints h R C s)) k =
       (if constraint_goes s R C k then None else l_constraints (local s) k)"
  by (auto simp: remove_dropped_constraints_def Let_def fold_remove_constraint lists_all_def frame_simps)

lemma set_retain: "set (edges (retain_edges P g)) = {e \<in> set (edges g). P e}"
  by (simp add: graph_simps)

lemma drop_attached_effect:
  assumes "lists_all h" "finite (dom (l_sequences (local s)))" "finite (dom (l_constraints (local s)))"
  shows "l_relations (local (drop_attached h res c s)) = l_relations (local s)"
    and "l_sequences (local (drop_attached h res c s)) i =
      (if owned_by_dropped res (dropped_relations c) s i then Some Dropped else l_sequences (local s) i)"
    and "l_constraints (local (drop_attached h res c s)) k =
      (if constraint_goes s (dropped_relations c) (dropped_constraints c) k then None else l_constraints (local s) k)"
    and "e \<in> set (edges (graph_of (drop_attached h res c s))) \<Longrightarrow>
      e \<in> set (edges (graph_of s)) \<and> res (dependent e) \<notin> dropped_relations c \<and> res (referenced e) \<notin> dropped_relations c"
  using assms
  by (auto simp: drop_attached_def Let_def frame_simps fold_drop_sequence lists_all_def owned_by_dropped_def
      remove_dropped_constraints_effect constraint_goes_def set_retain split: option.splits overlay.splits)

lemma first_sweep_renames:
  "graph_wf (graph_of s) \<Longrightarrow> (\<And>e. edge_kind e = RenameTo \<Longrightarrow> P e) \<Longrightarrow>
     resolve_rename (retain_edges P (graph_of s)) i = resolve_rename (graph_of s) i"
  by (rule resolve_rename_renames) (auto simp: graph_wf_retain graph_simps intro!: filter_cong)

lemma drop_targets_unknown: "drop_targets s b ids found True = Inr (found', u) \<Longrightarrow> u"
  by (induction ids arbitrary: found) (simp_all split: object_lookup.splits if_splits)

lemma drop_targets_found:
  "drop_targets s b ids found0 False = Inr (found, False) \<Longrightarrow>
     set found = set found0 \<union> {i \<in> set ids. relation_lookup s i (\<lambda>kind. kind = Table) = LookupPresent}"
proof (induction ids arbitrary: found0)
  case (Cons i ids)
  then show ?case
    using Cons.IH [of "found0 @ [i]"] Cons.IH [of found0] drop_targets_unknown [of s b ids found0 found False]
    by (cases "relation_lookup s i (\<lambda>kind. kind = Table)") (auto split: if_splits)
qed simp

lemma early_returns_not_applied:
  "extension_member_drop_conflict h s kind i name = Some r \<Longrightarrow> r \<noteq> Applied"
  "drop_targets s b ids found u = Inl (r, t) \<Longrightarrow> r \<noteq> Applied"
  "drop_roots h d pre res targets s = Inl (r, t) \<Longrightarrow> r \<noteq> Applied"
proof -
  show "extension_member_drop_conflict h s kind i name = Some r \<Longrightarrow> r \<noteq> Applied"
    by (auto simp: extension_member_drop_conflict_def conflict_def)
  show "drop_targets s b ids found u = Inl (r, t) \<Longrightarrow> r \<noteq> Applied"
    by (induction ids arbitrary: found u)
      (auto simp: conflict_def unresolved_def split: object_lookup.splits if_splits)
  show "drop_roots h d pre res targets s = Inl (r, t) \<Longrightarrow> r \<noteq> Applied"
    by (auto simp: drop_roots_def Let_def conflict_def unresolved_def split: if_splits)
qed

lemma map_filter_head: "List.map_filter f xs = r # rs \<Longrightarrow> \<exists>x. f x = Some r"
  by (induction xs) (auto simp: map_filter_simps split: option.splits)

lemma apply_drop_table_applied:
  assumes "apply_drop_table h d pre s = (Applied, t)"
  obtains found c s1 b where
    "drop_targets s (dt_if_exists d) (dt_ids d) [] False = Inr (found, False)"
    "drop_roots h d pre (drop_resolve s) (present_targets found) s = Inr (c, s1)"
    "t = (if b then taint CatalogCoverageIncomplete ChainScope (drop_attached h (drop_resolve s) c s1)
              else drop_attached h (drop_resolve s) c s1)"
  using assms unfolding apply_drop_table_def Let_def
  by (fastforce simp: unresolved_def dest: early_returns_not_applied map_filter_head
      split: if_splits list.splits sum.splits prod.splits)

lemma set_present_targets [simp]: "set (present_targets found) = oid ` set found"
  by (simp add: present_targets_def)

text \<open>The relations a statement drops.\<close>

definition drop_set :: "analysis_state \<Rightarrow> drop_table \<Rightarrow> oid set" where
  "drop_set s d =
     (let roots = resolve_rename (graph_of s) ` oid `
            {i \<in> set (dt_ids d). relation_lookup s i (\<lambda>kind. kind = Table) = LookupPresent}
      in if dt_cascade d then (cascade_rel s)\<^sup>* `` roots else roots)"

lemma cascade_for_relations_dropped:
  "graph_wf (graph_of s) \<Longrightarrow> dropped_relations (cascade_for_relations s roots) =
     (cascade_rel s)\<^sup>* `` (resolve_rename (graph_of s) ` set roots)"
  unfolding cascade_for_relations_def merge_cascade_fold cascade_closure_exact
  by (auto simp: cascade_default_def)

lemma finite_cascade: "finite A \<Longrightarrow> finite ((cascade_rel s)\<^sup>* `` A)"
proof (rule finite_subset)
  show "(cascade_rel s)\<^sup>* `` A \<subseteq> A \<union> ends s"
  proof
    fix y assume "y \<in> (cascade_rel s)\<^sup>* `` A"
    then obtain x where "x \<in> A" "(x, y) \<in> (cascade_rel s)\<^sup>*" by blast
    from this(2,1) show "y \<in> A \<union> ends s"
      by (cases rule: rtranclE) (auto simp: cascade_rel_def ends_def)
  qed
qed (simp add: finite_ends)

lemma finite_drop_set: "finite (drop_set s d)"
  by (simp add: drop_set_def Let_def finite_cascade)

text \<open>The state after the first sweep, and the closure it used.\<close>

lemma drop_roots_cases:
  assumes "drop_roots h d pre res targets s = Inr (c, t)"
  obtains (cascade) s1 where "dt_cascade d" "c = (case pre of Some c \<Rightarrow> c | None \<Rightarrow> cascade_for_relations s targets)"
      "s1 = s \<or> s1 = taint UnknownObjectState ChainScope s"
      "t = retain_graph (cascade_keeps res c) (fold drop_relation (ho_ids h (dropped_relations c)) s1)"
  | (restrict) "\<not> dt_cascade d" "\<not> has_dependents s res (res ` set targets)"
      "c = \<lparr>dropped_relations = res ` set targets, dropped_indexes = {}, dropped_constraints = {}\<rparr>"
      "t = retain_graph (restrict_keeps res (res ` set targets)) (fold drop_relation (ho_ids h (dropped_relations c)) s)"
  using assms unfolding drop_roots_def Let_def
  by (simp split: if_splits) (elim conjE, fastforce)+

lemma keeps_renames:
  "edge_kind e = RenameTo \<Longrightarrow> cascade_keeps res c e" "edge_kind e = RenameTo \<Longrightarrow> restrict_keeps res roots e"
  by (simp_all add: cascade_keeps_def restrict_keeps_def)

lemma drop_roots_effect:
  assumes "lists_all h" "graph_wf (graph_of s)"
    and "drop_targets s (dt_if_exists d) (dt_ids d) [] False = Inr (found, False)"
    and "drop_roots h d None (drop_resolve s) (present_targets found) s = Inr (c, t)"
  shows "dropped_relations c = drop_set s d"
    and "l_relations (local t) i = (if i \<in> drop_set s d then Some Dropped else l_relations (local s) i)"
    and "l_sequences (local t) = l_sequences (local s)" "l_constraints (local t) = l_constraints (local s)"
    and "e \<in> set (edges (graph_of t)) \<Longrightarrow> e \<in> set (edges (graph_of s))"
    and "resolve_rename (graph_of t) j = resolve_rename (graph_of s) j"
proof -
  have found: "oid ` set found = oid ` {i \<in> set (dt_ids d). relation_lookup s i (\<lambda>kind. kind = Table) = LookupPresent}"
    using drop_targets_found [OF assms(3)] by simp
  obtain s1 P where s1: "s1 = s \<or> s1 = taint UnknownObjectState ChainScope s" "\<And>e. edge_kind e = RenameTo \<Longrightarrow> P e"
    and t: "t = retain_graph P (fold drop_relation (ho_ids h (dropped_relations c)) s1)"
    and c: "dropped_relations c = drop_set s d"
    using assms(4)
  proof (cases rule: drop_roots_cases)
    case (cascade s1)
    then show ?thesis
      using that [of s1 "cascade_keeps (drop_resolve s) c"] keeps_renames(1)
      by (simp add: drop_set_def Let_def cascade_for_relations_dropped [OF assms(2)] found)
  next
    case restrict
    then show ?thesis
      using that [of s "restrict_keeps (drop_resolve s) (drop_resolve s ` set (present_targets found))"] keeps_renames(2)
      by (simp add: drop_set_def Let_def found drop_resolve_eq [OF assms(2)])
  qed
  show "dropped_relations c = drop_set s d" by fact
  have order: "set (ho_ids h (drop_set s d)) = drop_set s d"
    using assms(1) finite_drop_set by (simp add: lists_all_def)
  show "l_relations (local t) i = (if i \<in> drop_set s d then Some Dropped else l_relations (local s) i)"
    "l_sequences (local t) = l_sequences (local s)" "l_constraints (local t) = l_constraints (local s)"
    using t order s1(1) by (auto simp: c frame_simps fold_drop_relation)
  have g: "graph_of t = retain_edges P (graph_of s)" using t s1(1) by (auto simp: frame_simps)
  show "e \<in> set (edges (graph_of s))" if "e \<in> set (edges (graph_of t))"
    using that by (simp add: g set_retain)
  show "resolve_rename (graph_of t) j = resolve_rename (graph_of s) j"
    using first_sweep_renames [OF assms(2), of P] s1(2) by (simp add: g)
qed

text \<open>
  The relations a statement drops, given the closure the engine hands it. The engine computes the
  closure over every named table before the handler has looked for them (\<^verbatim>\<open>engine/engine.rs\<close>), so with
  \<^verbatim>\<open>CASCADE\<close> a table that is named but absent, under \<^verbatim>\<open>IF EXISTS\<close>, counts among the roots.
\<close>

definition dropped_by :: "analysis_state \<Rightarrow> drop_table \<Rightarrow> cascade_result option \<Rightarrow> oid set" where
  "dropped_by s d pre =
     (let roots = resolve_rename (graph_of s) ` oid `
            {i \<in> set (dt_ids d). dt_cascade d \<and> pre \<noteq> None
               \<or> relation_lookup s i (\<lambda>kind. kind = Table) = LookupPresent}
      in if dt_cascade d then (cascade_rel s)\<^sup>* `` roots else roots)"

text \<open>The closure argument: none, as callers inside the analysis leave it, or that of the engine.\<close>

definition engine_closure :: "analysis_state \<Rightarrow> drop_table \<Rightarrow> cascade_result option \<Rightarrow> bool" where
  "engine_closure s d pre \<longleftrightarrow> pre = None \<or> pre = Some (cascade_for_relations s (map oid (dt_ids d)))"

lemma finite_dropped_by: "finite (dropped_by s d pre)"
  by (simp add: dropped_by_def Let_def finite_cascade)

text \<open>The edges and constraints that go with a set \<open>D\<close> of dropped relations.\<close>

definition edge_goes :: "analysis_state \<Rightarrow> bool \<Rightarrow> oid set \<Rightarrow> dependency_edge \<Rightarrow> bool" where
  "edge_goes s cascade D e \<longleftrightarrow>
     (let dependent' = resolve_rename (graph_of s) (dependent e)
      in dependent' \<in> D \<or> resolve_rename (graph_of s) (referenced e) \<in> D
         \<or> cascade \<and> Inl dependent' \<in> hanging s D
         \<or> cascade \<and> (case edge_kind e of
              ForeignKey (Some cname) _ _ _ _ \<Rightarrow> Inr (dependent', cname) \<in> hanging s D
            | _ \<Rightarrow> False))"

lemma drop_attached_edges:
  "e \<in> set (edges (graph_of (drop_attached h res c s))) \<longleftrightarrow>
      e \<in> set (edges (graph_of s)) \<and> res (dependent e) \<notin> dropped_relations c \<and> res (referenced e) \<notin> dropped_relations c
      \<and> res (dependent e) \<notin> dropped_indexes c"
  by (auto simp: drop_attached_def Let_def frame_simps set_retain)

lemma items_mem: "Inl i \<in> items c \<longleftrightarrow> i \<in> dropped_indexes c" "Inr k \<in> items c \<longleftrightarrow> k \<in> dropped_constraints c"
  by (auto simp: items_def)

lemma cascade_for_relations_items:
  "graph_wf (graph_of s) \<Longrightarrow> items (cascade_for_relations s roots) =
     hanging s ((cascade_rel s)\<^sup>* `` (resolve_rename (graph_of s) ` set roots))"
  unfolding cascade_for_relations_def merge_cascade_fold cascade_closure_exact
  by (auto simp: hanging_def)

text \<open>The closure a statement works with, and the edges its first sweep keeps.\<close>

lemma drop_roots_closure:
  assumes "graph_wf (graph_of s)" "engine_closure s d pre"
    and "drop_targets s (dt_if_exists d) (dt_ids d) [] False = Inr (found, False)"
    and "drop_roots h d pre (resolve_rename (graph_of s)) (present_targets found) s = Inr (c, t)"
  obtains s1 P where "s1 = s \<or> s1 = taint UnknownObjectState ChainScope s"
    "t = retain_graph P (fold drop_relation (ho_ids h (dropped_relations c)) s1)"
    "dropped_relations c = dropped_by s d pre"
    "items c = (if dt_cascade d then hanging s (dropped_by s d pre) else {})"
    "P = (if dt_cascade d then cascade_keeps (resolve_rename (graph_of s)) c
          else restrict_keeps (resolve_rename (graph_of s)) (dropped_by s d pre))"
proof -
  have found: "oid ` set found = oid ` {i \<in> set (dt_ids d). relation_lookup s i (\<lambda>kind. kind = Table) = LookupPresent}"
    using drop_targets_found [OF assms(3)] by simp
  from assms(4) show ?thesis
  proof (cases rule: drop_roots_cases)
    case (cascade s1)
    then have "dropped_relations c = dropped_by s d pre \<and> items c = hanging s (dropped_by s d pre)"
      using assms(2) unfolding engine_closure_def
      by (elim disjE) (simp_all add: dropped_by_def Let_def found cascade_for_relations_dropped [OF assms(1)]
          cascade_for_relations_items [OF assms(1)])
    with cascade show ?thesis by (intro that [of s1 "cascade_keeps (resolve_rename (graph_of s)) c"]) simp_all
  next
    case restrict
    then have "dropped_relations c = dropped_by s d pre" by (simp add: dropped_by_def Let_def found)
    with restrict show ?thesis
      by (intro that [of s "restrict_keeps (resolve_rename (graph_of s)) (dropped_by s d pre)"])
        (simp_all add: items_def)
  qed
qed

text \<open>What the two sweeps over the graph remove together.\<close>

lemma sweeps_exact:
  assumes "dropped_relations c = D" "items c = (if b then hanging s D else {})"
    and "P = (if b then cascade_keeps (resolve_rename (graph_of s)) c else restrict_keeps (resolve_rename (graph_of s)) D)"
  shows "P e \<and> resolve_rename (graph_of s) (dependent e) \<notin> D \<and> resolve_rename (graph_of s) (referenced e) \<notin> D
      \<and> resolve_rename (graph_of s) (dependent e) \<notin> dropped_indexes c \<longleftrightarrow> \<not> edge_goes s b D e"
proof (cases b)
  case True
  then have "i \<in> dropped_indexes c \<longleftrightarrow> Inl i \<in> hanging s D" "k \<in> dropped_constraints c \<longleftrightarrow> Inr k \<in> hanging s D" for i k
    using assms(2) by (simp_all flip: items_mem)
  with True assms(1,3) show ?thesis
    by (auto simp: edge_goes_def Let_def cascade_keeps_def split: dependency_kind.splits option.splits)
next
  case False
  then have "dropped_indexes c = {}" using assms(2) by (auto simp: items_def)
  with False assms(3) show ?thesis by (auto simp: edge_goes_def restrict_keeps_def)
qed

lemma drop_roots_exact:
  assumes "lists_all h" "graph_wf (graph_of s)" "engine_closure s d pre"
    and "drop_targets s (dt_if_exists d) (dt_ids d) [] False = Inr (found, False)"
    and "drop_roots h d pre (resolve_rename (graph_of s)) (present_targets found) s = Inr (c, t)"
  shows "dropped_relations c = dropped_by s d pre"
    and "items c = (if dt_cascade d then hanging s (dropped_by s d pre) else {})"
    and "l_relations (local t) i = (if i \<in> dropped_by s d pre then Some Dropped else l_relations (local s) i)"
    and "l_sequences (local t) = l_sequences (local s)" "l_constraints (local t) = l_constraints (local s)"
    and "e \<in> set (edges (graph_of (drop_attached h (resolve_rename (graph_of s)) c t))) \<longleftrightarrow>
      e \<in> set (edges (graph_of s)) \<and> \<not> edge_goes s (dt_cascade d) (dropped_by s d pre) e"
    and "resolve_rename (graph_of t) j = resolve_rename (graph_of s) j"
proof -
  obtain s1 P where s1: "s1 = s \<or> s1 = taint UnknownObjectState ChainScope s"
    and t: "t = retain_graph P (fold drop_relation (ho_ids h (dropped_relations c)) s1)"
    and c: "dropped_relations c = dropped_by s d pre"
      "items c = (if dt_cascade d then hanging s (dropped_by s d pre) else {})"
    and P: "P = (if dt_cascade d then cascade_keeps (resolve_rename (graph_of s)) c
          else restrict_keeps (resolve_rename (graph_of s)) (dropped_by s d pre))"
    by (rule drop_roots_closure [OF assms(2-5)])
  show "dropped_relations c = dropped_by s d pre"
    "items c = (if dt_cascade d then hanging s (dropped_by s d pre) else {})" by fact+
  have order: "set (ho_ids h (dropped_by s d pre)) = dropped_by s d pre"
    using assms(1) finite_dropped_by by (simp add: lists_all_def)
  show "l_relations (local t) i = (if i \<in> dropped_by s d pre then Some Dropped else l_relations (local s) i)"
    "l_sequences (local t) = l_sequences (local s)" "l_constraints (local t) = l_constraints (local s)"
    using t order s1 by (auto simp: c frame_simps fold_drop_relation)
  have g: "graph_of t = retain_edges P (graph_of s)" using t s1 by (auto simp: frame_simps)
  show "e \<in> set (edges (graph_of (drop_attached h (resolve_rename (graph_of s)) c t))) \<longleftrightarrow>
      e \<in> set (edges (graph_of s)) \<and> \<not> edge_goes s (dt_cascade d) (dropped_by s d pre) e"
    unfolding drop_attached_edges using sweeps_exact [OF c P, of e] by (auto simp: g set_retain c)
  show "resolve_rename (graph_of t) j = resolve_rename (graph_of s) j"
    using first_sweep_renames [OF assms(2), of P] keeps_renames by (simp add: g P)
qed

text \<open>
  C5. A \<^verbatim>\<open>DROP TABLE\<close> that succeeds drops what it should and nothing else, with the closure that the engine
  computes for \<^verbatim>\<open>CASCADE\<close> or with none. The relations that become tombstones are exactly the tables
  found and, with \<^verbatim>\<open>CASCADE\<close>, what they drag along; with the engine's closure the roots of a \<^verbatim>\<open>CASCADE\<close> are
  all tables named, also absent ones under \<^verbatim>\<open>IF EXISTS\<close>, which get a tombstone too. The sequences owned by
  these relations are dropped and no others. The constraints on them go and, with \<^verbatim>\<open>CASCADE\<close>, the
  named foreign keys of other tables whose current edge references them, and no others. An edge of the dependency graph is
  removed exactly when it touches one of them or, with \<^verbatim>\<open>CASCADE\<close>, is an edge of an index on one of
  them or of such a foreign key.
\<close>

theorem drop_table_complete:
  assumes "lists_all h" "graph_wf (graph_of s)"
    and "finite (dom (l_sequences (local s)))" "finite (dom (l_constraints (local s)))"
    and "engine_closure s d pre" "apply_drop_table h d pre s = (Applied, t)"
  shows "(\<forall>i. l_relations (local t) i = (if i \<in> dropped_by s d pre then Some Dropped else l_relations (local s) i))
    \<and> (\<forall>i. l_sequences (local t) i =
         (if owned_by_dropped (resolve_rename (graph_of s)) (dropped_by s d pre) s i then Some Dropped
          else l_sequences (local s) i))
    \<and> (\<forall>i n. l_constraints (local t) (i, n) =
         (if resolve_rename (graph_of s) i \<in> dropped_by s d pre
             \<or> dt_cascade d \<and> Inr (resolve_rename (graph_of s) i, n) \<in> hanging s (dropped_by s d pre)
          then None else l_constraints (local s) (i, n)))
    \<and> (\<forall>e. e \<in> set (edges (graph_of t)) \<longleftrightarrow>
         e \<in> set (edges (graph_of s)) \<and> \<not> edge_goes s (dt_cascade d) (dropped_by s d pre) e)"
proof -
  obtain found c s1 b where found: "drop_targets s (dt_if_exists d) (dt_ids d) [] False = Inr (found, False)"
    and roots: "drop_roots h d pre (drop_resolve s) (present_targets found) s = Inr (c, s1)"
    and t: "t = (if b then taint CatalogCoverageIncomplete ChainScope (drop_attached h (drop_resolve s) c s1)
              else drop_attached h (drop_resolve s) c s1)"
    by (rule apply_drop_table_applied [OF assms(6)])
  note r = drop_roots_exact [OF assms(1,2,5) found roots [unfolded drop_resolve_eq [OF assms(2)]]]
  let ?u = "drop_attached h (resolve_rename (graph_of s)) c s1"
  have fin: "finite (dom (l_sequences (local s1)))" "finite (dom (l_constraints (local s1)))"
    using assms(3,4) by (simp_all add: r)
  note a = drop_attached_effect [OF assms(1) fin, where res = "resolve_rename (graph_of s)" and c = c]
  have keep: "l_relations (local t) = l_relations (local ?u)" "l_sequences (local t) = l_sequences (local ?u)"
    "l_constraints (local t) = l_constraints (local ?u)" "graph_of t = graph_of ?u"
    by (simp_all add: t drop_resolve_eq [OF assms(2)] frame_simps)
  have owned: "owned_by_dropped res R s1 = owned_by_dropped res R s" for res R
    by (rule ext) (simp add: owned_by_dropped_def r)
  have constraints: "constraint_goes s1 (dropped_by s d pre) (dropped_constraints c) (i, n) \<longleftrightarrow>
      resolve_rename (graph_of s) i \<in> dropped_by s d pre
      \<or> dt_cascade d \<and> Inr (resolve_rename (graph_of s) i, n) \<in> hanging s (dropped_by s d pre)" for i n
    by (simp add: constraint_goes_def Let_def r flip: items_mem)
  show ?thesis by (simp add: keep a(1-3) r owned constraints)
qed

text \<open>
  C22. Without \<^verbatim>\<open>CASCADE\<close> a \<^verbatim>\<open>DROP TABLE\<close> that succeeds had no dependents left over: every current view
  or foreign key on a dropped table, every partition or inheritance child of it, belongs to an
  object that the statement drops as well.
\<close>

theorem drop_table_restrict_safe:
  assumes "lists_all h" "graph_wf (graph_of s)" "\<not> dt_cascade d"
    and "apply_drop_table h d None s = (Applied, t)"
    and "e \<in> set (edges (graph_of s))" "resolve_rename (graph_of s) (referenced e) \<in> drop_set s d"
    and "(is_view_kind (edge_kind e) \<or> is_fk_kind (edge_kind e)) \<and> dependency_edge_is_current s e
       \<or> edge_kind e = InheritanceOf \<or> is_partition_kind (edge_kind e)"
  shows "resolve_rename (graph_of s) (dependent e) \<in> drop_set s d \<union> co_dropped_objects s"
proof -
  obtain found c s1 where found: "drop_targets s (dt_if_exists d) (dt_ids d) [] False = Inr (found, False)"
    and roots: "drop_roots h d None (drop_resolve s) (present_targets found) s = Inr (c, s1)"
    by (rule apply_drop_table_applied [OF assms(4)])
  have c: "dropped_relations c = drop_set s d" by (rule drop_roots_effect [OF assms(1,2) found roots])
  have "\<not> has_dependents s (resolve_rename (graph_of s)) (drop_set s d)"
    using roots assms(3) c by (cases rule: drop_roots_cases) (auto simp: drop_resolve_eq [OF assms(2)])
  then show ?thesis
    using assms(5-7) by (auto simp: has_dependents_def depends_into_def list_ex_iff is_partition_kind_def)
qed

definition sample_order :: hash_order where
  "sample_order = \<lparr>ho_ids = sorted_list_of_set, ho_names = sorted_list_of_set, ho_keys = sorted_list_of_set,
     ho_grants = sorted_list_of_set\<rparr>"

lemma sample_order_lists_all: "lists_all sample_order"
  by (simp add: lists_all_def sample_order_def)

text \<open>A partitioned table, dropped alone before its partition exists, then together with it.\<close>

definition drop_of :: "string list \<Rightarrow> drop_table" where
  "drop_of names = \<lparr>dt_ids = map (object_id_new ''s'') names, dt_if_exists = False, dt_cascade = False\<rparr>"

definition drop_sample :: "dependency_edge list \<Rightarrow> analysis_state" where
  "drop_sample es = on_graph (fold add_edge es) (upd_local
     (\<lambda>l. l\<lparr>l_relations := [Oid ''s'' ''t'' \<mapsto> Present sample_relation, Oid ''s'' ''p'' \<mapsto> Present sample_relation]\<rparr>)
     sample_state)"

definition sample_partition :: dependency_edge where
  "sample_partition = edge_new (Oid ''s'' ''p'') (Oid ''s'' ''t'') PartitionOf"

lemma sample_partition_simps [simp]:
  "dependent sample_partition = Oid ''s'' ''p''" "referenced sample_partition = Oid ''s'' ''t''"
  "edge_kind sample_partition = PartitionOf"
  by (simp_all add: sample_partition_def edge_new_def)

lemmas drop_sample_defs =
  drop_sample_def on_graph_def upd_local_def sample_state_def sample_local_def

lemma drop_sample_facts:
  "finite (dom (l_sequences (local (drop_sample es))))" "finite (dom (l_constraints (local (drop_sample es))))"
  "graph_of (drop_sample es) = fold add_edge es graph_new"
  by (simp_all add: drop_sample_defs)

lemma drop_sample_edges:
  "edges (graph_of (drop_sample [])) = []" "edges (graph_of (drop_sample [sample_partition])) = [sample_partition]"
  by (simp_all add: drop_sample_facts add_edge_def graph_new_def invalidate_indexes_def)

lemma drop_sample_wf: "graph_wf (graph_of (drop_sample []))" "graph_wf (graph_of (drop_sample [sample_partition]))"
  by (simp_all add: drop_sample_facts graph_wf_new graph_wf_add)

lemma drop_sample_resolve:
  "resolve_rename (graph_of (drop_sample [])) i = i" "resolve_rename (graph_of (drop_sample [sample_partition])) i = i"
  by (rule no_rename [OF drop_sample_wf(1)], simp add: drop_sample_edges)
    (rule no_rename [OF drop_sample_wf(2)], simp add: drop_sample_edges)

lemma drop_sample_found:
  "n = ''t'' \<or> n = ''p'' \<Longrightarrow>
     relation_lookup (drop_sample es) (object_id_new ''s'' n) (\<lambda>kind. kind = Table) = LookupPresent"
  by (auto simp: relation_lookup_def lookup_shadowed_def object_id_new_def oid_def drop_sample_defs
      sample_relation_def add_column_def relation_new_def Let_def)

lemma drop_sample_targets:
  "drop_targets (drop_sample es) b [object_id_new ''s'' ''t''] [] False = Inr ([object_id_new ''s'' ''t''], False)"
  "drop_targets (drop_sample es) b [object_id_new ''s'' ''t'', object_id_new ''s'' ''p''] [] False =
     Inr ([object_id_new ''s'' ''t'', object_id_new ''s'' ''p''], False)"
  by (simp_all add: drop_sample_found)

lemma drop_sample_extension: "extension_member_drop_conflict sample_order (drop_sample es) k i n = None"
  by (simp add: extension_member_drop_conflict_def sample_order_def drop_sample_defs)

lemma drop_sample_applied:
  assumes "map (object_id_new ''s'') names = ids" "ids \<noteq> []"
    and "drop_targets (drop_sample es) False ids [] False = Inr (ids, False)"
    and "\<not> has_dependents (drop_sample es) (drop_resolve (drop_sample es))
           (drop_resolve (drop_sample es) ` oid ` set ids)"
  shows "apply_drop_table sample_order (drop_of names) None (drop_sample es) =
     (Applied, snd (apply_drop_table sample_order (drop_of names) None (drop_sample es)))"
proof -
  have none: "List.map_filter (\<lambda>i. extension_member_drop_conflict sample_order (drop_sample es) MemberRelation i ''table'') ids = []"
    by (induction ids) (simp_all add: map_filter_simps drop_sample_extension)
  have "present_targets ids \<noteq> []" using assms(2) set_present_targets [of ids] by (metis image_is_empty set_empty)
  with assms none show ?thesis
    by (simp add: apply_drop_table_def drop_of_def drop_roots_def Let_def)
qed

lemma drop_sample_both:
  "apply_drop_table sample_order (drop_of [''t'', ''p'']) None (drop_sample [sample_partition]) =
     (Applied, snd (apply_drop_table sample_order (drop_of [''t'', ''p'']) None (drop_sample [sample_partition])))"
  by (rule drop_sample_applied [OF refl])
    (simp_all add: drop_sample_found has_dependents_def drop_sample_edges depends_into_def
      drop_resolve_eq [OF drop_sample_wf(2)] drop_sample_resolve)

text \<open>The same table, dropped with \<^verbatim>\<open>CASCADE\<close> and the closure of the engine: its partition goes too.\<close>

definition cascading :: "drop_table \<Rightarrow> drop_table" where
  "cascading d = d\<lparr>dt_cascade := True\<rparr>"

lemma drop_sample_cascaded:
  assumes "s = drop_sample [sample_partition]" "d = cascading (drop_of [''t''])"
  shows "apply_drop_table sample_order d (Some c) s = (Applied, snd (apply_drop_table sample_order d (Some c) s))"
  using drop_sample_targets(1) [of "[sample_partition]"]
  by (simp add: assms apply_drop_table_def cascading_def drop_of_def drop_sample_extension map_filter_simps
      present_targets_def drop_roots_def Let_def drop_sample_found) (simp add: drop_sample_defs)

theorem drop_table_complete_witness:
  "\<exists>t. apply_drop_table sample_order (cascading (drop_of [''t'']))
        (Some (cascade_for_relations (drop_sample [sample_partition]) [Oid ''s'' ''t''])) (drop_sample [sample_partition])
        = (Applied, t)
     \<and> l_relations (local t) (Oid ''s'' ''t'') = Some Dropped \<and> l_relations (local t) (Oid ''s'' ''p'') = Some Dropped
     \<and> edges (graph_of t) = []"
proof -
  let ?s = "drop_sample [sample_partition]" and ?d = "cascading (drop_of [''t''])"
  let ?pre = "Some (cascade_for_relations ?s [Oid ''s'' ''t''])"
  obtain t where t: "apply_drop_table sample_order ?d ?pre ?s = (Applied, t)"
    using drop_sample_cascaded [OF refl refl] by blast
  have "(Oid ''s'' ''t'', Oid ''s'' ''p'') \<in> cascade_rel ?s"
    unfolding cascade_rel_def drop_sample_resolve drop_sample_edges by (simp add: dependency_edge_is_current_def)
  then have D: "Oid ''s'' ''t'' \<in> dropped_by ?s ?d ?pre" "Oid ''s'' ''p'' \<in> dropped_by ?s ?d ?pre"
    by (auto simp: dropped_by_def cascading_def drop_of_def drop_sample_resolve object_id_new_def oid_def Image_iff)
  have "engine_closure ?s ?d ?pre" by (simp add: engine_closure_def cascading_def drop_of_def object_id_new_def oid_def)
  note all = drop_table_complete [OF sample_order_lists_all drop_sample_wf(2) drop_sample_facts(1,2) this t]
  have "e \<notin> set (edges (graph_of t))" for e
    using all D(1) by (auto simp: drop_sample_edges edge_goes_def drop_sample_resolve Let_def)
  then have "edges (graph_of t) = []" by (metis last_in_set)
  with all D t show ?thesis by simp
qed
theorem drop_table_restrict_safe_witness:
  "Oid ''s'' ''p'' \<in> drop_set (drop_sample [sample_partition]) (drop_of [''t'', ''p''])
     \<union> co_dropped_objects (drop_sample [sample_partition])"
proof -
  have "Oid ''s'' ''t'' \<in> drop_set (drop_sample [sample_partition]) (drop_of [''t'', ''p''])"
    by (force simp: drop_set_def drop_of_def drop_sample_found drop_sample_resolve image_iff)
  then show ?thesis
    using drop_table_restrict_safe [OF sample_order_lists_all drop_sample_wf(2) _ drop_sample_both, of sample_partition]
    by (simp add: drop_sample_edges drop_sample_resolve drop_of_def is_partition_kind_def)
qed

end
