(* ===== verification/Roles.thy ===== *)
theory Roles
  imports Handlers Session Drop_Table
begin

text \<open>
  Role administration and privileges: \<^verbatim>\<open>CREATE\<close>, \<^verbatim>\<open>ALTER\<close> and \<^verbatim>\<open>DROP ROLE\<close>, \<^verbatim>\<open>GRANT\<close> and \<^verbatim>\<open>REVOKE\<close>
  of table privileges and of role memberships (\<^verbatim>\<open>src/src/_internal/analysis/state/apply_role.rs\<close>,
  \<^verbatim>\<open>state/grants.rs\<close>, \<^verbatim>\<open>state/roles.rs\<close>).
\<close>

section \<open>Statements\<close>

record create_role =
  cr_name :: string
  cr_inherits :: bool
  cr_can_login :: bool

record alter_role =
  ar_name :: role_fact
  ar_inherits :: "bool option"

record drop_role =
  dr_names :: "string list"
  dr_if_exists :: bool

datatype role_membership_option = AdminOption bool | InheritOption bool | SetOption bool

datatype privilege_fact =
    SelectFact | InsertFact | UpdateFact | DeleteFact | TruncateFact | ReferencesFact | TriggerFact
  | MaintainFact | ExecuteFact | CreateFact | TemporaryFact | AlterSystemFact | AllFact | NamedFact string

datatype privilege_spec = AllPrivileges | PrivilegeList "privilege_fact list"

datatype grant_target = Tables "object_id list" | AllTablesInSchema "string list" | Roles "object_id list"

record grant_mutation =
  gm_privileges :: privilege_spec
  gm_target :: grant_target
  gm_grantees :: "role_fact list"
  gm_with_grant_option :: bool
  gm_role_options :: "role_membership_option list"
  gm_granted_by :: "role_fact option"

record revoke_mutation =
  rm_grant_option_only :: bool
  rm_role_option :: "role_membership_option option"
  rm_privileges :: privilege_spec
  rm_target :: grant_target
  rm_revokees :: "role_fact list"
  rm_granted_by :: "role_fact option"
  rm_cascade :: bool

section \<open>Roles\<close>

definition role_lookup :: "analysis_state \<Rightarrow> oid \<Rightarrow> object_lookup" where
  "role_lookup s i =
     (case l_roles (local s) i of
        Some (Present _) \<Rightarrow> LookupPresent
      | Some Dropped \<Rightarrow> Tombstone
      | None \<Rightarrow> if l_roles_known (local s) then AuthoritativelyAbsent else LookupUnknown)"

definition put_role :: "oid \<Rightarrow> role_state overlay \<Rightarrow> analysis_state \<Rightarrow> analysis_state" where
  "put_role i v = upd_local (\<lambda>l. l\<lparr>l_roles := (l_roles l)(i := Some v)\<rparr>)"

definition no_such_role :: "string \<Rightarrow> mutation_result" where
  "no_such_role name = conflict (''role '' @ quoted name @ '' does not exist'')"

definition coverage_gap :: "unit step" where
  "coverage_gap = modify (taint CatalogCoverageIncomplete ChainScope)"

definition new_role :: "create_role \<Rightarrow> role_state" where
  "new_role c =
     \<lparr>role_id = Oid [] (cr_name c), role_can_login = cr_can_login c, role_is_superuser = False,
      role_inherits = cr_inherits c, role_member_of = [], role_can_administer_membership = [],
      role_can_inherit_from = [], role_can_set_role_to = []\<rparr>"

definition apply_create_role :: "create_role \<Rightarrow> unit step" where
  "apply_create_role c =
     (let i = Oid [] (cr_name c)
      in andthen (asks (\<lambda>s. role_lookup s i)) (\<lambda>found.
         andthen
           (case found of
              LookupPresent \<Rightarrow> return_with (conflict (''role '' @ quoted (cr_name c) @ '' already exists''))
            | LookupUnknown \<Rightarrow> modify (taint UnknownObjectState ChainScope)
            | _ \<Rightarrow> ret ()) (\<lambda>_.
         modify (\<lambda>s. put_role i (Present (new_role c)) (bump_generation (snapshot_role i s))))))"

definition set_inherits :: "oid \<Rightarrow> bool option \<Rightarrow> analysis_state \<Rightarrow> analysis_state" where
  "set_inherits i inherits s =
     (case (inherits, l_roles (local s) i) of
        (Some b, Some (Present role)) \<Rightarrow> put_role i (Present (role\<lparr>role_inherits := b\<rparr>)) s
      | _ \<Rightarrow> s)"

text \<open>The role is saved before it is looked up; looking up does not depend on what is saved.\<close>

definition apply_alter_role :: "alter_role \<Rightarrow> unit step" where
  "apply_alter_role a =
     andthen (asks (\<lambda>s. resolve_role_name (ar_name a) (rc_current_role (role_context_of s))
                          (rc_session_role (role_context_of s)))) (\<lambda>resolved.
     case resolved of
       None \<Rightarrow> give_up UnresolvedReference
     | Some i \<Rightarrow>
         andthen (asks (\<lambda>s. role_lookup s i)) (\<lambda>found.
         case found of
           LookupPresent \<Rightarrow> modify (\<lambda>s. bump_generation (set_inherits i (ar_inherits a) (snapshot_role i s)))
         | LookupUnknown \<Rightarrow> andthen (modify (snapshot_role i)) (\<lambda>_. give_up UnknownObjectState)
         | _ \<Rightarrow> andthen (modify (snapshot_role i)) (\<lambda>_. return_with (no_such_role (name_of i)))))"

text \<open>The first loop of \<^verbatim>\<open>apply_drop_role\<close>: the roles that are present. A plain name always resolves.\<close>

definition find_dropped_role :: "bool \<Rightarrow> string \<Rightarrow> oid list step" where
  "find_dropped_role if_exists name =
     andthen (asks (\<lambda>s. role_lookup s (Oid [] name))) (\<lambda>found.
     case found of
       LookupPresent \<Rightarrow> ret [Oid [] name]
     | LookupUnknown \<Rightarrow> give_up UnknownObjectState
     | _ \<Rightarrow> if if_exists then ret [] else return_with (no_such_role name))"

definition drop_one_role :: "oid \<Rightarrow> analysis_state \<Rightarrow> analysis_state" where
  "drop_one_role i s = put_role i Dropped (snapshot_role i s)"

definition apply_drop_role :: "drop_role \<Rightarrow> unit step" where
  "apply_drop_role d =
     andthen (collect_each (find_dropped_role (dr_if_exists d)) (dr_names d)) (\<lambda>found.
     andthen (asks (\<lambda>s. l_roles_known (local s))) (\<lambda>known.
     if known \<and> concat found \<noteq> [] then give_up UnmodeledState
     else modify (fold drop_one_role (concat found))))"

section \<open>What both statements check\<close>

definition validate_object_grantor :: "bool \<Rightarrow> oid option \<Rightarrow> unit step" where
  "validate_object_grantor explicit grantor =
     (if \<not> explicit then ret ()
      else andthen (asks role_context_of) (\<lambda>c.
        case grantor of
          None \<Rightarrow> coverage_gap
        | Some g \<Rightarrow>
            if \<not> rc_current_role_known c then coverage_gap
            else if name_of g \<noteq> rc_current_role c
            then return_with (conflict (''object privilege GRANTED BY '' @ quoted (name_of g)
                   @ '' must name current role '' @ quoted (rc_current_role c)))
            else ret ()))"

definition is_grantable :: "relation_kind \<Rightarrow> bool" where
  "is_grantable kind \<longleftrightarrow>
     kind = Table \<or> kind = View \<or> kind = MaterializedView \<or> kind = ForeignTable"

definition validate_target_role :: "object_id \<Rightarrow> unit step" where
  "validate_target_role role =
     andthen (asks (\<lambda>s. role_lookup s (oid role))) (\<lambda>found.
     case found of
       LookupPresent \<Rightarrow> ret ()
     | LookupUnknown \<Rightarrow> give_up UnknownObjectState
     | _ \<Rightarrow> return_with (no_such_role (oid_name role)))"

definition validate_grant_targets :: "grant_target \<Rightarrow> unit step" where
  "validate_grant_targets target =
     (case target of
        Tables ids \<Rightarrow>
          for_each (\<lambda>i. ensure (ensure_relation_target i is_grantable
             (''grant target relation '' @ quoted (object_id_display i) @ '' does not exist'')
             (''grant target '' @ quoted (object_id_display i) @ '' is not grantable''))) ids
      | AllTablesInSchema schemas \<Rightarrow> for_each (\<lambda>schema. ensure (ensure_schema_target schema)) schemas
      | Roles roles \<Rightarrow> for_each validate_target_role roles)"

definition validate_role_fact :: "role_fact \<Rightarrow> oid step" where
  "validate_role_fact rf =
     andthen (asks (\<lambda>s. role_fact_identity s rf)) (\<lambda>identity.
     case identity of
       None \<Rightarrow> give_up UnresolvedReference
     | Some (name, _) \<Rightarrow>
         if name = ''public'' then ret (Oid [] ''public'')
         else andthen (asks (\<lambda>s. role_lookup s (Oid [] name))) (\<lambda>found.
           case found of
             LookupPresent \<Rightarrow> ret (Oid [] name)
           | LookupUnknown \<Rightarrow> andthen coverage_gap (\<lambda>_. ret (Oid [] name))
           | _ \<Rightarrow> return_with (no_such_role name)))"

definition validate_role_facts :: "role_fact list \<Rightarrow> oid list step" where
  "validate_role_facts = collect_each validate_role_fact"

definition table_privileges :: "privilege set" where
  "table_privileges = {PSelect, PInsert, PUpdate, PDelete, PTruncate, PReferences, PTrigger}"

text \<open>A privilege that does not apply to tables is passed over.\<close>

fun resolve_privilege_facts :: "privilege_fact list \<Rightarrow> privilege set \<Rightarrow> privilege set step" where
  "resolve_privilege_facts [] ps = ret ps"
| "resolve_privilege_facts (f # fs) ps =
     (case f of
        SelectFact \<Rightarrow> resolve_privilege_facts fs (insert PSelect ps)
      | InsertFact \<Rightarrow> resolve_privilege_facts fs (insert PInsert ps)
      | UpdateFact \<Rightarrow> resolve_privilege_facts fs (insert PUpdate ps)
      | DeleteFact \<Rightarrow> resolve_privilege_facts fs (insert PDelete ps)
      | TruncateFact \<Rightarrow> resolve_privilege_facts fs (insert PTruncate ps)
      | ReferencesFact \<Rightarrow> resolve_privilege_facts fs (insert PReferences ps)
      | TriggerFact \<Rightarrow> resolve_privilege_facts fs (insert PTrigger ps)
      | MaintainFact \<Rightarrow>
          andthen (asks (\<lambda>s. version_num (effective_pg_version s))) (\<lambda>version.
          case version of
            None \<Rightarrow> give_up UnsupportedSemantics
          | Some v \<Rightarrow>
              if v < 170000 then return_with (conflict ''privilege MAINTAIN requires PostgreSQL 17+'')
              else resolve_privilege_facts fs (insert PMaintain ps))
      | _ \<Rightarrow> resolve_privilege_facts fs ps)"

definition resolve_grant_privileges :: "privilege_spec \<Rightarrow> privilege set step" where
  "resolve_grant_privileges spec =
     (case spec of
        AllPrivileges \<Rightarrow>
          andthen (asks effective_pg_version) (\<lambda>version.
          if satisfies version (\<lambda>v. v \<ge> 170000) then ret (insert PMaintain table_privileges)
          else if version_num version = None
          then andthen (modify (taint UnknownObjectState ChainScope)) (\<lambda>_. ret table_privileges)
          else ret table_privileges)
      | PrivilegeList facts \<Rightarrow> resolve_privilege_facts facts {})"

text \<open>The guards before the statement looks at its target.\<close>

definition validate_grant_roles :: "role_fact list \<Rightarrow> role_fact option \<Rightarrow> oid list step" where
  "validate_grant_roles roles granted_by =
     andthen (validate_role_facts roles) (\<lambda>ids.
     case granted_by of
       None \<Rightarrow> ret ids
     | Some rf \<Rightarrow> andthen (validate_role_facts [rf]) (\<lambda>_. ret ids))"

definition table_authorization :: "oid \<Rightarrow> privilege set \<Rightarrow> oid option \<Rightarrow> analysis_state \<Rightarrow> bool option option" where
  "table_authorization i ps grantor s =
     (case l_relations (local s) i of
        None \<Rightarrow> Some None
      | Some Dropped \<Rightarrow> Some (Some False)
      | Some (Present relation) \<Rightarrow> authorize_relation_grant s relation ps grantor)"

definition authorize_table :: "object_id \<Rightarrow> privilege set \<Rightarrow> oid option \<Rightarrow> unit step" where
  "authorize_table i ps grantor =
     andthen (query (table_authorization (oid i) ps grantor)) (\<lambda>authorization.
     case authorization of
       Some True \<Rightarrow> ret ()
     | Some False \<Rightarrow>
         return_with (conflict (''role '' @ quoted (case grantor of None \<Rightarrow> ''unknown'' | Some g \<Rightarrow> name_of g)
           @ '' lacks grant option on relation '' @ quoted (object_id_display i)))
     | None \<Rightarrow> if grantor \<noteq> None then coverage_gap else ret ())"

definition tables_in_schemas :: "hash_order \<Rightarrow> string list \<Rightarrow> analysis_state \<Rightarrow> oid list" where
  "tables_in_schemas h schemas s =
     filter (\<lambda>i. schema_of i \<in> set schemas \<and> (\<exists>r. l_relations (local s) i = Some (Present r)))
       (ho_ids h (dom (l_relations (local s))))"

fun administers_all :: "(oid \<Rightarrow> bool option option) \<Rightarrow> bool \<Rightarrow> oid list \<Rightarrow> bool option option" where
  "administers_all check allowed [] = Some (Some allowed)"
| "administers_all check allowed (p # ps) =
     (case check p of
        None \<Rightarrow> None
      | Some None \<Rightarrow> Some None
      | Some (Some b) \<Rightarrow> administers_all check (allowed \<and> b) ps)"

definition can_administer :: "bool \<Rightarrow> oid \<Rightarrow> oid list \<Rightarrow> analysis_state \<Rightarrow> bool option option" where
  "can_administer explicit grantor parents s =
     (if explicit
      then Some (case present_role s (name_of grantor) of
                   None \<Rightarrow> None
                 | Some role \<Rightarrow>
                     if role_is_superuser role
                        \<or> (\<forall>p \<in> set parents. p \<in> set (role_can_administer_membership role))
                     then Some True else None)
      else administers_all (has_admin_privileges_on_role s grantor) True parents)"

definition authorize_memberships :: "string \<Rightarrow> bool \<Rightarrow> oid option \<Rightarrow> oid list \<Rightarrow> unit step" where
  "authorize_memberships verb explicit grantor parents =
     (case grantor of
        Some g \<Rightarrow>
          andthen (asks (\<lambda>s. l_roles_known (local s))) (\<lambda>known.
          if known
          then andthen (query (can_administer explicit g parents)) (\<lambda>answer.
            case answer of
              Some True \<Rightarrow> ret ()
            | Some False \<Rightarrow>
                return_with (conflict (''role '' @ quoted (name_of g) @ '' lacks ADMIN OPTION for the ''
                  @ verb @ '' membership''))
            | None \<Rightarrow> coverage_gap)
          else coverage_gap)
      | None \<Rightarrow>
          andthen (asks (\<lambda>s. rc_current_role_known (role_context_of s))) (\<lambda>known.
          if explicit \<or> known then coverage_gap else ret ()))"

text \<open>Options of a membership other than \<^verbatim>\<open>WITH ADMIN OPTION\<close> need PostgreSQL 16.\<close>

definition require_membership_options :: "bool \<Rightarrow> unit step" where
  "require_membership_options needed =
     (if \<not> needed then ret ()
      else andthen (asks (\<lambda>s. version_num (effective_pg_version s))) (\<lambda>version.
        case version of
          Some v \<Rightarrow>
            if v < 160000
            then return_with (conflict ''per-membership TRUE/FALSE options require PostgreSQL 16+'')
            else ret ()
        | None \<Rightarrow> give_up UnsupportedSemantics))"


section \<open>Privileges on tables\<close>

definition put_relation :: "oid \<Rightarrow> (relation_state \<Rightarrow> relation_state) \<Rightarrow> analysis_state \<Rightarrow> analysis_state" where
  "put_relation i f s =
     (case l_relations (local s) i of
        Some (Present relation) \<Rightarrow>
          upd_local (\<lambda>l. l\<lparr>l_relations := (l_relations l)(i := Some (Present (f relation)))\<rparr>) s
      | _ \<Rightarrow> s)"

definition on_privileges :: "(privilege_matrix \<Rightarrow> privilege_matrix) \<Rightarrow> relation_state \<Rightarrow> relation_state" where
  "on_privileges f relation = relation\<lparr>r_privileges := f (r_privileges relation)\<rparr>"

definition apply_grant_to_relation ::
  "oid \<Rightarrow> privilege set \<Rightarrow> oid list \<Rightarrow> bool \<Rightarrow> oid option \<Rightarrow> analysis_state \<Rightarrow> analysis_state" where
  "apply_grant_to_relation i ps grantees with_grant_option grantor s =
     put_relation i (on_privileges (fold (\<lambda>g. grant_from g ps grantor with_grant_option) grantees))
       (snapshot_relation i s)"

definition revoke_privileges ::
  "hash_order \<Rightarrow> privilege set \<Rightarrow> bool \<Rightarrow> oid option \<Rightarrow> bool \<Rightarrow> oid \<Rightarrow> privilege_matrix \<Rightarrow> privilege_matrix" where
  "revoke_privileges h ps grant_option_only grantor cascade revokee m =
     (if grant_option_only then revoke_grant_option_from revokee ps grantor m
      else revoke_from_cascade (ho_grants h (dom (grantors m))) revokee ps grantor cascade m)"

definition apply_revoke_to_relation ::
  "hash_order \<Rightarrow> oid \<Rightarrow> privilege set \<Rightarrow> oid list \<Rightarrow> bool \<Rightarrow> oid option \<Rightarrow> bool \<Rightarrow> analysis_state \<Rightarrow> analysis_state" where
  "apply_revoke_to_relation h i ps revokees grant_option_only grantor cascade s =
     put_relation i (on_privileges (fold (revoke_privileges h ps grant_option_only grantor cascade) revokees))
       (snapshot_relation i s)"

definition grant_tables :: "grant_mutation \<Rightarrow> oid list \<Rightarrow> privilege set \<Rightarrow> object_id list \<Rightarrow> unit step" where
  "grant_tables g grantees ps ids =
     andthen (asks (\<lambda>s. grantor_identity s (gm_granted_by g))) (\<lambda>grantor.
     andthen (validate_object_grantor (gm_granted_by g \<noteq> None) grantor) (\<lambda>_.
     for_each (\<lambda>i. andthen (authorize_table i ps grantor) (\<lambda>_.
       modify (apply_grant_to_relation (oid i) ps grantees (gm_with_grant_option g) grantor))) ids))"

definition grant_all_tables ::
  "hash_order \<Rightarrow> grant_mutation \<Rightarrow> oid list \<Rightarrow> privilege set \<Rightarrow> string list \<Rightarrow> unit step" where
  "grant_all_tables h g grantees ps schemas =
     andthen (asks (\<lambda>s. grantor_identity s (gm_granted_by g))) (\<lambda>grantor.
     andthen (validate_object_grantor (gm_granted_by g \<noteq> None) grantor) (\<lambda>_.
     andthen coverage_gap (\<lambda>_.
     andthen (asks (tables_in_schemas h schemas)) (\<lambda>ids.
     for_each (\<lambda>i. modify (apply_grant_to_relation i ps grantees (gm_with_grant_option g) grantor)) ids))))"

text \<open>Evidence for a targeted revoke on a matrix whose provenance is not complete.\<close>

definition revoke_provenance_unknown ::
  "revoke_mutation \<Rightarrow> oid list \<Rightarrow> privilege set \<Rightarrow> oid option \<Rightarrow> oid \<Rightarrow> analysis_state \<Rightarrow> bool" where
  "revoke_provenance_unknown v revokees ps grantor i s \<longleftrightarrow>
     grantor \<noteq> None
     \<and> (case l_relations (local s) i of
          Some (Present relation) \<Rightarrow>
            list_ex (\<lambda>role.
              if rm_grant_option_only v
              then \<not> targeted_grant_option_revoke_provenance_is_known (r_privileges relation) role ps
              else \<not> targeted_revoke_provenance_is_known (r_privileges relation) role ps) revokees
        | _ \<Rightarrow> False)"

definition revoke_table ::
  "hash_order \<Rightarrow> revoke_mutation \<Rightarrow> oid list \<Rightarrow> privilege set \<Rightarrow> oid option \<Rightarrow> oid \<Rightarrow> unit step" where
  "revoke_table h v revokees ps grantor i =
     andthen (asks (revoke_provenance_unknown v revokees ps grantor i)) (\<lambda>unknown.
     andthen (if unknown then coverage_gap else ret ()) (\<lambda>_.
     modify (apply_revoke_to_relation h i ps revokees (rm_grant_option_only v) grantor (rm_cascade v))))"

definition revoke_tables ::
  "hash_order \<Rightarrow> revoke_mutation \<Rightarrow> oid list \<Rightarrow> privilege set \<Rightarrow> object_id list \<Rightarrow> unit step" where
  "revoke_tables h v revokees ps ids =
     andthen (asks (\<lambda>s. grantor_identity s (rm_granted_by v))) (\<lambda>grantor.
     andthen (validate_object_grantor (rm_granted_by v \<noteq> None) grantor) (\<lambda>_.
     for_each (\<lambda>i. andthen (authorize_table i ps grantor) (\<lambda>_.
       revoke_table h v revokees ps grantor (oid i))) ids))"

definition revoke_all_tables ::
  "hash_order \<Rightarrow> revoke_mutation \<Rightarrow> oid list \<Rightarrow> privilege set \<Rightarrow> string list \<Rightarrow> unit step" where
  "revoke_all_tables h v revokees ps schemas =
     andthen (asks (\<lambda>s. grantor_identity s (rm_granted_by v))) (\<lambda>grantor.
     andthen (validate_object_grantor (rm_granted_by v \<noteq> None) grantor) (\<lambda>_.
     andthen coverage_gap (\<lambda>_.
     andthen (asks (tables_in_schemas h schemas)) (\<lambda>ids.
     for_each (revoke_table h v revokees ps grantor) ids))))"

section \<open>GRANT of roles\<close>

record membership_options =
  mo_admin :: "bool option"
  mo_inherit :: "bool option"
  mo_set :: "bool option"

definition no_options :: membership_options where
  "no_options = \<lparr>mo_admin = None, mo_inherit = None, mo_set = None\<rparr>"

text \<open>An option given twice ends the loop.\<close>

fun membership_options_of :: "role_membership_option list \<Rightarrow> membership_options \<Rightarrow> membership_options option" where
  "membership_options_of [] mo = Some mo"
| "membership_options_of (AdminOption b # os) mo =
     (if mo_admin mo \<noteq> None then None else membership_options_of os (mo\<lparr>mo_admin := Some b\<rparr>))"
| "membership_options_of (InheritOption b # os) mo =
     (if mo_inherit mo \<noteq> None then None else membership_options_of os (mo\<lparr>mo_inherit := Some b\<rparr>))"
| "membership_options_of (SetOption b # os) mo =
     (if mo_set mo \<noteq> None then None else membership_options_of os (mo\<lparr>mo_set := Some b\<rparr>))"

definition memberships_of :: "analysis_state \<Rightarrow> oid \<rightharpoonup> oid list" where
  "memberships_of s i =
     (case l_roles (local s) i of Some (Present role) \<Rightarrow> Some (role_member_of role) | _ \<Rightarrow> None)"

definition visit_cycle :: "(oid \<rightharpoonup> oid list) \<Rightarrow> oid \<Rightarrow> oid \<Rightarrow> visit" where
  "visit_cycle memberships member x =
     (if x = member then Found
      else Expand (case memberships x of None \<Rightarrow> [] | Some ys \<Rightarrow> ys))"

definition add_membership :: "oid \<Rightarrow> oid \<Rightarrow> (oid \<rightharpoonup> oid list) \<Rightarrow> (oid \<rightharpoonup> oid list)" where
  "add_membership member parent memberships =
     memberships(member \<mapsto> (case memberships member of None \<Rightarrow> [] | Some ys \<Rightarrow> ys) @ [parent])"

text \<open>
  The pairs of a batch in turn, each against the memberships that the earlier ones propose; the
  answer is the first pair that closes a cycle.
\<close>

fun first_cycle :: "(oid \<times> object_id) list \<Rightarrow> (oid \<rightharpoonup> oid list) \<Rightarrow> (oid \<times> object_id) option option" where
  "first_cycle [] memberships = Some None"
| "first_cycle ((member, parent) # pairs) memberships =
     (case role_search (visit_cycle memberships member) [oid parent] {} of
        None \<Rightarrow> None
      | Some (Some False) \<Rightarrow> first_cycle pairs (add_membership member (oid parent) memberships)
      | Some _ \<Rightarrow> Some (Some (member, parent)))"

definition reject_cycles :: "oid list \<Rightarrow> object_id list \<Rightarrow> unit step" where
  "reject_cycles members parents =
     andthen (query (\<lambda>s. first_cycle (List.product members parents) (memberships_of s))) (\<lambda>cyclic.
     case cyclic of
       None \<Rightarrow> ret ()
     | Some (member, parent) \<Rightarrow>
         return_with (conflict (''role membership '' @ quoted (name_of member) @ '' in ''
           @ quoted (object_id_display parent) @ '' would create a cycle'')))"

definition merge_record :: "membership_options \<Rightarrow> bool \<Rightarrow> role_membership_grantor \<Rightarrow> role_membership_grantor" where
  "merge_record mo pg16_or_later record =
     record\<lparr>mem_admin := (case mo_admin mo of None \<Rightarrow> mem_admin record | Some b \<Rightarrow> b),
       mem_inherit := (case mo_inherit mo of
                         None \<Rightarrow> mem_inherit record
                       | Some b \<Rightarrow> if pg16_or_later then b else mem_inherit record),
       mem_set := (case mo_set mo of None \<Rightarrow> mem_set record | Some b \<Rightarrow> b)\<rparr>"

definition role_inherits_or_true :: "analysis_state \<Rightarrow> oid \<Rightarrow> bool" where
  "role_inherits_or_true s member =
     (case l_roles (local s) member of Some (Present role) \<Rightarrow> role_inherits role | _ \<Rightarrow> True)"

definition pg16_or_later :: "analysis_state \<Rightarrow> bool" where
  "pg16_or_later s \<longleftrightarrow> satisfies (effective_pg_version s) (\<lambda>v. v \<ge> 160000)"

definition value_or :: "bool option \<Rightarrow> bool \<Rightarrow> bool" where
  "value_or x d = (case x of None \<Rightarrow> d | Some b \<Rightarrow> b)"

definition grant_record :: "membership_options \<Rightarrow> oid \<Rightarrow> oid \<times> oid \<Rightarrow> analysis_state \<Rightarrow> analysis_state" where
  "grant_record mo grantor pair s =
     (case pair of (member, parent) \<Rightarrow>
        (let records = l_role_membership_grantors (local s)
         in case membership_record_index s member parent grantor of
              Some k \<Rightarrow> set_grantors (records[k := merge_record mo (pg16_or_later s) (records ! k)]) s
            | None \<Rightarrow>
                set_grantors (records @ [\<lparr>mem_member = member, mem_role = parent, mem_grantor = grantor,
                    mem_admin = value_or (mo_admin mo) False,
                    mem_inherit = value_or (mo_inherit mo)
                      (if pg16_or_later s then role_inherits_or_true s member else True),
                    mem_set = value_or (mo_set mo) True\<rparr>]) s))"

definition is_edge :: "oid \<Rightarrow> oid \<Rightarrow> role_membership_grantor \<Rightarrow> bool" where
  "is_edge member parent record \<longleftrightarrow> mem_member record = member \<and> mem_role record = parent"

definition is_member_of :: "analysis_state \<Rightarrow> oid \<Rightarrow> oid \<Rightarrow> bool" where
  "is_member_of s member parent =
     (case l_roles (local s) member of
        Some (Present role) \<Rightarrow> List.member (role_member_of role) parent
      | _ \<Rightarrow> False)"

definition grant_legacy_record :: "membership_options \<Rightarrow> oid \<Rightarrow> oid \<times> oid \<Rightarrow> analysis_state \<Rightarrow> analysis_state" where
  "grant_legacy_record mo grantor pair s =
     (case pair of (member, parent) \<Rightarrow>
        (let records = l_role_membership_grantors (local s)
         in if is_member_of s member parent \<and> list_ex (is_edge member parent) records then s
            else set_grantors (filter (\<lambda>r. \<not> is_edge member parent r) records
                   @ [\<lparr>mem_member = member, mem_role = parent, mem_grantor = grantor,
                       mem_admin = value_or (mo_admin mo) False,
                       mem_inherit = (satisfies (effective_pg_version s) (\<lambda>v. v < 160000)
                         \<or> value_or (mo_inherit mo) True),
                       mem_set = value_or (mo_set mo) True\<rparr>]) s))"

definition without :: "'a \<Rightarrow> 'a list \<Rightarrow> 'a list" where
  "without x xs = filter (\<lambda>y. y \<noteq> x) xs"

text \<open>An option set to true lists the parent, set to false unlists it.\<close>

definition apply_option :: "bool option \<Rightarrow> oid \<Rightarrow> oid list \<Rightarrow> oid list" where
  "apply_option choice parent xs =
     (case choice of None \<Rightarrow> xs | Some True \<Rightarrow> push_new parent xs | Some False \<Rightarrow> without parent xs)"

definition first_choice :: "bool option \<Rightarrow> bool option \<Rightarrow> bool option" where
  "first_choice a b = (case a of None \<Rightarrow> b | Some _ \<Rightarrow> a)"

definition grant_parent :: "membership_options \<Rightarrow> 32 word \<Rightarrow> oid \<Rightarrow> role_state \<Rightarrow> role_state" where
  "grant_parent mo version parent role =
     (let is_new = (parent \<notin> set (role_member_of role));
          inherit_opt =
            (if version < 160000 then (if is_new then Some True else None)
             else first_choice (mo_inherit mo) (if is_new then Some (role_inherits role) else None));
          set_opt = first_choice (mo_set mo) (if is_new then Some True else None)
      in role\<lparr>role_member_of := push_new parent (role_member_of role),
           role_can_administer_membership := apply_option (mo_admin mo) parent (role_can_administer_membership role),
           role_can_inherit_from := apply_option inherit_opt parent (role_can_inherit_from role),
           role_can_set_role_to := apply_option set_opt parent (role_can_set_role_to role)\<rparr>)"

definition modify_role :: "oid \<Rightarrow> (role_state \<Rightarrow> role_state) \<Rightarrow> analysis_state \<Rightarrow> analysis_state" where
  "modify_role i f s =
     (case l_roles (local s) i of Some (Present role) \<Rightarrow> put_role i (Present (f role)) s | _ \<Rightarrow> s)"

definition touch_member ::
  "bool \<Rightarrow> membership_options \<Rightarrow> 32 word \<Rightarrow> oid list \<Rightarrow> oid \<Rightarrow> analysis_state \<Rightarrow> analysis_state" where
  "touch_member record_mode mo version parents member s =
     (let s1 = snapshot_role member s
      in if record_mode then reconcile_membership_projection member s1
         else modify_role member (fold (grant_parent mo version) parents) s1)"

definition grant_memberships ::
  "hash_order \<Rightarrow> membership_options \<Rightarrow> oid option \<Rightarrow> oid list \<Rightarrow> oid list \<Rightarrow> analysis_state \<Rightarrow> analysis_state" where
  "grant_memberships h mo grantor members parents s =
     (let record_mode = (grantor \<noteq> None \<and> l_role_membership_grantors_complete (local s));
          version = conservative_num (effective_pg_version s);
          s1 = snapshot_role_membership_grantors s;
          s2 = (case grantor of
                  Some g \<Rightarrow>
                    fold (if record_mode then grant_record mo g else grant_legacy_record mo g)
                      (List.product members parents) s1
                | None \<Rightarrow> forget_completeness s1)
      in fold (touch_member record_mode mo version parents) (ho_ids h (set members)) s2)"

definition grant_roles :: "hash_order \<Rightarrow> grant_mutation \<Rightarrow> oid list \<Rightarrow> object_id list \<Rightarrow> unit step" where
  "grant_roles h g members parents =
     andthen (require_membership_options (list_ex (\<lambda>x. x \<noteq> AdminOption True) (gm_role_options g))) (\<lambda>_.
     andthen (asks (\<lambda>s. role_membership_grantor s (gm_granted_by g))) (\<lambda>grantor.
     andthen (authorize_memberships ''granted'' (gm_granted_by g \<noteq> None) grantor (map oid parents)) (\<lambda>_.
     case membership_options_of (gm_role_options g) no_options of
       None \<Rightarrow> give_up UnmodeledState
     | Some mo \<Rightarrow>
         if gm_role_options g = [] \<and> gm_with_grant_option g then give_up UnmodeledState
         else if list_ex (\<lambda>m. name_of m = ''public'') members then give_up UnmodeledState
         else andthen (reject_cycles members parents) (\<lambda>_.
           modify (grant_memberships h mo grantor members (map oid parents))))))"

definition apply_grant :: "hash_order \<Rightarrow> grant_mutation \<Rightarrow> unit step" where
  "apply_grant h g =
     andthen (validate_grant_targets (gm_target g)) (\<lambda>_.
     andthen (validate_grant_roles (gm_grantees g) (gm_granted_by g)) (\<lambda>grantees.
     andthen (if gm_with_grant_option g then coverage_gap else ret ()) (\<lambda>_.
     andthen (resolve_grant_privileges (gm_privileges g)) (\<lambda>ps.
     case gm_target g of
       Tables ids \<Rightarrow> grant_tables g grantees ps ids
     | AllTablesInSchema schemas \<Rightarrow> grant_all_tables h g grantees ps schemas
     | Roles parents \<Rightarrow> grant_roles h g grantees parents))))"

section \<open>REVOKE of roles\<close>

text \<open>
  Records without options: the edges to remove are found first. The head of \<open>pending\<close> is the top
  of the stack; every edge found pushes its member.
\<close>

definition collect_edge ::
  "analysis_state \<Rightarrow> oid \<Rightarrow> role_membership_grantor \<Rightarrow> (oid \<times> oid) list \<times> oid list \<Rightarrow> (oid \<times> oid) list \<times> oid list" where
  "collect_edge s grantor record acc =
     (case acc of (removals, pending) \<Rightarrow>
        if mem_grantor record = grantor \<and> is_member_of s (mem_member record) (mem_role record)
           \<and> (mem_member record, mem_role record) \<notin> set removals
        then (removals @ [(mem_member record, mem_role record)], mem_member record # pending)
        else (removals, pending))"

definition collect_edges ::
  "analysis_state \<Rightarrow> oid \<Rightarrow> (oid \<times> oid) list \<times> oid list \<Rightarrow> (oid \<times> oid) list \<times> oid list" where
  "collect_edges s grantor = fold (collect_edge s grantor) (l_role_membership_grantors (local s))"

definition record_edges :: "analysis_state \<Rightarrow> (oid \<times> oid) set" where
  "record_edges s = (\<lambda>r. (mem_member r, mem_role r)) ` set (l_role_membership_grantors (local s))"

definition edges_left :: "analysis_state \<Rightarrow> (oid \<times> oid) list \<times> oid list \<Rightarrow> nat" where
  "edges_left s acc = length (snd acc) + card (record_edges s - set (fst acc))"

lemma collect_edge_left:
  assumes "r \<in> set (l_role_membership_grantors (local s))"
  shows "edges_left s (collect_edge s g r acc) \<le> edges_left s acc"
proof -
  obtain removals pending where acc: "acc = (removals, pending)" by (cases acc)
  let ?e = "(mem_member r, mem_role r)"
  have fin: "finite (record_edges s)" by (simp add: record_edges_def)
  show ?thesis
  proof (cases "mem_grantor r = g \<and> is_member_of s (mem_member r) (mem_role r) \<and> ?e \<notin> set removals")
    case True
    then have "?e \<in> record_edges s - set removals" using assms by (auto simp: record_edges_def)
    moreover have "record_edges s - set (removals @ [?e]) = (record_edges s - set removals) - {?e}" by auto
    ultimately have "Suc (card (record_edges s - set (removals @ [?e]))) = card (record_edges s - set removals)"
      using fin card_Suc_Diff1 by (metis finite_Diff)
    with True acc show ?thesis by (simp add: collect_edge_def edges_left_def)
  next
    case False
    then have "collect_edge s g r acc = acc" using acc by (auto simp: collect_edge_def)
    then show ?thesis by simp
  qed
qed

lemma collect_edges_left: "edges_left s (collect_edges s g acc) \<le> edges_left s acc"
proof -
  have "edges_left s (fold (collect_edge s g) rs acc) \<le> edges_left s acc"
    if "set rs \<subseteq> set (l_role_membership_grantors (local s))" for rs
    using that
  proof (induction rs arbitrary: acc)
    case (Cons r rs)
    have "edges_left s (fold (collect_edge s g) rs (collect_edge s g r acc)) \<le> edges_left s (collect_edge s g r acc)"
      using Cons by simp
    also have "\<dots> \<le> edges_left s acc" using Cons.prems by (intro collect_edge_left) simp
    finally show ?case by simp
  qed simp
  then show ?thesis by (simp add: collect_edges_def)
qed

function membership_closure ::
  "analysis_state \<Rightarrow> oid list \<Rightarrow> oid set \<Rightarrow> (oid \<times> oid) list \<Rightarrow> (oid \<times> oid) list" where
  "membership_closure s [] visited removals = removals"
| "membership_closure s (g # pending) visited removals =
     (if g \<in> visited then membership_closure s pending visited removals
      else case collect_edges s g (removals, pending) of
          (removals', pending') \<Rightarrow> membership_closure s pending' (insert g visited) removals')"
  by pat_completeness auto

termination membership_closure
proof (relation "measure (\<lambda>(s, pending, visited, removals). edges_left s (removals, pending))", goal_cases)
  case (3 s g pending visited removals removals' pending')
  then have "edges_left s (removals', pending') \<le> edges_left s (removals, pending)"
    using collect_edges_left [of s g "(removals, pending)"] by simp
  also have "\<dots> < edges_left s (removals, g # pending)" by (simp add: edges_left_def)
  finally show ?case by simp
qed (simp_all add: edges_left_def)

definition forget_parent :: "oid \<Rightarrow> role_state \<Rightarrow> role_state" where
  "forget_parent parent role =
     role\<lparr>role_member_of := without parent (role_member_of role),
       role_can_administer_membership := without parent (role_can_administer_membership role),
       role_can_inherit_from := without parent (role_can_inherit_from role),
       role_can_set_role_to := without parent (role_can_set_role_to role)\<rparr>"

definition forget_edge :: "oid \<Rightarrow> oid \<Rightarrow> analysis_state \<Rightarrow> analysis_state" where
  "forget_edge member parent s =
     set_grantors (filter (\<lambda>r. \<not> is_edge member parent r) (l_role_membership_grantors (local s))) s"

definition remove_edge :: "oid \<times> oid \<Rightarrow> analysis_state \<Rightarrow> analysis_state" where
  "remove_edge e s =
     (case e of (member, parent) \<Rightarrow>
        forget_edge member parent (modify_role member (forget_parent parent) (snapshot_role member s)))"

definition cascade_role_memberships :: "oid list \<Rightarrow> analysis_state \<Rightarrow> analysis_state" where
  "cascade_role_memberships initial s =
     (let removals = membership_closure s (rev initial) {} []
      in if removals = [] then s else fold remove_edge removals (snapshot_role_membership_grantors s))"

text \<open>Records with options: a removed record that carried \<^verbatim>\<open>ADMIN\<close> pushes its member.\<close>

definition revoked_records :: "analysis_state \<Rightarrow> oid \<Rightarrow> role_membership_grantor list" where
  "revoked_records s grantor =
     map snd (filter (\<lambda>(k, r). mem_grantor r = grantor
         \<and> \<not> membership_admin_from_other_record s (mem_member r) (mem_role r) (Some k))
       (List.enumerate 0 (l_role_membership_grantors (local s))))"

lemma revoked_records_grantor:
  "r \<in> set (revoked_records s g) \<Longrightarrow> r \<in> set (l_role_membership_grantors (local s)) \<and> mem_grantor r = g"
  by (auto simp: revoked_records_def in_set_enumerate_eq)

function delegation_closure ::
  "analysis_state \<Rightarrow> oid list \<Rightarrow> oid set \<Rightarrow> role_membership_grantor list \<Rightarrow> role_membership_grantor list" where
  "delegation_closure s [] visited removals = removals"
| "delegation_closure s (g # pending) visited removals =
     (if g \<in> visited then delegation_closure s pending visited removals
      else delegation_closure s
             (rev (map mem_member (filter mem_admin (revoked_records s g))) @ pending)
             (insert g visited) (removals @ revoked_records s g))"
  by pat_completeness auto

termination delegation_closure
proof (relation "inv_image (finite_psubset <*lex*> less_than)
    (\<lambda>(s, pending, visited, removals).
       (mem_grantor ` set (l_role_membership_grantors (local s)) - visited, length pending))", goal_cases)
  case (3 s g pending visited removals)
  let ?G = "mem_grantor ` set (l_role_membership_grantors (local s))"
  show ?case
  proof (cases "g \<in> ?G")
    case True
    then show ?thesis using 3 by (auto simp: finite_psubset_def)
  next
    case False
    then have "revoked_records s g = []"
      using revoked_records_grantor [of _ s g] by (cases "revoked_records s g") force+
    moreover have "?G - insert g visited = ?G - visited" using False by auto
    ultimately show ?thesis by simp
  qed
qed (auto intro: wf_inv_image wf_lex_prod wf_finite_psubset)

definition remove_record :: "role_membership_grantor \<Rightarrow> analysis_state \<Rightarrow> analysis_state" where
  "remove_record removed s =
     (let member = mem_member removed;
          s1 = snapshot_role member s;
          s2 = set_grantors (filter (\<lambda>r. \<not> (mem_member r = member \<and> mem_role r = mem_role removed
                 \<and> mem_grantor r = mem_grantor removed)) (l_role_membership_grantors (local s1))) s1
      in reconcile_membership_projection member s2)"

definition cascade_memberships_granted_by :: "oid list \<Rightarrow> analysis_state \<Rightarrow> analysis_state" where
  "cascade_memberships_granted_by initial s =
     (let removals = delegation_closure s (rev initial) {} []
      in if removals = [] then s else fold remove_record removals (snapshot_role_membership_grantors s))"

text \<open>
  One pair of the loop of a revoke over records with options; \<open>acc\<close> holds the members whose
  \<^verbatim>\<open>ADMIN\<close> is gone. The option is one of the three set to false, or none for the whole membership.
\<close>

definition reproject :: "oid \<Rightarrow> role_membership_grantor list \<Rightarrow> analysis_state \<Rightarrow> analysis_state" where
  "reproject member records s =
     reconcile_membership_projection member (snapshot_role member (set_grantors records s))"

definition revoke_record ::
  "role_membership_option option \<Rightarrow> bool \<Rightarrow> oid \<Rightarrow> oid \<times> oid \<Rightarrow> oid list \<times> analysis_state \<Rightarrow> oid list \<times> analysis_state" where
  "revoke_record option cascade grantor pair acc =
     (case pair of (member, parent) \<Rightarrow> case acc of (lost, s) \<Rightarrow>
        (let records = l_role_membership_grantors (local s)
         in case membership_record_index s member parent grantor of
              None \<Rightarrow> (lost, s)
            | Some k \<Rightarrow>
                (let record = records ! k;
                     still_admin = membership_admin_from_other_record s member parent (Some k)
                 in case option of
                      Some (AdminOption _) \<Rightarrow>
                        if \<not> mem_admin record then (lost, s)
                        else (if cascade \<and> \<not> still_admin then lost @ [member] else lost,
                              reproject member (records[k := record\<lparr>mem_admin := False\<rparr>]) s)
                    | Some (InheritOption _) \<Rightarrow>
                        (lost, reproject member (records[k := record\<lparr>mem_inherit := False\<rparr>]) s)
                    | Some (SetOption _) \<Rightarrow>
                        (lost, reproject member (records[k := record\<lparr>mem_set := False\<rparr>]) s)
                    | None \<Rightarrow>
                        (if mem_admin record \<and> \<not> still_admin then lost @ [member] else lost,
                         reproject member (take k records @ drop (Suc k) records) s))))"

definition revoke_records ::
  "role_membership_option option \<Rightarrow> bool \<Rightarrow> oid \<Rightarrow> oid list \<Rightarrow> oid list \<Rightarrow> analysis_state \<Rightarrow> analysis_state" where
  "revoke_records option cascade grantor members parents s =
     (let pairs = List.product members parents;
          s1 = (if list_ex (\<lambda>(m, p). membership_record_index s m p grantor \<noteq> None) pairs
                then snapshot_role_membership_grantors s else s)
      in case fold (revoke_record option cascade grantor) pairs ([], s1) of
           (lost, s2) \<Rightarrow> if cascade \<and> lost \<noteq> [] then cascade_memberships_granted_by lost s2 else s2)"

definition revoke_parent :: "role_membership_option option \<Rightarrow> oid \<Rightarrow> role_state \<Rightarrow> role_state" where
  "revoke_parent option parent role =
     (case option of
        Some (AdminOption _) \<Rightarrow>
          role\<lparr>role_can_administer_membership := without parent (role_can_administer_membership role)\<rparr>
      | Some (InheritOption _) \<Rightarrow> role\<lparr>role_can_inherit_from := without parent (role_can_inherit_from role)\<rparr>
      | Some (SetOption _) \<Rightarrow> role\<lparr>role_can_set_role_to := without parent (role_can_set_role_to role)\<rparr>
      | None \<Rightarrow> forget_parent parent role)"

definition withdraws_admin :: "role_membership_option option \<Rightarrow> bool" where
  "withdraws_admin option =
     (case option of None \<Rightarrow> True | Some (AdminOption _) \<Rightarrow> True | Some _ \<Rightarrow> False)"

text \<open>One member of the loop of a revoke over plain edges.\<close>

definition revoke_member ::
  "role_membership_option option \<Rightarrow> bool \<Rightarrow> oid list \<Rightarrow> oid \<Rightarrow> oid list \<times> analysis_state \<Rightarrow> oid list \<times> analysis_state" where
  "revoke_member option cascade parents member acc =
     (case acc of (lost, s) \<Rightarrow>
        (let s1 = snapshot_role member s
         in case l_roles (local s1) member of
              Some (Present role) \<Rightarrow>
                (if cascade \<and> withdraws_admin option then lost @ map (\<lambda>_. member) parents else lost,
                 (if option = None then fold (forget_edge member) parents else (\<lambda>u. u))
                   (put_role member (Present (fold (revoke_parent option) parents role)) s1))
            | _ \<Rightarrow> (lost, s1)))"

definition revoke_edges ::
  "role_membership_option option \<Rightarrow> bool \<Rightarrow> oid list \<Rightarrow> oid list \<Rightarrow> analysis_state \<Rightarrow> analysis_state" where
  "revoke_edges option cascade members parents s =
     (let initial = (if cascade \<and> withdraws_admin option then members else []);
          s1 = (if members \<noteq> [] \<and> (cascade \<or> option = None)
                   \<and> list_ex (\<lambda>r. mem_member r \<in> set members \<and> mem_role r \<in> set parents)
                       (l_role_membership_grantors (local s))
                then snapshot_role_membership_grantors s else s)
      in case fold (revoke_member option cascade parents) members (initial, s1) of
           (lost, s2) \<Rightarrow> if cascade \<and> lost \<noteq> [] then cascade_role_memberships lost s2 else s2)"

definition is_false_option :: "role_membership_option \<Rightarrow> bool" where
  "is_false_option option =
     (case option of AdminOption b \<Rightarrow> \<not> b | InheritOption b \<Rightarrow> \<not> b | SetOption b \<Rightarrow> \<not> b)"

definition is_admin_option :: "role_membership_option \<Rightarrow> bool" where
  "is_admin_option option = (case option of AdminOption _ \<Rightarrow> True | _ \<Rightarrow> False)"

definition revoke_roles :: "revoke_mutation \<Rightarrow> oid list \<Rightarrow> oid list \<Rightarrow> unit step" where
  "revoke_roles v members parents =
     andthen (require_membership_options
                (case rm_role_option v of None \<Rightarrow> False | Some x \<Rightarrow> \<not> is_admin_option x)) (\<lambda>_.
     andthen (asks (\<lambda>s. l_role_membership_grantors_complete (local s))) (\<lambda>complete.
     andthen (if rm_cascade v \<and> \<not> complete then coverage_gap else ret ()) (\<lambda>_.
     andthen (asks (\<lambda>s. role_membership_grantor s (rm_granted_by v))) (\<lambda>grantor.
     andthen (authorize_memberships ''revoked'' (rm_granted_by v \<noteq> None) grantor parents) (\<lambda>_.
     if (case rm_role_option v of None \<Rightarrow> False | Some x \<Rightarrow> \<not> is_false_option x) then give_up UnmodeledState
     else
       andthen
         (if (case rm_role_option v of None \<Rightarrow> False | Some x \<Rightarrow> is_admin_option x) \<and> rm_cascade v \<and> \<not> complete
          then coverage_gap else ret ()) (\<lambda>_.
       if list_ex (\<lambda>m. name_of m = ''public'') members then give_up UnmodeledState
       else case (grantor, complete) of
           (Some g, True) \<Rightarrow> modify (revoke_records (rm_role_option v) (rm_cascade v) g members parents)
         | _ \<Rightarrow> modify (revoke_edges (rm_role_option v) (rm_cascade v) members parents)))))))"

definition apply_revoke :: "hash_order \<Rightarrow> revoke_mutation \<Rightarrow> unit step" where
  "apply_revoke h v =
     andthen (validate_grant_targets (rm_target v)) (\<lambda>_.
     andthen (validate_grant_roles (rm_revokees v) (rm_granted_by v)) (\<lambda>revokees.
     andthen (if rm_grant_option_only v then coverage_gap else ret ()) (\<lambda>_.
     andthen (resolve_grant_privileges (rm_privileges v)) (\<lambda>ps.
     case rm_target v of
       Tables ids \<Rightarrow> revoke_tables h v revokees ps ids
     | AllTablesInSchema schemas \<Rightarrow> revoke_all_tables h v revokees ps schemas
     | Roles parents \<Rightarrow> revoke_roles v revokees (map oid parents)))))"

section \<open>The handlers are logged\<close>

lemma put_role_logged: "logged s (put_role i v (snapshot_role i s))"
  by (simp add: put_role_def logged_role)

lemma roles_snapshot_role [simp]: "l_roles (local (snapshot_role i s)) = l_roles (local s)"
  by (simp add: snapshot_defs log_change_def)

lemma modify_role_logged: "logged s (modify_role i f (snapshot_role i s))"
  by (simp add: modify_role_def put_role_logged logged_snapshot_role split: option.splits overlay.splits)

lemma reconcile_logged: "logged s (reconcile_membership_projection i (snapshot_role i s))"
  using put_role_logged [of s i]
  by (auto simp: reconcile_membership_projection_def put_role_def upd_local_def Let_def logged_snapshot_role
      split: option.splits overlay.splits)

lemma put_relation_logged: "logged s (put_relation i f (snapshot_relation i s))"
  using logged_snapshot_relation by (auto simp: put_relation_def logged_relation split: option.splits overlay.splits)

lemma create_role_step_logged: "logged s (put_role i v (bump_generation (snapshot_role i s)))"
  by (rule loggedI [where d = "[RoleSnapshot i (l_roles (local s) i), GenerationCounterSnapshot (l_generation_counter (local s))]"])
    (simp_all add: put_role_def bump_generation_def upd_local_def snapshot_defs core_def log_change_def undo_simps)

lemma set_inherits_logged: "logged s (set_inherits i b (snapshot_role i s))"
  by (simp add: set_inherits_def put_role_logged logged_snapshot_role split: option.splits overlay.splits)

lemma alter_role_step_logged: "logged s (bump_generation (set_inherits i b (snapshot_role i s)))"
  using set_inherits_logged bump_generation_logged by (rule logged_trans)

lemma drop_one_role_logged: "logged s (drop_one_role i s)"
  by (simp add: drop_one_role_def put_role_logged)

section \<open>Checks\<close>

context evidence_contract
begin

lemma holds_coverage_gap [holds_intros]: "holds R coverage_gap"
  by (simp add: coverage_gap_def holds_taint)

lemma holds_validate [holds_intros]:
  "holds R (validate_object_grantor b g)" "holds R (validate_grant_targets target)"
  "holds R (validate_role_fact rf)" "holds R (validate_role_facts rfs)"
  "holds R (validate_grant_roles rfs granted_by)"
proof -
  show "holds R (validate_object_grantor b g)"
    unfolding validate_object_grantor_def by (intro holds_intros)
  show "holds R (validate_grant_targets target)"
    unfolding validate_grant_targets_def validate_target_role_def
    by (cases target; simp; intro holds_intros)
  have one: "holds R (validate_role_fact rf)" for rf
    unfolding validate_role_fact_def
    by (intro holds_intros) (auto split: prod.splits intro!: holds_intros)
  then show "holds R (validate_role_fact rf)" .
  show two: "holds R (validate_role_facts rfs)" for rfs
    unfolding validate_role_facts_def by (intro holds_intros one)
  show "holds R (validate_grant_roles rfs granted_by)"
    unfolding validate_grant_roles_def by (intro holds_intros two)
qed

lemma holds_resolve_facts: "holds R (resolve_privilege_facts fs ps)"
  by (induction fs ps rule: resolve_privilege_facts.induct)
    (auto split: privilege_fact.splits intro!: holds_intros)

lemma holds_resolve_privileges [holds_intros]: "holds R (resolve_grant_privileges spec)"
  unfolding resolve_grant_privileges_def
  by (cases spec) (auto intro!: holds_intros holds_resolve_facts)

lemma holds_authorize [holds_intros]:
  "holds R (authorize_table i ps g)" "holds R (authorize_memberships verb e g parents)"
  "holds R (require_membership_options b)"
  unfolding authorize_table_def authorize_memberships_def require_membership_options_def
  by (intro holds_intros)+

end

section \<open>Roles and tables are logged\<close>

lemma keeps_create_role: "holds logged (apply_create_role c)"
  unfolding apply_create_role_def Let_def
  by (intro holds_intros create_role_step_logged)

lemma keeps_alter_role: "holds logged (apply_alter_role a)"
  unfolding apply_alter_role_def
  by (intro holds_intros alter_role_step_logged logged_snapshot_role)

lemma keeps_drop_role: "holds logged (apply_drop_role d)"
  unfolding apply_drop_role_def find_dropped_role_def
  by (intro holds_intros logged_fold drop_one_role_logged)

lemma keeps_table_grants [holds_intros]:
  "holds logged (grant_tables g grantees ps ids)" "holds logged (grant_all_tables h g grantees ps schemas)"
  "holds logged (revoke_tables h v revokees ps ids)" "holds logged (revoke_all_tables h v revokees ps schemas)"
  unfolding grant_tables_def grant_all_tables_def revoke_tables_def revoke_all_tables_def revoke_table_def
    apply_grant_to_relation_def apply_revoke_to_relation_def
  by (intro holds_intros put_relation_logged)+


section \<open>Memberships are logged\<close>

lemmas upto_intros =
  logged_imp_upto [OF modify_role_logged] logged_imp_upto [OF reconcile_logged] logged_imp_upto [OF logged_snapshot_role]
  logged_imp_upto [OF put_role_logged] set_grantors_upto

lemma fold_pair_upto:
  assumes "\<And>x acc. logged_upto (snd acc) (snd (f x acc))"
  shows "logged_upto (snd acc) (snd (fold f xs acc))"
proof (induction xs arbitrary: acc)
  case (Cons x xs)
  show ?case using logged_upto_trans [OF assms Cons.IH] by simp
qed simp

lemma grant_record_upto: "logged_upto s (grant_record mo g pair s)"
  by (auto simp: grant_record_def Let_def set_grantors_upto split: prod.splits option.splits)

lemma grant_legacy_record_upto: "logged_upto s (grant_legacy_record mo g pair s)"
  by (auto simp: grant_legacy_record_def Let_def set_grantors_upto split: prod.splits)

lemma touch_member_upto: "logged_upto s (touch_member b mo v parents i s)"
  by (auto simp: touch_member_def Let_def upto_intros)

lemma grant_memberships_logged: "logged s (grant_memberships h mo g members parents s)"
proof (rule after_grantors_snapshot)
  let ?s = "snapshot_role_membership_grantors s"
  let ?b = "g \<noteq> None \<and> l_role_membership_grantors_complete (local s)"
  let ?u = "case g of Some g \<Rightarrow> fold (if ?b then grant_record mo g else grant_legacy_record mo g)
      (List.product members parents) ?s | None \<Rightarrow> forget_completeness ?s"
  have "logged_upto ?s ?u"
    by (auto simp: forget_completeness_upto intro!: logged_fold_upto grant_record_upto grant_legacy_record_upto
        split: option.splits)
  moreover have "logged_upto ?u (grant_memberships h mo g members parents s)"
    unfolding grant_memberships_def Let_def by (intro logged_fold_upto touch_member_upto)
  ultimately show "logged_upto ?s (grant_memberships h mo g members parents s)" by (rule logged_upto_trans)
qed

lemma keeps_grant: "holds logged (apply_grant h g)"
  unfolding apply_grant_def grant_roles_def reject_cycles_def
  by (cases "gm_target g")
    (auto intro!: holds_intros grant_memberships_logged split: prod.splits)

lemma remove_edge_upto: "logged_upto s (remove_edge e s)"
  by (auto simp: remove_edge_def forget_edge_def split: prod.splits intro: logged_upto_trans upto_intros)

lemma cascade_role_memberships_logged: "logged s (cascade_role_memberships gs s)"
  by (auto simp: cascade_role_memberships_def Let_def intro!: after_grantors_snapshot logged_fold_upto remove_edge_upto)

text \<open>Replacing the records between a snapshot of the role and its projection.\<close>

lemma set_grantors_snapshot_role: "set_grantors rs (snapshot_role i s) = snapshot_role i (set_grantors rs s)"
  by (simp add: set_grantors_def upd_local_def snapshot_defs log_change_def)

lemma reproject_upto: "logged_upto s (reproject i rs s)"
  unfolding reproject_def by (rule logged_upto_trans [OF set_grantors_upto]) (rule upto_intros)

lemma remove_record_upto: "logged_upto s (remove_record r s)"
  unfolding remove_record_def Let_def set_grantors_snapshot_role
  using reproject_upto by (simp add: reproject_def)

lemma cascade_memberships_granted_by_logged: "logged s (cascade_memberships_granted_by gs s)"
  by (auto simp: cascade_memberships_granted_by_def Let_def intro!: after_grantors_snapshot logged_fold_upto remove_record_upto)

lemma revoke_record_upto: "logged_upto (snd acc) (snd (revoke_record x c g pair acc))"
  by (auto simp: revoke_record_def Let_def reproject_upto
      split: prod.splits option.splits role_membership_option.splits)

lemma revoke_record_absent:
  "membership_record_index (snd acc) (fst pair) (snd pair) g = None \<Longrightarrow> revoke_record x c g pair acc = acc"
  by (auto simp: revoke_record_def Let_def split: prod.splits)

lemma revoke_records_loop_logged:
  assumes "s1 = (if list_ex (\<lambda>(m, p). membership_record_index s m p g \<noteq> None) pairs
      then snapshot_role_membership_grantors s else s)"
  shows "logged s (snd (fold (revoke_record x c g) pairs ([], s1)))"
proof (cases "list_ex (\<lambda>(m, p). membership_record_index s m p g \<noteq> None) pairs")
  case True
  then show ?thesis using assms fold_pair_upto [of "revoke_record x c g" "([], s1)" pairs, OF revoke_record_upto]
    by (auto intro: after_grantors_snapshot)
next
  case False
  then have "membership_record_index s (fst p) (snd p) g = None" if "p \<in> set pairs" for p
    using that by (cases p) (fastforce simp: list_ex_iff)
  then have "fold (revoke_record x c g) pairs ([], s) = ([], s)"
    by (induction pairs) (auto simp: revoke_record_absent)
  then show ?thesis using assms False by simp
qed

lemma revoke_records_logged: "logged s (revoke_records x c g members parents s)"
proof -
  obtain lost s2 where loop: "fold (revoke_record x c g) (List.product members parents)
      ([], if list_ex (\<lambda>(m, p). membership_record_index s m p g \<noteq> None) (List.product members parents)
           then snapshot_role_membership_grantors s else s) = (lost, s2)" by fastforce
  have "logged s s2" using revoke_records_loop_logged [OF refl, where s = s and g = g and pairs = "List.product members parents" and x = x and c = c] loop by simp
  then show ?thesis using loop cascade_memberships_granted_by_logged [of s2 lost]
    by (auto simp: revoke_records_def Let_def intro: logged_trans)
qed

lemma fold_forget_edge_upto: "logged_upto s (fold (forget_edge m) ps s)"
  by (intro logged_fold_upto) (simp add: forget_edge_def set_grantors_upto)

lemma revoke_member_upto: "logged_upto (snd acc) (snd (revoke_member x c parents m acc))"
  by (auto simp: revoke_member_def Let_def upto_intros intro: logged_upto_trans [OF _ fold_forget_edge_upto] upto_intros
      split: prod.splits option.splits overlay.splits)

lemma records_put_role [simp]:
  "l_role_membership_grantors (local (put_role i v s)) = l_role_membership_grantors (local s)"
  "l_role_membership_grantors (local (snapshot_role i s)) = l_role_membership_grantors (local s)"
  by (simp_all add: put_role_def upd_local_def snapshot_defs log_change_def)

lemma forget_edge_absent:
  assumes "\<forall>r \<in> set (l_role_membership_grantors (local s)). mem_member r = m \<longrightarrow> mem_role r \<notin> set ps"
  shows "fold (forget_edge m) ps s = s"
  using assms
proof (induction ps)
  case (Cons p ps)
  then have "filter (\<lambda>r. \<not> is_edge m p r) (l_role_membership_grantors (local s)) = l_role_membership_grantors (local s)"
    by (auto simp: filter_id_conv is_edge_def)
  then have "forget_edge m p s = s" by (simp add: forget_edge_def set_grantors_def upd_local_def)
  with Cons show ?case by simp
qed simp

lemma revoke_member_logged:
  assumes "x \<noteq> None \<or> (\<forall>r \<in> set (l_role_membership_grantors (local (snd acc))). mem_member r = m \<longrightarrow> mem_role r \<notin> set parents)"
  shows "logged (snd acc) (snd (revoke_member x c parents m acc))"
    and "l_role_membership_grantors (local (snd (revoke_member x c parents m acc))) = l_role_membership_grantors (local (snd acc))"
  using assms
  by (auto simp: revoke_member_def Let_def put_role_logged logged_snapshot_role forget_edge_absent
      split: prod.splits option.splits overlay.splits)

lemma revoke_edges_loop_logged:
  assumes "x \<noteq> None \<or> (\<forall>r \<in> set (l_role_membership_grantors (local (snd acc))). mem_member r \<in> set members \<longrightarrow> mem_role r \<notin> set parents)"
  shows "logged (snd acc) (snd (fold (revoke_member x c parents) members acc))"
  using assms
proof (induction members arbitrary: acc)
  case (Cons m members)
  have one: "x \<noteq> None \<or> (\<forall>r \<in> set (l_role_membership_grantors (local (snd acc))). mem_member r = m \<longrightarrow> mem_role r \<notin> set parents)"
    using Cons.prems by auto
  have "logged (snd (revoke_member x c parents m acc)) (snd (fold (revoke_member x c parents) members (revoke_member x c parents m acc)))"
    using Cons.prems revoke_member_logged(2) [OF one] by (intro Cons.IH) auto
  with revoke_member_logged(1) [OF one] show ?case by (auto intro: logged_trans)
qed simp

lemma revoke_edges_logged: "logged s (revoke_edges x c members parents s)"
proof -
  let ?b = "members \<noteq> [] \<and> (c \<or> x = None) \<and> list_ex (\<lambda>r. mem_member r \<in> set members \<and> mem_role r \<in> set parents)
      (l_role_membership_grantors (local s))"
  let ?i = "if c \<and> withdraws_admin x then members else []"
  obtain lost s2 where loop: "fold (revoke_member x c parents) members
      (?i, if ?b then snapshot_role_membership_grantors s else s) = (lost, s2)" by fastforce
  have "logged s s2"
  proof (cases ?b)
    case True
    then show ?thesis using loop fold_pair_upto [of "revoke_member x c parents" "(?i, snapshot_role_membership_grantors s)" members, OF revoke_member_upto]
      by (auto intro!: after_grantors_snapshot)
  next
    case False
    then have "x \<noteq> None \<or> (\<forall>r \<in> set (l_role_membership_grantors (local s)). mem_member r \<in> set members \<longrightarrow> mem_role r \<notin> set parents)"
      by (auto simp: list_ex_iff)
    then have "logged s (snd (fold (revoke_member x c parents) members (?i, s)))"
      using revoke_edges_loop_logged [of x "(?i, s)" members parents c] by simp
    then show ?thesis using loop False by simp
  qed
  then show ?thesis using loop cascade_role_memberships_logged [of s2 lost]
    by (auto simp: revoke_edges_def Let_def intro: logged_trans)
qed

lemma keeps_revoke: "holds logged (apply_revoke h v)"
  unfolding apply_revoke_def revoke_roles_def
  by (cases "rm_target v")
    (auto intro!: holds_intros revoke_edges_logged revoke_records_logged split: prod.splits option.splits bool.splits)

section \<open>The handlers return\<close>

lemma visit_admin_lists:
  "visit_admin s m target x = Expand ys \<Longrightarrow> y \<in> set ys \<Longrightarrow>
     \<exists>n r. present_role s n = Some r \<and> y \<in> set (role_can_inherit_from r)"
  by (auto simp: visit_admin_def split: if_splits option.splits dest: expand_inherited_lists)

lemma has_admin_returns: "roles_finite s \<Longrightarrow> has_admin_privileges_on_role s member target \<noteq> None"
  using role_search_ends [where visit = "visit_admin s member target" and f = role_can_inherit_from and s = s and pending = "[member]"]
    visit_admin_lists [of s member target]
  by (fastforce simp: has_admin_privileges_on_role_def)

lemma effective_privilege_returns: "roles_finite s \<Longrightarrow> effective_relation_privilege s rel role p g \<noteq> None"
  using role_search_ends [where visit = "visit_privilege s rel p g" and f = role_can_inherit_from and s = s and pending = "[role]"]
    visit_privilege_lists [of s rel p g]
  by (fastforce simp: effective_relation_privilege_def)

lemma authorize_all_returns: "(\<And>p. check p \<noteq> None) \<Longrightarrow> authorize_all check ps \<noteq> None"
  by (induction ps) (auto split: option.splits)

lemma administers_all_returns: "(\<And>p. check p \<noteq> None) \<Longrightarrow> administers_all check b ps \<noteq> None"
  by (induction ps arbitrary: b) (auto split: option.splits)

lemma table_authorization_returns: "roles_finite s \<Longrightarrow> table_authorization i ps g s \<noteq> None"
  using authorize_all_returns [of "\<lambda>p. effective_relation_privilege s _ _ p True"] effective_privilege_returns [of s]
  by (auto simp: table_authorization_def authorize_relation_grant_def split: option.splits overlay.splits)

lemma can_administer_returns: "roles_finite s \<Longrightarrow> can_administer e g ps s \<noteq> None"
  using administers_all_returns [of "has_admin_privileges_on_role s g" True ps] has_admin_returns
  by (auto simp: can_administer_def)

section \<open>Membership cycles\<close>

definition member_rel :: "(oid \<rightharpoonup> oid list) \<Rightarrow> (oid \<times> oid) set" where
  "member_rel M = {(a, b). \<exists>ys. M a = Some ys \<and> b \<in> set ys}"

definition membership_rel :: "analysis_state \<Rightarrow> (oid \<times> oid) set" where
  "membership_rel s = member_rel (memberships_of s)"

lemma member_rel_add: "member_rel (add_membership m p M) = insert (m, p) (member_rel M)"
  by (auto simp: member_rel_def add_membership_def split: option.splits if_splits)

lemma finite_member_lists: "finite (dom M) \<Longrightarrow> finite {b. \<exists>a. (a, b) \<in> member_rel M}"
proof (rule finite_subset)
  show "{b. \<exists>a. (a, b) \<in> member_rel M} \<subseteq> (\<Union>a \<in> dom M. set (the (M a)))" by (force simp: member_rel_def)
qed simp

lemma visit_cycle_reach:
  "(\<exists>x \<in> visits (visit_cycle M m) xs. visit_cycle M m x = Found) \<longleftrightarrow> (\<exists>x \<in> xs. (x, m) \<in> (member_rel M)\<^sup>*)"
proof
  assume "\<exists>x \<in> visits (visit_cycle M m) xs. visit_cycle M m x = Found"
  then obtain x where x: "x \<in> xs" "(x, m) \<in> (visit_rel (visit_cycle M m))\<^sup>*"
    by (auto simp: visits_def visit_cycle_def split: if_splits)
  have "visit_rel (visit_cycle M m) \<subseteq> member_rel M"
    by (auto simp: visit_rel_def visit_cycle_def member_rel_def split: if_splits option.splits)
  then show "\<exists>x \<in> xs. (x, m) \<in> (member_rel M)\<^sup>*" using x rtrancl_mono by blast
next
  assume "\<exists>x \<in> xs. (x, m) \<in> (member_rel M)\<^sup>*"
  then obtain x where "(x, m) \<in> (member_rel M)\<^sup>*" "x \<in> xs" by blast
  then show "\<exists>x \<in> visits (visit_cycle M m) xs. visit_cycle M m x = Found"
  proof (induction arbitrary: xs rule: converse_rtrancl_induct)
    case base
    then show ?case using visits_self by (force simp: visit_cycle_def)
  next
    case (step x z)
    show ?case
    proof (cases "x = m")
      case True
      then show ?thesis using step.prems visits_self by (force simp: visit_cycle_def)
    next
      case False
      then obtain ys where ys: "visit_cycle M m x = Expand ys" "z \<in> set ys"
        using step.hyps(1) by (auto simp: visit_cycle_def member_rel_def)
      then have "visits (visit_cycle M m) (set ys) \<subseteq> visits (visit_cycle M m) xs"
        using step.prems visits_step [where visit = "visit_cycle M m"] by simp
      with step.IH [OF ys(2)] show ?thesis by blast
    qed
  qed
qed

lemma cycle_search_exact:
  assumes "finite (dom M)"
  shows "role_search (visit_cycle M m) [p] {} = Some (Some ((p, m) \<in> (member_rel M)\<^sup>*))"
proof -
  let ?U = "insert p {b. \<exists>a. (a, b) \<in> member_rel M}"
  obtain r where r: "role_search (visit_cycle M m) [p] {} = Some r" "search_answer (visit_cycle M m) {p} {} r"
    using role_search_answers [where U = ?U and visit = "visit_cycle M m" and pending = "[p]" and visited = "{}"]
      finite_member_lists [OF assms]
    by (fastforce simp: visit_cycle_def member_rel_def split: if_splits option.splits)
  have found: "(\<exists>x \<in> visits (visit_cycle M m) {p}. visit_cycle M m x = Found) \<longleftrightarrow> (p, m) \<in> (member_rel M)\<^sup>*"
    using visit_cycle_reach [of M m "{p}"] by simp
  have "r \<noteq> None" using r(2) by (cases r) (auto simp: search_answer_def visit_cycle_def split: if_splits)
  then obtain b where "r = Some b" by blast
  then show ?thesis using r found by (cases b) (auto simp: search_answer_def)
qed

text \<open>The batch is refused exactly when it closes a cycle.\<close>

lemma first_cycle_exact:
  assumes "finite (dom M)" "acyclic (member_rel M)"
  shows "\<exists>r. first_cycle pairs M = Some r
     \<and> (r = None \<longleftrightarrow> acyclic (member_rel M \<union> (\<lambda>(m, p). (m, oid p)) ` set pairs))"
  using assms
proof (induction pairs M rule: first_cycle.induct)
  case (2 m p pairs M)
  note search = cycle_search_exact [OF "2.prems"(1), of m "oid p"]
  show ?case
  proof (cases "(oid p, m) \<in> (member_rel M)\<^sup>*")
    case True
    then have "\<not> acyclic (insert (m, oid p) (member_rel M))" by (simp add: acyclic_insert)
    then have "\<not> acyclic (member_rel M \<union> (\<lambda>(m, p). (m, oid p)) ` set ((m, p) # pairs))"
      by (rule contrapos_nn) (erule acyclic_subset, auto)
    with True search show ?thesis by simp
  next
    case False
    let ?M = "add_membership m (oid p) M"
    have "acyclic (member_rel ?M)" using False "2.prems"(2) by (simp add: member_rel_add acyclic_insert)
    moreover have "finite (dom ?M)" using "2.prems"(1) by (simp add: add_membership_def)
    moreover have "member_rel ?M \<union> (\<lambda>(m, p). (m, oid p)) ` set pairs
        = member_rel M \<union> (\<lambda>(m, p). (m, oid p)) ` set ((m, p) # pairs)" by (auto simp: member_rel_add)
    ultimately show ?thesis using "2.IH"(1) search False by simp
  qed
qed simp

lemma first_cycle_returns: "finite (dom M) \<Longrightarrow> first_cycle pairs M \<noteq> None"
proof (induction pairs M rule: first_cycle.induct)
  case (2 m p pairs M)
  have "finite (dom (add_membership m (oid p) M))" using "2.prems" by (simp add: add_membership_def)
  then show ?case using "2.IH" cycle_search_exact [OF "2.prems", of m "oid p"]
    by (auto split: option.splits bool.splits)
qed simp

lemma finite_memberships: "roles_finite s \<Longrightarrow> finite (dom (memberships_of s))"
  by (rule finite_subset [of _ "dom (l_roles (local s))"])
    (auto simp: memberships_of_def split: option.splits)

lemma terminates_lookup [terminates_intros]:
  "terminates a \<Longrightarrow> terminates b \<Longrightarrow> terminates c \<Longrightarrow> terminates d \<Longrightarrow> terminates e \<Longrightarrow>
   terminates (case x of LookupPresent \<Rightarrow> a | WrongKind \<Rightarrow> b | AuthoritativelyAbsent \<Rightarrow> c | Tombstone \<Rightarrow> d | LookupUnknown \<Rightarrow> e)"
  by (cases x) simp_all

lemma terminates_bool_option [terminates_intros]:
  "terminates a \<Longrightarrow> terminates b \<Longrightarrow> terminates c \<Longrightarrow>
   terminates (case x of None \<Rightarrow> a | Some True \<Rightarrow> b | Some False \<Rightarrow> c)"
  by (simp split: option.splits bool.splits)

lemma terminates_coverage_gap [terminates_intros]: "terminates coverage_gap"
  by (simp add: coverage_gap_def terminates_intros)

lemma terminates_role_changes:
  "terminates (apply_create_role c)" "terminates (apply_alter_role a)" "terminates (apply_drop_role d)"
  unfolding apply_create_role_def apply_alter_role_def apply_drop_role_def find_dropped_role_def Let_def
  by (intro terminates_intros holds_intros logged_snapshot_role)+

lemma terminates_validate [terminates_intros]:
  "terminates (validate_object_grantor b g)" "terminates (validate_grant_targets target)"
  "terminates (validate_role_facts rfs)" "terminates (validate_grant_roles rfs granted_by)"
proof -
  show "terminates (validate_object_grantor b g)"
    unfolding validate_object_grantor_def by (intro terminates_intros holds_intros)
  show "terminates (validate_grant_targets target)"
    unfolding validate_grant_targets_def validate_target_role_def
    by (cases target; simp; intro terminates_intros holds_intros)
  have "terminates (validate_role_fact rf)" for rf
    unfolding validate_role_fact_def
    by (intro terminates_intros holds_intros) (auto split: prod.splits intro!: terminates_intros holds_intros)
  then show two: "terminates (validate_role_facts rfs)" for rfs
    unfolding validate_role_facts_def by (intro terminates_intros holds_intros)
  show "terminates (validate_grant_roles rfs granted_by)"
    unfolding validate_grant_roles_def by (intro terminates_intros holds_intros two)
qed

lemma terminates_resolve_facts: "terminates (resolve_privilege_facts fs ps)"
  by (induction fs ps rule: resolve_privilege_facts.induct)
    (auto split: privilege_fact.splits intro!: terminates_intros holds_intros)

lemma terminates_resolve_privileges [terminates_intros]: "terminates (resolve_grant_privileges spec)"
  unfolding resolve_grant_privileges_def
  by (cases spec) (auto intro!: terminates_intros holds_intros terminates_resolve_facts)

lemma terminates_authorize [terminates_intros]:
  "terminates (authorize_table i ps g)" "terminates (authorize_memberships verb e g parents)"
  "terminates (require_membership_options b)"
  unfolding authorize_table_def authorize_memberships_def require_membership_options_def
  by (intro terminates_intros holds_intros table_authorization_returns can_administer_returns; assumption)+

lemma terminates_table_grants [terminates_intros]:
  "terminates (grant_tables g grantees ps ids)" "terminates (grant_all_tables h g grantees ps schemas)"
  "terminates (revoke_tables h v revokees ps ids)" "terminates (revoke_all_tables h v revokees ps schemas)"
  unfolding grant_tables_def grant_all_tables_def revoke_tables_def revoke_all_tables_def revoke_table_def
    apply_grant_to_relation_def apply_revoke_to_relation_def
  by (intro terminates_intros holds_intros put_relation_logged)+

lemma terminates_grant: "terminates (apply_grant h g)"
  unfolding apply_grant_def grant_roles_def reject_cycles_def
  by (cases "gm_target g")
    (auto intro!: terminates_intros holds_intros first_cycle_returns finite_memberships split: prod.splits)

lemma terminates_revoke: "terminates (apply_revoke h v)"
  unfolding apply_revoke_def revoke_roles_def
  by (cases "rm_target v")
    (auto intro!: terminates_intros holds_intros split: prod.splits option.splits bool.splits)

end
