(* ===== verification/Names.thy ===== *)
theory Names
  imports Drop_Table
begin

text \<open>
  Generated names (\<^verbatim>\<open>src/src/_internal/analysis/state/names.rs\<close>): PostgreSQL's \<^verbatim>\<open>makeObjectName\<close>, which cuts
  its two parts so that the name fits an identifier, and the searches that append a number until
  the name is free. The searches run over an unbounded range; they are partial functions that are
  shown to return.
\<close>

section \<open>Decimal numbers\<close>

definition digit :: "nat \<Rightarrow> char" where
  "digit n = char_of (48 + n)"

fun show_nat :: "nat \<Rightarrow> string" where
  "show_nat n = (if n < 10 then [digit n] else show_nat (n div 10) @ [digit (n mod 10)])"

declare show_nat.simps [simp del]

definition show_int :: "int \<Rightarrow> string" where
  "show_int i = (if i < 0 then CHR ''-'' # show_nat (nat (- i)) else show_nat (nat i))"

definition read_digits :: "string \<Rightarrow> nat" where
  "read_digits = foldl (\<lambda>a c. 10 * a + (byte c - 48)) 0"

lemma byte_digit: "n < 10 \<Longrightarrow> byte (digit n) = 48 + n"
  by (simp add: byte_def digit_def)

lemma read_show_nat: "read_digits (show_nat n) = n"
proof (induction n rule: show_nat.induct)
  case (1 n)
  show ?case
  proof (cases "n < 10")
    case True
    then show ?thesis by (subst show_nat.simps) (simp add: read_digits_def byte_digit)
  next
    case False
    then show ?thesis using "1.IH"
      by (subst show_nat.simps) (simp add: read_digits_def byte_digit)
  qed
qed

lemma show_nat_inject: "show_nat m = show_nat n \<longleftrightarrow> m = n"
  using read_show_nat by metis

lemma show_nat_digits: "c \<in> set (show_nat n) \<Longrightarrow> 48 \<le> byte c \<and> byte c < 58"
proof (induction n rule: show_nat.induct)
  case (1 n)
  show ?case
  proof (cases "n < 10")
    case True
    then have "c = digit n" using "1.prems" by (simp add: show_nat.simps [of n])
    with True show ?thesis by (simp add: byte_digit)
  next
    case False
    then have "c \<in> set (show_nat (n div 10)) \<or> c = digit (n mod 10)" using "1.prems" by (auto simp: show_nat.simps [of n])
    with False "1.IH" show ?thesis by (auto simp: byte_digit)
  qed
qed

section \<open>makeObjectName\<close>

text \<open>The longer part gives up one byte at a time, the second one on a tie.\<close>

function shrink :: "nat \<Rightarrow> nat \<Rightarrow> nat \<Rightarrow> nat \<times> nat" where
  "shrink available n1 n2 =
     (if n1 + n2 > available
      then (if n1 > n2 then shrink available (n1 - 1) n2 else shrink available n1 (n2 - 1))
      else (n1, n2))"
  by pat_completeness auto

termination shrink
  by (relation "measure (\<lambda>(available, n1, n2). n1 + n2)") auto

declare shrink.simps [simp del]

definition truncate_at :: "string \<Rightarrow> nat \<Rightarrow> string" where
  "truncate_at v max_bytes = take (boundary_floor v (min max_bytes (length v))) v"

definition postgres_object_name :: "string \<Rightarrow> string option \<Rightarrow> string \<Rightarrow> string" where
  "postgres_object_name name1 name2 label =
     (let separators = (if name2 \<noteq> None then 1 else 0) + 1;
          available = max_identifier_bytes - (length label + separators);
          (n1, n2) = shrink available (length name1) (case name2 of None \<Rightarrow> 0 | Some n \<Rightarrow> length n)
      in case name2 of
           Some n \<Rightarrow> truncate_at name1 n1 @ ''_'' @ truncate_at n n2 @ ''_'' @ label
         | None \<Rightarrow> truncate_at name1 n1 @ ''_'' @ label)"

section \<open>Searches\<close>

partial_function (option) first_free :: "(nat \<Rightarrow> 'a) \<Rightarrow> ('a \<Rightarrow> bool) \<Rightarrow> nat \<Rightarrow> 'a option" where
  "first_free candidate free n = (if free (candidate n) then Some (candidate n) else first_free candidate free (Suc n))"

definition numbered :: "string \<Rightarrow> nat \<Rightarrow> string" where
  "numbered label n = (if n = 0 then label else label @ show_nat n)"

definition generated_name :: "string \<Rightarrow> string option \<Rightarrow> string \<Rightarrow> nat \<Rightarrow> string" where
  "generated_name name1 name2 label n = postgres_object_name name1 name2 (numbered label n)"

definition relation_namespace_is_taken :: "analysis_state \<Rightarrow> oid \<Rightarrow> bool" where
  "relation_namespace_is_taken s i \<longleftrightarrow> relation_namespace_object_is_present s i \<or> type_is_present s i"

definition constraint_name_taken :: "analysis_state \<Rightarrow> string \<Rightarrow> string \<Rightarrow> bool" where
  "constraint_name_taken s schema name \<longleftrightarrow> (\<exists>owner. schema_of owner = schema \<and> l_constraints (local s) (owner, name) \<noteq> None)"

definition next_generated_constraint_name_avoiding ::
  "analysis_state \<Rightarrow> oid \<Rightarrow> string \<Rightarrow> string option \<Rightarrow> string \<Rightarrow> string set \<Rightarrow> string option" where
  "next_generated_constraint_name_avoiding s table name1 name2 label reserved =
     first_free (generated_name name1 name2 label)
       (\<lambda>c. c \<notin> reserved \<and> \<not> constraint_name_taken s (schema_of table) c) 0"

definition next_generated_relation_name_avoiding ::
  "analysis_state \<Rightarrow> string \<Rightarrow> string \<Rightarrow> string option \<Rightarrow> string \<Rightarrow> oid set \<Rightarrow> oid option" where
  "next_generated_relation_name_avoiding s schema name1 name2 label reserved =
     first_free (\<lambda>n. Oid schema (generated_name name1 name2 label n))
       (\<lambda>c. c \<notin> reserved \<and> \<not> relation_namespace_is_taken s c) 0"

definition statistics_name_taken :: "analysis_state \<Rightarrow> oid \<Rightarrow> bool" where
  "statistics_name_taken s c \<longleftrightarrow>
     (\<exists>i relation. l_relations (local s) i = Some (Present relation) \<and> r_extended_statistics relation c \<noteq> None)"

fun join_with :: "string \<Rightarrow> string list \<Rightarrow> string" where
  "join_with sep [] = []"
| "join_with sep [x] = x"
| "join_with sep (x # y # zs) = x @ sep @ join_with sep (y # zs)"

definition next_generated_statistics_name_avoiding ::
  "analysis_state \<Rightarrow> string \<Rightarrow> string \<Rightarrow> string list \<Rightarrow> oid set \<Rightarrow> oid option" where
  "next_generated_statistics_name_avoiding s schema table columns reserved =
     first_free (\<lambda>n. Oid schema (generated_name table (Some (join_with ''_'' columns)) ''stat'' n))
       (\<lambda>c. c \<notin> reserved \<and> \<not> statistics_name_taken s c) 0"

definition next_implicit_sequence_id :: "analysis_state \<Rightarrow> oid \<Rightarrow> string \<Rightarrow> oid set \<Rightarrow> oid option" where
  "next_implicit_sequence_id s table column reserved =
     first_free (\<lambda>n. Oid (schema_of table) (generated_name (name_of table) (Some column) ''seq'' n))
       (\<lambda>c. c \<notin> reserved \<and> \<not> relation_namespace_is_taken s c) 0"

definition sequence_nextval_default :: "oid \<Rightarrow> expr_ir" where
  "sequence_nextval_default i = FunctionCall ''nextval'' [Literal (schema_of i @ ''.'' @ name_of i)]"

section \<open>The name fits\<close>

lemma shrink_sum: "shrink available n1 n2 = (m1, m2) \<Longrightarrow> m1 + m2 \<le> available \<and> m1 \<le> n1 \<and> m2 \<le> n2"
proof (induction available n1 n2 rule: shrink.induct)
  case (1 available n1 n2)
  show ?case
  proof (cases "n1 + n2 > available")
    case True
    then show ?thesis using 1 by (cases "n1 > n2") (force simp: shrink.simps [of available n1 n2])+
  next
    case False
    then show ?thesis using "1.prems" by (simp add: shrink.simps [of available n1 n2])
  qed
qed

lemma shrink_id: "n1 + n2 \<le> available \<Longrightarrow> shrink available n1 n2 = (n1, n2)"
  by (simp add: shrink.simps)

lemma length_truncate_at: "length (truncate_at v n) \<le> n"
  using boundary_floor_le [of v "min n (length v)"] by (simp add: truncate_at_def)

lemma truncate_at_prefix: "\<exists>rest. v = truncate_at v n @ rest"
  unfolding truncate_at_def by (metis append_take_drop_id)

lemma postgres_object_name_tail: "\<exists>x. postgres_object_name name1 name2 label = x @ ''_'' @ label"
  by (auto simp: postgres_object_name_def Let_def split: prod.splits option.splits)

section \<open>The searches return\<close>

text \<open>A label with a number appended never ends like another one.\<close>

lemma suffix_shift:
  assumes "u @ CHR ''_'' # l = v @ CHR ''_'' # l @ e" "\<forall>c \<in> set e. c \<noteq> CHR ''_''"
  shows "e = []"
proof (rule ccontr)
  assume "e \<noteq> []"
  let ?w = "CHR ''_'' # l" and ?k = "length e"
  have len: "length u = length v + ?k" using arg_cong [OF assms(1), of length] by simp
  have shift: "(?w @ e) ! (i + ?k) = ?w ! i" if "i < length ?w" for i
  proof -
    have "(u @ ?w) ! (length u + i) = ?w ! i" using that by (simp add: nth_append)
    moreover have "(v @ ?w @ e) ! (length v + (i + ?k)) = (?w @ e) ! (i + ?k)" by (simp add: nth_append)
    ultimately show ?thesis using assms(1) len by (simp add: add.assoc add.commute add.left_commute)
  qed
  have under: "(?w @ e) ! (j * ?k) = CHR ''_''" if "j * ?k < length ?w + ?k" for j
    using that
  proof (induction j)
    case (Suc j)
    then have lt: "j * ?k < length ?w" by simp
    then have "(?w @ e) ! (j * ?k) = ?w ! (j * ?k)" using nth_append [of ?w e "j * ?k"] by simp
    then show ?case using shift [OF lt] Suc by (simp add: add.commute)
  qed simp
  let ?j = "(length ?w + ?k - 1) div ?k"
  have "?k > 0" using \<open>e \<noteq> []\<close> by simp
  then have j: "?j * ?k \<le> length ?w + ?k - 1" "length ?w + ?k - 1 < ?j * ?k + ?k"
    using div_times_less_eq_dividend [of "length ?w + ?k - 1" ?k] dividend_less_div_times [of ?k "length ?w + ?k - 1"] by simp_all
  then have "length ?w \<le> ?j * ?k" "?j * ?k < length ?w + ?k" using \<open>?k > 0\<close> by linarith+
  then have "e ! (?j * ?k - length ?w) = CHR ''_''" "?j * ?k - length ?w < ?k"
    using under [of ?j] nth_append [of ?w e "?j * ?k"] by auto
  then show False using assms(2) nth_mem by metis
qed

lemma under_not_digit: "c \<in> set (show_nat n) \<Longrightarrow> c \<noteq> CHR ''_''"
  using show_nat_digits [of c n] by (auto simp: byte_def)

lemma tail_numbers:
  assumes "u @ ''_'' @ l @ show_nat m = v @ ''_'' @ l @ show_nat n"
  shows "m = n"
proof -
  have shorter: "show_nat m = show_nat n"
    if eq: "u @ ''_'' @ l @ show_nat m = v @ ''_'' @ l @ show_nat n" and le: "length (show_nat m) \<le> length (show_nat n)" for u v m n
  proof -
    let ?e = "take (length (show_nat n) - length (show_nat m)) (show_nat n)"
    have n: "show_nat n = ?e @ drop (length (show_nat n) - length (show_nat m)) (show_nat n)" by simp
    have eq': "(u @ CHR ''_'' # l) @ show_nat m = (v @ CHR ''_'' # l @ ?e) @ drop (length (show_nat n) - length (show_nat m)) (show_nat n)"
      using eq by (simp add: n [symmetric])
    have "length (drop (length (show_nat n) - length (show_nat m)) (show_nat n)) = length (show_nat m)" using le by simp
    then have parts: "u @ CHR ''_'' # l = v @ CHR ''_'' # l @ ?e" "show_nat m = drop (length (show_nat n) - length (show_nat m)) (show_nat n)"
      using eq' append_eq_append_conv by metis+
    have "?e = []" using parts(1) by (rule suffix_shift) (auto dest: in_set_takeD under_not_digit)
    moreover have "show_nat n = ?e @ show_nat m" using n parts(2) by simp
    ultimately show ?thesis by (metis append_Nil)
  qed
  have "show_nat m = show_nat n"
    using shorter [OF assms] shorter [OF assms [symmetric]] by (cases "length (show_nat m) \<le> length (show_nat n)") auto
  then show ?thesis by (simp add: show_nat_inject)
qed

lemma generated_name_inj: "inj (generated_name name1 name2 label)"
proof (rule injI)
  fix m n assume eq: "generated_name name1 name2 label m = generated_name name1 name2 label n"
  obtain u v where u: "generated_name name1 name2 label m = u @ ''_'' @ numbered label m"
    and v: "generated_name name1 name2 label n = v @ ''_'' @ numbered label n"
    using postgres_object_name_tail unfolding generated_name_def by metis
  have plain: "k = 0" if "x @ ''_'' @ label = y @ ''_'' @ label @ show_nat k" for x y k
  proof -
    have "show_nat k = []" by (rule suffix_shift [of x label y]) (use that in \<open>auto dest: under_not_digit\<close>)
    then show ?thesis by (simp add: show_nat.simps [of k] split: if_splits)
  qed
  show "m = n"
    using eq u v plain [of u v n] plain [of v u m] tail_numbers [of u label m v n]
    by (auto simp: numbered_def split: if_splits)
qed

lemma first_free_finds:
  assumes "inj candidate" "finite {x. \<not> free x}"
  shows "\<exists>k. first_free candidate free 0 = Some (candidate k) \<and> free (candidate k)
     \<and> (\<forall>j < k. \<not> free (candidate j)) \<and> k \<le> card {x. \<not> free x}"
proof -
  have "\<exists>n. free (candidate n)"
  proof (rule ccontr)
    assume "\<not> ?thesis"
    then have "range candidate \<subseteq> {x. \<not> free x}" by auto
    then have "finite (range candidate)" using assms(2) by (rule finite_subset)
    then show False using assms(1) finite_imageD infinite_UNIV_nat by blast
  qed
  define k where "k = (LEAST n. free (candidate n))"
  have k: "free (candidate k)" "\<And>j. j < k \<Longrightarrow> \<not> free (candidate j)"
    unfolding k_def using \<open>\<exists>n. free (candidate n)\<close> by (auto intro: LeastI_ex dest: not_less_Least)
  have "first_free candidate free j = Some (candidate k)" if "j \<le> k" for j
    using that
  proof (induction "k - j" arbitrary: j)
    case 0
    then show ?case using k(1) by (subst first_free.simps) simp
  next
    case (Suc d)
    then have "\<not> free (candidate j)" using k(2) [of j] by simp
    then show ?case using Suc.hyps(1) [of "Suc j"] Suc.hyps(2) by (subst first_free.simps) simp
  qed
  moreover have "card (candidate ` {..<k}) \<le> card {x. \<not> free x}"
    using assms(2) k(2) by (intro card_mono) auto
  ultimately show ?thesis using k assms(1) by (auto simp: card_image inj_on_subset)
qed


lemma finite_taken:
  assumes "finite (dom (l_relations (local s)))" "finite (dom (l_sequences (local s)))" "finite (dom (l_types (local s)))"
  shows "finite {i. relation_namespace_is_taken s i}"
proof (rule finite_subset)
  show "{i. relation_namespace_is_taken s i} \<subseteq>
      dom (l_relations (local s)) \<union> dom (l_sequences (local s)) \<union> dom (l_types (local s)) \<union> dependent ` set (edges (graph_of s))"
    by (auto simp: relation_namespace_is_taken_def relation_namespace_object_is_present_def relation_is_present_def
        sequence_is_present_def index_is_present_def type_is_present_def list_ex_iff elim: is_present.elims)
qed (use assms in simp)

lemma oid_names_inj: "inj (\<lambda>n. Oid schema (generated_name a b label n))"
  using generated_name_inj by (simp add: inj_def)

text \<open>A search over numbered candidates: it returns the first one that is not blocked, early enough.\<close>

definition finds_first :: "(nat \<Rightarrow> 'a) \<Rightarrow> 'a set \<Rightarrow> 'a option \<Rightarrow> bool" where
  "finds_first candidate blocked result \<longleftrightarrow>
     (\<exists>k \<le> card blocked. result = Some (candidate k) \<and> candidate k \<notin> blocked \<and> (\<forall>j < k. candidate j \<in> blocked))"

lemma first_free_search:
  assumes "inj candidate" "finite blocked" "\<And>c. free c \<longleftrightarrow> c \<notin> blocked"
  shows "finds_first candidate blocked (first_free candidate free 0)"
proof -
  have "{x. \<not> free x} = blocked" by (simp add: assms(3))
  then show ?thesis using first_free_finds [OF assms(1), of free] assms(2) by (auto simp: finds_first_def assms(3))
qed

lemma finite_constraint_names:
  assumes "finite (dom (l_constraints (local s)))"
  shows "finite {n. constraint_name_taken s schema n}"
proof (rule finite_subset)
  show "{n. constraint_name_taken s schema n} \<subseteq> snd ` dom (l_constraints (local s))"
    by (force simp: constraint_name_taken_def)
qed (use assms in simp)

lemma finite_statistics_names:
  assumes "finite (dom (l_relations (local s)))"
    and "\<And>i r. l_relations (local s) i = Some (Present r) \<Longrightarrow> finite (dom (r_extended_statistics r))"
  shows "finite {c. statistics_name_taken s c}"
proof -
  let ?stats = "\<lambda>i. case l_relations (local s) i of Some (Present r) \<Rightarrow> dom (r_extended_statistics r) | _ \<Rightarrow> {}"
  have "{c. statistics_name_taken s c} \<subseteq> \<Union> (?stats ` dom (l_relations (local s)))"
  proof
    fix c assume "c \<in> {c. statistics_name_taken s c}"
    then obtain i r where "l_relations (local s) i = Some (Present r)" "c \<in> dom (r_extended_statistics r)"
      by (auto simp: statistics_name_taken_def)
    then show "c \<in> \<Union> (?stats ` dom (l_relations (local s)))" by (intro UN_I [of i]) auto
  qed
  moreover have "finite (?stats i)" for i using assms(2) by (auto split: option.splits overlay.splits)
  ultimately show ?thesis using assms(1) by (meson finite_UN_I finite_subset)
qed

section \<open>Properties\<close>

text \<open>
  A generated name fits PostgreSQL's identifier limit whenever its label and separators do, and
  keeps both parts whole when everything fits.
\<close>

theorem postgres_object_name_fits:
  assumes "length label + (if name2 = None then 1 else 2) \<le> max_identifier_bytes"
  shows "length (postgres_object_name name1 name2 label) \<le> max_identifier_bytes
    \<and> (length name1 + (case name2 of None \<Rightarrow> 0 | Some n \<Rightarrow> length n) + length label
         + (if name2 = None then 1 else 2) \<le> max_identifier_bytes \<longrightarrow>
       postgres_object_name name1 name2 label =
         name1 @ ''_'' @ (case name2 of None \<Rightarrow> [] | Some n \<Rightarrow> n @ ''_'') @ label)"
proof -
  let ?a = "max_identifier_bytes - (length label + (if name2 = None then 1 else 2))"
  let ?l2 = "case name2 of None \<Rightarrow> 0 | Some n \<Rightarrow> length n"
  obtain m1 m2 where m: "shrink ?a (length name1) ?l2 = (m1, m2)" by fastforce
  have name: "postgres_object_name name1 name2 label =
      truncate_at name1 m1 @ ''_'' @ (case name2 of None \<Rightarrow> [] | Some n \<Rightarrow> truncate_at n m2 @ ''_'') @ label"
    using m by (cases name2) (simp_all add: postgres_object_name_def Let_def)
  have "length (truncate_at name1 m1) \<le> m1" "length (truncate_at (the name2) m2) \<le> m2" by (rule length_truncate_at)+
  moreover have "m1 + m2 \<le> ?a" using shrink_sum [OF m] by blast
  moreover have "m2 = 0" if "name2 = None" using shrink_sum [OF m] that by simp
  ultimately have "length (postgres_object_name name1 name2 label) \<le> max_identifier_bytes"
    using assms name by (cases name2) auto
  moreover have "truncate_at v (length v) = v" for v
  proof -
    have "boundary_floor v (length v) = length v" by (cases "length v") (simp_all add: is_char_boundary_def)
    then show ?thesis by (simp add: truncate_at_def)
  qed
  then have "postgres_object_name name1 name2 label = name1 @ ''_'' @ (case name2 of None \<Rightarrow> [] | Some n \<Rightarrow> n @ ''_'') @ label"
    if "length name1 + ?l2 + length label + (if name2 = None then 1 else 2) \<le> max_identifier_bytes"
  proof -
    have "(m1, m2) = (length name1, ?l2)" using m shrink_id [of "length name1" ?l2 ?a] that assms by (auto split: if_splits)
    with name show ?thesis using \<open>\<And>v. truncate_at v (length v) = v\<close> by (auto split: option.splits)
  qed
  ultimately show ?thesis by blast
qed

theorem postgres_object_name_fits_witness:
  "length (postgres_object_name ''orders'' (Some ''id'') ''seq'') \<le> 63 \<and> postgres_object_name ''orders'' (Some ''id'') ''seq'' = ''orders_id_seq''"
  using postgres_object_name_fits [of "''seq''" "Some ''id''" "''orders''"] by (simp add: max_identifier_bytes_def)

text \<open>
  C37. Every search for a generated name returns, with the first numbered name that is neither reserved nor
  taken, and its number never exceeds how many names were in the way: for relations, for
  constraints, for the sequence of a column and for extended statistics. Appending a number gives a
  new name each time, however the parts are cut. The catalogue maps are finite, as hash maps are.
\<close>

theorem generated_names_are_free:
  assumes "finite (dom (l_relations (local s)))" "finite (dom (l_sequences (local s)))" "finite (dom (l_types (local s)))"
    and "finite (dom (l_constraints (local s)))"
    and "\<And>i r. l_relations (local s) i = Some (Present r) \<Longrightarrow> finite (dom (r_extended_statistics r))"
    and "finite ids" "finite names"
  shows "finds_first (\<lambda>n. Oid schema (generated_name name1 name2 label n)) (ids \<union> {i. relation_namespace_is_taken s i})
        (next_generated_relation_name_avoiding s schema name1 name2 label ids)
    \<and> finds_first (generated_name name1 name2 label) (names \<union> {n. constraint_name_taken s (schema_of table) n})
        (next_generated_constraint_name_avoiding s table name1 name2 label names)
    \<and> finds_first (\<lambda>n. Oid (schema_of table) (generated_name (name_of table) (Some column) ''seq'' n))
        (ids \<union> {i. relation_namespace_is_taken s i}) (next_implicit_sequence_id s table column ids)
    \<and> finds_first (\<lambda>n. Oid schema (generated_name name1 (Some (join_with ''_'' columns)) ''stat'' n))
        (ids \<union> {i. statistics_name_taken s i}) (next_generated_statistics_name_avoiding s schema name1 columns ids)"
  unfolding next_generated_relation_name_avoiding_def next_generated_constraint_name_avoiding_def
    next_implicit_sequence_id_def next_generated_statistics_name_avoiding_def
  using assms(6,7) finite_taken [OF assms(1-3)] finite_constraint_names [OF assms(4)] finite_statistics_names [OF assms(1,5)]
  by (intro conjI first_free_search oid_names_inj generated_name_inj) auto

lemma sample_taken_finite:
  "finite (dom (l_relations (local sample_state)))" "finite (dom (l_sequences (local sample_state)))"
  "finite (dom (l_types (local sample_state)))"
  by (simp_all add: sample_state_def sample_local_def)

lemma sample_names_finite:
  "finite (dom (l_constraints (local sample_state)))" "l_relations (local sample_state) i \<noteq> Some (Present r)"
  by (simp_all add: sample_state_def sample_local_def)

lemma finds_firstD: "finds_first candidate blocked result \<Longrightarrow> \<exists>k. result = Some (candidate k) \<and> candidate k \<notin> blocked"
  by (auto simp: finds_first_def)

theorem generated_names_are_free_witness:
  "(\<exists>k. next_generated_relation_name_avoiding sample_state ''s'' ''t'' None ''key'' {Oid ''s'' ''t_key''} =
      Some (Oid ''s'' (generated_name ''t'' None ''key'' k)) \<and> generated_name ''t'' None ''key'' k \<noteq> ''t_key'')
   \<and> (\<exists>k. next_generated_constraint_name_avoiding sample_state (Oid ''s'' ''t'') ''t'' None ''key'' {''t_key''} =
      Some (generated_name ''t'' None ''key'' k) \<and> generated_name ''t'' None ''key'' k \<noteq> ''t_key'')"
proof -
  have "finds_first (\<lambda>n. Oid ''s'' (generated_name ''t'' None ''key'' n))
        ({Oid ''s'' ''t_key''} \<union> {i. relation_namespace_is_taken sample_state i})
        (next_generated_relation_name_avoiding sample_state ''s'' ''t'' None ''key'' {Oid ''s'' ''t_key''})"
    "finds_first (generated_name ''t'' None ''key'')
        ({''t_key''} \<union> {n. constraint_name_taken sample_state (schema_of (Oid ''s'' ''t'')) n})
        (next_generated_constraint_name_avoiding sample_state (Oid ''s'' ''t'') ''t'' None ''key'' {''t_key''})"
    using generated_names_are_free [OF sample_taken_finite sample_names_finite(1), of "{Oid ''s'' ''t_key''}" "{''t_key''}" "''s''" "''t''"
        None "''key''" "Oid ''s'' ''t''"]
    by (simp_all add: sample_names_finite(2))
  from this [THEN finds_firstD] show ?thesis by auto
qed


end
