(* ===== verification/Sequence_Parameters.thy ===== *)
theory Sequence_Parameters
  imports Names
begin

text \<open>
  The parameters of a sequence (the first part of
  \<^verbatim>\<open>src/src/_internal/analysis/state/apply_sequence.rs\<close>): the bag of options of a statement, the port of
  PostgreSQL's \<^verbatim>\<open>init_params\<close>, and the check of the current value. Values are signed 64-bit words.
\<close>

section \<open>Options\<close>

datatype sequence_option =
    SeqAs string | SeqCache "64 word" | SeqCycle bool | SeqIncrement "64 word" | SeqLogged bool
  | SeqMaxValue "64 word option" | SeqMinValue "64 word option" | SeqOwnedBy "(object_id \<times> string) option"
  | SeqName string | SeqStart "64 word" | SeqRestart "64 word option"

fun option_name :: "sequence_option \<Rightarrow> string" where
  "option_name (SeqAs _) = ''as''"
| "option_name (SeqCache _) = ''cache''"
| "option_name (SeqCycle _) = ''cycle''"
| "option_name (SeqIncrement _) = ''increment''"
| "option_name (SeqLogged _) = ''logged''"
| "option_name (SeqMaxValue _) = ''maxvalue''"
| "option_name (SeqMinValue _) = ''minvalue''"
| "option_name (SeqOwnedBy _) = ''owned_by''"
| "option_name (SeqName _) = ''sequence_name''"
| "option_name (SeqStart _) = ''start''"
| "option_name (SeqRestart _) = ''restart''"

record sequence_option_set =
  os_as_type :: "string option"
  os_increment :: "64 word option"
  os_cycle :: "bool option"
  os_max_value :: "64 word option option"
  os_min_value :: "64 word option option"
  os_start :: "64 word option"
  os_restart :: "64 word option option"
  os_cache :: "64 word option"
  os_logged :: "bool option"

definition option_set_default :: sequence_option_set where
  "option_set_default = \<lparr>os_as_type = None, os_increment = None, os_cycle = None, os_max_value = None,
     os_min_value = None, os_start = None, os_restart = None, os_cache = None, os_logged = None\<rparr>"

record identity_sequence_options =
  iso_data_type :: "string option"
  iso_start_value :: "64 word option"
  iso_increment :: "64 word option"
  iso_min_value :: "64 word option option"
  iso_max_value :: "64 word option option"
  iso_cache_size :: "64 word option"
  iso_cycle :: "bool option"
  iso_persistence :: "bool option"
  iso_sequence_name :: "object_id option"

definition from_identity_options :: "identity_sequence_options \<Rightarrow> sequence_option_set" where
  "from_identity_options x = \<lparr>os_as_type = iso_data_type x, os_increment = iso_increment x, os_cycle = iso_cycle x,
     os_max_value = iso_max_value x, os_min_value = iso_min_value x, os_start = iso_start_value x,
     os_restart = None, os_cache = iso_cache_size x, os_logged = iso_persistence x\<rparr>"

definition logged_persistence :: "bool \<Rightarrow> sequence_persistence" where
  "logged_persistence b = (if b then SeqPermanent else SeqUnlogged)"

definition option_set_persistence :: "sequence_option_set \<Rightarrow> sequence_persistence option" where
  "option_set_persistence os = map_option logged_persistence (os_logged os)"

definition put_option :: "sequence_option \<Rightarrow> sequence_option_set \<Rightarrow> sequence_option_set" where
  "put_option x os =
     (case x of
        SeqAs t \<Rightarrow> os\<lparr>os_as_type := Some t\<rparr>
      | SeqCache v \<Rightarrow> os\<lparr>os_cache := Some v\<rparr>
      | SeqCycle b \<Rightarrow> os\<lparr>os_cycle := Some b\<rparr>
      | SeqIncrement v \<Rightarrow> os\<lparr>os_increment := Some v\<rparr>
      | SeqLogged b \<Rightarrow> os\<lparr>os_logged := Some b\<rparr>
      | SeqMaxValue v \<Rightarrow> os\<lparr>os_max_value := Some v\<rparr>
      | SeqMinValue v \<Rightarrow> os\<lparr>os_min_value := Some v\<rparr>
      | SeqStart v \<Rightarrow> os\<lparr>os_start := Some v\<rparr>
      | SeqRestart v \<Rightarrow> os\<lparr>os_restart := Some v\<rparr>
      | _ \<Rightarrow> os)"

definition repeated_option :: "sequence_option \<Rightarrow> mutation_result" where
  "repeated_option x = conflict (''conflicting or redundant options: '' @ [CHR 0x22] @ option_name x @ [CHR 0x22]
     @ '' specified more than once'')"

fun collect_options ::
  "sequence_option list \<Rightarrow> string set \<Rightarrow> sequence_option_set \<Rightarrow> mutation_result + sequence_option_set" where
  "collect_options [] seen os = Inr os"
| "collect_options (x # xs) seen os =
     (if option_name x \<in> seen then Inl (repeated_option x)
      else collect_options xs (insert (option_name x) seen) (put_option x os))"

definition sequence_option_set :: "sequence_option list \<Rightarrow> mutation_result + sequence_option_set" where
  "sequence_option_set xs = collect_options xs {} option_set_default"

section \<open>Types and bounds\<close>

definition sequence_type :: "string \<Rightarrow> (string \<times> 64 word \<times> 64 word) option" where
  "sequence_type data_type =
     (let t = to_ascii_lowercase (trim data_type)
      in if t = ''smallint'' \<or> t = ''int2'' then Some (''smallint'', - 0x8000, 0x7FFF)
         else if t = ''integer'' \<or> t = ''int'' \<or> t = ''int4'' then Some (''integer'', - 0x80000000, 0x7FFFFFFF)
         else if t = ''bigint'' \<or> t = ''int8'' then Some (''bigint'', 0x8000000000000000, 0x7FFFFFFFFFFFFFFF)
         else None)"

definition slt :: "64 word \<Rightarrow> 64 word \<Rightarrow> bool" where
  "slt a b \<longleftrightarrow> sint a < sint b"

definition show_i64 :: "64 word \<Rightarrow> string" where
  "show_i64 v = show_int (sint v)"

definition sequence_bounds_narrowed :: "sequence_parameters \<Rightarrow> sequence_parameters \<Rightarrow> bool" where
  "sequence_bounds_narrowed current merged \<longleftrightarrow>
     slt (seqp_min_value current) (seqp_min_value merged) \<or> slt (seqp_max_value merged) (seqp_max_value current)"

definition value_below :: "string \<Rightarrow> 64 word \<Rightarrow> sequence_parameters \<Rightarrow> mutation_result" where
  "value_below what v p = conflict (what @ '' value ('' @ show_i64 v @ '') cannot be less than MINVALUE (''
     @ show_i64 (seqp_min_value p) @ '')'')"

definition value_above :: "string \<Rightarrow> 64 word \<Rightarrow> sequence_parameters \<Rightarrow> mutation_result" where
  "value_above what v p = conflict (what @ '' value ('' @ show_i64 v @ '') cannot be greater than MAXVALUE (''
     @ show_i64 (seqp_max_value p) @ '')'')"

definition sequence_runtime_bounds_conflict :: "sequence_state \<Rightarrow> sequence_parameters \<Rightarrow> mutation_result option" where
  "sequence_runtime_bounds_conflict current p =
     (case seqr_last_value (seq_runtime current) of
        None \<Rightarrow> None
      | Some v \<Rightarrow>
          if slt v (seqp_min_value p)
             \<and> (seq_runtime_exact current
                \<or> (\<not> seqp_cycle (seq_parameters current) \<and> slt (seqp_increment (seq_parameters current)) 0))
          then Some (value_below ''RESTART'' v p)
          else if slt (seqp_max_value p) v
             \<and> (seq_runtime_exact current
                \<or> (\<not> seqp_cycle (seq_parameters current) \<and> slt 0 (seqp_increment (seq_parameters current))))
          then Some (value_above ''RESTART'' v p)
          else None)"

section \<open>init_params\<close>

definition bind_result :: "'e + 'a \<Rightarrow> ('a \<Rightarrow> 'e + 'b) \<Rightarrow> 'e + 'b" where
  "bind_result m f = (case m of Inl e \<Rightarrow> Inl e | Inr x \<Rightarrow> f x)"

text \<open>The data type; the flags tell that a bound sat at the limit of the old type.\<close>

definition merge_type ::
  "sequence_parameters \<Rightarrow> sequence_option_set \<Rightarrow> bool \<Rightarrow> mutation_result + (sequence_parameters \<times> bool \<times> bool)" where
  "merge_type current os is_init =
     (case os_as_type os of
        None \<Rightarrow> Inr (current, False, False)
      | Some t \<Rightarrow>
          (case sequence_type t of
             None \<Rightarrow> Inl (conflict ''sequence type must be smallint, integer, or bigint'')
           | Some (name, _, _) \<Rightarrow>
               (case (is_init, sequence_type (seqp_data_type current)) of
                  (False, Some (_, old_min, old_max)) \<Rightarrow>
                    Inr (current\<lparr>seqp_data_type := name\<rparr>, seqp_max_value current = old_max, seqp_min_value current = old_min)
                | _ \<Rightarrow> Inr (current\<lparr>seqp_data_type := name\<rparr>, False, False))))"

definition merge_increment ::
  "sequence_option_set \<Rightarrow> bool \<Rightarrow> sequence_parameters \<Rightarrow> mutation_result + sequence_parameters" where
  "merge_increment os is_init p =
     (case os_increment os of
        Some v \<Rightarrow> if v = 0 then Inl (conflict ''INCREMENT must not be zero'') else Inr (p\<lparr>seqp_increment := v\<rparr>)
      | None \<Rightarrow> Inr (if is_init then p\<lparr>seqp_increment := 1\<rparr> else p))"

definition merge_cycle :: "sequence_option_set \<Rightarrow> bool \<Rightarrow> sequence_parameters \<Rightarrow> sequence_parameters" where
  "merge_cycle os is_init p =
     (case os_cycle os of Some b \<Rightarrow> p\<lparr>seqp_cycle := b\<rparr> | None \<Rightarrow> if is_init then p\<lparr>seqp_cycle := False\<rparr> else p)"

definition merge_max ::
  "sequence_option_set \<Rightarrow> bool \<Rightarrow> bool \<Rightarrow> 64 word \<Rightarrow> 64 word \<Rightarrow> sequence_parameters \<Rightarrow> mutation_result + sequence_parameters" where
  "merge_max os is_init reset type_min type_max p =
     (let bound = (if slt 0 (seqp_increment p) \<or> reset then type_max else - 1);
          q = (case os_max_value os of
                 Some (Some v) \<Rightarrow> p\<lparr>seqp_max_value := v\<rparr>
               | Some None \<Rightarrow> p\<lparr>seqp_max_value := bound\<rparr>
               | None \<Rightarrow> if is_init \<or> reset then p\<lparr>seqp_max_value := bound\<rparr> else p)
      in if slt (seqp_max_value q) type_min \<or> slt type_max (seqp_max_value q)
         then Inl (conflict (''MAXVALUE ('' @ show_i64 (seqp_max_value q) @ '') is out of range for sequence data type ''
                @ seqp_data_type q))
         else Inr q)"

definition merge_min ::
  "sequence_option_set \<Rightarrow> bool \<Rightarrow> bool \<Rightarrow> 64 word \<Rightarrow> 64 word \<Rightarrow> sequence_parameters \<Rightarrow> mutation_result + sequence_parameters" where
  "merge_min os is_init reset type_min type_max p =
     (let bound = (if slt (seqp_increment p) 0 \<or> reset then type_min else 1);
          q = (case os_min_value os of
                 Some (Some v) \<Rightarrow> p\<lparr>seqp_min_value := v\<rparr>
               | Some None \<Rightarrow> p\<lparr>seqp_min_value := bound\<rparr>
               | None \<Rightarrow> if is_init \<or> reset then p\<lparr>seqp_min_value := bound\<rparr> else p)
      in if slt (seqp_min_value q) type_min \<or> slt type_max (seqp_min_value q)
         then Inl (conflict (''MINVALUE ('' @ show_i64 (seqp_min_value q) @ '') is out of range for sequence data type ''
                @ seqp_data_type q))
         else if \<not> slt (seqp_min_value q) (seqp_max_value q)
         then Inl (conflict (''MINVALUE ('' @ show_i64 (seqp_min_value q) @ '') must be less than MAXVALUE (''
                @ show_i64 (seqp_max_value q) @ '')''))
         else Inr q)"

definition merge_start ::
  "sequence_option_set \<Rightarrow> bool \<Rightarrow> sequence_parameters \<Rightarrow> mutation_result + sequence_parameters" where
  "merge_start os is_init p =
     (let q = (case os_start os of
                 Some v \<Rightarrow> p\<lparr>seqp_start_value := v\<rparr>
               | None \<Rightarrow>
                   if is_init
                   then p\<lparr>seqp_start_value := (if slt 0 (seqp_increment p) then seqp_min_value p else seqp_max_value p)\<rparr>
                   else p)
      in if slt (seqp_start_value q) (seqp_min_value q) then Inl (value_below ''START'' (seqp_start_value q) q)
         else if slt (seqp_max_value q) (seqp_start_value q) then Inl (value_above ''START'' (seqp_start_value q) q)
         else Inr q)"

definition restart_value :: "sequence_parameters \<Rightarrow> 64 word option \<Rightarrow> 64 word" where
  "restart_value p r = (case r of Some v \<Rightarrow> v | None \<Rightarrow> seqp_start_value p)"

definition check_restart ::
  "sequence_option_set \<Rightarrow> sequence_parameters \<Rightarrow> mutation_result + sequence_parameters" where
  "check_restart os p =
     (case os_restart os of
        None \<Rightarrow> Inr p
      | Some r \<Rightarrow>
          if slt (restart_value p r) (seqp_min_value p) then Inl (value_below ''RESTART'' (restart_value p r) p)
          else if slt (seqp_max_value p) (restart_value p r) then Inl (value_above ''RESTART'' (restart_value p r) p)
          else Inr p)"

definition merge_cache ::
  "sequence_option_set \<Rightarrow> bool \<Rightarrow> sequence_parameters \<Rightarrow> mutation_result + sequence_parameters" where
  "merge_cache os is_init p =
     (case os_cache os of
        Some v \<Rightarrow>
          if \<not> slt 0 v then Inl (conflict (''CACHE ('' @ show_i64 v @ '') must be greater than zero''))
          else Inr (p\<lparr>seqp_cache_size := v\<rparr>)
      | None \<Rightarrow> Inr (if is_init then p\<lparr>seqp_cache_size := 1\<rparr> else p))"

definition init_sequence_parameters ::
  "sequence_parameters \<Rightarrow> sequence_option_set \<Rightarrow> bool \<Rightarrow> mutation_result + sequence_parameters" where
  "init_sequence_parameters current os is_init =
     bind_result (merge_type current os is_init) (\<lambda>(typed, reset_max, reset_min).
     case sequence_type (seqp_data_type typed) of
       None \<Rightarrow> Inl (conflict (''sequence data type '' @ [CHR 0x22] @ seqp_data_type typed @ [CHR 0x22] @ '' is invalid''))
     | Some (_, type_min, type_max) \<Rightarrow>
         bind_result (merge_increment os is_init typed) (\<lambda>p1.
         bind_result (merge_max os is_init reset_max type_min type_max (merge_cycle os is_init p1)) (\<lambda>p2.
         bind_result (merge_min os is_init reset_min type_min type_max p2) (\<lambda>p3.
         bind_result (merge_start os is_init p3) (\<lambda>p4.
         bind_result (check_restart os p4) (\<lambda>p5. merge_cache os is_init p5))))))"

section \<open>Well-formed parameters\<close>

text \<open>A known type whose range holds the bounds, in order, with the start between them.\<close>

definition parameters_ok :: "sequence_parameters \<Rightarrow> bool" where
  "parameters_ok p \<longleftrightarrow>
     (case sequence_type (seqp_data_type p) of
        None \<Rightarrow> False
      | Some (_, lo, hi) \<Rightarrow>
          sint lo \<le> sint (seqp_min_value p) \<and> sint (seqp_min_value p) < sint (seqp_max_value p)
          \<and> sint (seqp_max_value p) \<le> sint hi
          \<and> sint (seqp_min_value p) \<le> sint (seqp_start_value p) \<and> sint (seqp_start_value p) \<le> sint (seqp_max_value p)
          \<and> seqp_increment p \<noteq> 0 \<and> 0 < sint (seqp_cache_size p))"

lemma bind_result_Inr: "bind_result m f = Inr y \<longleftrightarrow> (\<exists>x. m = Inr x \<and> f x = Inr y)"
  by (auto simp: bind_result_def split: sum.splits)

lemma merge_type_Inr:
  "merge_type p os is_init = Inr (q, a, b) \<Longrightarrow>
     seqp_increment q = seqp_increment p \<and> seqp_cache_size q = seqp_cache_size p"
  by (auto simp: merge_type_def split: option.splits prod.splits bool.splits)

lemma merge_increment_Inr:
  assumes "merge_increment os is_init p = Inr q" "is_init \<or> seqp_increment p \<noteq> 0"
  shows "seqp_increment q \<noteq> 0 \<and> seqp_data_type q = seqp_data_type p \<and> seqp_cache_size q = seqp_cache_size p"
  using assms by (auto simp: merge_increment_def split: option.splits if_splits)

lemma merge_cycle_fields [simp]:
  "seqp_increment (merge_cycle os b p) = seqp_increment p" "seqp_data_type (merge_cycle os b p) = seqp_data_type p"
  "seqp_cache_size (merge_cycle os b p) = seqp_cache_size p"
  by (simp_all add: merge_cycle_def split: option.splits)

lemma merge_max_Inr:
  assumes "merge_max os is_init reset lo hi p = Inr q"
  shows "sint (seqp_max_value q) \<le> sint hi \<and> sint lo \<le> sint (seqp_max_value q) \<and> seqp_data_type q = seqp_data_type p
     \<and> seqp_increment q = seqp_increment p \<and> seqp_cache_size q = seqp_cache_size p"
  using assms by (auto simp: merge_max_def Let_def slt_def split: option.splits if_splits)

lemma merge_min_Inr:
  assumes "merge_min os is_init reset lo hi p = Inr q"
  shows "sint lo \<le> sint (seqp_min_value q) \<and> sint (seqp_min_value q) < sint (seqp_max_value q)
     \<and> seqp_max_value q = seqp_max_value p \<and> seqp_data_type q = seqp_data_type p
     \<and> seqp_increment q = seqp_increment p \<and> seqp_cache_size q = seqp_cache_size p"
  using assms by (auto simp: merge_min_def Let_def slt_def split: option.splits if_splits)

lemma merge_start_Inr:
  assumes "merge_start os is_init p = Inr q"
  shows "sint (seqp_min_value q) \<le> sint (seqp_start_value q) \<and> sint (seqp_start_value q) \<le> sint (seqp_max_value q)
     \<and> seqp_min_value q = seqp_min_value p \<and> seqp_max_value q = seqp_max_value p \<and> seqp_data_type q = seqp_data_type p
     \<and> seqp_increment q = seqp_increment p \<and> seqp_cache_size q = seqp_cache_size p"
  using assms by (auto simp: merge_start_def Let_def slt_def split: option.splits if_splits)

lemma check_restart_Inr:
  "check_restart os p = Inr q \<Longrightarrow>
     q = p \<and> (\<forall>r. os_restart os = Some r \<longrightarrow>
       sint (seqp_min_value p) \<le> sint (restart_value p r) \<and> sint (restart_value p r) \<le> sint (seqp_max_value p))"
  by (auto simp: check_restart_def slt_def split: option.splits if_splits)

lemma merge_cache_Inr:
  assumes "merge_cache os is_init p = Inr q" "is_init \<or> 0 < sint (seqp_cache_size p)"
  shows "0 < sint (seqp_cache_size q) \<and> (\<exists>v. q = p\<lparr>seqp_cache_size := v\<rparr>)"
  using assms by (auto simp: merge_cache_def slt_def split: option.splits if_splits intro: exI [of _ "seqp_cache_size p"])

lemma init_parameters_ok:
  assumes "init_sequence_parameters current os is_init = Inr p"
    and "is_init \<or> seqp_increment current \<noteq> 0 \<and> 0 < sint (seqp_cache_size current)"
  shows "parameters_ok p \<and> (\<forall>r. os_restart os = Some r \<longrightarrow>
      sint (seqp_min_value p) \<le> sint (restart_value p r) \<and> sint (restart_value p r) \<le> sint (seqp_max_value p))"
proof -
  obtain typed a b name lo hi p1 p2 p3 p4 p5 where steps:
    "merge_type current os is_init = Inr (typed, a, b)" "sequence_type (seqp_data_type typed) = Some (name, lo, hi)"
    "merge_increment os is_init typed = Inr p1" "merge_max os is_init a lo hi (merge_cycle os is_init p1) = Inr p2"
    "merge_min os is_init b lo hi p2 = Inr p3" "merge_start os is_init p3 = Inr p4"
    "check_restart os p4 = Inr p5" "merge_cache os is_init p5 = Inr p"
    using assms(1) unfolding init_sequence_parameters_def bind_result_Inr by (auto simp: bind_result_Inr split: option.splits)
  note t = merge_type_Inr [OF steps(1)]
  have p1: "seqp_increment p1 \<noteq> 0" "seqp_data_type p1 = seqp_data_type typed" "seqp_cache_size p1 = seqp_cache_size typed"
    using merge_increment_Inr [OF steps(3)] assms(2) t by auto
  note p2 = merge_max_Inr [OF steps(4)] and p3 = merge_min_Inr [OF steps(5)] and p4 = merge_start_Inr [OF steps(6)]
  note p5 = check_restart_Inr [OF steps(7)]
  have "is_init \<or> 0 < sint (seqp_cache_size p5)" using assms(2) t p1 p2 p3 p4 p5 by auto
  from merge_cache_Inr [OF steps(8) this] obtain v where p: "p = p5\<lparr>seqp_cache_size := v\<rparr>" "0 < sint (seqp_cache_size p)"
    by blast
  have "seqp_data_type p = seqp_data_type typed" using p p1 p2 p3 p4 p5 by simp
  then have "parameters_ok p" using steps(2) p p1 p2 p3 p4 p5 by (auto simp: parameters_ok_def)
  moreover have "restart_value p r = restart_value p4 r" for r using p p5 by (simp add: restart_value_def split: option.splits)
  ultimately show ?thesis using p p5 by auto
qed


section \<open>The order of the options\<close>

lemma put_option_commute:
  "option_name x \<noteq> option_name y \<Longrightarrow> put_option x (put_option y os) = put_option y (put_option x os)"
  by (cases x; cases y) (simp_all add: put_option_def)

lemma collect_options_Inr:
  "collect_options xs seen os = Inr r \<longleftrightarrow>
     distinct (map option_name xs) \<and> option_name ` set xs \<inter> seen = {} \<and> r = fold put_option xs os"
  by (induction xs seen os rule: collect_options.induct) auto

lemma fold_put_option_perm:
  assumes "mset xs = mset ys" "distinct (map option_name xs)"
  shows "fold put_option xs os = fold put_option ys os"
proof (rule fold_permuted_eq [where P = "\<lambda>_. True"])
  show "put_option y (put_option x z) = put_option x (put_option y z)" if "x \<in> set xs" "y \<in> set xs" for x y z
  proof (cases "x = y")
    case False
    then have "option_name x \<noteq> option_name y" using assms(2) that by (auto simp: distinct_map inj_on_def)
    then show ?thesis by (rule put_option_commute [symmetric])
  qed simp
qed (use assms in auto)

lemma distinct_names_mset: "mset xs = mset ys \<Longrightarrow> distinct (map option_name xs) \<longleftrightarrow> distinct (map option_name ys)"
  by (metis distinct_count_atmost_1 mset_map set_mset_mset)

section \<open>Text without blanks at its ends\<close>

section \<open>Properties\<close>

text \<open>
  The options of a sequence statement form a bag: written in any order they give the same
  option set, or are refused in every order because one is repeated.
\<close>

theorem sequence_options_unordered:
  assumes "mset xs = mset ys"
  shows "(\<exists>os. sequence_option_set xs = Inr os \<and> sequence_option_set ys = Inr os)
     \<or> (\<exists>e e'. sequence_option_set xs = Inl e \<and> sequence_option_set ys = Inl e')"
proof (cases "distinct (map option_name xs)")
  case True
  then show ?thesis
    using fold_put_option_perm [OF assms True] distinct_names_mset [OF assms]
    by (intro disjI1 exI) (auto simp: sequence_option_set_def collect_options_Inr)
next
  case False
  then have "\<not> (\<exists>os. sequence_option_set zs = Inr os)" if "mset zs = mset xs" for zs
    using distinct_names_mset [OF that] by (auto simp: sequence_option_set_def collect_options_Inr)
  then show ?thesis using assms by (metis old.sum.exhaust)
qed

theorem sequence_options_unordered_witness:
  "sequence_option_set [SeqStart 5, SeqCache 2] = sequence_option_set [SeqCache 2, SeqStart 5]"
  using sequence_options_unordered [of "[SeqStart 5, SeqCache 2]" "[SeqCache 2, SeqStart 5]"]
  by (auto simp: add_mset_commute sequence_option_set_def)

text \<open>
  C36. Whatever the options, parameters that the merge accepts are well-formed: a known integer type,
  bounds in its range and in order, the start and a restart value between them, an increment that
  is not zero and a positive cache. \<^verbatim>\<open>ALTER\<close> starts from parameters that are.
\<close>

theorem init_sequence_parameters_typed:
  assumes "init_sequence_parameters current os is_init = Inr p" "is_init \<or> parameters_ok current"
  shows "parameters_ok p \<and> (\<forall>r. os_restart os = Some r \<longrightarrow>
      sint (seqp_min_value p) \<le> sint (restart_value p r) \<and> sint (restart_value p r) \<le> sint (seqp_max_value p))"
  using assms by (intro init_parameters_ok) (auto simp: parameters_ok_def split: option.splits)

theorem init_sequence_parameters_typed_witness:
  "\<exists>p. init_sequence_parameters sequence_parameters_default (option_set_default\<lparr>os_as_type := Some ''int2''\<rparr>) True = Inr p
     \<and> parameters_ok p"
proof -
  let ?os = "option_set_default\<lparr>os_as_type := Some ''int2''\<rparr>"
  let ?p = "sequence_parameters_default\<lparr>seqp_data_type := ''smallint'', seqp_max_value := 0x7FFF\<rparr>"
  have "trim ''int2'' = ''int2''" "trim ''smallint'' = ''smallint''" by (simp_all add: trim_plain byte_def)
  then have t: "sequence_type ''int2'' = Some (''smallint'', - 0x8000, 0x7FFF)"
    "sequence_type ''smallint'' = Some (''smallint'', - 0x8000, 0x7FFF)"
    by (simp_all add: sequence_type_def to_ascii_lowercase_def ascii_lower_def byte_def)
  have "init_sequence_parameters sequence_parameters_default ?os True = Inr ?p"
    by (simp add: init_sequence_parameters_def merge_type_def option_set_default_def t bind_result_def merge_increment_def
        merge_cycle_def merge_max_def merge_min_def merge_start_def check_restart_def merge_cache_def slt_def Let_def
        sequence_parameters_default_def)
  then show ?thesis using init_sequence_parameters_typed by blast
qed

end
