(* ===== verification/Sequences.thy ===== *)
theory Sequences
  imports Roles Sequence_Parameters
begin

text \<open>
  \<^verbatim>\<open>CREATE\<close>, \<^verbatim>\<open>ALTER\<close> and \<^verbatim>\<open>DROP SEQUENCE\<close>
  (\<^verbatim>\<open>src/src/_internal/analysis/state/apply_sequence.rs\<close>): which defaults name a sequence, the three
  handlers, and the invariant of the sequence catalogue they keep.
\<close>

section \<open>Defaults that name a sequence\<close>

definition dquote :: char where
  "dquote = CHR 0x22"

definition squote :: char where
  "squote = CHR 0x27"

fun unquote :: "string \<Rightarrow> string" where
  "unquote [] = []"
| "unquote [c] = (if c = squote then [] else [c])"
| "unquote (c # d # cs) =
     (if c = squote then (if d = squote then squote # unquote cs else []) else c # unquote (d # cs))"

fun before_cast :: "string \<Rightarrow> string" where
  "before_cast [] = []"
| "before_cast (c # cs) = (if strip_prefix ''::'' (c # cs) \<noteq> None then [] else c # before_cast cs)"

definition trim_matches :: "char \<Rightarrow> string \<Rightarrow> string" where
  "trim_matches c v = rev (dropWhile (\<lambda>x. x = c) (rev (dropWhile (\<lambda>x. x = c) v)))"

definition quote_identifier :: "string \<Rightarrow> string" where
  "quote_identifier n = dquote # concat (map (\<lambda>c. if c = dquote then [dquote, dquote] else [c]) n) @ [dquote]"

definition spellings :: "oid \<Rightarrow> string list" where
  "spellings i =
     [schema_of i @ ''.'' @ name_of i,
      quote_identifier (schema_of i) @ ''.'' @ quote_identifier (name_of i),
      schema_of i @ ''.'' @ quote_identifier (name_of i),
      quote_identifier (schema_of i) @ ''.'' @ name_of i,
      name_of i,
      quote_identifier (name_of i)]"

definition sequence_literal_matches :: "string \<Rightarrow> oid \<Rightarrow> bool" where
  "sequence_literal_matches raw i =
     (let trimmed = trim raw;
          v = (case strip_prefix [squote] trimmed of
                 Some rest \<Rightarrow> unquote rest
               | None \<Rightarrow> trim_matches dquote (before_cast trimmed))
      in list_ex (\<lambda>candidate. candidate = v) (spellings i))"

definition last_component :: "string \<Rightarrow> string" where
  "last_component name = rev (takeWhile (\<lambda>c. c \<noteq> CHR ''.'') (rev name))"

definition is_nextval :: "string \<Rightarrow> bool" where
  "is_nextval name = eq_ignore_ascii_case (last_component name) ''nextval''"

fun expression_references_sequence :: "oid \<Rightarrow> expr_ir \<Rightarrow> bool" where
  "expression_references_sequence i (FunctionCall name args) =
     (is_nextval name \<and> (case args of [] \<Rightarrow> False | a # _ \<Rightarrow> expression_references_sequence i a)
      \<or> list_ex (expression_references_sequence i) args)"
| "expression_references_sequence i (Literal v) = sequence_literal_matches v i"
| "expression_references_sequence i (BinaryOp left _ right) =
     (expression_references_sequence i left \<or> expression_references_sequence i right)"
| "expression_references_sequence i (Cast e _) = expression_references_sequence i e"
| "expression_references_sequence i (UnaryOp _ e) = expression_references_sequence i e"
| "expression_references_sequence i (ColumnRef _) = False"
| "expression_references_sequence i (Sentinel _) = False"
| "expression_references_sequence i Omitted = False"

fun expression_contains_nextval :: "expr_ir \<Rightarrow> bool" where
  "expression_contains_nextval (FunctionCall name args) =
     (is_nextval name \<or> list_ex expression_contains_nextval args)"
| "expression_contains_nextval (BinaryOp left _ right) =
     (expression_contains_nextval left \<or> expression_contains_nextval right)"
| "expression_contains_nextval (Cast e _) = expression_contains_nextval e"
| "expression_contains_nextval (UnaryOp _ e) = expression_contains_nextval e"
| "expression_contains_nextval (Literal _) = False"
| "expression_contains_nextval (ColumnRef _) = False"
| "expression_contains_nextval (Sentinel _) = False"
| "expression_contains_nextval Omitted = False"

text \<open>\<^verbatim>\<open>str::split\<close> by a predicate and \<^verbatim>\<open>str::contains\<close>.\<close>

fun split_where :: "(char \<Rightarrow> bool) \<Rightarrow> string \<Rightarrow> string list" where
  "split_where P [] = [[]]"
| "split_where P (c # cs) =
     (if P c then [] # split_where P cs
      else case split_where P cs of [] \<Rightarrow> [[c]] | t # ts \<Rightarrow> (c # t) # ts)"

definition contains_text :: "string \<Rightarrow> string \<Rightarrow> bool" where
  "contains_text raw pat = list_ex (\<lambda>k. take (length pat) (drop k raw) = pat) [0..<Suc (length raw)]"

definition is_word_char :: "char \<Rightarrow> bool" where
  "is_word_char c \<longleftrightarrow>
     48 \<le> byte c \<and> byte c \<le> 57 \<or> 65 \<le> byte c \<and> byte c \<le> 90 \<or> 97 \<le> byte c \<and> byte c \<le> 122 \<or> c = CHR ''_''"

definition raw_default_references_sequence :: "string \<Rightarrow> oid \<Rightarrow> bool" where
  "raw_default_references_sequence raw i =
     (if \<not> list_ex (\<lambda>token. token = ''nextval'') (split_where (\<lambda>c. \<not> is_word_char c) (to_ascii_lowercase raw))
      then False
      else
        (let qualified = squote # schema_of i @ ''.'' @ name_of i @ [squote];
             unqualified = squote # name_of i @ [squote];
             quoted_qualified = [squote, dquote] @ schema_of i @ [dquote] @ ''.'' @ [dquote] @ name_of i @ [dquote, squote];
             quoted_unqualified = [squote, dquote] @ name_of i @ [dquote, squote]
         in contains_text raw qualified \<or> contains_text raw unqualified
            \<or> contains_text raw quoted_qualified \<or> contains_text raw quoted_unqualified
            \<or> contains_text (to_ascii_lowercase raw) (to_ascii_lowercase qualified)))"

text \<open>The columns whose default the loop of \<^verbatim>\<open>clear_sequence_defaults_on_cascade\<close> collects.\<close>

definition typed_default_columns :: "dependency_graph \<Rightarrow> oid \<Rightarrow> (oid \<times> string) list" where
  "typed_default_columns g i =
     List.map_filter
       (\<lambda>e. case edge_kind e of
           ColumnDefaultOnSequence column \<Rightarrow>
             if resolve_rename g (referenced e) = i then Some (resolve_rename g (dependent e), column) else None
         | _ \<Rightarrow> None)
       (edges g)"

definition typed_default_relation_columns :: "dependency_graph \<Rightarrow> (oid \<times> string) set" where
  "typed_default_relation_columns g =
     set (List.map_filter
       (\<lambda>e. case edge_kind e of
           ColumnDefaultOnSequence column \<Rightarrow> Some (resolve_rename g (dependent e), column)
         | _ \<Rightarrow> None)
       (edges g))"

definition default_goes ::
  "analysis_state \<Rightarrow> oid \<Rightarrow> sequence_kind \<Rightarrow> (object_id \<times> string) option \<Rightarrow> oid \<Rightarrow> column \<Rightarrow> bool" where
  "default_goes s i kind owned_by relation_id c =
     (let generated_default = (kind = SerialLike \<and>
            (case owned_by of Some (table, name) \<Rightarrow> oid table = relation_id \<and> name = col_name c | None \<Rightarrow> False));
          typed_dependency = list_ex (\<lambda>(table, name). table = relation_id \<and> name = col_name c)
            (typed_default_columns (graph_of s) i);
          references_sequence =
            ((relation_id, col_name c) \<notin> typed_default_relation_columns (graph_of s)
             \<and> ((case col_default c of Some e \<Rightarrow> expression_references_sequence i e | None \<Rightarrow> False)
                \<or> (case col_default_expr_text c of Some raw \<Rightarrow> raw_default_references_sequence raw i | None \<Rightarrow> False)))
      in generated_default \<or> typed_dependency \<or> references_sequence)"

definition columns_to_clear ::
  "hash_order \<Rightarrow> oid \<Rightarrow> sequence_kind \<Rightarrow> (object_id \<times> string) option \<Rightarrow> analysis_state \<Rightarrow> (oid \<times> string) list" where
  "columns_to_clear h i kind owned_by s =
     concat (map
       (\<lambda>relation_id. case l_relations (local s) relation_id of
           Some (Present r) \<Rightarrow>
             map (\<lambda>c. (relation_id, col_name c)) (filter (default_goes s i kind owned_by relation_id) (r_columns r))
         | _ \<Rightarrow> [])
       (ho_ids h (dom (l_relations (local s)))))"

definition clear_default :: "oid \<times> string \<Rightarrow> analysis_state \<Rightarrow> analysis_state" where
  "clear_default k s =
     (case k of (j, n) \<Rightarrow>
        upd_local (\<lambda>l. l\<lparr>l_relations := (l_relations l)(j :=
           (case l_relations (local s) j of
              Some (Present r) \<Rightarrow>
                Some (Present (update_column n (\<lambda>c. c\<lparr>col_default := None, col_default_expr_text := None\<rparr>) r))
            | other \<Rightarrow> other))\<rparr>) (snapshot_relation j s))"

definition clear_sequence_defaults_on_cascade ::
  "hash_order \<Rightarrow> oid \<times> sequence_kind \<times> (object_id \<times> string) option \<Rightarrow> analysis_state \<Rightarrow> analysis_state" where
  "clear_sequence_defaults_on_cascade h q s =
     (case q of (i, kind, owned_by) \<Rightarrow> fold clear_default (columns_to_clear h i kind owned_by s) s)"

section \<open>Lookup and updates\<close>

definition sequence_lookup :: "analysis_state \<Rightarrow> object_id \<Rightarrow> object_lookup" where
  "sequence_lookup s i =
     (if lookup_shadowed s i then LookupUnknown
      else case l_sequences (local s) (oid i) of
          Some (Present _) \<Rightarrow> LookupPresent
        | Some Dropped \<Rightarrow> Tombstone
        | None \<Rightarrow> if baseline_covers_family_object s (oid i) FamSequences then AuthoritativelyAbsent else LookupUnknown)"

definition present_sequence :: "analysis_state \<Rightarrow> oid \<Rightarrow> sequence_state option" where
  "present_sequence s i = (case l_sequences (local s) i of Some (Present q) \<Rightarrow> Some q | _ \<Rightarrow> None)"

definition put_sequence :: "oid \<Rightarrow> sequence_state overlay option \<Rightarrow> analysis_state \<Rightarrow> analysis_state" where
  "put_sequence i v = upd_local (\<lambda>l. l\<lparr>l_sequences := (l_sequences l)(i := v)\<rparr>)"

text \<open>\<^verbatim>\<open>snapshot_sequence\<close>, then a change under \<^verbatim>\<open>if let Some(Present(..)) = get_mut(..)\<close>.\<close>

definition update_sequence :: "oid \<Rightarrow> (sequence_state \<Rightarrow> sequence_state) \<Rightarrow> analysis_state \<Rightarrow> analysis_state" where
  "update_sequence i f s =
     put_sequence i
       (case l_sequences (local s) i of Some (Present q) \<Rightarrow> Some (Present (f q)) | other \<Rightarrow> other)
       (snapshot_sequence i s)"

definition ensure_owning_table :: "object_id \<Rightarrow> unit step" where
  "ensure_owning_table table =
     ensure (ensure_relation_target table (\<lambda>kind. kind = Table)
       (''relation '' @ quoted (object_id_display table) @ '' does not exist'')
       (''sequence owner '' @ quoted (object_id_display table) @ '' is not a table''))"

definition no_column :: "object_id \<Rightarrow> string \<Rightarrow> mutation_result" where
  "no_column table column = conflict (''column '' @ quoted (object_id_display table @ ''.'' @ column) @ '' does not exist'')"

definition other_schema :: mutation_result where
  "other_schema = conflict ''sequence must be in the same schema as its owning table''"

definition other_owner :: mutation_result where
  "other_owner = conflict ''sequence and table must have the same owner''"

definition name_taken :: "object_id \<Rightarrow> mutation_result" where
  "name_taken i = conflict (''relation '' @ quoted (object_id_display i) @ '' already exists'')"

section \<open>CREATE SEQUENCE\<close>

record create_sequence =
  cs_id :: object_id
  cs_if_not_exists :: bool
  cs_owned_by :: "(object_id \<times> string) option"
  cs_persistence :: sequence_persistence
  cs_options :: identity_sequence_options

definition check_new_owner :: "create_sequence \<Rightarrow> unit step" where
  "check_new_owner c =
     (case cs_owned_by c of
        None \<Rightarrow> ret ()
      | Some (table, column) \<Rightarrow>
          if oid_schema table \<noteq> oid_schema (cs_id c) then return_with other_schema
          else
            andthen (ensure_owning_table table) (\<lambda>_.
            andthen (asks (\<lambda>s. s)) (\<lambda>s.
              case l_relations (local s) (oid table) of
                Some (Present r) \<Rightarrow>
                  if \<not> has_column r column then return_with (no_column table column)
                  else if rc_current_role_known (role_context_of s) \<and> name_of (r_owner r) \<noteq> rc_current_role (role_context_of s)
                  then return_with other_owner
                  else ret ()
              | _ \<Rightarrow>
                  if baseline_covers_family_object s (oid table) FamRelations
                  then return_with (conflict (''relation '' @ quoted (object_id_display table) @ '' does not exist''))
                  else give_up UnknownObjectState)))"

definition created_parameters :: "create_sequence \<Rightarrow> mutation_result + sequence_parameters" where
  "created_parameters c =
     (let option_set = from_identity_options (cs_options c)
      in bind_result
           (init_sequence_parameters (sequence_parameters_default\<lparr>seqp_persistence := cs_persistence c\<rparr>) option_set True)
           (\<lambda>p. Inr (case option_set_persistence option_set of
                       Some persistence \<Rightarrow> p\<lparr>seqp_persistence := persistence\<rparr>
                     | None \<Rightarrow> p)))"

definition new_sequence :: "create_sequence \<Rightarrow> sequence_parameters \<Rightarrow> analysis_state \<Rightarrow> sequence_state" where
  "new_sequence c p s =
     \<lparr>seq_id = oid (cs_id c),
      seq_owner = Oid [] (rc_current_role (role_context_of s)),
      seq_owned_by = cs_owned_by c,
      seq_kind = (if cs_owned_by c \<noteq> None then Owned else Standalone),
      seq_parameters = p,
      seq_runtime = sequence_runtime_fresh (seqp_start_value p),
      seq_runtime_exact = True,
      seq_generation = l_generation_counter (local s)\<rparr>"

definition owner_edge :: "object_id \<Rightarrow> object_id \<Rightarrow> string \<Rightarrow> dependency_edge" where
  "owner_edge i table column = edge_new (oid i) (oid table) (SequenceOwnedBy column)"

definition add_owner_edge :: "object_id \<Rightarrow> (object_id \<times> string) option \<Rightarrow> analysis_state \<Rightarrow> analysis_state" where
  "add_owner_edge i owned_by s =
     (case owned_by of
        None \<Rightarrow> s
      | Some (table, column) \<Rightarrow> on_graph (add_edge (owner_edge i table column)) (snapshot_graph s))"

definition begin_creation :: "oid \<Rightarrow> analysis_state \<Rightarrow> analysis_state" where
  "begin_creation i s = bump_generation (snapshot_sequence i s)"

definition insert_sequence :: "create_sequence \<Rightarrow> sequence_parameters \<Rightarrow> analysis_state \<Rightarrow> analysis_state" where
  "insert_sequence c p s =
     (let s1 = begin_creation (oid (cs_id c)) s
      in put_sequence (oid (cs_id c)) (Some (Present (new_sequence c p s1))) s1)"

definition apply_create_sequence :: "create_sequence \<Rightarrow> unit step" where
  "apply_create_sequence c =
     andthen (ensure (ensure_creation_target (cs_id c))) (\<lambda>_.
     andthen (asks (\<lambda>s. relation_namespace_is_taken s (oid (cs_id c)))) (\<lambda>taken.
       if cs_if_not_exists c \<and> taken then return_with NoOp
       else if taken then return_with (name_taken (cs_id c))
       else
         andthen (check_new_owner c) (\<lambda>_.
           case created_parameters c of
             Inl r \<Rightarrow> andthen (modify (begin_creation (oid (cs_id c)))) (\<lambda>_. return_with r)
           | Inr p \<Rightarrow>
               andthen (modify (insert_sequence c p)) (\<lambda>_.
                 modify (add_owner_edge (cs_id c) (cs_owned_by c))))))"

section \<open>ALTER SEQUENCE\<close>

datatype alter_sequence_action = OwnerTo role_fact | RenameSequenceTo object_id | SetSequenceSchema object_id

record alter_sequence =
  as_id :: object_id
  as_if_exists :: bool
  as_options :: "sequence_option list"
  as_action :: "alter_sequence_action option"

definition no_sequence :: "object_id \<Rightarrow> mutation_result" where
  "no_sequence i = conflict (''sequence '' @ quoted (object_id_display i) @ '' does not exist'')"

text \<open>
  A sequence never looks up as an object of another kind (\<open>sequence_lookup_kind\<close>), and a present one
  has an entry (\<open>sequence_lookup_present\<close>): the branches the source marks unreachable are.
\<close>

definition find_sequence :: "alter_sequence \<Rightarrow> sequence_state step" where
  "find_sequence a =
     andthen (asks (\<lambda>s. s)) (\<lambda>s.
       case sequence_lookup s (as_id a) of
         LookupPresent \<Rightarrow>
           (case present_sequence s (oid (as_id a)) of Some q \<Rightarrow> ret q | None \<Rightarrow> give_up UnknownObjectState)
       | WrongKind \<Rightarrow> give_up UnknownObjectState
       | AuthoritativelyAbsent \<Rightarrow> return_with (if as_if_exists a then NoOp else no_sequence (as_id a))
       | Tombstone \<Rightarrow>
           if baseline_covers_family_object s (oid (as_id a)) FamSequences then return_with (no_sequence (as_id a))
           else if as_if_exists a then return_with NoOp
           else give_up UnknownObjectState
       | LookupUnknown \<Rightarrow> give_up UnknownObjectState)"

definition merged_parameters :: "sequence_parameters \<Rightarrow> sequence_option list \<Rightarrow> mutation_result + (sequence_option_set \<times> sequence_parameters)" where
  "merged_parameters current options =
     bind_result (sequence_option_set options) (\<lambda>option_set.
     bind_result (init_sequence_parameters current option_set False) (\<lambda>merged.
       Inr (option_set,
         case os_logged option_set of
           Some b \<Rightarrow> merged\<lparr>seqp_persistence := logged_persistence b\<rparr>
         | None \<Rightarrow> merged)))"

fun find_owned_by :: "sequence_option list \<Rightarrow> (object_id \<times> string) option option" where
  "find_owned_by [] = None"
| "find_owned_by (SeqOwnedBy owned_by # xs) = Some owned_by"
| "find_owned_by (_ # xs) = find_owned_by xs"

definition restart_runtime :: "sequence_option_set \<Rightarrow> sequence_parameters \<Rightarrow> sequence_runtime option" where
  "restart_runtime option_set merged =
     map_option (\<lambda>restart. sequence_runtime_fresh (restart_value merged restart)) (os_restart option_set)"

definition check_current_value :: "sequence_state \<Rightarrow> sequence_parameters \<Rightarrow> sequence_runtime option \<Rightarrow> unit step" where
  "check_current_value current merged restart =
     (if restart \<noteq> None then ret ()
      else case sequence_runtime_bounds_conflict current merged of
          Some r \<Rightarrow> return_with r
        | None \<Rightarrow>
            if sequence_bounds_narrowed (seq_parameters current) merged \<and> \<not> seq_runtime_exact current
            then modify (taint BaselineStale ChainScope)
            else ret ())"

definition with_parameters :: "sequence_parameters \<Rightarrow> sequence_runtime option \<Rightarrow> sequence_state \<Rightarrow> sequence_state" where
  "with_parameters merged restart q =
     (let q1 = q\<lparr>seq_parameters := merged\<rparr>
      in case restart of
           Some runtime \<Rightarrow> q1\<lparr>seq_runtime := runtime, seq_runtime_exact := True\<rparr>
         | None \<Rightarrow> q1)"

definition set_owned_by :: "object_id \<Rightarrow> (object_id \<times> string) option \<Rightarrow> analysis_state \<Rightarrow> analysis_state" where
  "set_owned_by i owned_by s =
     (let s1 = snapshot_graph_full (snapshot_sequence (oid i) s);
          s2 = on_graph (retain_edges (\<lambda>e.
                 \<not> ((case edge_kind e of SequenceOwnedBy _ \<Rightarrow> True | _ \<Rightarrow> False) \<and> dependent e = oid i))) s1;
          s3 = put_sequence (oid i)
                 (case l_sequences (local s) (oid i) of
                    Some (Present q) \<Rightarrow>
                      Some (Present (q\<lparr>seq_owned_by := owned_by,
                        seq_kind := (if owned_by \<noteq> None then Owned else Standalone)\<rparr>))
                  | other \<Rightarrow> other) s2
      in case owned_by of
           Some (table, column) \<Rightarrow> on_graph (add_edge (owner_edge i table column)) s3
         | None \<Rightarrow> s3)"

definition apply_alter_sequence_owned_by ::
  "alter_sequence \<Rightarrow> sequence_state \<Rightarrow> (object_id \<times> string) option \<Rightarrow> unit step" where
  "apply_alter_sequence_owned_by a current owned_by =
     (if seq_kind current = Identity
      then return_with (conflict ''cannot change ownership of an identity sequence'')
      else
        andthen
          (case owned_by of
             None \<Rightarrow> ret ()
           | Some (table, column) \<Rightarrow>
               if oid_schema table \<noteq> oid_schema (as_id a) then return_with other_schema
               else
                 andthen (ensure_owning_table table) (\<lambda>_.
                 andthen (asks (\<lambda>s. l_relations (local s) (oid table))) (\<lambda>entry.
                   case entry of
                     Some (Present r) \<Rightarrow>
                       if \<not> has_column r column then return_with (no_column table column)
                       else if r_owner r \<noteq> seq_owner current then return_with other_owner
                       else ret ()
                   | _ \<Rightarrow> give_up UnknownObjectState)))
          (\<lambda>_. modify (set_owned_by (as_id a) owned_by)))"

definition identity_sequence_fixed :: mutation_result where
  "identity_sequence_fixed = conflict ''cannot alter an identity sequence independently''"

definition alter_sequence_owner :: "alter_sequence \<Rightarrow> sequence_state \<Rightarrow> role_fact \<Rightarrow> unit step" where
  "alter_sequence_owner a current owner =
     (if seq_kind current = Identity then return_with identity_sequence_fixed
      else
        andthen (asks (\<lambda>s. s)) (\<lambda>s.
          case role_fact_identity s owner of
            None \<Rightarrow> give_up UnresolvedReference
          | Some (owner_name, known) \<Rightarrow>
              if known \<and> l_roles_known (local s) \<and> present_role s owner_name = None
              then return_with (no_such_role owner_name)
              else
                andthen (if known \<and> \<not> l_roles_known (local s) then coverage_gap else ret ()) (\<lambda>_.
                andthen
                  (case seq_owned_by current of
                     None \<Rightarrow> ret ()
                   | Some (table, _) \<Rightarrow>
                       andthen (ensure_owning_table table) (\<lambda>_.
                       andthen (asks (\<lambda>s. l_relations (local s) (oid table))) (\<lambda>entry.
                         case entry of
                           Some (Present r) \<Rightarrow> if name_of (r_owner r) \<noteq> owner_name then return_with other_owner else ret ()
                         | _ \<Rightarrow> give_up UnknownObjectState)))
                  (\<lambda>_. modify (update_sequence (oid (as_id a)) (\<lambda>q. q\<lparr>seq_owner := Oid [] owner_name\<rparr>))))))"

text \<open>The updates after \<^verbatim>\<open>snapshot_namespace\<close>.\<close>

definition move_sequence_entry :: "oid \<Rightarrow> oid \<Rightarrow> analysis_state \<Rightarrow> analysis_state" where
  "move_sequence_entry old new s =
     s\<lparr>local := (local s)\<lparr>l_sequences :=
        (case l_sequences (local s) old of
           Some (Present q) \<Rightarrow> (l_sequences (local s))(old := None, new := Some (Present (q\<lparr>seq_id := new\<rparr>)))
         | _ \<Rightarrow> l_sequences (local s))\<rparr>\<rparr>"

definition move_baseline_sequence :: "oid \<Rightarrow> oid \<Rightarrow> analysis_state \<Rightarrow> analysis_state" where
  "move_baseline_sequence old new s =
     s\<lparr>baseline_sequences :=
        (if old \<in> baseline_sequences s then insert new (baseline_sequences s - {old}) else baseline_sequences s)\<rparr>"

definition rename_sequence_graph :: "oid \<Rightarrow> oid \<Rightarrow> dependency_graph \<Rightarrow> dependency_graph" where
  "rename_sequence_graph old new g = add_edge (edge_new old new RenameTo) (propagate_sequence_rename old new g)"

definition move_sequence :: "oid \<Rightarrow> oid \<Rightarrow> analysis_state \<Rightarrow> analysis_state" where
  "move_sequence old new s =
     move_baseline_sequence old new
       (on_graph (rename_sequence_graph old new) (move_sequence_entry old new (snapshot_namespace s)))"

definition alter_sequence_name :: "alter_sequence \<Rightarrow> sequence_state \<Rightarrow> object_id \<Rightarrow> unit step" where
  "alter_sequence_name a current new_id =
     (if seq_kind current = Identity then return_with identity_sequence_fixed
      else
        andthen (ensure (ensure_schema_target (oid_schema new_id))) (\<lambda>_.
        andthen (asks (\<lambda>s. relation_namespace_is_taken s (oid new_id))) (\<lambda>taken.
          if taken then return_with (name_taken new_id)
          else if (case seq_owned_by current of Some (table, _) \<Rightarrow> oid_schema table \<noteq> oid_schema new_id | None \<Rightarrow> False)
          then return_with other_schema
          else modify (move_sequence (oid (as_id a)) (oid new_id)))))"

definition alter_sequence_effect :: "alter_sequence \<Rightarrow> sequence_state \<Rightarrow> unit step" where
  "alter_sequence_effect a current =
     (case find_owned_by (as_options a) of
        Some owned_by \<Rightarrow> apply_alter_sequence_owned_by a current owned_by
      | None \<Rightarrow>
          (case as_action a of
             Some (OwnerTo owner) \<Rightarrow> alter_sequence_owner a current owner
           | Some (RenameSequenceTo new_id) \<Rightarrow> alter_sequence_name a current new_id
           | Some (SetSequenceSchema new_id) \<Rightarrow> alter_sequence_name a current new_id
           | None \<Rightarrow> ret ()))"

definition apply_alter_sequence :: "alter_sequence \<Rightarrow> unit step" where
  "apply_alter_sequence a =
     andthen (find_sequence a) (\<lambda>current.
       case merged_parameters (seq_parameters current) (as_options a) of
         Inl r \<Rightarrow> return_with r
       | Inr (option_set, merged) \<Rightarrow>
           (let restart = restart_runtime option_set merged
            in andthen (check_current_value current merged restart) (\<lambda>_.
               andthen
                 (if merged \<noteq> seq_parameters current \<or> restart \<noteq> None
                  then modify (update_sequence (oid (as_id a)) (with_parameters merged restart))
                  else ret ())
                 (\<lambda>_. alter_sequence_effect a current))))"

section \<open>DROP SEQUENCE\<close>

record drop_sequences =
  ds_ids :: "object_id list"
  ds_if_exists :: bool
  ds_cascade :: bool

definition check_extension_member :: "hash_order \<Rightarrow> object_id \<Rightarrow> unit step" where
  "check_extension_member h i =
     andthen (asks (\<lambda>s. extension_member_drop_conflict h s MemberSequence i ''sequence'')) (\<lambda>r.
       case r of Some r \<Rightarrow> return_with r | None \<Rightarrow> ret ())"

definition check_dropped_sequence :: "drop_sequences \<Rightarrow> object_id \<Rightarrow> unit step" where
  "check_dropped_sequence d i =
     andthen (asks (\<lambda>s. sequence_lookup s i)) (\<lambda>lookup.
       case lookup of
         LookupPresent \<Rightarrow> ret ()
       | WrongKind \<Rightarrow> give_up UnknownObjectState
       | AuthoritativelyAbsent \<Rightarrow> if ds_if_exists d then ret () else return_with (no_sequence i)
       | Tombstone \<Rightarrow> if ds_if_exists d then ret () else return_with (no_sequence i)
       | LookupUnknown \<Rightarrow> give_up UnknownObjectState)"

definition has_default_dependencies :: "analysis_state \<Rightarrow> oid \<Rightarrow> bool" where
  "has_default_dependencies s i =
     list_ex
       (\<lambda>e. referenced e = i \<and> (case edge_kind e of ColumnDefaultOnSequence _ \<Rightarrow> True | _ \<Rightarrow> False)
          \<and> resolve_rename (graph_of s) (dependent e) \<notin> co_dropped_objects s)
       (edges (graph_of s))"

definition check_sequence_dependents :: "drop_sequences \<Rightarrow> object_id \<Rightarrow> unit step" where
  "check_sequence_dependents d i =
     andthen (asks (\<lambda>s. s)) (\<lambda>s.
       case present_sequence s (oid i) of
         None \<Rightarrow> ret ()
       | Some q \<Rightarrow>
           if seq_kind q = Identity
           then return_with (conflict (''cannot drop identity sequence '' @ quoted (object_id_display i) @ '' independently''))
           else if (seq_kind q = SerialLike \<or> has_default_dependencies s (oid i)) \<and> \<not> ds_cascade d
           then return_with (conflict (''sequence '' @ quoted (object_id_display i) @ '' still has dependent defaults''))
           else ret ())"

definition sequences_dropped_with_defaults ::
  "analysis_state \<Rightarrow> object_id list \<Rightarrow> (oid \<times> sequence_kind \<times> (object_id \<times> string) option) list" where
  "sequences_dropped_with_defaults s targets =
     List.map_filter
       (\<lambda>i. map_option (\<lambda>q. (oid i, seq_kind q, seq_owned_by q)) (present_sequence s (oid i))) targets"

definition without_dropped_sequences :: "oid set \<Rightarrow> dependency_edge \<Rightarrow> bool" where
  "without_dropped_sequences targets e =
     (\<not> (case edge_kind e of
           SequenceOwnedBy _ \<Rightarrow> dependent e \<in> targets
         | ColumnDefaultOnSequence _ \<Rightarrow> referenced e \<in> targets
         | _ \<Rightarrow> False))"

definition sequence_baseline_incomplete :: "analysis_state \<Rightarrow> oid \<Rightarrow> bool" where
  "sequence_baseline_incomplete s i \<longleftrightarrow>
     i \<in> baseline_sequences s
     \<and> (\<not> coverage_has (baseline_coverage s) FamDependencies \<or> baseline_scoped_family_object s i FamSequences)"

definition apply_drop_sequence :: "hash_order \<Rightarrow> drop_sequences \<Rightarrow> unit step" where
  "apply_drop_sequence h d =
     andthen (for_each (check_extension_member h) (ds_ids d)) (\<lambda>_.
     andthen (for_each (check_dropped_sequence d) (ds_ids d)) (\<lambda>_.
     andthen (asks (\<lambda>s. filter (\<lambda>i. sequence_is_present s (oid i)) (ds_ids d))) (\<lambda>targets.
       if targets = [] then return_with NoOp
       else
         andthen (asks (\<lambda>s. list_ex (\<lambda>i. sequence_baseline_incomplete s (oid i)) targets)) (\<lambda>incomplete.
           if incomplete then give_up CatalogCoverageIncomplete
           else
             andthen (for_each (check_sequence_dependents d) targets) (\<lambda>_.
             andthen
               (if ds_cascade d
                then andthen (asks (\<lambda>s. sequences_dropped_with_defaults s targets)) (\<lambda>qs.
                       modify (fold (clear_sequence_defaults_on_cascade h) qs))
                else ret ()) (\<lambda>_.
             andthen (modify (fold (\<lambda>i. drop_sequence (oid i)) targets)) (\<lambda>_.
               modify (retain_graph (without_dropped_sequences (oid ` set targets))))))))))"

section \<open>The handlers log what they change and end\<close>

lemma sequence_lookup_kind: "sequence_lookup s i \<noteq> WrongKind"
  by (simp add: sequence_lookup_def split: option.splits overlay.splits)

lemma sequence_lookup_present: "sequence_lookup s i = LookupPresent \<Longrightarrow> present_sequence s (oid i) \<noteq> None"
  by (auto simp: sequence_lookup_def present_sequence_def split: option.splits overlay.splits if_splits)

lemma logged_snapshot_sequence: "logged s (snapshot_sequence i s)"
  by (rule logged_change [where ch = "\<lambda>s. SequenceSnapshot i (l_sequences (local s) i)"])
    (simp_all add: snapshot_defs core_def log_change_def mrestore_def)

lemma begin_creation_logged: "logged s (begin_creation i s)"
  unfolding begin_creation_def by (rule logged_trans [OF logged_snapshot_sequence bump_generation_logged])

lemma insert_sequence_logged: "logged s (insert_sequence c p s)"
  by (rule loggedI [where d = "[SequenceSnapshot (oid (cs_id c)) (l_sequences (local s) (oid (cs_id c))),
        GenerationCounterSnapshot (l_generation_counter (local s))]"])
    (simp_all add: insert_sequence_def begin_creation_def bump_generation_def put_sequence_def upd_local_def
      snapshot_defs log_change_def undo_simps core_def rollback_undo_log_def Let_def mrestore_def)

lemma update_sequence_logged: "logged s (update_sequence i f s)"
  unfolding update_sequence_def put_sequence_def by (rule logged_sequence)

lemma add_owner_edge_logged: "logged s (add_owner_edge i w s)"
  using logged_graph_add [of s "[e]" for e] by (auto simp: add_owner_edge_def split: option.splits)

definition owner_graph :: "object_id \<Rightarrow> (object_id \<times> string) option \<Rightarrow> dependency_graph \<Rightarrow> dependency_graph" where
  "owner_graph i w g =
     (let g1 = retain_edges (\<lambda>e. \<not> ((case edge_kind e of SequenceOwnedBy _ \<Rightarrow> True | _ \<Rightarrow> False) \<and> dependent e = oid i)) g
      in case w of Some (table, column) \<Rightarrow> add_edge (owner_edge i table column) g1 | None \<Rightarrow> g1)"

lemma set_owned_by_eq:
  "set_owned_by i w s =
     on_graph (owner_graph i w) (snapshot_graph_full
       (update_sequence (oid i) (\<lambda>q. q\<lparr>seq_owned_by := w, seq_kind := (if w \<noteq> None then Owned else Standalone)\<rparr>) s))"
  by (cases w) (auto simp: set_owned_by_def owner_graph_def update_sequence_def put_sequence_def upd_local_def on_graph_def
      snapshot_defs log_change_def Let_def)

lemma set_owned_by_logged: "logged s (set_owned_by i w s)"
proof -
  have "graph_wf g \<Longrightarrow> graph_wf (owner_graph i w g)" for g
    by (auto simp: owner_graph_def Let_def graph_wf_add graph_wf_retain split: option.splits)
  then show ?thesis unfolding set_owned_by_eq
    by (rule logged_trans [OF update_sequence_logged logged_graph_full])
qed

lemma move_sequence_logged: "logged s (move_sequence i n s)"
proof -
  let ?g = "on_graph (rename_sequence_graph i n)"
  have g: "in_namespace ?g"
    by (rule in_namespace_graph) (simp add: rename_sequence_graph_def propagate_sequence_rename_def graph_wf_add graph_wf_rewrite)
  have q: "in_namespace (move_sequence_entry i n)" unfolding move_sequence_entry_def by (rule in_namespace_sequences)
  have b: "in_namespace (move_baseline_sequence i n)"
    unfolding move_baseline_sequence_def by (rule in_namespace_baseline_sequences)
  show ?thesis unfolding move_sequence_def
    by (rule logged_namespace [OF in_namespace_comp [OF in_namespace_comp [OF q g] b]])
qed

lemma clear_default_logged: "logged s (clear_default k s)"
  by (simp add: clear_default_def logged_relation split: prod.splits)

lemma clear_sequence_defaults_logged: "logged s (clear_sequence_defaults_on_cascade h q s)"
  by (cases q) (simp add: clear_sequence_defaults_on_cascade_def logged_fold clear_default_logged)

lemmas sequence_updates_logged =
  begin_creation_logged insert_sequence_logged update_sequence_logged add_owner_edge_logged set_owned_by_logged
  move_sequence_logged retain_graph_logged


lemma keeps_owning_table [holds_intros]: "holds logged (ensure_owning_table table)"
  unfolding ensure_owning_table_def by (intro holds_intros)

lemma keeps_create_sequence: "holds logged (apply_create_sequence c)"
proof -
  have "holds logged (check_new_owner c)"
    by (cases "cs_owned_by c") (auto simp: check_new_owner_def intro!: holds_intros split: prod.split)
  then show ?thesis unfolding apply_create_sequence_def
    by (cases "created_parameters c") (auto intro!: holds_intros sequence_updates_logged)
qed

lemma keeps_find_sequence: "holds logged (find_sequence a)"
  unfolding find_sequence_def by (intro holds_intros)

lemma keeps_alter_sequence_owned_by: "holds logged (apply_alter_sequence_owned_by a q w)"
  unfolding apply_alter_sequence_owned_by_def
  by (cases w) (auto intro!: holds_intros sequence_updates_logged)

lemma keeps_alter_sequence_owner: "holds logged (alter_sequence_owner a q r)"
proof -
  have "holds logged (case seq_owned_by q of None \<Rightarrow> ret () | Some (table, _) \<Rightarrow>
      andthen (ensure_owning_table table) (\<lambda>_. andthen (asks (\<lambda>s. l_relations (local s) (oid table))) (\<lambda>entry.
        case entry of Some (Present r) \<Rightarrow> if name_of (r_owner r) \<noteq> owner_name then return_with other_owner else ret ()
        | _ \<Rightarrow> give_up UnknownObjectState)))" for owner_name
    by (cases "seq_owned_by q") (auto intro!: holds_intros)
  then show ?thesis unfolding alter_sequence_owner_def
    by (auto intro!: holds_intros sequence_updates_logged logging.holds_coverage_gap split: prod.split)
qed

lemma keeps_alter_sequence_name: "holds logged (alter_sequence_name a q n)"
  unfolding alter_sequence_name_def by (intro holds_intros sequence_updates_logged)

lemma keeps_alter_sequence: "holds logged (apply_alter_sequence a)"
proof -
  have "holds logged (alter_sequence_effect a q)" for q
    by (auto simp: alter_sequence_effect_def keeps_alter_sequence_owned_by keeps_alter_sequence_owner
        keeps_alter_sequence_name holds_intros split: option.split alter_sequence_action.split)
  moreover have "holds logged (check_current_value q p r)" for q p r
    unfolding check_current_value_def by (intro holds_intros)
  ultimately show ?thesis unfolding apply_alter_sequence_def Let_def
    by (auto intro!: holds_intros sequence_updates_logged keeps_find_sequence split: sum.split)
qed

lemma keeps_drop_sequence: "holds logged (apply_drop_sequence h d)"
  unfolding apply_drop_sequence_def check_extension_member_def check_dropped_sequence_def check_sequence_dependents_def
  by (intro holds_intros sequence_updates_logged logged_fold clear_sequence_defaults_logged drop_steps_logged)


lemma total_sequence_handlers:
  "total (apply_create_sequence c)" "total (apply_alter_sequence a)" "total (apply_drop_sequence h d)"
proof -
  show "total (apply_create_sequence c)"
    unfolding apply_create_sequence_def check_new_owner_def ensure_owning_table_def by (intro total_intros)
  have "total (alter_sequence_effect a q)" for q
    unfolding alter_sequence_effect_def
    by (auto simp: apply_alter_sequence_owned_by_def alter_sequence_owner_def alter_sequence_name_def coverage_gap_def
        ensure_owning_table_def intro!: total_intros split: alter_sequence_action.split)
  then show "total (apply_alter_sequence a)"
    unfolding apply_alter_sequence_def find_sequence_def check_current_value_def Let_def by (intro total_intros)
  show "total (apply_drop_sequence h d)"
    unfolding apply_drop_sequence_def check_extension_member_def check_dropped_sequence_def check_sequence_dependents_def
    by (intro total_intros)
qed

end
