(* ===== verification/Maintenance.thy ===== *)
theory Maintenance
  imports Sequences
begin

text \<open>
  Statements that check their targets and change little of the catalogue
  (\<^verbatim>\<open>src/src/_internal/analysis/state/apply_misc.rs\<close>): \<^verbatim>\<open>LOCK\<close>, \<^verbatim>\<open>TRUNCATE\<close>, \<^verbatim>\<open>REINDEX\<close>, \<^verbatim>\<open>VACUUM\<close>, the database
  statements and the statistics target of an index column.
\<close>

record relation_target =
  tgt_id :: object_id
  tgt_only :: bool

datatype lock_mode =
    AccessShare | RowShare | RowExclusive | ShareUpdateExclusive | Share | ShareRowExclusive | Exclusive | AccessExclusive

record lock_table =
  lk_targets :: "relation_target list"
  lk_mode :: lock_mode
  lk_nowait :: bool

record truncate_mutation =
  tru_targets :: "relation_target list"
  tru_cascade :: bool
  tru_restart_identity :: bool

record drop_database =
  ddb_id :: object_id
  ddb_if_exists :: bool

datatype reindex_target =
    ReindexDatabase string | ReindexSchema string | ReindexSystem "string option" | ReindexTable object_id | ReindexIndex object_id

section \<open>LOCK and TRUNCATE\<close>

definition ensure_target :: "string \<Rightarrow> (relation_kind \<Rightarrow> bool) \<Rightarrow> relation_target \<Rightarrow> unit step" where
  "ensure_target what expected t =
     ensure (ensure_relation_target (tgt_id t) expected
       (what @ '' relation '' @ quoted (object_id_display (tgt_id t)) @ '' does not exist'')
       (what @ '' relation '' @ quoted (object_id_display (tgt_id t)) @ '' is not a table''))"

definition apply_lock_table :: "lock_table \<Rightarrow> unit step" where
  "apply_lock_table l = for_each (ensure_target ''locked'' (\<lambda>kind. kind = Table)) (lk_targets l)"

definition owned_by_truncated :: "truncate_mutation \<Rightarrow> analysis_state \<Rightarrow> oid \<Rightarrow> bool" where
  "owned_by_truncated t s i =
     (case present_sequence s i of
        Some q \<Rightarrow>
          (case seq_owned_by q of
             Some (table, _) \<Rightarrow> tru_cascade t \<or> oid table \<in> (\<lambda>x. oid (tgt_id x)) ` set (tru_targets t)
           | None \<Rightarrow> False)
      | None \<Rightarrow> False)"

definition forget_runtime :: "oid \<Rightarrow> analysis_state \<Rightarrow> analysis_state" where
  "forget_runtime i = update_sequence i (\<lambda>q. q\<lparr>seq_runtime := sequence_runtime_unknown, seq_runtime_exact := False\<rparr>)"

definition apply_truncate :: "hash_order \<Rightarrow> truncate_mutation \<Rightarrow> unit step" where
  "apply_truncate h t =
     andthen (for_each (ensure_target ''truncated'' is_table_like) (tru_targets t)) (\<lambda>_.
       if tru_restart_identity t
       then
         andthen (asks (\<lambda>s. filter (owned_by_truncated t s) (ho_ids h (dom (l_sequences (local s)))))) (\<lambda>owned.
         andthen (modify (fold forget_runtime owned)) (\<lambda>_. modify (taint UnmodeledState ChainScope)))
       else ret ())"

section \<open>Databases and VACUUM\<close>

definition apply_create_database :: "unit step" where
  "apply_create_database = modify (taint UnmodeledState ChainScope)"

definition apply_alter_database :: "unit step" where
  "apply_alter_database = modify (taint UnmodeledState ChainScope)"

definition apply_drop_database :: "unit step" where
  "apply_drop_database = modify (taint UnmodeledState ChainScope)"

definition apply_vacuum :: "unit step" where
  "apply_vacuum = modify (taint UnsupportedSemantics StatementScope)"

definition apply_alter_index_all_in_tablespace :: "unit step" where
  "apply_alter_index_all_in_tablespace = ret ()"

section \<open>REINDEX\<close>

fun reindex_target_database_name :: "reindex_target \<Rightarrow> string option" where
  "reindex_target_database_name (ReindexDatabase name) = (if name \<noteq> [] then Some name else None)"
| "reindex_target_database_name (ReindexSystem (Some name)) = (if name \<noteq> [] then Some name else None)"
| "reindex_target_database_name _ = None"

definition in_transaction :: "analysis_state \<Rightarrow> bool" where
  "in_transaction s \<longleftrightarrow> length (transactions s) > 0"

fun target_is_catalog :: "reindex_target \<Rightarrow> bool" where
  "target_is_catalog (ReindexTable i) = (oid_schema i = ''pg_catalog'')"
| "target_is_catalog (ReindexIndex i) = (oid_schema i = ''pg_catalog'')"
| "target_is_catalog _ = False"

definition relation_is_partitioned :: "analysis_state \<Rightarrow> oid \<Rightarrow> bool" where
  "relation_is_partitioned s i =
     (case l_relations (local s) i of Some (Present r) \<Rightarrow> r_partition_type r \<noteq> None | _ \<Rightarrow> False)"

definition index_definition_of :: "dependency_graph \<Rightarrow> oid \<Rightarrow> index_definition option" where
  "index_definition_of g i =
     (case List.find (\<lambda>e. dependent e = i \<and> is_index_kind (edge_kind e)) (edges g) of
        Some e \<Rightarrow> (case edge_kind e of IndexOnRelation d _ _ _ _ _ \<Rightarrow> Some d | _ \<Rightarrow> None)
      | None \<Rightarrow> None)"

definition mark_index_valid :: "oid \<Rightarrow> analysis_state \<Rightarrow> analysis_state" where
  "mark_index_valid i s =
     (case index_definition_of (graph_of s) i of
        None \<Rightarrow> s
      | Some d \<Rightarrow>
          if is_usable d then s
          else if (case index_table_of (graph_of s) i of
                     Some table \<Rightarrow> partitions_of (graph_of s) table \<noteq> []
                   | None \<Rightarrow> False)
          then s
          else on_graph (update_index_definition i (\<lambda>d. d\<lparr>idx_valid := True, idx_ready := True, idx_live := True\<rparr>))
                 (snapshot_graph_full s))"

definition no_system_concurrently :: mutation_result where
  "no_system_concurrently = conflict ''cannot reindex system catalogs concurrently''"

definition reindex_form :: "reindex_target \<Rightarrow> string" where
  "reindex_form t =
     (case t of ReindexSchema _ \<Rightarrow> ''REINDEX SCHEMA'' | ReindexSystem _ \<Rightarrow> ''REINDEX SYSTEM'' | _ \<Rightarrow> ''REINDEX DATABASE'')"

fun is_system :: "reindex_target \<Rightarrow> bool" where
  "is_system (ReindexSystem _) = True"
| "is_system _ = False"

definition check_reindex_database :: "reindex_target \<Rightarrow> unit step" where
  "check_reindex_database t =
     (case reindex_target_database_name t of
        None \<Rightarrow> ret ()
      | Some named \<Rightarrow>
          andthen (asks st_target_database) (\<lambda>current.
            case current of
              Some c \<Rightarrow>
                if c \<noteq> named
                then return_with (conflict (''can only reindex the currently open database, not '' @ quoted named))
                else ret ()
            | None \<Rightarrow> modify (taint UnknownObjectState StatementScope)))"

definition reindex_many :: "reindex_target \<Rightarrow> bool \<Rightarrow> unit step" where
  "reindex_many t concurrently =
     andthen (asks in_transaction) (\<lambda>inside.
       if inside then return_with (conflict (reindex_form t @ '' cannot run inside a transaction block''))
       else if is_system t \<and> concurrently then return_with no_system_concurrently
       else andthen (check_reindex_database t) (\<lambda>_. modify (taint UnsupportedSemantics StatementScope)))"

definition reindex_table :: "object_id \<Rightarrow> unit step" where
  "reindex_table i =
     andthen (ensure (ensure_relation_target i (\<lambda>kind. kind = Table \<or> kind = MaterializedView)
       (''reindexed relation '' @ quoted (object_id_display i) @ '' does not exist'')
       ([dquote] @ object_id_display i @ [dquote] @ '' is not a table or materialized view''))) (\<lambda>_.
     andthen (asks (\<lambda>s. relation_is_partitioned s (oid i) \<and> in_transaction s)) (\<lambda>refused.
       if refused then return_with (conflict ''REINDEX TABLE cannot run inside a transaction block'') else ret ()))"

definition reindex_index :: "object_id \<Rightarrow> unit step" where
  "reindex_index i =
     andthen (asks (\<lambda>s. s)) (\<lambda>s.
       if \<not> index_is_present s (oid i)
       then if baseline_covers_family_object s (oid i) FamIndexes
            then return_with (conflict (''reindexed index '' @ quoted (object_id_display i) @ '' does not exist''))
            else modify (taint UnknownObjectState ChainScope)
       else modify (mark_index_valid (oid i)))"

definition apply_reindex :: "reindex_target option \<Rightarrow> bool \<Rightarrow> unit step" where
  "apply_reindex target concurrently =
     (case target of
        None \<Rightarrow> modify (taint UnsupportedSemantics StatementScope)
      | Some t \<Rightarrow>
          (case t of
             ReindexTable i \<Rightarrow>
               if concurrently \<and> target_is_catalog t then return_with no_system_concurrently else reindex_table i
           | ReindexIndex i \<Rightarrow>
               if concurrently \<and> target_is_catalog t then return_with no_system_concurrently else reindex_index i
           | _ \<Rightarrow> reindex_many t concurrently))"

section \<open>Statistics targets of index columns\<close>

datatype statistics_target = StatisticsDefault | StatisticsValue "32 word"

definition index_has_expression_keys :: "analysis_state \<Rightarrow> oid \<Rightarrow> bool option" where
  "index_has_expression_keys s i =
     (case index_definition_of (graph_of s) i of
        None \<Rightarrow> None
      | Some d \<Rightarrow> if idx_unestablished d then None else Some (has_expression_keys d))"

definition apply_alter_index_set_statistics :: "object_id \<Rightarrow> string \<Rightarrow> statistics_target \<Rightarrow> unit step" where
  "apply_alter_index_set_statistics i column target =
     (case target of
        StatisticsDefault \<Rightarrow> ret ()
      | StatisticsValue v \<Rightarrow>
          if sint v < -1
          then return_with (conflict (''statistics target '' @ show_int (sint v) @ '' is too low''))
          else if sint v > 10000 then modify (taint UnmodeledState StatementScope)
          else andthen (asks (\<lambda>s. index_has_expression_keys s (oid i))) (\<lambda>known.
                 if known = Some False
                 then return_with (conflict (''cannot alter statistics on non-expression column '' @ [dquote] @ column @ [dquote]
                        @ '' of index '' @ [dquote] @ object_id_display i @ [dquote]))
                 else ret ()))"

section \<open>The handlers log what they change and end\<close>

lemma mark_index_valid_logged: "logged s (mark_index_valid i s)"
  by (auto simp: mark_index_valid_def update_index_definition_def intro!: logged_graph_full graph_wf_mutate split: option.split)

lemma forget_runtime_logged: "logged s (forget_runtime i s)"
  by (simp add: forget_runtime_def update_sequence_logged)

lemma keeps_maintenance:
  "holds logged (apply_lock_table l)" "holds logged (apply_truncate h t)" "holds logged apply_create_database"
  "holds logged apply_alter_database" "holds logged apply_drop_database" "holds logged apply_vacuum"
  "holds logged (apply_reindex target c)"
  "holds logged (apply_alter_index_set_statistics i column st)" "holds logged apply_alter_index_all_in_tablespace"
proof -
  show "holds logged (apply_lock_table l)" unfolding apply_lock_table_def ensure_target_def by (intro holds_intros)
  show "holds logged (apply_truncate h t)" unfolding apply_truncate_def ensure_target_def
    by (intro holds_intros logged_fold forget_runtime_logged)
  have "holds logged (check_reindex_database t)" for t unfolding check_reindex_database_def by (intro holds_intros)
  then show "holds logged (apply_reindex target c)"
    by (auto simp: apply_reindex_def reindex_many_def reindex_table_def reindex_index_def
        intro!: holds_intros mark_index_valid_logged split: reindex_target.split)
  show "holds logged (apply_alter_index_set_statistics i column st)"
    by (auto simp: apply_alter_index_set_statistics_def intro!: holds_intros split: statistics_target.split)
qed (simp_all add: apply_create_database_def apply_alter_database_def apply_drop_database_def apply_vacuum_def
    apply_alter_index_all_in_tablespace_def holds_intros)

lemma total_maintenance:
  "total (apply_lock_table l)" "total (apply_truncate h t)" "total apply_create_database"
  "total apply_alter_database" "total apply_drop_database" "total apply_vacuum"
  "total (apply_reindex target c)"
  "total (apply_alter_index_set_statistics i column st)" "total apply_alter_index_all_in_tablespace"
proof -
  show "total (apply_reindex target c)"
    by (auto simp: apply_reindex_def reindex_many_def reindex_table_def reindex_index_def check_reindex_database_def
        intro!: total_intros split: reindex_target.split)
  show "total (apply_alter_index_set_statistics i column st)"
    by (auto simp: apply_alter_index_set_statistics_def intro!: total_intros split: statistics_target.split)
qed (auto simp: apply_create_database_def apply_alter_database_def apply_drop_database_def apply_vacuum_def
    apply_lock_table_def apply_truncate_def ensure_target_def
    apply_alter_index_all_in_tablespace_def intro!: total_intros)

end
