(* ===== verification/Triggers.thy ===== *)
theory Triggers
  imports Handlers Session Drop_Table
begin

text \<open>
  Policies and triggers (\<^verbatim>\<open>src/src/_internal/analysis/state/apply_policy_trigger.rs\<close>). A trigger lives
  in three places: the trigger catalogue under a key made of its table and its name, the set of
  trigger names of the table, and the edge of the dependency graph. The handlers keep them in step.
\<close>

section \<open>Policies\<close>

datatype policy_command = PolicyAll | PolicySelect | PolicyInsert | PolicyUpdate | PolicyDelete

record create_policy =
  cp_name :: string
  cp_table :: object_id
  cp_permissive :: bool
  cp_command :: policy_command
  cp_semantics_complete :: bool

record drop_policy =
  dp_name :: string
  dp_table :: object_id
  dp_if_exists :: bool

definition ensure_policy_table :: "object_id \<Rightarrow> unit step" where
  "ensure_policy_table table =
     ensure (ensure_relation_target table (\<lambda>kind. kind = Table)
       (''policy relation '' @ quoted (object_id_display table) @ '' does not exist'')
       (''policy relation '' @ quoted (object_id_display table) @ '' is not a table''))"

definition no_relation :: "object_id \<Rightarrow> mutation_result" where
  "no_relation i = conflict (''relation '' @ quoted (object_id_display i) @ '' does not exist'')"

definition on_relation :: "string \<Rightarrow> string \<Rightarrow> string \<Rightarrow> object_id \<Rightarrow> mutation_result" where
  "on_relation what name how table =
     conflict (what @ '' '' @ quoted name @ '' '' @ how @ '' on relation '' @ quoted (object_id_display table))"

definition apply_create_policy :: "create_policy \<Rightarrow> unit step" where
  "apply_create_policy c =
     andthen (ensure_policy_table (cp_table c)) (\<lambda>_.
     andthen (asks (\<lambda>s. l_relations (local s) (oid (cp_table c)))) (\<lambda>entry.
     andthen
       (case entry of
          Some (Present r) \<Rightarrow>
            if cp_name c \<in> r_policies r
            then andthen (modify (snapshot_relation (oid (cp_table c)))) (\<lambda>_.
                   return_with (on_relation ''policy'' (cp_name c) ''already exists'' (cp_table c)))
            else modify (update_relation (oid (cp_table c)) (\<lambda>r. r\<lparr>r_policies := insert (cp_name c) (r_policies r)\<rparr>))
        | _ \<Rightarrow>
            andthen (modify (snapshot_relation (oid (cp_table c)))) (\<lambda>_. return_with (no_relation (cp_table c))))
       (\<lambda>_. if \<not> cp_semantics_complete c then modify (taint UnsupportedSemantics ChainScope) else ret ())))"

definition apply_drop_policy :: "drop_policy \<Rightarrow> unit step" where
  "apply_drop_policy d =
     andthen (ensure_policy_table (dp_table d)) (\<lambda>_.
     andthen (asks (\<lambda>s. l_relations (local s) (oid (dp_table d)))) (\<lambda>entry.
       case entry of
         Some (Present r) \<Rightarrow>
           if dp_name d \<notin> r_policies r
           then andthen (modify (snapshot_relation (oid (dp_table d)))) (\<lambda>_.
                  return_with (if dp_if_exists d then NoOp
                    else on_relation ''policy'' (dp_name d) ''does not exist'' (dp_table d)))
           else modify (update_relation (oid (dp_table d)) (\<lambda>r. r\<lparr>r_policies := r_policies r - {dp_name d}\<rparr>))
       | _ \<Rightarrow>
           andthen (modify (snapshot_relation (oid (dp_table d)))) (\<lambda>_. return_with (no_relation (dp_table d)))))"

section \<open>Triggers\<close>

definition trigger_key :: "oid \<Rightarrow> string \<Rightarrow> oid" where
  "trigger_key table name = Oid (schema_of table) (name_of table @ CHR 0x00 # name)"

definition trigger_lookup :: "analysis_state \<Rightarrow> oid \<Rightarrow> object_lookup" where
  "trigger_lookup s i =
     (case l_triggers (local s) i of
        Some (Present _) \<Rightarrow> LookupPresent
      | Some Dropped \<Rightarrow> Tombstone
      | None \<Rightarrow> if baseline_covers_family_object s i FamTriggers then AuthoritativelyAbsent else LookupUnknown)"

record create_trigger =
  ct_name :: string
  ct_table :: object_id
  ct_function_id :: object_id
  ct_row_level :: bool

record drop_trigger_mutation =
  dg_name :: string
  dg_table :: object_id
  dg_if_exists :: bool

record rename_trigger =
  rt_name :: string
  rt_table :: object_id
  rt_new_name :: string

definition ensure_trigger_table :: "object_id \<Rightarrow> unit step" where
  "ensure_trigger_table table =
     ensure (ensure_relation_target table (\<lambda>kind. kind = Table \<or> kind = View)
       (''trigger target relation '' @ quoted (object_id_display table) @ '' does not exist'')
       (''trigger target '' @ quoted (object_id_display table) @ '' is not a table or view''))"

text \<open>\<^verbatim>\<open>split_once('.')\<close>, kept when the schema is \<^verbatim>\<open>pg_catalog\<close>.\<close>

definition strip_catalog :: "string \<Rightarrow> string" where
  "strip_catalog ty =
     (case dropWhile (\<lambda>c. c \<noteq> CHR ''.'') ty of
        [] \<Rightarrow> ty
      | _ # rest \<Rightarrow> if eq_ignore_ascii_case (takeWhile (\<lambda>c. c \<noteq> CHR ''.'') ty) ''pg_catalog'' then rest else ty)"

definition check_trigger_function :: "object_id \<Rightarrow> unit step" where
  "check_trigger_function f =
     andthen (asks (\<lambda>s. l_functions (local s) (oid f))) (\<lambda>entry.
       case entry of
         Some (Present function) \<Rightarrow>
           (let ty = trim (fun_return_type function)
            in if ty = [] \<or> eq_ignore_ascii_case ty ''unknown'' then give_up CatalogCoverageIncomplete
               else if \<not> eq_ignore_ascii_case (strip_catalog ty) ''trigger''
               then return_with (conflict (''trigger function '' @ quoted (object_id_display f) @ '' must return type trigger''))
               else ret ())
       | _ \<Rightarrow> give_up CatalogCoverageIncomplete)"

definition new_trigger :: "create_trigger \<Rightarrow> analysis_state \<Rightarrow> trigger_state" where
  "new_trigger c s =
     \<lparr>trg_name = ct_name c, trg_id = trigger_key (oid (ct_table c)) (ct_name c), trg_table_id = oid (ct_table c),
      trg_function_id = oid (ct_function_id c), trg_row_level = ct_row_level c, trg_parent_trigger_id = None,
      trg_enabled_mode = TriggerOrigin, trg_generation = l_generation_counter (local s)\<rparr>"

definition insert_trigger :: "create_trigger \<Rightarrow> analysis_state \<Rightarrow> analysis_state" where
  "insert_trigger c s =
     (let i = trigger_key (oid (ct_table c)) (ct_name c)
      in upd_local (\<lambda>l. l\<lparr>l_triggers := (l_triggers l)(i := Some (Present (new_trigger c s)))\<rparr>) (snapshot_trigger i s))"

definition trigger_edge :: "create_trigger \<Rightarrow> analysis_state \<Rightarrow> dependency_edge" where
  "trigger_edge c s =
     (let i = trigger_key (oid (ct_table c)) (ct_name c)
      in edge_new i (oid (ct_table c)) (TriggerOnTable i (oid (ct_function_id c)) (l_generation_counter (local s))))"

definition apply_create_trigger :: "create_trigger \<Rightarrow> unit step" where
  "apply_create_trigger c =
     andthen (asks (\<lambda>s. trigger_lookup s (trigger_key (oid (ct_table c)) (ct_name c)))) (\<lambda>lookup.
       if lookup = LookupPresent then return_with (on_relation ''trigger'' (ct_name c) ''already exists'' (ct_table c))
       else
         andthen (ensure_trigger_table (ct_table c)) (\<lambda>_.
         andthen (ensure (ensure_routine_target (ct_function_id c) RoutineFunction
           (''trigger function '' @ quoted (object_id_display (ct_function_id c)) @ '' does not exist'')
           (''trigger target '' @ quoted (object_id_display (ct_function_id c)) @ '' is not a function''))) (\<lambda>_.
         andthen (check_trigger_function (ct_function_id c)) (\<lambda>_.
         andthen (modify bump_generation) (\<lambda>_.
         andthen (modify (insert_trigger c)) (\<lambda>_.
         andthen (modify (update_relation (oid (ct_table c)) (\<lambda>r. r\<lparr>r_triggers := insert (ct_name c) (r_triggers r)\<rparr>))) (\<lambda>_.
           modify (\<lambda>s. on_graph (add_edge (trigger_edge c s)) (snapshot_graph_full s)))))))))"

definition apply_drop_trigger :: "hash_order \<Rightarrow> drop_trigger_mutation \<Rightarrow> unit step" where
  "apply_drop_trigger h d =
     andthen (ensure_trigger_table (dg_table d)) (\<lambda>_.
     (let trigger_id = trigger_key (oid (dg_table d)) (dg_name d);
          member_id = object_id_new (oid_schema (dg_table d)) (oid_name (dg_table d) @ ''.'' @ dg_name d)
      in andthen (asks (\<lambda>s. s)) (\<lambda>s.
           case extension_member_drop_conflict h s MemberTrigger member_id ''trigger'' of
             Some r \<Rightarrow> return_with r
           | None \<Rightarrow>
               if trigger_lookup s trigger_id \<noteq> LookupPresent
               then return_with (if dg_if_exists d then NoOp
                      else on_relation ''trigger'' (dg_name d) ''does not exist'' (dg_table d))
               else
                 andthen (modify (drop_trigger trigger_id)) (\<lambda>_.
                 andthen (modify (update_relation (oid (dg_table d)) (\<lambda>r. r\<lparr>r_triggers := r_triggers r - {dg_name d}\<rparr>))) (\<lambda>_.
                   modify (retain_graph (\<lambda>e. \<not> (is_trigger_kind (edge_kind e) \<and> dependent e = trigger_id))))))))"

text \<open>The four snapshots come first, then the updates.\<close>

definition move_trigger :: "rename_trigger \<Rightarrow> trigger_state \<Rightarrow> analysis_state \<Rightarrow> analysis_state" where
  "move_trigger r trigger s =
     (let table = oid (rt_table r);
          old_id = trigger_key table (rt_name r);
          new_id = trigger_key table (rt_new_name r);
          s1 = snapshot_graph_full (snapshot_relation table (snapshot_trigger new_id (snapshot_trigger old_id s)));
          s2 = upd_local (\<lambda>l. l\<lparr>l_triggers := (l_triggers l)
                 (old_id := None, new_id := Some (Present (trigger\<lparr>trg_id := new_id, trg_name := rt_new_name r\<rparr>)))\<rparr>) s1;
          s3 = upd_local (\<lambda>l. l\<lparr>l_relations := (l_relations l)(table :=
                 (case l_relations l table of
                    Some (Present q) \<Rightarrow>
                      Some (Present (q\<lparr>r_triggers := insert (rt_new_name r) (r_triggers q - {rt_name r})\<rparr>))
                  | other \<Rightarrow> other))\<rparr>) s2
      in on_graph (\<lambda>g. add_edge (edge_new old_id new_id RenameTo) (propagate_trigger_rename old_id new_id g)) s3)"

text \<open>A trigger never looks up as an object of another kind, so that branch is not reached.\<close>

definition apply_rename_trigger :: "rename_trigger \<Rightarrow> unit step" where
  "apply_rename_trigger r =
     andthen (ensure_trigger_table (rt_table r)) (\<lambda>_.
     (let old_id = trigger_key (oid (rt_table r)) (rt_name r);
          new_id = trigger_key (oid (rt_table r)) (rt_new_name r)
      in andthen (asks (\<lambda>s. s)) (\<lambda>s.
           case l_triggers (local s) old_id of
             Some (Present trigger) \<Rightarrow>
               if old_id \<noteq> new_id \<and> trigger_lookup s new_id = LookupPresent
               then return_with (on_relation ''trigger'' (rt_new_name r) ''already exists'' (rt_table r))
               else modify (move_trigger r trigger)
           | _ \<Rightarrow>
               if trigger_lookup s old_id = LookupUnknown then give_up UnknownObjectState
               else return_with (on_relation ''trigger'' (rt_name r) ''does not exist'' (rt_table r)))))"

section \<open>The handlers log what they change and end\<close>

lemma keeps_policies: "holds logged (apply_create_policy c)" "holds logged (apply_drop_policy d)"
  unfolding apply_create_policy_def apply_drop_policy_def ensure_policy_table_def
  by (intro holds_intros update_relation_logged logged_snapshot_relation)+

lemma insert_trigger_logged: "logged s (insert_trigger c s)"
  unfolding insert_trigger_def Let_def by (rule logged_trigger)

lemma add_one_edge_logged: "logged s (on_graph (add_edge e) (snapshot_graph_full s))"
  by (rule logged_graph_full) (rule graph_wf_add)

lemma move_trigger_logged: "logged s (move_trigger r trigger s)"
proof (rule loggedI [where d = "[TriggerSnapshot (trigger_key (oid (rt_table r)) (rt_name r))
          (l_triggers (local s) (trigger_key (oid (rt_table r)) (rt_name r))),
        TriggerSnapshot (trigger_key (oid (rt_table r)) (rt_new_name r))
          (l_triggers (local s) (trigger_key (oid (rt_table r)) (rt_new_name r))),
        RelationSnapshot (oid (rt_table r)) (l_relations (local s) (oid (rt_table r))),
        GraphSnapshot (edges (graph_of s))]"])
qed (auto simp: move_trigger_def upd_local_def on_graph_def snapshot_defs log_change_def undo_simps core_def rollback_undo_log_def
    Let_def mrestore_def graph_clone_eq_iff graph_store.replace_restores graph_wf_add propagate_trigger_rename_def graph_wf_rewrite
    fun_eq_iff)

lemma keeps_triggers:
  "holds logged (apply_create_trigger c)" "holds logged (apply_drop_trigger h d)" "holds logged (apply_rename_trigger r)"
  unfolding apply_create_trigger_def apply_drop_trigger_def apply_rename_trigger_def ensure_trigger_table_def
    check_trigger_function_def Let_def
  by (intro holds_intros bump_generation_logged insert_trigger_logged update_relation_logged add_one_edge_logged
      drop_steps_logged retain_graph_logged move_trigger_logged)+

lemma total_policies_triggers:
  "total (apply_create_policy c)" "total (apply_drop_policy d)"
  "total (apply_create_trigger t)" "total (apply_drop_trigger h g)" "total (apply_rename_trigger r)"
  unfolding apply_create_policy_def apply_drop_policy_def ensure_policy_table_def apply_create_trigger_def
    apply_drop_trigger_def apply_rename_trigger_def ensure_trigger_table_def check_trigger_function_def Let_def
  by (intro total_intros)+

section \<open>Three views of one trigger\<close>

text \<open>Identifiers contain no NUL, so the key of a trigger determines its table and its name.\<close>

definition nul_free :: "string \<Rightarrow> bool" where
  "nul_free n \<longleftrightarrow> CHR 0x00 \<notin> set n"

lemma trigger_key_inject:
  assumes "nul_free (name_of t)" "nul_free (name_of u)"
  shows "trigger_key t n = trigger_key u m \<longleftrightarrow> t = u \<and> n = m"
proof -
  have split: "takeWhile (\<lambda>c. c \<noteq> CHR 0x00) (a @ CHR 0x00 # b) = a" "tl (dropWhile (\<lambda>c. c \<noteq> CHR 0x00) (a @ CHR 0x00 # b)) = b"
    if "CHR 0x00 \<notin> set a" for a b :: string
    using that by (induction a) auto
  show ?thesis
  proof
    assume eq: "trigger_key t n = trigger_key u m"
    then have "name_of t = name_of u" "n = m"
      using assms split [of "name_of t" n] split [of "name_of u" m] by (auto simp: trigger_key_def nul_free_def)
    with eq show "t = u \<and> n = m" by (cases t; cases u) (simp add: trigger_key_def)
  qed simp
qed

definition trigger_named :: "oid \<Rightarrow> trigger_state \<Rightarrow> bool" where
  "trigger_named k q \<longleftrightarrow> trg_id q = k \<and> k = trigger_key (trg_table_id q) (trg_name q) \<and> nul_free (name_of (trg_table_id q))"

definition edge_of_trigger :: "(oid \<rightharpoonup> trigger_state overlay) \<Rightarrow> oid \<Rightarrow> oid \<Rightarrow> oid \<Rightarrow> u64 \<Rightarrow> bool" where
  "edge_of_trigger m k t f g \<longleftrightarrow>
     (\<exists>q. m k = Some (Present q) \<and> trg_table_id q = t \<and> trg_function_id q = f \<and> trg_generation q = g)"

definition triggers_agree ::
  "(oid \<rightharpoonup> relation_state overlay) \<Rightarrow> (oid \<rightharpoonup> trigger_state overlay) \<Rightarrow> dependency_edge set \<Rightarrow> bool" where
  "triggers_agree rels m es \<longleftrightarrow>
     (\<forall>k q. m k = Some (Present q) \<longrightarrow> trigger_named k q)
     \<and> (\<forall>t r n. rels t = Some (Present r) \<longrightarrow> nul_free (name_of t) \<longrightarrow> (n \<in> r_triggers r \<longleftrightarrow> is_present (m (trigger_key t n))))
     \<and> (\<forall>k t k' f g. edge_new k t (TriggerOnTable k' f g) \<in> es \<longleftrightarrow> k' = k \<and> edge_of_trigger m k t f g)"

definition triggers_ok :: "analysis_state \<Rightarrow> bool" where
  "triggers_ok s \<longleftrightarrow>
     graph_wf (graph_of s) \<and> triggers_agree (l_relations (local s)) (l_triggers (local s)) (set (edges (graph_of s)))"

lemma triggers_ok_taint [simp]: "triggers_ok (taint code scope s) = triggers_ok s"
  by (simp add: triggers_ok_def)

text \<open>One trigger name of one table is added to or taken from the three views.\<close>

definition with_names :: "oid \<Rightarrow> (string set \<Rightarrow> string set) \<Rightarrow> (oid \<rightharpoonup> relation_state overlay) \<Rightarrow> (oid \<rightharpoonup> relation_state overlay)" where
  "with_names t f rels =
     rels(t := (case rels t of Some (Present r) \<Rightarrow> Some (Present (r\<lparr>r_triggers := f (r_triggers r)\<rparr>)) | other \<Rightarrow> other))"

lemma is_present_iff: "is_present x \<longleftrightarrow> (\<exists>v. x = Some (Present v))"
  by (cases x rule: is_present.cases) auto

lemma names_agree:
  assumes "triggers_agree rels m es" "nul_free (name_of t)"
    and "\<And>u n. nul_free (name_of u) \<Longrightarrow> u \<noteq> t \<Longrightarrow> is_present (m' (trigger_key u n)) = is_present (m (trigger_key u n))"
    and "\<And>r n. rels t = Some (Present r) \<Longrightarrow> n \<in> f (r_triggers r) \<longleftrightarrow> is_present (m' (trigger_key t n))"
    and "with_names t f rels u = Some (Present r)" "nul_free (name_of u)"
  shows "n \<in> r_triggers r \<longleftrightarrow> is_present (m' (trigger_key u n))"
proof (cases "u = t")
  case True
  then obtain r0 where "rels t = Some (Present r0)" "r = r0\<lparr>r_triggers := f (r_triggers r0)\<rparr>"
    using assms(5) by (auto simp: with_names_def split: option.splits overlay.splits)
  then show ?thesis using assms(4) True by simp
next
  case False
  then have "rels u = Some (Present r)" using assms(5) by (simp add: with_names_def)
  then show ?thesis using assms(1,3,6) False by (simp add: triggers_agree_def)
qed

lemma agree_insert:
  assumes agree: "triggers_agree rels m es" and nf: "nul_free (name_of t)" and absent: "\<not> is_present (m (trigger_key t n))"
    and q: "q = \<lparr>trg_name = n, trg_id = trigger_key t n, trg_table_id = t, trg_function_id = f, trg_row_level = rl,
      trg_parent_trigger_id = None, trg_enabled_mode = mode, trg_generation = g\<rparr>"
  shows "triggers_agree (with_names t (insert n) rels) (m(trigger_key t n := Some (Present q)))
    (insert (edge_new (trigger_key t n) t (TriggerOnTable (trigger_key t n) f g)) es)"
  unfolding triggers_agree_def
proof (intro conjI allI impI)
  let ?k = "trigger_key t n" let ?m = "m(?k := Some (Present q))"
  show "trigger_named k p" if "?m k = Some (Present p)" for k p
    using that agree nf by (auto simp: triggers_agree_def trigger_named_def q split: if_splits)
  show "x \<in> r_triggers r \<longleftrightarrow> is_present (?m (trigger_key u x))"
    if "with_names t (insert n) rels u = Some (Present r)" "nul_free (name_of u)" for u r x
  proof (rule names_agree [OF agree nf _ _ that])
    show "is_present (?m (trigger_key u x)) = is_present (m (trigger_key u x))" if "nul_free (name_of u)" "u \<noteq> t" for u x
      using that trigger_key_inject [OF that(1) nf] by simp
    show "x \<in> insert n (r_triggers r) \<longleftrightarrow> is_present (?m (trigger_key t x))" if "rels t = Some (Present r)" for r x
      using that agree nf trigger_key_inject [OF nf nf] by (auto simp: triggers_agree_def)
  qed
  have none: "\<not> edge_of_trigger m ?k a b c" for a b c
    using absent by (auto simp: edge_of_trigger_def is_present_iff)
  have e: "edge_of_trigger ?m k a b c \<longleftrightarrow> (if k = ?k then a = t \<and> b = f \<and> c = g else edge_of_trigger m k a b c)" for k a b c
    by (auto simp: edge_of_trigger_def q)
  show "edge_new k a (TriggerOnTable k' b c) \<in> insert (edge_new ?k t (TriggerOnTable ?k f g)) es
      \<longleftrightarrow> k' = k \<and> edge_of_trigger ?m k a b c" for k a k' b c
    using agree none unfolding e by (auto simp: triggers_agree_def edge_new_def)
qed

lemma agree_remove:
  assumes agree: "triggers_agree rels m es" and nf: "nul_free (name_of t)" and v: "v = None \<or> v = Some Dropped"
  shows "triggers_agree (with_names t (\<lambda>ns. ns - {n}) rels) (m(trigger_key t n := v))
    {e \<in> es. \<not> (is_trigger_kind (edge_kind e) \<and> dependent e = trigger_key t n)}"
  unfolding triggers_agree_def
proof (intro conjI allI impI)
  let ?k = "trigger_key t n" let ?m = "m(?k := v)"
  show "trigger_named k p" if "?m k = Some (Present p)" for k p
    using that agree v by (auto simp: triggers_agree_def split: if_splits)
  show "x \<in> r_triggers r \<longleftrightarrow> is_present (?m (trigger_key u x))"
    if "with_names t (\<lambda>ns. ns - {n}) rels u = Some (Present r)" "nul_free (name_of u)" for u r x
  proof (rule names_agree [OF agree nf _ _ that])
    show "is_present (?m (trigger_key u x)) = is_present (m (trigger_key u x))" if "nul_free (name_of u)" "u \<noteq> t" for u x
      using that trigger_key_inject [OF that(1) nf] by simp
    show "x \<in> r_triggers r - {n} \<longleftrightarrow> is_present (?m (trigger_key t x))" if "rels t = Some (Present r)" for r x
      using that agree nf trigger_key_inject [OF nf nf] v by (auto simp: triggers_agree_def)
  qed
  have e: "edge_of_trigger ?m k a b c \<longleftrightarrow> k \<noteq> ?k \<and> edge_of_trigger m k a b c" for k a b c
    using v by (auto simp: edge_of_trigger_def)
  show "edge_new k a (TriggerOnTable k' b c) \<in> {e \<in> es. \<not> (is_trigger_kind (edge_kind e) \<and> dependent e = ?k)}
      \<longleftrightarrow> k' = k \<and> edge_of_trigger ?m k a b c" for k a k' b c
    using agree unfolding e by (auto simp: triggers_agree_def edge_new_def)
qed

lemma rename_trigger_edge_kind:
  "is_trigger_kind (edge_kind (rename_trigger_edge i n e)) = is_trigger_kind (edge_kind e)"
  by (simp add: rename_trigger_edge_def Let_def split: dependency_kind.split)

lemma rename_own_edge:
  "rename_trigger_edge i n (edge_new k t (TriggerOnTable k f g)) =
     edge_new (if k = i then n else k) t (TriggerOnTable (if k = i then n else k) f g)"
  by (simp add: rename_trigger_edge_def edge_new_def Let_def)

lemma is_trigger_kind_iff: "is_trigger_kind k \<longleftrightarrow> (\<exists>a b c. k = TriggerOnTable a b c)"
  by (cases k) simp_all

lemma edge_new_eta: "edge_new (dependent e) (referenced e) (edge_kind e) = e"
  by (simp add: edge_new_def)

lemma renamed_edges:
  assumes own: "\<And>k t k' f g. edge_new k t (TriggerOnTable k' f g) \<in> es \<Longrightarrow> k' = k"
  shows "edge_new k t (TriggerOnTable k' f g) \<in> rename_trigger_edge i n ` es \<longleftrightarrow>
    k' = k \<and> (\<exists>j. edge_new j t (TriggerOnTable j f g) \<in> es \<and> k = (if j = i then n else j))"
proof
  assume "edge_new k t (TriggerOnTable k' f g) \<in> rename_trigger_edge i n ` es"
  then obtain e where e: "e \<in> es" "rename_trigger_edge i n e = edge_new k t (TriggerOnTable k' f g)" by (metis imageE)
  then have "is_trigger_kind (edge_kind e)"
    using rename_trigger_edge_kind [of i n e] by (simp add: edge_new_def)
  then obtain j' f' g' where k: "edge_kind e = TriggerOnTable j' f' g'" by (auto simp: is_trigger_kind_iff)
  then have eta: "edge_new (dependent e) (referenced e) (TriggerOnTable j' f' g') = e" using edge_new_eta [of e] by simp
  then have "edge_new (dependent e) (referenced e) (TriggerOnTable j' f' g') \<in> es" using e(1) by simp
  then have "j' = dependent e" by (rule own)
  then obtain j t' where "e = edge_new j t' (TriggerOnTable j f' g')" using eta by metis
  then show "k' = k \<and> (\<exists>j. edge_new j t (TriggerOnTable j f g) \<in> es \<and> k = (if j = i then n else j))"
    using e rename_own_edge [of i n j t' f' g'] by (auto simp: edge_new_def split: if_splits)
next
  assume "k' = k \<and> (\<exists>j. edge_new j t (TriggerOnTable j f g) \<in> es \<and> k = (if j = i then n else j))"
  then obtain j where "k' = k" "edge_new j t (TriggerOnTable j f g) \<in> es" "k = (if j = i then n else j)" by blast
  then show "edge_new k t (TriggerOnTable k' f g) \<in> rename_trigger_edge i n ` es"
    using rename_own_edge [of i n j t f g] by (intro image_eqI [of _ _ "edge_new j t (TriggerOnTable j f g)"]) simp_all
qed

lemma agree_move:
  assumes agree: "triggers_agree rels m es" and nf: "nul_free (name_of t)"
    and q: "m (trigger_key t n) = Some (Present q)" and free: "n' = n \<or> \<not> is_present (m (trigger_key t n'))"
  shows "triggers_agree (with_names t (\<lambda>ns. insert n' (ns - {n})) rels)
    (m(trigger_key t n := None, trigger_key t n' := Some (Present (q\<lparr>trg_id := trigger_key t n', trg_name := n'\<rparr>))))
    (insert (edge_new (trigger_key t n) (trigger_key t n') RenameTo)
      (rename_trigger_edge (trigger_key t n) (trigger_key t n') ` es))"
  unfolding triggers_agree_def
proof (intro conjI allI impI)
  let ?k = "trigger_key t n" and ?l = "trigger_key t n'"
  let ?m = "m(?k := None, ?l := Some (Present (q\<lparr>trg_id := ?l, trg_name := n'\<rparr>)))"
  note inj = trigger_key_inject [OF nf nf]
  have tq: "trg_table_id q = t" "nul_free (name_of (trg_table_id q))"
    using agree q trigger_key_inject [OF nf, of "trg_table_id q"] by (auto simp: triggers_agree_def trigger_named_def)
  show "trigger_named k p" if "?m k = Some (Present p)" for k p
    using that agree tq nf by (auto simp: triggers_agree_def trigger_named_def split: if_splits)
  show "x \<in> r_triggers r \<longleftrightarrow> is_present (?m (trigger_key u x))"
    if "with_names t (\<lambda>ns. insert n' (ns - {n})) rels u = Some (Present r)" "nul_free (name_of u)" for u r x
  proof (rule names_agree [OF agree nf _ _ that])
    show "is_present (?m (trigger_key u x)) = is_present (m (trigger_key u x))" if "nul_free (name_of u)" "u \<noteq> t" for u x
      using that trigger_key_inject [OF that(1) nf] by simp
    show "x \<in> insert n' (r_triggers r - {n}) \<longleftrightarrow> is_present (?m (trigger_key t x))" if "rels t = Some (Present r)" for r x
      using that agree nf inj by (auto simp: triggers_agree_def)
  qed
  have own: "edge_new k a (TriggerOnTable k' b c) \<in> es \<longleftrightarrow> k' = k \<and> edge_of_trigger m k a b c" for k a k' b c
    using agree by (simp add: triggers_agree_def)
  have moved: "edge_of_trigger ?m k a b c \<longleftrightarrow>
      (if k = ?l then edge_of_trigger m ?k a b c else k \<noteq> ?k \<and> edge_of_trigger m k a b c)" for k a b c
    by (auto simp: edge_of_trigger_def q)
  have none: "?l \<noteq> ?k \<Longrightarrow> \<not> edge_of_trigger m ?l a b c" for a b c
    using free by (auto simp: edge_of_trigger_def is_present_iff)
  have image: "edge_new k a (TriggerOnTable k' b c) \<in> rename_trigger_edge ?k ?l ` es \<longleftrightarrow>
      k' = k \<and> (\<exists>j. edge_of_trigger m j a b c \<and> k = (if j = ?k then ?l else j))" for k a k' b c
    by (subst renamed_edges) (auto simp: own)
  show "edge_new k a (TriggerOnTable k' b c) \<in> insert (edge_new ?k ?l RenameTo) (rename_trigger_edge ?k ?l ` es)
      \<longleftrightarrow> k' = k \<and> edge_of_trigger ?m k a b c" for k a k' b c
    unfolding insert_iff image moved using none by (auto simp: edge_new_def)
qed

section \<open>The handlers keep the views in step\<close>

lemma update_names:
  "update_relation t (\<lambda>r. r\<lparr>r_triggers := f (r_triggers r)\<rparr>) s =
     upd_local (\<lambda>l. l\<lparr>l_relations := with_names t f (l_relations l)\<rparr>) (snapshot_relation t s)"
  by (simp add: update_relation_def with_names_def upd_local_def snapshot_defs log_change_def)

lemma trigger_present: "trigger_lookup s k = LookupPresent \<longleftrightarrow> is_present (l_triggers (local s) k)"
  by (auto simp: trigger_lookup_def is_present_iff split: option.splits overlay.splits)

lemma create_trigger_effect:
  assumes "triggers_ok s" "nul_free (oid_name (ct_table c))"
    "trigger_lookup s (trigger_key (oid (ct_table c)) (ct_name c)) \<noteq> LookupPresent"
  shows "triggers_ok ((\<lambda>s. on_graph (add_edge (trigger_edge c s)) (snapshot_graph_full s))
    (update_relation (oid (ct_table c)) (\<lambda>r. r\<lparr>r_triggers := insert (ct_name c) (r_triggers r)\<rparr>)
      (insert_trigger c (bump_generation s))))" (is "triggers_ok ?u")
proof -
  let ?t = "oid (ct_table c)" and ?g = "l_generation_counter (local s) + 1"
  let ?q = "\<lparr>trg_name = ct_name c, trg_id = trigger_key ?t (ct_name c), trg_table_id = ?t, trg_function_id = oid (ct_function_id c),
    trg_row_level = ct_row_level c, trg_parent_trigger_id = None, trg_enabled_mode = TriggerOrigin, trg_generation = ?g\<rparr>"
  have wf: "graph_wf (graph_of s)" using assms(1) by (simp add: triggers_ok_def)
  have nf: "nul_free (name_of ?t)" using assms(2) by (simp add: oid_def)
  have "triggers_agree (l_relations (local ?u)) (l_triggers (local ?u)) (set (edges (graph_of ?u)))"
    using agree_insert [OF _ nf _ refl, of "l_relations (local s)" "l_triggers (local s)" "set (edges (graph_of s))" "ct_name c"
        "oid (ct_function_id c)" "ct_row_level c" TriggerOrigin ?g] assms trigger_present
    unfolding update_names [where f = "insert (ct_name c)"]
    by (simp add: triggers_ok_def on_graph_def upd_local_def insert_trigger_def new_trigger_def trigger_edge_def bump_generation_def
        snapshot_defs log_change_def Let_def set_edges_add [OF wf])
  moreover have "graph_wf (graph_of ?u)"
    using wf by (simp add: on_graph_def update_names [where f = "insert (ct_name c)"] upd_local_def insert_trigger_def bump_generation_def snapshot_defs log_change_def Let_def graph_wf_add)
  ultimately show ?thesis by (simp add: triggers_ok_def)
qed

lemma drop_trigger_effect:
  assumes "triggers_ok s" "nul_free (oid_name (dg_table d))"
  shows "triggers_ok (retain_graph (\<lambda>e. \<not> (is_trigger_kind (edge_kind e) \<and> dependent e = trigger_key (oid (dg_table d)) (dg_name d)))
    (update_relation (oid (dg_table d)) (\<lambda>r. r\<lparr>r_triggers := r_triggers r - {dg_name d}\<rparr>)
      (drop_trigger (trigger_key (oid (dg_table d)) (dg_name d)) s)))"
    (is "triggers_ok ?u")
proof -
  let ?t = "oid (dg_table d)"
  have agree: "triggers_agree (l_relations (local s)) (l_triggers (local s)) (set (edges (graph_of s)))"
    and wf: "graph_wf (graph_of s)" using assms(1) by (simp_all add: triggers_ok_def)
  have nf: "nul_free (name_of ?t)" using assms(2) by (simp add: oid_def)
  note names = update_names [where f = "\<lambda>ns. ns - {dg_name d}"]
  have "l_relations (local ?u) = with_names ?t (\<lambda>ns. ns - {dg_name d}) (l_relations (local s))"
    "l_triggers (local ?u) = (l_triggers (local s))(trigger_key ?t (dg_name d) := Some Dropped)"
    "set (edges (graph_of ?u)) =
       {e \<in> set (edges (graph_of s)). \<not> (is_trigger_kind (edge_kind e) \<and> dependent e = trigger_key ?t (dg_name d))}"
    "graph_wf (graph_of ?u)"
    unfolding names
    by (simp_all add: retain_graph_def on_graph_def upd_local_def drop_trigger_def snapshot_defs log_change_def set_retain
        graph_wf_retain wf)
  then show ?thesis using agree_remove [OF agree nf, of "Some Dropped" "dg_name d"] by (simp add: triggers_ok_def)
qed

lemma move_trigger_effect:
  assumes "triggers_ok s" "nul_free (oid_name (rt_table r))"
    "l_triggers (local s) (trigger_key (oid (rt_table r)) (rt_name r)) = Some (Present q)"
    "trigger_key (oid (rt_table r)) (rt_name r) \<noteq> trigger_key (oid (rt_table r)) (rt_new_name r) \<longrightarrow>
       trigger_lookup s (trigger_key (oid (rt_table r)) (rt_new_name r)) \<noteq> LookupPresent"
  shows "triggers_ok (move_trigger r q s)"
proof -
  let ?t = "oid (rt_table r)"
  have wf: "graph_wf (graph_of s)" using assms(1) by (simp add: triggers_ok_def)
  have nf: "nul_free (name_of ?t)" using assms(2) by (simp add: oid_def)
  have free: "rt_new_name r = rt_name r \<or> \<not> is_present (l_triggers (local s) (trigger_key ?t (rt_new_name r)))"
    using assms(4) trigger_key_inject [OF nf nf] trigger_present by auto
  have agree: "triggers_agree (l_relations (local s)) (l_triggers (local s)) (set (edges (graph_of s)))"
    using assms(1) by (simp add: triggers_ok_def)
  show ?thesis
    using agree_move [OF agree nf assms(3) free]
    by (simp add: triggers_ok_def move_trigger_def upd_local_def on_graph_def snapshot_defs log_change_def Let_def with_names_def
        set_edges_add graph_wf_add propagate_trigger_rename_def graph_wf_rewrite graph_store.edges_rewrite)
qed

lemma create_trigger_ok:
  "triggers_ok s \<Longrightarrow> nul_free (oid_name (ct_table c)) \<Longrightarrow> wp (apply_create_trigger c) (\<lambda>_. triggers_ok) triggers_ok s"
  unfolding apply_create_trigger_def ensure_trigger_table_def check_trigger_function_def Let_def
  by (auto simp: wp_simps split: object_lookup.split option.split overlay.split intro!: create_trigger_effect)

lemma drop_trigger_ok:
  "triggers_ok s \<Longrightarrow> nul_free (oid_name (dg_table d)) \<Longrightarrow> wp (apply_drop_trigger h d) (\<lambda>_. triggers_ok) triggers_ok s"
  unfolding apply_drop_trigger_def ensure_trigger_table_def Let_def
  by (auto simp: wp_simps split: object_lookup.split option.split simp del: not_all de_Morgan_conj intro!: drop_trigger_effect)

lemma rename_trigger_ok:
  "triggers_ok s \<Longrightarrow> nul_free (oid_name (rt_table r)) \<Longrightarrow> wp (apply_rename_trigger r) (\<lambda>_. triggers_ok) triggers_ok s"
  unfolding apply_rename_trigger_def ensure_trigger_table_def Let_def
  by (auto simp: wp_simps split: object_lookup.split option.split overlay.split intro!: move_trigger_effect)

text \<open>
  C32. \<^verbatim>\<open>CREATE\<close>, \<^verbatim>\<open>DROP\<close> and \<^verbatim>\<open>ALTER TRIGGER RENAME\<close> keep the three records of a trigger in step, however
  the statement ends: the catalogue has a trigger under the key of a table and a name exactly when
  the name is in the table's set, and the graph has the edge of a trigger exactly when the catalogue
  has the trigger, with its table, function and generation.
\<close>

theorem trigger_statements_keep_views:
  assumes "triggers_ok s"
    and "m = apply_create_trigger c \<and> nul_free (oid_name (ct_table c))
      \<or> m = apply_drop_trigger h d \<and> nul_free (oid_name (dg_table d))
      \<or> m = apply_rename_trigger r \<and> nul_free (oid_name (rt_table r))"
    and "finish m s = Some (result, t)"
  shows "triggers_ok t"
proof -
  have "wp m (\<lambda>_. triggers_ok) triggers_ok s"
    using assms(1,2) create_trigger_ok drop_trigger_ok rename_trigger_ok by blast
  from wp_finish [OF this assms(3)] show ?thesis by simp
qed

text \<open>A table with a function that can serve as its trigger.\<close>

definition trigger_sample :: analysis_state where
  "trigger_sample = (drop_sample [])\<lparr>local := (local (drop_sample []))\<lparr>l_functions :=
     [Oid ''s'' ''f'' \<mapsto> Present \<lparr>fun_id = Oid ''s'' ''f'', fun_routine_kind = RoutineFunction, fun_arg_types = [],
        fun_arg_type_ids = [], fun_return_type = ''pg_catalog.trigger'', fun_returns_set = False, fun_parameters = [],
        fun_default_count = 0, fun_return_type_id = None, fun_volatility = Volatile, fun_language = ''plpgsql'',
        fun_security = Invoker, fun_internal_type_owner = None, fun_aggregate = None\<rparr>]\<rparr>\<rparr>"

definition sample_trigger :: create_trigger where
  "sample_trigger = \<lparr>ct_name = ''g'', ct_table = object_id_new ''s'' ''t'', ct_function_id = object_id_new ''s'' ''f'', ct_row_level = True\<rparr>"

lemma trigger_sample_ok: "triggers_ok trigger_sample"
proof -
  have "graph_of trigger_sample = graph_of (drop_sample [])" "l_triggers (local trigger_sample) = Map.empty"
    "\<And>t r. l_relations (local trigger_sample) t = Some (Present r) \<Longrightarrow> r_triggers r = {}"
    by (auto simp: trigger_sample_def drop_sample_defs sample_relation_def add_column_def relation_new_def Let_def split: if_splits)
  then show ?thesis
    by (auto simp: triggers_ok_def triggers_agree_def edge_of_trigger_def drop_sample_edges drop_sample_wf)
qed

lemma sample_trigger_applied:
  "\<exists>t. finish (apply_create_trigger sample_trigger) trigger_sample = Some (Applied, t)
     \<and> is_present (l_triggers (local t) (trigger_key (Oid ''s'' ''t'') ''g''))"
proof -
  let ?s = trigger_sample
  have l: "trigger_lookup ?s k \<noteq> LookupPresent" for k
    by (simp add: trigger_lookup_def trigger_sample_def drop_sample_defs)
  have r: "relation_lookup ?s (object_id_new ''s'' ''t'') (\<lambda>kind. kind = Table \<or> kind = View) = LookupPresent"
    by (simp add: relation_lookup_def lookup_shadowed_def object_id_new_def oid_def trigger_sample_def drop_sample_defs
        sample_relation_def add_column_def relation_new_def Let_def)
  have e: "ensure_trigger_table (ct_table sample_trigger) ?s = Some (Inr (), ?s)"
    using r by (simp add: ensure_trigger_table_def ensure_def ensure_relation_target_def sample_trigger_def)
  have f: "ensure (ensure_routine_target (ct_function_id sample_trigger) RoutineFunction m w) ?s = Some (Inr (), ?s)" for m w
    by (simp add: ensure_def ensure_routine_target_def lookup_shadowed_def sample_trigger_def object_id_new_def oid_def trigger_sample_def)
  have t: "trim ''pg_catalog.trigger'' = ''pg_catalog.trigger''" by (simp add: trim_plain byte_def)
  have c: "check_trigger_function (ct_function_id sample_trigger) ?s = Some (Inr (), ?s)"
    by (simp add: check_trigger_function_def andthen_def asks_def ret_def sample_trigger_def object_id_new_def oid_def trigger_sample_def
        t strip_catalog_def eq_ignore_ascii_case_def to_ascii_lowercase_def ascii_lower_def byte_def Let_def)
  show ?thesis
    by (simp add: apply_create_trigger_def finish_def andthen_def asks_def l e f c modify_def)
      (simp add: on_graph_def update_relation_def upd_local_def insert_trigger_def snapshot_defs log_change_def Let_def
        sample_trigger_def object_id_new_def oid_def)
qed

theorem trigger_statements_keep_views_witness:
  "\<exists>t. finish (apply_create_trigger sample_trigger) trigger_sample = Some (Applied, t)
     \<and> is_present (l_triggers (local t) (trigger_key (Oid ''s'' ''t'') ''g'')) \<and> triggers_ok t"
proof -
  have "nul_free (oid_name (ct_table sample_trigger))" by (simp add: nul_free_def sample_trigger_def object_id_new_def)
  then show ?thesis using sample_trigger_applied trigger_statements_keep_views [OF trigger_sample_ok] by blast
qed

text \<open>
  A trigger the catalogue knows nothing about, because the baseline does not cover triggers, is
  treated as missing by \<^verbatim>\<open>DROP TRIGGER\<close>, which conflicts, but as unknown by \<^verbatim>\<open>ALTER TRIGGER RENAME\<close>.
\<close>

theorem unknown_trigger_conflicts_on_drop:
  assumes "relation_lookup s table (\<lambda>kind. kind = Table \<or> kind = View) = LookupPresent"
    and "trigger_lookup s (trigger_key (oid table) name) = LookupUnknown"
    and "dom (l_extensions (local s)) = {}" "ho_names h {} = []"
  shows "finish (apply_drop_trigger h \<lparr>dg_name = name, dg_table = table, dg_if_exists = False\<rparr>) s =
      Some (on_relation ''trigger'' name ''does not exist'' table, s)
    \<and> finish (apply_rename_trigger \<lparr>rt_name = name, rt_table = table, rt_new_name = new_name\<rparr>) s =
      Some (unresolved UnknownObjectState s)"
proof -
  have e: "ensure_trigger_table table s = Some (Inr (), s)"
    using assms(1) by (simp add: ensure_trigger_table_def ensure_def ensure_relation_target_def)
  have n: "l_triggers (local s) (trigger_key (oid table) name) = None"
    using assms(2) by (simp add: trigger_lookup_def split: option.splits overlay.splits if_splits)
  show ?thesis
    using assms(2-4) e n
    by (simp add: apply_drop_trigger_def apply_rename_trigger_def finish_def andthen_def asks_def return_with_def give_up_def
        extension_member_drop_conflict_def unresolved_def Let_def)
qed


theorem unknown_trigger_conflicts_on_drop_witness:
  "finish (apply_drop_trigger sample_order \<lparr>dg_name = ''g'', dg_table = object_id_new ''s'' ''t'', dg_if_exists = False\<rparr>)
     trigger_sample = Some (on_relation ''trigger'' ''g'' ''does not exist'' (object_id_new ''s'' ''t''), trigger_sample)"
proof -
  have "relation_lookup trigger_sample (object_id_new ''s'' ''t'') (\<lambda>kind. kind = Table \<or> kind = View) = LookupPresent"
    by (simp add: relation_lookup_def lookup_shadowed_def object_id_new_def oid_def trigger_sample_def drop_sample_defs
        sample_relation_def add_column_def relation_new_def Let_def)
  moreover have "trigger_lookup trigger_sample (trigger_key (oid (object_id_new ''s'' ''t'')) ''g'') = LookupUnknown"
    by (simp add: trigger_lookup_def trigger_sample_def drop_sample_defs baseline_covers_family_object_def coverage_has_def)
  moreover have "dom (l_extensions (local trigger_sample)) = {}" "ho_names sample_order {} = []"
    by (simp_all add: trigger_sample_def drop_sample_defs sample_order_def)
  ultimately show ?thesis using unknown_trigger_conflicts_on_drop by blast
qed

end
