(* ===== verification/Schema_Handlers.thy ===== *)
theory Schema_Handlers
  imports Sequences
begin

text \<open>
  \<^verbatim>\<open>CREATE SCHEMA\<close> and \<^verbatim>\<open>ALTER SCHEMA\<close> (\<^verbatim>\<open>src/src/_internal/analysis/state/apply_schema.rs\<close>) and the move of a whole
  namespace to another name (\<^verbatim>\<open>rename_schema_namespace\<close> of \<^verbatim>\<open>state/schemas.rs\<close>). The hash maps of the
  catalogue are emptied and filled again entry by entry; where two entries meet under one name the
  later one stays, so the order of iteration is an argument. \<^verbatim>\<open>DROP SCHEMA\<close>, whose cascade reaches the
  handlers of types, routines and columns, is left out.
\<close>

section \<open>Statements\<close>

record create_schema =
  csc_name :: string
  csc_if_not_exists :: bool
  csc_authorization :: "role_fact option"

datatype alter_schema = RenameSchema string string | SchemaOwnerTo string role_fact

section \<open>Owners\<close>

definition schema_authorization :: "role_fact option \<Rightarrow> (string \<times> bool) step" where
  "schema_authorization authorization =
     (case authorization of
        None \<Rightarrow> asks (\<lambda>s. (rc_current_role (role_context_of s), rc_current_role_known (role_context_of s)))
      | Some role \<Rightarrow>
          andthen (asks (\<lambda>s. role_fact_identity s role)) (\<lambda>identity.
          case identity of
            Some i \<Rightarrow> ret i
          | None \<Rightarrow>
              andthen (modify (taint UnresolvedReference ChainScope)) (\<lambda>_.
              asks (\<lambda>s. (rc_current_role (role_context_of s), False)))))"

definition ensure_schema_owner :: "string \<Rightarrow> bool \<Rightarrow> unit step" where
  "ensure_schema_owner owner_name owner_known =
     andthen (asks (\<lambda>s. l_roles_known (local s))) (\<lambda>roles_known.
     andthen (asks (\<lambda>s. present_role s owner_name)) (\<lambda>role.
     if owner_known \<and> roles_known \<and> role = None then return_with (no_such_role owner_name)
     else if \<not> owner_known \<or> \<not> roles_known then coverage_gap
     else ret ()))"

definition schema_exists :: "string \<Rightarrow> mutation_result" where
  "schema_exists name = conflict (''schema '' @ quoted name @ '' already exists'')"

definition no_schema :: "string \<Rightarrow> mutation_result" where
  "no_schema name = conflict (''schema '' @ quoted name @ '' does not exist'')"

section \<open>CREATE SCHEMA\<close>

definition put_schema :: "string \<Rightarrow> schema_state overlay option \<Rightarrow> analysis_state \<Rightarrow> analysis_state" where
  "put_schema name v s = upd_local (\<lambda>l. l\<lparr>l_schemas := (l_schemas l)(name := v)\<rparr>) (snapshot_schema name s)"

definition refresh_path :: "analysis_state \<Rightarrow> analysis_state" where
  "refresh_path s = refresh_role_sensitive_search_path (snapshot_search_path s)"

definition insert_schema :: "string \<Rightarrow> string \<Rightarrow> analysis_state \<Rightarrow> analysis_state" where
  "insert_schema name owner_name s =
     (let s1 = bump_generation s
      in refresh_path (put_schema name
           (Some (Present \<lparr>sch_name = name, sch_owner = Oid [] owner_name,
              sch_generation = l_generation_counter (local s1)\<rparr>)) s1))"

definition apply_create_schema :: "create_schema \<Rightarrow> unit step" where
  "apply_create_schema c =
     andthen (asks (\<lambda>s. schema_lookup s (csc_name c))) (\<lambda>found.
     case found of
       LookupPresent \<Rightarrow> return_with (if csc_if_not_exists c then NoOp else schema_exists (csc_name c))
     | LookupUnknown \<Rightarrow> give_up UnknownObjectState
     | _ \<Rightarrow>
         andthen (schema_authorization (csc_authorization c)) (\<lambda>(owner_name, owner_known).
         andthen (ensure_schema_owner owner_name owner_known) (\<lambda>_.
         modify (insert_schema (csc_name c) owner_name))))"

section \<open>Moving a namespace\<close>

definition remap_schema_id :: "string \<Rightarrow> string \<Rightarrow> object_id \<Rightarrow> object_id" where
  "remap_schema_id old new i = (if oid_schema i = old then i\<lparr>oid_schema := new\<rparr> else i)"

definition map_present :: "('a \<Rightarrow> 'a) \<Rightarrow> 'a overlay \<Rightarrow> 'a overlay" where
  "map_present f e = (case e of Present x \<Rightarrow> Present (f x) | Dropped \<Rightarrow> Dropped)"

text \<open>\<^verbatim>\<open>for (id, overlay) in std::mem::take(map) { .. map.insert(id, overlay) }\<close>.\<close>

definition remap_entries :: "'k list \<Rightarrow> ('k \<Rightarrow> 'k) \<Rightarrow> ('v \<Rightarrow> 'v) \<Rightarrow> ('k \<rightharpoonup> 'v) \<Rightarrow> ('k \<rightharpoonup> 'v)" where
  "remap_entries order key value m = fold (\<lambda>i acc. acc(key i := map_option value (m i))) order Map.empty"

text \<open>The pairs the loops push to \<^verbatim>\<open>aliases\<close>.\<close>

definition renamed_entries :: "oid list \<Rightarrow> (oid \<Rightarrow> oid) \<Rightarrow> (oid \<times> oid) list" where
  "renamed_entries order key = filter (\<lambda>(i, j). j \<noteq> i) (map (\<lambda>i. (i, key i)) order)"

definition remap_function :: "(oid \<Rightarrow> oid) \<Rightarrow> function_state \<Rightarrow> function_state" where
  "remap_function f r =
     r\<lparr>fun_id := f (fun_id r), fun_arg_type_ids := map (map_option f) (fun_arg_type_ids r),
       fun_return_type_id := map_option f (fun_return_type_id r),
       fun_internal_type_owner := map_option f (fun_internal_type_owner r)\<rparr>"

definition remap_sequence :: "string \<Rightarrow> string \<Rightarrow> sequence_state \<Rightarrow> sequence_state" where
  "remap_sequence old new q =
     q\<lparr>seq_id := remap_schema old new (seq_id q),
       seq_owned_by := map_option (\<lambda>(table, column). (remap_schema_id old new table, column)) (seq_owned_by q)\<rparr>"

definition remap_trigger :: "(oid \<Rightarrow> oid) \<Rightarrow> trigger_state \<Rightarrow> trigger_state" where
  "remap_trigger f t = t\<lparr>trg_id := f (trg_id t), trg_table_id := f (trg_table_id t)\<rparr>"

fun remap_published :: "string \<Rightarrow> string \<Rightarrow> publication_object_fact \<Rightarrow> publication_object_fact" where
  "remap_published old new (PublishedTable name only star columns row_filter) =
     PublishedTable
       (case qn_schema name of
          Some schema \<Rightarrow> if resolve schema = old then name\<lparr>qn_schema := Some \<lparr>ident_text = new, ident_quoted = True\<rparr>\<rparr> else name
        | None \<Rightarrow> name)
       only star columns row_filter"
| "remap_published old new (SchemaTables schema row_filter) = SchemaTables (if schema = old then new else schema) row_filter"
| "remap_published old new other = other"

definition remap_publication :: "string \<Rightarrow> string \<Rightarrow> publication_state \<Rightarrow> publication_state" where
  "remap_publication old new p =
     (case pub_scope p of
        ExplicitObjects objects \<Rightarrow> p\<lparr>pub_scope := ExplicitObjects (map (remap_published old new) objects)\<rparr>
      | AllTables _ \<Rightarrow> p)"

definition remap_extension_member :: "string \<Rightarrow> string \<Rightarrow> extension_member \<Rightarrow> extension_member" where
  "remap_extension_member old new m =
     (if exm_kind m = MemberSchema
      then (if name_of (exm_id m) = old then m\<lparr>exm_id := Oid (schema_of (exm_id m)) new\<rparr> else m)
      else m\<lparr>exm_id := remap_schema old new (exm_id m)\<rparr>)"

definition remap_extension :: "string \<Rightarrow> string \<Rightarrow> extension_state \<Rightarrow> extension_state" where
  "remap_extension old new e =
     e\<lparr>ext_schema := (if ext_schema e = Some old then Some new else ext_schema e),
       ext_members := remap_extension_member old new ` ext_members e,
       ext_config_tables := map (\<lambda>c. c\<lparr>exc_table := remap_schema old new (exc_table c)\<rparr>) (ext_config_tables e)\<rparr>"

definition remap_field :: "(oid \<Rightarrow> oid) \<Rightarrow> composite_field_state \<Rightarrow> composite_field_state" where
  "remap_field f c =
     c\<lparr>fld_data_type_id := map_option f (fld_data_type_id c), fld_collation_id := map_option f (fld_collation_id c)\<rparr>"

fun remap_type_kind :: "(oid \<Rightarrow> oid) \<Rightarrow> type_kind \<Rightarrow> type_kind" where
  "remap_type_kind f (Domain base base_id coll coll_id dflt dflt_text nn nn_name cs) =
     Domain base (map_option f base_id) coll (map_option f coll_id) dflt dflt_text nn nn_name cs"
| "remap_type_kind f (RangeType sub sub_id multi coll coll_id opc opc_id canon canon_id diff diff_id) =
     RangeType sub (map_option f sub_id) (map_option f multi) coll (map_option f coll_id) opc (map_option f opc_id)
       canon (map_option f canon_id) diff (map_option f diff_id)"
| "remap_type_kind f (Multirange r) = Multirange (map_option f r)"
| "remap_type_kind f (Composite cs) = Composite (map (remap_field f) cs)"
| "remap_type_kind f other = other"

definition remap_constraint_entry :: "(oid \<Rightarrow> oid) \<Rightarrow> constraint_state \<Rightarrow> constraint_state" where
  "remap_constraint_entry f c = c\<lparr>con_table_id := f (con_table_id c)\<rparr>"

definition remap_scoped_edge :: "(oid \<Rightarrow> oid) \<Rightarrow> scoped_dependency_edge \<Rightarrow> scoped_dependency_edge" where
  "remap_scoped_edge f e = e\<lparr>sde_scoped := f (sde_scoped e), sde_external := map_option f (sde_external e)\<rparr>"

text \<open>The catalogue maps, in the order of the code.\<close>

definition move_relations :: "hash_order \<Rightarrow> string \<Rightarrow> string \<Rightarrow> analysis_state \<Rightarrow> analysis_state" where
  "move_relations h old new s =
     s\<lparr>local := (local s)\<lparr>l_relations :=
        remap_entries (ho_ids h (dom (l_relations (local s)))) (remap_schema old new)
          (map_present (\<lambda>r. r\<lparr>r_id := remap_schema old new (r_id r)\<rparr>)) (l_relations (local s))\<rparr>\<rparr>"

definition move_types :: "hash_order \<Rightarrow> string \<Rightarrow> string \<Rightarrow> analysis_state \<Rightarrow> analysis_state" where
  "move_types h old new s =
     s\<lparr>local := (local s)\<lparr>l_types :=
        remap_entries (ho_ids h (dom (l_types (local s)))) (remap_schema old new)
          (map_present (\<lambda>t. t\<lparr>typ_id := remap_schema old new (typ_id t)\<rparr>)) (l_types (local s))\<rparr>\<rparr>"

definition move_functions :: "hash_order \<Rightarrow> string \<Rightarrow> string \<Rightarrow> analysis_state \<Rightarrow> analysis_state" where
  "move_functions h old new s =
     s\<lparr>local := (local s)\<lparr>l_functions :=
        remap_entries (ho_ids h (dom (l_functions (local s)))) (remap_schema old new)
          (map_present (remap_function (remap_schema old new))) (l_functions (local s))\<rparr>\<rparr>"

definition move_sequences :: "hash_order \<Rightarrow> string \<Rightarrow> string \<Rightarrow> analysis_state \<Rightarrow> analysis_state" where
  "move_sequences h old new s =
     s\<lparr>local := (local s)\<lparr>l_sequences :=
        remap_entries (ho_ids h (dom (l_sequences (local s)))) (remap_schema old new)
          (map_present (remap_sequence old new)) (l_sequences (local s))\<rparr>\<rparr>"

definition move_triggers :: "hash_order \<Rightarrow> string \<Rightarrow> string \<Rightarrow> analysis_state \<Rightarrow> analysis_state" where
  "move_triggers h old new s =
     s\<lparr>local := (local s)\<lparr>l_triggers :=
        remap_entries (ho_ids h (dom (l_triggers (local s)))) (remap_schema old new)
          (map_present (remap_trigger (remap_schema old new))) (l_triggers (local s))\<rparr>\<rparr>"

definition move_publications :: "string \<Rightarrow> string \<Rightarrow> analysis_state \<Rightarrow> analysis_state" where
  "move_publications old new s =
     s\<lparr>local := (local s)\<lparr>l_publications :=
        (\<lambda>n. map_option (map_present (remap_publication old new)) (l_publications (local s) n))\<rparr>\<rparr>"

definition move_constraints :: "hash_order \<Rightarrow> string \<Rightarrow> string \<Rightarrow> analysis_state \<Rightarrow> analysis_state" where
  "move_constraints h old new s =
     s\<lparr>local := (local s)\<lparr>
        l_constraints :=
          remap_entries (ho_keys h (dom (l_constraints (local s)))) (apfst (remap_schema old new))
            (remap_constraint_entry (remap_schema old new)) (l_constraints (local s)),
        l_pending_validation := apfst (remap_schema old new) ` l_pending_validation (local s)\<rparr>\<rparr>"

definition move_collations :: "string \<Rightarrow> string \<Rightarrow> analysis_state \<Rightarrow> analysis_state" where
  "move_collations old new s =
     s\<lparr>local := (local s)\<lparr>l_collations := collation_remap_schema (l_collations (local s)) old new\<rparr>\<rparr>"

definition move_extensions :: "string \<Rightarrow> string \<Rightarrow> analysis_state \<Rightarrow> analysis_state" where
  "move_extensions old new s =
     s\<lparr>local := (local s)\<lparr>l_extensions :=
        (\<lambda>n. map_option (map_present (remap_extension old new)) (l_extensions (local s) n))\<rparr>\<rparr>"

definition move_type_references :: "string \<Rightarrow> string \<Rightarrow> analysis_state \<Rightarrow> analysis_state" where
  "move_type_references old new s =
     s\<lparr>local := (local s)\<lparr>l_types :=
        (\<lambda>i. map_option (map_present (\<lambda>t. t\<lparr>typ_kind := remap_type_kind (remap_schema old new) (typ_kind t)\<rparr>))
               (l_types (local s) i))\<rparr>\<rparr>"

definition move_baseline :: "string \<Rightarrow> string \<Rightarrow> analysis_state \<Rightarrow> analysis_state" where
  "move_baseline old new s =
     (let f = remap_schema old new
      in s\<lparr>baseline_relations := f ` baseline_relations s, baseline_indexes := f ` baseline_indexes s,
           baseline_fk_dependencies := f ` baseline_fk_dependencies s,
           baseline_sequences := f ` baseline_sequences s,
           scoped_external_dependencies := remap_scoped_edge f ` scoped_external_dependencies s,
           baseline_foreign_keys := apfst f ` baseline_foreign_keys s,
           baseline_schemas := map_option (\<lambda>names. if old \<in> names then insert new (names - {old}) else names) (baseline_schemas s)\<rparr>)"

definition move_schema_entry :: "string \<Rightarrow> string \<Rightarrow> analysis_state \<Rightarrow> analysis_state" where
  "move_schema_entry old new s =
     s\<lparr>local := (local s)\<lparr>l_schemas :=
        (case l_schemas (local s) old of
           Some (Present schema) \<Rightarrow>
             ((l_schemas (local s))(old := None, new := Some (Present (schema\<lparr>sch_name := new\<rparr>))))(old := Some Dropped)
         | _ \<Rightarrow> (l_schemas (local s))(old := None))\<rparr>\<rparr>"

definition schema_aliases :: "hash_order \<Rightarrow> string \<Rightarrow> string \<Rightarrow> analysis_state \<Rightarrow> (oid \<times> oid) list" where
  "schema_aliases h old new s =
     (let l = local s; moved = (\<lambda>keys. renamed_entries (ho_ids h keys) (remap_schema old new))
      in moved (dom (l_relations l)) @ moved (dom (l_types l)) @ moved (dom (l_functions l))
         @ moved (dom (l_sequences l)) @ moved (dom (l_triggers l)))"

definition alias_edge :: "oid \<times> oid \<Rightarrow> dependency_edge" where
  "alias_edge a = edge_new (fst a) (snd a) RenameTo"

definition move_maps :: "hash_order \<Rightarrow> string \<Rightarrow> string \<Rightarrow> analysis_state \<Rightarrow> analysis_state" where
  "move_maps h old new s =
     move_constraints h old new (move_publications old new (move_triggers h old new (move_sequences h old new
       (move_functions h old new (move_types h old new (move_relations h old new s))))))"

definition move_graph :: "string \<Rightarrow> string \<Rightarrow> dependency_graph \<Rightarrow> dependency_graph" where
  "move_graph old new g = remap_index_collation_schema old new (remap_schema_namespace old new g)"

definition rename_schema_namespace :: "hash_order \<Rightarrow> string \<Rightarrow> string \<Rightarrow> analysis_state \<Rightarrow> analysis_state" where
  "rename_schema_namespace h old new s =
     (let s0 = snapshot_namespace s;
          s1 = on_graph (move_graph old new) (move_maps h old new s0);
          s2 = move_type_references old new (move_extensions old new (move_collations old new s1));
          s3 = on_graph (fold add_edge (map alias_edge (schema_aliases h old new s0))) s2
      in refresh_role_sensitive_search_path (move_schema_entry old new (move_baseline old new s3)))"

section \<open>ALTER SCHEMA\<close>

definition ensure_present_schema :: "string \<Rightarrow> unit step" where
  "ensure_present_schema name =
     andthen (asks (\<lambda>s. schema_lookup s name)) (\<lambda>found.
     case found of
       LookupPresent \<Rightarrow> ret ()
     | LookupUnknown \<Rightarrow> give_up UnknownObjectState
     | _ \<Rightarrow> return_with (no_schema name))"

definition ensure_absent_schema :: "string \<Rightarrow> unit step" where
  "ensure_absent_schema name =
     andthen (asks (\<lambda>s. schema_lookup s name)) (\<lambda>found.
     case found of
       LookupPresent \<Rightarrow> return_with (schema_exists name)
     | LookupUnknown \<Rightarrow> give_up UnknownObjectState
     | _ \<Rightarrow> ret ())"

definition set_schema_owner :: "string \<Rightarrow> string \<Rightarrow> analysis_state \<Rightarrow> analysis_state" where
  "set_schema_owner name owner_name s =
     put_schema name
       (case l_schemas (local s) name of
          Some (Present schema) \<Rightarrow> Some (Present (schema\<lparr>sch_owner := Oid [] owner_name\<rparr>))
        | other \<Rightarrow> other) s"

fun apply_alter_schema :: "hash_order \<Rightarrow> alter_schema \<Rightarrow> unit step" where
  "apply_alter_schema h (SchemaOwnerTo name new_owner) =
     andthen (ensure_present_schema name) (\<lambda>_.
     andthen (asks (\<lambda>s. role_fact_identity s new_owner)) (\<lambda>identity.
     case identity of
       None \<Rightarrow> give_up UnresolvedReference
     | Some (owner_name, owner_known) \<Rightarrow>
         andthen (ensure_schema_owner owner_name owner_known) (\<lambda>_.
         modify (set_schema_owner name owner_name))))"
| "apply_alter_schema h (RenameSchema old_name new_name) =
     andthen (ensure_present_schema old_name) (\<lambda>_.
     andthen (ensure_absent_schema new_name) (\<lambda>_.
     modify (\<lambda>s. rename_schema_namespace h old_name new_name (snapshot_search_path s))))"

section \<open>The handlers are logged and return\<close>

lemma put_schema_logged: "logged s (put_schema name v s)"
  unfolding put_schema_def
  by (rule logged_change [where ch = "\<lambda>s. SchemaSnapshot name (l_schemas (local s) name)"])
    (simp_all add: upd_local_def snapshot_defs core_def log_change_def)

lemma refresh_path_logged: "logged s (refresh_path s)"
  unfolding refresh_path_def
  by (rule logged_change [where ch = "\<lambda>s. SearchPathSnapshot (l_search_path (local s)) (l_search_path_template (local s))
       (l_session_search_path_template (local s))"])
    (simp_all add: refresh_role_sensitive_search_path_def snapshot_defs core_def log_change_def)

lemma logged_snapshot_path: "logged s (snapshot_search_path s)"
  by (rule logged_change [where ch = "\<lambda>s. SearchPathSnapshot (l_search_path (local s)) (l_search_path_template (local s))
       (l_session_search_path_template (local s))"])
    (simp_all add: snapshot_defs core_def log_change_def)

lemma insert_schema_logged: "logged s (insert_schema name owner s)"
  unfolding insert_schema_def Let_def
  by (rule logged_trans [OF logged_trans [OF bump_generation_logged put_schema_logged] refresh_path_logged])

lemma set_schema_owner_logged: "logged s (set_schema_owner name owner s)"
  unfolding set_schema_owner_def by (rule put_schema_logged)

lemma in_namespace_frame [namespace_intros]:
  "(\<And>s. graph_of (f s) = graph_of s \<and> transactions (f s) = transactions s
      \<and> l_transaction_aborted (local (f s)) = l_transaction_aborted (local s)) \<Longrightarrow>
   (\<And>n s. core (restore_namespace n (f s)) = core (restore_namespace n s)) \<Longrightarrow> in_namespace f"
  by (simp add: in_namespace_def)

lemma graph_wf_move: "graph_wf g \<Longrightarrow> graph_wf (move_graph old new g)"
  by (simp add: move_graph_def remap_index_collation_schema_def remap_schema_namespace_def graph_wf_rewrite)

lemma graph_wf_aliases: "graph_wf g \<Longrightarrow> graph_wf (fold add_edge es g)"
  by (induction es arbitrary: g) (simp_all add: graph_wf_add)

lemma in_namespace_move_relations: "in_namespace (move_relations h old new)"
  unfolding move_relations_def by (rule in_namespace_frame) (simp_all add: restore_namespace_def core_def Let_def)

lemma in_namespace_move_types: "in_namespace (move_types h old new)"
  unfolding move_types_def by (rule in_namespace_frame) (simp_all add: restore_namespace_def core_def Let_def)

lemma in_namespace_move_functions: "in_namespace (move_functions h old new)"
  unfolding move_functions_def by (rule in_namespace_frame) (simp_all add: restore_namespace_def core_def Let_def)

lemma in_namespace_move_sequences: "in_namespace (move_sequences h old new)"
  unfolding move_sequences_def by (rule in_namespace_frame) (simp_all add: restore_namespace_def core_def Let_def)

lemma in_namespace_move_triggers: "in_namespace (move_triggers h old new)"
  unfolding move_triggers_def by (rule in_namespace_frame) (simp_all add: restore_namespace_def core_def Let_def)

lemma in_namespace_move_constraints: "in_namespace (move_constraints h old new)"
  unfolding move_constraints_def by (rule in_namespace_frame) (simp_all add: restore_namespace_def core_def Let_def)

lemma in_namespace_move_publications: "in_namespace (move_publications old new)"
  unfolding move_publications_def by (rule in_namespace_frame) (simp_all add: restore_namespace_def core_def Let_def)

lemma in_namespace_move_collations: "in_namespace (move_collations old new)"
  unfolding move_collations_def by (rule in_namespace_frame) (simp_all add: restore_namespace_def core_def Let_def)

lemma in_namespace_move_extensions: "in_namespace (move_extensions old new)"
  unfolding move_extensions_def by (rule in_namespace_frame) (simp_all add: restore_namespace_def core_def Let_def)

lemma in_namespace_move_type_references: "in_namespace (move_type_references old new)"
  unfolding move_type_references_def by (rule in_namespace_frame) (simp_all add: restore_namespace_def core_def Let_def)

lemma in_namespace_move_baseline: "in_namespace (move_baseline old new)"
  unfolding move_baseline_def by (rule in_namespace_frame) (simp_all add: restore_namespace_def core_def Let_def)

lemma in_namespace_move_schema_entry: "in_namespace (move_schema_entry old new)"
  unfolding move_schema_entry_def by (rule in_namespace_frame) (simp_all add: restore_namespace_def core_def Let_def)

lemma in_namespace_refresh: "in_namespace refresh_role_sensitive_search_path"
  unfolding refresh_role_sensitive_search_path_def
  by (rule in_namespace_frame) (simp_all add: restore_namespace_def core_def)

lemma in_namespace_move_maps: "in_namespace (move_maps h old new)"
  unfolding move_maps_def
  by (rule in_namespace_comp [OF in_namespace_comp [OF in_namespace_comp [OF in_namespace_comp [OF in_namespace_comp [OF
    in_namespace_comp [OF in_namespace_move_relations in_namespace_move_types] in_namespace_move_functions]
    in_namespace_move_sequences] in_namespace_move_triggers] in_namespace_move_publications] in_namespace_move_constraints])

lemma in_namespace_move_graph: "in_namespace (on_graph (move_graph old new))"
  by (rule in_namespace_graph) (rule graph_wf_move)

lemma in_namespace_aliases: "in_namespace (on_graph (fold add_edge es))"
  by (rule in_namespace_graph) (rule graph_wf_aliases)

lemma in_namespace_rename:
  "in_namespace (\<lambda>u. refresh_role_sensitive_search_path (move_schema_entry old new (move_baseline old new
     (on_graph (fold add_edge es) (move_type_references old new (move_extensions old new (move_collations old new
       (on_graph (move_graph old new) (move_maps h old new u)))))))))"
  by (rule in_namespace_comp [OF in_namespace_comp [OF in_namespace_comp [OF in_namespace_comp [OF in_namespace_comp [OF
    in_namespace_comp [OF in_namespace_comp [OF in_namespace_comp [OF in_namespace_move_maps in_namespace_move_graph]
    in_namespace_move_collations] in_namespace_move_extensions] in_namespace_move_type_references] in_namespace_aliases]
    in_namespace_move_baseline] in_namespace_move_schema_entry] in_namespace_refresh])

lemma rename_schema_namespace_logged: "logged s (rename_schema_namespace h old new s)"
  using logged_namespace [OF in_namespace_rename] by (simp add: rename_schema_namespace_def Let_def)

lemma rename_step_logged: "logged s (rename_schema_namespace h old new (snapshot_search_path s))"
  by (rule logged_trans [OF logged_snapshot_path rename_schema_namespace_logged])

lemmas schema_updates_logged = insert_schema_logged set_schema_owner_logged rename_step_logged

lemma keeps_ensure_schema_owner [holds_intros]: "holds logged (ensure_schema_owner name known)"
  unfolding ensure_schema_owner_def coverage_gap_def by (intro holds_intros)

lemma keeps_schema_authorization [holds_intros]: "holds logged (schema_authorization a)"
  unfolding schema_authorization_def by (intro holds_intros)

lemma keeps_schema_lookups [holds_intros]:
  "holds logged (ensure_present_schema name)" "holds logged (ensure_absent_schema name)"
  unfolding ensure_present_schema_def ensure_absent_schema_def by (intro holds_intros)+

lemma keeps_create_schema: "holds logged (apply_create_schema c)"
  unfolding apply_create_schema_def by (intro holds_intros holds_prod schema_updates_logged)

lemma keeps_alter_schema: "holds logged (apply_alter_schema h a)"
  by (cases a) (simp_all, (intro holds_intros holds_prod schema_updates_logged)+)

lemma total_schema_owner [total_intros]: "total (ensure_schema_owner name known)"
  unfolding ensure_schema_owner_def coverage_gap_def by (intro total_intros)

lemma total_schema_lookups [total_intros]: "total (ensure_present_schema name)" "total (ensure_absent_schema name)"
  unfolding ensure_present_schema_def ensure_absent_schema_def by (intro total_intros)+

lemma total_create_schema: "total (apply_create_schema c)"
  unfolding apply_create_schema_def schema_authorization_def by (intro total_intros)

lemma total_alter_schema: "total (apply_alter_schema h a)"
  by (cases a) (simp_all, (intro total_intros)+)

section \<open>What a rename does\<close>

text \<open>
  The contract of a rename on one catalogue map: what was under the old schema is under the new one,
  nothing is left behind, and the other schemas keep their entries.
\<close>

definition moved :: "string \<Rightarrow> string \<Rightarrow> ('v \<Rightarrow> 'v) \<Rightarrow> (oid \<rightharpoonup> 'v) \<Rightarrow> (oid \<rightharpoonup> 'v) \<Rightarrow> bool" where
  "moved old new value m m' \<longleftrightarrow>
     (\<forall>n. m' (Oid new n) = map_option value (m (Oid old n)) \<and> m' (Oid old n) = None)
     \<and> (\<forall>i. schema_of i \<noteq> old \<and> schema_of i \<noteq> new \<longrightarrow> m' i = map_option value (m i))"

lemma remap_entries_snoc:
  "remap_entries (order @ [i]) key value m = (remap_entries order key value m)(key i := map_option value (m i))"
  by (simp add: remap_entries_def)

lemma remap_entries_outside: "k \<notin> key ` set order \<Longrightarrow> remap_entries order key value m k = None"
proof (induction order rule: rev_induct)
  case Nil
  show ?case by (simp add: remap_entries_def)
qed (auto simp: remap_entries_snoc)

lemma remap_entries_at:
  "inj_on key (set order) \<Longrightarrow> i \<in> set order \<Longrightarrow> remap_entries order key value m (key i) = map_option value (m i)"
proof (induction order rule: rev_induct)
  case (snoc j order)
  show ?case
  proof (cases "i = j")
    case False
    then have "key i \<noteq> key j" using snoc.prems by (auto dest: inj_onD [OF snoc.prems(1)])
    then show ?thesis using snoc False by (auto simp: remap_entries_snoc intro: inj_on_subset)
  qed (simp add: remap_entries_snoc)
qed simp

lemma inj_on_remap_schema: "old \<noteq> new \<Longrightarrow> (\<forall>i \<in> A. schema_of i \<noteq> new) \<Longrightarrow> inj_on (remap_schema old new) A"
  by (rule inj_onI) (metis oid.expand oid.sel remap_schema_def)

lemma remap_entries_moved:
  assumes "old \<noteq> new" "set order = dom m" "\<forall>i \<in> dom m. schema_of i \<noteq> new"
  shows "moved old new value m (remap_entries order (remap_schema old new) value m)"
proof -
  let ?f = "remap_schema old new" and ?m = "remap_entries order (remap_schema old new) value m"
  have inj: "inj_on ?f (set order)" using assms by (simp add: inj_on_remap_schema)
  have here: "?m k = map_option value (m i)" if f: "?f i = k" "\<And>j. j \<in> dom m \<Longrightarrow> ?f j = k \<Longrightarrow> j = i" for i k
  proof (cases "i \<in> dom m")
    case True
    then show ?thesis using remap_entries_at [OF inj, of i] f(1) assms(2) by auto
  next
    case False
    then have "k \<notin> ?f ` set order" using f(2) assms(2) by auto
    then show ?thesis using False by (simp add: remap_entries_outside domIff)
  qed
  have free: "m (Oid new n) = None" for n using assms(3) by (metis domIff oid.sel(1))
  have new: "?m (Oid new n) = map_option value (m (Oid old n))" for n
    by (rule here) (use assms(1) free in \<open>auto simp: remap_schema_def split: if_splits intro: oid.expand\<close>)
  have "Oid old n \<notin> ?f ` set order" for n
    using assms(1) by (auto simp: remap_schema_def)
  then have gone: "?m (Oid old n) = None" for n by (rule remap_entries_outside)
  have "?m i = map_option value (m i)" if "schema_of i \<noteq> old \<and> schema_of i \<noteq> new" for i
    by (rule here) (use that in \<open>auto simp: remap_schema_def split: if_splits\<close>)
  with new gone show ?thesis by (simp add: moved_def)
qed

lemma moved_map: "moved old new value m m' \<Longrightarrow> moved old new (f \<circ> value) m (\<lambda>i. map_option f (m' i))"
  by (auto simp: moved_def option.map_comp)

lemmas rename_defs = rename_schema_namespace_def move_maps_def move_relations_def move_types_def move_functions_def
  move_sequences_def move_triggers_def move_publications_def move_constraints_def move_collations_def move_extensions_def
  move_type_references_def move_baseline_def move_schema_entry_def refresh_role_sensitive_search_path_def
  on_graph_def Let_def snapshot_namespace_def log_change_def

lemma rename_relations:
  "l_relations (local (rename_schema_namespace h old new s)) =
     remap_entries (ho_ids h (dom (l_relations (local s)))) (remap_schema old new)
       (map_present (\<lambda>r. r\<lparr>r_id := remap_schema old new (r_id r)\<rparr>)) (l_relations (local s))"
  by (simp add: rename_defs)

lemma rename_types:
  "l_types (local (rename_schema_namespace h old new s)) = (\<lambda>i.
     map_option (map_present (\<lambda>t. t\<lparr>typ_kind := remap_type_kind (remap_schema old new) (typ_kind t)\<rparr>))
       (remap_entries (ho_ids h (dom (l_types (local s)))) (remap_schema old new)
          (map_present (\<lambda>t. t\<lparr>typ_id := remap_schema old new (typ_id t)\<rparr>)) (l_types (local s)) i))"
  by (simp add: rename_defs)

lemma rename_functions:
  "l_functions (local (rename_schema_namespace h old new s)) =
     remap_entries (ho_ids h (dom (l_functions (local s)))) (remap_schema old new)
       (map_present (remap_function (remap_schema old new))) (l_functions (local s))"
  by (simp add: rename_defs)

lemma rename_sequences:
  "l_sequences (local (rename_schema_namespace h old new s)) =
     remap_entries (ho_ids h (dom (l_sequences (local s)))) (remap_schema old new)
       (map_present (remap_sequence old new)) (l_sequences (local s))"
  by (simp add: rename_defs)

lemma rename_triggers:
  "l_triggers (local (rename_schema_namespace h old new s)) =
     remap_entries (ho_ids h (dom (l_triggers (local s)))) (remap_schema old new)
       (map_present (remap_trigger (remap_schema old new))) (l_triggers (local s))"
  by (simp add: rename_defs)

lemma rename_schemas:
  "l_schemas (local (rename_schema_namespace h old new s)) =
     (case l_schemas (local s) old of
        Some (Present schema) \<Rightarrow>
          (l_schemas (local s))(old := None, new := Some (Present (schema\<lparr>sch_name := new\<rparr>)), old := Some Dropped)
      | _ \<Rightarrow> (l_schemas (local s))(old := None))"
proof -
  have "l_schemas (local (on_graph F (move_type_references old new (move_extensions old new (move_collations old new
     (on_graph G (move_maps h old new (snapshot_namespace s)))))))) = l_schemas (local s)" for F G
    by (simp add: move_type_references_def move_extensions_def move_collations_def on_graph_def
        move_maps_def move_relations_def move_types_def move_functions_def move_sequences_def move_triggers_def
        move_publications_def move_constraints_def snapshot_namespace_def log_change_def)
  then have "l_schemas (local (move_baseline old new (on_graph F (move_type_references old new (move_extensions old new
     (move_collations old new (on_graph G (move_maps h old new (snapshot_namespace s))))))))) = l_schemas (local s)" for F G
    by (simp add: move_baseline_def Let_def)
  then show ?thesis
    by (simp add: rename_schema_namespace_def Let_def refresh_role_sensitive_search_path_def move_schema_entry_def
        split: option.split overlay.split)
qed

lemma snapshot_path_fields [simp]:
  "l_relations (local (snapshot_search_path s)) = l_relations (local s)"
  "l_types (local (snapshot_search_path s)) = l_types (local s)"
  "l_functions (local (snapshot_search_path s)) = l_functions (local s)"
  "l_sequences (local (snapshot_search_path s)) = l_sequences (local s)"
  "l_triggers (local (snapshot_search_path s)) = l_triggers (local s)"
  "l_schemas (local (snapshot_search_path s)) = l_schemas (local s)"
  by (simp_all add: snapshot_search_path_def log_change_def)

text \<open>An applied rename found the old schema and not the new one.\<close>

lemma schema_lookup_cases:
  "schema_lookup s n = LookupPresent \<longleftrightarrow> (\<exists>x. l_schemas (local s) n = Some (Present x))"
  "schema_lookup s n = Tombstone \<longleftrightarrow> l_schemas (local s) n = Some Dropped"
  "schema_lookup s n \<noteq> WrongKind"
  "schema_lookup s n = AuthoritativelyAbsent \<Longrightarrow> l_schemas (local s) n = None"
  by (simp_all add: schema_lookup_def split: option.splits overlay.splits)

lemma applied_rename:
  assumes "finish (apply_alter_schema h (RenameSchema old new)) s = Some (Applied, t)"
  shows "t = rename_schema_namespace h old new (snapshot_search_path s)"
    and "\<exists>x. l_schemas (local s) old = Some (Present x)" "old \<noteq> new"
proof -
  have "l_schemas (local s) new \<noteq> Some (Present x)" for x
    using assms schema_lookup_cases(1) [of s new]
    by (auto simp: finish_def andthen_def asks_def ensure_present_schema_def ensure_absent_schema_def ret_def return_with_def
        give_up_def unresolved_def modify_def no_schema_def schema_exists_def conflict_def schema_lookup_cases
        dest: schema_lookup_cases(4) split: object_lookup.splits)
  then show "t = rename_schema_namespace h old new (snapshot_search_path s)"
    "\<exists>x. l_schemas (local s) old = Some (Present x)" "old \<noteq> new"
    using assms
    by (auto simp: finish_def andthen_def asks_def ensure_present_schema_def ensure_absent_schema_def ret_def return_with_def
        give_up_def unresolved_def modify_def no_schema_def schema_exists_def conflict_def schema_lookup_cases
        split: object_lookup.splits)
qed

text \<open>What the loops leave in the catalogue maps.\<close>

lemma schema_rename_maps:
  assumes "lists_all h" "finish (apply_alter_schema h (RenameSchema old new)) s = Some (Applied, t)"
    and "finite (dom (l_relations (local s)))" "finite (dom (l_types (local s)))" "finite (dom (l_functions (local s)))"
      "finite (dom (l_sequences (local s)))" "finite (dom (l_triggers (local s)))"
    and "\<forall>i \<in> dom (l_relations (local s)) \<union> dom (l_types (local s)) \<union> dom (l_functions (local s))
            \<union> dom (l_sequences (local s)) \<union> dom (l_triggers (local s)). schema_of i \<noteq> new"
  shows "schema_lookup t new = LookupPresent \<and> schema_lookup t old = Tombstone
    \<and> moved old new (map_present (\<lambda>r. r\<lparr>r_id := remap_schema old new (r_id r)\<rparr>)) (l_relations (local s)) (l_relations (local t))
    \<and> moved old new
        (map_present (\<lambda>y. y\<lparr>typ_kind := remap_type_kind (remap_schema old new) (typ_kind y)\<rparr>)
           \<circ> map_present (\<lambda>y. y\<lparr>typ_id := remap_schema old new (typ_id y)\<rparr>)) (l_types (local s)) (l_types (local t))
    \<and> moved old new (map_present (remap_function (remap_schema old new))) (l_functions (local s)) (l_functions (local t))
    \<and> moved old new (map_present (remap_sequence old new)) (l_sequences (local s)) (l_sequences (local t))
    \<and> moved old new (map_present (remap_trigger (remap_schema old new))) (l_triggers (local s)) (l_triggers (local t))"
proof -
  note t = applied_rename(1) [OF assms(2)] and old_new = applied_rename(3) [OF assms(2)]
  obtain x where x: "l_schemas (local s) old = Some (Present x)" using applied_rename(2) [OF assms(2)] by blast
  have listed: "finite A \<Longrightarrow> set (ho_ids h A) = A" for A using assms(1) by (simp add: lists_all_def)
  note moves = remap_entries_moved [OF old_new listed]
  show ?thesis
  proof (intro conjI)
    show "schema_lookup t new = LookupPresent" "schema_lookup t old = Tombstone"
      using x old_new by (simp_all add: schema_lookup_cases t rename_schemas)
    show "moved old new (map_present (\<lambda>r. r\<lparr>r_id := remap_schema old new (r_id r)\<rparr>)) (l_relations (local s)) (l_relations (local t))"
      unfolding t rename_relations snapshot_path_fields by (rule moves) (use assms(3,8) in auto)
    show "moved old new
        (map_present (\<lambda>y. y\<lparr>typ_kind := remap_type_kind (remap_schema old new) (typ_kind y)\<rparr>)
           \<circ> map_present (\<lambda>y. y\<lparr>typ_id := remap_schema old new (typ_id y)\<rparr>)) (l_types (local s)) (l_types (local t))"
      unfolding t rename_types snapshot_path_fields by (rule moved_map, rule moves) (use assms(4,8) in auto)
    show "moved old new (map_present (remap_function (remap_schema old new))) (l_functions (local s)) (l_functions (local t))"
      unfolding t rename_functions snapshot_path_fields by (rule moves) (use assms(5,8) in auto)
    show "moved old new (map_present (remap_sequence old new)) (l_sequences (local s)) (l_sequences (local t))"
      unfolding t rename_sequences snapshot_path_fields by (rule moves) (use assms(6,8) in auto)
    show "moved old new (map_present (remap_trigger (remap_schema old new))) (l_triggers (local s)) (l_triggers (local t))"
      unfolding t rename_triggers snapshot_path_fields by (rule moves) (use assms(7,8) in auto)
  qed
qed

text \<open>
  What a rename of \<open>old\<close> to \<open>new\<close> promises, stated apart from the loops that do it. Every entry of the
  old schema is found under the new one and none under the old, and an entry and what has become of
  it are related by \<open>R\<close>, in every schema.
\<close>

definition namespace_moved ::
  "string \<Rightarrow> string \<Rightarrow> ('v \<Rightarrow> 'v \<Rightarrow> bool) \<Rightarrow> (oid \<rightharpoonup> 'v overlay) \<Rightarrow> (oid \<rightharpoonup> 'v overlay) \<Rightarrow> bool" where
  "namespace_moved old new R m m' \<longleftrightarrow>
     (\<forall>n. m' (Oid old n) = None \<and> rel_option (rel_overlay R) (m (Oid old n)) (m' (Oid new n)))
     \<and> (\<forall>i. schema_of i \<noteq> old \<and> schema_of i \<noteq> new \<longrightarrow> rel_option (rel_overlay R) (m i) (m' i))"

definition in_schema :: "string \<Rightarrow> string \<Rightarrow> oid \<Rightarrow> oid" where
  "in_schema old new i = Oid (if schema_of i = old then new else schema_of i) (name_of i)"

text \<open>A relation changes its identity only: its columns and the type it is of keep what they name.\<close>

definition relation_moved :: "(oid \<Rightarrow> oid) \<Rightarrow> relation_state \<Rightarrow> relation_state \<Rightarrow> bool" where
  "relation_moved f r r' \<longleftrightarrow> r' = r\<lparr>r_id := f (r_id r)\<rparr>"

text \<open>The catalogue objects a type refers to, and the rest of it.\<close>

fun type_references :: "type_kind \<Rightarrow> oid option list" where
  "type_references (Domain _ base_id _ coll_id _ _ _ _ _) = [base_id, coll_id]"
| "type_references (RangeType _ sub_id multi _ coll_id _ opc_id _ canon_id _ diff_id) =
     [sub_id, multi, coll_id, opc_id, canon_id, diff_id]"
| "type_references (Multirange range_id) = [range_id]"
| "type_references (Composite cs) = concat (map (\<lambda>c. [fld_data_type_id c, fld_collation_id c]) cs)"
| "type_references _ = []"

fun without_references :: "type_kind \<Rightarrow> type_kind" where
  "without_references (Domain base _ coll _ dflt dflt_text nn nn_name cons) =
     Domain base None coll None dflt dflt_text nn nn_name cons"
| "without_references (RangeType sub _ _ coll _ opc _ canon _ diff _) =
     RangeType sub None None coll None opc None canon None diff None"
| "without_references (Multirange _) = Multirange None"
| "without_references (Composite cs) =
     Composite (map (\<lambda>c. c\<lparr>fld_data_type_id := None, fld_collation_id := None\<rparr>) cs)"
| "without_references k = k"

definition type_moved :: "(oid \<Rightarrow> oid) \<Rightarrow> type_state \<Rightarrow> type_state \<Rightarrow> bool" where
  "type_moved f y y' \<longleftrightarrow>
     typ_id y' = f (typ_id y) \<and> typ_generation y' = typ_generation y \<and> typ_owner y' = typ_owner y
     \<and> type_references (typ_kind y') = map (map_option f) (type_references (typ_kind y))
     \<and> without_references (typ_kind y') = without_references (typ_kind y)"

definition function_moved :: "(oid \<Rightarrow> oid) \<Rightarrow> function_state \<Rightarrow> function_state \<Rightarrow> bool" where
  "function_moved f r r' \<longleftrightarrow>
     r' = r\<lparr>fun_id := f (fun_id r), fun_arg_type_ids := map (map_option f) (fun_arg_type_ids r),
       fun_return_type_id := map_option f (fun_return_type_id r),
       fun_internal_type_owner := map_option f (fun_internal_type_owner r)\<rparr>"

text \<open>A sequence follows the table that owns it.\<close>

definition owner_column :: "sequence_state \<Rightarrow> (oid \<times> string) option" where
  "owner_column q = map_option (\<lambda>(table, column). (oid table, column)) (seq_owned_by q)"

definition sequence_moved :: "(oid \<Rightarrow> oid) \<Rightarrow> sequence_state \<Rightarrow> sequence_state \<Rightarrow> bool" where
  "sequence_moved f q q' \<longleftrightarrow>
     seq_id q' = f (seq_id q) \<and> owner_column q' = map_option (apfst f) (owner_column q)
     \<and> q'\<lparr>seq_id := seq_id q, seq_owned_by := seq_owned_by q\<rparr> = q"

text \<open>A trigger follows its table; the function it calls and its parent trigger keep their names.\<close>

definition trigger_moved :: "(oid \<Rightarrow> oid) \<Rightarrow> trigger_state \<Rightarrow> trigger_state \<Rightarrow> bool" where
  "trigger_moved f x x' \<longleftrightarrow> x' = x\<lparr>trg_id := f (trg_id x), trg_table_id := f (trg_table_id x)\<rparr>"

lemma remap_schema_in: "remap_schema old new = in_schema old new"
  by (rule ext) (auto simp: remap_schema_def in_schema_def intro: oid.expand)

lemma rename_meets_promises:
  "relation_moved f r (r\<lparr>r_id := f (r_id r)\<rparr>)"
  "type_moved f y (y\<lparr>typ_id := f (typ_id y), typ_kind := remap_type_kind f (typ_kind y)\<rparr>)"
  "function_moved f g (remap_function f g)"
  "sequence_moved (in_schema old new) q (remap_sequence old new q)"
  "trigger_moved f x (remap_trigger f x)"
proof -
  show "type_moved f y (y\<lparr>typ_id := f (typ_id y), typ_kind := remap_type_kind f (typ_kind y)\<rparr>)"
    by (cases "typ_kind y") (simp_all add: type_moved_def remap_field_def map_concat comp_def)
  show "sequence_moved (in_schema old new) q (remap_sequence old new q)"
    by (auto simp: sequence_moved_def remap_sequence_def owner_column_def remap_schema_in in_schema_def remap_schema_id_def
        oid_def option.map_comp comp_def split: prod.splits intro!: option.map_cong0)
qed (simp_all add: relation_moved_def function_moved_def remap_function_def trigger_moved_def remap_trigger_def)

lemma moved_promise:
  assumes "moved old new (map_present f) m m'" "\<And>x. R x (f x)"
  shows "namespace_moved old new R m m'"
proof -
  have "rel_option (rel_overlay R) v (map_option (map_present f) v)" for v
    using assms(2) by (cases v; cases "the v") (simp_all add: map_present_def)
  with assms(1) show ?thesis by (simp add: moved_def namespace_moved_def)
qed

lemma map_present_comp: "map_present f \<circ> map_present g = map_present (f \<circ> g)"
  by (rule ext) (simp add: map_present_def split: overlay.splits)

text \<open>
  C38. \<^verbatim>\<open>ALTER SCHEMA RENAME\<close> moves a whole namespace: when it is applied and no entry, not even the tombstone
  of a dropped object, stands under the new name, every relation, type, routine, sequence and
  trigger of the old schema is found under the new one and none stays behind, the objects of other
  schemas keep their names, and the old schema is remembered as dropped. In every schema the entries
  themselves change as follows and in no other way: identities, the types in the signatures of
  routines, the objects that types refer to, the tables that own sequences and the tables of
  triggers follow the rename; the types of columns, the type of a typed table, the function of a
  trigger and its parent trigger keep the names they had.
\<close>

theorem schema_rename_moves_namespace:
  assumes "lists_all h" "finish (apply_alter_schema h (RenameSchema old new)) s = Some (Applied, t)"
    and "finite (dom (l_relations (local s)))" "finite (dom (l_types (local s)))" "finite (dom (l_functions (local s)))"
      "finite (dom (l_sequences (local s)))" "finite (dom (l_triggers (local s)))"
    and "\<forall>i \<in> dom (l_relations (local s)) \<union> dom (l_types (local s)) \<union> dom (l_functions (local s))
            \<union> dom (l_sequences (local s)) \<union> dom (l_triggers (local s)). schema_of i \<noteq> new"
  shows "schema_lookup t new = LookupPresent \<and> schema_lookup t old = Tombstone
    \<and> namespace_moved old new (relation_moved (in_schema old new)) (l_relations (local s)) (l_relations (local t))
    \<and> namespace_moved old new (type_moved (in_schema old new)) (l_types (local s)) (l_types (local t))
    \<and> namespace_moved old new (function_moved (in_schema old new)) (l_functions (local s)) (l_functions (local t))
    \<and> namespace_moved old new (sequence_moved (in_schema old new)) (l_sequences (local s)) (l_sequences (local t))
    \<and> namespace_moved old new (trigger_moved (in_schema old new)) (l_triggers (local s)) (l_triggers (local t))"
proof -
  have maps: "schema_lookup t new = LookupPresent" "schema_lookup t old = Tombstone"
    "moved old new (map_present (\<lambda>r. r\<lparr>r_id := in_schema old new (r_id r)\<rparr>)) (l_relations (local s)) (l_relations (local t))"
    "moved old new (map_present (\<lambda>y. y\<lparr>typ_id := in_schema old new (typ_id y),
         typ_kind := remap_type_kind (in_schema old new) (typ_kind y)\<rparr>)) (l_types (local s)) (l_types (local t))"
    "moved old new (map_present (remap_function (in_schema old new))) (l_functions (local s)) (l_functions (local t))"
    "moved old new (map_present (remap_sequence old new)) (l_sequences (local s)) (l_sequences (local t))"
    "moved old new (map_present (remap_trigger (in_schema old new))) (l_triggers (local s)) (l_triggers (local t))"
    using schema_rename_maps [OF assms, unfolded map_present_comp, unfolded comp_def] by (simp_all add: remap_schema_in)
  show ?thesis
    using maps(1,2)
    by (simp add: maps(3-7) [THEN moved_promise] rename_meets_promises)
qed


text \<open>
  The columns of a relation and the type of a typed table keep their references to types of the old
  schema, although the types themselves move: the stored identities name nothing afterwards.
\<close>

theorem schema_rename_strands_column_types:
  assumes "lists_all h" "finish (apply_alter_schema h (RenameSchema old new)) s = Some (Applied, t)"
    and "finite (dom (l_relations (local s)))" "finite (dom (l_types (local s)))"
    and "\<forall>i \<in> dom (l_relations (local s)) \<union> dom (l_types (local s)). schema_of i \<noteq> new"
    and "l_relations (local s) (Oid old n) = Some (Present r)"
  shows "(\<exists>r'. l_relations (local t) (Oid new n) = Some (Present r') \<and> r_columns r' = r_columns r \<and> r_of_type r' = r_of_type r)
    \<and> (\<forall>y. l_types (local t) (Oid old y) = None)"
proof -
  note t = applied_rename(1) [OF assms(2)] and old_new = applied_rename(3) [OF assms(2)]
  have listed: "finite A \<Longrightarrow> set (ho_ids h A) = A" for A using assms(1) by (simp add: lists_all_def)
  note moves = remap_entries_moved [OF old_new listed]
  have "moved old new (map_present (\<lambda>r. r\<lparr>r_id := remap_schema old new (r_id r)\<rparr>)) (l_relations (local s)) (l_relations (local t))"
    unfolding t rename_relations snapshot_path_fields by (rule moves) (use assms(3,5) in auto)
  moreover have "moved old new (map_present (\<lambda>y. y\<lparr>typ_id := remap_schema old new (typ_id y)\<rparr>)) (l_types (local s))
      (remap_entries (ho_ids h (dom (l_types (local s)))) (remap_schema old new)
         (map_present (\<lambda>y. y\<lparr>typ_id := remap_schema old new (typ_id y)\<rparr>)) (l_types (local s)))"
    by (rule moves) (use assms(4,5) in auto)
  ultimately show ?thesis
    using assms(6) by (simp add: moved_def t rename_types map_present_def)
qed

text \<open>
  When a dropped object is still remembered under the new name, which object a name stands for after
  the rename depends on the order in which the hash map is walked: the moved relation replaces the
  tombstone or is replaced by it.
\<close>

theorem schema_rename_depends_on_hash_order:
  assumes "l_relations (local s) = [Oid old n \<mapsto> Present r, Oid new n \<mapsto> Dropped]" "old \<noteq> new"
  shows "(ho_ids h {Oid old n, Oid new n} = [Oid old n, Oid new n] \<longrightarrow>
      l_relations (local (rename_schema_namespace h old new s)) (Oid new n) = Some Dropped)
    \<and> (ho_ids h {Oid old n, Oid new n} = [Oid new n, Oid old n] \<longrightarrow>
      l_relations (local (rename_schema_namespace h old new s)) (Oid new n) =
        Some (Present (r\<lparr>r_id := remap_schema old new (r_id r)\<rparr>)))"
proof -
  have d: "dom (l_relations (local s)) = {Oid old n, Oid new n}" using assms by auto
  show ?thesis
    unfolding rename_relations d
    using assms by (auto simp: remap_entries_def remap_schema_def map_present_def)
qed

section \<open>Samples\<close>

definition schema_sample :: analysis_state where
  "schema_sample = upd_local
     (\<lambda>l. l\<lparr>l_schemas := [''s'' \<mapsto> Present \<lparr>sch_name = ''s'', sch_owner = Oid [] ''dba'', sch_generation = 0\<rparr>, ''u'' \<mapsto> Dropped]\<rparr>)
     (drop_sample [])"

lemmas schema_sample_defs = schema_sample_def drop_sample_defs

theorem schema_rename_moves_namespace_witness:
  "\<exists>t. finish (apply_alter_schema sample_order (RenameSchema ''s'' ''u'')) schema_sample = Some (Applied, t)
     \<and> schema_lookup t ''u'' = LookupPresent
     \<and> l_relations (local t) (Oid ''u'' ''t'') =
         Some (Present (sample_relation\<lparr>r_id := in_schema ''s'' ''u'' (r_id sample_relation)\<rparr>))
     \<and> l_relations (local t) (Oid ''s'' ''t'') = None"
proof -
  let ?s = schema_sample and ?h = sample_order
  have lookup: "schema_lookup ?s ''s'' = LookupPresent" "schema_lookup ?s ''u'' = Tombstone"
    by (simp_all add: schema_lookup_cases schema_sample_def upd_local_def)
  obtain t where t: "finish (apply_alter_schema ?h (RenameSchema ''s'' ''u'')) ?s = Some (Applied, t)"
    by (simp add: finish_def andthen_def asks_def ensure_present_schema_def ensure_absent_schema_def ret_def modify_def lookup)
  have maps: "l_relations (local ?s) = [Oid ''s'' ''t'' \<mapsto> Present sample_relation, Oid ''s'' ''p'' \<mapsto> Present sample_relation]"
    "l_types (local ?s) = Map.empty" "l_functions (local ?s) = Map.empty" "l_sequences (local ?s) = Map.empty"
    "l_triggers (local ?s) = Map.empty"
    by (simp_all add: schema_sample_defs)
  have "schema_lookup t ''u'' = LookupPresent
    \<and> namespace_moved ''s'' ''u'' (relation_moved (in_schema ''s'' ''u'')) (l_relations (local ?s)) (l_relations (local t))"
    using schema_rename_moves_namespace [OF sample_order_lists_all t] by (simp add: maps)
  then have u: "schema_lookup t ''u'' = LookupPresent" "l_relations (local t) (Oid ''s'' ''t'') = None"
    and "rel_option (rel_overlay (relation_moved (in_schema ''s'' ''u''))) (Some (Present sample_relation)) (l_relations (local t) (Oid ''u'' ''t''))"
    unfolding namespace_moved_def maps(1) by (auto dest: spec [of _ "''t''"])
  then have "l_relations (local t) (Oid ''u'' ''t'') =
      Some (Present (sample_relation\<lparr>r_id := in_schema ''s'' ''u'' (r_id sample_relation)\<rparr>))"
    by (auto simp: option_rel_Some1 relation_moved_def elim: overlay.rel_cases)
  with t u show ?thesis by blast
qed

end
