(* ===== verification/Subscriptions.thy ===== *)
theory Subscriptions
  imports Roles Names
begin

text \<open>
  Subscriptions (\<^verbatim>\<open>src/src/_internal/analysis/state/apply_replication.rs\<close>), their options
  (\<^verbatim>\<open>state/publication.rs\<close>) and the table of accepted parameters (\<^verbatim>\<open>model/replication.rs\<close>). An enabled
  subscription always has a slot, and lists no publication twice.
\<close>

section \<open>Statements\<close>

record create_subscription =
  csb_name :: "string option"
  csb_connection :: connection_target
  csb_publications :: "string list"
  csb_params :: "attribute_fact list option"

datatype subscription_publication_mode = SetPublications | AddPublications | DropPublications

datatype alter_subscription_action =
    SetConnection connection_target
  | SubscriptionPublications subscription_publication_mode "string list" "attribute_fact list"
  | RefreshPublication "attribute_fact list"
  | SetEnabled bool
  | SetSubscriptionOptions "attribute_fact list"
  | SetServer "string option"
  | Skip "attribute_fact list"
  | SubscriptionOwner role_fact
  | RenameSubscription string

fun action_params :: "alter_subscription_action \<Rightarrow> attribute_fact list option" where
  "action_params (SubscriptionPublications _ _ ps) = Some ps"
| "action_params (RefreshPublication ps) = Some ps"
| "action_params (SetSubscriptionOptions ps) = Some ps"
| "action_params (Skip ps) = Some ps"
| "action_params _ = None"

record alter_subscription =
  asb_name :: string
  asb_action :: alter_subscription_action

record drop_subscription =
  dsb_name :: string
  dsb_if_exists :: bool

section \<open>Options\<close>

datatype subscription_value = BooleanValue | StreamingValue | TextValue

record subscription_param =
  spm_name :: string
  spm_value :: subscription_value
  spm_since :: "32 word option"

definition param :: "string \<Rightarrow> subscription_value \<Rightarrow> 32 word option \<Rightarrow> subscription_param" where
  "param name v since = \<lparr>spm_name = name, spm_value = v, spm_since = since\<rparr>"

definition subscription_params :: "subscription_param list" where
  "subscription_params =
     [param ''connect'' BooleanValue None, param ''create_slot'' BooleanValue None, param ''enabled'' BooleanValue None,
      param ''copy_data'' BooleanValue None, param ''refresh'' BooleanValue None, param ''slot_name'' TextValue None,
      param ''synchronous_commit'' TextValue None, param ''binary'' BooleanValue (Some 140000),
      param ''streaming'' StreamingValue (Some 140000), param ''two_phase'' BooleanValue (Some 150000),
      param ''disable_on_error'' BooleanValue (Some 150000), param ''lsn'' TextValue (Some 150000),
      param ''password_required'' BooleanValue (Some 160000), param ''run_as_owner'' BooleanValue (Some 160000),
      param ''origin'' TextValue (Some 160000), param ''failover'' BooleanValue (Some 170000)]"

definition last_option :: "attribute_fact list option \<Rightarrow> string \<Rightarrow> attribute_fact option" where
  "last_option params name =
     (case params of
        None \<Rightarrow> None
      | Some ps \<Rightarrow> List.find (\<lambda>p. eq_ignore_ascii_case (attr_name p) name) (rev ps))"

definition subscription_option :: "attribute_fact list option \<Rightarrow> string \<Rightarrow> string option" where
  "subscription_option params name = Option.bind (last_option params name) attr_value"

definition def_get_boolean :: "string \<Rightarrow> bool option" where
  "def_get_boolean v =
     (let w = to_ascii_lowercase v
      in if w = ''1'' \<or> w = ''true'' \<or> w = ''on'' then Some True
         else if w = ''0'' \<or> w = ''false'' \<or> w = ''off'' then Some False
         else None)"

definition subscription_boolean_option :: "attribute_fact list option \<Rightarrow> string \<Rightarrow> bool option" where
  "subscription_boolean_option params name =
     (case last_option params name of
        None \<Rightarrow> None
      | Some p \<Rightarrow> (case attr_value p of Some v \<Rightarrow> def_get_boolean v | None \<Rightarrow> Some True))"

text \<open>The loop over the spellings; the accumulator is \<^verbatim>\<open>matched\<close>.\<close>

fun match_spellings :: "string \<Rightarrow> bool option \<Rightarrow> (string \<times> bool) list \<Rightarrow> bool option" where
  "match_spellings candidate matched [] = matched"
| "match_spellings candidate matched ((spelling, parsed) # rest) =
     (if take (length candidate) spelling = candidate
      then (if matched \<noteq> None then None else match_spellings candidate (Some parsed) rest)
      else match_spellings candidate matched rest)"

definition boolean_spellings :: "(string \<times> bool) list" where
  "boolean_spellings =
     [(''true'', True), (''yes'', True), (''on'', True), (''false'', False), (''no'', False), (''off'', False)]"

definition postgres_boolean :: "string \<Rightarrow> bool option" where
  "postgres_boolean v =
     (let candidate = to_ascii_lowercase (trim v)
      in if candidate = [] then None
         else if candidate = ''1'' then Some True
         else if candidate = ''0'' then Some False
         else if candidate = ''o'' then None
         else match_spellings candidate None boolean_spellings)"

definition reloption_parses_bool :: "string \<Rightarrow> bool" where
  "reloption_parses_bool v \<longleftrightarrow> postgres_boolean v \<noteq> None"

definition pg_version_label :: "32 word \<Rightarrow> string" where
  "pg_version_label num = show_nat (unat (num div 10000))"

definition double_quoted :: "string \<Rightarrow> string" where
  "double_quoted s = [CHR 0x22] @ s @ [CHR 0x22]"

definition value_or_true :: "attribute_fact \<Rightarrow> string" where
  "value_or_true p = (case attr_value p of Some v \<Rightarrow> v | None \<Rightarrow> ''true'')"

definition option_conflict :: "attribute_fact \<Rightarrow> string \<Rightarrow> mutation_result" where
  "option_conflict p how = conflict (''subscription option '' @ quoted (attr_name p) @ '' requires '' @ how)"

definition check_streaming :: "32 word \<Rightarrow> attribute_fact \<Rightarrow> unit step" where
  "check_streaming num p =
     (if eq_ignore_ascii_case (value_or_true p) ''parallel''
      then (if num < 160000 then return_with (option_conflict p (''PostgreSQL 16 for '' @ double_quoted ''parallel'')) else ret ())
      else if def_get_boolean (value_or_true p) = None
      then return_with (option_conflict p (''a PostgreSQL boolean value or '' @ double_quoted ''parallel''))
      else ret ())"

definition validate_subscription_option :: "32 word option \<Rightarrow> attribute_fact \<Rightarrow> unit step" where
  "validate_subscription_option version p =
     (case List.find (\<lambda>k. eq_ignore_ascii_case (attr_name p) (spm_name k)) subscription_params of
        None \<Rightarrow> return_with (conflict (''unrecognized parameter '' @ double_quoted (attr_name p)))
      | Some k \<Rightarrow>
          if spm_value k = BooleanValue \<and> def_get_boolean (value_or_true p) = None
          then return_with (option_conflict p ''a PostgreSQL boolean value'')
          else (case spm_since k of
              None \<Rightarrow> ret ()
            | Some since \<Rightarrow>
                (case version of
                   None \<Rightarrow> modify (taint UnknownObjectState StatementScope)
                 | Some num \<Rightarrow>
                     if num < since then return_with (option_conflict p (''PostgreSQL '' @ pg_version_label since))
                     else if spm_value k = StreamingValue then check_streaming num p
                     else ret ())))"

definition validate_subscription_options :: "attribute_fact list option \<Rightarrow> unit step" where
  "validate_subscription_options params =
     (case params of
        None \<Rightarrow> ret ()
      | Some ps \<Rightarrow>
          andthen (asks (\<lambda>s. version_num (effective_pg_version s))) (\<lambda>version.
          for_each (validate_subscription_option version) ps))"

definition set_subscription_option :: "attribute_fact \<Rightarrow> subscription_state \<Rightarrow> subscription_state" where
  "set_subscription_option p q =
     q\<lparr>sub_params := Some (filter (\<lambda>e. \<not> eq_ignore_ascii_case (attr_name e) (attr_name p))
          (case sub_params q of Some ps \<Rightarrow> ps | None \<Rightarrow> []) @ [p])\<rparr>"

section \<open>CREATE SUBSCRIPTION\<close>

definition subscription_lookup :: "analysis_state \<Rightarrow> string \<Rightarrow> object_lookup" where
  "subscription_lookup s name =
     (case l_subscriptions (local s) name of
        Some (Present _) \<Rightarrow> LookupPresent
      | Some Dropped \<Rightarrow> Tombstone
      | None \<Rightarrow> if baseline_available s then AuthoritativelyAbsent else LookupUnknown)"

definition subscription_conflict :: "string \<Rightarrow> string \<Rightarrow> mutation_result" where
  "subscription_conflict name how = conflict (''subscription '' @ quoted name @ '' '' @ how)"

definition put_subscription :: "string \<Rightarrow> subscription_state overlay option \<Rightarrow> analysis_state \<Rightarrow> analysis_state" where
  "put_subscription name v = upd_local (\<lambda>l. l\<lparr>l_subscriptions := (l_subscriptions l)(name := v)\<rparr>)"

definition current_owner :: "analysis_state \<Rightarrow> string option" where
  "current_owner s =
     (if rc_current_role_known (role_context_of s) then Some (rc_current_role (role_context_of s)) else None)"

definition slot_of_params :: "string \<Rightarrow> attribute_fact list option \<Rightarrow> string option" where
  "slot_of_params name params =
     (case subscription_option params ''slot_name'' of
        Some v \<Rightarrow> if eq_ignore_ascii_case v ''none'' then None else Some v
      | None \<Rightarrow> Some name)"

definition insert_subscription ::
  "string \<Rightarrow> create_subscription \<Rightarrow> bool \<Rightarrow> string option \<Rightarrow> u64 \<Rightarrow> analysis_state \<Rightarrow> analysis_state" where
  "insert_subscription name c enabled slot_name generation s =
     put_subscription name (Some (Present
       \<lparr>sub_name = name, sub_owner = current_owner s, sub_connection = csb_connection c,
        sub_publications = csb_publications c, sub_params = csb_params c, sub_enabled = enabled,
        sub_slot_name = slot_name, sub_generation = generation\<rparr>)) s"

text \<open>What follows \<^verbatim>\<open>snapshot_subscription\<close>.\<close>

definition create_saved_subscription :: "string \<Rightarrow> create_subscription \<Rightarrow> bool \<Rightarrow> bool \<Rightarrow> unit step" where
  "create_saved_subscription name c connects creates_slot =
     andthen (modify bump_generation) (\<lambda>_.
     andthen (asks (\<lambda>s. l_generation_counter (local s))) (\<lambda>generation.
     andthen (if connects then modify (taint UnmodeledState ChainScope) else ret ()) (\<lambda>_.
       let enabled = (connects \<and> subscription_boolean_option (csb_params c) ''enabled'' \<noteq> Some False);
           slot_name = slot_of_params name (csb_params c)
       in if slot_name = None \<and> (enabled \<or> creates_slot)
          then return_with (subscription_conflict name ''with slot_name NONE must disable enabled and create_slot'')
          else if \<not> distinct (csb_publications c)
          then return_with (subscription_conflict name ''lists the same publication more than once'')
          else modify (insert_subscription name c enabled slot_name generation))))"

definition create_checked_subscription :: "string \<Rightarrow> create_subscription \<Rightarrow> bool \<Rightarrow> bool \<Rightarrow> unit step" where
  "create_checked_subscription name c connects creates_slot =
     (if \<not> connects
         \<and> list_ex (\<lambda>n. subscription_boolean_option (csb_params c) n = Some True) [''create_slot'', ''enabled'', ''copy_data'']
      then return_with (subscription_conflict name ''cannot enable connection-dependent options when connect is false'')
      else
        andthen (asks (\<lambda>s. transactions s \<noteq> [])) (\<lambda>in_transaction.
        if in_transaction \<and> connects \<and> creates_slot
        then return_with (subscription_conflict name ''cannot create a replication slot inside a transaction'')
        else andthen (modify (snapshot_subscription name)) (\<lambda>_. create_saved_subscription name c connects creates_slot)))"

definition apply_create_subscription :: "create_subscription \<Rightarrow> unit step" where
  "apply_create_subscription c =
     (let name = (case csb_name c of Some n \<Rightarrow> n | None \<Rightarrow> ''unnamed_sub'');
          params = csb_params c;
          connects = (subscription_boolean_option params ''connect'' \<noteq> Some False);
          creates_slot = (connects \<and> subscription_boolean_option params ''create_slot'' \<noteq> Some False)
      in andthen (asks (\<lambda>s. subscription_lookup s name)) (\<lambda>found.
         andthen
           (case found of
              LookupPresent \<Rightarrow> return_with (subscription_conflict name ''already exists'')
            | LookupUnknown \<Rightarrow> modify (taint UnknownObjectState ChainScope)
            | _ \<Rightarrow> ret ()) (\<lambda>_.
         andthen (validate_subscription_options params) (\<lambda>_.
         create_checked_subscription name c connects creates_slot))))"

section \<open>ALTER SUBSCRIPTION\<close>

text \<open>The first publication in the list that is repeated or fails the test.\<close>

fun first_offender :: "(string \<Rightarrow> bool) \<Rightarrow> string set \<Rightarrow> string list \<Rightarrow> string option" where
  "first_offender bad seen [] = None"
| "first_offender bad seen (p # ps) = (if p \<in> seen \<or> bad p then Some p else first_offender bad (insert p seen) ps)"

definition check_publications ::
  "string \<Rightarrow> subscription_state \<Rightarrow> subscription_publication_mode \<Rightarrow> string list \<Rightarrow> mutation_result option" where
  "check_publications name existing mode publications =
     (case mode of
        SetPublications \<Rightarrow>
          if distinct publications then None
          else Some (subscription_conflict name ''lists the same publication more than once'')
      | AddPublications \<Rightarrow>
          map_option (\<lambda>p. subscription_conflict name (''already includes publication '' @ quoted p))
            (first_offender (\<lambda>p. p \<in> set (sub_publications existing)) {} publications)
      | DropPublications \<Rightarrow>
          map_option (\<lambda>p. subscription_conflict name (''does not include publication '' @ quoted p))
            (first_offender (\<lambda>p. p \<notin> set (sub_publications existing)) {} publications))"

definition names_option :: "string \<Rightarrow> attribute_fact \<Rightarrow> bool" where
  "names_option name p = eq_ignore_ascii_case (attr_name p) name"

definition check_option_change :: "string \<Rightarrow> subscription_state \<Rightarrow> bool \<Rightarrow> attribute_fact list \<Rightarrow> mutation_result option" where
  "check_option_change name existing in_transaction options =
     (if sub_enabled existing \<and> list_ex (names_option ''slot_name'') options
      then Some (subscription_conflict name ''must be disabled before changing slot_name'')
      else if list_ex (\<lambda>p. names_option ''failover'' p \<or> names_option ''two_phase'' p) options \<and> sub_enabled existing
      then Some (subscription_conflict name ''must be disabled before changing failover or two_phase'')
      else if in_transaction \<and> list_ex (\<lambda>p. names_option ''failover'' p
             \<or> (names_option ''two_phase'' p \<and> postgres_boolean (value_or_true p) = Some False)) options
      then Some (subscription_conflict name ''cannot change this setting inside a transaction'')
      else None)"

fun check_subscription_action ::
  "string \<Rightarrow> subscription_state \<Rightarrow> bool \<Rightarrow> alter_subscription_action \<Rightarrow> mutation_result option" where
  "check_subscription_action name existing in_transaction (SubscriptionPublications mode publications params) =
     (if in_transaction \<and> subscription_boolean_option (Some params) ''refresh'' \<noteq> Some False
      then Some (subscription_conflict name ''cannot refresh publications inside a transaction'')
      else check_publications name existing mode publications)"
| "check_subscription_action name existing in_transaction (RefreshPublication _) =
     (if in_transaction then Some (subscription_conflict name ''cannot refresh publications inside a transaction'') else None)"
| "check_subscription_action name existing in_transaction (SetSubscriptionOptions options) =
     check_option_change name existing in_transaction options"
| "check_subscription_action name existing in_transaction (SetEnabled enabled) =
     (if enabled \<and> sub_slot_name existing = None
      then Some (subscription_conflict name ''cannot be enabled without a slot_name'') else None)"
| "check_subscription_action name existing in_transaction _ = None"

definition update_subscription :: "string \<Rightarrow> (subscription_state \<Rightarrow> subscription_state) \<Rightarrow> analysis_state \<Rightarrow> analysis_state" where
  "update_subscription name f s =
     (case l_subscriptions (local s) name of
        Some (Present q) \<Rightarrow> put_subscription name (Some (Present (f q))) s
      | _ \<Rightarrow> s)"

definition set_option_and_slot :: "attribute_fact \<Rightarrow> subscription_state \<Rightarrow> subscription_state" where
  "set_option_and_slot p q =
     (let q1 = set_subscription_option p q; slot = value_or_true p
      in if names_option ''slot_name'' p
         then q1\<lparr>sub_slot_name := (if eq_ignore_ascii_case slot ''none'' then None else Some slot)\<rparr>
         else q1)"

definition change_publications :: "subscription_publication_mode \<Rightarrow> string list \<Rightarrow> subscription_state \<Rightarrow> subscription_state" where
  "change_publications mode publications q =
     q\<lparr>sub_publications :=
        (case mode of
           SetPublications \<Rightarrow> publications
         | AddPublications \<Rightarrow> sub_publications q @ publications
         | DropPublications \<Rightarrow> filter (\<lambda>e. e \<notin> set publications) (sub_publications q))\<rparr>"

definition change_owner :: "string \<Rightarrow> role_fact \<Rightarrow> unit step" where
  "change_owner name role =
     andthen (asks (\<lambda>s. role_fact_identity s role)) (\<lambda>identity.
     case identity of
       Some (owner, known) \<Rightarrow>
         if known
         then andthen (asks (\<lambda>s. l_roles_known (local s))) (\<lambda>roles_known.
              andthen (if \<not> roles_known then coverage_gap else ret ()) (\<lambda>_.
              modify (update_subscription name (sub_owner_update (\<lambda>_. Some owner)))))
         else andthen (modify (taint UnresolvedReference ChainScope)) (\<lambda>_.
              modify (update_subscription name (sub_owner_update (\<lambda>_. None))))
     | None \<Rightarrow>
         andthen (modify (taint UnresolvedReference ChainScope)) (\<lambda>_.
         modify (update_subscription name (sub_owner_update (\<lambda>_. None)))))"

fun change_subscription :: "string \<Rightarrow> alter_subscription_action \<Rightarrow> unit step" where
  "change_subscription name (SetConnection connection) =
     modify (update_subscription name (\<lambda>q. q\<lparr>sub_connection := connection\<rparr>))"
| "change_subscription name (SetServer server) =
     andthen (modify (update_subscription name (\<lambda>q. q\<lparr>sub_connection := ServerTarget server\<rparr>))) (\<lambda>_.
     modify (taint UnmodeledState ChainScope))"
| "change_subscription name (SubscriptionPublications mode publications params) =
     andthen
       (if subscription_boolean_option (Some params) ''refresh'' \<noteq> Some False
        then modify (taint UnmodeledState ChainScope) else ret ()) (\<lambda>_.
     modify (update_subscription name (change_publications mode publications)))"
| "change_subscription name (RefreshPublication _) = modify (taint UnmodeledState ChainScope)"
| "change_subscription name (SetEnabled enabled) = modify (update_subscription name (\<lambda>q. q\<lparr>sub_enabled := enabled\<rparr>))"
| "change_subscription name (SetSubscriptionOptions options) =
     modify (update_subscription name (fold set_option_and_slot options))"
| "change_subscription name (Skip options) =
     modify (update_subscription name (fold (\<lambda>p. set_subscription_option (p\<lparr>attr_name := ''skip_lsn''\<rparr>)) options))"
| "change_subscription name (SubscriptionOwner role) = change_owner name role"
| "change_subscription name (RenameSubscription _) = ret ()"

definition move_subscription :: "string \<Rightarrow> string \<Rightarrow> analysis_state \<Rightarrow> analysis_state" where
  "move_subscription name to s =
     (case l_subscriptions (local s) name of
        Some (Present q) \<Rightarrow> put_subscription to (Some (Present (q\<lparr>sub_name := to\<rparr>))) (put_subscription name None s)
      | _ \<Rightarrow> s)"

definition alter_saved_subscription :: "string \<Rightarrow> alter_subscription_action \<Rightarrow> unit step" where
  "alter_saved_subscription name action =
     andthen (modify bump_generation) (\<lambda>_.
     andthen (asks (\<lambda>s. l_generation_counter (local s))) (\<lambda>generation.
     andthen (change_subscription name action) (\<lambda>_.
     andthen (modify (update_subscription name (\<lambda>q. q\<lparr>sub_generation := generation\<rparr>))) (\<lambda>_.
     case action of
       RenameSubscription to \<Rightarrow>
         andthen (modify (snapshot_subscription to)) (\<lambda>_. modify (move_subscription name to))
     | _ \<Rightarrow> ret ()))))"

definition ensure_rename_target :: "(analysis_state \<Rightarrow> string \<Rightarrow> object_lookup) \<Rightarrow> mutation_result \<Rightarrow> string \<Rightarrow> unit step" where
  "ensure_rename_target lookup exists to =
     andthen (asks (\<lambda>s. lookup s to)) (\<lambda>found.
     case found of
       LookupPresent \<Rightarrow> return_with exists
     | LookupUnknown \<Rightarrow> give_up UnknownObjectState
     | _ \<Rightarrow> ret ())"

definition ensure_new_owner :: "role_fact \<Rightarrow> unit step" where
  "ensure_new_owner role =
     andthen (asks (\<lambda>s. case role_fact_identity s role of
         Some (owner, known) \<Rightarrow>
           if known \<and> l_roles_known (local s) \<and> present_role s owner = None then Some owner else None
       | None \<Rightarrow> None)) (\<lambda>missing.
     case missing of Some owner \<Rightarrow> return_with (no_such_role owner) | None \<Rightarrow> ret ())"

definition alter_unless_refused :: "string \<Rightarrow> alter_subscription_action \<Rightarrow> mutation_result option \<Rightarrow> unit step" where
  "alter_unless_refused name action refused =
     (case refused of
        Some r \<Rightarrow> return_with r
      | None \<Rightarrow> andthen (modify (snapshot_subscription name)) (\<lambda>_. alter_saved_subscription name action))"

definition apply_alter_subscription :: "alter_subscription \<Rightarrow> unit step" where
  "apply_alter_subscription a =
     (let name = asb_name a; action = asb_action a
      in andthen (asks (\<lambda>s. subscription_lookup s name)) (\<lambda>found.
         andthen
           (case found of
              LookupPresent \<Rightarrow> ret ()
            | LookupUnknown \<Rightarrow> give_up UnknownObjectState
            | _ \<Rightarrow> return_with (subscription_conflict name ''does not exist'')) (\<lambda>_.
         andthen
           (case action of
              RenameSubscription to \<Rightarrow> ensure_rename_target subscription_lookup (subscription_conflict to ''already exists'') to
            | SubscriptionOwner role \<Rightarrow> ensure_new_owner role
            | _ \<Rightarrow> ret ()) (\<lambda>_.
         andthen (validate_subscription_options (action_params action)) (\<lambda>_.
         andthen (asks (\<lambda>s. case l_subscriptions (local s) name of
             Some (Present q) \<Rightarrow> check_subscription_action name q (transactions s \<noteq> []) action
           | _ \<Rightarrow> None)) (\<lambda>refused.
         alter_unless_refused name action refused))))))"

section \<open>DROP SUBSCRIPTION\<close>

definition drop_present_subscription :: "string \<Rightarrow> unit step" where
  "drop_present_subscription name =
     andthen (asks (\<lambda>s. (case l_subscriptions (local s) name of Some (Present q) \<Rightarrow> sub_slot_name q \<noteq> None | _ \<Rightarrow> False)
                        \<and> transactions s \<noteq> [])) (\<lambda>refused.
     if refused
     then return_with (subscription_conflict name ''has a replication slot and cannot be dropped inside a transaction'')
     else
       andthen (modify (taint UnmodeledState ChainScope)) (\<lambda>_.
       modify (\<lambda>s. put_subscription name (Some Dropped) (snapshot_subscription name s))))"

definition apply_drop_subscription :: "drop_subscription \<Rightarrow> unit step" where
  "apply_drop_subscription d =
     andthen (asks (\<lambda>s. subscription_lookup s (dsb_name d))) (\<lambda>found.
     case found of
       LookupPresent \<Rightarrow> drop_present_subscription (dsb_name d)
     | LookupUnknown \<Rightarrow> give_up UnknownObjectState
     | _ \<Rightarrow> return_with (if dsb_if_exists d then NoOp else subscription_conflict (dsb_name d) ''does not exist''))"

section \<open>The handlers are logged and return\<close>

text \<open>Checks record evidence only; they keep every guarantee that evidence keeps.\<close>

context evidence_contract
begin

lemma holds_validate_options [holds_intros]: "holds R (validate_subscription_options params)"
  unfolding validate_subscription_options_def validate_subscription_option_def check_streaming_def
  by (intro holds_intros)

lemma holds_new_name [holds_intros]: "holds R (ensure_rename_target lookup exists to)"
  unfolding ensure_rename_target_def by (intro holds_intros)

lemma holds_new_owner [holds_intros]: "holds R (ensure_new_owner role)"
  unfolding ensure_new_owner_def by (intro holds_intros)

end

definition forget_subscription :: "string \<Rightarrow> analysis_state \<Rightarrow> analysis_state" where
  "forget_subscription name = upd_local (\<lambda>l. l\<lparr>l_subscriptions := (l_subscriptions l)(name := None)\<rparr>)"

lemma subscription_restored:
  assumes "forget_subscription name (core u) = forget_subscription name (core s)"
  shows "core (undo_change (SubscriptionSnapshot (Oid [] name) (l_subscriptions (local s) name)) u) = core s"
proof -
  let ?c = "SubscriptionSnapshot (Oid [] name) (l_subscriptions (local s) name)"
  have "core (undo_change ?c (forget_subscription name (core v))) = core (undo_change ?c v)" for v
    by (simp add: forget_subscription_def upd_local_def core_def mrestore_def)
  then have "core (undo_change ?c u) = core (undo_change ?c s)" using assms by metis
  then show ?thesis by (simp add: core_def mrestore_def)
qed

interpretation saved_subscription: saved_entry
  "\<lambda>s. SubscriptionSnapshot (Oid [] name) (l_subscriptions (local s) name)" "forget_subscription name" for name
proof
  show "forget_subscription name (core (undo_change c (forget_subscription name (core s)))) =
      forget_subscription name (core (undo_change c s))" for c s
    by (cases c) (simp_all add: forget_subscription_def upd_local_def core_def restore_namespace_def mrestore_def fun_upd_twist)
qed (rule subscription_restored)

lemma put_subscription_modulo: "logged_modulo (forget_subscription name) s (put_subscription name v s)"
  by (rule saved_subscription.modulo_entry) (simp_all add: put_subscription_def upd_local_def forget_subscription_def core_def)

lemma update_subscription_modulo: "logged_modulo (forget_subscription name) s (update_subscription name f s)"
  by (simp add: update_subscription_def put_subscription_modulo saved_subscription.modulo_refl split: option.split overlay.split)

lemma put_subscription_logged: "logged s (put_subscription name v (snapshot_subscription name s))"
  unfolding snapshot_subscription_def by (rule saved_subscription.after_snapshot) (rule put_subscription_modulo)

lemma snapshot_subscription_logged: "logged s (snapshot_subscription name s)"
  unfolding snapshot_subscription_def by (rule saved_subscription.after_snapshot) (rule saved_subscription.modulo_refl)

lemma move_subscription_modulo:
  "logged_modulo (forget_subscription name) s (move_subscription name to (snapshot_subscription to s))"
proof -
  let ?t = "move_subscription name to (snapshot_subscription to s)"
  let ?c = "SubscriptionSnapshot (Oid [] to) (l_subscriptions (local s) to)"
  have "graph_of ?t = graph_of s" "transactions ?t = log_on_top [?c] (transactions s)"
    "l_transaction_aborted (local ?t) = l_transaction_aborted (local s)"
    by (simp_all add: move_subscription_def put_subscription_def upd_local_def snapshot_subscription_def log_change_def
        split: option.split overlay.split)
  moreover have "forget_subscription name (core (undo_change ?c ?t)) = forget_subscription name (core s)"
    by (auto simp: move_subscription_def put_subscription_def upd_local_def snapshot_subscription_def log_change_def
        forget_subscription_def core_def mrestore_def fun_upd_twist split: option.split overlay.split)
  ultimately show ?thesis by (auto simp: logged_modulo_def intro!: exI [of _ "[?c]"])
qed

lemma modify_modify: "andthen (modify f) (\<lambda>_. modify g) = modify (\<lambda>s. g (f s))"
  by (simp add: andthen_def modify_def fun_eq_iff)

lemma modulo_modify:
  "(\<And>s. logged_modulo (forget_subscription name) s (f s)) \<Longrightarrow> holds (logged_modulo (forget_subscription name)) (modify f)"
  by (rule saved_subscription.modulo.holds_modify)

lemma change_owner_modulo: "holds (logged_modulo (forget_subscription name)) (change_owner name role)"
  unfolding change_owner_def coverage_gap_def
  by (intro holds_intros holds_prod modulo_modify update_subscription_modulo)

lemma change_subscription_modulo: "holds (logged_modulo (forget_subscription name)) (change_subscription name action)"
  by (cases action) (simp_all only: change_subscription.simps,
      (intro holds_intros modulo_modify update_subscription_modulo change_owner_modulo)+)

lemma alter_saved_subscription_modulo: "holds (logged_modulo (forget_subscription name)) (alter_saved_subscription name action)"
proof -
  have "holds (logged_modulo (forget_subscription name))
      (case action of RenameSubscription to \<Rightarrow>
         andthen (modify (snapshot_subscription to)) (\<lambda>_. modify (move_subscription name to)) | _ \<Rightarrow> ret ())"
    by (cases action) (simp_all add: modify_modify modulo_modify move_subscription_modulo saved_subscription.modulo.holds_ret)
  then show ?thesis
    unfolding alter_saved_subscription_def
    by (intro holds_intros modulo_modify change_subscription_modulo update_subscription_modulo
        logged_imp_modulo [OF bump_generation_logged])
qed

lemma create_saved_subscription_modulo:
  "holds (logged_modulo (forget_subscription name)) (create_saved_subscription name c connects creates_slot)"
  unfolding create_saved_subscription_def Let_def insert_subscription_def
  by (intro holds_intros modulo_modify put_subscription_modulo logged_imp_modulo [OF bump_generation_logged])

lemma keeps_create_subscription: "holds logged (apply_create_subscription c)"
  unfolding apply_create_subscription_def create_checked_subscription_def Let_def snapshot_subscription_def
  by (intro holds_intros saved_subscription.holds_after_snapshot create_saved_subscription_modulo)

lemma keeps_action_checks [holds_intros]:
  "holds logged (case action of
      RenameSubscription to \<Rightarrow> ensure_rename_target subscription_lookup (subscription_conflict to ''already exists'') to
    | SubscriptionOwner role \<Rightarrow> ensure_new_owner role
    | _ \<Rightarrow> ret ())"
  by (cases action) (simp_all add: logging.holds_new_name logging.holds_new_owner logging.holds_ret)

lemma keeps_alter_subscription: "holds logged (apply_alter_subscription a)"
  unfolding apply_alter_subscription_def alter_unless_refused_def Let_def snapshot_subscription_def
  by (intro holds_intros saved_subscription.holds_after_snapshot alter_saved_subscription_modulo)

lemma keeps_drop_subscription: "holds logged (apply_drop_subscription d)"
  unfolding apply_drop_subscription_def drop_present_subscription_def by (intro holds_intros put_subscription_logged)

lemmas keeps_subscriptions = keeps_create_subscription keeps_alter_subscription keeps_drop_subscription

lemma total_validate_options [total_intros]: "total (validate_subscription_options params)"
  unfolding validate_subscription_options_def validate_subscription_option_def check_streaming_def by (intro total_intros)

lemma total_create_subscription: "total (apply_create_subscription c)"
  unfolding apply_create_subscription_def create_checked_subscription_def create_saved_subscription_def Let_def by (intro total_intros)

lemma total_alter_parts [total_intros]:
  "total (change_subscription name action)" "total (ensure_rename_target lookup exists to)" "total (ensure_new_owner role)"
  subgoal by (cases action) (simp_all only: change_subscription.simps change_owner_def coverage_gap_def, (intro total_intros)+)
  subgoal unfolding ensure_rename_target_def by (intro total_intros)
  subgoal unfolding ensure_new_owner_def by (intro total_intros)
  done

lemma total_alter_subscription: "total (apply_alter_subscription a)"
proof -
  have "total (case asb_action a of
      RenameSubscription to \<Rightarrow> ensure_rename_target subscription_lookup (subscription_conflict to ''already exists'') to
    | SubscriptionOwner role \<Rightarrow> ensure_new_owner role
    | _ \<Rightarrow> ret ())" "total (case asb_action a of RenameSubscription to \<Rightarrow>
      andthen (modify (snapshot_subscription to)) (\<lambda>_. modify (move_subscription (asb_name a) to)) | _ \<Rightarrow> ret ())"
    by (cases "asb_action a"; simp add: total_intros)+
  then show ?thesis
    unfolding apply_alter_subscription_def alter_unless_refused_def alter_saved_subscription_def Let_def by (intro total_intros)
qed

lemma total_drop_subscription: "total (apply_drop_subscription d)"
  unfolding apply_drop_subscription_def drop_present_subscription_def by (intro total_intros)

lemmas total_subscriptions = total_create_subscription total_alter_subscription total_drop_subscription

section \<open>Boolean values\<close>

lemma match_spellings_eq:
  "match_spellings w m sps =
     (case (m, map snd (filter (\<lambda>(spelling, _). take (length w) spelling = w) sps)) of
        (x, []) \<Rightarrow> x | (None, [b]) \<Rightarrow> Some b | _ \<Rightarrow> None)"
  by (induction w m sps rule: match_spellings.induct) (auto split: list.split option.split)

text \<open>
  A value is a PostgreSQL boolean exactly when, trimmed and folded to lower case, it is \<^verbatim>\<open>1\<close> or \<^verbatim>\<open>0\<close> or a
  prefix of exactly one of the spellings of true and false; the test of \<^verbatim>\<open>o\<close>, which starts both \<^verbatim>\<open>on\<close> and
  \<^verbatim>\<open>off\<close>, adds nothing to that rule.
\<close>

theorem postgres_boolean_exact:
  "postgres_boolean v = Some b \<longleftrightarrow>
     (let w = to_ascii_lowercase (trim v)
      in w = (if b then ''1'' else ''0'')
         \<or> map snd (filter (\<lambda>(spelling, _). take (length w) spelling = w) boolean_spellings) = [b])"
proof -
  define w where "w = to_ascii_lowercase (trim v)"
  let ?hits = "map snd (filter (\<lambda>(spelling, _). take (length w) spelling = w) boolean_spellings)"
  show ?thesis
  proof (cases "w = [] \<or> w = ''1'' \<or> w = ''0'' \<or> w = ''o''")
    case True
    then show ?thesis
      by (auto simp: postgres_boolean_def w_def [symmetric] Let_def boolean_spellings_def)
  next
    case False
    then have "postgres_boolean v = match_spellings w None boolean_spellings"
      by (simp add: postgres_boolean_def w_def [symmetric] Let_def)
    also have "\<dots> = Some b \<longleftrightarrow> ?hits = [b]"
      unfolding match_spellings_eq by (simp split: list.split)
    finally show ?thesis using False by (simp add: w_def [symmetric] Let_def)
  qed
qed

section \<open>Enabled subscriptions have a slot\<close>

definition subscription_ok :: "string \<Rightarrow> subscription_state \<Rightarrow> bool" where
  "subscription_ok name q \<longleftrightarrow>
     sub_name q = name \<and> (sub_enabled q \<longrightarrow> sub_slot_name q \<noteq> None) \<and> distinct (sub_publications q)"

definition subscriptions_ok :: "analysis_state \<Rightarrow> bool" where
  "subscriptions_ok s \<longleftrightarrow> (\<forall>n q. l_subscriptions (local s) n = Some (Present q) \<longrightarrow> subscription_ok n q)"

lemma subscriptions_ok_cong: "l_subscriptions (local t) = l_subscriptions (local s) \<Longrightarrow> subscriptions_ok t \<longleftrightarrow> subscriptions_ok s"
  by (simp add: subscriptions_ok_def)

definition same_subscriptions :: "analysis_state \<Rightarrow> analysis_state \<Rightarrow> bool" where
  "same_subscriptions s t \<longleftrightarrow> l_subscriptions (local t) = l_subscriptions (local s)"

lemma subscriptions_frame [simp]:
  "l_subscriptions (local (taint code scope s)) = l_subscriptions (local s)"
  "l_subscriptions (local (snapshot_subscription name s)) = l_subscriptions (local s)"
  "l_subscriptions (local (bump_generation s)) = l_subscriptions (local s)"
  by (simp_all add: taint_def record_evidence_def mark_tainted_def bump_generation_def upd_local_def snapshot_defs Let_def
      log_change_def)

lemma subscriptions_put [simp]:
  "l_subscriptions (local (put_subscription name v s)) = (l_subscriptions (local s))(name := v)"
  by (simp add: put_subscription_def upd_local_def)

interpretation same_subscriptions: evidence_contract same_subscriptions
  by unfold_locales (simp_all add: same_subscriptions_def)

lemma wp_same_subscriptions:
  assumes "holds same_subscriptions m" "\<And>x t. l_subscriptions (local t) = l_subscriptions (local s) \<Longrightarrow> Q x t"
    "\<And>t. l_subscriptions (local t) = l_subscriptions (local s) \<Longrightarrow> E t"
  shows "wp m Q E s"
  using assms by (auto simp: wp_def holds_def same_subscriptions_def split: option.splits sum.splits)

lemma subscriptions_ok_put:
  "subscriptions_ok s \<Longrightarrow> subscription_ok name q \<Longrightarrow> subscriptions_ok (put_subscription name (Some (Present q)) s)"
  "subscriptions_ok s \<Longrightarrow> subscriptions_ok (put_subscription name (Some Dropped) s)"
  "subscriptions_ok s \<Longrightarrow> subscriptions_ok (put_subscription name None s)"
  by (simp_all add: subscriptions_ok_def)

lemma first_offender_None:
  "first_offender bad seen ps = None \<longleftrightarrow> distinct ps \<and> set ps \<inter> seen = {} \<and> (\<forall>p \<in> set ps. \<not> bad p)"
  by (induction ps arbitrary: seen) auto

lemma create_subscription_keeps_ok:
  assumes "subscriptions_ok s"
  shows "wp (apply_create_subscription c) (\<lambda>_. subscriptions_ok) subscriptions_ok s"
proof -
  have saved: "wp (create_saved_subscription name c connects creates_slot) (\<lambda>_. subscriptions_ok) subscriptions_ok u"
    if "subscriptions_ok u" for name connects creates_slot u
    using that
    by (auto simp: create_saved_subscription_def wp_simps Let_def insert_subscription_def subscription_ok_def
        cong: subscriptions_ok_cong intro!: subscriptions_ok_put)
  have same: "subscriptions_ok t" if "l_subscriptions (local t) = l_subscriptions (local u)" "subscriptions_ok u" for t u
    using that subscriptions_ok_cong by blast
  have checked: "wp (create_checked_subscription name c connects creates_slot) (\<lambda>_. subscriptions_ok) subscriptions_ok u"
    if "subscriptions_ok u" for name connects creates_slot u
  proof -
    have "subscriptions_ok (snapshot_subscription name u)" by (rule same [OF _ that]) simp
    then show ?thesis using that saved by (simp add: create_checked_subscription_def wp_simps)
  qed
  have rest: "wp (validate_subscription_options p)
      (\<lambda>_. wp (create_checked_subscription name c connects creates_slot) (\<lambda>_. subscriptions_ok) subscriptions_ok)
      subscriptions_ok u"
    if "subscriptions_ok u" for p name connects creates_slot u
    by (rule wp_same_subscriptions [OF same_subscriptions.holds_validate_options]) (use same that checked in blast)+
  have tainted: "subscriptions_ok (taint UnknownObjectState ChainScope s)"
    by (rule same [OF _ assms]) simp
  show ?thesis
    unfolding apply_create_subscription_def Let_def
    using assms rest [OF assms] rest [OF tainted]
    by (simp add: wp_andthen wp_asks wp_lookup wp_return_with wp_modify wp_ret split: object_lookup.split)
qed

lemma update_subscription_ok:
  assumes "subscriptions_ok s"
    "\<And>q. l_subscriptions (local s) name = Some (Present q) \<Longrightarrow> subscription_ok name q \<Longrightarrow> subscription_ok name (f q)"
  shows "subscriptions_ok (update_subscription name f s)"
  using assms by (auto simp: update_subscription_def subscriptions_ok_def split: option.split overlay.split)

lemma set_option_keeps [simp]:
  "sub_name (set_subscription_option p q) = sub_name q" "sub_enabled (set_subscription_option p q) = sub_enabled q"
  "sub_slot_name (set_subscription_option p q) = sub_slot_name q"
  "sub_publications (set_subscription_option p q) = sub_publications q"
  by (simp_all add: set_subscription_option_def)

lemma set_options_keep:
  "sub_name (fold set_option_and_slot ps q) = sub_name q \<and> sub_enabled (fold set_option_and_slot ps q) = sub_enabled q
   \<and> sub_publications (fold set_option_and_slot ps q) = sub_publications q
   \<and> (\<not> list_ex (names_option ''slot_name'') ps \<longrightarrow> sub_slot_name (fold set_option_and_slot ps q) = sub_slot_name q)"
  by (induction ps arbitrary: q) (auto simp: set_option_and_slot_def Let_def)

lemma skip_keeps: "subscription_ok name (fold (\<lambda>p. set_subscription_option (g p)) ps q) \<longleftrightarrow> subscription_ok name q"
  by (induction ps arbitrary: q) (auto simp: subscription_ok_def)

lemma change_publications_ok:
  "check_publications name q mode ps = None \<Longrightarrow> subscription_ok name q \<Longrightarrow> subscription_ok name (change_publications mode ps q)"
  by (cases mode) (auto simp: check_publications_def change_publications_def subscription_ok_def first_offender_None
      split: if_splits)

lemma options_ok:
  "check_option_change name q b ps = None \<Longrightarrow> subscription_ok name q \<Longrightarrow> subscription_ok name (fold set_option_and_slot ps q)"
  using set_options_keep [of ps q] by (auto simp: check_option_change_def subscription_ok_def split: if_splits)

lemma change_subscription_ok:
  assumes "subscriptions_ok s" "l_subscriptions (local s) name = Some (Present q)"
    "check_subscription_action name q b action = None"
  shows "wp (change_subscription name action) (\<lambda>_. subscriptions_ok) subscriptions_ok s"
proof -
  have tainted: "subscriptions_ok (taint code scope u) \<longleftrightarrow> subscriptions_ok u" for code scope u
    by (rule subscriptions_ok_cong) simp
  have owner: "subscription_ok name (r\<lparr>sub_owner := x\<rparr>) \<longleftrightarrow> subscription_ok name r"
    "subscription_ok name (r\<lparr>sub_connection := c\<rparr>) \<longleftrightarrow> subscription_ok name r" for r x c
    by (simp_all add: subscription_ok_def)
  have q: "subscription_ok name q" using assms(1,2) by (simp add: subscriptions_ok_def)
  show ?thesis
  proof (cases action)
    case (SubscriptionPublications mode ps params)
    then have "check_publications name q mode ps = None" using assms(3) by (simp split: if_splits)
    then show ?thesis using SubscriptionPublications assms(1,2)
      by (auto simp: wp_simps tainted intro!: update_subscription_ok change_publications_ok)
  next
    case (SetSubscriptionOptions ps)
    then show ?thesis using assms
      by (auto simp: wp_simps intro!: update_subscription_ok options_ok)
  next
    case (SetEnabled e)
    then show ?thesis using assms
      by (auto simp: wp_simps subscription_ok_def split: if_splits intro!: update_subscription_ok)
  next
    case (SubscriptionOwner role)
    then show ?thesis using assms(1)
      by (simp add: change_owner_def coverage_gap_def wp_simps tainted owner update_subscription_ok split: option.split prod.split)
  qed (use assms(1) in \<open>simp_all add: wp_simps tainted owner skip_keeps update_subscription_ok\<close>)
qed

lemma change_keeps_entry:
  assumes "\<exists>q. l_subscriptions (local s) name = Some (Present q)"
  shows "wp (change_subscription name action) (\<lambda>_ t. \<exists>q. l_subscriptions (local t) name = Some (Present q)) (\<lambda>_. True) s"
  using assms by (cases action)
    (auto simp: wp_simps change_owner_def coverage_gap_def update_subscription_def split: option.split prod.split)

lemma wp_conj: "wp m Q E s \<Longrightarrow> wp m Q' E' s \<Longrightarrow> wp m (\<lambda>x t. Q x t \<and> Q' x t) (\<lambda>t. E t \<and> E' t) s"
  by (auto simp: wp_def split: option.splits sum.splits)

lemma alter_saved_subscription_ok:
  assumes "subscriptions_ok s" "l_subscriptions (local s) name = Some (Present q)"
    "check_subscription_action name q b action = None"
  shows "wp (alter_saved_subscription name action) (\<lambda>_. subscriptions_ok) subscriptions_ok s"
proof -
  let ?s = "bump_generation s"
  have s: "subscriptions_ok ?s" "l_subscriptions (local ?s) name = Some (Present q)"
    using assms subscriptions_ok_cong [of ?s s] by simp_all
  have stamped: "subscriptions_ok (update_subscription name (\<lambda>q. q\<lparr>sub_generation := g\<rparr>) u)" if "subscriptions_ok u" for g u
    by (rule update_subscription_ok [OF that]) (simp add: subscription_ok_def)
  have moved: "subscriptions_ok (move_subscription name to (snapshot_subscription to u))" if "subscriptions_ok u" for to u
  proof -
    have "subscriptions_ok (snapshot_subscription to u)" using that subscriptions_ok_cong [of "snapshot_subscription to u" u] by simp
    then show ?thesis
      by (auto simp: move_subscription_def subscriptions_ok_def subscription_ok_def split: option.split overlay.split)
  qed
  have rest: "wp (andthen (modify (update_subscription name (\<lambda>q. q\<lparr>sub_generation := g\<rparr>))) (\<lambda>_.
      case action of RenameSubscription to \<Rightarrow>
         andthen (modify (snapshot_subscription to)) (\<lambda>_. modify (move_subscription name to)) | _ \<Rightarrow> ret ()))
      (\<lambda>_. subscriptions_ok) subscriptions_ok u" if "subscriptions_ok u" for g u
    using stamped [OF that] moved by (cases action) (simp_all add: wp_simps)
  show ?thesis
    unfolding alter_saved_subscription_def wp_andthen [of "modify bump_generation"] wp_modify wp_andthen [of "asks _"] wp_asks
      wp_andthen [of "change_subscription _ _"]
    by (rule wp_mono [OF change_subscription_ok [OF s assms(3)]]) (simp_all add: rest)
qed

lemma alter_subscription_keeps_ok:
  assumes "subscriptions_ok s"
  shows "wp (apply_alter_subscription a) (\<lambda>_. subscriptions_ok) subscriptions_ok s"
proof -
  let ?name = "asb_name a" and ?action = "asb_action a"
  have same: "subscriptions_ok t" if "l_subscriptions (local t) = l_subscriptions (local s)" for t
    using that assms subscriptions_ok_cong by blast
  have checks: "holds same_subscriptions (case ?action of
      RenameSubscription to \<Rightarrow> ensure_rename_target subscription_lookup (subscription_conflict to ''already exists'') to
    | SubscriptionOwner role \<Rightarrow> ensure_new_owner role
    | _ \<Rightarrow> ret ())"
    by (cases ?action) (simp_all add: same_subscriptions.holds_new_name same_subscriptions.holds_new_owner same_subscriptions.holds_ret)
  have saved: "wp (alter_unless_refused ?name ?action refused) (\<lambda>_. subscriptions_ok) subscriptions_ok t"
    if t: "l_subscriptions (local t) = l_subscriptions (local s)" "l_subscriptions (local s) ?name = Some (Present q)"
      and refused: "refused = check_subscription_action ?name q b ?action" for t q b refused
  proof (cases refused)
    case None
    have "subscriptions_ok (snapshot_subscription ?name t)" by (rule same) (simp add: t)
    then show ?thesis
      using None refused t alter_saved_subscription_ok [of "snapshot_subscription ?name t" ?name q b ?action]
      by (simp add: alter_unless_refused_def wp_simps)
  qed (simp add: alter_unless_refused_def wp_simps same t)
  show ?thesis
  proof (cases "subscription_lookup s ?name")
    case LookupPresent
    then obtain q where q: "l_subscriptions (local s) ?name = Some (Present q)"
      by (auto simp: subscription_lookup_def split: option.splits overlay.splits if_splits)
    have unless: "wp (andthen (asks (\<lambda>s. case l_subscriptions (local s) ?name of
          Some (Present q) \<Rightarrow> check_subscription_action ?name q (transactions s \<noteq> []) ?action | _ \<Rightarrow> None))
          (alter_unless_refused ?name ?action)) (\<lambda>_. subscriptions_ok) subscriptions_ok t"
      if "l_subscriptions (local t) = l_subscriptions (local s)" for t
      using that q saved [OF that q] by (simp add: wp_andthen wp_asks)
    have validated: "wp (andthen (validate_subscription_options ps) (\<lambda>_. andthen (asks (\<lambda>s. case l_subscriptions (local s) ?name of
          Some (Present q) \<Rightarrow> check_subscription_action ?name q (transactions s \<noteq> []) ?action | _ \<Rightarrow> None))
          (alter_unless_refused ?name ?action))) (\<lambda>_. subscriptions_ok) subscriptions_ok t"
      if "l_subscriptions (local t) = l_subscriptions (local s)" for t ps
      unfolding wp_andthen [of "validate_subscription_options ps"]
      by (rule wp_same_subscriptions [OF same_subscriptions.holds_validate_options]) (simp_all add: that unless same)
    show ?thesis
      unfolding apply_alter_subscription_def Let_def wp_andthen [of "asks (\<lambda>s. subscription_lookup s ?name)"] wp_asks
        LookupPresent object_lookup.case wp_andthen [of "ret ()"] wp_ret wp_andthen [of "case ?action of _ \<Rightarrow> _"]
      by (rule wp_same_subscriptions [OF checks]) (simp_all add: validated [unfolded wp_andthen wp_asks] same)
  qed (use assms same in \<open>simp_all add: apply_alter_subscription_def Let_def wp_simps\<close>)
qed

lemma drop_subscription_keeps_ok:
  assumes "subscriptions_ok s"
  shows "wp (apply_drop_subscription d) (\<lambda>_. subscriptions_ok) subscriptions_ok s"
proof -
  have same: "subscriptions_ok t" if "l_subscriptions (local t) = l_subscriptions (local s)" for t
    using that assms subscriptions_ok_cong by blast
  show ?thesis
    using assms
    by (simp add: apply_drop_subscription_def drop_present_subscription_def wp_simps same subscriptions_ok_put
        split: object_lookup.split)
qed

text \<open>
  C39. The subscription statements keep the catalogue of subscriptions well-formed: each stands under its
  own name, an enabled one has a replication slot, and none lists a publication twice.
\<close>

theorem subscription_statements_keep_slots:
  assumes "subscriptions_ok s"
    and "finish (apply_create_subscription c) s = Some (r, t) \<or> finish (apply_alter_subscription a) s = Some (r, t)
      \<or> finish (apply_drop_subscription d) s = Some (r, t)"
  shows "subscriptions_ok t"
  using assms(2) wp_finish [OF create_subscription_keeps_ok [OF assms(1)]] wp_finish [OF alter_subscription_keeps_ok [OF assms(1)]]
    wp_finish [OF drop_subscription_keeps_ok [OF assms(1)]]
  by blast

definition subscription_sample :: create_subscription where
  "subscription_sample =
     \<lparr>csb_name = Some ''sub'', csb_connection = LiteralTarget None, csb_publications = [''p''], csb_params = None\<rparr>"

theorem subscription_statements_keep_slots_witness:
  "\<exists>t q. finish (apply_create_subscription subscription_sample) (drop_sample []) = Some (Applied, t) \<and> subscriptions_ok t
     \<and> l_subscriptions (local t) ''sub'' = Some (Present q) \<and> sub_enabled q \<and> sub_slot_name q = Some ''sub''"
proof -
  have ok: "subscriptions_ok (drop_sample [])" by (simp add: subscriptions_ok_def drop_sample_defs)
  obtain t q where t: "finish (apply_create_subscription subscription_sample) (drop_sample []) = Some (Applied, t)"
    "l_subscriptions (local t) ''sub'' = Some (Present q)" "sub_enabled q" "sub_slot_name q = Some ''sub''"
    by (simp add: finish_def apply_create_subscription_def create_checked_subscription_def create_saved_subscription_def
        validate_subscription_options_def andthen_def asks_def modify_def ret_def subscription_sample_def
        subscription_boolean_option_def last_option_def subscription_lookup_def slot_of_params_def subscription_option_def
        insert_subscription_def Let_def drop_sample_defs)
  then have "subscriptions_ok t" using subscription_statements_keep_slots [OF ok] by blast
  with t show ?thesis by blast
qed

text \<open>
  \<^verbatim>\<open>DROP PUBLICATION\<close> in \<^verbatim>\<open>ALTER SUBSCRIPTION\<close> may take the last publication away: no check stands between the
  statement and an empty list.
\<close>

theorem last_publication_can_be_dropped:
  assumes "l_subscriptions (local s) name = Some (Present q)" "sub_publications q = [p]" "transactions s = []"
  shows "\<exists>t q'. finish (apply_alter_subscription \<lparr>asb_name = name,
      asb_action = SubscriptionPublications DropPublications [p] []\<rparr>) s = Some (Applied, t)
    \<and> l_subscriptions (local t) name = Some (Present q') \<and> sub_publications q' = []"
  using assms
  by (simp add: finish_def apply_alter_subscription_def alter_unless_refused_def alter_saved_subscription_def
      validate_subscription_options_def andthen_def asks_def modify_def ret_def subscription_lookup_def
      check_publications_def update_subscription_def change_publications_def)

end
