(* ===== verification/Publications.thy ===== *)
theory Publications
  imports Subscriptions Sequences
begin

text \<open>
  Publications (\<^verbatim>\<open>src/src/_internal/analysis/state/apply_replication.rs\<close>, \<^verbatim>\<open>state/publication.rs\<close>). The tables a
  publication names are mirrored as edges of the dependency graph; every such edge belongs to a
  publication that is present.
\<close>

section \<open>Statements\<close>

record create_publication =
  cpb_name :: string
  cpb_scope :: publication_scope
  cpb_params :: "attribute_fact list"

datatype alter_publication_action =
    AddObjects "publication_object_fact list"
  | SetObjects publication_scope
  | DropObjects "publication_object_fact list"
  | SetPublicationOptions "attribute_fact list"
  | PublicationOwner role_fact
  | RenamePublication string

record alter_publication =
  apb_name :: string
  apb_action :: alter_publication_action

record drop_publication =
  dpb_names :: "string list"
  dpb_if_exists :: bool
  dpb_cascade :: bool

section \<open>Objects of a publication\<close>

text \<open>\<^verbatim>\<open>resolve_relation_id\<close> with the mark of an inferred schema, which the display of a name shows.\<close>

definition resolve_relation_object :: "analysis_state \<Rightarrow> qualified_name \<Rightarrow> object_id" where
  "resolve_relation_object s name =
     (let i = resolve_relation_id s name
      in \<lparr>oid_schema = schema_of i, oid_name = name_of i, inferred_schema = (qn_schema name = None)\<rparr>)"

definition first_path_name :: "analysis_state \<Rightarrow> string option" where
  "first_path_name s = (case l_search_path (local s) of [] \<Rightarrow> None | e # _ \<Rightarrow> entry_name e)"

fun publication_object_key :: "analysis_state \<Rightarrow> publication_object_fact \<Rightarrow> string" where
  "publication_object_key s (PublishedTable name _ _ _ _) =
     ''table'' @ [CHR 0x00] @ object_id_display (resolve_relation_object s name)"
| "publication_object_key s (SchemaTables schema _) = ''schema'' @ [CHR 0x00] @ schema"
| "publication_object_key s CurrentSchemaShorthand =
     ''schema'' @ [CHR 0x00] @ (case first_path_name s of Some n \<Rightarrow> n | None \<Rightarrow> ''public'')"
| "publication_object_key s UnknownObject = ''unknown''"

fun is_schema_tables :: "publication_object_fact \<Rightarrow> bool" where
  "is_schema_tables (SchemaTables _ _) = True"
| "is_schema_tables _ = False"

definition push_normalized ::
  "analysis_state \<Rightarrow> publication_object_fact \<Rightarrow> publication_object_fact list \<Rightarrow> publication_object_fact list" where
  "push_normalized s object normalized =
     (case object of
        PublishedTable name _ _ _ _ \<Rightarrow>
          if list_ex is_schema_tables normalized \<and> schema_is_present s (ident_text (qn_name name))
          then normalized @ [SchemaTables (ident_text (qn_name name)) None]
          else normalized @ [object]
      | _ \<Rightarrow> normalized @ [object])"

definition normalize_publication_scope :: "analysis_state \<Rightarrow> publication_scope \<Rightarrow> publication_scope" where
  "normalize_publication_scope s scope =
     (case scope of
        ExplicitObjects objects \<Rightarrow> ExplicitObjects (fold (push_normalized s) objects [])
      | AllTables except \<Rightarrow> AllTables except)"

definition publication_edge :: "string \<Rightarrow> oid \<Rightarrow> dependency_edge" where
  "publication_edge name table = edge_new table (Oid ''public'' name) (PublicationIncludes name)"

definition add_publication_edge :: "string \<Rightarrow> publication_object_fact \<Rightarrow> analysis_state \<Rightarrow> analysis_state" where
  "add_publication_edge name object s =
     (case object of
        PublishedTable table _ _ _ _ \<Rightarrow> on_graph (add_edge (publication_edge name (resolve_relation_id s table))) s
      | _ \<Rightarrow> s)"

definition add_publication_edges :: "string \<Rightarrow> publication_scope \<Rightarrow> analysis_state \<Rightarrow> analysis_state" where
  "add_publication_edges name scope s =
     (case scope of ExplicitObjects objects \<Rightarrow> fold (add_publication_edge name) objects s | AllTables _ \<Rightarrow> s)"

definition replace_publication_edges :: "string \<Rightarrow> publication_scope \<Rightarrow> analysis_state \<Rightarrow> analysis_state" where
  "replace_publication_edges name scope s =
     add_publication_edges name scope
       (on_graph (retain_edges (\<lambda>e. edge_kind e \<noteq> PublicationIncludes name)) (snapshot_graph_full s))"

fun check_column_list :: "relation_state \<Rightarrow> object_id \<Rightarrow> string set \<Rightarrow> string list \<Rightarrow> string option" where
  "check_column_list r i seen [] = None"
| "check_column_list r i seen (c # cs) =
     (if c \<in> seen
      then Some (''publication lists column '' @ quoted c @ '' more than once for '' @ quoted (object_id_display i))
      else if \<not> has_column r c
      then Some (''publication column '' @ quoted (object_id_display i @ ''.'' @ c) @ '' does not exist'')
      else check_column_list r i (insert c seen) cs)"

definition no_published_table :: "object_id \<Rightarrow> mutation_result" where
  "no_published_table i = conflict (''publication table '' @ quoted (object_id_display i) @ '' does not exist'')"

definition validate_published_table :: "object_id \<Rightarrow> string list option \<Rightarrow> unit step" where
  "validate_published_table i columns =
     andthen (asks (\<lambda>s. (l_relations (local s) (oid i), baseline_covers_family_object s (oid i) FamRelations)))
       (\<lambda>(entry, covered).
     case entry of
       Some (Present r) \<Rightarrow>
         if r_kind r = Table \<and> r_persistence r = Permanent
         then (case columns of
             None \<Rightarrow> ret ()
           | Some cs \<Rightarrow>
               (case check_column_list r i {} cs of Some reason \<Rightarrow> return_with (conflict reason) | None \<Rightarrow> ret ()))
         else return_with (conflict (''publication target '' @ quoted (object_id_display i) @ '' is not a permanent table''))
     | Some Dropped \<Rightarrow> return_with (no_published_table i)
     | None \<Rightarrow> if covered then return_with (no_published_table i) else coverage_gap)"

fun validate_publication_object :: "publication_object_fact \<Rightarrow> unit step" where
  "validate_publication_object (PublishedTable name _ _ columns _) =
     andthen (asks (\<lambda>s. resolve_relation_object s name)) (\<lambda>i. validate_published_table i columns)"
| "validate_publication_object (SchemaTables schema _) =
     andthen (asks (\<lambda>s. (schema_is_present s schema, schema_absence_is_authoritative s schema))) (\<lambda>(present, absent).
     if present then ret ()
     else if absent then return_with (conflict (''publication schema '' @ quoted schema @ '' does not exist''))
     else coverage_gap)"
| "validate_publication_object CurrentSchemaShorthand = coverage_gap"
| "validate_publication_object UnknownObject = modify (taint UnsupportedSemantics ChainScope)"

fun validate_publication_objects :: "string set \<Rightarrow> publication_object_fact list \<Rightarrow> unit step" where
  "validate_publication_objects keys [] = ret ()"
| "validate_publication_objects keys (object # objects) =
     andthen (asks (\<lambda>s. publication_object_key s object)) (\<lambda>key.
     if key \<in> keys then return_with (conflict ''publication contains the same object more than once'')
     else andthen (validate_publication_object object) (\<lambda>_. validate_publication_objects (insert key keys) objects))"

definition validate_publication_scope :: "publication_scope \<Rightarrow> unit step" where
  "validate_publication_scope scope =
     (case scope of ExplicitObjects objects \<Rightarrow> validate_publication_objects {} objects | AllTables _ \<Rightarrow> ret ())"

definition schema_has_complete_inheritance :: "analysis_state \<Rightarrow> string \<Rightarrow> bool" where
  "schema_has_complete_inheritance s schema \<longleftrightarrow>
     baseline_covers_family_object s (Oid schema []) FamRelations
     \<and> baseline_covers_family_object s (Oid schema []) FamInheritance"

fun object_needs_inheritance_knowledge :: "analysis_state \<Rightarrow> publication_object_fact \<Rightarrow> bool" where
  "object_needs_inheritance_knowledge s (PublishedTable name only include_partitions _ _) \<longleftrightarrow>
     (\<not> only \<or> include_partitions)
     \<and> (let i = resolve_relation_id s name
        in \<not> (case l_relations (local s) i of Some (Present r) \<Rightarrow> 0 < r_generation r | _ \<Rightarrow> False)
           \<and> \<not> schema_has_complete_inheritance s (schema_of i))"
| "object_needs_inheritance_knowledge s (SchemaTables schema _) \<longleftrightarrow> \<not> schema_has_complete_inheritance s schema"
| "object_needs_inheritance_knowledge s CurrentSchemaShorthand \<longleftrightarrow>
     (case first_path_name s of None \<Rightarrow> True | Some schema \<Rightarrow> \<not> schema_has_complete_inheritance s schema)"
| "object_needs_inheritance_knowledge s UnknownObject \<longleftrightarrow> False"

definition publication_scope_needs_inheritance_knowledge :: "analysis_state \<Rightarrow> publication_scope \<Rightarrow> bool" where
  "publication_scope_needs_inheritance_knowledge s scope =
     (case scope of
        AllTables _ \<Rightarrow>
          \<not> baseline_available s \<or> cov_schema_scope (baseline_coverage s) \<noteq> AllNonSystem
          \<or> \<not> coverage_has (baseline_coverage s) FamRelations \<or> \<not> coverage_has (baseline_coverage s) FamInheritance
      | ExplicitObjects objects \<Rightarrow> list_ex (object_needs_inheritance_knowledge s) objects)"

definition taint_inheritance_sensitive_publication_scope :: "publication_scope \<Rightarrow> unit step" where
  "taint_inheritance_sensitive_publication_scope scope =
     andthen (asks (\<lambda>s. publication_scope_needs_inheritance_knowledge s scope)) (\<lambda>needed.
     if needed then coverage_gap else ret ())"

section \<open>Parameters\<close>

definition find_param :: "string \<Rightarrow> attribute_fact list \<Rightarrow> attribute_fact option" where
  "find_param name ps = List.find (\<lambda>p. attr_name p = name) ps"

definition attribute :: "string \<Rightarrow> string \<Rightarrow> attribute_fact" where
  "attribute name v = \<lparr>attr_name = name, attr_value = Some v, attr_namespace = None\<rparr>"

definition canonical_operations :: "string list" where
  "canonical_operations = [''insert'', ''update'', ''delete'', ''truncate'']"

fun join_with :: "string \<Rightarrow> string list \<Rightarrow> string" where
  "join_with sep [] = []"
| "join_with sep [x] = x"
| "join_with sep (x # xs) = x @ sep @ join_with sep xs"

definition publish_value :: "attribute_fact list \<Rightarrow> string" where
  "publish_value explicit =
     join_with '', ''
       (case find_param ''publish'' explicit of
          Some p \<Rightarrow>
            filter (\<lambda>operation. list_ex (\<lambda>part. eq_ignore_ascii_case (trim part) operation)
                (split_where (\<lambda>c. c = CHR '','') (case attr_value p of Some v \<Rightarrow> v | None \<Rightarrow> [])))
              canonical_operations
        | None \<Rightarrow> canonical_operations)"

definition param_or :: "string \<Rightarrow> string \<Rightarrow> attribute_fact list \<Rightarrow> attribute_fact" where
  "param_or name fallback explicit =
     attribute name (case Option.bind (find_param name explicit) attr_value of Some v \<Rightarrow> v | None \<Rightarrow> fallback)"

definition effective_publication_params :: "analysis_state \<Rightarrow> attribute_fact list \<Rightarrow> attribute_fact list" where
  "effective_publication_params s explicit =
     [attribute ''publish'' (publish_value explicit), param_or ''publish_via_partition_root'' ''false'' explicit]
     @ (if 180000 \<le> conservative_num (effective_pg_version s)
        then [param_or ''publish_generated_columns'' ''none'' explicit] else [])"

section \<open>CREATE PUBLICATION\<close>

definition publication_lookup :: "analysis_state \<Rightarrow> string \<Rightarrow> object_lookup" where
  "publication_lookup s name =
     (case l_publications (local s) name of
        Some (Present _) \<Rightarrow> LookupPresent
      | Some Dropped \<Rightarrow> Tombstone
      | None \<Rightarrow> if baseline_available s then AuthoritativelyAbsent else LookupUnknown)"

definition publication_conflict :: "string \<Rightarrow> string \<Rightarrow> mutation_result" where
  "publication_conflict name how = conflict (''publication '' @ quoted name @ '' '' @ how)"

definition put_publication :: "string \<Rightarrow> publication_state overlay option \<Rightarrow> analysis_state \<Rightarrow> analysis_state" where
  "put_publication name v = upd_local (\<lambda>l. l\<lparr>l_publications := (l_publications l)(name := v)\<rparr>)"

definition insert_publication :: "create_publication \<Rightarrow> publication_scope \<Rightarrow> analysis_state \<Rightarrow> analysis_state" where
  "insert_publication c scope s =
     put_publication (cpb_name c) (Some (Present
       \<lparr>pub_name = cpb_name c, pub_owner = current_owner s, pub_scope = scope,
        pub_params = effective_publication_params s (cpb_params c),
        pub_generation = l_generation_counter (local s)\<rparr>)) s"

definition mirror_scope :: "string \<Rightarrow> publication_scope \<Rightarrow> analysis_state \<Rightarrow> analysis_state" where
  "mirror_scope name scope s =
     (case scope of
        ExplicitObjects _ \<Rightarrow> add_publication_edges name scope (snapshot_graph_full s)
      | AllTables _ \<Rightarrow> s)"

definition apply_create_publication :: "create_publication \<Rightarrow> unit step" where
  "apply_create_publication c =
     andthen (asks (\<lambda>s. publication_lookup s (cpb_name c))) (\<lambda>found.
     andthen
       (case found of
          LookupPresent \<Rightarrow> return_with (publication_conflict (cpb_name c) ''already exists'')
        | LookupUnknown \<Rightarrow> modify (taint UnknownObjectState ChainScope)
        | _ \<Rightarrow> ret ()) (\<lambda>_.
     andthen (asks (\<lambda>s. normalize_publication_scope s (cpb_scope c))) (\<lambda>scope.
     andthen (validate_publication_scope scope) (\<lambda>_.
     andthen (taint_inheritance_sensitive_publication_scope scope) (\<lambda>_.
     andthen (modify (\<lambda>s. insert_publication c scope (bump_generation (snapshot_publication (cpb_name c) s)))) (\<lambda>_.
     modify (mirror_scope (cpb_name c) scope)))))))"

section \<open>ALTER PUBLICATION\<close>

definition update_publication :: "string \<Rightarrow> (publication_state \<Rightarrow> publication_state) \<Rightarrow> analysis_state \<Rightarrow> analysis_state" where
  "update_publication name f s =
     (case l_publications (local s) name of
        Some (Present p) \<Rightarrow> put_publication name (Some (Present (f p))) s
      | _ \<Rightarrow> s)"

fun add_objects ::
  "analysis_state \<Rightarrow> string set \<Rightarrow> publication_object_fact list \<Rightarrow> publication_object_fact list \<Rightarrow> publication_object_fact list option" where
  "add_objects s keys objects [] = Some objects"
| "add_objects s keys objects (x # xs) =
     (let key = publication_object_key s x
      in if key \<in> keys then None else add_objects s (insert key keys) (objects @ [x]) xs)"

fun remove_first :: "('a \<Rightarrow> bool) \<Rightarrow> 'a list \<Rightarrow> 'a list option" where
  "remove_first P [] = None"
| "remove_first P (x # xs) = (if P x then Some xs else map_option ((#) x) (remove_first P xs))"

fun drop_objects ::
  "analysis_state \<Rightarrow> publication_object_fact list \<Rightarrow> publication_object_fact list \<Rightarrow> publication_object_fact list option" where
  "drop_objects s objects [] = Some objects"
| "drop_objects s objects (x # xs) =
     (case remove_first (\<lambda>y. publication_object_key s y = publication_object_key s x) objects of
        None \<Rightarrow> None
      | Some rest \<Rightarrow> drop_objects s rest xs)"

definition set_option_params :: "attribute_fact list \<Rightarrow> attribute_fact list \<Rightarrow> attribute_fact list" where
  "set_option_params options explicit =
     fold (\<lambda>p acc. filter (\<lambda>e. attr_name e \<noteq> attr_name p) acc @ [p]) options explicit"

definition set_publication_params :: "string \<Rightarrow> attribute_fact list \<Rightarrow> analysis_state \<Rightarrow> analysis_state" where
  "set_publication_params name options s =
     update_publication name
       (\<lambda>p. p\<lparr>pub_params := effective_publication_params s (set_option_params options (pub_params p))\<rparr>) s"

definition change_publication_owner :: "string \<Rightarrow> role_fact \<Rightarrow> unit step" where
  "change_publication_owner name role =
     andthen (asks (\<lambda>s. role_fact_identity s role)) (\<lambda>identity.
     case identity of
       Some (owner, known) \<Rightarrow>
         if known
         then andthen (asks (\<lambda>s. l_roles_known (local s))) (\<lambda>roles_known.
              andthen (if \<not> roles_known then coverage_gap else ret ()) (\<lambda>_.
              modify (update_publication name (pub_owner_update (\<lambda>_. Some owner)))))
         else andthen (modify (taint UnresolvedReference ChainScope)) (\<lambda>_.
              modify (update_publication name (pub_owner_update (\<lambda>_. None))))
     | None \<Rightarrow>
         andthen (modify (taint UnresolvedReference ChainScope)) (\<lambda>_.
         modify (update_publication name (pub_owner_update (\<lambda>_. None)))))"

definition current_scope :: "string \<Rightarrow> analysis_state \<Rightarrow> publication_scope" where
  "current_scope name s =
     (case l_publications (local s) name of Some (Present p) \<Rightarrow> pub_scope p | _ \<Rightarrow> AllTables [])"

text \<open>The effect of an action on the publication itself; the result is \<^verbatim>\<open>replacement_scope\<close>.\<close>

fun change_publication :: "string \<Rightarrow> publication_scope \<Rightarrow> alter_publication_action \<Rightarrow> publication_scope option step" where
  "change_publication name current (AddObjects additions) =
     andthen (validate_publication_scope (ExplicitObjects additions)) (\<lambda>_.
     andthen (taint_inheritance_sensitive_publication_scope (ExplicitObjects additions)) (\<lambda>_.
     case current of
       AllTables _ \<Rightarrow> return_with (publication_conflict name ''already includes all tables'')
     | ExplicitObjects objects \<Rightarrow>
         andthen (asks (\<lambda>s. add_objects s (publication_object_key s ` set objects) objects additions)) (\<lambda>result.
         case result of
           None \<Rightarrow> return_with (publication_conflict name ''already contains the requested object'')
         | Some new \<Rightarrow> ret (Some (ExplicitObjects new)))))"
| "change_publication name current (SetObjects scope) =
     andthen (validate_publication_scope scope) (\<lambda>_.
     andthen (taint_inheritance_sensitive_publication_scope scope) (\<lambda>_. ret (Some scope)))"
| "change_publication name current (DropObjects removals) =
     andthen (taint_inheritance_sensitive_publication_scope (ExplicitObjects removals)) (\<lambda>_.
     case current of
       AllTables _ \<Rightarrow> return_with (publication_conflict name ''includes all tables'')
     | ExplicitObjects objects \<Rightarrow>
         andthen (asks (\<lambda>s. drop_objects s objects removals)) (\<lambda>result.
         case result of
           None \<Rightarrow> return_with (publication_conflict name ''does not contain the requested object'')
         | Some rest \<Rightarrow> ret (Some (ExplicitObjects rest))))"
| "change_publication name current (SetPublicationOptions options) =
     andthen (modify (set_publication_params name options)) (\<lambda>_. ret None)"
| "change_publication name current (PublicationOwner role) = andthen (change_publication_owner name role) (\<lambda>_. ret None)"
| "change_publication name current (RenamePublication _) = ret None"

definition replace_scope :: "string \<Rightarrow> publication_scope \<Rightarrow> analysis_state \<Rightarrow> analysis_state" where
  "replace_scope name scope s =
     (let normalized = normalize_publication_scope s scope
      in replace_publication_edges name normalized (update_publication name (\<lambda>p. p\<lparr>pub_scope := normalized\<rparr>) s))"

definition move_publication :: "string \<Rightarrow> string \<Rightarrow> analysis_state \<Rightarrow> analysis_state" where
  "move_publication name to s =
     (case l_publications (local s) name of
        Some (Present p) \<Rightarrow>
          on_graph (rename_publication name to) (snapshot_graph_full
            (put_publication to (Some (Present (p\<lparr>pub_name := to\<rparr>))) (put_publication name None s)))
      | _ \<Rightarrow> s)"

definition alter_saved_publication :: "string \<Rightarrow> alter_publication_action \<Rightarrow> unit step" where
  "alter_saved_publication name action =
     andthen (modify bump_generation) (\<lambda>_.
     andthen (asks (\<lambda>s. (l_generation_counter (local s), current_scope name s))) (\<lambda>(generation, current).
     andthen (change_publication name current action) (\<lambda>replacement.
     andthen (case replacement of Some scope \<Rightarrow> modify (replace_scope name scope) | None \<Rightarrow> ret ()) (\<lambda>_.
     andthen (modify (update_publication name (\<lambda>p. p\<lparr>pub_generation := generation\<rparr>))) (\<lambda>_.
     case action of
       RenamePublication to \<Rightarrow>
         andthen (modify (snapshot_publication to)) (\<lambda>_. modify (move_publication name to))
     | _ \<Rightarrow> ret ())))))"

definition apply_alter_publication :: "alter_publication \<Rightarrow> unit step" where
  "apply_alter_publication a =
     (let name = apb_name a; action = apb_action a
      in andthen (asks (\<lambda>s. publication_lookup s name)) (\<lambda>found.
         andthen
           (case found of
              LookupPresent \<Rightarrow> ret ()
            | LookupUnknown \<Rightarrow> give_up UnknownObjectState
            | _ \<Rightarrow> return_with (publication_conflict name ''does not exist'')) (\<lambda>_.
         andthen
           (case action of
              RenamePublication to \<Rightarrow> ensure_rename_target publication_lookup (publication_conflict to ''already exists'') to
            | PublicationOwner role \<Rightarrow> ensure_new_owner role
            | _ \<Rightarrow> ret ()) (\<lambda>_.
         andthen (modify (snapshot_publication name)) (\<lambda>_. alter_saved_publication name action)))))"

section \<open>DROP PUBLICATION\<close>

text \<open>One round of the loop: whether the publication is present, or unknown (\<open>None\<close>).\<close>

definition find_dropped_publication :: "bool \<Rightarrow> string \<Rightarrow> string list option step" where
  "find_dropped_publication if_exists name =
     andthen (asks (\<lambda>s. publication_lookup s name)) (\<lambda>found.
     case found of
       LookupPresent \<Rightarrow> ret (Some [name])
     | LookupUnknown \<Rightarrow>
         if if_exists then andthen (modify (taint UnknownObjectState ChainScope)) (\<lambda>_. ret None)
         else give_up UnknownObjectState
     | _ \<Rightarrow> if if_exists then ret (Some []) else return_with (publication_conflict name ''does not exist''))"

definition drop_one_publication :: "string \<Rightarrow> analysis_state \<Rightarrow> analysis_state" where
  "drop_one_publication name s = put_publication name (Some Dropped) (snapshot_publication name s)"

fun is_publication_kind :: "dependency_kind \<Rightarrow> bool" where
  "is_publication_kind (PublicationIncludes _) = True"
| "is_publication_kind _ = False"

definition drop_publication_edges :: "string list \<Rightarrow> analysis_state \<Rightarrow> analysis_state" where
  "drop_publication_edges names s =
     on_graph (retain_edges (\<lambda>e. \<not> (is_publication_kind (edge_kind e) \<and> name_of (referenced e) \<in> set names)))
       (snapshot_graph_full s)"

definition apply_drop_publication :: "drop_publication \<Rightarrow> unit step" where
  "apply_drop_publication d =
     andthen (collect_each (find_dropped_publication (dpb_if_exists d)) (dpb_names d)) (\<lambda>found.
     if list_ex (\<lambda>f. f = None) found then give_up UnknownObjectState
     else
       (let present_names = concat (map the found)
        in andthen (modify (fold drop_one_publication present_names)) (\<lambda>_.
           andthen (modify (drop_publication_edges present_names)) (\<lambda>_.
           if present_names = [] then return_with NoOp else ret ()))))"

section \<open>The handlers are logged and return\<close>

definition forget_publication :: "string \<Rightarrow> analysis_state \<Rightarrow> analysis_state" where
  "forget_publication name = upd_local (\<lambda>l. l\<lparr>l_publications := (l_publications l)(name := None)\<rparr>)"

lemma publication_restored:
  assumes "forget_publication name (core u) = forget_publication name (core s)"
  shows "core (undo_change (PublicationSnapshot (Oid [] name) (l_publications (local s) name)) u) = core s"
proof -
  let ?c = "PublicationSnapshot (Oid [] name) (l_publications (local s) name)"
  have "core (undo_change ?c (forget_publication name (core v))) = core (undo_change ?c v)" for v
    by (simp add: forget_publication_def upd_local_def core_def mrestore_def)
  then have "core (undo_change ?c u) = core (undo_change ?c s)" using assms by metis
  then show ?thesis by (simp add: core_def mrestore_def)
qed

interpretation saved_publication: saved_entry
  "\<lambda>s. PublicationSnapshot (Oid [] name) (l_publications (local s) name)" "forget_publication name" for name
proof
  show "forget_publication name (core (undo_change c (forget_publication name (core s)))) =
      forget_publication name (core (undo_change c s))" for c s
    by (cases c) (simp_all add: forget_publication_def upd_local_def core_def restore_namespace_def mrestore_def fun_upd_twist)
qed (rule publication_restored)

abbreviation logged_beside :: "string \<Rightarrow> analysis_state \<Rightarrow> analysis_state \<Rightarrow> bool" where
  "logged_beside name \<equiv> logged_modulo (forget_publication name)"

lemma put_publication_beside: "logged_beside name s (put_publication name v s)"
  by (rule saved_publication.modulo_entry) (simp_all add: put_publication_def upd_local_def forget_publication_def core_def)

lemma update_publication_beside: "logged_beside name s (update_publication name f s)"
  by (simp add: update_publication_def put_publication_beside saved_publication.modulo_refl split: option.split overlay.split)

lemma put_publication_logged: "logged s (put_publication name v (snapshot_publication name s))"
  unfolding snapshot_publication_def by (rule saved_publication.after_snapshot) (rule put_publication_beside)

lemma fold_publication_edges:
  "\<exists>es. fold (add_publication_edge name) objects s = on_graph (fold add_edge es) s"
proof (induction objects arbitrary: s)
  case Nil
  show ?case by (rule exI [of _ "[]"]) (simp add: on_graph_def)
next
  case (Cons x xs)
  have "\<exists>es. add_publication_edge name x s = on_graph (fold add_edge es) s"
  proof (cases x)
    case (PublishedTable table a b c d)
    then show ?thesis
      by (intro exI [of _ "[publication_edge name (resolve_relation_id s table)]"]) (simp add: add_publication_edge_def)
  qed (auto simp: add_publication_edge_def on_graph_def intro!: exI [of _ "[]"])
  then obtain es where "add_publication_edge name x s = on_graph (fold add_edge es) s" by blast
  moreover obtain fs where "fold (add_publication_edge name) xs (on_graph (fold add_edge es) s) = on_graph (fold add_edge fs) (on_graph (fold add_edge es) s)"
    using Cons.IH by blast
  ultimately show ?case by (intro exI [of _ "es @ fs"]) (simp add: on_graph_def)
qed

lemma add_publication_edges_graph: "\<exists>es. add_publication_edges name scope s = on_graph (fold add_edge es) s"
proof (cases scope)
  case (AllTables x)
  then show ?thesis by (intro exI [of _ "[]"]) (simp add: add_publication_edges_def on_graph_def)
qed (simp add: add_publication_edges_def fold_publication_edges)

lemma graph_wf_fold_add: "graph_wf g \<Longrightarrow> graph_wf (fold add_edge es g)"
  by (induction es arbitrary: g) (simp_all add: graph_wf_add)

lemma mirror_scope_logged: "logged s (mirror_scope name scope s)"
proof -
  obtain es where "add_publication_edges name scope (snapshot_graph_full s) = on_graph (fold add_edge es) (snapshot_graph_full s)"
    using add_publication_edges_graph by blast
  then show ?thesis
    by (cases scope) (simp_all add: mirror_scope_def logged_graph_full graph_wf_fold_add)
qed

lemma replace_edges_logged: "logged s (replace_publication_edges name scope s)"
proof -
  let ?R = "retain_edges (\<lambda>e. edge_kind e \<noteq> PublicationIncludes name)"
  obtain es where "replace_publication_edges name scope s = on_graph (fold add_edge es) (on_graph ?R (snapshot_graph_full s))"
    using add_publication_edges_graph unfolding replace_publication_edges_def by blast
  then have "replace_publication_edges name scope s = on_graph (\<lambda>g. fold add_edge es (?R g)) (snapshot_graph_full s)"
    by (simp add: on_graph_def)
  then show ?thesis by (simp add: logged_graph_full graph_wf_fold_add graph_wf_retain)
qed

lemma replace_scope_beside: "logged_beside name s (replace_scope name scope s)"
  unfolding replace_scope_def Let_def
  by (rule saved_publication.modulo_trans [OF update_publication_beside logged_imp_modulo [OF replace_edges_logged]])

lemma move_publication_beside: "logged_beside name s (move_publication name to (snapshot_publication to s))"
proof (cases "\<exists>p. l_publications (local s) name = Some (Present p)")
  case True
  then obtain p where p: "l_publications (local s) name = Some (Present p)" by blast
  let ?u = "put_publication to (Some (Present (p\<lparr>pub_name := to\<rparr>))) (put_publication name None (snapshot_publication to s))"
  let ?c = "PublicationSnapshot (Oid [] to) (l_publications (local s) to)"
  have "graph_of ?u = graph_of s" "transactions ?u = log_on_top [?c] (transactions s)"
    "l_transaction_aborted (local ?u) = l_transaction_aborted (local s)"
    by (simp_all add: put_publication_def upd_local_def snapshot_publication_def log_change_def)
  moreover have "forget_publication name (core (undo_change ?c ?u)) = forget_publication name (core s)"
    by (auto simp: put_publication_def upd_local_def snapshot_publication_def log_change_def
        forget_publication_def core_def mrestore_def fun_upd_twist)
  ultimately have "logged_beside name s ?u" by (auto simp: logged_modulo_def intro!: exI [of _ "[?c]"])
  moreover have "logged ?u (on_graph (rename_publication name to) (snapshot_graph_full ?u))"
    by (rule logged_graph_full) (simp add: rename_publication_def graph_wf_rewrite)
  ultimately have "logged_beside name s (on_graph (rename_publication name to) (snapshot_graph_full ?u))"
    by (blast intro: saved_publication.modulo_trans logged_imp_modulo)
  moreover have "l_publications (local (snapshot_publication to s)) name = Some (Present p)"
    by (simp add: p snapshot_publication_def log_change_def)
  ultimately show ?thesis by (simp add: move_publication_def)
next
  case False
  have "move_publication name to (snapshot_publication to s) = snapshot_publication to s"
    using False by (auto simp: move_publication_def snapshot_publication_def log_change_def split: option.split overlay.split)
  moreover have "logged s (snapshot_publication to s)"
    unfolding snapshot_publication_def by (rule saved_publication.after_snapshot) (rule saved_publication.modulo_refl)
  ultimately show ?thesis by (simp add: logged_imp_modulo)
qed

text \<open>Checks record evidence only; they keep every guarantee that evidence keeps.\<close>

context evidence_contract
begin

lemma holds_validate_object [holds_intros]: "holds R (validate_publication_object x)"
  by (cases x) (simp_all only: validate_publication_object.simps validate_published_table_def coverage_gap_def,
      (intro holds_intros holds_prod)+)

lemma holds_validate_objects [holds_intros]: "holds R (validate_publication_objects keys xs)"
  by (induction xs arbitrary: keys) (simp_all only: validate_publication_objects.simps, (intro holds_intros | assumption)+)

lemma holds_validate_scope [holds_intros]: "holds R (validate_publication_scope scope)"
  by (cases scope) (simp_all add: validate_publication_scope_def holds_validate_objects holds_ret)

lemma holds_taint_inheritance [holds_intros]: "holds R (taint_inheritance_sensitive_publication_scope scope)"
  unfolding taint_inheritance_sensitive_publication_scope_def coverage_gap_def by (intro holds_intros)

lemma holds_find_dropped [holds_intros]: "holds R (find_dropped_publication if_exists name)"
  unfolding find_dropped_publication_def by (intro holds_intros)

end

lemma beside_modify: "(\<And>s. logged_beside name s (f s)) \<Longrightarrow> holds (logged_beside name) (modify f)"
  by (rule saved_publication.modulo.holds_modify)

lemma change_publication_owner_beside: "holds (logged_beside name) (change_publication_owner name role)"
  unfolding change_publication_owner_def coverage_gap_def
  by (intro holds_intros holds_prod beside_modify update_publication_beside)

lemma holds_scope: "(\<And>x. holds R (f x)) \<Longrightarrow> (\<And>x. holds R (g x)) \<Longrightarrow> holds R (case scope of AllTables x \<Rightarrow> f x | ExplicitObjects x \<Rightarrow> g x)"
  by (simp split: publication_scope.split)

lemma set_params_beside: "logged_beside name s (set_publication_params name options s)"
  unfolding set_publication_params_def by (rule update_publication_beside)

lemma change_publication_beside: "holds (logged_beside name) (change_publication name current action)"
  by (cases action) (simp_all only: change_publication.simps,
      (intro holds_intros holds_scope beside_modify set_params_beside change_publication_owner_beside)+)

lemma alter_saved_publication_beside: "holds (logged_beside name) (alter_saved_publication name action)"
proof -
  have "holds (logged_beside name) (case action of RenamePublication to \<Rightarrow>
         andthen (modify (snapshot_publication to)) (\<lambda>_. modify (move_publication name to)) | _ \<Rightarrow> ret ())"
    by (cases action) (simp_all add: modify_modify beside_modify move_publication_beside saved_publication.modulo.holds_ret)
  then show ?thesis
    unfolding alter_saved_publication_def
    by (intro holds_intros holds_prod beside_modify change_publication_beside update_publication_beside replace_scope_beside
        logged_imp_modulo [OF bump_generation_logged])
qed

lemma insert_publication_logged:
  "logged s (insert_publication c scope (bump_generation (snapshot_publication (cpb_name c) s)))"
  unfolding snapshot_publication_def insert_publication_def
  by (rule saved_publication.after_snapshot)
    (rule saved_publication.modulo_trans [OF logged_imp_modulo [OF bump_generation_logged] put_publication_beside])

lemma keeps_create_publication: "holds logged (apply_create_publication c)"
  unfolding apply_create_publication_def by (intro holds_intros insert_publication_logged mirror_scope_logged)

lemma keeps_publication_checks [holds_intros]:
  "holds logged (case action of
      RenamePublication to \<Rightarrow> ensure_rename_target publication_lookup (publication_conflict to ''already exists'') to
    | PublicationOwner role \<Rightarrow> ensure_new_owner role
    | _ \<Rightarrow> ret ())"
  by (cases action) (simp_all add: logging.holds_new_name logging.holds_new_owner logging.holds_ret)

lemma keeps_alter_publication: "holds logged (apply_alter_publication a)"
  unfolding apply_alter_publication_def Let_def snapshot_publication_def
  by (intro holds_intros saved_publication.holds_after_snapshot alter_saved_publication_beside)

lemma drop_publications_logged: "logged s (fold drop_one_publication names s)"
  by (rule logged_fold) (simp add: drop_one_publication_def put_publication_logged)

lemma drop_publication_edges_logged: "logged s (drop_publication_edges names s)"
  unfolding drop_publication_edges_def by (rule logged_graph_full) (rule graph_wf_retain)

lemma keeps_drop_publication: "holds logged (apply_drop_publication d)"
  unfolding apply_drop_publication_def Let_def
  by (intro holds_intros drop_publications_logged drop_publication_edges_logged)

lemmas keeps_publications = keeps_create_publication keeps_alter_publication keeps_drop_publication

lemma total_validate_object [total_intros]: "total (validate_publication_object x)"
  by (cases x) (simp_all only: validate_publication_object.simps validate_published_table_def coverage_gap_def,
      (intro total_intros)+)

lemma total_validate_objects [total_intros]: "total (validate_publication_objects keys xs)"
  by (induction xs arbitrary: keys) (simp_all only: validate_publication_objects.simps, (intro total_intros | assumption)+)

lemma total_publication_checks [total_intros]:
  "total (validate_publication_scope scope)" "total (taint_inheritance_sensitive_publication_scope scope)"
  "total (find_dropped_publication b name)"
  subgoal by (cases scope) (simp_all add: validate_publication_scope_def total_intros)
  subgoal unfolding taint_inheritance_sensitive_publication_scope_def coverage_gap_def by (intro total_intros)
  subgoal unfolding find_dropped_publication_def by (intro total_intros)
  done

lemma total_scope: "(\<And>x. total (f x)) \<Longrightarrow> (\<And>x. total (g x)) \<Longrightarrow> total (case scope of AllTables x \<Rightarrow> f x | ExplicitObjects x \<Rightarrow> g x)"
  by (simp split: publication_scope.split)

lemma total_change_publication [total_intros]: "total (change_publication name current action)"
  by (cases action) (simp_all only: change_publication.simps change_publication_owner_def coverage_gap_def,
      (intro total_intros total_scope)+)

lemma total_create_publication: "total (apply_create_publication c)"
  unfolding apply_create_publication_def by (intro total_intros)

lemma total_alter_publication: "total (apply_alter_publication a)"
proof -
  have "total (case apb_action a of
      RenamePublication to \<Rightarrow> ensure_rename_target publication_lookup (publication_conflict to ''already exists'') to
    | PublicationOwner role \<Rightarrow> ensure_new_owner role
    | _ \<Rightarrow> ret ())" "total (case apb_action a of RenamePublication to \<Rightarrow>
      andthen (modify (snapshot_publication to)) (\<lambda>_. modify (move_publication (apb_name a) to)) | _ \<Rightarrow> ret ())"
    by (cases "apb_action a"; simp add: total_intros)+
  then show ?thesis
    unfolding apply_alter_publication_def alter_saved_publication_def Let_def by (intro total_intros)
qed

lemma total_drop_publication: "total (apply_drop_publication d)"
  unfolding apply_drop_publication_def Let_def by (intro total_intros)

lemmas total_publications = total_create_publication total_alter_publication total_drop_publication

section \<open>Edges belong to publications\<close>

definition has_publication :: "string \<Rightarrow> analysis_state \<Rightarrow> bool" where
  "has_publication name s \<longleftrightarrow> (\<exists>p. l_publications (local s) name = Some (Present p))"

definition edges_published :: "analysis_state \<Rightarrow> bool" where
  "edges_published s \<longleftrightarrow>
     (\<forall>e \<in> set (edges (graph_of s)). \<forall>name. edge_kind e = PublicationIncludes name \<longrightarrow>
        referenced e = Oid ''public'' name \<and> has_publication name s)"

definition publications_named :: "analysis_state \<Rightarrow> bool" where
  "publications_named s \<longleftrightarrow> (\<forall>name p. l_publications (local s) name = Some (Present p) \<longrightarrow> pub_name p = name)"

definition publications_ok :: "analysis_state \<Rightarrow> bool" where
  "publications_ok s \<longleftrightarrow> graph_wf (graph_of s) \<and> edges_published s \<and> publications_named s"

definition publication_view :: "analysis_state \<Rightarrow> (string \<rightharpoonup> publication_state overlay) \<times> dependency_graph" where
  "publication_view s = (l_publications (local s), graph_of s)"

lemma publication_view_cong:
  "publication_view t = publication_view s \<Longrightarrow>
     publications_ok t = publications_ok s \<and> has_publication name t = has_publication name s"
  by (simp add: publication_view_def publications_ok_def edges_published_def publications_named_def has_publication_def)

lemma publication_view_frame [simp]:
  "publication_view (taint code scope s) = publication_view s" "publication_view (bump_generation s) = publication_view s"
  "publication_view (snapshot_publication name s) = publication_view s"
  "publication_view (snapshot_graph_full s) = publication_view s"
  by (simp_all add: publication_view_def taint_def record_evidence_def mark_tainted_def bump_generation_def upd_local_def
      snapshot_defs Let_def log_change_def)

definition published :: "string \<Rightarrow> analysis_state \<Rightarrow> bool" where
  "published name s \<longleftrightarrow> publications_ok s \<and> has_publication name s"

interpretation publications: evidence_contract "preserving publications_ok"
  by unfold_locales (auto simp: preserving_def publication_view_cong [OF publication_view_frame(1)])

interpretation published: evidence_contract "preserving (published name)" for name
  by unfold_locales (auto simp: preserving_def published_def publication_view_cong [OF publication_view_frame(1)])

lemma put_present:
  assumes "publications_ok s" "pub_name p = name"
  shows "published name (put_publication name (Some (Present p)) s)"
  using assms
  by (auto simp: published_def publications_ok_def edges_published_def publications_named_def has_publication_def
      put_publication_def upd_local_def)

lemma update_published:
  assumes "published name s" "\<And>p. pub_name (f p) = pub_name p"
  shows "published name (update_publication name f s)"
proof -
  obtain p where p: "l_publications (local s) name = Some (Present p)" using assms(1) by (auto simp: published_def has_publication_def)
  then have "pub_name p = name" using assms(1) by (simp add: published_def publications_ok_def publications_named_def)
  then show ?thesis using assms p put_present [of s "f p" name] by (simp add: update_publication_def published_def)
qed

lemma add_edge_published:
  assumes "published name s"
  shows "published name (on_graph (add_edge (publication_edge name i)) s)"
  using assms
  by (auto simp: published_def publications_ok_def edges_published_def publications_named_def has_publication_def on_graph_def
      set_edges_add graph_wf_add publication_edge_def edge_new_def)

lemma add_edges_published: "published name s \<Longrightarrow> published name (add_publication_edges name scope s)"
proof -
  have "published name s \<Longrightarrow> published name (fold (add_publication_edge name) xs s)" for xs
    by (induction xs arbitrary: s)
      (simp_all add: add_publication_edge_def add_edge_published split: publication_object_fact.split)
  then show "published name s \<Longrightarrow> ?thesis"
    by (simp add: add_publication_edges_def split: publication_scope.split)
qed

lemma graph_full_published: "published name (snapshot_graph_full s) = published name s"
  using publication_view_cong [OF publication_view_frame(4)] by (simp add: published_def)

lemma retain_published: "published name s \<Longrightarrow> published name (on_graph (retain_edges P) s)"
  by (auto simp: published_def publications_ok_def edges_published_def publications_named_def has_publication_def on_graph_def
      graph_wf_retain graph_simps)

lemma mirror_published: "published name s \<Longrightarrow> published name (mirror_scope name scope s)"
  by (cases scope) (simp_all add: mirror_scope_def add_edges_published graph_full_published)

lemma replace_scope_published: "published name s \<Longrightarrow> published name (replace_scope name scope s)"
  by (simp add: replace_scope_def replace_publication_edges_def Let_def add_edges_published retain_published
      graph_full_published update_published)

lemma move_published:
  assumes "published name s"
  shows "publications_ok (move_publication name to (snapshot_publication to s))"
proof -
  let ?s = "snapshot_publication to s"
  have s: "published name ?s"
    using assms publication_view_cong [OF publication_view_frame(3)] by (simp add: published_def)
  then obtain p where p: "l_publications (local ?s) name = Some (Present p)"
    by (auto simp: published_def has_publication_def)
  then show ?thesis
    using s
    by (auto simp: move_publication_def published_def publications_ok_def edges_published_def publications_named_def
        has_publication_def on_graph_def put_publication_def upd_local_def rename_publication_def graph_wf_rewrite
        graph_simps rename_publication_edge_def snapshot_defs log_change_def split: if_splits)
qed

lemma published_modify: "(\<And>s. published name s \<Longrightarrow> published name (f s)) \<Longrightarrow> holds (preserving (published name)) (modify f)"
  by (rule published.holds_modify) (simp add: preserving_def)

lemma change_publication_published: "holds (preserving (published name)) (change_publication name current action)"
proof -
  have "published name (set_publication_params name options s)" if "published name s" for options s
    unfolding set_publication_params_def by (rule update_published [OF that]) simp
  moreover have "holds (preserving (published name)) (change_publication_owner name role)" for role
    unfolding change_publication_owner_def coverage_gap_def
    by (intro holds_intros holds_prod published_modify update_published) simp_all
  ultimately show ?thesis
    by (cases action) (simp_all only: change_publication.simps, (intro holds_intros holds_scope published_modify | assumption)+)
qed

lemma wp_preserving: "holds (preserving I) m \<Longrightarrow> I s \<Longrightarrow> wp m (\<lambda>_. I) I s"
  by (auto simp: wp_def holds_def preserving_def split: option.splits sum.splits)

lemma wp_andthen_fun: "wp (andthen m f) Q E = wp m (\<lambda>x. wp (f x) Q E) E"
  by (rule ext) (rule wp_andthen)

lemma wp_modify_fun: "wp (modify f) Q E = (\<lambda>s. Q () (f s))"
  by (rule ext) (rule wp_modify)

lemma published_imp_ok: "published name s \<Longrightarrow> publications_ok s"
  by (simp add: published_def)

lemma alter_saved_publication_ok:
  assumes "published name s"
  shows "wp (alter_saved_publication name action) (\<lambda>_. publications_ok) publications_ok s"
proof -
  have bumped: "published name (bump_generation u)" if "published name u" for u
    using that publication_view_cong [OF publication_view_frame(2)] by (simp add: published_def)
  have body: "holds (preserving (published name))
      (andthen (modify bump_generation) (\<lambda>_.
       andthen (asks (\<lambda>s. (l_generation_counter (local s), current_scope name s))) (\<lambda>(generation, current).
       andthen (change_publication name current action) (\<lambda>replacement.
       andthen (case replacement of Some scope \<Rightarrow> modify (replace_scope name scope) | None \<Rightarrow> ret ()) (\<lambda>_.
       modify (update_publication name (\<lambda>p. p\<lparr>pub_generation := generation\<rparr>)))))))"
    by (intro holds_intros holds_prod published_modify bumped change_publication_published replace_scope_published
        update_published) simp_all
  have last: "wp (case action of RenamePublication to \<Rightarrow>
        andthen (modify (snapshot_publication to)) (\<lambda>_. modify (move_publication name to)) | _ \<Rightarrow> ret ())
      (\<lambda>_. publications_ok) publications_ok u" if "published name u" for u
    using move_published [OF that] published_imp_ok [OF that] by (cases action) (simp_all add: wp_simps)
  have "wp (andthen (modify bump_generation) (\<lambda>_.
       andthen (asks (\<lambda>s. (l_generation_counter (local s), current_scope name s))) (\<lambda>(generation, current).
       andthen (change_publication name current action) (\<lambda>replacement.
       andthen (case replacement of Some scope \<Rightarrow> modify (replace_scope name scope) | None \<Rightarrow> ret ()) (\<lambda>_.
       modify (update_publication name (\<lambda>p. p\<lparr>pub_generation := generation\<rparr>)))))))
      (\<lambda>_. wp (case action of RenamePublication to \<Rightarrow>
        andthen (modify (snapshot_publication to)) (\<lambda>_. modify (move_publication name to)) | _ \<Rightarrow> ret ())
        (\<lambda>_. publications_ok) publications_ok) publications_ok s"
    by (rule wp_mono [OF wp_preserving [OF body assms]]) (simp_all add: last published_imp_ok)
  then show ?thesis
    by (simp add: alter_saved_publication_def wp_andthen_fun wp_modify_fun wp_asks split_beta)
qed

lemma alter_publication_keeps_ok:
  assumes "publications_ok s"
  shows "wp (apply_alter_publication a) (\<lambda>_. publications_ok) publications_ok s"
proof -
  let ?name = "apb_name a" and ?action = "apb_action a"
  let ?checks = "case ?action of
      RenamePublication to \<Rightarrow> ensure_rename_target publication_lookup (publication_conflict to ''already exists'') to
    | PublicationOwner role \<Rightarrow> ensure_new_owner role
    | _ \<Rightarrow> ret ()"
  have checks: "holds (preserving (published ?name)) ?checks"
    by (cases ?action) (simp_all add: published.holds_new_name published.holds_new_owner published.holds_ret)
  have saved: "wp (andthen (modify (snapshot_publication ?name)) (\<lambda>_. alter_saved_publication ?name ?action))
      (\<lambda>_. publications_ok) publications_ok u" if "published ?name u" for u
    using that alter_saved_publication_ok [of ?name "snapshot_publication ?name u" ?action]
      publication_view_cong [OF publication_view_frame(3)] by (simp add: published_def wp_simps)
  have rest: "wp (andthen ?checks (\<lambda>_. andthen (modify (snapshot_publication ?name)) (\<lambda>_. alter_saved_publication ?name ?action)))
      (\<lambda>_. publications_ok) publications_ok u" if "published ?name u" for u
    unfolding wp_andthen [of ?checks]
    by (rule wp_mono [OF wp_preserving [OF checks that]]) (simp_all add: saved published_imp_ok)
  show ?thesis
  proof (cases "publication_lookup s ?name")
    case LookupPresent
    then have "published ?name s"
      using assms by (auto simp: published_def has_publication_def publication_lookup_def split: option.splits overlay.splits if_splits)
    then show ?thesis using LookupPresent rest
      by (simp add: apply_alter_publication_def Let_def wp_andthen [of "asks _"] wp_andthen [of "ret _"] wp_asks wp_ret)
  qed (use assms publication_view_cong [OF publication_view_frame(1)] in
      \<open>simp_all add: apply_alter_publication_def Let_def wp_simps\<close>)
qed

lemma create_publication_keeps_ok: "holds (preserving publications_ok) (apply_create_publication c)"
proof -
  have put: "published (cpb_name c) (insert_publication c scope (bump_generation (snapshot_publication (cpb_name c) u)))"
    if "publications_ok u" for scope u
  proof -
    have "publications_ok (bump_generation (snapshot_publication (cpb_name c) u))"
      using that publication_view_cong [OF publication_view_frame(2)] publication_view_cong [OF publication_view_frame(3)] by simp
    then show ?thesis unfolding insert_publication_def by (rule put_present) simp
  qed
  have "publications_ok (mirror_scope (cpb_name c) scope (insert_publication c scope (bump_generation (snapshot_publication (cpb_name c) u))))"
    if "publications_ok u" for scope u
    using mirror_published [OF put [OF that]] by (rule published_imp_ok)
  then have "holds (preserving publications_ok)
      (modify (\<lambda>s. mirror_scope (cpb_name c) scope (insert_publication c scope (bump_generation (snapshot_publication (cpb_name c) s)))))" for scope
    by (intro publications.holds_modify) (simp add: preserving_def)
  then show ?thesis
    unfolding apply_create_publication_def modify_modify by (intro holds_intros)
qed

lemma drop_names:
  "l_publications (local (fold drop_one_publication names s)) =
     (\<lambda>n. if n \<in> set names then Some Dropped else l_publications (local s) n)
   \<and> graph_of (fold drop_one_publication names s) = graph_of s"
  by (induction names arbitrary: s)
    (auto simp: drop_one_publication_def put_publication_def upd_local_def snapshot_defs log_change_def fun_eq_iff)

lemma drop_edges_ok:
  assumes "publications_ok s"
  shows "publications_ok (drop_publication_edges names (fold drop_one_publication names s))"
proof -
  let ?t = "fold drop_one_publication names s"
  have t: "l_publications (local ?t) = (\<lambda>n. if n \<in> set names then Some Dropped else l_publications (local s) n)"
    "graph_of ?t = graph_of s"
    using drop_names [of names s] by simp_all
  have frame: "l_publications (local (drop_publication_edges names u)) = l_publications (local u)"
    "graph_of (drop_publication_edges names u) =
       retain_edges (\<lambda>e. \<not> (is_publication_kind (edge_kind e) \<and> name_of (referenced e) \<in> set names)) (graph_of u)" for u
    by (simp_all add: drop_publication_edges_def on_graph_def snapshot_defs log_change_def)
  show ?thesis
    using assms
    by (auto simp: publications_ok_def edges_published_def publications_named_def has_publication_def frame t graph_wf_retain
        graph_simps)
qed

lemma andthen_assoc: "andthen (andthen m f) g = andthen m (\<lambda>x. andthen (f x) g)"
  by (rule ext) (simp add: andthen_def split: option.split sum.split)

lemma drop_publication_keeps_ok: "holds (preserving publications_ok) (apply_drop_publication d)"
proof -
  have "holds (preserving publications_ok)
      (modify (\<lambda>s. drop_publication_edges names (fold drop_one_publication names s)))" for names
    by (rule publications.holds_modify) (simp add: preserving_def drop_edges_ok)
  then have "holds (preserving publications_ok) (andthen (modify (\<lambda>s. drop_publication_edges names (fold drop_one_publication names s)))
      (\<lambda>_. if names = [] then return_with NoOp else ret ()))" for names
    by (intro holds_intros)
  then have "holds (preserving publications_ok) (andthen (modify (fold drop_one_publication names)) (\<lambda>_.
      andthen (modify (drop_publication_edges names)) (\<lambda>_. if names = [] then return_with NoOp else ret ())))" for names
    unfolding modify_modify [symmetric] andthen_assoc .
  then have "holds (preserving publications_ok) (if list_ex (\<lambda>f. f = None) found then give_up UnknownObjectState
      else andthen (modify (fold drop_one_publication (concat (map the found)))) (\<lambda>_.
        andthen (modify (drop_publication_edges (concat (map the found)))) (\<lambda>_.
        if concat (map the found) = [] then return_with NoOp else ret ())))" for found
    by (intro holds_if publications.holds_give_up)
  then show ?thesis
    unfolding apply_drop_publication_def Let_def
    by (intro publications.holds_andthen publications.holds_collect_each publications.holds_find_dropped)
qed

text \<open>
  C40. The publication statements keep the mirror of publications in the dependency graph sound: every edge
  from a table to a publication points to a publication that is present, under its own name; none
  survives a drop or a rename of its publication.
\<close>

theorem publication_edges_have_publications:
  assumes "publications_ok s"
    and "finish (apply_create_publication c) s = Some (r, t) \<or> finish (apply_alter_publication a) s = Some (r, t)
      \<or> finish (apply_drop_publication d) s = Some (r, t)"
  shows "publications_ok t"
  using assms publications.holds_finish [OF create_publication_keeps_ok] publications.holds_finish [OF drop_publication_keeps_ok]
    wp_finish [OF alter_publication_keeps_ok [OF assms(1)]]
  unfolding preserving_def by blast

section \<open>Two spellings of one table\<close>

text \<open>The key of an object does not depend on what the handler saves or records.\<close>

lemma first_candidate_cong:
  assumes "l_relations (local t) = l_relations (local s)" "l_sequences (local t) = l_sequences (local s)" "graph_of t = graph_of s"
  shows "first_candidate t name path = first_candidate s name path"
  by (induction path)
    (simp_all add: relation_namespace_object_is_present_def relation_is_present_def sequence_is_present_def
      index_is_present_def assms split: option.split)

lemma resolve_relation_object_cong:
  assumes "l_relations (local t) = l_relations (local s)" "l_sequences (local t) = l_sequences (local s)"
    "graph_of t = graph_of s" "l_search_path (local t) = l_search_path (local s)"
  shows "resolve_relation_object t name = resolve_relation_object s name"
proof -
  have "resolve_relation_id t name = resolve_relation_id s name"
    unfolding resolve_relation_id_def first_candidate_cong [OF assms(1-3)] assms(4) ..
  then show ?thesis by (simp add: resolve_relation_object_def)
qed

lemma publication_object_key_cong:
  assumes "l_relations (local t) = l_relations (local s)" "l_sequences (local t) = l_sequences (local s)"
    "graph_of t = graph_of s" "l_search_path (local t) = l_search_path (local s)"
  shows "publication_object_key t x = publication_object_key s x"
  by (cases x) (simp_all add: resolve_relation_object_cong [OF assms] first_path_name_def assms(4))

lemma saved_publication_frame [simp]:
  "l_relations (local (bump_generation (snapshot_publication n s))) = l_relations (local s)"
  "l_sequences (local (bump_generation (snapshot_publication n s))) = l_sequences (local s)"
  "graph_of (bump_generation (snapshot_publication n s)) = graph_of s"
  "l_search_path (local (bump_generation (snapshot_publication n s))) = l_search_path (local s)"
  "l_publications (local (bump_generation (snapshot_publication n s))) = l_publications (local s)"
  "l_search_path (local (taint code scope s)) = l_search_path (local s)"
  by (simp_all add: taint_def record_evidence_def mark_tainted_def bump_generation_def upd_local_def snapshot_defs Let_def
      log_change_def)

lemma display_of_bare_name:
  assumes "resolve_relation_id s bare = resolve_relation_id s full" "qn_schema bare = None" "qn_schema full = Some x"
  shows "publication_object_key s (PublishedTable bare a b c d) \<noteq> publication_object_key s (PublishedTable full e f g h)"
  using assms by (simp add: resolve_relation_object_def object_id_display_def Let_def)

text \<open>
  A table keeps the spelling under which it was added: the key of an object shows whether the schema was
  inferred. A publication of \<^verbatim>\<open>t\<close> therefore refuses to drop \<^verbatim>\<open>s.t\<close>, although both name the same relation.
\<close>

theorem bare_table_not_droppable_by_full_name:
  assumes "resolve_relation_id s bare = resolve_relation_id s full" "qn_schema bare = None" "qn_schema full = Some x"
    and "l_publications (local s) name = Some (Present p)" "pub_scope p = ExplicitObjects [PublishedTable bare a b c d]"
  shows "\<exists>t. finish (apply_alter_publication \<lparr>apb_name = name, apb_action = DropObjects [PublishedTable full e f g h]\<rparr>) s =
    Some (publication_conflict name ''does not contain the requested object'', t)"
proof -
  let ?u = "bump_generation (snapshot_publication name s)"
  have keys: "publication_object_key u (PublishedTable bare a b c d) \<noteq> publication_object_key u (PublishedTable full e f g h)"
    if "u = ?u \<or> u = taint CatalogCoverageIncomplete ChainScope ?u" for u
  proof -
    have "publication_object_key u y = publication_object_key s y" for y
      by (rule publication_object_key_cong) (use that in auto)
    then show ?thesis using display_of_bare_name [OF assms(1-3)] by metis
  qed
  then have "drop_objects u [PublishedTable bare a b c d] [PublishedTable full e f g h] = None"
    if "u = ?u \<or> u = taint CatalogCoverageIncomplete ChainScope ?u" for u
    using that by auto
  then show ?thesis
    using assms(4,5)
    by (simp add: finish_def apply_alter_publication_def alter_saved_publication_def andthen_def asks_def ret_def modify_def
        return_with_def publication_lookup_def current_scope_def taint_inheritance_sensitive_publication_scope_def
        coverage_gap_def)
qed

text \<open>
  \<^verbatim>\<open>CREATE PUBLICATION\<close> repairs the list of schemas that the parser returns as tables before it checks the
  objects; \<^verbatim>\<open>ALTER PUBLICATION ADD\<close> checks first. The second of two schemas is then refused as a missing table.
\<close>

lemma saved_publication_baseline [simp]:
  "schema_is_present (bump_generation (snapshot_publication n s)) x = schema_is_present s x"
  "baseline_covers_family_object (bump_generation (snapshot_publication n s)) i f = baseline_covers_family_object s i f"
  by (simp_all add: schema_is_present_def baseline_covers_family_object_def baseline_covers_object_def bump_generation_def
      upd_local_def snapshot_defs log_change_def)

theorem schemas_added_are_refused_as_tables:
  assumes "l_publications (local s) name = Some (Present p)" "schema_is_present s a" "schema_is_present s (ident_text (qn_name b))"
    and "l_relations (local s) (oid (resolve_relation_object s b)) = None"
      "baseline_covers_family_object s (oid (resolve_relation_object s b)) FamRelations"
  shows "normalize_publication_scope s (ExplicitObjects [SchemaTables a None, PublishedTable b False False None None]) =
      ExplicitObjects [SchemaTables a None, SchemaTables (ident_text (qn_name b)) None]
    \<and> (\<exists>t. finish (apply_alter_publication \<lparr>apb_name = name,
          apb_action = AddObjects [SchemaTables a None, PublishedTable b False False None None]\<rparr>) s =
        Some (no_published_table (resolve_relation_object s b), t))"
proof
  show "normalize_publication_scope s (ExplicitObjects [SchemaTables a None, PublishedTable b False False None None]) =
      ExplicitObjects [SchemaTables a None, SchemaTables (ident_text (qn_name b)) None]"
    using assms(3) by (simp add: normalize_publication_scope_def push_normalized_def)
  let ?u = "bump_generation (snapshot_publication name s)"
  have "resolve_relation_object ?u b = resolve_relation_object s b" by (rule resolve_relation_object_cong) simp_all
  then show "\<exists>t. finish (apply_alter_publication \<lparr>apb_name = name,
          apb_action = AddObjects [SchemaTables a None, PublishedTable b False False None None]\<rparr>) s =
        Some (no_published_table (resolve_relation_object s b), t)"
    using assms
    by (simp add: finish_def apply_alter_publication_def alter_saved_publication_def andthen_def asks_def ret_def modify_def
        return_with_def publication_lookup_def validate_publication_scope_def validate_published_table_def)
qed

section \<open>Samples\<close>

definition publication_sample :: create_publication where
  "publication_sample = \<lparr>cpb_name = ''p'', cpb_scope = ExplicitObjects
     [PublishedTable \<lparr>qn_schema = Some \<lparr>ident_text = ''s'', ident_quoted = False\<rparr>,
        qn_name = \<lparr>ident_text = ''t'', ident_quoted = False\<rparr>\<rparr> False False None None], cpb_params = []\<rparr>"

theorem publication_edges_have_publications_witness:
  "\<exists>r t. finish (apply_create_publication publication_sample) (drop_sample []) = Some (r, t) \<and> publications_ok t"
proof -
  have ok: "publications_ok (drop_sample [])"
    using drop_sample_wf(1) drop_sample_edges(1)
    by (simp add: publications_ok_def edges_published_def publications_named_def drop_sample_defs)
  obtain r t where run: "finish (apply_create_publication publication_sample) (drop_sample []) = Some (r, t)"
  proof -
    obtain x u where "apply_create_publication publication_sample (drop_sample []) = Some (x, u)"
      using total_create_publication [of publication_sample] by (fastforce simp: total_def)
    then show thesis using that by (cases x) (simp_all add: finish_def)
  qed
  then show ?thesis using publication_edges_have_publications [OF ok] by blast
qed

end
