(* ===== verification/Ddl.thy ===== *)
theory Ddl
  imports Maintenance Triggers Schema_Handlers Publications
begin

text \<open>
  The mutations whose handlers are steps, and their part of the dispatcher
  (\<^verbatim>\<open>src/src/_internal/analysis/state/apply.rs\<close>).
\<close>

datatype ddl =
    CreateSchema create_schema
  | AlterSchema alter_schema
  | CreateRole create_role
  | AlterRole alter_role
  | DropRole drop_role
  | Grant grant_mutation
  | Revoke revoke_mutation
  | CreateSequence create_sequence
  | AlterSequence alter_sequence
  | DropSequence drop_sequences
  | CreatePolicy create_policy
  | DropPolicy drop_policy
  | CreateTrigger create_trigger
  | DropTrigger drop_trigger_mutation
  | RenameTrigger rename_trigger
  | LockTable lock_table
  | Truncate truncate_mutation
  | CreateDatabase
  | AlterDatabase
  | DropDatabase drop_database
  | Vacuum "object_id option" bool
  | Reindex "reindex_target option" bool
  | AlterIndexAllInTablespace string
  | CreatePublication create_publication
  | AlterPublication alter_publication
  | DropPublication drop_publication
  | CreateSubscription create_subscription
  | AlterSubscription alter_subscription
  | DropSubscription drop_subscription

fun apply_ddl :: "hash_order \<Rightarrow> ddl \<Rightarrow> unit step" where
  "apply_ddl h (CreateSchema c) = apply_create_schema c"
| "apply_ddl h (AlterSchema a) = apply_alter_schema h a"
| "apply_ddl h (CreateRole c) = apply_create_role c"
| "apply_ddl h (AlterRole a) = apply_alter_role a"
| "apply_ddl h (DropRole d) = apply_drop_role d"
| "apply_ddl h (Grant g) = apply_grant h g"
| "apply_ddl h (Revoke r) = apply_revoke h r"
| "apply_ddl h (CreateSequence c) = apply_create_sequence c"
| "apply_ddl h (AlterSequence a) = apply_alter_sequence a"
| "apply_ddl h (DropSequence d) = apply_drop_sequence h d"
| "apply_ddl h (CreatePolicy c) = apply_create_policy c"
| "apply_ddl h (DropPolicy d) = apply_drop_policy d"
| "apply_ddl h (CreateTrigger c) = apply_create_trigger c"
| "apply_ddl h (DropTrigger d) = apply_drop_trigger h d"
| "apply_ddl h (RenameTrigger r) = apply_rename_trigger r"
| "apply_ddl h (LockTable l) = apply_lock_table l"
| "apply_ddl h (Truncate t) = apply_truncate h t"
| "apply_ddl h CreateDatabase = apply_create_database"
| "apply_ddl h AlterDatabase = apply_alter_database"
| "apply_ddl h (DropDatabase d) = apply_drop_database"
| "apply_ddl h (Vacuum _ _) = apply_vacuum"
| "apply_ddl h (Reindex target concurrently) = apply_reindex target concurrently"
| "apply_ddl h (AlterIndexAllInTablespace _) = apply_alter_index_all_in_tablespace"
| "apply_ddl h (CreatePublication c) = apply_create_publication c"
| "apply_ddl h (AlterPublication a) = apply_alter_publication a"
| "apply_ddl h (DropPublication d) = apply_drop_publication d"
| "apply_ddl h (CreateSubscription c) = apply_create_subscription c"
| "apply_ddl h (AlterSubscription a) = apply_alter_subscription a"
| "apply_ddl h (DropSubscription d) = apply_drop_subscription d"

text \<open>The object a mutation acts on (\<^verbatim>\<open>analysis/mutation_object.rs\<close>).\<close>

definition one_object :: "object_kind \<Rightarrow> object_id \<Rightarrow> (object_kind \<times> string) option" where
  "one_object kind i = Some (kind, object_id_display i)"

definition many_objects :: "object_kind \<Rightarrow> object_id list \<Rightarrow> (object_kind \<times> string) option" where
  "many_objects kind ids = (case ids of [i] \<Rightarrow> Some (kind, object_id_display i) | _ \<Rightarrow> None)"

definition relation_target_object :: "relation_target list \<Rightarrow> (object_kind \<times> string) option" where
  "relation_target_object targets = (case targets of [t] \<Rightarrow> Some (KindTable, object_id_display (tgt_id t)) | _ \<Rightarrow> None)"

definition policy_name :: "create_policy \<Rightarrow> string" where
  "policy_name c = oid_name (cp_table c) @ ''.'' @ cp_name c"

definition reindex_object :: "reindex_target \<Rightarrow> object_kind \<times> string" where
  "reindex_object t =
     (case t of
        ReindexDatabase name \<Rightarrow> (KindDatabase, name)
      | ReindexSchema name \<Rightarrow> (KindSchema, name)
      | ReindexSystem name \<Rightarrow> (KindUnknown, case name of Some n \<Rightarrow> n | None \<Rightarrow> ''system'')
      | ReindexTable i \<Rightarrow> (KindTable, object_id_display i)
      | ReindexIndex i \<Rightarrow> (KindIndex, object_id_display i))"

fun ddl_object :: "ddl \<Rightarrow> (object_kind \<times> string) option" where
  "ddl_object (CreateSchema c) = Some (KindSchema, csc_name c)"
| "ddl_object (CreatePublication c) = Some (KindPublication, cpb_name c)"
| "ddl_object (CreateSubscription c) = map_option (Pair KindSubscription) (csb_name c)"
| "ddl_object (CreateSequence c) = one_object KindSequence (cs_id c)"
| "ddl_object (CreateRole c) = Some (KindRole, cr_name c)"
| "ddl_object (CreatePolicy c) = Some (KindPolicy, policy_name c)"
| "ddl_object (CreateTrigger c) = Some (KindTrigger, ct_name c)"
| "ddl_object (AlterIndexAllInTablespace source) = Some (KindIndex, source)"
| "ddl_object (DropSequence d) = many_objects KindSequence (ds_ids d)"
| "ddl_object (DropTrigger d) = Some (KindTrigger, dg_name d)"
| "ddl_object (Reindex target _) = map_option reindex_object target"
| "ddl_object (Vacuum table _) = map_option (\<lambda>i. (KindTable, object_id_display i)) table"
| "ddl_object (LockTable l) = relation_target_object (lk_targets l)"
| "ddl_object (Truncate t) = relation_target_object (tru_targets t)"
| "ddl_object _ = None"

lemma apply_ddl_logged: "holds logged (apply_ddl h d)"
  by (cases d) (simp_all add: keeps_create_role keeps_alter_role keeps_drop_role keeps_grant keeps_revoke
      keeps_create_sequence keeps_alter_sequence keeps_drop_sequence keeps_policies keeps_triggers keeps_maintenance
      keeps_create_schema keeps_alter_schema keeps_publications keeps_subscriptions)

lemma apply_ddl_terminates: "terminates (apply_ddl h d)"
  by (cases d) (simp_all add: terminates_role_changes terminates_grant terminates_revoke
      total_terminates total_sequence_handlers total_policies_triggers total_maintenance
      total_create_schema total_alter_schema total_publications total_subscriptions)

lemma ddl_logged: "finish (apply_ddl h d) s = Some (r, t) \<Longrightarrow> logged s t"
  by (rule logging.holds_finish [OF apply_ddl_logged])

lemma ddl_returns: "graph_wf (graph_of s) \<Longrightarrow> roles_finite s \<Longrightarrow> finish (apply_ddl h d) s \<noteq> None"
  by (rule finish_terminates [OF apply_ddl_terminates])

end
