(* ===== verification/Transactions.thy ===== *)
theory Transactions
  imports Ddl
begin

text \<open>
  Transaction control and the dispatcher (\<^verbatim>\<open>src/src/_internal/analysis/state/apply_transaction.rs\<close>,
  \<^verbatim>\<open>state/apply.rs\<close>). The transaction stack is a vector of frames, the root first; a statement
  appends to the log of the last one. The dispatcher is modelled for the mutations whose handlers
  are: settings, transaction control, opaque statements, \<^verbatim>\<open>DROP TABLE\<close> and those of the theory \<open>Ddl\<close>.
\<close>

section \<open>Transaction control\<close>

abbreviation with_transactions :: "transaction_frame list \<Rightarrow> analysis_state \<Rightarrow> analysis_state" where
  "with_transactions ts s \<equiv> s\<lparr>local := (local s)\<lparr>l_transactions := ts\<rparr>\<rparr>"

abbreviation with_aborted :: "bool \<Rightarrow> analysis_state \<Rightarrow> analysis_state" where
  "with_aborted b s \<equiv> s\<lparr>local := (local s)\<lparr>l_transaction_aborted := b\<rparr>\<rparr>"

definition apply_begin_transaction :: "analysis_state \<Rightarrow> mutation_result \<times> analysis_state" where
  "apply_begin_transaction s =
     (if transactions s = [] then (Applied, with_transactions [frame_root] s) else (NoOp, s))"

text \<open>\<^verbatim>\<open>while let Some(frame) = transactions.pop() { rollback_frame(frame) }\<close>.\<close>

function rollback_all :: "analysis_state \<Rightarrow> analysis_state" where
  "rollback_all s =
     (if transactions s = [] then s
      else rollback_all (rollback_frame (last (transactions s)) (with_transactions (butlast (transactions s)) s)))"
  by pat_completeness auto

termination rollback_all
  by (relation "measure (\<lambda>s. length (transactions s))") (auto simp: rollback_frame_def frame_simps)

declare rollback_all.simps [simp del]

definition on_commit_of :: "analysis_state \<Rightarrow> oid \<Rightarrow> (oid \<times> on_commit_action) option" where
  "on_commit_of s i =
     (case l_relations (local s) i of
        Some (Present relation) \<Rightarrow>
          if r_persistence relation = Temporary then map_option (Pair i) (r_on_commit relation) else None
      | _ \<Rightarrow> None)"

definition apply_on_commit_action :: "hash_order \<Rightarrow> oid \<times> on_commit_action \<Rightarrow> analysis_state \<Rightarrow> analysis_state" where
  "apply_on_commit_action h a s =
     (case a of (i, action) \<Rightarrow>
        (case action of
           PreserveRows \<Rightarrow> s
         | DeleteRows \<Rightarrow>
             (case l_relations (local s) i of
                Some (Present relation) \<Rightarrow>
                  s\<lparr>local := (local s)\<lparr>l_relations := (l_relations (local s))(i \<mapsto>
                     Present (relation\<lparr>r_estimated_rows := Some 0, r_relpages := Some 0\<rparr>))\<rparr>\<rparr>
              | _ \<Rightarrow> s)
         | DropOnCommit \<Rightarrow>
             snd (apply_drop_table h
               \<lparr>dt_ids = [object_id_new (schema_of i) (name_of i)], dt_if_exists = False, dt_cascade = True\<rparr> None s)))"

definition apply_on_commit_actions :: "hash_order \<Rightarrow> analysis_state \<Rightarrow> analysis_state" where
  "apply_on_commit_actions h s =
     fold (apply_on_commit_action h)
       (List.map_filter (on_commit_of s) (ho_ids h (dom (l_relations (local s))))) s"

definition apply_implicit_commit_actions :: "hash_order \<Rightarrow> analysis_state \<Rightarrow> analysis_state" where
  "apply_implicit_commit_actions h s =
     (if transactions s = [] \<and> \<not> l_transaction_aborted (local s) then apply_on_commit_actions h s else s)"

definition reopen :: "bool \<Rightarrow> analysis_state \<Rightarrow> analysis_state" where
  "reopen chain s = (if chain then with_transactions (transactions s @ [frame_root]) s else s)"

definition apply_commit_transaction :: "hash_order \<Rightarrow> bool \<Rightarrow> analysis_state \<Rightarrow> mutation_result \<times> analysis_state" where
  "apply_commit_transaction h chain s =
     (if chain \<and> transactions s = []
      then (conflict ''COMMIT AND CHAIN can only be used in transaction blocks'',
            taint TransactionStateUnknown ChainScope s)
      else
        (let s1 = (if l_transaction_aborted (local s) then rollback_all s
                   else apply_on_commit_actions h (restore_persistent_role_context (with_transactions [] s)))
         in (Applied, reopen chain (with_aborted False s1))))"

definition apply_rollback_transaction :: "bool \<Rightarrow> analysis_state \<Rightarrow> mutation_result \<times> analysis_state" where
  "apply_rollback_transaction chain s =
     (if chain \<and> transactions s = []
      then (conflict ''ROLLBACK AND CHAIN can only be used in transaction blocks'',
            taint TransactionStateUnknown ChainScope s)
      else (Applied, reopen chain (with_aborted False (rollback_all s))))"

text \<open>An unknown savepoint: evidence, and the open transaction is aborted.\<close>

definition missing_savepoint :: "string \<Rightarrow> analysis_state \<Rightarrow> mutation_result \<times> analysis_state" where
  "missing_savepoint name s =
     (let s1 = taint TransactionStateUnknown ChainScope s
      in (conflict (''savepoint '' @ quoted name @ '' does not exist''),
          if transactions s1 \<noteq> [] then with_aborted True s1 else s1))"

definition apply_rollback_to_savepoint :: "string \<Rightarrow> analysis_state \<Rightarrow> mutation_result \<times> analysis_state" where
  "apply_rollback_to_savepoint name s =
     (case rposition (is_named_savepoint name) (transactions s) of
        None \<Rightarrow> missing_savepoint name s
      | Some p \<Rightarrow>
          (let rolled_back = drop (p + 1) (transactions s);
               s1 = fold rollback_frame (rev rolled_back) (with_transactions (take (p + 1) (transactions s)) s);
               log = undo_log (transactions s1 ! p);
               s2 = with_transactions ((transactions s1)[p := (transactions s1 ! p)\<lparr>undo_log := []\<rparr>]) s1
           in (Applied, with_aborted False (rollback_undo_log log s2))))"

definition apply_savepoint :: "string \<Rightarrow> analysis_state \<Rightarrow> mutation_result \<times> analysis_state" where
  "apply_savepoint name s =
     (if transactions s = []
      then (conflict ''SAVEPOINT can only be used in transaction blocks'',
            taint TransactionStateUnknown ChainScope s)
      else (Applied, with_transactions (transactions s @ [frame_savepoint name]) s))"

definition apply_release_savepoint :: "string \<Rightarrow> analysis_state \<Rightarrow> mutation_result \<times> analysis_state" where
  "apply_release_savepoint name s =
     (case rposition (is_named_savepoint name) (transactions s) of
        None \<Rightarrow> missing_savepoint name s
      | Some p \<Rightarrow>
          if p = 0
          then (conflict (''savepoint '' @ quoted name @ '' is not inside a transaction''),
                taint TransactionStateUnknown ChainScope s)
          else
            (let released = drop p (transactions s);
                 kept = take p (transactions s);
                 outer = last kept
             in (Applied, with_transactions
                  (butlast kept @ [outer\<lparr>undo_log := undo_log outer @ concat (map undo_log released)\<rparr>]) s)))"

section \<open>The dispatcher\<close>

datatype mutation =
    DropTable drop_table
  | NoStateChange
  | SearchPath search_path_change
  | TimeoutSetting timeout_setting_change
  | ResetSettings reset_setting_target
  | CheckTimeouts "(object_kind \<times> string) option"
  | SwitchRole "role_fact option" bool bool
  | BeginTransaction
  | CommitTransaction
  | CommitAndChain
  | RollbackTransaction
  | RollbackAndChain
  | RollbackToSavepoint string
  | SavepointMutation string
  | ReleaseSavepoint string
  | OpaqueMutation opaque_mutation
  | Ddl ddl

text \<open>\<open>None\<close> only if a walk over the role graph does not end.\<close>

fun apply_inner ::
  "hash_order \<Rightarrow> cascade_result option \<Rightarrow> mutation \<Rightarrow> analysis_state \<Rightarrow> (mutation_result \<times> analysis_state) option" where
  "apply_inner h pre (DropTable d) s = Some (apply_drop_table h d pre s)"
| "apply_inner h pre NoStateChange s = Some (Applied, s)"
| "apply_inner h pre (SearchPath c) s = Some (apply_search_path c s)"
| "apply_inner h pre (TimeoutSetting c) s = Some (apply_timeout_setting c s)"
| "apply_inner h pre (ResetSettings t) s = Some (apply_reset_settings t s)"
| "apply_inner h pre (CheckTimeouts subject) s = Some (Applied, s)"
| "apply_inner h pre (SwitchRole r b sa) s = apply_switch_role r b sa s"
| "apply_inner h pre BeginTransaction s = Some (apply_begin_transaction s)"
| "apply_inner h pre CommitTransaction s = Some (apply_commit_transaction h False s)"
| "apply_inner h pre CommitAndChain s = Some (apply_commit_transaction h True s)"
| "apply_inner h pre RollbackTransaction s = Some (apply_rollback_transaction False s)"
| "apply_inner h pre RollbackAndChain s = Some (apply_rollback_transaction True s)"
| "apply_inner h pre (RollbackToSavepoint n) s = Some (apply_rollback_to_savepoint n s)"
| "apply_inner h pre (SavepointMutation n) s = Some (apply_savepoint n s)"
| "apply_inner h pre (ReleaseSavepoint n) s = Some (apply_release_savepoint n s)"
| "apply_inner h pre (OpaqueMutation x) s = Some (apply_opaque x s)"
| "apply_inner h pre (Ddl d) s = finish (apply_ddl h d) s"

fun ends_transaction :: "mutation \<Rightarrow> bool" where
  "ends_transaction CommitTransaction = True"
| "ends_transaction CommitAndChain = True"
| "ends_transaction RollbackTransaction = True"
| "ends_transaction RollbackAndChain = True"
| "ends_transaction _ = False"

fun runs_when_aborted :: "mutation \<Rightarrow> bool" where
  "runs_when_aborted (RollbackToSavepoint _) = True"
| "runs_when_aborted m = ends_transaction m"

definition apply_mutation ::
  "hash_order \<Rightarrow> cascade_result option \<Rightarrow> mutation \<Rightarrow> analysis_state \<Rightarrow> (mutation_result \<times> analysis_state) option" where
  "apply_mutation h pre m s =
     (if l_transaction_aborted (local s) \<and> \<not> runs_when_aborted m then Some (NotExecuted, s)
      else case apply_inner h pre m s of
          None \<Rightarrow> None
        | Some (r, t) \<Rightarrow>
            Some (r, if is_conflict r \<and> transactions t \<noteq> [] then with_aborted True t else t))"

section \<open>The invariant of the transaction stack\<close>

definition frames_ok :: "transaction_frame list \<Rightarrow> bool" where
  "frames_ok ts \<longleftrightarrow>
     ts = [] \<or> (frame_kind (hd ts) = Root \<and> (\<forall>f \<in> set (tl ts). \<exists>n. frame_kind f = Savepoint n))"

definition tx_inv :: "analysis_state list \<Rightarrow> analysis_state \<Rightarrow> bool" where
  "tx_inv ms s \<longleftrightarrow>
     graph_wf (graph_of s) \<and> frames_ok (transactions s)
     \<and> (l_transaction_aborted (local s) \<longrightarrow> transactions s \<noteq> [])
     \<and> marked undo_change core (map undo_log (transactions s)) ms s"

lemma core_frames [simp]: "core (with_transactions ts s) = core s" "core (with_aborted b s) = core s"
  by (simp_all add: core_def)

lemma core_unwind_frames [simp]:
  "core (foldr undo_change cs (with_transactions ts s)) = core (foldr undo_change cs s)"
  "core (foldr undo_change cs (with_aborted b s)) = core (foldr undo_change cs s)"
  by (rule state_journal.unwind_cong, simp)+

lemma marked_frames [simp]:
  "marked undo_change core ls ms (with_transactions ts s) = marked undo_change core ls ms s"
  "marked undo_change core ls ms (with_aborted b s) = marked undo_change core ls ms s"
  by (simp_all add: marked_def)

lemma undo_change_wf: "graph_wf (graph_of s) \<Longrightarrow> graph_wf (graph_of (undo_change c s))"
  by (cases c) (simp_all add: restore_namespace_def graph_wf_replace graph_wf_truncate)

lemma unwind_wf: "graph_wf (graph_of s) \<Longrightarrow> graph_wf (graph_of (foldr undo_change cs s))"
  by (induction cs) (simp_all add: undo_change_wf)

lemma unwind_frame [simp]:
  "transactions (foldr undo_change cs s) = transactions s"
  "l_transaction_aborted (local (foldr undo_change cs s)) = l_transaction_aborted (local s)"
  by (induction cs) (simp_all add: undo_change_frame)

lemma rollback_frames_unwind:
  "fold rollback_frame (rev fs) s = foldr undo_change (concat (map undo_log fs)) s"
  by (induction fs arbitrary: s) (simp_all add: rollback_frame_def rollback_undo_log_def)

lemma rollback_all_unwind:
  "core (rollback_all s) = core (foldr undo_change (concat (map undo_log (transactions s))) s)
   \<and> transactions (rollback_all s) = []
   \<and> (graph_wf (graph_of s) \<longrightarrow> graph_wf (graph_of (rollback_all s)))"
proof (induction s rule: rollback_all.induct)
  case (1 s)
  show ?case
  proof (cases "transactions s = []")
    case False
    let ?t = "rollback_frame (last (transactions s)) (with_transactions (butlast (transactions s)) s)"
    have "transactions ?t = butlast (transactions s)"
      by (simp add: rollback_frame_def rollback_undo_log_def)
    moreover have "concat (map undo_log (transactions s)) =
        concat (map undo_log (butlast (transactions s))) @ undo_log (last (transactions s))"
      using False by (cases "transactions s" rule: rev_cases) simp_all
    moreover have "core ?t = core (foldr undo_change (undo_log (last (transactions s))) s)"
      by (simp add: rollback_frame_def rollback_undo_log_def)
    moreover have "rollback_all s = rollback_all ?t" using False by (subst rollback_all.simps) simp
    moreover have "graph_wf (graph_of s) \<Longrightarrow> graph_wf (graph_of ?t)"
      by (simp add: rollback_frame_def rollback_undo_log_def unwind_wf)
    ultimately show ?thesis
      using 1 [OF False] state_journal.unwind_cong
        [of ?t "foldr undo_change (undo_log (last (transactions s))) s" "concat (map undo_log (butlast (transactions s)))"]
      by simp
  qed (simp add: rollback_all.simps)
qed

lemma map_undo_log_on_top:
  "ts \<noteq> [] \<Longrightarrow> map undo_log (log_on_top d ts) = butlast (map undo_log ts) @ [last (map undo_log ts) @ d]"
  by (simp add: log_on_top_def map_butlast last_map)

lemma frames_ok_log [simp]: "frames_ok (log_on_top d ts) \<longleftrightarrow> frames_ok ts"
  by (cases ts rule: rev_cases; cases "butlast ts") (auto simp: frames_ok_def log_on_top_def)

lemma logged_tx_inv:
  assumes "tx_inv ms s" "logged s t"
  shows "tx_inv ms t"
proof -
  from assms obtain d where d: "graph_wf (graph_of t)" "l_transaction_aborted (local t) = l_transaction_aborted (local s)"
    "transactions t = log_on_top d (transactions s)" "core (foldr undo_change d t) = core s"
    by (auto simp: tx_inv_def logged_def rollback_undo_log_def)
  have "marked undo_change core (map undo_log (transactions t)) ms t"
  proof (cases "transactions s = []")
    case False
    then show ?thesis
      using assms(1) d state_journal.marked_log [of "map undo_log (transactions s)" ms s d t]
      by (simp add: tx_inv_def map_undo_log_on_top)
  qed (use assms(1) d in \<open>simp add: tx_inv_def marked_def log_on_top_def\<close>)
  with assms(1) d show ?thesis by (simp add: tx_inv_def)
qed

lemma tx_inv_aborted: "tx_inv ms s \<Longrightarrow> transactions s \<noteq> [] \<Longrightarrow> tx_inv ms (with_aborted b s)"
  by (simp add: tx_inv_def)

fun controls_transaction :: "mutation \<Rightarrow> bool" where
  "controls_transaction BeginTransaction = True"
| "controls_transaction (RollbackToSavepoint _) = True"
| "controls_transaction (SavepointMutation _) = True"
| "controls_transaction (ReleaseSavepoint _) = True"
| "controls_transaction m = ends_transaction m"

lemma apply_inner_logged:
  "apply_inner h pre m s = Some (r, t) \<Longrightarrow> \<not> controls_transaction m \<Longrightarrow> logged s t"
  using apply_drop_table_logged [of s h _ pre] apply_search_path_logged [of s] apply_timeout_setting_logged [of s]
    apply_reset_settings_logged [of s] apply_opaque_logged [of s]
  by (cases m) (simp_all add: ddl_logged, metis snd_conv, metis snd_conv, metis snd_conv, metis snd_conv,
      auto dest: apply_switch_role_logged, metis snd_conv)

text \<open>How the marks of the open frames change with a statement.\<close>

definition next_marks ::
  "mutation \<Rightarrow> analysis_state \<Rightarrow> analysis_state \<Rightarrow> analysis_state list \<Rightarrow> analysis_state list" where
  "next_marks m s t ms =
     (let n = length (transactions t)
      in if ends_transaction m then (if n = 0 then [] else [core t])
         else take n ms @ (if length ms < n then [core s] else []))"

lemma tx_inv_length: "tx_inv ms s \<Longrightarrow> length ms = length (transactions s)"
  by (simp add: tx_inv_def marked_def)

lemma next_marks_same:
  "tx_inv ms s \<Longrightarrow> length (transactions t) = length (transactions s) \<Longrightarrow> \<not> ends_transaction m \<Longrightarrow>
     next_marks m s t ms = ms"
  by (simp add: next_marks_def tx_inv_length)

lemma tx_inv_fresh:
  "graph_wf (graph_of s) \<Longrightarrow> transactions s = [] \<Longrightarrow> \<not> l_transaction_aborted (local s) \<Longrightarrow> tx_inv [] s"
  by (simp add: tx_inv_def frames_ok_def marked_def)

lemma tx_inv_open:
  assumes "tx_inv ms s" "undo_log f = []" "transactions s = [] \<Longrightarrow> frame_kind f = Root"
    and "transactions s \<noteq> [] \<Longrightarrow> \<exists>n. frame_kind f = Savepoint n"
  shows "tx_inv (ms @ [core s]) (with_transactions (transactions s @ [f]) s)"
proof -
  have "frames_ok (transactions s @ [f])"
    using assms by (cases "transactions s") (auto simp: tx_inv_def frames_ok_def)
  then show ?thesis
    using assms(1,2) state_journal.marked_open [of "map undo_log (transactions s)" ms s] by (simp add: tx_inv_def)
qed

lemma tx_inv_taint: "tx_inv ms s \<Longrightarrow> tx_inv ms (taint c sc s)"
  by (rule logged_tx_inv [OF _ taint_logged])

lemma taint_depth: "length (transactions (taint c sc s)) = length (transactions s)"
  by (simp add: taint_def record_evidence_def mark_tainted_def Let_def snapshot_defs log_change_def)

lemma taint_frames_empty [simp]: "transactions (taint c sc s) = [] \<longleftrightarrow> transactions s = []"
  using taint_depth [of c sc s] by (metis length_0_conv)

lemma missing_savepoint_inv:
  "missing_savepoint n s = (r, t) \<Longrightarrow> tx_inv ms s \<Longrightarrow> tx_inv ms t \<and> length (transactions t) = length (transactions s)"
  by (auto simp: missing_savepoint_def Let_def tx_inv_taint tx_inv_aborted taint_depth split: if_splits)

lemma rposition_frames:
  assumes "rposition (is_named_savepoint n) ts = Some p" "frames_ok ts"
  shows "0 < p" "p < length ts" "frame_kind (ts ! p) = Savepoint n"
proof -
  from rposition_SomeD [OF assms(1)] show p: "p < length ts" "frame_kind (ts ! p) = Savepoint n"
    by (auto simp: is_named_savepoint_def)
  then show "0 < p" using assms(2) by (cases p; cases ts) (auto simp: frames_ok_def)
qed

lemma frames_ok_take: "frames_ok ts \<Longrightarrow> frames_ok (take n ts)"
  by (cases ts; cases n) (auto simp: frames_ok_def dest: in_set_takeD)

lemma frames_ok_kinds: "map frame_kind ts = map frame_kind us \<Longrightarrow> frames_ok ts \<longleftrightarrow> frames_ok us"
proof -
  have "frames_ok ts \<longleftrightarrow> map frame_kind ts = [] \<or>
      (hd (map frame_kind ts) = Root \<and> (\<forall>k \<in> set (tl (map frame_kind ts)). \<exists>n. k = Savepoint n))" for ts
    by (cases ts) (auto simp: frames_ok_def)
  then show "map frame_kind ts = map frame_kind us \<Longrightarrow> ?thesis" by metis
qed

lemma undo_change_with_transactions:
  "undo_change c (with_transactions ts s) = with_transactions ts (undo_change c s)"
  by (cases c) (simp_all add: restore_namespace_def)

lemma unwind_with_transactions:
  "foldr undo_change cs (with_transactions ts s) = with_transactions ts (foldr undo_change cs s)"
  by (induction cs) (simp_all add: undo_change_with_transactions)

lemma rollback_to_state:
  assumes "rposition (is_named_savepoint n) (transactions s) = Some p"
  shows "apply_rollback_to_savepoint n s =
    (Applied, with_aborted False (foldr undo_change (concat (map undo_log (drop p (transactions s))))
       (with_transactions (take p (transactions s) @ [(transactions s ! p)\<lparr>undo_log := []\<rparr>]) s)))"
proof -
  let ?ts = "transactions s"
  have p: "p < length ?ts" using rposition_SomeD [OF assms] by simp
  have split: "drop p ?ts = ?ts ! p # drop (Suc p) ?ts" using p by (rule Cons_nth_drop_Suc [symmetric])
  have take: "(take (Suc p) ?ts)[p := (?ts ! p)\<lparr>undo_log := []\<rparr>] = take p ?ts @ [(?ts ! p)\<lparr>undo_log := []\<rparr>]"
    using p by (simp add: take_Suc_conv_app_nth list_update_append)
  have swap: "with_transactions ts (foldr undo_change cs (with_transactions us s)) = foldr undo_change cs (with_transactions ts s)"
    for ts us cs
    by (simp add: unwind_with_transactions)
  show ?thesis
    using assms p
    by (simp add: apply_rollback_to_savepoint_def Let_def rollback_frames_unwind rollback_undo_log_def split take swap)
qed

lemma kinds_cut:
  "p < length ts \<Longrightarrow> frames_ok ts \<Longrightarrow> frames_ok (take p ts @ [(ts ! p)\<lparr>undo_log := l\<rparr>])"
  using frames_ok_kinds [of "take p ts @ [(ts ! p)\<lparr>undo_log := l\<rparr>]" "take (Suc p) ts"] frames_ok_take [of ts "Suc p"]
  by (simp add: take_Suc_conv_app_nth)

lemma rollback_to_inv:
  assumes "tx_inv ms s" "rposition (is_named_savepoint n) (transactions s) = Some p"
    and "apply_rollback_to_savepoint n s = (r, t)"
  shows "tx_inv (take (Suc p) ms) t" "core t = ms ! p" "length (transactions t) = Suc p"
proof -
  let ?ls = "map undo_log (transactions s)"
  let ?u = "with_transactions (take p (transactions s) @ [(transactions s ! p)\<lparr>undo_log := []\<rparr>]) s"
  have p: "p < length ?ls" using rposition_SomeD [OF assms(2)] by simp
  have t: "t = with_aborted False (foldr undo_change (concat (drop p ?ls)) ?u)"
    using assms(3) rollback_to_state [OF assms(2)] by (simp add: drop_map)
  have c: "core t = core (foldr undo_change (concat (drop p ?ls)) s)" by (simp add: t)
  have m: "marked undo_change core ?ls ms s" using assms(1) by (simp add: tx_inv_def)
  show "core t = ms ! p" by (rule state_journal.marked_cut(2) [OF m p c])
  have "marked undo_change core (take p ?ls @ [[]]) (take (Suc p) ms) t"
    by (rule state_journal.marked_cut(1) [OF m p c])
  moreover have ts: "transactions t = take p (transactions s) @ [(transactions s ! p)\<lparr>undo_log := []\<rparr>]"
    by (simp add: t)
  ultimately show "tx_inv (take (Suc p) ms) t"
    using assms(1) p kinds_cut [of p "transactions s"]
    by (simp add: tx_inv_def take_map) (simp add: t unwind_wf)
  show "length (transactions t) = Suc p" using p by (simp add: ts)
qed

lemma release_inv:
  assumes "tx_inv ms s" "rposition (is_named_savepoint n) (transactions s) = Some p"
    and "apply_release_savepoint n s = (r, t)"
  shows "tx_inv (take p ms) t" "length (transactions t) = p" "core t = core s" "r = Applied"
proof -
  let ?ts = "transactions s"
  have ok: "frames_ok ?ts" using assms(1) by (simp add: tx_inv_def)
  note p = rposition_frames [OF assms(2) ok]
  then obtain q where q: "p = Suc q" by (cases p) auto
  have kept: "take p ?ts = take q ?ts @ [?ts ! q]" using p(2) by (simp add: q take_Suc_conv_app_nth)
  have rt: "r = Applied" "t = with_transactions (take q ?ts @ [(?ts ! q)\<lparr>undo_log := undo_log (?ts ! q)
      @ concat (map undo_log (drop p ?ts))\<rparr>]) s"
    using assms(2,3) p(1) by (simp_all add: apply_release_savepoint_def Let_def kept)
  show "r = Applied" "core t = core s" by (simp_all add: rt)
  show "length (transactions t) = p" using p(2) by (simp add: rt q)
  have "marked undo_change core (take (p - 1) (map undo_log ?ts) @
      [map undo_log ?ts ! (p - 1) @ concat (drop p (map undo_log ?ts))]) (take p ms) s"
    using assms(1) p by (intro state_journal.marked_merge) (simp_all add: tx_inv_def)
  then show "tx_inv (take p ms) t"
    using assms(1) p kinds_cut [of q ?ts] by (simp add: tx_inv_def rt q take_map drop_map)
qed

lemma rollback_all_inv:
  assumes "tx_inv ms s"
  shows "graph_wf (graph_of (rollback_all s))" "transactions (rollback_all s) = []"
    and "ms \<noteq> [] \<Longrightarrow> core (rollback_all s) = hd ms"
proof -
  note r = rollback_all_unwind [of s]
  show "graph_wf (graph_of (rollback_all s))" "transactions (rollback_all s) = []"
    using r assms by (simp_all add: tx_inv_def)
  assume "ms \<noteq> []"
  then have "core (foldr undo_change (concat (drop 0 (map undo_log (transactions s)))) s) = ms ! 0"
    using assms unfolding tx_inv_def marked_def by (metis length_greater_0_conv length_map)
  then show "core (rollback_all s) = hd ms" using r \<open>ms \<noteq> []\<close> by (simp add: hd_conv_nth)
qed

lemma on_commit_action_keeps:
  assumes "graph_wf (graph_of s)" "transactions s = []"
  shows "graph_wf (graph_of (apply_on_commit_action h a s)) \<and> transactions (apply_on_commit_action h a s) = []"
proof -
  have "logged s (snd (apply_drop_table h d None s))" for d by (rule apply_drop_table_logged)
  then have "graph_wf (graph_of (snd (apply_drop_table h d None s)))
      \<and> transactions (snd (apply_drop_table h d None s)) = []" for d
    using assms by (auto simp: logged_def log_on_top_def)
  then show ?thesis using assms
    by (auto simp: apply_on_commit_action_def split: prod.splits on_commit_action.splits option.splits overlay.splits)
qed

lemma on_commit_actions_keep:
  assumes "graph_wf (graph_of s)" "transactions s = []"
  shows "graph_wf (graph_of (apply_on_commit_actions h s)) \<and> transactions (apply_on_commit_actions h s) = []"
proof -
  have "graph_wf (graph_of (fold (apply_on_commit_action h) xs u)) \<and> transactions (fold (apply_on_commit_action h) xs u) = []"
    if "graph_wf (graph_of u) \<and> transactions u = []" for xs u
    using that on_commit_action_keeps by (induction xs arbitrary: u) auto
  then show ?thesis using assms by (simp add: apply_on_commit_actions_def)
qed

lemma restore_persistent_frame [frame_simps]:
  "graph_of (restore_persistent_role_context s) = graph_of s"
  "transactions (restore_persistent_role_context s) = transactions s"
  by (simp_all add: restore_persistent_role_context_def Let_def refresh_role_sensitive_search_path_def)

lemma tx_inv_reopen:
  assumes "graph_wf (graph_of s)" "transactions s = []"
  shows "tx_inv (if chain then [core s] else []) (reopen chain (with_aborted False s))"
  using assms by (simp add: tx_inv_def reopen_def frames_ok_def marked_def frame_root_def core_def)

lemma reopen_core [simp]: "core (reopen chain s) = core s" "length (transactions (reopen chain s)) = length (transactions s) + (if chain then 1 else 0)"
  by (simp_all add: reopen_def)

lemma end_transaction_inv:
  assumes "tx_inv ms s" "apply_inner h pre m s = Some (r, t)" "ends_transaction m"
  shows "tx_inv (next_marks m s t ms) t"
proof -
  note rb = rollback_all_inv [OF assms(1)]
  have commit: "graph_wf (graph_of (apply_on_commit_actions h (restore_persistent_role_context (with_transactions [] s))))
      \<and> transactions (apply_on_commit_actions h (restore_persistent_role_context (with_transactions [] s))) = []"
    using assms(1) by (intro on_commit_actions_keep) (simp_all add: frame_simps tx_inv_def)
  have empty: "tx_inv (next_marks m s (taint TransactionStateUnknown ChainScope s) ms) (taint TransactionStateUnknown ChainScope s)"
    if "transactions s = []"
    using tx_inv_taint [OF assms(1)] assms(1,3) that
    by (simp add: next_marks_def taint_depth tx_inv_length [OF assms(1)]) (simp add: tx_inv_def marked_def)
  have re: "tx_inv (next_marks m s (reopen chain (with_aborted False u)) ms) (reopen chain (with_aborted False u))"
    if "graph_wf (graph_of u)" "transactions u = []" for chain u
    using tx_inv_reopen [OF that, of chain] assms(3) that by (cases chain) (simp_all add: next_marks_def)
  have "(transactions s = [] \<and> t = taint TransactionStateUnknown ChainScope s)
      \<or> (\<exists>chain u. graph_wf (graph_of u) \<and> transactions u = [] \<and> t = reopen chain (with_aborted False u))"
    using assms(2,3) rb commit
    by (cases m) (auto simp: apply_commit_transaction_def apply_rollback_transaction_def Let_def split: if_splits)
  then show ?thesis using empty re by blast
qed

lemma apply_inner_inv:
  assumes "tx_inv ms s" "apply_inner h pre m s = Some (r, t)"
  shows "tx_inv (next_marks m s t ms) t"
proof (cases "controls_transaction m \<and> \<not> ends_transaction m")
  case True
  then show ?thesis
  proof (cases m)
    case BeginTransaction
    then show ?thesis using assms True tx_inv_open [OF assms(1), of frame_root]
      by (auto simp: apply_begin_transaction_def next_marks_def frame_root_def tx_inv_length split: if_splits)
  next
    case (RollbackToSavepoint n)
    show ?thesis
    proof (cases "rposition (is_named_savepoint n) (transactions s)")
      case None
      then show ?thesis using RollbackToSavepoint assms missing_savepoint_inv [OF _ assms(1), of n r t]
        by (simp add: apply_rollback_to_savepoint_def next_marks_same)
    next
      case (Some p)
      then have "p < length (transactions s)" using rposition_SomeD by blast
      then show ?thesis using RollbackToSavepoint assms rollback_to_inv [OF assms(1) Some, of r t]
        by (simp add: next_marks_def tx_inv_length)
    qed
  next
    case (SavepointMutation n)
    then show ?thesis
      using assms True tx_inv_open [OF assms(1), of "frame_savepoint n"] tx_inv_taint [OF assms(1)]
      by (auto simp: apply_savepoint_def next_marks_def frame_savepoint_def tx_inv_length taint_depth split: if_splits)
  next
    case (ReleaseSavepoint n)
    show ?thesis
    proof (cases "rposition (is_named_savepoint n) (transactions s)")
      case None
      then show ?thesis using ReleaseSavepoint assms missing_savepoint_inv [OF _ assms(1), of n r t]
        by (simp add: apply_release_savepoint_def next_marks_same)
    next
      case (Some p)
      then have "p < length (transactions s)" using rposition_SomeD by blast
      then show ?thesis using ReleaseSavepoint assms release_inv [OF assms(1) Some, of r t]
        by (simp add: next_marks_def tx_inv_length)
    qed
  qed simp_all
next
  case False
  show ?thesis
  proof (cases "ends_transaction m")
    case True
    then show ?thesis using end_transaction_inv [OF assms] by blast
  next
    case ne: False
    with False have l: "logged s t" using apply_inner_logged [OF assms(2)] by blast
    then have "length (transactions t) = length (transactions s)"
      using assms(1) by (intro logged_keeps_depth) (simp_all add: tx_inv_def)
    with logged_tx_inv [OF assms(1) l] ne show ?thesis using next_marks_same [OF assms(1)] by simp
  qed
qed

lemma apply_mutation_inv:
  assumes "tx_inv ms s" "apply_mutation h pre m s = Some (r, t)"
  shows "tx_inv (next_marks m s t ms) t"
proof (cases "l_transaction_aborted (local s) \<and> \<not> runs_when_aborted m")
  case True
  then have "t = s" "\<not> ends_transaction m" using assms(2) by (auto simp: apply_mutation_def elim: runs_when_aborted.elims)
  then show ?thesis using assms(1) by (simp add: next_marks_same)
next
  case False
  then obtain u where u: "apply_inner h pre m s = Some (r, u)"
    "t = (if is_conflict r \<and> transactions u \<noteq> [] then with_aborted True u else u)"
    using assms(2) by (auto simp: apply_mutation_def split: option.splits)
  have "next_marks m s t ms = next_marks m s u ms" by (simp add: u(2) next_marks_def Let_def)
  then show ?thesis using apply_inner_inv [OF assms(1) u(1)] by (simp add: u(2) tx_inv_aborted)
qed

section \<open>Runs\<close>

text \<open>
  The states reached by statements from a state outside any transaction. Between statements the
  engine moves the evidence location and records evidence: any other step that appends to the top
  frame a log which undoes it is covered by the rule \<open>logged_step\<close> of each relation. After a conflict
  it goes back to the checkpoint of the statement: the rule \<open>restored\<close>. Before a file it states the
  database of the configuration: the rule \<open>configured\<close>.
\<close>

definition restores :: "analysis_state \<Rightarrow> analysis_state \<Rightarrow> bool" where
  "restores s t \<longleftrightarrow> core t = core s \<and> transactions t = transactions s \<and> graph_wf (graph_of t)
     \<and> (l_transaction_aborted (local t) \<longrightarrow> transactions t \<noteq> [])"

lemma restores_tx_inv: "tx_inv ms s \<Longrightarrow> restores s t \<Longrightarrow> tx_inv ms t"
  using state_journal.unwind_cong [of t s] by (auto simp: restores_def tx_inv_def marked_def)

lemma unwind_target_database:
  "foldr undo_change cs (set_target_database d s) = set_target_database d (foldr undo_change cs s)"
proof (induction cs)
  case (Cons c cs)
  then show ?case by (cases c) (simp_all add: set_target_database_def restore_namespace_def Let_def)
qed simp

lemma configured_tx_inv: "tx_inv ms s \<Longrightarrow> tx_inv (map (set_target_database d) ms) (set_target_database d s)"
proof -
  have "core (set_target_database d u) = set_target_database d (core u)" for u
    by (simp add: set_target_database_def core_def)
  moreover have "local (set_target_database d s) = local s" by (simp add: set_target_database_def)
  ultimately show "tx_inv ms s \<Longrightarrow> tx_inv (map (set_target_database d) ms) (set_target_database d s)"
    by (auto simp: tx_inv_def marked_def unwind_target_database)
qed

inductive tx_reachable :: "hash_order \<Rightarrow> analysis_state \<Rightarrow> bool" for h where
  start: "graph_wf (graph_of s) \<Longrightarrow> transactions s = [] \<Longrightarrow> \<not> l_transaction_aborted (local s) \<Longrightarrow> tx_reachable h s"
| statement: "tx_reachable h s \<Longrightarrow> apply_mutation h pre m s = Some (r, t) \<Longrightarrow> tx_reachable h t"
| logged_step: "tx_reachable h s \<Longrightarrow> logged s t \<Longrightarrow> tx_reachable h t"
| restored: "tx_reachable h s \<Longrightarrow> restores s t \<Longrightarrow> tx_reachable h t"
| configured: "tx_reachable h s \<Longrightarrow> tx_reachable h (set_target_database database s)"

text \<open>The states of the transaction that \<^verbatim>\<open>BEGIN\<close> opened in \<open>b\<close>.\<close>

inductive in_transaction :: "hash_order \<Rightarrow> analysis_state \<Rightarrow> analysis_state \<Rightarrow> bool" for h b where
  begun: "tx_reachable h b \<Longrightarrow> transactions b = [] \<Longrightarrow> apply_mutation h pre BeginTransaction b = Some (r, t) \<Longrightarrow>
    in_transaction h b t"
| inside: "in_transaction h b s \<Longrightarrow> apply_mutation h pre m s = Some (r, t) \<Longrightarrow> \<not> ends_transaction m \<Longrightarrow>
    in_transaction h b t"
| logged_step: "in_transaction h b s \<Longrightarrow> logged s t \<Longrightarrow> in_transaction h b t"
| restored: "in_transaction h b s \<Longrightarrow> restores s t \<Longrightarrow> in_transaction h b t"

text \<open>The states while the savepoint \<open>n\<close> that was established in \<open>b\<close> is open.\<close>

inductive since_savepoint :: "hash_order \<Rightarrow> string \<Rightarrow> analysis_state \<Rightarrow> analysis_state \<Rightarrow> bool" for h n b where
  opened: "tx_reachable h b \<Longrightarrow> apply_mutation h pre (SavepointMutation n) b = Some (Applied, t) \<Longrightarrow>
    since_savepoint h n b t"
| inside: "since_savepoint h n b s \<Longrightarrow> apply_mutation h pre m s = Some (r, t) \<Longrightarrow> \<not> ends_transaction m \<Longrightarrow>
    length (transactions b) < length (transactions t) \<Longrightarrow> since_savepoint h n b t"
| logged_step: "since_savepoint h n b s \<Longrightarrow> logged s t \<Longrightarrow> since_savepoint h n b t"
| restored: "since_savepoint h n b s \<Longrightarrow> restores s t \<Longrightarrow> since_savepoint h n b t"

lemma tx_reachable_inv: "tx_reachable h s \<Longrightarrow> \<exists>ms. tx_inv ms s"
  by (induction rule: tx_reachable.induct) (auto intro: tx_inv_fresh logged_tx_inv restores_tx_inv configured_tx_inv dest: apply_mutation_inv)

lemma logged_prefix:
  assumes "transactions t = log_on_top d (transactions s)" "k < length (transactions s)"
  shows "take k (transactions t) = take k (transactions s)"
    and "frame_kind (transactions t ! k) = frame_kind (transactions s ! k)"
  using assms by (cases "transactions s" rule: rev_cases; simp add: log_on_top_def nth_append take_append)+

text \<open>While a frame stays open, the frames below it and its own kind do not change.\<close>

lemma apply_inner_prefix:
  assumes "tx_inv ms s" "apply_inner h pre m s = Some (r, t)" "\<not> ends_transaction m"
    and "k < length (transactions s)" "k < length (transactions t)"
  shows "take k (transactions t) = take k (transactions s)
    \<and> frame_kind (transactions t ! k) = frame_kind (transactions s ! k)"
proof (cases "controls_transaction m")
  case False
  then obtain d where "transactions t = log_on_top d (transactions s)"
    using apply_inner_logged [OF assms(2)] assms(1) by (auto simp: logged_def tx_inv_def)
  then show ?thesis using logged_prefix assms(4) by blast
next
  case True
  have ok: "frames_ok (transactions s)" using assms(1) by (simp add: tx_inv_def)
  have same: "take k (transactions (taint c sc s)) = take k (transactions s)
      \<and> frame_kind (transactions (taint c sc s) ! k) = frame_kind (transactions s ! k)" for c sc
    using taint_logged [of s c sc] logged_prefix assms(1,4) by (auto simp: logged_def tx_inv_def)
  show ?thesis
  proof (cases m)
    case (RollbackToSavepoint n)
    show ?thesis
    proof (cases "rposition (is_named_savepoint n) (transactions s)")
      case (Some p)
      note p = rposition_frames [OF Some ok]
      have "transactions t = take p (transactions s) @ [(transactions s ! p)\<lparr>undo_log := []\<rparr>]"
        using assms(2) RollbackToSavepoint rollback_to_state [OF Some] by auto
      then show ?thesis using assms(5) p(2) by (auto simp: nth_append min_def less_Suc_eq)
    qed (use RollbackToSavepoint assms(2) same in \<open>auto simp: apply_rollback_to_savepoint_def missing_savepoint_def Let_def\<close>)
  next
    case (ReleaseSavepoint n)
    show ?thesis
    proof (cases "rposition (is_named_savepoint n) (transactions s)")
      case (Some p)
      note p = rposition_frames [OF Some ok]
      then obtain q where q: "p = Suc q" by (cases p) auto
      have "take p (transactions s) = take q (transactions s) @ [transactions s ! q]"
        using p(2) by (simp add: q take_Suc_conv_app_nth)
      then have "\<exists>l. transactions t = take q (transactions s) @ [(transactions s ! q)\<lparr>undo_log := l\<rparr>]"
        using assms(2) ReleaseSavepoint Some p(1) by (auto simp: apply_release_savepoint_def Let_def)
      then show ?thesis using assms(5) p(2) by (auto simp: nth_append min_def q less_Suc_eq)
    qed (use ReleaseSavepoint assms(2) same in \<open>auto simp: apply_release_savepoint_def missing_savepoint_def Let_def\<close>)
  next
    case (SavepointMutation n)
    then show ?thesis using assms(2,4) same by (auto simp: apply_savepoint_def nth_append split: if_splits)
  next
    case BeginTransaction
    then show ?thesis using assms(2,4) by (auto simp: apply_begin_transaction_def split: if_splits)
  qed (use True assms(3) in simp_all)
qed

lemma apply_mutation_cases:
  assumes "apply_mutation h pre m s = Some (r, t)"
  obtains (skipped) "l_transaction_aborted (local s)" "\<not> runs_when_aborted m" "r = NotExecuted" "t = s"
  | (run) u where "apply_inner h pre m s = Some (r, u)"
      "t = (if is_conflict r \<and> transactions u \<noteq> [] then with_aborted True u else u)"
  using assms by (auto simp: apply_mutation_def split: if_splits option.splits)

lemma apply_mutation_prefix:
  assumes "tx_inv ms s" "apply_mutation h pre m s = Some (r, t)" "\<not> ends_transaction m"
    and "k < length (transactions s)" "k < length (transactions t)"
  shows "take k (transactions t) = take k (transactions s)
    \<and> frame_kind (transactions t ! k) = frame_kind (transactions s ! k)"
  using assms(2)
proof (cases rule: apply_mutation_cases)
  case (run u)
  then have "transactions t = transactions u" by simp
  then show ?thesis using apply_inner_prefix [OF assms(1) run(1) assms(3,4)] assms(5) by simp
qed simp

lemma savepoint_ops_open:
  assumes "tx_inv ms s" "transactions s \<noteq> []"
  shows "apply_rollback_to_savepoint n s = (r, t) \<Longrightarrow> transactions t \<noteq> []"
    and "apply_release_savepoint n s = (r, t) \<Longrightarrow> transactions t \<noteq> []"
proof -
  have ok: "frames_ok (transactions s)" using assms(1) by (simp add: tx_inv_def)
  have missing: "transactions t \<noteq> []" if "missing_savepoint n s = (r, t)"
    using missing_savepoint_inv [OF that assms(1)] assms(2) by auto
  show "transactions t \<noteq> []" if r: "apply_rollback_to_savepoint n s = (r, t)"
  proof (cases "rposition (is_named_savepoint n) (transactions s)")
    case None
    then show ?thesis using r missing by (simp add: apply_rollback_to_savepoint_def)
  next
    case (Some p)
    then show ?thesis using rollback_to_inv(3) [OF assms(1) Some r] by auto
  qed
  show "transactions t \<noteq> []" if r: "apply_release_savepoint n s = (r, t)"
  proof (cases "rposition (is_named_savepoint n) (transactions s)")
    case None
    then show ?thesis using r missing by (simp add: apply_release_savepoint_def)
  next
    case (Some p)
    then show ?thesis using release_inv(2) [OF assms(1) Some r] rposition_frames(1) [OF Some ok] by auto
  qed
qed

lemma inner_keeps_open:
  assumes "tx_inv ms s" "apply_inner h pre m s = Some (r, t)" "\<not> ends_transaction m" "transactions s \<noteq> []"
  shows "transactions t \<noteq> []"
proof (cases "controls_transaction m")
  case False
  then have "length (transactions t) = length (transactions s)"
    using apply_inner_logged [OF assms(2)] assms(1) by (intro logged_keeps_depth) (simp_all add: tx_inv_def)
  then show ?thesis using assms(4) by auto
next
  case True
  then show ?thesis using assms savepoint_ops_open [OF assms(1,4)]
    by (cases m) (auto simp: apply_begin_transaction_def apply_savepoint_def split: if_splits)
qed

lemma keeps_open:
  assumes "tx_inv ms s" "apply_mutation h pre m s = Some (r, t)" "\<not> ends_transaction m" "transactions s \<noteq> []"
  shows "transactions t \<noteq> []"
  using assms(2)
proof (cases rule: apply_mutation_cases)
  case (run u)
  then show ?thesis using inner_keeps_open [OF assms(1) run(1) assms(3,4)] by simp
qed (simp add: assms(4))

lemma next_marks_prefix:
  assumes "tx_inv ms s" "k < length (transactions s)" "k < length (transactions t)" "\<not> ends_transaction m"
  shows "next_marks m s t ms ! k = ms ! k"
  using assms by (simp add: next_marks_def Let_def nth_append tx_inv_length)

lemma in_transaction_inv:
  "in_transaction h b s \<Longrightarrow> \<exists>ms. tx_inv ms s \<and> transactions s \<noteq> [] \<and> ms ! 0 = core b"
proof (induction rule: in_transaction.induct)
  case (begun pre r t)
  obtain ms where ms: "tx_inv ms b" using tx_reachable_inv [OF begun.hyps(1)] by blast
  then have "ms = []" "\<not> l_transaction_aborted (local b)"
    using begun.hyps(2) tx_inv_length [OF ms] by (simp_all add: tx_inv_def)
  then have t: "transactions t = [frame_root]"
    using begun.hyps(2,3) by (auto simp: apply_mutation_def apply_begin_transaction_def)
  then show ?case using apply_mutation_inv [OF ms begun.hyps(3)] \<open>ms = []\<close>
    by (intro exI [of _ "next_marks BeginTransaction b t ms"]) (simp add: next_marks_def)
next
  case (inside s pre m r t)
  then obtain ms where ms: "tx_inv ms s" "transactions s \<noteq> []" "ms ! 0 = core b" by blast
  then show ?case
    using apply_mutation_inv [OF ms(1) inside.hyps(2)] keeps_open [OF ms(1) inside.hyps(2,3) ms(2)]
      next_marks_prefix [OF ms(1), of 0 t m] inside.hyps(3)
    by (intro exI [of _ "next_marks m s t ms"]) simp
next
  case (logged_step s t)
  then obtain ms where ms: "tx_inv ms s" "transactions s \<noteq> []" "ms ! 0 = core b" by blast
  moreover have "length (transactions t) = length (transactions s)"
    using logged_step.hyps(2) ms(1) by (intro logged_keeps_depth) (simp_all add: tx_inv_def)
  ultimately show ?case using logged_tx_inv [OF ms(1) logged_step.hyps(2)] by auto
next
  case (restored s t)
  then have "transactions t = transactions s" by (simp add: restores_def)
  with restored restores_tx_inv [OF _ restored.hyps(2)] show ?case by auto
qed

lemma since_savepoint_inv:
  "since_savepoint h n b s \<Longrightarrow>
     \<exists>ms. tx_inv ms s \<and> length (transactions b) < length (transactions s) \<and> ms ! length (transactions b) = core b
       \<and> take (length (transactions b)) (transactions s) = transactions b
       \<and> frame_kind (transactions s ! length (transactions b)) = Savepoint n"
proof (induction rule: since_savepoint.induct)
  case (opened pre t)
  obtain ms where ms: "tx_inv ms b" using tx_reachable_inv [OF opened.hyps(1)] by blast
  have "transactions t = transactions b @ [frame_savepoint n]"
    using opened.hyps(2)
    by (auto simp: apply_mutation_def apply_savepoint_def conflict_def split: if_splits)
  then show ?case using apply_mutation_inv [OF ms opened.hyps(2)] tx_inv_length [OF ms]
    by (intro exI [of _ "next_marks (SavepointMutation n) b t ms"])
      (simp add: next_marks_def nth_append frame_savepoint_def)
next
  case (inside s pre m r t)
  then obtain ms where ms: "tx_inv ms s" "length (transactions b) < length (transactions s)"
    "ms ! length (transactions b) = core b" "take (length (transactions b)) (transactions s) = transactions b"
    "frame_kind (transactions s ! length (transactions b)) = Savepoint n" by blast
  then show ?case
    using apply_mutation_inv [OF ms(1) inside.hyps(2)] inside.hyps(3,4)
      apply_mutation_prefix [OF ms(1) inside.hyps(2,3) ms(2) inside.hyps(4)]
      next_marks_prefix [OF ms(1,2) inside.hyps(4,3)]
    by (intro exI [of _ "next_marks m s t ms"]) simp
next
  case (logged_step s t)
  then obtain ms where ms: "tx_inv ms s" "length (transactions b) < length (transactions s)"
    "ms ! length (transactions b) = core b" "take (length (transactions b)) (transactions s) = transactions b"
    "frame_kind (transactions s ! length (transactions b)) = Savepoint n" by blast
  obtain d where d: "transactions t = log_on_top d (transactions s)"
    using logged_step.hyps(2) ms(1) by (auto simp: logged_def tx_inv_def)
  show ?case using logged_tx_inv [OF ms(1) logged_step.hyps(2)] logged_prefix [OF d ms(2)] ms d
    by (intro exI [of _ ms]) simp
next
  case (restored s t)
  then have "transactions t = transactions s" by (simp add: restores_def)
  with restored restores_tx_inv [OF _ restored.hyps(2)] show ?case by auto
qed

section \<open>Properties\<close>

text \<open>
  C1. \<^verbatim>\<open>ROLLBACK\<close> undoes a transaction: whatever statements were analyzed since \<^verbatim>\<open>BEGIN\<close>, conflicts,
  savepoints, releases and rollbacks to savepoints among them, it succeeds, closes every frame,
  clears the aborted flag and brings back the state in which the transaction was opened.
\<close>

theorem rollback_restores_begin:
  assumes "in_transaction h b s"
  shows "\<exists>t. apply_mutation h pre RollbackTransaction s = Some (Applied, t)
    \<and> core t = core b \<and> transactions t = [] \<and> \<not> l_transaction_aborted (local t)"
proof -
  obtain ms where ms: "tx_inv ms s" "transactions s \<noteq> []" "ms ! 0 = core b"
    using in_transaction_inv [OF assms] by blast
  then have "ms \<noteq> []" using tx_inv_length [OF ms(1)] by auto
  then show ?thesis using rollback_all_inv [OF ms(1)] ms(3)
    by (simp add: apply_mutation_def apply_rollback_transaction_def reopen_def hd_conv_nth)
qed

text \<open>
  \<^verbatim>\<open>COMMIT\<close> of an aborted transaction is a rollback: nothing analyzed since \<^verbatim>\<open>BEGIN\<close> survives.
\<close>

theorem commit_of_aborted_rolls_back:
  assumes "in_transaction h b s" "l_transaction_aborted (local s)"
  shows "\<exists>t. apply_mutation h pre CommitTransaction s = Some (Applied, t)
    \<and> core t = core b \<and> transactions t = [] \<and> \<not> l_transaction_aborted (local t)"
proof -
  obtain ms where ms: "tx_inv ms s" "transactions s \<noteq> []" "ms ! 0 = core b"
    using in_transaction_inv [OF assms(1)] by blast
  then have "ms \<noteq> []" using tx_inv_length [OF ms(1)] by auto
  then show ?thesis using rollback_all_inv [OF ms(1)] ms(3) assms(2)
    by (simp add: apply_mutation_def apply_commit_transaction_def reopen_def hd_conv_nth Let_def)
qed

text \<open>
  C7. \<^verbatim>\<open>ROLLBACK TO\<close> a savepoint that is the innermost of its name brings back the state in which the
  savepoint was established and exactly the stack of that moment, the savepoint still open, and it
  clears the aborted flag.
\<close>

theorem rollback_to_savepoint_restores:
  assumes "since_savepoint h n b s"
    and "rposition (is_named_savepoint n) (transactions s) = Some (length (transactions b))"
  shows "\<exists>t. apply_mutation h pre (RollbackToSavepoint n) s = Some (Applied, t)
    \<and> core t = core b \<and> transactions t = transactions b @ [frame_savepoint n]
    \<and> \<not> l_transaction_aborted (local t)"
proof -
  obtain ms where ms: "tx_inv ms s" "ms ! length (transactions b) = core b"
    "take (length (transactions b)) (transactions s) = transactions b"
    "frame_kind (transactions s ! length (transactions b)) = Savepoint n"
    using since_savepoint_inv [OF assms(1)] by blast
  let ?t = "snd (apply_rollback_to_savepoint n s)"
  have "core ?t = core b"
    using rollback_to_inv(2) [OF ms(1) assms(2)] rollback_to_state [OF assms(2)] ms(2) by simp
  moreover have "transactions ?t = transactions b @ [frame_savepoint n]"
    using ms(3,4) by (simp add: rollback_to_state [OF assms(2)] frame_savepoint_def)
  ultimately show ?thesis
    using rollback_to_state [OF assms(2)] by (simp add: apply_mutation_def)
qed

text \<open>
  A statement can be taken back on its own: the undo checkpoint taken before a statement that
  is not a transaction command restores, after it, the state and the stack as they were.
\<close>

theorem statement_undo_restores:
  assumes "tx_reachable h s" "transaction_undo_checkpoint s = Some (depth, len)"
    and "\<not> controls_transaction m" "apply_inner h pre m s = Some (r, t)"
  shows "\<exists>u. rollback_to_transaction_undo_checkpoint depth len t = Inr u \<and> core u = core s
    \<and> transactions u = transactions s"
proof -
  obtain ms where "tx_inv ms s" using tx_reachable_inv [OF assms(1)] by blast
  then have wf: "graph_wf (graph_of s)" by (simp add: tx_inv_def)
  obtain d where d: "transactions t = log_on_top d (transactions s)" "core (rollback_undo_log d t) = core s"
    using apply_inner_logged [OF assms(4,3)] wf by (auto simp: logged_def)
  from assms(2) have s: "transactions s \<noteq> []" "depth = length (transactions s)" "len = length (undo_log (last (transactions s)))"
    by (auto simp: transaction_undo_checkpoint_def split: if_splits)
  have "rollback_to_transaction_undo_checkpoint depth len t = Inr (rollback_undo_log d (with_transactions (transactions s) t))"
    using s by (simp add: rollback_to_transaction_undo_checkpoint_def d(1) log_on_top_def)
  then show ?thesis using d(2) by (simp add: rollback_undo_log_def unwind_with_transactions)
qed

text \<open>
  C20. The shape of the stack: in every state reached, the dependency graph is canonical, the
  outermost frame is the root and every other frame a savepoint, and only an open transaction is
  aborted. So \<^verbatim>\<open>RELEASE\<close> never finds a savepoint at the bottom of the stack.
\<close>

theorem transaction_stack_invariant:
  assumes "tx_reachable h s"
  shows "graph_wf (graph_of s) \<and> frames_ok (transactions s)
    \<and> (l_transaction_aborted (local s) \<longrightarrow> transactions s \<noteq> [])
    \<and> rposition (is_named_savepoint n) (transactions s) \<noteq> Some 0"
  using tx_reachable_inv [OF assms] rposition_frames(1) [of n "transactions s" 0] by (auto simp: tx_inv_def)

fun run_mutations ::
  "hash_order \<Rightarrow> mutation list \<Rightarrow> analysis_state \<Rightarrow> (mutation_result list \<times> analysis_state) option" where
  "run_mutations h [] s = Some ([], s)"
| "run_mutations h (m # ms) s =
     (case apply_mutation h None m s of
        None \<Rightarrow> None
      | Some (r, t) \<Rightarrow> map_option (\<lambda>(rs, u). (r # rs, u)) (run_mutations h ms t))"

lemma aborted_skips:
  "l_transaction_aborted (local s) \<Longrightarrow> \<forall>m \<in> set ms. \<not> runs_when_aborted m \<Longrightarrow>
     run_mutations h ms s = Some (replicate (length ms) NotExecuted, s)"
  by (induction ms) (simp_all add: apply_mutation_def)

text \<open>
  C21. A conflict inside a transaction blocks the rest of it: every later statement other than \<^verbatim>\<open>COMMIT\<close>,
  \<^verbatim>\<open>ROLLBACK\<close>, their \<^verbatim>\<open>AND CHAIN\<close> forms and \<^verbatim>\<open>ROLLBACK TO SAVEPOINT\<close> is reported as not executed and changes
  nothing.
\<close>

theorem conflict_blocks_transaction:
  assumes "apply_mutation h pre m s = Some (Conflict k, t)" "transactions t \<noteq> []"
    and "\<forall>m \<in> set ms. \<not> runs_when_aborted m"
  shows "run_mutations h ms t = Some (replicate (length ms) NotExecuted, t)"
proof (rule aborted_skips [OF _ assms(3)])
  show "l_transaction_aborted (local t)" using assms(1,2) by (cases rule: apply_mutation_cases) (auto split: if_splits)
qed

lemma can_set_role_to_total: "finite (dom (l_roles (local s))) \<Longrightarrow> can_set_role_to s target \<noteq> None"
  using role_search_ends [where visit = "visit_set_role s target" and f = role_can_set_role_to and s = s]
    visit_set_role_lists [of s target]
  by (fastforce simp: can_set_role_to_def split: option.splits)

text \<open>
  With finitely many roles every modelled mutation has a result, whatever cycles the role
  memberships or the dependency graph have.
\<close>

lemma apply_mutation_result:
  assumes "finite (dom (l_roles (local s)))" "graph_wf (graph_of s)"
  shows "\<exists>r t. apply_mutation h pre m s = Some (r, t)"
proof -
  have "apply_switch_role role b sa s \<noteq> None" for role b sa
  proof (cases "switch_target role sa s")
    case (Some x)
    obtain y where "can_set_role_to s (fst x) = Some y" using can_set_role_to_total [OF assms(1)] by blast
    with Some show ?thesis
      by (cases x) (simp add: apply_switch_role_def Let_def split: option.splits bool.splits)
  qed (simp add: apply_switch_role_def)
  moreover have "finish (apply_ddl h d) s \<noteq> None" for d using ddl_returns assms by blast
  ultimately have "apply_inner h pre m s \<noteq> None" by (cases m) auto
  then show ?thesis by (auto simp: apply_mutation_def split: option.splits prod.splits)
qed

section \<open>Refinement of a stack of saved states\<close>

text \<open>
  The abstract machine keeps no logs: an open frame is its kind and a copy of the state at which it
  was opened. Statements and the effects of a commit may change the current state in any way.
\<close>

type_synonym spec_state = "analysis_state \<times> (transaction_frame_kind \<times> analysis_state) list"

definition spec_savepoint :: "string \<Rightarrow> (transaction_frame_kind \<times> analysis_state) list \<Rightarrow> nat option" where
  "spec_savepoint n st = rposition (\<lambda>f. fst f = Savepoint n) st"

inductive spec_step :: "mutation \<Rightarrow> spec_state \<Rightarrow> spec_state \<Rightarrow> bool" where
  spec_skip: "spec_step m a a"
| spec_begin: "spec_step BeginTransaction (c, []) (c, [(Root, c)])"
| spec_savepoint: "st \<noteq> [] \<Longrightarrow> spec_step (SavepointMutation n) (c, st) (c, st @ [(Savepoint n, c)])"
| spec_release: "spec_savepoint n st = Some p \<Longrightarrow> spec_step (ReleaseSavepoint n) (c, st) (c, take p st)"
| spec_rollback_to:
    "spec_savepoint n st = Some p \<Longrightarrow> spec_step (RollbackToSavepoint n) (c, st) (snd (st ! p), take (Suc p) st)"
| spec_rollback: "st \<noteq> [] \<Longrightarrow> spec_step RollbackTransaction (c, st) (snd (hd st), [])"
| spec_rollback_chain:
    "st \<noteq> [] \<Longrightarrow> spec_step RollbackAndChain (c, st) (snd (hd st), [(Root, snd (hd st))])"
| spec_commit: "spec_step CommitTransaction (c, st) (c', [])"
| spec_commit_chain: "st \<noteq> [] \<Longrightarrow> spec_step CommitAndChain (c, st) (c', [(Root, c')])"
| spec_statement: "\<not> controls_transaction m \<Longrightarrow> spec_step m (c, st) (c', st)"
| spec_missing_savepoint:
    "spec_savepoint n st = None \<Longrightarrow> m = ReleaseSavepoint n \<or> m = RollbackToSavepoint n \<Longrightarrow> spec_step m (c, st) (c', st)"
| spec_no_transaction: "controls_transaction m \<Longrightarrow> spec_step m (c, []) (c', [])"

definition spec_rel :: "spec_state \<Rightarrow> analysis_state \<Rightarrow> bool" where
  "spec_rel a s \<longleftrightarrow>
     (\<exists>ms. tx_inv ms s \<and> a = (core s, zip (map frame_kind (transactions s)) ms))"

lemma spec_savepoint_eq:
  "length ms = length ts \<Longrightarrow> spec_savepoint n (zip (map frame_kind ts) ms) = rposition (is_named_savepoint n) ts"
  unfolding spec_savepoint_def
  by (induction ms ts rule: list_induct2) (simp_all add: is_named_savepoint_def)

definition spec_of :: "analysis_state list \<Rightarrow> analysis_state \<Rightarrow> spec_state" where
  "spec_of ms s = (core s, zip (map frame_kind (transactions s)) ms)"

lemma spec_of_empty: "transactions s = [] \<Longrightarrow> spec_of ms s = (core s, [])"
  by (simp add: spec_of_def)

lemma core_both [simp]: "core (s\<lparr>local := (local s)\<lparr>l_transaction_aborted := b, l_transactions := ts\<rparr>\<rparr>) = core s"
  by (simp add: core_def)

lemma kinds_log: "map frame_kind (log_on_top d ts) = map frame_kind ts"
  by (cases ts rule: rev_cases) (simp_all add: log_on_top_def)

lemma logged_spec:
  assumes "tx_inv ms s" "logged s t"
  shows "spec_of ms t = (core t, snd (spec_of ms s))"
  using assms by (auto simp: spec_of_def logged_def tx_inv_def kinds_log)

lemma missing_savepoint_spec:
  assumes "tx_inv ms s" "missing_savepoint n s = (r, t)"
  shows "spec_of ms t = (core t, snd (spec_of ms s))"
proof -
  obtain d where "transactions (taint TransactionStateUnknown ChainScope s) = log_on_top d (transactions s)"
    using taint_logged [of s] assms(1) by (auto simp: logged_def tx_inv_def)
  then show ?thesis using assms(2)
    by (auto simp: spec_of_def missing_savepoint_def Let_def kinds_log split: if_splits)
qed

lemma release_spec:
  assumes "tx_inv ms s" "apply_release_savepoint n s = (r, t)"
  shows "spec_step (ReleaseSavepoint n) (spec_of ms s) (spec_of (next_marks (ReleaseSavepoint n) s t ms) t)"
proof -
  note len = tx_inv_length [OF assms(1)]
  have at: "spec_savepoint n (snd (spec_of ms s)) = rposition (is_named_savepoint n) (transactions s)"
    using len by (simp add: spec_of_def spec_savepoint_eq)
  show ?thesis
  proof (cases "rposition (is_named_savepoint n) (transactions s)")
    case None
    have m: "missing_savepoint n s = (r, t)" using None assms(2) by (simp add: apply_release_savepoint_def)
    have "next_marks (ReleaseSavepoint n) s t ms = ms"
      using missing_savepoint_inv [OF m assms(1)] next_marks_same [OF assms(1)] by simp
    then show ?thesis using missing_savepoint_spec [OF assms(1) m] at None
      spec_missing_savepoint [of n "snd (spec_of ms s)" "ReleaseSavepoint n" "core s" "core t"]
      by (simp add: spec_of_def)
  next
    case (Some p)
    note rel = release_inv [OF assms(1) Some assms(2)]
    have p: "0 < p" "p < length (transactions s)"
      using rposition_frames [OF Some] assms(1) by (simp_all add: tx_inv_def)
    then obtain q where q: "p = Suc q" by (cases p) auto
    have "map frame_kind (transactions t) = take p (map frame_kind (transactions s))"
      using assms(2) Some p by (auto simp: apply_release_savepoint_def Let_def q take_Suc_conv_app_nth take_map)
    moreover have "next_marks (ReleaseSavepoint n) s t ms = take p ms"
      using rel p len by (simp add: next_marks_def)
    ultimately have "spec_of (next_marks (ReleaseSavepoint n) s t ms) t = (core s, take p (snd (spec_of ms s)))"
      using rel by (simp add: spec_of_def take_zip)
    then show ?thesis using spec_release at Some by (simp add: spec_of_def)
  qed
qed

lemma rollback_to_spec:
  assumes "tx_inv ms s" "apply_rollback_to_savepoint n s = (r, t)"
  shows "spec_step (RollbackToSavepoint n) (spec_of ms s) (spec_of (next_marks (RollbackToSavepoint n) s t ms) t)"
proof -
  note len = tx_inv_length [OF assms(1)]
  have at: "spec_savepoint n (snd (spec_of ms s)) = rposition (is_named_savepoint n) (transactions s)"
    using len by (simp add: spec_of_def spec_savepoint_eq)
  show ?thesis
  proof (cases "rposition (is_named_savepoint n) (transactions s)")
    case None
    have m: "missing_savepoint n s = (r, t)" using None assms(2) by (simp add: apply_rollback_to_savepoint_def)
    have "next_marks (RollbackToSavepoint n) s t ms = ms"
      using missing_savepoint_inv [OF m assms(1)] next_marks_same [OF assms(1)] by simp
    then show ?thesis using missing_savepoint_spec [OF assms(1) m] at None
      spec_missing_savepoint [of n "snd (spec_of ms s)" "RollbackToSavepoint n" "core s" "core t"]
      by (simp add: spec_of_def)
  next
    case (Some p)
    note rb = rollback_to_inv [OF assms(1) Some assms(2)]
    have p: "p < length (transactions s)" using rposition_SomeD [OF Some] by simp
    have "map frame_kind (transactions t) = take (Suc p) (map frame_kind (transactions s))"
      using assms(2) rollback_to_state [OF Some] p by (auto simp: take_Suc_conv_app_nth take_map)
    moreover have "next_marks (RollbackToSavepoint n) s t ms = take (Suc p) ms"
      using rb p len by (simp add: next_marks_def)
    ultimately have "spec_of (next_marks (RollbackToSavepoint n) s t ms) t =
        (snd (snd (spec_of ms s) ! p), take (Suc p) (snd (spec_of ms s)))"
      using rb p len by (simp add: spec_of_def take_zip)
    then show ?thesis using spec_rollback_to [of n "snd (spec_of ms s)" p "core s"] at Some by (simp add: spec_of_def)
  qed
qed

lemma end_transaction_spec:
  assumes "tx_inv ms s" "apply_inner h pre m s = Some (r, t)" "ends_transaction m"
  shows "spec_step m (spec_of ms s) (spec_of (next_marks m s t ms) t)"
proof -
  have commit: "transactions (apply_on_commit_actions h (restore_persistent_role_context (with_transactions [] s))) = []"
    using assms(1) on_commit_actions_keep [of "restore_persistent_role_context (with_transactions [] s)" h]
    by (simp add: frame_simps tx_inv_def)
  show ?thesis
  proof (cases "transactions s = []")
    case True
    have "transactions t = []"
      using assms(2,3) True commit by (cases m)
        (auto simp: apply_commit_transaction_def apply_rollback_transaction_def Let_def reopen_def
          rollback_all_inv(2) [OF assms(1)] split: if_splits)
    then show ?thesis using spec_no_transaction [of m "core s" "core t"] assms(3) True
      by (cases m) (simp_all add: spec_of_def)
  next
    case False
    then have "ms \<noteq> []" using tx_inv_length [OF assms(1)] by auto
    note rb = rollback_all_inv [OF assms(1)]
    have st: "snd (spec_of ms s) \<noteq> []" "snd (hd (snd (spec_of ms s))) = hd ms"
      using False \<open>ms \<noteq> []\<close> by (cases "transactions s"; cases ms; simp add: spec_of_def)+
    show ?thesis
      using assms(2,3) False rb commit st \<open>ms \<noteq> []\<close>
        spec_rollback [of "snd (spec_of ms s)" "core s"] spec_rollback_chain [of "snd (spec_of ms s)" "core s"]
        spec_commit [of "core s" "snd (spec_of ms s)"] spec_commit_chain [of "snd (spec_of ms s)" "core s"]
      by (cases m)
        (auto simp: apply_commit_transaction_def apply_rollback_transaction_def Let_def spec_of_def next_marks_def
          reopen_def frame_root_def split: if_splits)
  qed
qed

lemma apply_inner_spec:
  assumes "tx_inv ms s" "apply_inner h pre m s = Some (r, t)"
  shows "spec_step m (spec_of ms s) (spec_of (next_marks m s t ms) t)"
proof (cases "controls_transaction m")
  case False
  then have l: "logged s t" and ne: "\<not> ends_transaction m"
    using apply_inner_logged [OF assms(2)] by (auto elim: controls_transaction.elims)
  have "next_marks m s t ms = ms"
    using logged_keeps_depth [OF l] assms(1) ne next_marks_same [OF assms(1)] by (simp add: tx_inv_def)
  then show ?thesis
    using logged_spec [OF assms(1) l] spec_statement [OF False, of "core s" "snd (spec_of ms s)" "core t"]
    by (simp add: spec_of_def)
next
  case True
  note len = tx_inv_length [OF assms(1)]
  show ?thesis
  proof (cases m)
    case BeginTransaction
    then show ?thesis using assms(2) len spec_begin [of "core s"] spec_skip
      by (auto simp: apply_begin_transaction_def spec_of_def next_marks_def frame_root_def split: if_splits)
  next
    case (SavepointMutation n)
    show ?thesis
    proof (cases "transactions s = []")
      case True
      then have "transactions t = []" using SavepointMutation assms(2) by (auto simp: apply_savepoint_def)
      then show ?thesis using SavepointMutation True spec_no_transaction [of m "core s" "core t"]
        by (simp add: spec_of_def)
    next
      case False
      then have "snd (spec_of ms s) \<noteq> []" using len by (cases ms; cases "transactions s") (auto simp: spec_of_def)
      then show ?thesis
        using SavepointMutation assms(2) len False spec_savepoint [of "snd (spec_of ms s)" n "core s"]
        by (auto simp: apply_savepoint_def spec_of_def next_marks_def frame_savepoint_def zip_append)
    qed
  qed (use True assms release_spec [OF assms(1)] rollback_to_spec [OF assms(1)]
      end_transaction_spec [OF assms] in auto)
qed

text \<open>
  C2. The undo logs implement a stack of saved states: every step of the analyzer, from a state
  related to an abstract one, is matched by a step of the machine that keeps a copy of the state
  per open frame, and leads to related states again.
\<close>

theorem undo_logs_refine_saved_states:
  assumes "spec_rel a s" "apply_mutation h pre m s = Some (r, t)"
  shows "\<exists>a'. spec_step m a a' \<and> spec_rel a' t"
proof -
  obtain ms where ms: "tx_inv ms s" "a = spec_of ms s" using assms(1) by (auto simp: spec_rel_def spec_of_def)
  have rel: "spec_rel (spec_of (next_marks m s t ms) t) t"
    using apply_mutation_inv [OF ms(1) assms(2)] by (auto simp: spec_rel_def spec_of_def)
  from assms(2) have "spec_step m (spec_of ms s) (spec_of (next_marks m s t ms) t)"
  proof (cases rule: apply_mutation_cases)
    case skipped
    then have "next_marks m s t ms = ms"
      using ms(1) by (auto simp: next_marks_same elim: runs_when_aborted.elims)
    then show ?thesis using skipped by (simp add: spec_skip)
  next
    case (run u)
    then have "spec_of (next_marks m s t ms) t = spec_of (next_marks m s u ms) u"
      by (simp add: spec_of_def next_marks_def Let_def)
    then show ?thesis using apply_inner_spec [OF ms(1) run(1)] by simp
  qed
  with rel ms(2) show ?thesis by blast
qed

section \<open>Witnesses\<close>

definition sample_open :: analysis_state where
  "sample_open = with_transactions [frame_root] sample_state"

lemma sample_state_frame:
  "transactions sample_state = []" "\<not> l_transaction_aborted (local sample_state)"
  "graph_of sample_state = graph_new" "finite (dom (l_roles (local sample_state)))"
  by (simp_all add: sample_state_def sample_local_def sample_roles_def)

lemma sample_reachable: "tx_reachable sample_order sample_state"
  by (rule tx_reachable.start) (simp_all add: sample_state_frame graph_wf_new)

lemma sample_begin: "apply_mutation sample_order None BeginTransaction sample_state = Some (Applied, sample_open)"
  by (simp add: apply_mutation_def apply_begin_transaction_def sample_state_frame sample_open_def)

lemma sample_open_frame: "transactions sample_open = [frame_root]" "\<not> l_transaction_aborted (local sample_open)"
  by (simp_all add: sample_open_def sample_state_frame)

lemma sample_open_reachable: "tx_reachable sample_order sample_open"
  by (rule tx_reachable.statement [OF sample_reachable sample_begin])

lemma sample_in_transaction: "in_transaction sample_order sample_state sample_open"
  by (rule in_transaction.begun [OF sample_reachable sample_state_frame(1) sample_begin])

lemma sample_opaque:
  "apply_mutation sample_order None (OpaqueMutation DoBlock) sample_open =
     Some (Applied, snd (apply_opaque DoBlock sample_open))"
  by (simp add: apply_mutation_def sample_open_frame apply_opaque_def)

definition sample_aborted :: analysis_state where
  "sample_aborted = snd (missing_savepoint ''x'' sample_open)"

lemma sample_missing:
  "apply_mutation sample_order None (RollbackToSavepoint ''x'') sample_open =
     Some (conflict (''savepoint '' @ quoted ''x'' @ '' does not exist''), sample_aborted)"
  "l_transaction_aborted (local sample_aborted)" "transactions sample_aborted \<noteq> []"
proof -
  have ne: "transactions (taint TransactionStateUnknown ChainScope sample_open) \<noteq> []"
    by (simp add: sample_open_frame)
  show "l_transaction_aborted (local sample_aborted)" "transactions sample_aborted \<noteq> []"
    using ne by (simp_all add: sample_aborted_def missing_savepoint_def Let_def)
  show "apply_mutation sample_order None (RollbackToSavepoint ''x'') sample_open =
     Some (conflict (''savepoint '' @ quoted ''x'' @ '' does not exist''), sample_aborted)"
    using ne by (simp add: apply_mutation_def sample_open_frame apply_rollback_to_savepoint_def frame_root_def
        is_named_savepoint_def missing_savepoint_def Let_def conflict_def sample_aborted_def)
qed

theorem rollback_restores_begin_witness:
  "\<exists>t. apply_mutation sample_order None RollbackTransaction (snd (apply_opaque DoBlock sample_open)) = Some (Applied, t)
     \<and> core t = core sample_state"
  using rollback_restores_begin [OF in_transaction.inside [OF sample_in_transaction sample_opaque], of None] by auto

theorem commit_of_aborted_rolls_back_witness:
  "\<exists>t. apply_mutation sample_order None CommitTransaction sample_aborted = Some (Applied, t)
     \<and> core t = core sample_state"
  using commit_of_aborted_rolls_back [OF in_transaction.inside [OF sample_in_transaction sample_missing(1)] sample_missing(2)]
  by auto

theorem rollback_to_savepoint_restores_witness:
  "\<exists>t. apply_mutation sample_order None (RollbackToSavepoint ''x'')
       (with_transactions [frame_root, frame_savepoint ''x''] sample_open) = Some (Applied, t)
     \<and> core t = core sample_open"
proof -
  have "apply_mutation sample_order None (SavepointMutation ''x'') sample_open =
      Some (Applied, with_transactions [frame_root, frame_savepoint ''x''] sample_open)"
    by (simp add: apply_mutation_def sample_open_frame apply_savepoint_def)
  from rollback_to_savepoint_restores [OF since_savepoint.opened [OF sample_open_reachable this], of None]
  show ?thesis
    by (auto simp: sample_open_frame frame_root_def frame_savepoint_def is_named_savepoint_def)
qed

theorem statement_undo_restores_witness:
  "\<exists>u. rollback_to_transaction_undo_checkpoint 1 0 (snd (apply_opaque DoBlock sample_open)) = Inr u
     \<and> core u = core sample_open"
  using statement_undo_restores [OF sample_open_reachable, of 1 0 "OpaqueMutation DoBlock" None Applied
      "snd (apply_opaque DoBlock sample_open)"]
  by (auto simp: transaction_undo_checkpoint_def sample_open_frame frame_root_def apply_opaque_def)

theorem transaction_stack_invariant_witness: "frames_ok (transactions sample_open)"
  using transaction_stack_invariant [OF sample_open_reachable] by simp

theorem conflict_blocks_transaction_witness:
  "run_mutations sample_order [NoStateChange, BeginTransaction] sample_aborted =
     Some ([NotExecuted, NotExecuted], sample_aborted)"
  using conflict_blocks_transaction [OF sample_missing(1) [unfolded conflict_def] sample_missing(3),
      of "[NoStateChange, BeginTransaction]"]
  by (simp add: numeral_2_eq_2)

theorem undo_logs_refine_saved_states_witness:
  "\<exists>a'. spec_step BeginTransaction (core sample_state, []) a' \<and> spec_rel a' sample_open"
proof (rule undo_logs_refine_saved_states [OF _ sample_begin])
  show "spec_rel (core sample_state, []) sample_state"
    using tx_inv_fresh [of sample_state] by (auto simp: spec_rel_def sample_state_frame graph_wf_new)
qed

end
