(* ===== verification/Pre_State.thy ===== *)
theory Pre_State
  imports Transactions
begin

text \<open>
  What the rules see of the state before a statement (\<^verbatim>\<open>src/src/_internal/analysis/state/pre_state.rs\<close>
  and \<^verbatim>\<open>sync_present_map\<close> of \<^verbatim>\<open>state/mod.rs\<close>). The engine keeps one such record and brings it up to
  date before every mutation instead of building it anew.
\<close>

record pre_state =
  ps_relations :: "oid \<rightharpoonup> relation_state"
  ps_functions :: "oid \<rightharpoonup> function_state"
  ps_roles :: "oid \<rightharpoonup> role_state"
  ps_publications :: "string \<rightharpoonup> publication_state"
  ps_subscriptions :: "string \<rightharpoonup> subscription_state"
  ps_sequences :: "oid \<rightharpoonup> sequence_state"
  ps_extensions :: "string \<rightharpoonup> extension_state"
  ps_types :: "oid \<rightharpoonup> type_state"
  ps_indexes :: "dependency_edge list"
  ps_baseline_foreign_keys :: "(oid \<times> string) set"

definition pre_state_default :: pre_state where
  "pre_state_default =
     \<lparr>ps_relations = Map.empty, ps_functions = Map.empty, ps_roles = Map.empty,
      ps_publications = Map.empty, ps_subscriptions = Map.empty, ps_sequences = Map.empty,
      ps_extensions = Map.empty, ps_types = Map.empty, ps_indexes = [], ps_baseline_foreign_keys = {}\<rparr>"

text \<open>The first pass keeps and updates the entries the source still has, the second adds the others.\<close>

definition retain_present :: "('k \<rightharpoonup> 'v) \<Rightarrow> ('k \<rightharpoonup> 'v overlay) \<Rightarrow> 'k \<rightharpoonup> 'v" where
  "retain_present target source key =
     (case target key of
        None \<Rightarrow> None
      | Some v \<Rightarrow>
          (case Option.bind (source key) present of
             None \<Rightarrow> None
           | Some current \<Rightarrow> Some (if v \<noteq> current then current else v)))"

definition add_present :: "('k \<rightharpoonup> 'v) \<Rightarrow> ('k \<rightharpoonup> 'v overlay) \<Rightarrow> 'k \<rightharpoonup> 'v" where
  "add_present target source key =
     (case source key of
        None \<Rightarrow> target key
      | Some overlay \<Rightarrow>
          (case target key of
             Some v \<Rightarrow> Some v
           | None \<Rightarrow> (case present overlay of Some v \<Rightarrow> Some v | None \<Rightarrow> None)))"

definition sync_present_map :: "('k \<rightharpoonup> 'v) \<Rightarrow> ('k \<rightharpoonup> 'v overlay) \<Rightarrow> 'k \<rightharpoonup> 'v" where
  "sync_present_map target source = add_present (retain_present target source) source"

text \<open>The loop over the index edges, with \<^verbatim>\<open>index\<close> the next slot to bring up to date.\<close>

fun sync_indexes :: "dependency_edge list \<Rightarrow> nat \<Rightarrow> dependency_edge list \<Rightarrow> dependency_edge list" where
  "sync_indexes [] index slots = take index slots"
| "sync_indexes (edge # rest) index slots =
     (if index < length slots
      then sync_indexes rest (index + 1)
             (if slots ! index \<noteq> edge then slots[index := edge] else slots)
      else sync_indexes rest (index + 1) (slots @ [edge]))"

definition capture_pre_state_into :: "analysis_state \<Rightarrow> pre_state \<Rightarrow> pre_state" where
  "capture_pre_state_into s p =
     \<lparr>ps_relations = sync_present_map (ps_relations p) (l_relations (local s)),
      ps_functions = sync_present_map (ps_functions p) (l_functions (local s)),
      ps_roles = sync_present_map (ps_roles p) (l_roles (local s)),
      ps_publications = sync_present_map (ps_publications p) (l_publications (local s)),
      ps_subscriptions = sync_present_map (ps_subscriptions p) (l_subscriptions (local s)),
      ps_sequences = sync_present_map (ps_sequences p) (l_sequences (local s)),
      ps_extensions = sync_present_map (ps_extensions p) (l_extensions (local s)),
      ps_types = sync_present_map (ps_types p) (l_types (local s)),
      ps_indexes = sync_indexes (filter (\<lambda>e. is_index_kind (edge_kind e)) (edges (graph_of s))) 0 (ps_indexes p),
      ps_baseline_foreign_keys = baseline_foreign_keys s\<rparr>"

definition capture_pre_state :: "analysis_state \<Rightarrow> pre_state" where
  "capture_pre_state s = capture_pre_state_into s pre_state_default"

section \<open>Columns added in the transaction\<close>

fun has_column_named :: "string \<Rightarrow> relation_state overlay option \<Rightarrow> bool" where
  "has_column_named column (Some (Present r)) = list_ex (\<lambda>c. col_name c = column) (r_columns r)"
| "has_column_named column _ = False"

fun added_since :: "oid \<Rightarrow> string \<Rightarrow> state_change list \<Rightarrow> bool option" where
  "added_since table_id column [] = None"
| "added_since table_id column (RelationSnapshot i previous # changes) =
     (if i = table_id then Some (\<not> has_column_named column previous)
      else added_since table_id column changes)"
| "added_since table_id column (_ # changes) = added_since table_id column changes"

fun added_in_frames :: "oid \<Rightarrow> string \<Rightarrow> transaction_frame list \<Rightarrow> bool" where
  "added_in_frames table_id column [] = False"
| "added_in_frames table_id column (f # fs) =
     (case added_since table_id column (undo_log f) of
        Some answer \<Rightarrow> answer
      | None \<Rightarrow> added_in_frames table_id column fs)"

definition column_was_added_in_transaction :: "analysis_state \<Rightarrow> oid \<Rightarrow> string \<Rightarrow> bool" where
  "column_was_added_in_transaction s table_id column =
     (if transactions s = [] then False else added_in_frames table_id column (transactions s))"

section \<open>The captured state is exact\<close>

lemma sync_present_map_eq: "sync_present_map target source = (\<lambda>key. Option.bind (source key) present)"
  by (rule ext) (auto simp: sync_present_map_def add_present_def retain_present_def split: option.splits)

lemma sync_indexes_eq:
  "n \<le> length slots \<Longrightarrow> sync_indexes es n slots = take n slots @ es"
  by (induction es n slots rule: sync_indexes.induct)
    (auto simp: take_Suc_conv_app_nth)

text \<open>
  C14. Bringing the record of the previous statement up to date gives exactly the catalog of the
  present state, whatever the record held: the present objects of every overlay, the index edges
  of the graph in order, and the foreign keys of the baseline.\<close>

theorem capture_pre_state_exact:
  "capture_pre_state_into s p = capture_pre_state s
   \<and> capture_pre_state s =
       \<lparr>ps_relations = (\<lambda>k. Option.bind (l_relations (local s) k) present),
        ps_functions = (\<lambda>k. Option.bind (l_functions (local s) k) present),
        ps_roles = (\<lambda>k. Option.bind (l_roles (local s) k) present),
        ps_publications = (\<lambda>k. Option.bind (l_publications (local s) k) present),
        ps_subscriptions = (\<lambda>k. Option.bind (l_subscriptions (local s) k) present),
        ps_sequences = (\<lambda>k. Option.bind (l_sequences (local s) k) present),
        ps_extensions = (\<lambda>k. Option.bind (l_extensions (local s) k) present),
        ps_types = (\<lambda>k. Option.bind (l_types (local s) k) present),
        ps_indexes = filter (\<lambda>e. is_index_kind (edge_kind e)) (edges (graph_of s)),
        ps_baseline_foreign_keys = baseline_foreign_keys s\<rparr>"
  by (simp add: capture_pre_state_def capture_pre_state_into_def sync_present_map_eq sync_indexes_eq)

section \<open>Columns added since BEGIN\<close>

fun replaces_relations :: "state_change \<Rightarrow> bool" where
  "replaces_relations (NamespaceSnapshot _) = True" | "replaces_relations _ = False"

lemma undo_change_relations:
  "\<not> replaces_relations c \<Longrightarrow>
     l_relations (local (undo_change c s)) t =
       (case c of RelationSnapshot i p \<Rightarrow> if t = i then p else l_relations (local s) t
        | _ \<Rightarrow> l_relations (local s) t)"
  by (cases c) (auto simp: mrestore_def split: option.splits)

lemma unwind_added:
  assumes "\<forall>c \<in> set cs. \<not> replaces_relations c"
  shows "has_column_named column (l_relations (local (foldr undo_change cs s)) t) =
    (case added_since t column cs of
       Some answer \<Rightarrow> \<not> answer
     | None \<Rightarrow> has_column_named column (l_relations (local s) t))"
  using assms
proof (induction cs)
  case (Cons c cs)
  then show ?case
    by (cases c) (auto simp: undo_change_relations simp del: undo_change.simps split: option.splits)
qed simp

lemma added_in_frames_eq:
  "added_in_frames t column fs =
     (case added_since t column (concat (map undo_log fs)) of Some answer \<Rightarrow> answer | None \<Rightarrow> False)"
proof (induction fs)
  case (Cons f fs)
  have "added_since t column (cs @ ds) =
      (case added_since t column cs of Some answer \<Rightarrow> Some answer | None \<Rightarrow> added_since t column ds)" for cs ds
  proof (induction cs)
    case (Cons c cs)
    then show ?case by (cases c) auto
  qed simp
  then show ?case using Cons by (auto split: option.splits)
qed simp

text \<open>
  In a transaction begun at \<open>b\<close>, a column the table has now counts as added in the transaction
  exactly when the table did not have it at \<^verbatim>\<open>BEGIN\<close>, provided no schema was renamed in the
  transaction (which replaces the whole namespace at once).\<close>

theorem column_added_since_begin:
  assumes "in_transaction h b s"
    and "\<forall>f \<in> set (transactions s). \<forall>c \<in> set (undo_log f). \<not> replaces_relations c"
    and "has_column_named column (l_relations (local s) t)"
  shows "column_was_added_in_transaction s t column \<longleftrightarrow>
    \<not> has_column_named column (l_relations (local b) t)"
proof -
  let ?cs = "concat (map undo_log (transactions s))"
  obtain ms where ms: "tx_inv ms s" "transactions s \<noteq> []" "ms ! 0 = core b"
    using in_transaction_inv [OF assms(1)] by blast
  then have "core (foldr undo_change ?cs s) = core b"
    by (simp add: tx_inv_def marked_def) (metis drop0 length_greater_0_conv)
  then have "l_relations (local (core (foldr undo_change ?cs s))) = l_relations (local (core b))" by simp
  then have "l_relations (local b) = l_relations (local (foldr undo_change ?cs s))"
    by (simp add: core_def)
  moreover have "\<forall>c \<in> set ?cs. \<not> replaces_relations c" using assms(2) by auto
  ultimately show ?thesis
    using assms(3) ms(2) unwind_added [of ?cs column s t]
    by (simp add: column_was_added_in_transaction_def added_in_frames_eq split: option.splits)
qed

definition sample_altered :: analysis_state where
  "sample_altered = upd_local (\<lambda>l. l\<lparr>l_relations := (l_relations l)(r_id sample_relation := Some (Present sample_relation))\<rparr>)
     (snapshot_relation (r_id sample_relation) sample_open)"

theorem column_added_since_begin_witness:
  "\<exists>column. column_was_added_in_transaction sample_altered (r_id sample_relation) column
     \<and> \<not> has_column_named column (l_relations (local sample_state) (r_id sample_relation))"
proof -
  let ?c = "col_name (hd (r_columns sample_relation))"
  have "in_transaction sample_order sample_state sample_altered"
    unfolding sample_altered_def
    by (rule in_transaction.logged_step [OF sample_in_transaction logged_relation])
  moreover have "\<forall>f \<in> set (transactions sample_altered). \<forall>c \<in> set (undo_log f). \<not> replaces_relations c"
    by (simp add: sample_altered_def upd_local_def snapshot_defs log_change_def log_on_top_def sample_open_frame frame_root_def)
  moreover have "has_column_named ?c (l_relations (local sample_altered) (r_id sample_relation))"
    by (simp add: sample_altered_def upd_local_def sample_relation_def add_column_def relation_new_def has_column_def Let_def)
  moreover have "\<not> has_column_named ?c (l_relations (local sample_state) (r_id sample_relation))"
    by (simp add: sample_state_def sample_local_def sample_relation_def add_column_def relation_new_def Let_def)
  ultimately show ?thesis
    using column_added_since_begin [of sample_order sample_state sample_altered ?c "r_id sample_relation"] by blast
qed

end
