(* ===== verification/Sql_Text.thy ===== *)
theory Sql_Text
  imports Relation_Model
begin

text \<open>
  The text passes of the engine (\<^verbatim>\<open>src/src/_internal/engine/engine.rs\<close>): the rewriting of top-level
  \<^verbatim>\<open>EXECUTE '..'\<close>, suppression directives in comments, the statement text without its leading
  comments, and source locations. A string is its UTF-8 bytes.
\<close>

section \<open>Rewriting EXECUTE\<close>

definition newline :: char where
  "newline = CHR 0x0A"

fun split_inclusive :: "string \<Rightarrow> string list" where
  "split_inclusive [] = []"
| "split_inclusive (c # cs) =
     (if c = newline then [c] # split_inclusive cs
      else case split_inclusive cs of
          [] \<Rightarrow> [[c]]
        | l # ls \<Rightarrow> (c # l) # ls)"

definition trim_start :: "string \<Rightarrow> string" where
  "trim_start = trim_leading whitespace_encodings"

definition execute_quote :: string where
  "execute_quote = ''EXECUTE '' @ [CHR 0x27]"

definition execute_dollar :: string where
  "execute_dollar = ''EXECUTE $$''"

definition normalize_line :: "string \<Rightarrow> string" where
  "normalize_line line =
     (let trimmed = trim_start line;
          indent = take (length line - length trimmed) line
      in if length trimmed > 9 \<and> eq_ignore_ascii_case (take 9 trimmed) execute_quote
         then indent @ ''DO      '' @ [CHR 0x27] @ drop 9 trimmed
         else if length trimmed > 10 \<and> eq_ignore_ascii_case (take 10 trimmed) execute_dollar
         then indent @ ''DO      $$'' @ drop 10 trimmed
         else line)"

definition normalize_execute :: "string \<Rightarrow> string" where
  "normalize_execute sql = concat (map normalize_line (split_inclusive sql))"

section \<open>Source locations\<close>

record source_position =
  sl_file :: string
  sl_line :: nat
  sl_column :: nat

definition chars_count :: "string \<Rightarrow> nat" where
  "chars_count s = length (filter (\<lambda>c. \<not> is_continuation c) s)"

definition final_line :: "string \<Rightarrow> string" where
  "final_line before =
     (case rposition (\<lambda>c. c = newline) before of None \<Rightarrow> before | Some i \<Rightarrow> drop (Suc i) before)"

text \<open>\<open>start\<close> is the start of the source range, if there is one.\<close>

definition source_location :: "string \<Rightarrow> string \<Rightarrow> nat option \<Rightarrow> source_position option" where
  "source_location filename sql range_start =
     (case range_start of
        None \<Rightarrow> None
      | Some start \<Rightarrow>
          if start > length sql \<or> \<not> is_char_boundary sql start then None
          else (let before = take start sql
                in Some \<lparr>sl_file = filename,
                     sl_line = length (filter (\<lambda>c. c = newline) before) + 1,
                     sl_column = chars_count (final_line before) + 1\<rparr>))"

section \<open>Suppression directives\<close>

fun find_sub :: "string \<Rightarrow> string \<Rightarrow> nat option" where
  "find_sub pat s =
     (if take (length pat) s = pat then Some 0
      else case s of [] \<Rightarrow> None | _ # r \<Rightarrow> map_option Suc (find_sub pat r))"

declare find_sub.simps [simp del]

definition marker :: string where
  "marker = ''safe-migrate:''"

definition parenthesized :: "string \<Rightarrow> string option" where
  "parenthesized rest =
     (case strip_prefix ''('' rest of
        None \<Rightarrow> None
      | Some s \<Rightarrow> map_option (\<lambda>e. take e s) (find_sub '')'' s))"

definition directive :: "string \<Rightarrow> (bool \<times> string) option" where
  "directive after_marker =
     (let after = trim_start after_marker
      in case strip_prefix ''ignore-file'' after of
           Some rest \<Rightarrow> map_option (\<lambda>inner. (True, trim inner)) (parenthesized (trim_start rest))
         | None \<Rightarrow>
             (case strip_prefix ''ignore'' after of
                Some rest \<Rightarrow> map_option (\<lambda>inner. (False, trim inner)) (parenthesized (trim_start rest))
              | None \<Rightarrow> None))"

definition record_directive :: "(bool \<times> string) option \<Rightarrow> string set \<times> string set \<Rightarrow> string set \<times> string set" where
  "record_directive d acc =
     (case d of
        None \<Rightarrow> acc
      | Some (True, rule) \<Rightarrow> (insert rule (fst acc), snd acc)
      | Some (False, rule) \<Rightarrow> (fst acc, insert rule (snd acc)))"

lemma find_sub_bound: "find_sub pat s = Some i \<Longrightarrow> i + length pat \<le> length s"
proof (induction s arbitrary: i)
  case Nil
  then show ?case by (subst (asm) find_sub.simps) (auto split: if_splits)
next
  case (Cons c s)
  then show ?case
    by (subst (asm) find_sub.simps) (auto split: if_splits dest: arg_cong [where f = length])
qed

text \<open>\<open>text\<close> is the part of the comment that starts at \<^verbatim>\<open>pos\<close>.\<close>

function parse_directives :: "string \<Rightarrow> string set \<times> string set \<Rightarrow> string set \<times> string set" where
  "parse_directives body acc =
     (case find_sub marker body of
        None \<Rightarrow> acc
      | Some start \<Rightarrow>
          (let rest = drop (start + length marker) body
           in parse_directives rest (record_directive (directive rest) acc)))"
  by pat_completeness auto

termination parse_directives
  by (relation "measure (\<lambda>(body, _). length body)") (auto dest: find_sub_bound simp: marker_def)

declare parse_directives.simps [simp del]

section \<open>Leading comments\<close>

definition is_ascii_whitespace :: "char \<Rightarrow> bool" where
  "is_ascii_whitespace c \<longleftrightarrow> byte c \<in> {0x20, 0x09, 0x0A, 0x0C, 0x0D}"

fun skip_block :: "string \<Rightarrow> string" where
  "skip_block (a # b # r) = (if a = CHR ''*'' \<and> b = CHR ''/'' then r else skip_block (b # r))"
| "skip_block r = r"

lemma skip_block_length: "length (skip_block s) \<le> length s"
  by (induction s rule: skip_block.induct) auto

text \<open>The suffix at \<^verbatim>\<open>pos\<close> when the loop ends.\<close>

lemma dropWhile_shorter: "s \<noteq> [] \<Longrightarrow> P (hd s) \<Longrightarrow> length (dropWhile P s) < length s"
  using length_dropWhile_le [of P "tl s"] by (cases s) auto

lemma skip_line_shorter:
  assumes "take 2 r = ''--''"
  shows "length (dropWhile (\<lambda>c. c \<noteq> newline) r) < length r"
  using assms by (intro dropWhile_shorter) (cases r; auto simp: newline_def)+

lemma skip_block_shorter:
  assumes "take 2 r = ''/*''"
  shows "length (skip_block (drop 2 r)) < length r"
proof -
  have "r \<noteq> []" using assms by auto
  then show ?thesis using skip_block_length [of "drop 2 r"] by (cases r) auto
qed

function skip_leading :: "string \<Rightarrow> string" where
  "skip_leading s =
     (let r = dropWhile is_ascii_whitespace s
      in if take 2 r = ''--'' then skip_leading (dropWhile (\<lambda>c. c \<noteq> newline) r)
         else if take 2 r = ''/*'' then skip_leading (skip_block (drop 2 r))
         else r)"
  by pat_completeness auto

termination skip_leading
proof (relation "measure length", goal_cases)
  case (2 s r)
  then show ?case
    using skip_line_shorter [of r] length_dropWhile_le [of is_ascii_whitespace s] by simp
next
  case (3 s r)
  then show ?case
    using skip_block_shorter [of r] length_dropWhile_le [of is_ascii_whitespace s] by simp
qed simp

declare skip_leading.simps [simp del]

definition strip_sql_leading_comments :: "string \<Rightarrow> string" where
  "strip_sql_leading_comments = skip_leading"

section \<open>The rewriting keeps every offset\<close>

definition same_place :: "char \<Rightarrow> char \<Rightarrow> bool" where
  "same_place a b \<longleftrightarrow> (a = newline \<longleftrightarrow> b = newline) \<and> (is_continuation a \<longleftrightarrow> is_continuation b)"

lemma same_place_refl [simp]: "same_place a a"
  by (simp add: same_place_def)

lemma same_layout_refl [simp]: "list_all2 same_place s s"
  by (simp add: list_all2_same)

lemma concat_split_inclusive [simp]: "concat (split_inclusive s) = s"
  by (induction s) (auto split: list.splits)

lemma trim_leading_suffix: "\<exists>p. s = p @ trim_leading ws s"
proof (induction ws s rule: trim_leading.induct)
  case (1 ws s)
  show ?case
  proof (cases "leading ws s")
    case None
    then show ?thesis by (subst trim_leading.simps) simp
  next
    case (Some w)
    with 1 obtain p where p: "drop (length w) s = p @ trim_leading ws (drop (length w) s)" by blast
    moreover have "trim_leading ws s = trim_leading ws (drop (length w) s)"
      using Some by (subst trim_leading.simps) simp
    ultimately have "s = (take (length w) s @ p) @ trim_leading ws s"
      by (metis append_assoc append_take_drop_id)
    then show ?thesis by blast
  qed
qed

lemma indent_trim_start: "take (length s - length (trim_start s)) s @ trim_start s = s"
proof -
  obtain p where p: "s = p @ trim_start s"
    using trim_leading_suffix [of s whitespace_encodings] by (auto simp: trim_start_def)
  then have "length s - length (trim_start s) = length p" by (metis add_diff_cancel_right' length_append)
  with p show ?thesis by (metis append_eq_conv_conj)
qed

lemma newline_byte: "byte newline = 10"
  by (simp add: byte_def newline_def)

lemma ascii_lower_newline_iff: "ascii_lower c = newline \<longleftrightarrow> c = newline"
proof -
  have "byte (ascii_lower c) = 10 \<longleftrightarrow> byte c = 10"
    by (auto simp: ascii_lower_def byte_def)
  moreover have "x = newline \<longleftrightarrow> byte x = 10" for x
    by (metis byte_def char_of_char newline_byte)
  ultimately show ?thesis by simp
qed

lemma ascii_lower_continuation: "is_continuation (ascii_lower c) \<longleftrightarrow> is_continuation c"
  by (auto simp: ascii_lower_def is_continuation_def byte_def)

lemma same_place_lower:
  "list_all2 same_place (to_ascii_lowercase a) b \<longleftrightarrow> list_all2 same_place a b"
  by (simp add: to_ascii_lowercase_def list_all2_map1 same_place_def [abs_def] ascii_lower_newline_iff
      ascii_lower_continuation)

lemma same_layout_prefix:
  assumes "eq_ignore_ascii_case (take (length k) s) k" "list_all2 same_place (to_ascii_lowercase k) k'"
  shows "list_all2 same_place s (k' @ drop (length k) s)"
proof -
  have "list_all2 same_place (take (length k) s) k'"
    using assms by (metis eq_ignore_ascii_case_def same_place_lower)
  from list_all2_appendI [OF this same_layout_refl [of "drop (length k) s"]] show ?thesis by simp
qed

lemma execute_layout:
  "list_all2 same_place (to_ascii_lowercase execute_quote) (''DO      '' @ [CHR 0x27])"
  "list_all2 same_place (to_ascii_lowercase execute_dollar) ''DO      $$''"
  by (simp_all add: same_place_lower execute_quote_def execute_dollar_def same_place_def newline_def
      is_continuation_def byte_def)

lemma execute_lengths: "length execute_quote = 9" "length execute_dollar = 10"
  by (simp_all add: execute_quote_def execute_dollar_def)

lemma normalize_line_layout: "list_all2 same_place line (normalize_line line)"
proof -
  let ?t = "trim_start line" and ?i = "take (length line - length (trim_start line)) line"
  have step: "list_all2 same_place line (?i @ k' @ drop (length k) ?t)"
    if "eq_ignore_ascii_case (take (length k) ?t) k" "list_all2 same_place (to_ascii_lowercase k) k'" for k k'
    using list_all2_appendI [OF same_layout_refl same_layout_prefix [OF that], of ?i]
    by (simp add: indent_trim_start)
  show ?thesis
    using step [OF _ execute_layout(1)] step [OF _ execute_layout(2)]
    by (simp only: normalize_line_def Let_def execute_lengths append_assoc same_layout_refl split: if_split)
      simp
qed

lemma normalize_execute_layout: "list_all2 same_place sql (normalize_execute sql)"
proof -
  have "list_all2 same_place (concat ls) (concat (map normalize_line ls))" for ls
    by (induction ls) (auto intro: list_all2_appendI normalize_line_layout)
  from this [of "split_inclusive sql"] show ?thesis by (simp add: normalize_execute_def)
qed

lemma same_layout_filter:
  "list_all2 same_place a b \<Longrightarrow>
     length (filter (\<lambda>c. c = newline) a) = length (filter (\<lambda>c. c = newline) b) \<and> chars_count a = chars_count b"
  by (induction rule: list_all2_induct) (auto simp: same_place_def chars_count_def)

lemma same_layout_rposition:
  "list_all2 same_place a b \<Longrightarrow> rposition (\<lambda>c. c = newline) a = rposition (\<lambda>c. c = newline) b"
  by (induction rule: list_all2_induct) (auto simp: same_place_def split: option.splits)

lemma same_layout_boundary:
  assumes "list_all2 same_place a b"
  shows "is_char_boundary a i \<longleftrightarrow> is_char_boundary b i"
  using assms list_all2_nthD2 [OF assms, of i]
  by (auto simp: is_char_boundary_def same_place_def list_all2_lengthD)

lemma same_layout_final_line:
  assumes "list_all2 same_place a b"
  shows "chars_count (final_line a) = chars_count (final_line b)"
  using assms same_layout_filter same_layout_rposition [OF assms]
  by (auto simp: final_line_def split: option.splits intro: list_all2_dropI)

lemma same_layout_source_location:
  assumes "list_all2 same_place a b"
  shows "source_location f a r = source_location f b r"
proof -
  have "list_all2 same_place (take n a) (take n b)" for n
    using assms by (simp add: list_all2_takeI)
  then show ?thesis
    using same_layout_filter same_layout_final_line same_layout_boundary [OF assms]
      list_all2_lengthD [OF assms]
    by (auto simp: source_location_def Let_def split: option.splits)
qed

text \<open>
  C15. Rewriting top-level \<^verbatim>\<open>EXECUTE '..'\<close> to \<^verbatim>\<open>DO\<close> keeps the text's length, its newlines and its
  character boundaries in place, so that a range reported by the parser in the rewritten text has
  the same line and column in the migration that was written.\<close>

theorem normalize_execute_locations:
  "length (normalize_execute sql) = length sql
    \<and> (\<forall>i. is_char_boundary (normalize_execute sql) i = is_char_boundary sql i)
    \<and> (\<forall>f r. source_location f (normalize_execute sql) r = source_location f sql r)"
  using normalize_execute_layout [of sql]
  by (simp add: list_all2_lengthD same_layout_boundary same_layout_source_location)

section \<open>Locations tell positions apart\<close>

lemma final_line_append:
  assumes "newline \<notin> set y"
  shows "final_line (x @ y) = final_line x @ y"
proof -
  have "rposition (\<lambda>c. c = newline) y = None" using assms by (auto simp: rposition_None_iff)
  then show ?thesis
    by (auto simp: final_line_def rposition_append dest: rposition_SomeD split: option.splits)
qed

lemma chars_count_append [simp]: "chars_count (x @ y) = chars_count x + chars_count y"
  by (simp add: chars_count_def)

lemma boundary_starts_char:
  assumes "is_char_boundary s i" "i < length s" "s \<noteq> [] \<longrightarrow> \<not> is_continuation (hd s)"
  shows "\<not> is_continuation (s ! i)"
  using assms by (cases s) (auto simp: is_char_boundary_def split: if_splits)

lemma source_location_less:
  assumes "i < j" "j \<le> length s" "is_char_boundary s i" "s \<noteq> [] \<longrightarrow> \<not> is_continuation (hd s)"
    "length (filter (\<lambda>c. c = newline) (take i s)) = length (filter (\<lambda>c. c = newline) (take j s))"
  shows "chars_count (final_line (take i s)) < chars_count (final_line (take j s))"
proof -
  let ?m = "take (j - i) (drop i s)"
  have split: "take j s = take i s @ ?m"
    using assms(1) by (metis le_add_diff_inverse less_imp_le take_add)
  with assms(5) have "filter (\<lambda>c. c = newline) ?m = []" by simp
  then have "newline \<notin> set ?m" by (auto simp: filter_empty_conv)
  moreover have "s ! i \<in> set ?m" using assms(1,2) by (auto simp: in_set_conv_nth intro!: exI [of _ 0])
  then have "0 < chars_count ?m"
    using boundary_starts_char [OF assms(3) _ assms(4)] assms(1,2)
    by (auto simp: chars_count_def filter_empty_conv)
  ultimately show ?thesis using split by (simp add: final_line_append)
qed

text \<open>
  In a text that starts with a whole character, two offsets on character boundaries never share
  a source location: a reported line and column identify the offset.\<close>

theorem source_location_injective:
  assumes "s \<noteq> [] \<longrightarrow> \<not> is_continuation (hd s)"
    and "source_location f s (Some i) \<noteq> None" "i \<noteq> j"
  shows "source_location f s (Some i) \<noteq> source_location f s (Some j)"
proof
  assume eq: "source_location f s (Some i) = source_location f s (Some j)"
  have le: "i \<le> length s" "j \<le> length s" "is_char_boundary s i" "is_char_boundary s j"
    and nl: "length (filter (\<lambda>c. c = newline) (take i s)) = length (filter (\<lambda>c. c = newline) (take j s))"
    and ch: "chars_count (final_line (take i s)) = chars_count (final_line (take j s))"
    using assms(2) eq by (auto simp: source_location_def Let_def split: if_splits)
  from \<open>i \<noteq> j\<close> consider "i < j" | "j < i" by linarith
  then show False
    using source_location_less [of i j s] source_location_less [of j i s] assms(1) le nl ch by cases auto
qed

theorem source_location_injective_witness:
  "source_location ''f'' [CHR 0xC3, CHR 0xA9, newline, CHR ''a''] (Some 3) = Some \<lparr>sl_file = ''f'', sl_line = 2, sl_column = 1\<rparr>
    \<and> source_location ''f'' [CHR 0xC3, CHR 0xA9, newline, CHR ''a''] (Some 3)
        \<noteq> source_location ''f'' [CHR 0xC3, CHR 0xA9, newline, CHR ''a''] (Some 2)"
proof -
  let ?s = "[CHR 0xC3, CHR 0xA9, newline, CHR ''a'']"
  have l: "source_location ''f'' ?s (Some 3) = Some \<lparr>sl_file = ''f'', sl_line = 2, sl_column = 1\<rparr>"
    by (simp add: source_location_def final_line_def newline_def chars_count_def is_char_boundary_def
        is_continuation_def byte_def Let_def numeral_3_eq_3)
  have "?s \<noteq> [] \<longrightarrow> \<not> is_continuation (hd ?s)" by (simp add: is_continuation_def byte_def)
  from source_location_injective [OF this, of "''f''" 3 2] l show ?thesis by simp
qed

section \<open>Every directive is read\<close>

definition marker_at :: "string \<Rightarrow> nat \<Rightarrow> bool" where
  "marker_at body i \<longleftrightarrow> take (length marker) (drop i body) = marker"

definition directives :: "string \<Rightarrow> (bool \<times> string) set" where
  "directives body = {d. \<exists>i. marker_at body i \<and> directive (drop (i + length marker) body) = Some d}"

lemma find_sub_first:
  "find_sub pat s = Some i \<Longrightarrow>
     take (length pat) (drop i s) = pat \<and> (\<forall>j < i. take (length pat) (drop j s) \<noteq> pat)"
proof (induction s arbitrary: i)
  case Nil
  then show ?case by (subst (asm) find_sub.simps) (auto split: if_splits)
next
  case (Cons c s)
  show ?case
  proof (cases "take (length pat) (c # s) = pat")
    case True
    then have "i = 0" using Cons.prems by (subst (asm) find_sub.simps) simp
    then show ?thesis using True by simp
  next
    case False
    then obtain i' where i: "find_sub pat s = Some i'" "i = Suc i'"
      using Cons.prems by (subst (asm) find_sub.simps) auto
    show ?thesis using Cons.IH [OF i(1)] False i(2) by (auto simp: less_Suc_eq_0_disj)
  qed
qed

lemma find_sub_none: "find_sub pat s = None \<Longrightarrow> take (length pat) (drop j s) \<noteq> pat"
proof (induction s arbitrary: j)
  case Nil
  then show ?case by (subst (asm) find_sub.simps) (auto split: if_splits)
next
  case (Cons c s)
  then show ?case
    by (subst (asm) find_sub.simps) (cases j; auto split: if_splits)
qed

lemma marker_nth: "marker_at body i \<Longrightarrow> k < 13 \<Longrightarrow> i + k < length body \<and> body ! (i + k) = marker ! k"
proof -
  assume m: "marker_at body i" and k: "k < 13"
  have l: "length marker = 13" by (simp add: marker_def)
  from m l have "length (take 13 (drop i body)) = 13" by (simp add: marker_at_def)
  then have "i + 13 \<le> length body" by simp
  moreover have "take 13 (drop i body) ! k = marker ! k" using m l by (simp add: marker_at_def)
  ultimately show ?thesis using k by simp
qed

lemma marker_letter: "k < 13 \<Longrightarrow> marker ! k = marker ! 0 \<Longrightarrow> k = 0"
proof -
  have "\<forall>k \<in> set [0..<13]. marker ! k = marker ! 0 \<longrightarrow> k = 0" by (simp add: marker_def upt_rec nth_Cons')
  then show "k < 13 \<Longrightarrow> marker ! k = marker ! 0 \<Longrightarrow> k = 0" by simp
qed

text \<open>The marker's first letter occurs in it only once, so two occurrences never overlap.\<close>

lemma marker_no_overlap:
  assumes "marker_at body i" "marker_at body j" "i < j"
  shows "i + 13 \<le> j"
proof (rule ccontr)
  assume "\<not> i + 13 \<le> j"
  then have "j - i < 13" by simp
  with marker_nth [OF assms(1) this] marker_nth [OF assms(2), of 0] assms(3)
  have "marker ! (j - i) = marker ! 0" by simp
  with marker_letter [OF \<open>j - i < 13\<close>] assms(3) show False by simp
qed

lemma marker_at_drop: "marker_at (drop n body) i \<longleftrightarrow> marker_at body (n + i)"
  by (simp add: marker_at_def add.commute)

lemma directives_step:
  assumes "find_sub marker body = Some i"
  shows "directives body =
    set_option (directive (drop (i + length marker) body)) \<union> directives (drop (i + length marker) body)"
proof -
  have l: "length marker = 13" by (simp add: marker_def)
  from find_sub_first [OF assms] have at: "marker_at body i" and first: "\<And>j. marker_at body j \<Longrightarrow> i \<le> j"
    by (auto simp: marker_at_def not_less [symmetric])
  have later: "j = i \<or> (\<exists>k. j = i + 13 + k)" if "marker_at body j" for j
    using first [OF that] marker_no_overlap [OF at that] le_Suc_ex by (cases "j = i") auto
  have occ: "(\<exists>j. marker_at body j \<and> P j) \<longleftrightarrow> P i \<or> (\<exists>k. marker_at body (i + 13 + k) \<and> P (i + 13 + k))" for P
    using at later by (auto intro: exI [of _ i])
  show ?thesis
    unfolding directives_def marker_at_drop l occ drop_drop
    by (auto simp: ac_simps)
qed

lemma parse_directives_sets:
  "parse_directives body acc =
     (fst acc \<union> {r. (True, r) \<in> directives body}, snd acc \<union> {r. (False, r) \<in> directives body})"
proof (induction body acc rule: parse_directives.induct)
  case (1 body acc)
  show ?case
  proof (cases "find_sub marker body")
    case None
    then have "directives body = {}"
      using find_sub_none [OF None] by (auto simp: directives_def marker_at_def)
    with None show ?thesis by (subst parse_directives.simps) simp
  next
    case (Some i)
    let ?rest = "drop (i + length marker) body"
    have "parse_directives body acc = parse_directives ?rest (record_directive (directive ?rest) acc)"
      using Some by (subst parse_directives.simps) (simp add: Let_def)
    with 1 [OF Some refl] directives_step [OF Some] show ?thesis
      by (cases "directive ?rest") (auto simp: record_directive_def split: bool.splits)
  qed
qed

text \<open>
  C16. Reading a comment collects exactly the directives that stand after some occurrence of the
  marker \<^verbatim>\<open>safe-migrate:\<close> (every occurrence, wherever it stands): \<^verbatim>\<open>ignore-file(rule)\<close> into the
  file's set, \<^verbatim>\<open>ignore(rule)\<close> into the statement's.\<close>

theorem parse_directives_exact:
  "parse_directives body (files, stmts) =
     (files \<union> {r. \<exists>i. marker_at body i \<and> directive (drop (i + length marker) body) = Some (True, r)},
      stmts \<union> {r. \<exists>i. marker_at body i \<and> directive (drop (i + length marker) body) = Some (False, r)})"
  by (simp add: parse_directives_sets directives_def)

section \<open>Leading comments are gone\<close>

lemma skip_block_suffix: "\<exists>p. s = p @ skip_block s"
  by (induction s rule: skip_block.induct) (auto intro: exI [of _ "[]"] simp: Cons_eq_append_conv)

lemma dropWhile_suffix: "\<exists>p. s = p @ dropWhile P s"
  by (metis takeWhile_dropWhile_id)

lemma skip_leading_suffix: "\<exists>p. s = p @ skip_leading s"
proof (induction s rule: skip_leading.induct)
  case (1 s)
  let ?r = "dropWhile is_ascii_whitespace s"
  obtain p0 where p0: "s = p0 @ ?r" using dropWhile_suffix by blast
  consider (line) "take 2 ?r = ''--''" | (block) "take 2 ?r \<noteq> ''--''" "take 2 ?r = ''/*''"
    | (stop) "take 2 ?r \<noteq> ''--''" "take 2 ?r \<noteq> ''/*''" by blast
  then show ?case
  proof cases
    case line
    then have "skip_leading s = skip_leading (dropWhile (\<lambda>c. c \<noteq> newline) ?r)"
      by (subst skip_leading.simps) (simp add: Let_def)
    with 1(1) [OF refl line] dropWhile_suffix [of ?r "\<lambda>c. c \<noteq> newline"] p0 show ?thesis
      by (metis append_assoc)
  next
    case block
    then have "skip_leading s = skip_leading (skip_block (drop 2 ?r))"
      by (subst skip_leading.simps) (simp add: Let_def)
    with 1(2) [OF refl block] skip_block_suffix [of "drop 2 ?r"] p0 show ?thesis
      by (metis append_assoc append_take_drop_id)
  next
    case stop
    then have "skip_leading s = ?r" by (subst skip_leading.simps) (simp add: Let_def)
    with p0 show ?thesis by metis
  qed
qed

definition starts_statement :: "string \<Rightarrow> bool" where
  "starts_statement s \<longleftrightarrow>
     (s = [] \<or> \<not> is_ascii_whitespace (hd s)) \<and> take 2 s \<noteq> ''--'' \<and> take 2 s \<noteq> ''/*''"

lemma skip_leading_starts: "starts_statement (skip_leading s)"
proof (induction s rule: skip_leading.induct)
  case (1 s)
  let ?r = "dropWhile is_ascii_whitespace s"
  have hd: "?r = [] \<or> \<not> is_ascii_whitespace (hd ?r)" using hd_dropWhile by blast
  show ?case
    using 1(1) [OF refl] 1(2) [OF refl] hd
    by (subst skip_leading.simps) (simp add: Let_def starts_statement_def)
qed

lemma skip_leading_fixed: "starts_statement s \<Longrightarrow> skip_leading s = s"
proof -
  assume s: "starts_statement s"
  then have "dropWhile is_ascii_whitespace s = s"
    by (cases s) (auto simp: starts_statement_def)
  with s show "skip_leading s = s"
    by (subst skip_leading.simps) (simp add: Let_def starts_statement_def)
qed

text \<open>
  The statement text kept with a finding is a suffix of the statement that starts neither with
  white space nor with a comment; a text that already starts so is kept whole.\<close>

theorem strip_sql_leading_comments_suffix:
  "(\<exists>p. s = p @ strip_sql_leading_comments s)
    \<and> starts_statement (strip_sql_leading_comments s)
    \<and> (strip_sql_leading_comments s = s \<longleftrightarrow> starts_statement s)"
  using skip_leading_suffix [of s] skip_leading_starts [of s] skip_leading_fixed [of s]
  by (auto simp: strip_sql_leading_comments_def)

end
