(* ===== verification/Report.thy ===== *)
theory Report
  imports Session Sql_Text
begin

text \<open>
  Findings and their certainty (\<^verbatim>\<open>src/src/_internal/report/violations.rs\<close>) and the order in which the
  engine reports them (\<^verbatim>\<open>analyze_chain_with_locations\<close>). Severity belongs to the rule; certainty is
  derived per finding from the evidence log.
\<close>

section \<open>Findings\<close>

datatype violation_tier = Tier1 | Tier2 | Tier3

fun tier_rank :: "violation_tier \<Rightarrow> nat" where
  "tier_rank Tier1 = 0" | "tier_rank Tier2 = 1" | "tier_rank Tier3 = 2"

datatype certainty = CertaintyExact | CertaintyAssumed | CertaintyTainted

text \<open>A source range is the pair of its start and its end.\<close>

record violation =
  v_source_range :: "(nat \<times> nat) option"
  v_rule_id :: string
  v_object_kind :: object_kind
  v_object_name :: string
  v_tier :: violation_tier
  v_reason :: string
  v_recipe :: string
  v_dedup_key :: "string option"
  v_sql :: "string option"

record not_evaluated =
  ne_rule_id :: string
  ne_tier :: violation_tier
  ne_cause :: evidence_code
  ne_sql :: "string option"
  ne_recipe :: string
  ne_missing_schemas :: "string list"

record report_finding =
  rf_violation :: violation
  rf_location :: "source_position option"
  rf_statement_index :: "nat option"
  rf_certainty :: certainty

section \<open>What would supply the missing evidence\<close>

definition is_plain_schema_char :: "char \<Rightarrow> bool" where
  "is_plain_schema_char c \<longleftrightarrow>
     (97 \<le> byte c \<and> byte c \<le> 122) \<or> (48 \<le> byte c \<and> byte c \<le> 57) \<or> c = CHR ''_''"

definition needs_quotes :: "string \<Rightarrow> bool" where
  "needs_quotes schema \<longleftrightarrow>
     schema = [] \<or> \<not> list_all is_plain_schema_char schema
     \<or> (48 \<le> byte (hd schema) \<and> byte (hd schema) \<le> 57)"

definition double_quotes :: "string \<Rightarrow> string" where
  "double_quotes s = concat (map (\<lambda>c. if c = CHR 0x22 then [CHR 0x22, CHR 0x22] else [c]) s)"

definition render_schema :: "string \<Rightarrow> string" where
  "render_schema schema =
     (if needs_quotes schema then [CHR 0x22] @ double_quotes schema @ [CHR 0x22] else schema)"

fun join_comma :: "string list \<Rightarrow> string" where
  "join_comma [] = []"
| "join_comma [x] = x"
| "join_comma (x # xs) = x @ '', '' @ join_comma xs"

definition quote_schema_list :: "string list \<Rightarrow> string" where
  "quote_schema_list schemas =
     (case map render_schema schemas of
        [] \<Rightarrow> []
      | [only] \<Rightarrow> only
      | [first, second] \<Rightarrow> first @ '' and '' @ second
      | rendered \<Rightarrow> join_comma (butlast rendered) @ '' and '' @ last rendered)"

fun recipe_for :: "evidence_code \<Rightarrow> string list \<Rightarrow> string" where
  "recipe_for BaselineUnavailable missing = ''Run `safe-migrate sync` to build a baseline.''"
| "recipe_for CatalogCoverageIncomplete missing =
     (if missing \<noteq> []
      then ''Add '' @ quote_schema_list missing @ '' to `schemas` in safe-migrate.toml, then re-sync.''
      else ''Add the referenced schema to `schemas` in safe-migrate.toml, then re-sync.'')"
| "recipe_for UnsupportedStatement missing =
     ''This statement has no semantic model yet; no configuration resolves it.''"
| "recipe_for UnsupportedSemantics missing =
     ''This statement has no semantic model yet; no configuration resolves it.''"
| "recipe_for UnmodeledState missing = ''This PostgreSQL state is deliberately outside the model.''"
| "recipe_for BaselineStale missing = ''Run `safe-migrate sync` to refresh the stale baseline.''"
| "recipe_for UnresolvedReference missing =
     ''Widen the baseline scope to include the referenced object, then re-sync.''"
| "recipe_for UnknownObjectState missing =
     ''Re-run `safe-migrate sync` with a wider schema scope so the object state is known, then re-run the analysis.''"
| "recipe_for TransactionStateUnknown missing =
     ''Re-run `safe-migrate sync` with a wider schema scope so the object state is known, then re-run the analysis.''"

section \<open>Certainty\<close>

fun position_of :: "'a \<Rightarrow> 'a list \<Rightarrow> nat option" where
  "position_of x [] = None"
| "position_of x (y # ys) = (if y = x then Some 0 else map_option Suc (position_of x ys))"

definition record_position :: "evidence_record \<Rightarrow> string list \<Rightarrow> (nat \<times> nat) option" where
  "record_position r file_order =
     (case rec_location r of
        None \<Rightarrow> None
      | Some location \<Rightarrow>
          (case position_of (loc_file location) file_order of
             None \<Rightarrow> None
           | Some file_index \<Rightarrow> Some (file_index, loc_statement_index location)))"

text \<open>The loop over the records; the flag is \<^verbatim>\<open>unattributed_statement_evidence\<close>.\<close>

fun certainty_scan ::
  "string list \<Rightarrow> (nat \<times> nat) option \<Rightarrow> bool \<Rightarrow> bool \<Rightarrow> evidence_record list \<Rightarrow> certainty" where
  "certainty_scan file_order here asserted unattributed [] =
     (if unattributed then CertaintyTainted else if asserted then CertaintyAssumed else CertaintyExact)"
| "certainty_scan file_order here asserted unattributed (r # rs) =
     (case (rec_scope r, record_position r file_order, here) of
        (ChainScope, Some at, Some h) \<Rightarrow>
          if h \<le> at then certainty_scan file_order here asserted unattributed rs else CertaintyTainted
      | (ChainScope, _, _) \<Rightarrow> CertaintyTainted
      | (StatementScope, Some at, Some h) \<Rightarrow>
          if at = h then CertaintyTainted else certainty_scan file_order here asserted unattributed rs
      | (StatementScope, _, _) \<Rightarrow> certainty_scan file_order here asserted True rs)"

definition certainty_for_statement ::
  "evidence_record list \<Rightarrow> string list \<Rightarrow> nat \<Rightarrow> nat option \<Rightarrow> bool \<Rightarrow> certainty" where
  "certainty_for_statement evidence file_order file_index statement_index asserted_inputs =
     certainty_scan file_order (map_option (Pair file_index) statement_index) asserted_inputs False evidence"

section \<open>The order of a report\<close>

definition location_rank :: "source_position option \<Rightarrow> nat \<times> nat \<times> nat" where
  "location_rank l = (case l of Some l \<Rightarrow> (0, sl_line l, sl_column l) | None \<Rightarrow> (1, 0, 0))"

definition finding_key ::
  "nat \<times> report_finding \<Rightarrow> nat \<times> nat \<times> (nat \<times> nat \<times> nat) \<times> string \<times> string" where
  "finding_key f =
     (tier_rank (v_tier (rf_violation (snd f))), fst f, location_rank (rf_location (snd f)),
      v_object_name (rf_violation (snd f)), v_rule_id (rf_violation (snd f)))"

definition sort_findings :: "(nat \<times> report_finding) list \<Rightarrow> report_finding list" where
  "sort_findings fs = map snd (sort_key finding_key fs)"

section \<open>Properties\<close>

text \<open>When a record taints a finding at \<open>here\<close>, whatever the other records are.\<close>

definition record_taints :: "string list \<Rightarrow> (nat \<times> nat) option \<Rightarrow> evidence_record \<Rightarrow> bool" where
  "record_taints file_order here r =
     (case (record_position r file_order, here) of
        (Some at, Some h) \<Rightarrow> if rec_scope r = ChainScope then at < h else at = h
      | _ \<Rightarrow> True)"

lemma certainty_scan_eq:
  "certainty_scan file_order here asserted un rs =
     (if un \<or> (\<exists>r \<in> set rs. record_taints file_order here r) then CertaintyTainted
      else if asserted then CertaintyAssumed else CertaintyExact)"
proof (induction rs arbitrary: un)
  case (Cons r rs)
  then show ?case
    by (cases "rec_scope r"; cases "record_position r file_order"; cases here)
      (simp_all add: record_taints_def not_le [symmetric])
qed simp

lemma certainty_for_statement_eq:
  "certainty_for_statement rs file_order fi si asserted =
     (if \<exists>r \<in> set rs. record_taints file_order (map_option (Pair fi) si) r then CertaintyTainted
      else if asserted then CertaintyAssumed else CertaintyExact)"
  by (simp add: certainty_for_statement_def certainty_scan_eq)

text \<open>
  C17. A finding is tainted exactly when some record taints it: evidence about the rest of the
  chain does so from an earlier statement, evidence about one statement from that statement, and
  evidence or a finding without a position always. What is recorded later in the chain, the
  order of the log and repetitions in it make no difference, so that a finding has the certainty it
  would have had if the analysis had stopped at its statement.\<close>

theorem certainty_from_the_past:
  "certainty_for_statement rs file_order fi (Some k) asserted =
     certainty_for_statement
       (filter (\<lambda>r. case record_position r file_order of
            None \<Rightarrow> True
          | Some at \<Rightarrow> at < (fi, k) \<or> (at = (fi, k) \<and> rec_scope r = StatementScope)) rs)
       file_order fi (Some k) asserted
   \<and> (set rs = set rs' \<longrightarrow>
        certainty_for_statement rs file_order fi (Some k) asserted =
        certainty_for_statement rs' file_order fi (Some k) asserted)
   \<and> (certainty_for_statement rs file_order fi (Some k) asserted = CertaintyTainted \<longleftrightarrow>
        (\<exists>r \<in> set rs. case record_position r file_order of
            None \<Rightarrow> True
          | Some at \<Rightarrow> if rec_scope r = ChainScope then at < (fi, k) else at = (fi, k)))"
proof -
  have scope: "rec_scope r = StatementScope \<longleftrightarrow> rec_scope r \<noteq> ChainScope" for r
    by (cases "rec_scope r") simp_all
  have taints: "record_taints file_order (Some (fi, k)) r \<longleftrightarrow>
      (case record_position r file_order of
         None \<Rightarrow> True | Some at \<Rightarrow> if rec_scope r = ChainScope then at < (fi, k) else at = (fi, k))" for r
    by (simp add: record_taints_def split: option.splits)
  show ?thesis
    unfolding certainty_for_statement_eq option.map taints scope
    by (auto split: option.splits if_splits)
qed

definition sample_evidence :: "evidence_record list" where
  "sample_evidence =
     [EvidenceRecord UnmodeledState ChainScope [] (Some (EvidenceLocation ''a.sql'' 3)),
      EvidenceRecord UnresolvedReference StatementScope [] (Some (EvidenceLocation ''a.sql'' 1))]"

theorem certainty_from_the_past_witness:
  "certainty_for_statement sample_evidence [''a.sql''] 0 (Some 2) False = CertaintyExact
   \<and> certainty_for_statement sample_evidence [''a.sql''] 0 (Some 2) False =
       certainty_for_statement (rev sample_evidence) [''a.sql''] 0 (Some 2) False
   \<and> certainty_for_statement sample_evidence [''a.sql''] 0 (Some 4) False = CertaintyTainted"
proof -
  have "set sample_evidence = set (rev sample_evidence)" by simp
  then have "certainty_for_statement sample_evidence [''a.sql''] 0 (Some 2) False =
      certainty_for_statement (rev sample_evidence) [''a.sql''] 0 (Some 2) False"
    using certainty_from_the_past [of sample_evidence "[''a.sql'']" 0 2 False "rev sample_evidence"] by blast
  then show ?thesis
    by (simp add: sample_evidence_def certainty_for_statement_def record_position_def)
qed

end
