(* ===== verification/Configuration.thy ===== *)
theory Configuration
  imports Relation_Model
begin

text \<open>
  The configuration (\<^verbatim>\<open>src/src/api/config.rs\<close>), its validation (\<^verbatim>\<open>validate_config\<close> of \<^verbatim>\<open>src/src/api.rs\<close>)
  and the registry of rules it is validated against (\<^verbatim>\<open>src/src/_internal/rules/registry.rs\<close>). The map
  of per-rule settings, a \<^verbatim>\<open>BTreeMap\<close>, is its list of entries in the order of the keys.
\<close>

section \<open>The registry\<close>

datatype rule_configuration_field = DisabledField | Tier1ThresholdRows | Tier2ThresholdRows

definition disabled_only :: "rule_configuration_field list" where
  "disabled_only = [DisabledField]"

definition with_tier1_threshold :: "rule_configuration_field list" where
  "with_tier1_threshold = [DisabledField, Tier1ThresholdRows]"

definition with_row_thresholds :: "rule_configuration_field list" where
  "with_row_thresholds = [DisabledField, Tier1ThresholdRows, Tier2ThresholdRows]"

datatype rule_descriptor =
  RuleDescriptor (descriptor_id: string) (supported_configuration_fields: "rule_configuration_field list")

definition supports :: "rule_descriptor \<Rightarrow> rule_configuration_field \<Rightarrow> bool" where
  "supports d field \<longleftrightarrow> field \<in> set (supported_configuration_fields d)"

definition primary_rules :: "rule_descriptor list" where
  "primary_rules =
     [RuleDescriptor ''irreversible-migration'' with_tier1_threshold,
      RuleDescriptor ''table-lock'' disabled_only,
      RuleDescriptor ''drop-database'' disabled_only,
      RuleDescriptor ''drop-schema-cascade'' disabled_only,
      RuleDescriptor ''destructive-general-cascade'' disabled_only,
      RuleDescriptor ''destructive-cascade'' disabled_only,
      RuleDescriptor ''create-table-as-select'' disabled_only,
      RuleDescriptor ''size-aware-add-column'' with_tier1_threshold,
      RuleDescriptor ''type-change-rewrite'' with_tier1_threshold,
      RuleDescriptor ''blocking-constraint'' with_row_thresholds,
      RuleDescriptor ''require-concurrent-index'' with_row_thresholds,
      RuleDescriptor ''require-concurrent-reindex'' disabled_only,
      RuleDescriptor ''require-lock-timeout'' disabled_only,
      RuleDescriptor ''require-statement-timeout'' disabled_only,
      RuleDescriptor ''blocking-mat-view-refresh'' with_row_thresholds,
      RuleDescriptor ''blocking-partition-mutation'' with_row_thresholds,
      RuleDescriptor ''partition-strategy-mismatch'' disabled_only,
      RuleDescriptor ''restrictive-policy'' disabled_only,
      RuleDescriptor ''disable-trigger'' disabled_only,
      RuleDescriptor ''broken-compute'' disabled_only,
      RuleDescriptor ''function-volatility-change'' disabled_only,
      RuleDescriptor ''missing-idempotency'' disabled_only,
      RuleDescriptor ''concurrent-in-transaction'' disabled_only,
      RuleDescriptor ''alter-type-add-value-txn'' disabled_only,
      RuleDescriptor ''vacuum-full'' disabled_only,
      RuleDescriptor ''opaque-dynamic-sql'' disabled_only,
      RuleDescriptor ''volatile-default'' disabled_only,
      RuleDescriptor ''overbroad-grant'' disabled_only,
      RuleDescriptor ''schema-drift'' disabled_only,
      RuleDescriptor ''chain-conflict'' disabled_only]"

definition primary_rule_ids :: "string list" where
  "primary_rule_ids = map descriptor_id primary_rules"

definition find_primary_rule :: "string \<Rightarrow> rule_descriptor option" where
  "find_primary_rule i = List.find (\<lambda>d. descriptor_id d = i) primary_rules"

section \<open>The configuration\<close>

record rule_config =
  rcfg_disabled :: "bool option"
  rcfg_tier1_threshold_rows :: "u64 option"
  rcfg_tier2_threshold_rows :: "u64 option"

record config =
  tier1_threshold_rows :: u64
  tier2_threshold_rows :: u64
  stale_stats_days :: u64
  toast_width_threshold_bytes :: "32 word"
  default_rows :: u64
  auto_sync :: bool
  cache_encryption :: bool
  allow_inline_suppressions :: bool
  config_rules :: "(string \<times> rule_config) list"
  assume_pg_version :: "32 word option"
  target_database :: "string option"
  disabled_rules :: "string list"
  config_schemas :: "string list option"

definition config_default :: config where
  "config_default =
     \<lparr>tier1_threshold_rows = 100000, tier2_threshold_rows = 10000, stale_stats_days = 7,
      toast_width_threshold_bytes = 2048, default_rows = 10000, auto_sync = False,
      cache_encryption = False, allow_inline_suppressions = False, config_rules = [],
      assume_pg_version = None, target_database = None, disabled_rules = [], config_schemas = None\<rparr>"

definition is_rule_disabled :: "config \<Rightarrow> string \<Rightarrow> bool" where
  "is_rule_disabled c rule_id =
     (if list_ex (\<lambda>disabled. disabled = rule_id) (disabled_rules c) then True
      else Option.bind (map_of (config_rules c) rule_id) rcfg_disabled = Some True)"

definition rule_tier1_threshold :: "config \<Rightarrow> string \<Rightarrow> u64" where
  "rule_tier1_threshold c rule_id =
     (case Option.bind (map_of (config_rules c) rule_id) rcfg_tier1_threshold_rows of
        Some rows \<Rightarrow> rows | None \<Rightarrow> tier1_threshold_rows c)"

definition rule_tier2_threshold :: "config \<Rightarrow> string \<Rightarrow> u64" where
  "rule_tier2_threshold c rule_id =
     (case Option.bind (map_of (config_rules c) rule_id) rcfg_tier2_threshold_rows of
        Some rows \<Rightarrow> rows | None \<Rightarrow> tier2_threshold_rows c)"

section \<open>Validation\<close>

datatype config_error =
    DefaultRowsZero | ToastWidthNotPositive | AssumedVersionOutOfRange | TargetDatabaseBlank
  | UnknownRuleIds "string list" "string list" | SchemasEmptyOrBlank
  | ThresholdsReversed u64 u64 | Tier1Unsupported string | Tier2Unsupported string
  | RuleThresholdsReversed string u64 u64

definition sync_schemas :: "config \<Rightarrow> string list option \<Rightarrow> config_error + string list option" where
  "sync_schemas c command_schemas =
     (let schemas = (case command_schemas of Some s \<Rightarrow> Some s | None \<Rightarrow> config_schemas c)
      in case schemas of
           Some names \<Rightarrow>
             if names = [] \<or> list_ex (\<lambda>schema. trim schema = []) names then Inl SchemasEmptyOrBlank
             else Inr schemas
         | None \<Rightarrow> Inr schemas)"

definition unknown_rule_ids :: "config \<Rightarrow> string list" where
  "unknown_rule_ids c =
     sort (remdups (filter (\<lambda>i. i \<notin> set primary_rule_ids) (map fst (config_rules c) @ disabled_rules c)))"

definition validate_rule_ids :: "config \<Rightarrow> config_error + unit" where
  "validate_rule_ids c =
     (if unknown_rule_ids c = [] then Inr ()
      else Inl (UnknownRuleIds (unknown_rule_ids c) (sort (remdups primary_rule_ids))))"

fun validate_rule_entries :: "config \<Rightarrow> (string \<times> rule_config) list \<Rightarrow> config_error + unit" where
  "validate_rule_entries c [] = Inr ()"
| "validate_rule_entries c ((i, r) # entries) =
     (case find_primary_rule i of
        None \<Rightarrow> validate_rule_entries c entries
      | Some d \<Rightarrow>
          if rcfg_tier1_threshold_rows r \<noteq> None \<and> \<not> supports d Tier1ThresholdRows then Inl (Tier1Unsupported i)
          else if rcfg_tier2_threshold_rows r \<noteq> None \<and> \<not> supports d Tier2ThresholdRows then Inl (Tier2Unsupported i)
          else if supports d Tier1ThresholdRows \<and> supports d Tier2ThresholdRows
                  \<and> rule_tier1_threshold c i < rule_tier2_threshold c i
          then Inl (RuleThresholdsReversed i (rule_tier1_threshold c i) (rule_tier2_threshold c i))
          else validate_rule_entries c entries)"

definition validate_rule_configuration :: "config \<Rightarrow> config_error + unit" where
  "validate_rule_configuration c =
     (if tier1_threshold_rows c < tier2_threshold_rows c
      then Inl (ThresholdsReversed (tier1_threshold_rows c) (tier2_threshold_rows c))
      else validate_rule_entries c (config_rules c))"

definition validate_config :: "config \<Rightarrow> config_error + unit" where
  "validate_config c =
     (if default_rows c = 0 then Inl DefaultRowsZero
      else if sint (toast_width_threshold_bytes c) \<le> 0 then Inl ToastWidthNotPositive
      else if (case assume_pg_version c of Some v \<Rightarrow> \<not> (140000 \<le> v \<and> v \<le> 180999) | None \<Rightarrow> False)
      then Inl AssumedVersionOutOfRange
      else if (case target_database c of Some d \<Rightarrow> trim d = [] | None \<Rightarrow> False) then Inl TargetDatabaseBlank
      else case validate_rule_ids c of
          Inl e \<Rightarrow> Inl e
        | Inr _ \<Rightarrow>
            (case sync_schemas c None of
               Inl e \<Rightarrow> Inl e
             | Inr _ \<Rightarrow> validate_rule_configuration c))"

section \<open>Properties\<close>

lemma validate_entries_ok:
  "validate_rule_entries c es = Inr () \<longleftrightarrow>
     (\<forall>(i, r) \<in> set es. \<forall>d. find_primary_rule i = Some d \<longrightarrow>
        (rcfg_tier1_threshold_rows r \<noteq> None \<longrightarrow> supports d Tier1ThresholdRows)
        \<and> (rcfg_tier2_threshold_rows r \<noteq> None \<longrightarrow> supports d Tier2ThresholdRows)
        \<and> (supports d Tier1ThresholdRows \<and> supports d Tier2ThresholdRows \<longrightarrow>
             rule_tier2_threshold c i \<le> rule_tier1_threshold c i))"
  by (induction c es rule: validate_rule_entries.induct) (auto split: option.splits simp: not_less)

lemma primary_rule_ids_distinct: "distinct primary_rule_ids"
  by (simp add: primary_rule_ids_def primary_rules_def)

lemma find_primary_rule_id: "d \<in> set primary_rules \<Longrightarrow> find_primary_rule (descriptor_id d) = Some d"
proof -
  have "distinct (map descriptor_id ds) \<Longrightarrow> d \<in> set ds \<Longrightarrow>
      List.find (\<lambda>e. descriptor_id e = descriptor_id d) ds = Some d" for ds
    by (induction ds) auto
  then show "d \<in> set primary_rules \<Longrightarrow> find_primary_rule (descriptor_id d) = Some d"
    using primary_rule_ids_distinct by (simp add: find_primary_rule_def primary_rule_ids_def)
qed

lemma validate_config_parts:
  assumes "validate_config c = Inr ()"
  shows "unknown_rule_ids c = []" "tier2_threshold_rows c \<le> tier1_threshold_rows c"
    "validate_rule_entries c (config_rules c) = Inr ()"
  using assms
  by (auto simp: validate_config_def validate_rule_ids_def validate_rule_configuration_def not_less
      split: if_splits sum.splits)

text \<open>
  C18. An accepted configuration gives every registered rule that reads both row thresholds an
  upper one that is not below its lower one, whether the rule has settings of its own or not; it
  names registered rules only, and sets thresholds only for rules that read them.\<close>

theorem validated_thresholds_ordered:
  assumes "validate_config c = Inr ()"
  shows "(\<forall>d \<in> set primary_rules. supports d Tier1ThresholdRows \<and> supports d Tier2ThresholdRows \<longrightarrow>
        rule_tier2_threshold c (descriptor_id d) \<le> rule_tier1_threshold c (descriptor_id d))
    \<and> fst ` set (config_rules c) \<union> set (disabled_rules c) \<subseteq> set primary_rule_ids
    \<and> (\<forall>(i, r) \<in> set (config_rules c). \<exists>d \<in> set primary_rules. descriptor_id d = i
        \<and> (rcfg_tier1_threshold_rows r \<noteq> None \<longrightarrow> supports d Tier1ThresholdRows)
        \<and> (rcfg_tier2_threshold_rows r \<noteq> None \<longrightarrow> supports d Tier2ThresholdRows))"
proof (intro conjI)
  note parts = validate_config_parts [OF assms]
  show ids: "fst ` set (config_rules c) \<union> set (disabled_rules c) \<subseteq> set primary_rule_ids"
  proof -
    have "set (unknown_rule_ids c) = {}" using parts(1) by simp
    then show ?thesis by (auto simp: unknown_rule_ids_def)
  qed
  show "\<forall>d \<in> set primary_rules. supports d Tier1ThresholdRows \<and> supports d Tier2ThresholdRows \<longrightarrow>
        rule_tier2_threshold c (descriptor_id d) \<le> rule_tier1_threshold c (descriptor_id d)"
  proof (intro ballI impI)
    fix d assume d: "d \<in> set primary_rules" "supports d Tier1ThresholdRows \<and> supports d Tier2ThresholdRows"
    show "rule_tier2_threshold c (descriptor_id d) \<le> rule_tier1_threshold c (descriptor_id d)"
    proof (cases "map_of (config_rules c) (descriptor_id d)")
      case None
      then show ?thesis using parts(2) by (simp add: rule_tier1_threshold_def rule_tier2_threshold_def)
    next
      case (Some r)
      then have "(descriptor_id d, r) \<in> set (config_rules c)" by (rule map_of_SomeD)
      then show ?thesis
        using parts(3) d find_primary_rule_id [OF d(1)] unfolding validate_entries_ok by fastforce
    qed
  qed
  show "\<forall>(i, r) \<in> set (config_rules c). \<exists>d \<in> set primary_rules. descriptor_id d = i
        \<and> (rcfg_tier1_threshold_rows r \<noteq> None \<longrightarrow> supports d Tier1ThresholdRows)
        \<and> (rcfg_tier2_threshold_rows r \<noteq> None \<longrightarrow> supports d Tier2ThresholdRows)"
  proof (intro ballI, clarify)
    fix i r assume ir: "(i, r) \<in> set (config_rules c)"
    with ids obtain d where d: "d \<in> set primary_rules" "descriptor_id d = i"
      by (force simp: primary_rule_ids_def)
    then show "\<exists>d \<in> set primary_rules. descriptor_id d = i
        \<and> (rcfg_tier1_threshold_rows r \<noteq> None \<longrightarrow> supports d Tier1ThresholdRows)
        \<and> (rcfg_tier2_threshold_rows r \<noteq> None \<longrightarrow> supports d Tier2ThresholdRows)"
      using parts(3) ir find_primary_rule_id [OF d(1)] unfolding validate_entries_ok by fastforce
  qed
qed

theorem validated_thresholds_ordered_witness:
  "rule_tier2_threshold (config_default\<lparr>config_rules := [(''blocking-constraint'', \<lparr>rcfg_disabled = None,
      rcfg_tier1_threshold_rows = Some 50000, rcfg_tier2_threshold_rows = None\<rparr>)]\<rparr>) ''blocking-constraint''
    \<le> rule_tier1_threshold (config_default\<lparr>config_rules := [(''blocking-constraint'', \<lparr>rcfg_disabled = None,
      rcfg_tier1_threshold_rows = Some 50000, rcfg_tier2_threshold_rows = None\<rparr>)]\<rparr>) ''blocking-constraint''"
proof -
  let ?c = "config_default\<lparr>config_rules := [(''blocking-constraint'', \<lparr>rcfg_disabled = None,
      rcfg_tier1_threshold_rows = Some 50000, rcfg_tier2_threshold_rows = None\<rparr>)]\<rparr>"
  let ?d = "RuleDescriptor ''blocking-constraint'' with_row_thresholds"
  have d: "?d \<in> set primary_rules" "supports ?d Tier1ThresholdRows \<and> supports ?d Tier2ThresholdRows"
    by (simp_all add: primary_rules_def supports_def with_row_thresholds_def)
  have "validate_config ?c = Inr ()"
    using find_primary_rule_id [OF d(1)] d(2)
    by (simp add: validate_config_def config_default_def validate_rule_ids_def unknown_rule_ids_def primary_rule_ids_def
        primary_rules_def sync_schemas_def validate_rule_configuration_def rule_tier1_threshold_def rule_tier2_threshold_def)
  from validated_thresholds_ordered [OF this] d show ?thesis by force
qed

end
