(* ===== verification/Engine.thy ===== *)
theory Engine
  imports Pre_State Report Configuration
begin

text \<open>
  The statement loop (\<^verbatim>\<open>src/src/_internal/engine/engine.rs\<close>) and the interface of the rules
  (\<^verbatim>\<open>rules/mod.rs\<close>).

  A rule is a record of the methods of the trait \<^verbatim>\<open>Rule\<close>, so that everything below holds for every
  list of rules. The parser, the extraction of facts and their resolution come in as fields of a
  \<open>statement\<close> and of a \<open>parsed_file\<close>. The list \<^verbatim>\<open>not_evaluated\<close>, a field of the analysis state in the
  code, stands beside it in the record \<open>run\<close>.
\<close>

section \<open>Rules\<close>

datatype rule_capability =
    BaselineRelationsCapability | CatalogDependenciesCapability | RowStatisticsCapability
  | TransactionStateCapability | FunctionCatalogCapability

fun capability_family :: "rule_capability \<Rightarrow> catalog_family option" where
  "capability_family BaselineRelationsCapability = Some FamRelations"
| "capability_family RowStatisticsCapability = Some FamRelations"
| "capability_family CatalogDependenciesCapability = Some FamDependencies"
| "capability_family FunctionCatalogCapability = Some FamRoutines"
| "capability_family TransactionStateCapability = None"

definition available :: "rule_capability \<Rightarrow> analysis_state \<Rightarrow> bool" where
  "available c s =
     (if c = TransactionStateCapability
      then list_all (\<lambda>r. rec_code r \<noteq> TransactionStateUnknown) (log_records (l_evidence (local s)))
      else if \<not> baseline_available s then False
      else case capability_family c of Some f \<Rightarrow> coverage_has (baseline_coverage s) f | None \<Rightarrow> False)"

text \<open>None of the modelled mutations has relations whose row estimates a finding needs.\<close>

fun statistics_targets :: "mutation \<Rightarrow> oid list" where
  "statistics_targets _ = []"

definition available_for :: "rule_capability \<Rightarrow> analysis_state \<Rightarrow> mutation \<Rightarrow> pre_state \<Rightarrow> bool" where
  "available_for c s m p =
     (if c \<noteq> RowStatisticsCapability then available c s
      else if \<not> available c s then False
      else list_all (\<lambda>i. case ps_relations p i of None \<Rightarrow> False | Some r \<Rightarrow> r_estimated_rows r \<noteq> None)
             (statistics_targets m))"

fun capability_evidence_code :: "rule_capability \<Rightarrow> evidence_code" where
  "capability_evidence_code TransactionStateCapability = TransactionStateUnknown"
| "capability_evidence_code _ = CatalogCoverageIncomplete"

record transition_record =
  tr_mutation :: mutation
  tr_result :: mutation_result
  tr_pre_state :: pre_state
  tr_cascade_closure :: "cascade_result option"

record rule_context =
  ctx_transition :: transition_record
  ctx_state :: analysis_state
  ctx_config :: config

record rule =
  rule_id :: string
  rule_default_tier :: violation_tier
  evaluates_when_unresolved :: "transition_record \<Rightarrow> bool"
  required_capabilities :: "rule_capability list"
  rule_evaluate :: "rule_context \<Rightarrow> violation list"

section \<open>Running state\<close>

record run =
  run_state :: analysis_state
  run_not_evaluated :: "not_evaluated list"

definition on_state :: "(analysis_state \<Rightarrow> analysis_state) \<Rightarrow> run \<Rightarrow> run" where
  "on_state f x = x\<lparr>run_state := f (run_state x)\<rparr>"

definition record_not_evaluated :: "not_evaluated \<Rightarrow> run \<Rightarrow> run" where
  "record_not_evaluated r x =
     (if list_ex (\<lambda>e. ne_rule_id e = ne_rule_id r \<and> ne_cause e = ne_cause r) (run_not_evaluated x) then x
      else x\<lparr>run_not_evaluated := run_not_evaluated x @ [r]\<rparr>)"

definition external_referenced_schemas :: "analysis_state \<Rightarrow> string list" where
  "external_referenced_schemas s =
     sorted_list_of_set
       ((\<lambda>i. schema_of i) ` {i. \<exists>e \<in> scoped_external_dependencies s. sde_external e = Some i}
        \<union> external_referencing_schemas s)"

text \<open>\<^verbatim>\<open>AnalysisState::clone\<close>: the graph is cloned without its lookup indexes.\<close>

definition state_clone :: "analysis_state \<Rightarrow> analysis_state" where
  "state_clone s = s\<lparr>local := (local s)\<lparr>l_graph := graph_clone (graph_of s)\<rparr>\<rparr>"

section \<open>Statement checkpoints\<close>

datatype statement_checkpoint = Full "run option" | TransactionUndo nat nat

definition capture :: "run \<Rightarrow> mutation list \<Rightarrow> statement_checkpoint" where
  "capture x mutations =
     (let changes_transaction_structure = list_ex controls_transaction mutations
      in case (changes_transaction_structure, transaction_undo_checkpoint (run_state x)) of
           (False, Some (transaction_depth, undo_len)) \<Rightarrow> TransactionUndo transaction_depth undo_len
         | _ \<Rightarrow> Full (Some (on_state state_clone x)))"

fun restore :: "statement_checkpoint \<Rightarrow> run \<Rightarrow> (string + run) \<times> statement_checkpoint" where
  "restore (Full None) x = (Inl ''statement checkpoint was already restored'', Full None)"
| "restore (Full (Some checkpoint)) x = (Inr checkpoint, Full None)"
| "restore (TransactionUndo transaction_depth undo_len) x =
     (case rollback_to_transaction_undo_checkpoint transaction_depth undo_len (run_state x) of
        Inl error \<Rightarrow> (Inl error, TransactionUndo transaction_depth undo_len)
      | Inr s \<Rightarrow> (Inr (x\<lparr>run_state := s\<rparr>), TransactionUndo transaction_depth undo_len))"

section \<open>Statements\<close>

text \<open>
  What the parser and the resolver say about a statement: its range, its tokens with their starts,
  the comments before it (nearest first) and inside it, its mutations in a state (\<open>None\<close> without a
  typed extractor), and whether the linter finds it possibly slow.
\<close>

record statement =
  st_range :: "nat \<times> nat"
  st_tokens :: "(string \<times> nat) list"
  st_leading_comments :: "string list"
  st_inner_comments :: "string list"
  st_resolve :: "(analysis_state \<Rightarrow> mutation list) option"
  st_possibly_slow :: bool

record parsed_file =
  pf_errors :: "string list"
  pf_comments :: "string list"
  pf_statements :: "statement list"

record file_context =
  fc_config :: config
  fc_rules :: "rule list"
  fc_order :: hash_order
  fc_filename :: string
  fc_sql :: string
  fc_original_sql :: string
  fc_file_ignores :: "string set"

definition file_ignores_of :: "parsed_file \<Rightarrow> string set" where
  "file_ignores_of p = fold (\<lambda>c acc. fst (parse_directives c (acc, {}))) (pf_comments p) {}"

definition stmt_ignores_of :: "statement \<Rightarrow> string set" where
  "stmt_ignores_of st =
     fold (\<lambda>c acc. snd (parse_directives c ({}, acc))) (st_leading_comments st @ st_inner_comments st) {}"

definition substring :: "nat \<Rightarrow> nat \<Rightarrow> string \<Rightarrow> string" where
  "substring a b s = take (b - a) (drop a s)"

definition raw_stmt :: "file_context \<Rightarrow> statement \<Rightarrow> string" where
  "raw_stmt fc st =
     (let (a, b) = st_range st
      in if a < length (fc_original_sql fc) \<and> b \<le> length (fc_original_sql fc)
         then substring a b (fc_original_sql fc)
         else if a \<le> b \<and> b \<le> length (fc_sql fc) \<and> is_char_boundary (fc_sql fc) a \<and> is_char_boundary (fc_sql fc) b
         then substring a b (fc_sql fc) else [])"

definition stmt_text :: "file_context \<Rightarrow> statement \<Rightarrow> string" where
  "stmt_text fc st = strip_sql_leading_comments (raw_stmt fc st)"

definition visible_token :: "string \<Rightarrow> bool" where
  "visible_token tok =
     (let t = trim tok in t \<noteq> [] \<and> strip_prefix ''--'' t = None \<and> strip_prefix ''/*'' t = None)"

definition first_token_start :: "statement \<Rightarrow> nat" where
  "first_token_start st =
     (case List.find (\<lambda>t. visible_token (fst t)) (st_tokens st) of
        Some t \<Rightarrow> snd t
      | None \<Rightarrow> fst (st_range st))"

definition with_range :: "statement \<Rightarrow> violation \<Rightarrow> violation" where
  "with_range st v =
     (if v_source_range v = None
      then v\<lparr>v_source_range := Some (first_token_start st, snd (st_range st))\<rparr> else v)"

definition with_sql :: "file_context \<Rightarrow> statement \<Rightarrow> violation \<Rightarrow> violation" where
  "with_sql fc st v =
     (if v_sql v \<noteq> None then v
      else case v_source_range v of
          Some (a, b) \<Rightarrow>
            if a < length (fc_original_sql fc) \<and> b \<le> length (fc_original_sql fc)
            then v\<lparr>v_sql := Some (trim (substring a b (fc_original_sql fc)))\<rparr>
            else v\<lparr>v_sql := Some (trim (stmt_text fc st))\<rparr>
        | None \<Rightarrow> v\<lparr>v_sql := Some (trim (stmt_text fc st))\<rparr>)"

section \<open>Evaluating the rules\<close>

record progress =
  pr_run :: run
  pr_violations :: "violation list"
  pr_warned_keys :: "string set"

definition accept_violation ::
  "file_context \<Rightarrow> statement \<Rightarrow> string set \<Rightarrow> violation \<Rightarrow> progress \<Rightarrow> progress" where
  "accept_violation fc st warned v p =
     (case v_dedup_key v of
        Some key \<Rightarrow>
          if key \<in> warned \<or> key \<in> pr_warned_keys p then p
          else p\<lparr>pr_warned_keys := insert key (pr_warned_keys p),
                 pr_violations := pr_violations p @ [with_sql fc st (with_range st v)]\<rparr>
      | None \<Rightarrow> p\<lparr>pr_violations := pr_violations p @ [with_sql fc st (with_range st v)]\<rparr>)"

definition suppression_disabled :: "string \<Rightarrow> violation" where
  "suppression_disabled i =
     \<lparr>v_source_range = None, v_rule_id = ''inline-suppression-disabled'', v_object_kind = KindUnknown,
      v_object_name = [], v_tier = Tier1,
      v_reason = ''Inline suppression of rule '' @ [CHR 0x27] @ i @ [CHR 0x27] @ '' is not allowed by configuration'',
      v_recipe = ''Remove the inline directive. To bypass a rule, explicitly disable it in safe-migrate.toml.'',
      v_dedup_key = Some (''inline-suppression-disabled:'' @ i), v_sql = None\<rparr>"

definition not_evaluated_entry :: "file_context \<Rightarrow> statement \<Rightarrow> rule \<Rightarrow> evidence_code \<Rightarrow> analysis_state \<Rightarrow> not_evaluated" where
  "not_evaluated_entry fc st rl cause s =
     \<lparr>ne_rule_id = rule_id rl, ne_tier = rule_default_tier rl, ne_cause = cause,
      ne_sql = Some (trim (stmt_text fc st)),
      ne_recipe = recipe_for cause (external_referenced_schemas s),
      ne_missing_schemas = external_referenced_schemas s\<rparr>"

definition taint_missing_capability :: "mutation \<Rightarrow> pre_state \<Rightarrow> rule_capability \<Rightarrow> analysis_state \<Rightarrow> analysis_state" where
  "taint_missing_capability m p c s =
     (if available_for c s m p then s
      else taint (if baseline_available s then capability_evidence_code c else BaselineUnavailable) StatementScope s)"

definition rule_violations :: "file_context \<Rightarrow> statement \<Rightarrow> string set \<Rightarrow> transition_record \<Rightarrow> rule \<Rightarrow> progress \<Rightarrow> progress" where
  "rule_violations fc st warned tr rl p =
     (let violations = rule_evaluate rl
            \<lparr>ctx_transition = tr, ctx_state = run_state (pr_run p), ctx_config = fc_config fc\<rparr>;
          p1 = (if violations = [] then p
                else p\<lparr>pr_run := on_state
                       (fold (taint_missing_capability (tr_mutation tr) (tr_pre_state tr)) (required_capabilities rl))
                       (pr_run p)\<rparr>)
      in fold (accept_violation fc st warned) violations p1)"

definition evaluate_rule :: "file_context \<Rightarrow> statement \<Rightarrow> string set \<Rightarrow> transition_record \<Rightarrow> rule \<Rightarrow> progress \<Rightarrow> progress" where
  "evaluate_rule fc st warned tr rl p =
     (let is_inline_ignored = rule_id rl \<in> fc_file_ignores fc \<or> rule_id rl \<in> stmt_ignores_of st
      in if is_inline_ignored \<and> \<not> allow_inline_suppressions (fc_config fc)
         then p\<lparr>pr_violations := pr_violations p @ [suppression_disabled (rule_id rl)]\<rparr>
         else if is_rule_disabled (fc_config fc) (rule_id rl) \<or> is_inline_ignored then p
         else case unresolved_cause (tr_result tr) of
             Some cause \<Rightarrow>
               if \<not> evaluates_when_unresolved rl tr
               then p\<lparr>pr_run := record_not_evaluated (not_evaluated_entry fc st rl cause (run_state (pr_run p))) (pr_run p)\<rparr>
               else rule_violations fc st warned tr rl p
           | None \<Rightarrow> rule_violations fc st warned tr rl p)"

definition evaluate_rules :: "file_context \<Rightarrow> statement \<Rightarrow> string set \<Rightarrow> transition_record \<Rightarrow> progress \<Rightarrow> progress" where
  "evaluate_rules fc st warned tr p = fold (evaluate_rule fc st warned tr) (fc_rules fc) p"

section \<open>Applying a statement\<close>

fun pre_cascade_of :: "mutation \<Rightarrow> analysis_state \<Rightarrow> cascade_result option" where
  "pre_cascade_of (DropTable d) s =
     (if dt_cascade d then Some (cascade_for_relations s (map oid (dt_ids d))) else None)"
| "pre_cascade_of _ s = None"

definition after_conflict :: "statement_checkpoint \<Rightarrow> run \<Rightarrow> string + run" where
  "after_conflict cp x =
     (let transaction_aborted = l_transaction_aborted (local (run_state x))
      in case fst (restore cp x) of
           Inl error \<Rightarrow> Inl (''failed to restore PostgreSQL statement atomicity: '' @ error)
         | Inr y \<Rightarrow>
             Inr (if transaction_aborted \<and> transactions (run_state y) \<noteq> []
                  then on_state mark_transaction_aborted y else y))"

text \<open>The result carries whether the statement failed; \<open>None\<close> if a role walk does not end.\<close>

fun run_statement ::
  "file_context \<Rightarrow> statement \<Rightarrow> string set \<Rightarrow> statement_checkpoint \<Rightarrow> mutation list \<Rightarrow> pre_state \<Rightarrow> progress
     \<Rightarrow> (string + (bool \<times> pre_state \<times> progress)) option" where
  "run_statement fc st warned cp [] ps p = Some (Inr (False, ps, p))"
| "run_statement fc st warned cp (m # ms) ps p =
     (let s = run_state (pr_run p);
          pre_cascade = pre_cascade_of m s;
          ps1 = capture_pre_state_into s ps
      in case apply_mutation (fc_order fc) pre_cascade m s of
           None \<Rightarrow> None
         | Some (result, t) \<Rightarrow>
             (let tr = \<lparr>tr_mutation = m, tr_result = result, tr_pre_state = ps1, tr_cascade_closure = pre_cascade\<rparr>;
                  p1 = p\<lparr>pr_run := on_state (\<lambda>_. t) (pr_run p)\<rparr>
              in if is_conflict result
                 then (case after_conflict cp (pr_run p1) of
                         Inl error \<Rightarrow> Some (Inl error)
                       | Inr x \<Rightarrow>
                           Some (Inr (True, ps1, evaluate_rules fc st warned tr
                             \<lparr>pr_run = x, pr_violations = [], pr_warned_keys = {}\<rparr>)))
                 else if result = NotExecuted then run_statement fc st warned cp ms ps1 p1
                 else run_statement fc st warned cp ms ps1 (evaluate_rules fc st warned tr p1)))"

fun primary_object :: "mutation \<Rightarrow> (object_kind \<times> string) option" where
  "primary_object (DropTable d) =
     (case dt_ids d of [i] \<Rightarrow> Some (KindTable, object_id_display i) | _ \<Rightarrow> None)"
| "primary_object (Ddl d) = ddl_object d"
| "primary_object _ = None"

definition statement_mutations :: "statement \<Rightarrow> analysis_state \<Rightarrow> mutation list" where
  "statement_mutations st s =
     (let mutations = (case st_resolve st of Some f \<Rightarrow> f s | None \<Rightarrow> [OpaqueMutation UnsupportedStatementOpaque])
      in if st_possibly_slow st
         then mutations @ [CheckTimeouts (case List.map_filter primary_object mutations of [] \<Rightarrow> None | x # _ \<Rightarrow> Some x)]
         else mutations)"

section \<open>Files and chains\<close>

record analysis =
  an_run :: run
  an_pre_state :: pre_state
  an_warned_keys :: "string set"
  an_violations :: "violation list"

definition commits_implicitly :: "bool \<Rightarrow> bool \<Rightarrow> mutation list \<Rightarrow> analysis_state \<Rightarrow> bool" where
  "commits_implicitly failed started_in_transaction mutations s \<longleftrightarrow>
     \<not> failed \<and> \<not> started_in_transaction \<and> \<not> list_ex controls_transaction mutations \<and> transactions s = []"

definition analyze_statement :: "file_context \<Rightarrow> nat \<Rightarrow> statement \<Rightarrow> analysis \<Rightarrow> (string + analysis) option" where
  "analyze_statement fc statement_offset st a =
     (let x = on_state (set_evidence_location (Some (EvidenceLocation (fc_filename fc) (statement_offset + 1)))) (an_run a);
          mutations = statement_mutations st (run_state x);
          started_in_transaction = (transactions (run_state x) \<noteq> [])
      in case run_statement fc st (an_warned_keys a) (capture x mutations) mutations (an_pre_state a)
                \<lparr>pr_run = x, pr_violations = [], pr_warned_keys = {}\<rparr> of
           None \<Rightarrow> None
         | Some (Inl error) \<Rightarrow> Some (Inl error)
         | Some (Inr (failed, ps, p)) \<Rightarrow>
             Some (Inr \<lparr>an_run =
                  (if commits_implicitly failed started_in_transaction mutations (run_state (pr_run p))
                   then on_state (apply_implicit_commit_actions (fc_order fc)) (pr_run p) else pr_run p),
                an_pre_state = ps,
                an_warned_keys = an_warned_keys a \<union> pr_warned_keys p,
                an_violations = an_violations a @ pr_violations p\<rparr>))"

fun analyze_statements :: "file_context \<Rightarrow> nat \<Rightarrow> statement list \<Rightarrow> analysis \<Rightarrow> (string + analysis) option" where
  "analyze_statements fc offset [] a = Some (Inr a)"
| "analyze_statements fc offset (st # sts) a =
     (case analyze_statement fc offset st a of
        None \<Rightarrow> None
      | Some (Inl error) \<Rightarrow> Some (Inl error)
      | Some (Inr b) \<Rightarrow> analyze_statements fc (offset + 1) sts b)"

definition analyze_parsed_file ::
  "config \<Rightarrow> rule list \<Rightarrow> hash_order \<Rightarrow> string \<Rightarrow> string \<Rightarrow> string \<Rightarrow> parsed_file \<Rightarrow> run
     \<Rightarrow> (string list + (violation list \<times> run)) option" where
  "analyze_parsed_file c rules h filename sql original_sql parsed x =
     (if pf_errors parsed \<noteq> [] then Some (Inl (pf_errors parsed))
      else case analyze_statements
             \<lparr>fc_config = c, fc_rules = rules, fc_order = h, fc_filename = filename, fc_sql = sql,
              fc_original_sql = original_sql, fc_file_ignores = file_ignores_of parsed\<rparr> 0 (pf_statements parsed)
             \<lparr>an_run = on_state (set_target_database (target_database c)) x, an_pre_state = pre_state_default,
              an_warned_keys = {}, an_violations = []\<rparr> of
          None \<Rightarrow> None
        | Some (Inl error) \<Rightarrow> Some (Inl [error])
        | Some (Inr a) \<Rightarrow> Some (Inr (an_violations a, on_state (set_evidence_location None) (an_run a))))"

definition contains_range :: "nat \<times> nat \<Rightarrow> nat \<times> nat \<Rightarrow> bool" where
  "contains_range a b \<longleftrightarrow> fst a \<le> fst b \<and> snd b \<le> snd a"

definition statement_index_of :: "statement list \<Rightarrow> (nat \<times> nat) option \<Rightarrow> nat option" where
  "statement_index_of sts rg =
     (case rg of
        None \<Rightarrow> None
      | Some r \<Rightarrow>
          (case List.find (\<lambda>k. contains_range (st_range (sts ! k)) r) [0 ..< length sts] of
             None \<Rightarrow> None
           | Some k \<Rightarrow> Some (k + 1)))"

definition locate ::
  "string \<Rightarrow> string \<Rightarrow> statement list \<Rightarrow> string list \<Rightarrow> nat \<Rightarrow> analysis_state \<Rightarrow> violation \<Rightarrow> nat \<times> report_finding" where
  "locate filename sql sts file_order file_index s v =
     (let index = statement_index_of sts (v_source_range v)
      in (file_index,
          \<lparr>rf_violation = v, rf_location = source_location filename sql (map_option fst (v_source_range v)),
           rf_statement_index = index,
           rf_certainty = certainty_for_statement (log_records (l_evidence (local s))) file_order file_index index
             (is_asserted (effective_pg_version s))\<rparr>))"

text \<open>\<open>parse\<close> is \<^verbatim>\<open>SourceFile::parse\<close> together with the resolution of each statement.\<close>

fun analyze_files ::
  "config \<Rightarrow> rule list \<Rightarrow> hash_order \<Rightarrow> (string \<Rightarrow> parsed_file) \<Rightarrow> string list \<Rightarrow> nat \<Rightarrow> (string \<times> string) list \<Rightarrow> run
     \<Rightarrow> (string list + ((nat \<times> report_finding) list \<times> run)) option" where
  "analyze_files c rules h parse file_order file_index [] x = Some (Inr ([], x))"
| "analyze_files c rules h parse file_order file_index ((filename, sql) # files) x =
     (let normalized_sql = normalize_execute sql;
          parsed = parse normalized_sql
      in case analyze_parsed_file c rules h filename normalized_sql sql parsed x of
           None \<Rightarrow> None
         | Some (Inl errors) \<Rightarrow> Some (Inl errors)
         | Some (Inr (violations, y)) \<Rightarrow>
             (case analyze_files c rules h parse file_order (file_index + 1) files y of
                None \<Rightarrow> None
              | Some (Inl errors) \<Rightarrow> Some (Inl errors)
              | Some (Inr (rest, z)) \<Rightarrow>
                  Some (Inr (map (locate filename normalized_sql (pf_statements parsed) file_order file_index (run_state y))
                    violations @ rest, z))))"

definition analyze_chain_with_locations ::
  "config \<Rightarrow> rule list \<Rightarrow> hash_order \<Rightarrow> (string \<Rightarrow> parsed_file) \<Rightarrow> (string \<times> string) list \<Rightarrow> run
     \<Rightarrow> (string list + (report_finding list \<times> run)) option" where
  "analyze_chain_with_locations c rules h parse files x =
     (case analyze_files c rules h parse (map fst files) 0 files x of
        None \<Rightarrow> None
      | Some (Inl errors) \<Rightarrow> Some (Inl errors)
      | Some (Inr (fs, y)) \<Rightarrow> Some (Inr (sort_findings fs, y)))"

definition analyze_chain_outcome_with_locations ::
  "config \<Rightarrow> rule list \<Rightarrow> hash_order \<Rightarrow> (string \<Rightarrow> parsed_file) \<Rightarrow> (string \<times> string) list \<Rightarrow> run
     \<Rightarrow> (string list + (report_finding analysis_outcome \<times> run)) option" where
  "analyze_chain_outcome_with_locations c rules h parse files x =
     (case analyze_chain_with_locations c rules h parse files x of
        None \<Rightarrow> None
      | Some (Inl errors) \<Rightarrow> Some (Inl errors)
      | Some (Inr (fs, y)) \<Rightarrow>
          Some (Inr (outcome_new fs (l_confidence (local (run_state y))) (log_records (l_evidence (local (run_state y)))), y)))"

section \<open>Rules add evidence only\<close>

text \<open>The state without the transaction stack and without the evidence about the analysis itself.\<close>

definition catalog :: "analysis_state \<Rightarrow> analysis_state" where
  "catalog s = (core s)\<lparr>local := (local (core s))\<lparr>l_evidence := log_default, l_confidence := Exact\<rparr>\<rparr>"

definition evidence_only :: "analysis_state \<Rightarrow> analysis_state \<Rightarrow> bool" where
  "evidence_only s t \<longleftrightarrow> logged s t \<and> catalog t = catalog s"


lemma evidence_only_refl [simp]: "evidence_only s s"
  by (simp add: evidence_only_def)

lemma evidence_only_trans: "evidence_only s t \<Longrightarrow> evidence_only t u \<Longrightarrow> evidence_only s u"
  by (auto simp: evidence_only_def intro: logged_trans)

lemma taint_evidence_only: "evidence_only s (taint c sc s)"
  by (simp add: evidence_only_def taint_logged)
    (simp add: taint_def record_evidence_def mark_tainted_def catalog_def core_def snapshot_defs log_change_def Let_def)

lemma fold_evidence_only:
  assumes "\<And>x p. evidence_only (g p) (g (f x p))"
  shows "evidence_only (g p) (g (fold f xs p))"
  by (induction xs arbitrary: p) (auto intro: evidence_only_trans assms)

lemma accept_violation_run [simp]: "pr_run (accept_violation fc st w v p) = pr_run p"
  by (simp add: accept_violation_def split: option.splits)

lemma accept_violations_run [simp]: "pr_run (fold (accept_violation fc st w) vs p) = pr_run p"
  by (induction vs arbitrary: p) simp_all

lemma run_state_on_state [simp]:
  "run_state (on_state f x) = f (run_state x)" "run_not_evaluated (on_state f x) = run_not_evaluated x"
  by (simp_all add: on_state_def)

lemma record_not_evaluated_state [simp]: "run_state (record_not_evaluated e x) = run_state x"
  by (simp add: record_not_evaluated_def)

lemma rule_violations_evidence:
  "evidence_only (run_state (pr_run p)) (run_state (pr_run (rule_violations fc st w tr rl p)))"
proof -
  have "evidence_only s (fold (taint_missing_capability m ps) cs s)" for s m ps cs
    by (rule fold_evidence_only [where g = "\<lambda>s. s"])
      (simp add: taint_missing_capability_def taint_evidence_only)
  then show ?thesis by (simp add: rule_violations_def Let_def)
qed

lemma evaluate_rules_evidence:
  "evidence_only (run_state (pr_run p)) (run_state (pr_run (evaluate_rules fc st w tr p)))"
  unfolding evaluate_rules_def
proof (rule fold_evidence_only)
  show "evidence_only (run_state (pr_run q)) (run_state (pr_run (evaluate_rule fc st w tr rl q)))" for rl q
    using rule_violations_evidence by (simp add: evaluate_rule_def Let_def split: option.splits)
qed

section \<open>Restoring a checkpoint\<close>

lemma state_clone_frame [simp]:
  "core (state_clone s) = core s" "transactions (state_clone s) = transactions s"
  "l_transaction_aborted (local (state_clone s)) = l_transaction_aborted (local s)"
  "graph_wf (graph_of s) \<Longrightarrow> graph_wf (graph_of (state_clone s))"
  by (simp_all add: state_clone_def core_def graph_wf_clone)

text \<open>
  A checkpoint is good for the rest of a statement that started in \<open>s0\<close> when it is either an unused copy of \<open>s0\<close>, or
  a mark in the undo log and every mutation so far was logged on top of it.
\<close>

fun cp_ok :: "statement_checkpoint \<Rightarrow> mutation list \<Rightarrow> analysis_state \<Rightarrow> analysis_state \<Rightarrow> bool" where
  "cp_ok (Full None) ms s0 s \<longleftrightarrow> False"
| "cp_ok (Full (Some x)) ms s0 s \<longleftrightarrow> run_state x = state_clone s0"
| "cp_ok (TransactionUndo d n) ms s0 s \<longleftrightarrow>
     transaction_undo_checkpoint s0 = Some (d, n) \<and> \<not> list_ex controls_transaction ms \<and> logged s0 s"

lemma capture_ok: "cp_ok (capture x ms) ms (run_state x) (run_state x)"
  by (auto simp: capture_def Let_def split: option.splits bool.splits)

lemma rollback_to_checkpoint:
  assumes "graph_wf (graph_of s0)" "transaction_undo_checkpoint s0 = Some (d, n)" "logged s0 t"
  shows "\<exists>u. rollback_to_transaction_undo_checkpoint d n (with_aborted b t) = Inr u \<and> restores s0 u
    \<and> l_transaction_aborted (local u) = b"
proof -
  obtain e where e: "transactions t = log_on_top e (transactions s0)" "core (rollback_undo_log e t) = core s0"
    "graph_wf (graph_of t)"
    using assms(1,3) by (auto simp: logged_def)
  from assms(2) have s: "transactions s0 \<noteq> []" "d = length (transactions s0)" "n = length (undo_log (last (transactions s0)))"
    by (auto simp: transaction_undo_checkpoint_def split: if_splits)
  have "rollback_to_transaction_undo_checkpoint d n (with_aborted b t) =
      Inr (rollback_undo_log e (with_transactions (transactions s0) (with_aborted b t)))"
    using s by (simp add: rollback_to_transaction_undo_checkpoint_def e(1) log_on_top_def)
  moreover have "core (rollback_undo_log e (with_transactions (transactions s0) (with_aborted b t))) = core s0"
    using e(2) state_journal.unwind_cong [of "with_transactions (transactions s0) (with_aborted b t)" t e]
    by (simp add: rollback_undo_log_def core_def)
  ultimately show ?thesis
    using e(3) unwind_wf [of "with_transactions (transactions s0) (with_aborted b t)" e] s(1)
    by (simp add: rollback_undo_log_def restores_def)
qed

lemma restores_clone: "graph_wf (graph_of s) \<Longrightarrow> (l_transaction_aborted (local s) \<longrightarrow> transactions s \<noteq> []) \<Longrightarrow> restores s (state_clone s)"
  by (simp add: restores_def)

lemma restores_mark: "restores s t \<Longrightarrow> transactions s \<noteq> [] \<Longrightarrow> restores s (mark_transaction_aborted t)"
  by (simp add: restores_def mark_transaction_aborted_def)

text \<open>
  After a conflict the checkpoint is restored, and a transaction that was open is marked aborted if the
  conflict aborted it.
\<close>

lemma after_conflict_restores:
  assumes "graph_wf (graph_of s0)" "l_transaction_aborted (local s0) \<longrightarrow> transactions s0 \<noteq> []"
    and "cp_ok cp ms s0 u" "run_state x = with_aborted b u"
  shows "\<exists>y. after_conflict cp x = Inr y \<and> restores s0 (run_state y)
    \<and> (b \<and> transactions s0 \<noteq> [] \<longrightarrow> l_transaction_aborted (local (run_state y)))"
proof -
  obtain y where y: "fst (restore cp x) = Inr y" "restores s0 (run_state y)"
    "transactions (run_state y) = transactions s0"
  proof (cases cp)
    case (Full c)
    with assms(3) obtain y where "cp = Full (Some y)" "run_state y = state_clone s0" by (cases c) auto
    then show ?thesis using that [of y] restores_clone [OF assms(1,2)] by simp
  next
    case (TransactionUndo d n)
    with assms(3) have "transaction_undo_checkpoint s0 = Some (d, n)" "logged s0 u" by auto
    from rollback_to_checkpoint [OF assms(1) this, of b] obtain v
      where v: "rollback_to_transaction_undo_checkpoint d n (run_state x) = Inr v" "restores s0 v"
      by (auto simp: assms(4))
    then have "fst (restore cp x) = Inr (x\<lparr>run_state := v\<rparr>)" "transactions v = transactions s0"
      using TransactionUndo by (simp_all add: restores_def)
    then show ?thesis using that v(2) by simp
  qed
  have b: "l_transaction_aborted (local (run_state x)) = b" by (simp add: assms(4))
  show ?thesis
    using y(2,3) restores_mark [OF y(2)]
    by (auto simp: after_conflict_def b y(1) mark_transaction_aborted_def)
qed

section \<open>A statement as a whole\<close>

lemma cp_ok_step:
  assumes "cp_ok cp (m # ms) s0 s" "\<not> controls_transaction m \<Longrightarrow> logged s t"
  shows "cp_ok cp ms s0 t"
  using assms by (cases "(cp, ms, s0, t)" rule: cp_ok.cases) (auto intro: logged_trans)

lemma apply_mutation_shape:
  assumes "apply_mutation h pre m s = Some (r, t)" "cp_ok cp (m # ms) s0 s"
  shows "\<exists>u. t = with_aborted (l_transaction_aborted (local t)) u \<and> cp_ok cp ms s0 u \<and> (\<not> is_conflict r \<longrightarrow> t = u)
     \<and> (is_conflict r \<and> transactions t \<noteq> [] \<longrightarrow> l_transaction_aborted (local t))"
  using assms(1)
proof (cases rule: apply_mutation_cases)
  case skipped
  then show ?thesis using cp_ok_step [OF assms(2), of s] by (intro exI [of _ s]) simp
next
  case (run u)
  have "cp_ok cp ms s0 u" by (rule cp_ok_step [OF assms(2) apply_inner_logged [OF run(1)]])
  then show ?thesis using run(2) by (intro exI [of _ u]) simp
qed

lemma evaluate_rules_reachable:
  "tx_reachable h (run_state (pr_run p)) \<Longrightarrow> tx_reachable h (run_state (pr_run (evaluate_rules fc st w tr p)))"
  using evaluate_rules_evidence [of p fc st w tr] by (auto simp: evidence_only_def intro: tx_reachable.logged_step)

lemma cp_ok_evaluate:
  "cp_ok cp ms s0 (run_state (pr_run p)) \<Longrightarrow> cp_ok cp ms s0 (run_state (pr_run (evaluate_rules fc st w tr p)))"
  using evaluate_rules_evidence [of p fc st w tr]
  by (cases "(cp, ms, s0, run_state (pr_run p))" rule: cp_ok.cases) (auto simp: evidence_only_def intro: logged_trans)

lemma apply_mutation_depth:
  assumes "tx_reachable h s" "apply_mutation h pre m s = Some (r, t)" "\<not> controls_transaction m"
  shows "length (transactions t) = length (transactions s)"
  using assms(2)
proof (cases rule: apply_mutation_cases)
  case (run u)
  obtain ms where "tx_inv ms s" using tx_reachable_inv [OF assms(1)] by blast
  with logged_keeps_depth [OF apply_inner_logged [OF run(1) assms(3)]] show ?thesis
    by (simp add: run(2) tx_inv_def)
qed simp

lemma evaluate_rules_depth:
  assumes "tx_reachable h (run_state (pr_run p))"
  shows "length (transactions (run_state (pr_run (evaluate_rules fc st w tr p)))) = length (transactions (run_state (pr_run p)))"
proof -
  obtain ms where "tx_inv ms (run_state (pr_run p))" using tx_reachable_inv [OF assms] by blast
  then show ?thesis
    using evaluate_rules_evidence [of p fc st w tr] logged_keeps_depth
    by (auto simp: evidence_only_def tx_inv_def)
qed

lemma run_statement_result:
  assumes "tx_reachable h s0" "fc_order fc = h"
    and "tx_reachable h (run_state (pr_run p))" "cp_ok cp ms s0 (run_state (pr_run p))"
    and "run_statement fc st w cp ms ps p = Some res"
    and "quiet \<longrightarrow> \<not> list_ex controls_transaction ms \<and> length (transactions (run_state (pr_run p))) = length (transactions s0)"
  shows "\<exists>failed ps' p'. res = Inr (failed, ps', p') \<and> tx_reachable h (run_state (pr_run p'))
    \<and> (failed \<longrightarrow> (\<exists>y. restores s0 y \<and> evidence_only y (run_state (pr_run p'))
         \<and> (quiet \<and> transactions s0 \<noteq> [] \<longrightarrow> l_transaction_aborted (local y))))"
  using assms(3-6)
proof (induction ms arbitrary: ps p)
  case Nil
  then show ?case by auto
next
  case (Cons m ms)
  let ?s = "run_state (pr_run p)"
  obtain ms0 where inv0: "tx_inv ms0 s0" using tx_reachable_inv [OF assms(1)] by blast
  from Cons.prems(3) obtain r t where rt: "apply_mutation h (pre_cascade_of m ?s) m ?s = Some (r, t)"
    using assms(2) by (auto simp: Let_def split: option.splits)
  let ?tr = "\<lparr>tr_mutation = m, tr_result = r, tr_pre_state = capture_pre_state_into ?s ps, tr_cascade_closure = pre_cascade_of m ?s\<rparr>"
  let ?p1 = "p\<lparr>pr_run := on_state (\<lambda>_. t) (pr_run p)\<rparr>"
  have reach: "tx_reachable h (run_state (pr_run ?p1))" using tx_reachable.statement [OF Cons.prems(1) rt] by simp
  obtain u where u: "t = with_aborted (l_transaction_aborted (local t)) u" "cp_ok cp ms s0 u" "\<not> is_conflict r \<longrightarrow> t = u"
    "is_conflict r \<and> transactions t \<noteq> [] \<longrightarrow> l_transaction_aborted (local t)"
    using apply_mutation_shape [OF rt Cons.prems(2)] by blast
  have depth: "length (transactions t) = length (transactions s0)" if quiet
    using that Cons.prems(4) apply_mutation_depth [OF Cons.prems(1) rt] by simp
  show ?case
  proof (cases "is_conflict r")
    case True
    obtain y where y: "after_conflict cp (pr_run ?p1) = Inr y" "restores s0 (run_state y)"
      "l_transaction_aborted (local t) \<and> transactions s0 \<noteq> [] \<longrightarrow> l_transaction_aborted (local (run_state y))"
      using after_conflict_restores [OF _ _ u(2), of "pr_run ?p1" "l_transaction_aborted (local t)"] inv0 u(1)
      by (auto simp: tx_inv_def)
    let ?q = "evaluate_rules fc st w ?tr \<lparr>pr_run = y, pr_violations = [], pr_warned_keys = {}\<rparr>"
    have "res = Inr (True, capture_pre_state_into ?s ps, ?q)"
      using Cons.prems(3) True y(1) rt assms(2) by (simp add: Let_def)
    moreover have "tx_reachable h (run_state (pr_run ?q))"
      using evaluate_rules_reachable [of h "\<lparr>pr_run = y, pr_violations = [], pr_warned_keys = {}\<rparr>"]
        tx_reachable.restored [OF assms(1) y(2)] by simp
    moreover have "evidence_only (run_state y) (run_state (pr_run ?q))"
      using evaluate_rules_evidence [of "\<lparr>pr_run = y, pr_violations = [], pr_warned_keys = {}\<rparr>"] by simp
    moreover have "l_transaction_aborted (local (run_state y))"
      if quiet "transactions s0 \<noteq> []"
      using depth [OF that(1)] that(2) True u(4) y(3) by (metis length_0_conv)
    ultimately show ?thesis using y(2) by blast
  next
    case False
    then have t: "cp_ok cp ms s0 (run_state (pr_run ?p1))" using u by simp
    show ?thesis
    proof (cases "r = NotExecuted")
      case True
      then have "run_statement fc st w cp ms (capture_pre_state_into ?s ps) ?p1 = Some res"
        using Cons.prems(3) rt assms(2) by (simp add: Let_def)
      from Cons.IH [OF reach t this] depth Cons.prems(4) show ?thesis by simp
    next
      case ne: False
      let ?q = "evaluate_rules fc st w ?tr ?p1"
      have "run_statement fc st w cp ms (capture_pre_state_into ?s ps) ?q = Some res"
        using Cons.prems(3) rt assms(2) False ne by (simp add: Let_def)
      moreover have "length (transactions (run_state (pr_run ?q))) = length (transactions t)"
        using evaluate_rules_depth [OF reach] by simp
      ultimately show ?thesis
        using Cons.IH [OF evaluate_rules_reachable [OF reach] cp_ok_evaluate [OF t]] depth Cons.prems(4) by simp
    qed
  qed
qed

section \<open>The role catalogue stays finite\<close>

text \<open>What every step of the end of a transaction keeps.\<close>

definition idle_like :: "analysis_state \<Rightarrow> analysis_state \<Rightarrow> bool" where
  "idle_like s u \<longleftrightarrow> graph_wf (graph_of u) \<and> transactions u = []
     \<and> l_transaction_aborted (local u) = l_transaction_aborted (local s) \<and> (roles_finite u \<longleftrightarrow> roles_finite s)"

lemma on_commit_action_idle: "idle_like s u \<Longrightarrow> idle_like s (apply_on_commit_action h a u)"
proof -
  assume u: "idle_like s u"
  have l: "logged u (snd (apply_drop_table h d None u))" for d by (rule apply_drop_table_logged)
  have "idle_like s (snd (apply_drop_table h d None u))" for d
    using u l [of d] logged_roles [OF l [of d]] by (auto simp: idle_like_def logged_def log_on_top_def)
  then show ?thesis using u
    by (auto simp: apply_on_commit_action_def idle_like_def split: prod.splits on_commit_action.splits option.splits overlay.splits)
qed

lemma on_commit_actions_idle: "idle_like s u \<Longrightarrow> idle_like s (apply_on_commit_actions h u)"
proof -
  have "idle_like s v \<Longrightarrow> idle_like s (fold (apply_on_commit_action h) xs v)" for xs v
    by (induction xs arbitrary: v) (simp_all add: on_commit_action_idle)
  then show "idle_like s u \<Longrightarrow> idle_like s (apply_on_commit_actions h u)" by (simp add: apply_on_commit_actions_def)
qed

lemma implicit_commit_reachable:
  assumes "tx_reachable h s"
  shows "tx_reachable h (apply_implicit_commit_actions h s)"
    and "roles_finite (apply_implicit_commit_actions h s) \<longleftrightarrow> roles_finite s"
proof -
  obtain ms where "tx_inv ms s" using tx_reachable_inv [OF assms] by blast
  then have "idle_like s s" if "transactions s = []" using that by (simp add: idle_like_def tx_inv_def)
  then have i: "idle_like s (apply_on_commit_actions h s)" if "transactions s = []"
    using that on_commit_actions_idle by blast
  show "tx_reachable h (apply_implicit_commit_actions h s)"
    using i assms by (auto simp: apply_implicit_commit_actions_def idle_like_def intro: tx_reachable.start)
  show "roles_finite (apply_implicit_commit_actions h s) \<longleftrightarrow> roles_finite s"
    using i by (auto simp: apply_implicit_commit_actions_def idle_like_def)
qed

lemma roles_frames [simp]:
  "l_roles (local (restore_persistent_role_context s)) = l_roles (local s)"
  "l_roles (local (reopen chain s)) = l_roles (local s)"
  "l_roles (local (taint c sc s)) = l_roles (local s)"
  by (simp_all add: restore_persistent_role_context_def refresh_role_sensitive_search_path_def reopen_def
      taint_def record_evidence_def mark_tainted_def snapshot_defs log_change_def Let_def)

lemma rollback_all_roles: "roles_finite (rollback_all s) \<longleftrightarrow> roles_finite s"
  using rollback_all_unwind [of s] core_roles [of "rollback_all s"] unwind_roles by metis

lemma commit_roles:
  assumes "graph_wf (graph_of s)"
  shows "roles_finite (snd (apply_commit_transaction h chain s)) \<longleftrightarrow> roles_finite s"
proof -
  let ?s1 = "restore_persistent_role_context (with_transactions [] s)"
  have "idle_like ?s1 ?s1" using assms by (simp add: idle_like_def frame_simps)
  then have "idle_like ?s1 (apply_on_commit_actions h ?s1)" by (rule on_commit_actions_idle)
  then show ?thesis by (simp add: apply_commit_transaction_def Let_def idle_like_def rollback_all_roles)
qed

lemma control_roles:
  assumes "apply_inner h pre m s = Some (r, t)" "controls_transaction m" "graph_wf (graph_of s)"
  shows "roles_finite t \<longleftrightarrow> roles_finite s"
proof -
  have rb: "roles_finite (snd (apply_rollback_to_savepoint n s)) \<longleftrightarrow> roles_finite s" for n
  proof (cases "rposition (is_named_savepoint n) (transactions s)")
    case None
    then show ?thesis by (simp add: apply_rollback_to_savepoint_def missing_savepoint_def Let_def)
  qed (simp add: rollback_to_state unwind_roles)
  have rel: "roles_finite (snd (apply_release_savepoint n s)) \<longleftrightarrow> roles_finite s" for n
    by (simp add: apply_release_savepoint_def missing_savepoint_def Let_def split: option.splits)
  show ?thesis
    using assms(1,2) rb rel commit_roles [OF assms(3), of h]
    by (cases m) (auto simp: apply_begin_transaction_def apply_savepoint_def apply_rollback_transaction_def rollback_all_roles
        dest!: arg_cong [of _ _ snd] split: if_splits)
qed

lemma apply_mutation_roles:
  assumes "apply_mutation h pre m s = Some (r, t)" "graph_wf (graph_of s)"
  shows "roles_finite t \<longleftrightarrow> roles_finite s"
  using assms(1)
proof (cases rule: apply_mutation_cases)
  case (run u)
  have "roles_finite u \<longleftrightarrow> roles_finite s"
    using control_roles [OF run(1) _ assms(2)] logged_roles [OF apply_inner_logged [OF run(1)] assms(2)] by blast
  then show ?thesis by (simp add: run(2))
qed simp

section \<open>Properties of the statement loop\<close>

lemma run_statement_total:
  assumes "tx_reachable h (run_state (pr_run p))" "roles_finite (run_state (pr_run p))" "fc_order fc = h"
    and "tx_reachable h s0" "roles_finite s0" "cp_ok cp ms s0 (run_state (pr_run p))"
  shows "\<exists>failed ps' p'. run_statement fc st w cp ms ps p = Some (Inr (failed, ps', p')) \<and> roles_finite (run_state (pr_run p'))"
  using assms(1,2,6)
proof (induction ms arbitrary: ps p)
  case (Cons m ms)
  let ?s = "run_state (pr_run p)"
  have wf: "graph_wf (graph_of u)" if "tx_reachable h u" for u
    using tx_reachable_inv [OF that] by (auto simp: tx_inv_def)
  have rules: "roles_finite (run_state (pr_run (evaluate_rules fc st w tr q))) \<longleftrightarrow> roles_finite (run_state (pr_run q))"
    if "tx_reachable h (run_state (pr_run q))" for q tr
    using evaluate_rules_evidence [of q fc st w tr] wf [OF that] by (auto simp: evidence_only_def dest: logged_roles)
  obtain r t where rt: "apply_mutation h (pre_cascade_of m ?s) m ?s = Some (r, t)"
    using apply_mutation_result [OF Cons.prems(2) wf [OF Cons.prems(1)]] by blast
  let ?p1 = "p\<lparr>pr_run := on_state (\<lambda>_. t) (pr_run p)\<rparr>"
  have reach: "tx_reachable h (run_state (pr_run ?p1))" using tx_reachable.statement [OF Cons.prems(1) rt] by simp
  have fin: "roles_finite (run_state (pr_run ?p1))"
    using apply_mutation_roles [OF rt wf [OF Cons.prems(1)]] Cons.prems(2) by simp
  obtain u where u: "t = with_aborted (l_transaction_aborted (local t)) u" "cp_ok cp ms s0 u" "\<not> is_conflict r \<longrightarrow> t = u"
    using apply_mutation_shape [OF rt Cons.prems(3)] by blast
  show ?case
  proof (cases "is_conflict r")
    case True
    obtain y where y: "after_conflict cp (pr_run ?p1) = Inr y" "restores s0 (run_state y)"
      using after_conflict_restores [OF wf [OF assms(4)] _ u(2), of "pr_run ?p1" "l_transaction_aborted (local t)"]
        tx_reachable_inv [OF assms(4)] u(1) by (auto simp: tx_inv_def)
    have "roles_finite (run_state y)" using y(2) core_roles assms(5) by (metis restores_def)
    moreover have "tx_reachable h (run_state y)" by (rule tx_reachable.restored [OF assms(4) y(2)])
    ultimately show ?thesis using True y(1) rt assms(3) rules by (auto simp: Let_def)
  next
    case False
    then have t: "cp_ok cp ms s0 (run_state (pr_run ?p1))" using u by simp
    show ?thesis
      using False rt assms(3) Cons.IH [OF reach fin t]
        Cons.IH [OF evaluate_rules_reachable [OF reach] _ cp_ok_evaluate [OF t]] rules [OF reach] fin
      by (simp add: Let_def)
  qed
qed auto

definition fresh_progress :: "run \<Rightarrow> progress" where
  "fresh_progress x = \<lparr>pr_run = x, pr_violations = [], pr_warned_keys = {}\<rparr>"


lemma analyze_statement_ok:
  assumes "tx_reachable h (run_state (an_run a))" "roles_finite (run_state (an_run a))" "fc_order fc = h"
  shows "\<exists>b. analyze_statement fc k st a = Some (Inr b) \<and> tx_reachable h (run_state (an_run b)) \<and> roles_finite (run_state (an_run b))"
proof -
  define x where "x = on_state (set_evidence_location (Some (EvidenceLocation (fc_filename fc) (k + 1)))) (an_run a)"
  define ms where "ms = statement_mutations st (run_state x)"
  have reach: "tx_reachable h (run_state x)"
    using tx_reachable.logged_step [OF assms(1) set_evidence_location_logged] by (simp add: x_def)
  have fin: "roles_finite (run_state x)" using assms(2) by (simp add: x_def set_evidence_location_def)
  have cp: "cp_ok (capture x ms) ms (run_state x) (run_state (pr_run (fresh_progress x)))"
    using capture_ok by (simp add: fresh_progress_def)
  obtain failed ps' p' where p: "run_statement fc st (an_warned_keys a) (capture x ms) ms (an_pre_state a) (fresh_progress x) =
      Some (Inr (failed, ps', p'))" "roles_finite (run_state (pr_run p'))"
    using run_statement_total [OF _ _ assms(3) reach fin cp, of "st" "an_warned_keys a" "an_pre_state a"] reach fin
    by (auto simp: fresh_progress_def)
  have r: "tx_reachable h (run_state (pr_run p'))"
    using run_statement_result [OF reach assms(3) _ cp p(1), of False] reach by (auto simp: fresh_progress_def)
  show ?thesis
    unfolding analyze_statement_def Let_def x_def [symmetric] ms_def [symmetric] fresh_progress_def [symmetric]
    using p r implicit_commit_reachable [OF r] assms(3) by simp
qed

lemma analyze_statements_ok:
  assumes "tx_reachable h (run_state (an_run a))" "roles_finite (run_state (an_run a))" "fc_order fc = h"
  shows "\<exists>b. analyze_statements fc k sts a = Some (Inr b) \<and> tx_reachable h (run_state (an_run b)) \<and> roles_finite (run_state (an_run b))"
  using assms
proof (induction sts arbitrary: a k)
  case (Cons st sts)
  obtain b where b: "analyze_statement fc k st a = Some (Inr b)" "tx_reachable h (run_state (an_run b))"
    "roles_finite (run_state (an_run b))"
    using analyze_statement_ok [OF Cons.prems] by blast
  then show ?case using Cons.IH [OF b(2,3) Cons.prems(3), of "k + 1"] by simp
qed auto

lemma analyze_parsed_file_ok:
  assumes "tx_reachable h (run_state x)" "roles_finite (run_state x)"
  shows "analyze_parsed_file c rules h f sql orig parsed x = Some (Inl (pf_errors parsed)) \<and> pf_errors parsed \<noteq> []
    \<or> (\<exists>vs y. analyze_parsed_file c rules h f sql orig parsed x = Some (Inr (vs, y)) \<and> pf_errors parsed = []
         \<and> tx_reachable h (run_state y) \<and> roles_finite (run_state y))"
proof (cases "pf_errors parsed = []")
  case True
  let ?fc = "\<lparr>fc_config = c, fc_rules = rules, fc_order = h, fc_filename = f, fc_sql = sql,
              fc_original_sql = orig, fc_file_ignores = file_ignores_of parsed\<rparr>"
  let ?a = "\<lparr>an_run = on_state (set_target_database (target_database c)) x, an_pre_state = pre_state_default,
              an_warned_keys = {}, an_violations = []\<rparr>"
  obtain b where b: "analyze_statements ?fc 0 (pf_statements parsed) ?a = Some (Inr b)"
    "tx_reachable h (run_state (an_run b))" "roles_finite (run_state (an_run b))"
    using analyze_statements_ok [of h ?a ?fc 0 "pf_statements parsed"] tx_reachable.configured [OF assms(1)] assms(2)
    by (auto simp: set_target_database_def)
  moreover have "tx_reachable h (set_evidence_location None (run_state (an_run b)))"
    by (rule tx_reachable.logged_step [OF b(2) set_evidence_location_logged])
  ultimately show ?thesis using True by (simp add: analyze_parsed_file_def set_evidence_location_def)
qed (simp add: analyze_parsed_file_def)

lemma analyze_files_ok:
  assumes "tx_reachable h (run_state x)" "roles_finite (run_state x)"
  shows "(\<exists>f \<in> set files. pf_errors (parse (normalize_execute (snd f))) \<noteq> []
        \<and> analyze_files c rules h parse file_order k files x = Some (Inl (pf_errors (parse (normalize_execute (snd f))))))
    \<or> (\<exists>fs y. analyze_files c rules h parse file_order k files x = Some (Inr (fs, y))
         \<and> (\<forall>f \<in> set files. pf_errors (parse (normalize_execute (snd f))) = [])
         \<and> tx_reachable h (run_state y) \<and> roles_finite (run_state y))"
  using assms
proof (induction files arbitrary: x k)
  case (Cons f files)
  obtain name sql where f: "f = (name, sql)" by (cases f)
  let ?parsed = "parse (normalize_execute sql)"
  consider (bad) "analyze_parsed_file c rules h name (normalize_execute sql) sql ?parsed x = Some (Inl (pf_errors ?parsed))"
      "pf_errors ?parsed \<noteq> []"
    | (good) vs y where "analyze_parsed_file c rules h name (normalize_execute sql) sql ?parsed x = Some (Inr (vs, y))"
      "pf_errors ?parsed = []" "tx_reachable h (run_state y)" "roles_finite (run_state y)"
    using analyze_parsed_file_ok [OF Cons.prems, of c rules name "normalize_execute sql" sql ?parsed] by blast
  then show ?case
  proof cases
    case bad
    then show ?thesis by (simp add: f Let_def)
  next
    case good
    from Cons.IH [OF good(3,4), of "k + 1"] good(1,2) show ?thesis
      by (elim disjE bexE exE conjE) (simp_all add: f Let_def, blast?)
  qed
qed simp

text \<open>
  C4. The analysis of a migration chain always ends with a report, or with the parse errors of one of
  its files: with finitely many roles no statement, whatever its mutations and whatever the rules
  report, makes the analysis diverge or fail to restore a checkpoint. The state after the chain is
  one that the transaction machine reaches.\<close>

theorem analyze_chain_total:
  assumes "tx_reachable h (run_state x)" "finite (dom (l_roles (local (run_state x))))"
  shows "(\<exists>f \<in> set files. pf_errors (parse (normalize_execute (snd f))) \<noteq> []
        \<and> analyze_chain_with_locations c rules h parse files x = Some (Inl (pf_errors (parse (normalize_execute (snd f))))))
    \<or> (\<exists>fs y. analyze_chain_with_locations c rules h parse files x = Some (Inr (fs, y))
         \<and> (\<forall>f \<in> set files. pf_errors (parse (normalize_execute (snd f))) = [])
         \<and> tx_reachable h (run_state y) \<and> finite (dom (l_roles (local (run_state y)))))"
  using analyze_files_ok [OF assms, of files parse c rules "map fst files" 0]
  by (auto simp: analyze_chain_with_locations_def)

section \<open>Findings are reported once\<close>

definition is_suppression :: "violation \<Rightarrow> bool" where
  "is_suppression v \<longleftrightarrow> v_rule_id v = ''inline-suppression-disabled''"

definition dedup_keys :: "violation list \<Rightarrow> string list" where
  "dedup_keys vs = List.map_filter v_dedup_key (filter (\<lambda>v. \<not> is_suppression v) vs)"

definition once :: "string set \<Rightarrow> progress \<Rightarrow> bool" where
  "once w p \<longleftrightarrow> distinct (dedup_keys (pr_violations p)) \<and> set (dedup_keys (pr_violations p)) \<subseteq> pr_warned_keys p
     \<and> pr_warned_keys p \<inter> w = {}"

definition proper_rule :: "rule \<Rightarrow> bool" where
  "proper_rule rl \<longleftrightarrow> (\<forall>ctx. \<forall>v \<in> set (rule_evaluate rl ctx). \<not> is_suppression v)"

lemma dedup_keys_simps [simp]:
  "dedup_keys [] = []" "dedup_keys (vs @ us) = dedup_keys vs @ dedup_keys us"
  "dedup_keys [v] = (if is_suppression v then [] else case v_dedup_key v of Some k \<Rightarrow> [k] | None \<Rightarrow> [])"
  by (simp_all add: dedup_keys_def List.map_filter_def split: option.splits)

lemma with_range_sql [simp]:
  "v_dedup_key (with_range st v) = v_dedup_key v" "v_rule_id (with_range st v) = v_rule_id v"
  "v_dedup_key (with_sql fc st v) = v_dedup_key v" "v_rule_id (with_sql fc st v) = v_rule_id v"
  by (simp_all add: with_range_def with_sql_def split: option.splits)

lemma accept_once: "\<not> is_suppression v \<Longrightarrow> once w p \<Longrightarrow> once w (accept_violation fc st w v p)"
  by (auto simp: once_def accept_violation_def is_suppression_def split: option.splits)

lemma accept_all_once:
  "\<forall>v \<in> set vs. \<not> is_suppression v \<Longrightarrow> once w p \<Longrightarrow> once w (fold (accept_violation fc st w) vs p)"
  by (induction vs arbitrary: p) (simp_all add: accept_once)

lemma evaluate_rule_once:
  assumes "proper_rule rl" "once w p"
  shows "once w (evaluate_rule fc st w tr rl p)"
proof -
  have run: "once w (q\<lparr>pr_run := x\<rparr>) \<longleftrightarrow> once w q" for q x by (simp add: once_def)
  have "once w (rule_violations fc st w tr rl q)" if "once w q" for q
    using assms(1) that run by (simp add: rule_violations_def Let_def accept_all_once proper_rule_def)
  moreover have "once w (p\<lparr>pr_violations := pr_violations p @ [suppression_disabled i]\<rparr>)" for i
    using assms(2) by (simp add: once_def is_suppression_def suppression_disabled_def)
  ultimately show ?thesis using assms(2) run by (simp add: evaluate_rule_def Let_def split: option.splits)
qed

lemma evaluate_rules_once:
  assumes "\<forall>rl \<in> set (fc_rules fc). proper_rule rl" "once w p"
  shows "once w (evaluate_rules fc st w tr p)"
proof -
  have "\<forall>rl \<in> set rls. proper_rule rl \<Longrightarrow> once w q \<Longrightarrow> once w (fold (evaluate_rule fc st w tr) rls q)" for rls q
    by (induction rls arbitrary: q) (simp_all add: evaluate_rule_once)
  with assms show ?thesis by (simp add: evaluate_rules_def)
qed

lemma run_statement_once:
  assumes "\<forall>rl \<in> set (fc_rules fc). proper_rule rl" "once w p"
    and "run_statement fc st w cp ms ps p = Some (Inr (failed, ps', p'))"
  shows "once w p'"
  using assms(2,3)
proof (induction ms arbitrary: ps p)
  case (Cons m ms)
  have run: "once w (q\<lparr>pr_run := x\<rparr>) \<longleftrightarrow> once w q" for q x by (simp add: once_def)
  have fresh: "once w \<lparr>pr_run = x, pr_violations = [], pr_warned_keys = {}\<rparr>" for x by (simp add: once_def)
  let ?s = "run_state (pr_run p)"
  obtain r t where rt: "apply_mutation (fc_order fc) (pre_cascade_of m ?s) m ?s = Some (r, t)"
    using Cons.prems(2) by (auto simp: Let_def split: option.splits)
  let ?p1 = "p\<lparr>pr_run := on_state (\<lambda>_. t) (pr_run p)\<rparr>"
  have p1: "once w ?p1" using Cons.prems(1) run by simp
  consider (conflict) "is_conflict r" | (skip) "\<not> is_conflict r" "r = NotExecuted" | (ran) "\<not> is_conflict r" "r \<noteq> NotExecuted"
    by blast
  then show ?case
  proof cases
    case conflict
    then show ?thesis
      using Cons.prems(2) rt evaluate_rules_once [OF assms(1) fresh] by (auto simp: Let_def split: sum.splits)
  next
    case skip
    then show ?thesis using Cons.prems(2) rt Cons.IH [OF p1] by (simp add: Let_def)
  next
    case ran
    then show ?thesis
      using Cons.prems(2) rt Cons.IH [OF evaluate_rules_once [OF assms(1) p1]] by (simp add: Let_def)
  qed
qed simp

definition once_so_far :: "analysis \<Rightarrow> bool" where
  "once_so_far a \<longleftrightarrow> distinct (dedup_keys (an_violations a)) \<and> set (dedup_keys (an_violations a)) \<subseteq> an_warned_keys a"

lemma analyze_statement_once:
  assumes "\<forall>rl \<in> set (fc_rules fc). proper_rule rl" "once_so_far a" "analyze_statement fc k st a = Some (Inr b)"
  shows "once_so_far b"
proof -
  obtain cp ms x failed ps p where p: "run_statement fc st (an_warned_keys a) cp ms (an_pre_state a) \<lparr>pr_run = x, pr_violations = [], pr_warned_keys = {}\<rparr>
      = Some (Inr (failed, ps, p))"
    "an_violations b = an_violations a @ pr_violations p" "an_warned_keys b = an_warned_keys a \<union> pr_warned_keys p"
    using assms(3) by (auto simp: analyze_statement_def Let_def split: option.splits sum.splits)
  have "once (an_warned_keys a) p" by (rule run_statement_once [OF assms(1) _ p(1)]) (simp add: once_def)
  then show ?thesis using assms(2) p(2,3) by (auto simp: once_so_far_def once_def)
qed

lemma analyze_statements_once:
  assumes "\<forall>rl \<in> set (fc_rules fc). proper_rule rl" "once_so_far a" "analyze_statements fc k sts a = Some (Inr b)"
  shows "once_so_far b"
  using assms(2,3)
  by (induction sts arbitrary: a k) (auto split: option.splits sum.splits dest: analyze_statement_once [OF assms(1)])

text \<open>
  C10. A finding that carries a grouping key is reported once per file: across all statements of a
  file, and across failed statements whose findings were withdrawn, no key occurs twice among the
  findings of the rules.\<close>

theorem keyed_findings_reported_once:
  assumes "\<forall>rl \<in> set rules. \<forall>ctx. \<forall>v \<in> set (rule_evaluate rl ctx). v_rule_id v \<noteq> ''inline-suppression-disabled''"
    and "analyze_parsed_file c rules h f sql orig parsed x = Some (Inr (vs, y))"
  shows "distinct (List.map_filter v_dedup_key (filter (\<lambda>v. v_rule_id v \<noteq> ''inline-suppression-disabled'') vs))"
proof -
  let ?fc = "\<lparr>fc_config = c, fc_rules = rules, fc_order = h, fc_filename = f, fc_sql = sql,
              fc_original_sql = orig, fc_file_ignores = file_ignores_of parsed\<rparr>"
  let ?a = "\<lparr>an_run = on_state (set_target_database (target_database c)) x, an_pre_state = pre_state_default,
              an_warned_keys = {}, an_violations = []\<rparr>"
  obtain b where "analyze_statements ?fc 0 (pf_statements parsed) ?a = Some (Inr b)" "vs = an_violations b"
    using assms(2) by (auto simp: analyze_parsed_file_def split: if_splits option.splits sum.splits)
  moreover have "\<forall>rl \<in> set (fc_rules ?fc). proper_rule rl"
    using assms(1) by (simp add: proper_rule_def is_suppression_def)
  moreover have "once_so_far ?a" by (simp add: once_so_far_def)
  ultimately have "once_so_far b" using analyze_statements_once by blast
  then show ?thesis using \<open>vs = an_violations b\<close> by (simp add: once_so_far_def dedup_keys_def is_suppression_def)
qed

text \<open>
  The finding about a forbidden inline suppression is not grouped: it carries a key, but the
  key is never consulted, so a directive that names a rule is reported again for every mutation
  that is analyzed.\<close>

theorem suppression_finding_repeats:
  assumes "fc_rules fc = [rl]" "rule_id rl \<in> fc_file_ignores fc" "\<not> allow_inline_suppressions (fc_config fc)"
  shows "pr_violations (evaluate_rules fc st w tr2 (evaluate_rules fc st w tr1 p)) =
     pr_violations p @ [suppression_disabled (rule_id rl), suppression_disabled (rule_id rl)]
   \<and> v_dedup_key (suppression_disabled (rule_id rl)) \<noteq> None"
  using assms by (simp add: evaluate_rules_def evaluate_rule_def suppression_disabled_def)

section \<open>Evidence that does not survive, and evidence that should not be there\<close>

lemma taint_recorded:
  "\<exists>r \<in> set (log_records (l_evidence (local (taint c sc s)))). rec_code r = c \<and> rec_scope r = sc"
proof -
  let ?r = "located (l_current_evidence_location (local s)) (evidence_record_new c sc)"
  have "rec_code ?r = c" "rec_scope ?r = sc" by (simp_all add: located_def evidence_record_new_def)
  moreover have "?r \<in> set (log_records (l_evidence (local (taint c sc s))))"
    by (simp add: taint_def record_evidence_def mark_tainted_def snapshot_defs log_change_def log_contains_def Let_def)
  ultimately show ?thesis by blast
qed

text \<open>
  Evidence recorded by a handler that reports a conflict is lost: \<^verbatim>\<open>SAVEPOINT\<close> outside a
  transaction records that the transaction state is unknown, but the engine restores the
  checkpoint of the statement, and the log is again what it was. No rule that needs the transaction
  state ever sees the record.\<close>

theorem conflict_evidence_is_lost:
  assumes "transactions (run_state x) = []" "\<not> l_transaction_aborted (local (run_state x))" "fc_rules fc = []"
  shows "\<exists>r t ps' p'. apply_mutation (fc_order fc) None (SavepointMutation n) (run_state x) = Some (r, t)
    \<and> is_conflict r \<and> \<not> available TransactionStateCapability t
    \<and> run_statement fc st w (capture x [SavepointMutation n]) [SavepointMutation n] ps (fresh_progress x) = Some (Inr (True, ps', p'))
    \<and> l_evidence (local (run_state (pr_run p'))) = l_evidence (local (run_state x))"
proof -
  let ?t = "taint TransactionStateUnknown ChainScope (run_state x)"
  obtain r where r: "apply_savepoint n (run_state x) = (r, ?t)" "is_conflict r"
    using assms(1) by (simp add: apply_savepoint_def conflict_def)
  then have m: "apply_mutation (fc_order fc) None (SavepointMutation n) (run_state x) = Some (r, ?t)"
    using assms(1,2) by (simp add: apply_mutation_def)
  have cp: "capture x [SavepointMutation n] = Full (Some (on_state state_clone x))" by (simp add: capture_def)
  have "\<not> available TransactionStateCapability ?t"
    using taint_recorded [of TransactionStateUnknown ChainScope "run_state x"] by (auto simp: available_def list_all_iff)
  moreover have "transactions (state_clone (run_state x)) = []" using assms(1) by simp
  ultimately show ?thesis
    using m r(2) assms(3)
    by (auto simp: fresh_progress_def cp after_conflict_def evaluate_rules_def Let_def state_clone_def)
qed

lemma drop_step_evidence [simp]:
  "l_evidence (local (drop_relation i s)) = l_evidence (local s)" "l_evidence (local (drop_sequence i s)) = l_evidence (local s)"
  "l_evidence (local (drop_trigger i s)) = l_evidence (local s)" "l_evidence (local (remove_constraint k s)) = l_evidence (local s)"
  "l_evidence (local (set_publication_objects u s)) = l_evidence (local s)" "l_evidence (local (retain_graph P s)) = l_evidence (local s)"
  "l_evidence (local (forget_pending g s)) = l_evidence (local s)"
  "l_evidence (local (forget_baseline_foreign_keys g s)) = l_evidence (local s)"
  by (simp_all add: drop_relation_def drop_sequence_def drop_trigger_def remove_constraint_def set_publication_objects_def
      retain_graph_def forget_pending_def forget_baseline_foreign_keys_def upd_local_def on_graph_def snapshot_defs log_change_def
      split: prod.splits)

lemma fold_evidence:
  "(\<And>y u. l_evidence (local (f y u)) = l_evidence (local u)) \<Longrightarrow> l_evidence (local (fold f ys s)) = l_evidence (local s)"
  by (induction ys arbitrary: s) simp_all

lemma drop_attached_evidence [simp]: "l_evidence (local (drop_attached h res closure s)) = l_evidence (local s)"
  by (simp add: drop_attached_def remove_dropped_constraints_def Let_def fold_evidence)

lemma taint_keeps_records:
  "set (log_records (l_evidence (local s))) \<subseteq> set (log_records (l_evidence (local (taint c sc s))))"
  by (auto simp: taint_def record_evidence_def mark_tainted_def snapshot_defs log_change_def Let_def)

text \<open>
  A \<^verbatim>\<open>CASCADE\<close> over an absent table spoils the chain: the engine computes the closure of all named
  tables before the statement, the absent ones of \<^verbatim>\<open>IF EXISTS\<close> among them, and the handler takes an
  absent table in the closure for an unmodelled dependent. The drop that succeeds then records, for
  the rest of the chain, that an object's state is unknown.\<close>

theorem cascade_over_absent_table_taints:
  assumes "graph_wf (graph_of s)" "dt_cascade d" "i \<in> set (dt_ids d)"
    and "\<not> relation_is_present s (resolve_rename (graph_of s) (oid i))" "resolve_rename (graph_of s) (oid i) \<notin> baseline_relations s"
    and "apply_mutation h (pre_cascade_of (DropTable d) s) (DropTable d) s = Some (Applied, t)"
  shows "\<exists>r \<in> set (log_records (l_evidence (local t))). rec_code r = UnknownObjectState \<and> rec_scope r = ChainScope"
proof -
  let ?pre = "cascade_for_relations s (map oid (dt_ids d))"
  let ?tainted = "taint UnknownObjectState ChainScope s"
  have "resolve_rename (graph_of s) (oid i) \<in> dropped_relations ?pre"
    using assms(3) cascade_for_relations_dropped [OF assms(1), of "map oid (dt_ids d)"] by auto
  then have absent: "\<exists>j \<in> dropped_relations ?pre. \<not> relation_is_present s j \<and> j \<notin> baseline_relations s"
    using assms(4,5) by blast
  have a: "apply_drop_table h d (Some ?pre) s = (Applied, t)"
    using assms(2,6) by (auto simp: apply_mutation_def split: if_splits prod.splits)
  then obtain closure s1 res targets where s1: "drop_roots h d (Some ?pre) res targets s = Inr (closure, s1)"
    "t = drop_attached h res closure s1 \<or> t = taint CatalogCoverageIncomplete ChainScope (drop_attached h res closure s1)"
    by (rule apply_drop_table_applied) metis
  have "l_evidence (local s1) = l_evidence (local ?tainted)"
    using s1(1) assms(2) absent by (auto simp: drop_roots_def Let_def fold_evidence split: if_splits)
  then show ?thesis
    using s1(2) taint_recorded [of UnknownObjectState ChainScope s]
      taint_keeps_records [of "drop_attached h res closure s1" CatalogCoverageIncomplete ChainScope] by auto
qed

section \<open>Concrete instances\<close>

definition sample_run :: run where
  "sample_run = \<lparr>run_state = sample_open, run_not_evaluated = []\<rparr>"

definition sample_rule :: rule where
  "sample_rule = \<lparr>rule_id = ''opaque'', rule_default_tier = Tier2, evaluates_when_unresolved = (\<lambda>_. True),
     required_capabilities = [TransactionStateCapability],
     rule_evaluate = (\<lambda>_. [\<lparr>v_source_range = None, v_rule_id = ''opaque'', v_object_kind = KindOpaque,
       v_object_name = [], v_tier = Tier2, v_reason = ''opaque statement'', v_recipe = [],
       v_dedup_key = Some ''opaque'', v_sql = None\<rparr>])\<rparr>"

definition sample_file :: "rule list \<Rightarrow> file_context" where
  "sample_file rules = \<lparr>fc_config = config_default, fc_rules = rules, fc_order = sample_order,
     fc_filename = ''a.sql'', fc_sql = ''DO'', fc_original_sql = ''DO'', fc_file_ignores = {''opaque''}\<rparr>"

definition sample_statement :: statement where
  "sample_statement = \<lparr>st_range = (0, 2), st_tokens = [(''DO'', 0)], st_leading_comments = [],
     st_inner_comments = [], st_resolve = None, st_possibly_slow = False\<rparr>"

definition sample_parse :: "string \<Rightarrow> parsed_file" where
  "sample_parse sql = \<lparr>pf_errors = [], pf_comments = [], pf_statements = [sample_statement]\<rparr>"


theorem analyze_chain_total_witness:
  "\<exists>fs y. analyze_chain_with_locations config_default [sample_rule] sample_order sample_parse [(''a.sql'', ''DO'')] sample_run
     = Some (Inr (fs, y))"
proof -
  have "tx_reachable sample_order (run_state sample_run)" "finite (dom (l_roles (local (run_state sample_run))))"
    using sample_open_reachable sample_state_frame(4) by (simp_all add: sample_run_def sample_open_def)
  from analyze_chain_total [OF this, of "[(''a.sql'', ''DO'')]" sample_parse config_default "[sample_rule]"]
  show ?thesis by (auto simp: sample_parse_def)
qed

theorem keyed_findings_reported_once_witness:
  "\<exists>vs y. analyze_parsed_file config_default [sample_rule] sample_order ''a.sql'' ''DO'' ''DO'' (sample_parse ''DO'') sample_run
       = Some (Inr (vs, y))
     \<and> distinct (List.map_filter v_dedup_key (filter (\<lambda>v. v_rule_id v \<noteq> ''inline-suppression-disabled'') vs))"
proof -
  have "tx_reachable sample_order (run_state sample_run)" "roles_finite (run_state sample_run)"
    using sample_open_reachable sample_state_frame(4) by (simp_all add: sample_run_def sample_open_def)
  from analyze_parsed_file_ok [OF this, of config_default "[sample_rule]" "''a.sql''" "''DO''" "''DO''" "sample_parse ''DO''"]
  obtain vs y where a: "analyze_parsed_file config_default [sample_rule] sample_order ''a.sql'' ''DO'' ''DO'' (sample_parse ''DO'') sample_run
       = Some (Inr (vs, y))" by (auto simp: sample_parse_def)
  have "\<forall>rl \<in> set [sample_rule]. \<forall>ctx. \<forall>v \<in> set (rule_evaluate rl ctx). v_rule_id v \<noteq> ''inline-suppression-disabled''"
    by (simp add: sample_rule_def)
  from keyed_findings_reported_once [OF this a] a show ?thesis by blast
qed

theorem suppression_finding_repeats_witness:
  "length (pr_violations (evaluate_rules (sample_file [sample_rule]) sample_statement {}
      \<lparr>tr_mutation = NoStateChange, tr_result = Applied, tr_pre_state = pre_state_default, tr_cascade_closure = None\<rparr>
      (evaluate_rules (sample_file [sample_rule]) sample_statement {}
        \<lparr>tr_mutation = NoStateChange, tr_result = Applied, tr_pre_state = pre_state_default, tr_cascade_closure = None\<rparr>
        (fresh_progress sample_run)))) = 2"
  using suppression_finding_repeats [of "sample_file [sample_rule]" sample_rule]
  by (simp add: sample_file_def sample_rule_def config_default_def fresh_progress_def)

theorem conflict_evidence_is_lost_witness:
  "\<exists>r t ps' p'. apply_mutation sample_order None (SavepointMutation ''x'') sample_state = Some (r, t)
    \<and> is_conflict r \<and> \<not> available TransactionStateCapability t
    \<and> run_statement (sample_file []) sample_statement {} (capture \<lparr>run_state = sample_state, run_not_evaluated = []\<rparr> [SavepointMutation ''x''])
        [SavepointMutation ''x''] pre_state_default (fresh_progress \<lparr>run_state = sample_state, run_not_evaluated = []\<rparr>) = Some (Inr (True, ps', p'))
    \<and> l_evidence (local (run_state (pr_run p'))) = l_evidence (local sample_state)"
  using conflict_evidence_is_lost [of "\<lparr>run_state = sample_state, run_not_evaluated = []\<rparr>" "sample_file []" "''x''" sample_statement "{}" pre_state_default]
  by (simp add: sample_state_frame) (simp add: sample_file_def)

definition absent_sample :: analysis_state where
  "absent_sample = (drop_sample [])\<lparr>baseline_coverage := \<lparr>cov_schema_scope = AllNonSystem, cov_families = {FamRelations, FamDependencies}\<rparr>\<rparr>"

definition absent_drop :: drop_table where
  "absent_drop = \<lparr>dt_ids = [object_id_new ''s'' ''t'', object_id_new ''s'' ''x''], dt_if_exists = True, dt_cascade = True\<rparr>"

lemma absent_sample_simps [simp]:
  "local absent_sample = local (drop_sample [])" "baseline_relations absent_sample = {}"
  "baseline_foreign_keys absent_sample = {}"
  by (simp_all add: absent_sample_def drop_sample_defs)

lemma absent_sample_lookup:
  "relation_lookup absent_sample (object_id_new ''s'' ''t'') (\<lambda>kind. kind = Table) = LookupPresent"
  "relation_lookup absent_sample (object_id_new ''s'' ''x'') (\<lambda>kind. kind = Table) = AuthoritativelyAbsent"
  by (simp_all add: relation_lookup_def lookup_shadowed_def object_id_new_def oid_def drop_sample_defs absent_sample_def
      sample_relation_def add_column_def relation_new_def sequence_is_present_def index_is_present_def graph_new_def
      baseline_covers_family_object_def baseline_covers_object_def coverage_has_def in_scope_def Let_def)

lemma absent_sample_drop:
  "\<exists>t. apply_mutation h (pre_cascade_of (DropTable absent_drop) absent_sample) (DropTable absent_drop) absent_sample = Some (Applied, t)"
proof -
  have "extension_member_drop_conflict h absent_sample k i n = None" for k i n
    by (simp add: extension_member_drop_conflict_def drop_sample_defs find_None_iff)
  then show ?thesis
    by (simp add: apply_mutation_def apply_drop_table_def absent_drop_def map_filter_simps absent_sample_lookup
        present_targets_def drop_roots_def Let_def)
      (simp add: drop_sample_defs)
qed

theorem cascade_over_absent_table_taints_witness:
  "\<exists>t. apply_mutation sample_order (pre_cascade_of (DropTable absent_drop) absent_sample) (DropTable absent_drop) absent_sample = Some (Applied, t)
     \<and> (\<exists>r \<in> set (log_records (l_evidence (local t))). rec_code r = UnknownObjectState \<and> rec_scope r = ChainScope)"
proof -
  obtain t where t: "apply_mutation sample_order (pre_cascade_of (DropTable absent_drop) absent_sample) (DropTable absent_drop) absent_sample = Some (Applied, t)"
    using absent_sample_drop by blast
  have "graph_wf (graph_of absent_sample)" "dt_cascade absent_drop" "object_id_new ''s'' ''x'' \<in> set (dt_ids absent_drop)"
    "\<not> relation_is_present absent_sample (resolve_rename (graph_of absent_sample) (oid (object_id_new ''s'' ''x'')))"
    "resolve_rename (graph_of absent_sample) (oid (object_id_new ''s'' ''x'')) \<notin> baseline_relations absent_sample"
    by (simp_all add: drop_sample_wf absent_drop_def drop_sample_resolve relation_is_present_def object_id_new_def oid_def)
      (simp add: drop_sample_defs)
  from cascade_over_absent_table_taints [OF this t] t show ?thesis by blast
qed

end
