(* ===== verification/Rules.thy ===== *)
theory Rules
  imports Engine
begin

text \<open>
  The rules that look at modelled mutations (\<^verbatim>\<open>src/src/_internal/rules/\<close>): sixteen of the thirty rules of
  the registry. The others (\<^verbatim>\<open>constraints.rs\<close>, \<^verbatim>\<open>expressions.rs\<close>, \<^verbatim>\<open>functions.rs\<close>, \<^verbatim>\<open>partitions.rs\<close>,
  \<^verbatim>\<open>triggers.rs\<close>, \<^verbatim>\<open>views.rs\<close> and parts of \<^verbatim>\<open>destructive.rs\<close>, \<^verbatim>\<open>indexes.rs\<close> and \<^verbatim>\<open>transactions.rs\<close>) match
  only mutations that the type \<open>mutation\<close> does not list, as do the match arms left out below.

  A rule reads the statement, its result, the state before and the state after, never the evidence
  log; so the findings of a statement do not depend on what the rules before it recorded.
\<close>

section \<open>Findings\<close>

definition finding :: "string \<Rightarrow> object_kind \<Rightarrow> string \<Rightarrow> violation_tier \<Rightarrow> string \<Rightarrow> string \<Rightarrow> string option \<Rightarrow> violation" where
  "finding i kind name tier reason recipe key =
     \<lparr>v_source_range = None, v_rule_id = i, v_object_kind = kind, v_object_name = name, v_tier = tier,
      v_reason = reason, v_recipe = recipe, v_dedup_key = key, v_sql = None\<rparr>"

abbreviation ctx_mutation :: "rule_context \<Rightarrow> mutation" where
  "ctx_mutation ctx \<equiv> tr_mutation (ctx_transition ctx)"

abbreviation ctx_result :: "rule_context \<Rightarrow> mutation_result" where
  "ctx_result ctx \<equiv> tr_result (ctx_transition ctx)"

abbreviation ctx_pre_state :: "rule_context \<Rightarrow> pre_state" where
  "ctx_pre_state ctx \<equiv> tr_pre_state (ctx_transition ctx)"

definition display_ids :: "object_id list \<Rightarrow> string" where
  "display_ids ids = join_names (map object_id_display ids)"

section \<open>Conflicts and opaque statements\<close>

fun is_concurrent_transaction_conflict :: "mutation_result \<Rightarrow> bool" where
  "is_concurrent_transaction_conflict (Conflict ConcurrentInTransaction) = True"
| "is_concurrent_transaction_conflict _ = False"

definition conflict_finding :: "string \<Rightarrow> violation" where
  "conflict_finding reason =
     finding ''chain-conflict'' KindUnknown ''migration state'' Tier1 (''Migration chain conflict: '' @ reason)
       ''Correct the migration so this statement can execute against the schema state produced by earlier statements. Use an idempotency guard only when a no-op is intended.''
       None"

definition conflict_evaluate :: "rule_context \<Rightarrow> violation list" where
  "conflict_evaluate ctx =
     (case conflict_reason (ctx_result ctx) of
        Some reason \<Rightarrow>
          if is_concurrent_transaction_conflict (ctx_result ctx) then [] else [conflict_finding reason]
      | None \<Rightarrow> [])"

definition conflict_rule :: rule where
  "conflict_rule =
     \<lparr>rule_id = ''chain-conflict'', rule_default_tier = Tier1, evaluates_when_unresolved = (\<lambda>_. False),
      required_capabilities = [], rule_evaluate = conflict_evaluate\<rparr>"

definition opaque_recipe :: string where
  "opaque_recipe = ''Procedural or dynamic SQL (DO blocks, EXECUTE) obscures schema mutations. Lock analysis confidence is heavily degraded.''"

fun opaque_block :: "opaque_mutation \<Rightarrow> (string \<times> string) option" where
  "opaque_block UnsupportedStatementOpaque =
     Some (''unsupported SQL statement'',
       ''This SQL statement is not modeled. Review its PostgreSQL behavior before deploying.'')"
| "opaque_block DoBlock = Some (''DO block'', opaque_recipe)"
| "opaque_block Execute = Some (''EXECUTE statement'', opaque_recipe)"
| "opaque_block PrepareTransaction = Some (''PREPARE TRANSACTION'', opaque_recipe)"
| "opaque_block SetTransaction = Some (''SET TRANSACTION'', opaque_recipe)"
| "opaque_block SetConstraints = Some (''SET CONSTRAINTS'', opaque_recipe)"
| "opaque_block (UnresolvedReferenceOpaque _ _) = None"

definition opaque_evaluate :: "rule_context \<Rightarrow> violation list" where
  "opaque_evaluate ctx =
     (case ctx_mutation ctx of
        OpaqueMutation opaque \<Rightarrow>
          (case opaque_block opaque of
             Some (block_type, recipe) \<Rightarrow>
               [finding ''opaque-dynamic-sql'' KindOpaque ''opaque statement'' Tier2
                  (''Encountered opaque '' @ block_type) recipe None]
           | None \<Rightarrow> [])
      | _ \<Rightarrow> [])"

definition opaque_rule :: rule where
  "opaque_rule =
     \<lparr>rule_id = ''opaque-dynamic-sql'', rule_default_tier = Tier2, evaluates_when_unresolved = (\<lambda>_. True),
      required_capabilities = [], rule_evaluate = opaque_evaluate\<rparr>"

section \<open>Timeouts\<close>

definition effective_lock_timeout :: "analysis_state \<Rightarrow> u64 option" where
  "effective_lock_timeout s = ss_effective (l_lock_timeout (local s))"

definition effective_statement_timeout :: "analysis_state \<Rightarrow> u64 option" where
  "effective_statement_timeout s = ss_effective (l_statement_timeout (local s))"

fun timeout_subject :: "(object_kind \<times> string) option \<Rightarrow> object_kind \<times> string" where
  "timeout_subject (Some subject) = subject"
| "timeout_subject None = (KindUnknown, ''unknown statement'')"

definition show_u64 :: "u64 \<Rightarrow> string" where
  "show_u64 w = show_nat (unat w)"

definition lock_timeout_reason :: "analysis_state \<Rightarrow> string option" where
  "lock_timeout_reason s =
     (case effective_lock_timeout s of
        None \<Rightarrow> Some ''No lock_timeout is known from SQL or a synchronized cache.''
      | Some lock_timeout \<Rightarrow>
          if lock_timeout = 0 then Some ''lock_timeout is disabled (0).''
          else (case effective_statement_timeout s of
                  Some statement_timeout \<Rightarrow>
                    if statement_timeout > 0 \<and> lock_timeout \<ge> statement_timeout
                    then Some (''lock_timeout ('' @ show_u64 lock_timeout @ '' ms) is not shorter than statement_timeout (''
                           @ show_u64 statement_timeout @ '' ms), so PostgreSQL reaches statement_timeout first.'')
                    else None
                | None \<Rightarrow> None))"

definition statement_timeout_reason :: "analysis_state \<Rightarrow> string option" where
  "statement_timeout_reason s =
     (case effective_statement_timeout s of
        None \<Rightarrow> Some ''No statement_timeout is known from SQL or a synchronized cache.''
      | Some timeout \<Rightarrow> if timeout = 0 then Some ''statement_timeout is disabled (0).'' else None)"

definition timeout_evaluate ::
  "string \<Rightarrow> string \<Rightarrow> (analysis_state \<Rightarrow> string option) \<Rightarrow> rule_context \<Rightarrow> violation list" where
  "timeout_evaluate i recipe reason_of ctx =
     (case ctx_mutation ctx of
        CheckTimeouts subject \<Rightarrow>
          if ctx_result ctx \<noteq> Applied then []
          else (case reason_of (ctx_state ctx) of
                  None \<Rightarrow> []
                | Some reason \<Rightarrow>
                    (let (kind, name) = timeout_subject subject
                     in [finding i kind name Tier2 reason recipe (Some i)]))
      | _ \<Rightarrow> [])"

definition require_lock_timeout_rule :: rule where
  "require_lock_timeout_rule =
     \<lparr>rule_id = ''require-lock-timeout'', rule_default_tier = Tier2, evaluates_when_unresolved = (\<lambda>_. False),
      required_capabilities = [],
      rule_evaluate = timeout_evaluate ''require-lock-timeout''
        ''Set a positive lock_timeout before this operation, or configure it for the intended migration role and run safe-migrate sync again.''
        lock_timeout_reason\<rparr>"

definition require_statement_timeout_rule :: rule where
  "require_statement_timeout_rule =
     \<lparr>rule_id = ''require-statement-timeout'', rule_default_tier = Tier2, evaluates_when_unresolved = (\<lambda>_. False),
      required_capabilities = [],
      rule_evaluate = timeout_evaluate ''require-statement-timeout''
        ''Set a positive statement_timeout before this operation, or configure it for the intended migration role and run safe-migrate sync again.''
        statement_timeout_reason\<rparr>"

section \<open>Policies and grants\<close>

definition restrictive_policy_evaluate :: "rule_context \<Rightarrow> violation list" where
  "restrictive_policy_evaluate ctx =
     (case ctx_mutation ctx of
        Ddl (CreatePolicy policy) \<Rightarrow>
          if cp_permissive policy then []
          else [finding ''restrictive-policy'' KindPolicy (cp_name policy @ '' on '' @ object_id_display (cp_table policy)) Tier2
                  (''Adding RESTRICTIVE policy '' @ cp_name policy @ '' on '' @ object_id_display (cp_table policy))
                  ''Adding a RESTRICTIVE policy narrows access for all users. This can silently make rows invisible that were previously accessible.''
                  None]
      | _ \<Rightarrow> [])"

definition restrictive_policy_rule :: rule where
  "restrictive_policy_rule =
     \<lparr>rule_id = ''restrictive-policy'', rule_default_tier = Tier2, evaluates_when_unresolved = (\<lambda>_. False),
      required_capabilities = [], rule_evaluate = restrictive_policy_evaluate\<rparr>"

fun grant_object :: "grant_target \<Rightarrow> object_kind \<times> string" where
  "grant_object (Tables tables) = (KindTable, display_ids tables)"
| "grant_object (AllTablesInSchema schemas) = (KindSchema, join_names schemas)"
| "grant_object (Roles roles) = (KindRole, display_ids roles)"

definition relation_is_owned_by :: "analysis_state \<Rightarrow> oid \<Rightarrow> string \<Rightarrow> bool" where
  "relation_is_owned_by s i owner =
     (case l_relations (local s) i of Some (Present r) \<Rightarrow> name_of (r_owner r) = owner | _ \<Rightarrow> False)"

fun names_public :: "role_fact \<Rightarrow> bool" where
  "names_public (Named name _) = (name = ''public'')"
| "names_public _ = False"

fun is_all_privileges :: "privilege_spec \<Rightarrow> bool" where
  "is_all_privileges AllPrivileges = True"
| "is_all_privileges (PrivilegeList privs) = list_ex (\<lambda>p. p = AllFact) privs"

fun owns_all :: "analysis_state \<Rightarrow> object_id list \<Rightarrow> role_fact \<Rightarrow> bool" where
  "owns_all s tables (Named name _) = list_all (\<lambda>t. relation_is_owned_by s (oid t) name) tables"
| "owns_all s tables _ = False"

definition every_grantee_owns_every_table :: "analysis_state \<Rightarrow> grant_mutation \<Rightarrow> bool" where
  "every_grantee_owns_every_table s g =
     (case gm_target g of
        Tables tables \<Rightarrow> tables \<noteq> [] \<and> gm_grantees g \<noteq> [] \<and> list_all (owns_all s tables) (gm_grantees g)
      | _ \<Rightarrow> False)"

definition overbroad_grant_evaluate :: "rule_context \<Rightarrow> violation list" where
  "overbroad_grant_evaluate ctx =
     (if ctx_result ctx = NoOp then []
      else case ctx_mutation ctx of
          Ddl (Grant g) \<Rightarrow>
            (let (kind, name) = grant_object (gm_target g)
             in (if list_ex names_public (gm_grantees g)
                 then [finding ''overbroad-grant'' kind name Tier1 ''Grant to PUBLIC''
                         ''GRANT to PUBLIC is almost never intended as it applies to every role.'' None]
                 else [])
                @ (if is_all_privileges (gm_privileges g) \<and> \<not> every_grantee_owns_every_table (ctx_state ctx) g
                   then [finding ''overbroad-grant'' kind name Tier2 ''Overbroad Grant: ALL PRIVILEGES''
                           ''GRANT ALL PRIVILEGES to a role that is not the owner is risky.'' None]
                   else [])
                @ (if gm_with_grant_option g
                   then [finding ''overbroad-grant'' kind name Tier2 ''Overbroad Grant: WITH GRANT OPTION''
                           ''WITH GRANT OPTION allows the grantee to re-grant privileges, widening the blast radius.'' None]
                   else []))
        | _ \<Rightarrow> [])"

fun is_grant :: "mutation \<Rightarrow> bool" where
  "is_grant (Ddl (Grant _)) = True"
| "is_grant _ = False"

definition overbroad_grant_rule :: rule where
  "overbroad_grant_rule =
     \<lparr>rule_id = ''overbroad-grant'', rule_default_tier = Tier2,
      evaluates_when_unresolved = (\<lambda>tr. is_grant (tr_mutation tr)),
      required_capabilities = [], rule_evaluate = overbroad_grant_evaluate\<rparr>"

section \<open>Locks, VACUUM and REINDEX\<close>

fun strong_lock :: "lock_mode \<Rightarrow> (violation_tier \<times> string) option" where
  "strong_lock AccessExclusive = Some (Tier1, ''ACCESS EXCLUSIVE'')"
| "strong_lock Exclusive = Some (Tier2, ''EXCLUSIVE'')"
| "strong_lock ShareRowExclusive = Some (Tier2, ''SHARE ROW EXCLUSIVE'')"
| "strong_lock _ = None"

definition lock_table_evaluate :: "rule_context \<Rightarrow> violation list" where
  "lock_table_evaluate ctx =
     (case ctx_mutation ctx of
        Ddl (LockTable lock) \<Rightarrow>
          (case strong_lock (lk_mode lock) of
             None \<Rightarrow> []
           | Some (tier, mode) \<Rightarrow>
               map (\<lambda>t. finding ''table-lock'' KindTable (object_id_display (tgt_id t)) tier
                      (''LOCK TABLE '' @ object_id_display (tgt_id t) @ '' uses '' @ mode
                        @ (if lk_nowait lock then '' with NOWAIT'' else []))
                      ''Use the weakest lock mode that preserves correctness, set lock_timeout, and prefer NOWAIT when the migration can retry safely.''
                      None) (lk_targets lock))
      | _ \<Rightarrow> [])"

definition lock_table_rule :: rule where
  "lock_table_rule =
     \<lparr>rule_id = ''table-lock'', rule_default_tier = Tier2, evaluates_when_unresolved = (\<lambda>_. False),
      required_capabilities = [], rule_evaluate = lock_table_evaluate\<rparr>"

definition vacuum_full_evaluate :: "rule_context \<Rightarrow> violation list" where
  "vacuum_full_evaluate ctx =
     (case ctx_mutation ctx of
        Ddl (Vacuum table_id True) \<Rightarrow>
          [finding ''vacuum-full'' KindTable (case table_id of Some i \<Rightarrow> object_id_display i | None \<Rightarrow> ''<all tables>'') Tier1
             ''VACUUM FULL requires an ACCESS EXCLUSIVE lock''
             ''VACUUM FULL rewrites the entire table and requires an ACCESS EXCLUSIVE lock. Run this manually outside of migration pipelines.''
             None]
      | _ \<Rightarrow> [])"

definition vacuum_full_rule :: rule where
  "vacuum_full_rule =
     \<lparr>rule_id = ''vacuum-full'', rule_default_tier = Tier1, evaluates_when_unresolved = (\<lambda>_. False),
      required_capabilities = [], rule_evaluate = vacuum_full_evaluate\<rparr>"

fun reindex_object_name :: "reindex_target \<Rightarrow> string" where
  "reindex_object_name (ReindexSchema n) = n"
| "reindex_object_name (ReindexDatabase n) = (if n \<noteq> [] then n else ''current database'')"
| "reindex_object_name (ReindexSystem (Some n)) = (if n \<noteq> [] then n else ''current database'')"
| "reindex_object_name (ReindexSystem None) = ''current database''"
| "reindex_object_name (ReindexTable i) = oid_schema i @ ''.'' @ oid_name i"
| "reindex_object_name (ReindexIndex i) = oid_schema i @ ''.'' @ oid_name i"

fun reindex_kind :: "reindex_target \<Rightarrow> object_kind" where
  "reindex_kind (ReindexDatabase _) = KindDatabase"
| "reindex_kind (ReindexSystem _) = KindDatabase"
| "reindex_kind (ReindexSchema _) = KindSchema"
| "reindex_kind (ReindexTable _) = KindTable"
| "reindex_kind (ReindexIndex _) = KindIndex"

definition concurrent_in_transaction_evaluate :: "rule_context \<Rightarrow> violation list" where
  "concurrent_in_transaction_evaluate ctx =
     (if \<not> Maintenance.in_transaction (ctx_state ctx) then []
      else case ctx_mutation ctx of
          Ddl (Reindex target True) \<Rightarrow>
            (if (case target of Some t \<Rightarrow> is_system t | None \<Rightarrow> False) then []
             else let target_name = (case target of Some t \<Rightarrow> reindex_object_name t | None \<Rightarrow> ''unknown'')
                  in [finding ''concurrent-in-transaction'' (case target of Some t \<Rightarrow> reindex_kind t | None \<Rightarrow> KindIndex)
                        target_name Tier1
                        (''REINDEX CONCURRENTLY on '' @ target_name @ '' inside a transaction block'')
                        ''PostgreSQL does not allow concurrent operations (CREATE INDEX CONCURRENTLY, DROP INDEX CONCURRENTLY, REFRESH MATERIALIZED VIEW CONCURRENTLY, REINDEX CONCURRENTLY) inside a transaction block (BEGIN/COMMIT).''
                        (Some (''concurrent-in-transaction_'' @ target_name))])
        | _ \<Rightarrow> [])"

definition concurrent_in_transaction_rule :: rule where
  "concurrent_in_transaction_rule =
     \<lparr>rule_id = ''concurrent-in-transaction'', rule_default_tier = Tier1, evaluates_when_unresolved = (\<lambda>_. False),
      required_capabilities = [TransactionStateCapability], rule_evaluate = concurrent_in_transaction_evaluate\<rparr>"

fun reindex_target_is_temporary :: "analysis_state \<Rightarrow> reindex_target \<Rightarrow> bool" where
  "reindex_target_is_temporary s (ReindexTable i) =
     (case l_relations (local s) (oid i) of
        Some (Present r) \<Rightarrow> r_persistence r = Temporary \<or> oid_schema i = ''pg_temp''
      | _ \<Rightarrow> False)"
| "reindex_target_is_temporary s (ReindexIndex i) = (oid_schema i = ''pg_temp'')"
| "reindex_target_is_temporary s _ = False"

definition index_backs_exclusion_constraint :: "analysis_state \<Rightarrow> oid \<Rightarrow> bool" where
  "index_backs_exclusion_constraint s i \<longleftrightarrow>
     (\<exists>c \<in> ran (l_constraints (local s)). con_kind c = Exclusion \<and> con_backing_index c = Some i)"

definition reindex_recipe :: string where
  "reindex_recipe = ''Reindexing a table or index without `concurrently` holds a lock that blocks writes (and reads, for some targets) for the duration. Use `CONCURRENTLY` where PostgreSQL allows it.''"

fun backs_exclusion :: "analysis_state \<Rightarrow> reindex_target \<Rightarrow> bool" where
  "backs_exclusion s (ReindexIndex i) = index_backs_exclusion_constraint s (oid i)"
| "backs_exclusion s _ = False"

definition reindex_evaluate_target :: "analysis_state \<Rightarrow> reindex_target option \<Rightarrow> violation list" where
  "reindex_evaluate_target s target =
     (case target of
        None \<Rightarrow>
          [finding ''require-concurrent-reindex'' KindUnknown ''unknown'' Tier1
             ''Synchronous REINDEX with no resolvable target'' reindex_recipe None]
      | Some t \<Rightarrow>
          if is_system t \<or> reindex_target_is_temporary s t \<or> backs_exclusion s t then []
          else [finding ''require-concurrent-reindex'' (reindex_kind t) (reindex_object_name t) Tier1
                  (''Synchronous REINDEX on '' @ reindex_object_name t) reindex_recipe
                  (Some (''require-concurrent-reindex_'' @ reindex_object_name t))])"

definition require_concurrent_reindex_evaluate :: "rule_context \<Rightarrow> violation list" where
  "require_concurrent_reindex_evaluate ctx =
     (case ctx_mutation ctx of
        Ddl (Reindex target concurrently) \<Rightarrow>
          if concurrently then [] else reindex_evaluate_target (ctx_state ctx) target
      | _ \<Rightarrow> [])"

definition require_concurrent_reindex_rule :: rule where
  "require_concurrent_reindex_rule =
     \<lparr>rule_id = ''require-concurrent-reindex'', rule_default_tier = Tier1, evaluates_when_unresolved = (\<lambda>_. False),
      required_capabilities = [], rule_evaluate = require_concurrent_reindex_evaluate\<rparr>"

section \<open>Idempotency\<close>

definition unguarded :: "object_kind \<Rightarrow> string \<Rightarrow> string \<Rightarrow> violation" where
  "unguarded kind name reason =
     finding ''missing-idempotency'' kind name Tier3 reason
       ''Use IF EXISTS or IF NOT EXISTS to prevent migration failures on partial re-runs.'' None"

definition on_table :: "string \<Rightarrow> object_id \<Rightarrow> string" where
  "on_table name table = name @ '' on '' @ object_id_display table"

definition idempotency_ddl :: "ddl \<Rightarrow> violation list" where
  "idempotency_ddl d =
     (case d of
        CreateSchema c \<Rightarrow>
          if csc_if_not_exists c then []
          else [unguarded KindSchema (csc_name c) (''CREATE SCHEMA '' @ csc_name c @ '' without IF NOT EXISTS'')]
      | CreateSequence c \<Rightarrow>
          if cs_if_not_exists c then []
          else [unguarded KindSequence (object_id_display (cs_id c))
                  (''CREATE SEQUENCE '' @ object_id_display (cs_id c) @ '' without IF NOT EXISTS'')]
      | DropPolicy p \<Rightarrow>
          if dp_if_exists p then []
          else [unguarded KindPolicy (on_table (dp_name p) (dp_table p))
                  (''DROP POLICY '' @ on_table (dp_name p) (dp_table p) @ '' without IF EXISTS'')]
      | DropTrigger g \<Rightarrow>
          if dg_if_exists g then []
          else [unguarded KindTrigger (on_table (dg_name g) (dg_table g))
                  (''DROP TRIGGER '' @ on_table (dg_name g) (dg_table g) @ '' without IF EXISTS'')]
      | DropSequence q \<Rightarrow>
          if ds_if_exists q then []
          else map (\<lambda>i. unguarded KindSequence (object_id_display i)
                      (''DROP SEQUENCE '' @ object_id_display i @ '' without IF EXISTS'')) (ds_ids q)
      | _ \<Rightarrow> [])"

definition idempotency_evaluate :: "rule_context \<Rightarrow> violation list" where
  "idempotency_evaluate ctx =
     (case ctx_mutation ctx of
        DropTable d \<Rightarrow>
          if dt_if_exists d then []
          else map (\<lambda>i. unguarded KindTable (object_id_display i)
                      (''DROP TABLE '' @ object_id_display i @ '' without IF EXISTS'')) (dt_ids d)
      | Ddl d \<Rightarrow> idempotency_ddl d
      | _ \<Rightarrow> [])"

definition idempotency_rule :: rule where
  "idempotency_rule =
     \<lparr>rule_id = ''missing-idempotency'', rule_default_tier = Tier3, evaluates_when_unresolved = (\<lambda>_. False),
      required_capabilities = [], rule_evaluate = idempotency_evaluate\<rparr>"

section \<open>Drift from the baseline\<close>

definition dquoted :: "string \<Rightarrow> string" where
  "dquoted s = dquote # s @ [dquote]"

fun kind_display :: "object_kind \<Rightarrow> string" where
  "kind_display KindTable = ''table''"
| "kind_display KindIndex = ''index''"
| "kind_display KindView = ''view''"
| "kind_display KindMaterializedView = ''materialized view''"
| "kind_display KindFunction = ''function''"
| "kind_display KindProcedure = ''procedure''"
| "kind_display KindTrigger = ''trigger''"
| "kind_display KindSequence = ''sequence''"
| "kind_display KindSchema = ''schema''"
| "kind_display KindRole = ''role''"
| "kind_display KindPublication = ''publication''"
| "kind_display KindSubscription = ''subscription''"
| "kind_display KindDatabase = ''database''"
| "kind_display KindDomain = ''domain''"
| "kind_display KindPolicy = ''policy''"
| "kind_display KindType = ''type''"
| "kind_display KindExtension = ''extension''"
| "kind_display KindOpaque = ''opaque''"
| "kind_display KindUnknown = ''object''"

definition drift_finding :: "object_kind \<Rightarrow> string \<Rightarrow> string \<Rightarrow> violation" where
  "drift_finding kind name what =
     finding ''schema-drift'' kind name Tier1
       (''Migration '' @ what @ '' '' @ dquoted name @ '' which does not exist in the production baseline'')
       ''This migration references a database object that does not exist in the production baseline. If this object exists in production, sync the cache with `safe-migrate sync`. If it does not, this migration may fail.''
       None"

definition drift_findings :: "mutation \<Rightarrow> pre_state \<Rightarrow> violation list" where
  "drift_findings m ps =
     (case m of
        OpaqueMutation (UnresolvedReferenceOpaque kind name) \<Rightarrow>
          [drift_finding kind name (''references '' @ kind_display kind)]
      | DropTable d \<Rightarrow>
          if dt_if_exists d then []
          else map (\<lambda>i. drift_finding KindTable (object_id_display i) ''DROPs table'')
                 (filter (\<lambda>i. ps_relations ps (oid i) = None) (dt_ids d))
      | Ddl (DropSequence d) \<Rightarrow>
          map (\<lambda>i. drift_finding KindSequence (object_id_display i) ''DROPs sequence'')
            (filter (\<lambda>i. \<not> ds_if_exists d \<and> ps_sequences ps (oid i) = None) (ds_ids d))
      | Ddl (AlterSequence a) \<Rightarrow>
          if \<not> as_if_exists a \<and> ps_sequences ps (oid (as_id a)) = None
          then [drift_finding KindSequence (object_id_display (as_id a)) ''ALTERs sequence''] else []
      | _ \<Rightarrow> [])"

definition starts_with_schema :: "string \<Rightarrow> string \<Rightarrow> bool" where
  "starts_with_schema schema name \<longleftrightarrow>
     take (length schema) name = schema \<and> length schema < length name \<and> name ! length schema = CHR ''.''"

definition baseline_scope_omits_displayed_object :: "analysis_state \<Rightarrow> string \<Rightarrow> string option" where
  "baseline_scope_omits_displayed_object s name =
     (case baseline_schemas s of
        None \<Rightarrow> None
      | Some schemas \<Rightarrow>
          if \<exists>schema \<in> schemas. starts_with_schema schema name then None
          else if CHR ''.'' \<in> set name then Some (takeWhile (\<lambda>c. c \<noteq> CHR ''.'') name) else None)"

definition scope_warning :: "analysis_state \<Rightarrow> violation \<Rightarrow> violation" where
  "scope_warning s v =
     (case baseline_scope_omits_displayed_object s (v_object_name v) of
        None \<Rightarrow> v
      | Some schema \<Rightarrow>
          v\<lparr>v_tier := Tier2,
            v_reason := ''Cache does not cover schema '' @ dquoted schema @ ''; safe-migrate cannot verify whether ''
              @ v_object_name v @ '' exists in the production baseline'',
            v_recipe := ''Run `safe-migrate sync --schemas ...` with this schema included, or use an unscoped sync, before treating this as a production-drift result.''\<rparr>)"

definition drift_evaluate :: "rule_context \<Rightarrow> violation list" where
  "drift_evaluate ctx =
     (if \<not> baseline_available (ctx_state ctx) then []
      else map (scope_warning (ctx_state ctx)) (drift_findings (ctx_mutation ctx) (ctx_pre_state ctx)))"

definition drift_rule :: rule where
  "drift_rule =
     \<lparr>rule_id = ''schema-drift'', rule_default_tier = Tier1, evaluates_when_unresolved = (\<lambda>_. True),
      required_capabilities = [BaselineRelationsCapability], rule_evaluate = drift_evaluate\<rparr>"

section \<open>Destructive statements\<close>

definition drop_database_evaluate :: "rule_context \<Rightarrow> violation list" where
  "drop_database_evaluate ctx =
     (case ctx_mutation ctx of
        Ddl (DropDatabase d) \<Rightarrow>
          [finding ''drop-database'' KindDatabase (object_id_display (ddb_id d)) Tier1 ''DROP DATABASE detected''
             ''DROP DATABASE is an irreversible, high-blast-radius operation that destroys the entire database context.''
             None]
      | _ \<Rightarrow> [])"

definition drop_database_rule :: rule where
  "drop_database_rule =
     \<lparr>rule_id = ''drop-database'', rule_default_tier = Tier1, evaluates_when_unresolved = (\<lambda>_. False),
      required_capabilities = [], rule_evaluate = drop_database_evaluate\<rparr>"

fun cascade_info :: "mutation \<Rightarrow> (object_kind \<times> string) option" where
  "cascade_info (Ddl (DropSequence d)) = (if ds_cascade d then Some (KindSequence, display_ids (ds_ids d)) else None)"
| "cascade_info (Ddl (DropPublication d)) = (if dpb_cascade d then Some (KindPublication, join_names (dpb_names d)) else None)"
| "cascade_info _ = None"

definition general_cascade_evaluate :: "rule_context \<Rightarrow> violation list" where
  "general_cascade_evaluate ctx =
     (case cascade_info (ctx_mutation ctx) of
        Some (kind, name) \<Rightarrow>
          [finding ''destructive-general-cascade'' kind name Tier1 ''Destructive CASCADE operation detected''
             ''Using CASCADE on DROP operations can silently delete dependent objects. Explicitly drop dependencies to avoid accidental data loss.''
             None]
      | None \<Rightarrow> [])"

definition general_cascade_rule :: rule where
  "general_cascade_rule =
     \<lparr>rule_id = ''destructive-general-cascade'', rule_default_tier = Tier1, evaluates_when_unresolved = (\<lambda>_. False),
      required_capabilities = [], rule_evaluate = general_cascade_evaluate\<rparr>"

text \<open>The two flags of the loops over the closure.\<close>

definition cascade_affects_baseline :: "analysis_state \<Rightarrow> pre_state \<Rightarrow> oid set \<Rightarrow> cascade_result \<Rightarrow> bool" where
  "cascade_affects_baseline s ps roots closure \<longleftrightarrow>
     (\<exists>i \<in> dropped_relations closure. i \<notin> roots \<and> i \<in> baseline_relations s)
     \<or> (\<exists>k \<in> dropped_constraints closure. k \<in> ps_baseline_foreign_keys ps)"

definition cascade_pulls_foreign_keys :: "analysis_state \<Rightarrow> oid set \<Rightarrow> cascade_result \<Rightarrow> bool" where
  "cascade_pulls_foreign_keys s roots closure \<longleftrightarrow>
     (\<exists>i \<in> dropped_relations closure. i \<notin> roots \<and> i \<in> baseline_relations s \<and> i \<in> baseline_fk_dependencies s)
     \<or> (\<exists>(from_table, _) \<in> dropped_constraints closure. from_table \<in> baseline_fk_dependencies s)"

definition cascading_drop_finding :: "drop_table \<Rightarrow> bool \<Rightarrow> violation" where
  "cascading_drop_finding d has_fk_pulled =
     finding ''destructive-cascade'' KindTable (display_ids (dt_ids d)) Tier1
       (''DROP TABLE '' @ display_ids (dt_ids d) @ '' CASCADE silently destroys pre-existing database dependencies''
         @ (if has_fk_pulled
            then '' (includes FK-pulled tables from other schemas '' @ [CHR 0xE2, CHR 0x80, CHR 0x94] @ '' cross-team impact)''
            else []))
       ''Avoid CASCADE on DROP in production. Handle dependencies explicitly.'' None"

definition cascading_drop_evaluate :: "rule_context \<Rightarrow> violation list" where
  "cascading_drop_evaluate ctx =
     (case (ctx_mutation ctx, tr_cascade_closure (ctx_transition ctx)) of
        (DropTable d, Some closure) \<Rightarrow>
          if is_conflict (ctx_result ctx) \<or> \<not> dt_cascade d then []
          else (let roots = oid ` set (dt_ids d)
                in if cascade_affects_baseline (ctx_state ctx) (ctx_pre_state ctx) roots closure
                   then [cascading_drop_finding d (cascade_pulls_foreign_keys (ctx_state ctx) roots closure)]
                   else [])
      | _ \<Rightarrow> [])"

definition cascading_drop_rule :: rule where
  "cascading_drop_rule =
     \<lparr>rule_id = ''destructive-cascade'', rule_default_tier = Tier1, evaluates_when_unresolved = (\<lambda>_. False),
      required_capabilities = [BaselineRelationsCapability], rule_evaluate = cascading_drop_evaluate\<rparr>"

datatype reversibility = Reversible | ConditionallyReversible | Irreversible

fun classify :: "mutation \<Rightarrow> reversibility" where
  "classify (DropTable _) = Irreversible"
| "classify (Ddl (DropDatabase _)) = Irreversible"
| "classify (Ddl (Truncate _)) = Irreversible"
| "classify _ = ConditionallyReversible"

definition largest_estimate :: "config \<Rightarrow> pre_state \<Rightarrow> object_id list \<Rightarrow> u64" where
  "largest_estimate c ps ids =
     (case List.map_filter (\<lambda>i. Option.bind (ps_relations ps (oid i)) r_estimated_rows) ids of
        [] \<Rightarrow> default_rows c
      | rows # rest \<Rightarrow> fold max rest rows)"

definition irreversible_finding :: "config \<Rightarrow> pre_state \<Rightarrow> object_id list \<Rightarrow> violation" where
  "irreversible_finding c ps ids =
     finding ''irreversible-migration'' KindTable (display_ids ids)
       (if largest_estimate c ps ids = 0 then Tier3 else Tier1)
       ''Irreversible data-destructive operation detected''
       ''This operation is irreversible. Ensure backups are available.'' None"

definition reversibility_evaluate :: "rule_context \<Rightarrow> violation list" where
  "reversibility_evaluate ctx =
     (if ctx_result ctx \<noteq> Applied \<or> classify (ctx_mutation ctx) \<noteq> Irreversible then []
      else case ctx_mutation ctx of
          DropTable d \<Rightarrow> [irreversible_finding (ctx_config ctx) (ctx_pre_state ctx) (dt_ids d)]
        | Ddl (Truncate t) \<Rightarrow> [irreversible_finding (ctx_config ctx) (ctx_pre_state ctx) (map tgt_id (tru_targets t))]
        | _ \<Rightarrow> [])"

definition reversibility_rule :: rule where
  "reversibility_rule =
     \<lparr>rule_id = ''irreversible-migration'', rule_default_tier = Tier1, evaluates_when_unresolved = (\<lambda>_. False),
      required_capabilities = [], rule_evaluate = reversibility_evaluate\<rparr>"

text \<open>In the order of the registry.\<close>

definition modelled_rules :: "rule list" where
  "modelled_rules =
     [reversibility_rule, lock_table_rule, drop_database_rule, general_cascade_rule, cascading_drop_rule,
      require_concurrent_reindex_rule, require_lock_timeout_rule, require_statement_timeout_rule,
      restrictive_policy_rule, idempotency_rule, concurrent_in_transaction_rule, vacuum_full_rule,
      opaque_rule, overbroad_grant_rule, drift_rule, conflict_rule]"

section \<open>The contract of the rules\<close>

text \<open>
  The findings of a rule do not depend on the evidence that the rules before it have recorded, and
  carry the id of the rule.
\<close>

definition rule_context_at :: "file_context \<Rightarrow> transition_record \<Rightarrow> analysis_state \<Rightarrow> rule_context" where
  "rule_context_at fc tr s = \<lparr>ctx_transition = tr, ctx_state = s, ctx_config = fc_config fc\<rparr>"

definition active :: "file_context \<Rightarrow> statement \<Rightarrow> string \<Rightarrow> bool" where
  "active fc st i \<longleftrightarrow> i \<notin> fc_file_ignores fc \<and> i \<notin> stmt_ignores_of st \<and> \<not> is_rule_disabled (fc_config fc) i"

definition speaks :: "file_context \<Rightarrow> statement \<Rightarrow> transition_record \<Rightarrow> rule \<Rightarrow> bool" where
  "speaks fc st tr rl \<longleftrightarrow>
     active fc st (rule_id rl) \<and> (is_unresolved (tr_result tr) \<longrightarrow> evaluates_when_unresolved rl tr)"

definition reported :: "file_context \<Rightarrow> statement \<Rightarrow> violation \<Rightarrow> violation" where
  "reported fc st v = with_sql fc st (with_range st v)"

definition stated :: "file_context \<Rightarrow> statement \<Rightarrow> transition_record \<Rightarrow> analysis_state \<Rightarrow> rule \<Rightarrow> violation list" where
  "stated fc st tr s rl =
     (if speaks fc st tr rl then map (reported fc st) (rule_evaluate rl (rule_context_at fc tr s)) else [])"

definition unkeyed :: "violation \<Rightarrow> bool" where
  "unkeyed v \<longleftrightarrow> v_dedup_key v = None"

lemma reported_simps [simp]:
  "v_rule_id (reported fc st v) = v_rule_id v" "v_tier (reported fc st v) = v_tier v"
  "v_reason (reported fc st v) = v_reason v" "v_dedup_key (reported fc st v) = v_dedup_key v"
  "v_object_name (reported fc st v) = v_object_name v"
  by (simp_all add: reported_def with_sql_def with_range_def split: option.splits)

lemma accept_unkeyed:
  "filter unkeyed (pr_violations (fold (accept_violation fc st w) vs p)) =
     filter unkeyed (pr_violations p) @ filter unkeyed (map (reported fc st) vs)"
  by (induction vs arbitrary: p) (simp_all add: accept_violation_def unkeyed_def reported_def split: option.splits)

lemma accept_ids:
  "v_rule_id ` set (pr_violations (fold (accept_violation fc st w) vs p))
     \<subseteq> v_rule_id ` set (pr_violations p) \<union> v_rule_id ` set vs"
proof (induction vs arbitrary: p)
  case (Cons v vs)
  have "v_rule_id ` set (pr_violations (accept_violation fc st w v p)) \<subseteq> v_rule_id ` set (pr_violations p) \<union> {v_rule_id v}"
    using reported_simps(1) [of fc st v] by (auto simp: accept_violation_def reported_def split: option.splits)
  with Cons.IH [of "accept_violation fc st w v p"] show ?case by auto
qed simp

lemma unresolved_cause_iff: "unresolved_cause r = None \<longleftrightarrow> \<not> is_unresolved r"
  by (cases r) simp_all

lemma evaluate_rule_cases:
  obtains (refused) "evaluate_rule fc st w tr rl p = p\<lparr>pr_violations := pr_violations p @ [suppression_disabled (rule_id rl)]\<rparr>"
      "\<not> active fc st (rule_id rl)"
  | (silent) x where "evaluate_rule fc st w tr rl p = p\<lparr>pr_run := x\<rparr>" "run_state x = run_state (pr_run p)" "\<not> speaks fc st tr rl"
  | (spoken) "evaluate_rule fc st w tr rl p = rule_violations fc st w tr rl p" "speaks fc st tr rl"
proof (cases "rule_id rl \<in> fc_file_ignores fc \<or> rule_id rl \<in> stmt_ignores_of st")
  case True
  then show thesis
    using refused silent [of "pr_run p"]
    by (cases "allow_inline_suppressions (fc_config fc)") (auto simp: evaluate_rule_def active_def speaks_def)
next
  case ignored: False
  show thesis
  proof (cases "is_rule_disabled (fc_config fc) (rule_id rl)")
    case True
    then show thesis using ignored silent [of "pr_run p"] by (simp add: evaluate_rule_def active_def speaks_def)
  next
    case enabled: False
    show thesis
    proof (cases "unresolved_cause (tr_result tr)")
      case None
      then have "\<not> is_unresolved (tr_result tr)" by (simp add: unresolved_cause_iff)
      then show thesis
        using None ignored enabled spoken by (simp add: evaluate_rule_def active_def speaks_def)
    next
      case (Some cause)
      then have "is_unresolved (tr_result tr)" using unresolved_cause_iff [of "tr_result tr"] by simp
      then show thesis
        using ignored enabled Some spoken
          silent [of "record_not_evaluated (not_evaluated_entry fc st rl cause (run_state (pr_run p))) (pr_run p)"]
        by (cases "evaluates_when_unresolved rl tr") (simp_all add: evaluate_rule_def active_def speaks_def)
    qed
  qed
qed

lemma rule_violations_pr:
  "pr_violations (rule_violations fc st w tr rl p) =
     pr_violations (fold (accept_violation fc st w) (rule_evaluate rl (rule_context_at fc tr (run_state (pr_run p))))
       (p\<lparr>pr_run := pr_run (rule_violations fc st w tr rl p)\<rparr>))"
  by (simp add: rule_violations_def rule_context_at_def Let_def)

lemma evaluate_rule_unkeyed:
  "filter unkeyed (pr_violations (evaluate_rule fc st w tr rl p)) =
     filter unkeyed (pr_violations p) @ filter unkeyed (stated fc st tr (run_state (pr_run p)) rl)"
  by (cases rule: evaluate_rule_cases [of fc st w tr rl p])
    (auto simp: stated_def speaks_def rule_violations_pr accept_unkeyed, simp_all add: unkeyed_def suppression_disabled_def)

lemma evaluate_rule_evidence:
  "evidence_only (run_state (pr_run p)) (run_state (pr_run (evaluate_rule fc st w tr rl p)))"
  using rule_violations_evidence by (cases rule: evaluate_rule_cases [of fc st w tr rl p]) simp_all

locale evidence_blind =
  fixes rules :: "rule list"
  assumes blind: "rl \<in> set rules \<Longrightarrow> graph_wf (graph_of s) \<Longrightarrow> evidence_only s t \<Longrightarrow>
      rule_evaluate rl (rule_context_at fc tr t) = rule_evaluate rl (rule_context_at fc tr s)"
    and own_id: "rl \<in> set rules \<Longrightarrow> v \<in> set (rule_evaluate rl ctx) \<Longrightarrow> v_rule_id v = rule_id rl"
begin

lemma stated_blind:
  "rl \<in> set rules \<Longrightarrow> graph_wf (graph_of s) \<Longrightarrow> evidence_only s t \<Longrightarrow> stated fc st tr t rl = stated fc st tr s rl"
  using blind [of rl s t fc tr] by (simp add: stated_def)

lemma fold_unkeyed:
  assumes "graph_wf (graph_of s)" "evidence_only s (run_state (pr_run p))" "set rs \<subseteq> set rules"
  shows "filter unkeyed (pr_violations (fold (evaluate_rule fc st w tr) rs p)) =
     filter unkeyed (pr_violations p) @ filter unkeyed (concat (map (stated fc st tr s) rs))"
  using assms(2,3)
proof (induction rs arbitrary: p)
  case (Cons rl rs)
  have "evidence_only s (run_state (pr_run (evaluate_rule fc st w tr rl p)))"
    using evidence_only_trans [OF Cons.prems(1) evaluate_rule_evidence] .
  from Cons.IH [OF this] Cons.prems show ?case
    using stated_blind [of rl s "run_state (pr_run p)" fc st tr] assms(1) by (simp add: evaluate_rule_unkeyed)
qed simp

lemma findings_exact:
  assumes "fc_rules fc = rules" "graph_wf (graph_of (run_state (pr_run p)))"
  shows "filter unkeyed (pr_violations (evaluate_rules fc st w tr p)) =
     filter unkeyed (pr_violations p)
     @ filter unkeyed (concat (map (stated fc st tr (run_state (pr_run p))) (fc_rules fc)))"
  using assms unfolding evaluate_rules_def by (intro fold_unkeyed) simp_all

end

lemma evidence_only_fields:
  assumes "evidence_only s t"
  shows "l_relations (local t) = l_relations (local s)" "l_constraints (local t) = l_constraints (local s)"
    "l_lock_timeout (local t) = l_lock_timeout (local s)" "l_statement_timeout (local t) = l_statement_timeout (local s)"
    "baseline_available t = baseline_available s" "baseline_schemas t = baseline_schemas s"
    "baseline_relations t = baseline_relations s" "baseline_fk_dependencies t = baseline_fk_dependencies s"
proof -
  have "f (catalog t) = f (catalog s)" for f :: "analysis_state \<Rightarrow> 'b" using assms by (simp add: evidence_only_def)
  from this [of "\<lambda>s. l_relations (local s)"] this [of "\<lambda>s. l_constraints (local s)"]
    this [of "\<lambda>s. l_lock_timeout (local s)"] this [of "\<lambda>s. l_statement_timeout (local s)"]
    this [of baseline_available] this [of baseline_schemas] this [of baseline_relations] this [of baseline_fk_dependencies]
  show "l_relations (local t) = l_relations (local s)" "l_constraints (local t) = l_constraints (local s)"
    "l_lock_timeout (local t) = l_lock_timeout (local s)" "l_statement_timeout (local t) = l_statement_timeout (local s)"
    "baseline_available t = baseline_available s" "baseline_schemas t = baseline_schemas s"
    "baseline_relations t = baseline_relations s" "baseline_fk_dependencies t = baseline_fk_dependencies s"
    by (simp_all add: catalog_def core_def)
qed

lemmas rule_defs =
  reversibility_rule_def lock_table_rule_def drop_database_rule_def general_cascade_rule_def cascading_drop_rule_def
  require_concurrent_reindex_rule_def require_lock_timeout_rule_def require_statement_timeout_rule_def
  restrictive_policy_rule_def idempotency_rule_def concurrent_in_transaction_rule_def vacuum_full_rule_def
  opaque_rule_def overbroad_grant_rule_def drift_rule_def conflict_rule_def

lemmas evaluate_defs =
  reversibility_evaluate_def lock_table_evaluate_def drop_database_evaluate_def general_cascade_evaluate_def
  cascading_drop_evaluate_def require_concurrent_reindex_evaluate_def timeout_evaluate_def
  restrictive_policy_evaluate_def idempotency_evaluate_def concurrent_in_transaction_evaluate_def vacuum_full_evaluate_def
  opaque_evaluate_def overbroad_grant_evaluate_def drift_evaluate_def conflict_evaluate_def

text \<open>The rules have the ids of the registry and stand in its order.\<close>

lemma registry_order:
  "map rule_id modelled_rules = filter (\<lambda>i. i \<in> set (map rule_id modelled_rules)) primary_rule_ids"
  by (simp add: modelled_rules_def rule_defs primary_rule_ids_def primary_rules_def)

lemma state_reads_blind:
  assumes "evidence_only s t"
  shows "reindex_target_is_temporary t = reindex_target_is_temporary s" "backs_exclusion t = backs_exclusion s"
    "lock_timeout_reason t = lock_timeout_reason s" "statement_timeout_reason t = statement_timeout_reason s"
    "every_grantee_owns_every_table t = every_grantee_owns_every_table s" "scope_warning t = scope_warning s"
    "cascade_affects_baseline t = cascade_affects_baseline s" "cascade_pulls_foreign_keys t = cascade_pulls_foreign_keys s"
proof -
  note same = evidence_only_fields [OF assms]
  show "reindex_target_is_temporary t = reindex_target_is_temporary s"
  proof
    show "reindex_target_is_temporary t x = reindex_target_is_temporary s x" for x by (cases x) (simp_all add: same)
  qed
  show "backs_exclusion t = backs_exclusion s"
  proof
    show "backs_exclusion t x = backs_exclusion s x" for x
      by (cases x) (simp_all add: index_backs_exclusion_constraint_def same)
  qed
  have "owns_all t tables = owns_all s tables" for tables
  proof
    show "owns_all t tables x = owns_all s tables x" for x by (cases x) (simp_all add: relation_is_owned_by_def same)
  qed
  then show "every_grantee_owns_every_table t = every_grantee_owns_every_table s"
    by (intro ext) (simp add: every_grantee_owns_every_table_def split: grant_target.split)
  show "lock_timeout_reason t = lock_timeout_reason s" "statement_timeout_reason t = statement_timeout_reason s"
    unfolding lock_timeout_reason_def statement_timeout_reason_def effective_lock_timeout_def effective_statement_timeout_def same
    by (rule refl)+
qed (simp_all add: scope_warning_def baseline_scope_omits_displayed_object_def
    cascade_affects_baseline_def cascade_pulls_foreign_keys_def evidence_only_fields [OF assms] fun_eq_iff)

lemma in_transaction_blind:
  "graph_wf (graph_of s) \<Longrightarrow> evidence_only s t \<Longrightarrow> Maintenance.in_transaction t = Maintenance.in_transaction s"
  unfolding Maintenance.in_transaction_def evidence_only_def using logged_keeps_depth [of s t] by presburger

lemma modelled_rules_blind:
  assumes "rl \<in> set modelled_rules" "graph_wf (graph_of s)" "evidence_only s t"
  shows "rule_evaluate rl (rule_context_at fc tr t) = rule_evaluate rl (rule_context_at fc tr s)"
proof -
  note same = evidence_only_fields(5) [OF assms(3)] state_reads_blind [OF assms(3)] in_transaction_blind [OF assms(2,3)]
  show ?thesis
    using assms(1) unfolding modelled_rules_def
    by (simp only: list.set insert_iff empty_iff, elim disjE)
      (simp_all only: rule_defs rule.select_convs,
       unfold evaluate_defs rule_context_at_def rule_context.select_convs same reindex_evaluate_target_def, simp_all)
qed

definition emits :: "string \<Rightarrow> violation list \<Rightarrow> bool" where
  "emits i vs \<longleftrightarrow> (\<forall>v \<in> set vs. v_rule_id v = i)"

lemma emits_simps [simp]:
  "emits i []" "emits i (v # vs) \<longleftrightarrow> v_rule_id v = i \<and> emits i vs" "emits i (vs @ us) \<longleftrightarrow> emits i vs \<and> emits i us"
  "emits i (map f xs) \<longleftrightarrow> (\<forall>x \<in> set xs. v_rule_id (f x) = i)"
  by (auto simp: emits_def)

lemma finding_ids [simp]:
  "v_rule_id (finding i kind name tier reason recipe key) = i" "v_rule_id (conflict_finding reason) = ''chain-conflict''"
  "v_rule_id (unguarded kind name reason) = ''missing-idempotency''" "v_rule_id (drift_finding kind name what) = ''schema-drift''"
  "v_rule_id (scope_warning s v) = v_rule_id v" "v_rule_id (cascading_drop_finding d b) = ''destructive-cascade''"
  "v_rule_id (irreversible_finding c ps ids) = ''irreversible-migration''"
  by (simp_all add: finding_def conflict_finding_def unguarded_def drift_finding_def scope_warning_def
      cascading_drop_finding_def irreversible_finding_def split: option.split)

lemma evaluate_emits:
  "emits ''irreversible-migration'' (reversibility_evaluate ctx)" "emits ''table-lock'' (lock_table_evaluate ctx)"
  "emits ''drop-database'' (drop_database_evaluate ctx)" "emits ''destructive-general-cascade'' (general_cascade_evaluate ctx)"
  "emits ''destructive-cascade'' (cascading_drop_evaluate ctx)"
  "emits ''require-concurrent-reindex'' (require_concurrent_reindex_evaluate ctx)"
  "emits i (timeout_evaluate i recipe reason_of ctx)" "emits ''restrictive-policy'' (restrictive_policy_evaluate ctx)"
  "emits ''missing-idempotency'' (idempotency_evaluate ctx)"
  "emits ''concurrent-in-transaction'' (concurrent_in_transaction_evaluate ctx)" "emits ''vacuum-full'' (vacuum_full_evaluate ctx)"
  "emits ''opaque-dynamic-sql'' (opaque_evaluate ctx)" "emits ''overbroad-grant'' (overbroad_grant_evaluate ctx)"
  "emits ''schema-drift'' (drift_evaluate ctx)" "emits ''chain-conflict'' (conflict_evaluate ctx)"
proof -
  have "emits ''schema-drift'' (drift_findings m ps)" for m ps
    by (simp add: drift_findings_def split: mutation.split ddl.split opaque_mutation.split)
  then show "emits ''schema-drift'' (drift_evaluate ctx)" by (simp add: drift_evaluate_def emits_def)
  have "emits ''missing-idempotency'' (idempotency_ddl d)" for d by (simp add: idempotency_ddl_def split: ddl.split)
  then show "emits ''missing-idempotency'' (idempotency_evaluate ctx)" by (simp add: idempotency_evaluate_def split: mutation.split)
qed (simp_all add: evaluate_defs reindex_evaluate_target_def Let_def split: mutation.split ddl.split option.split prod.split bool.split)

lemma modelled_rules_emit: "rl \<in> set modelled_rules \<Longrightarrow> emits (rule_id rl) (rule_evaluate rl ctx)"
  unfolding modelled_rules_def
  by (simp only: list.set insert_iff empty_iff, elim disjE) (simp_all add: rule_defs evaluate_emits)

interpretation registry: evidence_blind modelled_rules
proof
  show "rl \<in> set modelled_rules \<Longrightarrow> graph_wf (graph_of s) \<Longrightarrow> evidence_only s t \<Longrightarrow>
      rule_evaluate rl (rule_context_at fc tr t) = rule_evaluate rl (rule_context_at fc tr s)" for rl s t fc tr
    by (rule modelled_rules_blind)
  show "rl \<in> set modelled_rules \<Longrightarrow> v \<in> set (rule_evaluate rl ctx) \<Longrightarrow> v_rule_id v = rule_id rl" for rl v ctx
    using modelled_rules_emit by (simp add: emits_def)
qed

section \<open>What reaches the report\<close>

lemma accept_keeps: "set (pr_violations p) \<subseteq> set (pr_violations (fold (accept_violation fc st w) vs p))"
proof (induction vs arbitrary: p)
  case (Cons v vs)
  have "set (pr_violations p) \<subseteq> set (pr_violations (accept_violation fc st w v p))"
    by (auto simp: accept_violation_def split: option.splits)
  with Cons.IH [of "accept_violation fc st w v p"] show ?case by auto
qed simp

lemma evaluate_rule_keeps: "set (pr_violations p) \<subseteq> set (pr_violations (evaluate_rule fc st w tr rl p))"
  using accept_keeps [of "p\<lparr>pr_run := pr_run (rule_violations fc st w tr rl p)\<rparr>"]
  by (cases rule: evaluate_rule_cases [of fc st w tr rl p]) (auto simp: rule_violations_pr)

lemma evaluate_all_keep: "set (pr_violations p) \<subseteq> set (pr_violations (fold (evaluate_rule fc st w tr) rs p))"
proof (induction rs arbitrary: p)
  case (Cons rl rs)
  show ?case using evaluate_rule_keeps [of p fc st w tr rl] Cons.IH [of "evaluate_rule fc st w tr rl p"] by auto
qed simp

lemma fold_reported:
  assumes "rl \<in> set rs" "speaks fc st tr rl" "unkeyed v"
    and "\<And>t. evidence_only s t \<Longrightarrow> v \<in> set (rule_evaluate rl (rule_context_at fc tr t))"
    and "evidence_only s (run_state (pr_run p))"
  shows "reported fc st v \<in> set (pr_violations (fold (evaluate_rule fc st w tr) rs p))"
  using assms(1,5)
proof (induction rs arbitrary: p)
  case (Cons r rs)
  show ?case
  proof (cases "r = rl")
    case True
    have "reported fc st v \<in> set (filter unkeyed (stated fc st tr (run_state (pr_run p)) rl))"
      using assms(2,3) assms(4) [OF Cons.prems(2)] by (simp add: stated_def unkeyed_def)
    then have "reported fc st v \<in> set (filter unkeyed (pr_violations (evaluate_rule fc st w tr rl p)))"
      unfolding evaluate_rule_unkeyed by simp
    then show ?thesis using True evaluate_all_keep [of "evaluate_rule fc st w tr rl p" fc st w tr rs] by auto
  next
    case False
    have "evidence_only s (run_state (pr_run (evaluate_rule fc st w tr r p)))"
      by (rule evidence_only_trans [OF Cons.prems(2) evaluate_rule_evidence])
    with Cons.IH False Cons.prems(1) show ?thesis by auto
  qed
qed simp

lemma evaluate_rule_ids:
  "v_rule_id ` set (pr_violations (evaluate_rule fc st w tr rl p)) \<subseteq>
     v_rule_id ` set (pr_violations p) \<union> {''inline-suppression-disabled''}
     \<union> v_rule_id ` set (rule_evaluate rl (rule_context_at fc tr (run_state (pr_run p))))"
  using accept_ids [of fc st w _ "p\<lparr>pr_run := pr_run (rule_violations fc st w tr rl p)\<rparr>"]
  by (cases rule: evaluate_rule_cases [of fc st w tr rl p]) (auto simp: rule_violations_pr suppression_disabled_def)

section \<open>Conflicts\<close>

lemma conflict_silent: "tr_result tr = r \<Longrightarrow> \<not> is_conflict r \<or> is_concurrent_transaction_conflict r \<Longrightarrow>
    rule_evaluate conflict_rule (rule_context_at fc tr s) = []"
  by (cases r rule: is_concurrent_transaction_conflict.cases)
    (simp_all add: conflict_rule_def conflict_evaluate_def rule_context_at_def)

lemma only_conflict_rule: "rl \<in> set modelled_rules \<Longrightarrow> rule_id rl = ''chain-conflict'' \<Longrightarrow> rl = conflict_rule"
  unfolding modelled_rules_def by (simp only: list.set insert_iff empty_iff, elim disjE) (simp_all add: rule_defs)

lemma no_conflict_finding:
  assumes "\<not> is_conflict (tr_result tr) \<or> is_concurrent_transaction_conflict (tr_result tr)"
    and "set rs \<subseteq> set modelled_rules" "''chain-conflict'' \<notin> v_rule_id ` set (pr_violations p)"
  shows "''chain-conflict'' \<notin> v_rule_id ` set (pr_violations (fold (evaluate_rule fc st w tr) rs p))"
  using assms(2,3)
proof (induction rs arbitrary: p)
  case (Cons rl rs)
  let ?ctx = "rule_context_at fc tr (run_state (pr_run p))"
  have "''chain-conflict'' \<notin> v_rule_id ` set (rule_evaluate rl ?ctx)"
  proof (cases "rl = conflict_rule")
    case True
    then show ?thesis using conflict_silent [OF refl assms(1)] by simp
  next
    case False
    then show ?thesis using Cons.prems(1) only_conflict_rule [of rl] registry.own_id [of rl _ ?ctx] by force
  qed
  with evaluate_rule_ids [of fc st w tr rl p] Cons.prems Cons.IH [of "evaluate_rule fc st w tr rl p"] show ?case by auto
qed simp

text \<open>What the report of a statement says of the conflict that made it fail.\<close>

definition conflict_reported :: "conflict_kind \<Rightarrow> violation list \<Rightarrow> bool" where
  "conflict_reported k vs \<longleftrightarrow>
     (case k of
        Rejected reason \<Rightarrow>
          \<exists>v \<in> set vs. v_rule_id v = ''chain-conflict'' \<and> v_tier v = Tier1
            \<and> v_reason v = ''Migration chain conflict: '' @ reason
      | ConcurrentInTransaction \<Rightarrow> ''chain-conflict'' \<notin> v_rule_id ` set vs)"

lemma conflict_spoken:
  assumes "tr_result tr = Conflict k" "fc_rules fc = modelled_rules" "active fc st ''chain-conflict''"
    and "''chain-conflict'' \<notin> v_rule_id ` set (pr_violations p)"
  shows "conflict_reported k (pr_violations (evaluate_rules fc st w tr p))"
proof (cases k)
  case ConcurrentInTransaction
  then show ?thesis
    using no_conflict_finding [of tr modelled_rules p fc st w] assms
    by (simp add: conflict_reported_def evaluate_rules_def)
next
  case (Rejected reason)
  have "reported fc st (conflict_finding reason) \<in> set (pr_violations (evaluate_rules fc st w tr p))"
    unfolding evaluate_rules_def
    by (rule fold_reported [where rl = conflict_rule and s = "run_state (pr_run p)"])
      (use assms Rejected in \<open>simp_all add: modelled_rules_def speaks_def unkeyed_def conflict_rule_def
        conflict_evaluate_def conflict_finding_def finding_def rule_context_at_def\<close>)
  then show ?thesis
    unfolding conflict_reported_def Rejected conflict_kind.case
    by (rule rev_bexI) (simp add: conflict_finding_def finding_def)
qed

text \<open>
  C12. A statement fails because one of its mutations, run on the state that the mutations before it left,
  ends in a conflict, and the report says so: if the catalogue rejects the mutation, the findings
  of the statement contain one of the highest tier with the reason of that very conflict. If it is a
  concurrent operation in a transaction block, the statement has no finding of this rule. A
  statement that does not fail has none either. The rule has to be switched on, and the statement
  starts without such a finding, as every statement does.\<close>

theorem failed_statements_are_reported:
  assumes "fc_rules fc = modelled_rules" "active fc st ''chain-conflict''"
    and "run_statement fc st w cp ms ps p = Some (Inr (failed, ps', p'))"
    and "''chain-conflict'' \<notin> v_rule_id ` set (pr_violations p)"
  shows "if failed
    then \<exists>ms1 m ms2 ps1 q k t. ms = ms1 @ m # ms2
       \<and> run_statement fc st w cp ms1 ps p = Some (Inr (False, ps1, q))
       \<and> apply_mutation (fc_order fc) (pre_cascade_of m (run_state (pr_run q))) m (run_state (pr_run q)) = Some (Conflict k, t)
       \<and> conflict_reported k (pr_violations p')
    else ''chain-conflict'' \<notin> v_rule_id ` set (pr_violations p')"
  using assms(3,4)
proof (induction ms arbitrary: ps p)
  case Nil
  then show ?case by auto
next
  case (Cons m ms)
  let ?s = "run_state (pr_run p)"
  from Cons.prems(1) obtain r t where rt: "apply_mutation (fc_order fc) (pre_cascade_of m ?s) m ?s = Some (r, t)"
    by (auto simp: Let_def split: option.splits)
  let ?tr = "\<lparr>tr_mutation = m, tr_result = r, tr_pre_state = capture_pre_state_into ?s ps, tr_cascade_closure = pre_cascade_of m ?s\<rparr>"
  let ?p1 = "p\<lparr>pr_run := on_state (\<lambda>_. t) (pr_run p)\<rparr>"
  show ?case
  proof (cases "is_conflict r")
    case True
    then obtain x k where x: "failed" "p' = evaluate_rules fc st w ?tr \<lparr>pr_run = x, pr_violations = [], pr_warned_keys = {}\<rparr>"
      and k: "r = Conflict k"
      using Cons.prems(1) rt by (cases r) (auto simp: Let_def split: sum.splits)
    have "conflict_reported k (pr_violations p')"
      unfolding x(2) by (rule conflict_spoken) (simp_all add: k assms(1,2))
    moreover have "m # ms = [] @ m # ms" "run_statement fc st w cp [] ps p = Some (Inr (False, ps, p))" by simp_all
    ultimately show ?thesis using x(1) rt k by metis
  next
    case False
    let ?q = "if r = NotExecuted then ?p1 else evaluate_rules fc st w ?tr ?p1"
    have step: "run_statement fc st w cp (m # ns) ps p = run_statement fc st w cp ns (capture_pre_state_into ?s ps) ?q" for ns
      using rt False by (simp add: Let_def)
    have "''chain-conflict'' \<notin> v_rule_id ` set (pr_violations ?q)"
      using no_conflict_finding [of ?tr modelled_rules ?p1 fc st w] False Cons.prems(2) assms(1)
      by (simp add: evaluate_rules_def)
    from Cons.IH [OF Cons.prems(1) [unfolded step] this] show ?thesis
      using step by (metis append_Cons)
  qed
qed

section \<open>Cascades\<close>

lemma taint_relations [simp]: "l_relations (local (taint c sc s)) = l_relations (local s)"
  by (rule evidence_only_fields(1) [OF taint_evidence_only])

lemma early_returns_keep_relations:
  "drop_targets s b ids found u = Inl (r, t) \<Longrightarrow> l_relations (local t) = l_relations (local s)"
  "drop_roots h d pre res targets s = Inl (r, t) \<Longrightarrow> l_relations (local t) = l_relations (local s)"
proof -
  show "drop_targets s b ids found u = Inl (r, t) \<Longrightarrow> l_relations (local t) = l_relations (local s)"
    by (induction ids arbitrary: found u) (auto simp: unresolved_def split: object_lookup.splits if_splits)
  show "drop_roots h d pre res targets s = Inl (r, t) \<Longrightarrow> l_relations (local t) = l_relations (local s)"
    by (auto simp: drop_roots_def Let_def unresolved_def split: if_splits)
qed

lemma not_applied_keeps_relations:
  assumes "apply_drop_table h d pre s = (r, t)" "r \<noteq> Applied"
  shows "l_relations (local t) = l_relations (local s)"
  using assms early_returns_keep_relations unfolding apply_drop_table_def Let_def
  by (fastforce simp: unresolved_def split: if_splits list.splits sum.splits prod.splits)

lemma drop_attached_relations [simp]: "l_relations (local (drop_attached h res c s)) = l_relations (local s)"
proof -
  have "l_relations (local (fold f ys u)) = l_relations (local u)"
    if "\<And>y u. l_relations (local (f y u)) = l_relations (local u)" for f :: "'y \<Rightarrow> analysis_state \<Rightarrow> analysis_state" and ys u
    using that by (induction ys arbitrary: u) simp_all
  then show ?thesis
    by (simp add: drop_attached_def remove_dropped_constraints_def Let_def frame_simps)
qed

lemma drop_table_cascade_applied:
  assumes "lists_all h" "finite (dropped_relations c)" "dt_cascade d" "apply_drop_table h d (Some c) s = (Applied, t)"
  shows "l_relations (local t) i = (if i \<in> dropped_relations c then Some Dropped else l_relations (local s) i)"
proof -
  obtain found c' s1 b where roots: "drop_roots h d (Some c) (drop_resolve s) (present_targets found) s = Inr (c', s1)"
    and t: "t = (if b then taint CatalogCoverageIncomplete ChainScope (drop_attached h (drop_resolve s) c' s1)
              else drop_attached h (drop_resolve s) c' s1)"
    using assms(4) by (rule apply_drop_table_applied)
  have "l_relations (local s1) i = (if i \<in> dropped_relations c then Some Dropped else l_relations (local s) i)"
    using roots assms(1-3) by (cases rule: drop_roots_cases) (auto simp: frame_simps fold_drop_relation lists_all_def)
  then show ?thesis using t by auto
qed

lemma drop_table_cascade_relations:
  assumes "lists_all h" "finite (dropped_relations c)" "dt_cascade d" "apply_drop_table h d (Some c) s = (r, t)"
    and "l_relations (local t) i \<noteq> l_relations (local s) i"
  shows "r = Applied \<and> i \<in> dropped_relations c"
  using not_applied_keeps_relations [OF assms(4)] drop_table_cascade_applied [OF assms(1-3), of s t i] assms(4,5)
  by (cases "r = Applied") (auto split: if_splits)

lemma drop_step_baseline [simp]:
  "baseline_relations (drop_relation i s) = baseline_relations s" "baseline_relations (drop_sequence i s) = baseline_relations s"
  "baseline_relations (drop_trigger i s) = baseline_relations s" "baseline_relations (remove_constraint k s) = baseline_relations s"
  "baseline_relations (set_publication_objects u s) = baseline_relations s" "baseline_relations (retain_graph P s) = baseline_relations s"
  "baseline_relations (forget_pending g s) = baseline_relations s"
  "baseline_relations (forget_baseline_foreign_keys g s) = baseline_relations s"
  "baseline_relations (taint c sc s) = baseline_relations s"
  using evidence_only_fields(7) [OF taint_evidence_only [of s c sc]]
  by (simp_all add: drop_relation_def drop_sequence_def drop_trigger_def remove_constraint_def set_publication_objects_def
      retain_graph_def forget_pending_def forget_baseline_foreign_keys_def upd_local_def on_graph_def snapshot_defs log_change_def
      split: prod.splits)

lemma fold_baseline:
  "(\<And>y u. baseline_relations (f y u) = baseline_relations u) \<Longrightarrow> baseline_relations (fold f ys s) = baseline_relations s"
  by (induction ys arbitrary: s) simp_all

lemma drop_table_baseline:
  assumes "apply_drop_table h d pre s = (Applied, t)"
  shows "baseline_relations t = baseline_relations s"
proof -
  obtain found c s1 b where roots: "drop_roots h d pre (drop_resolve s) (present_targets found) s = Inr (c, s1)"
    and t: "t = (if b then taint CatalogCoverageIncomplete ChainScope (drop_attached h (drop_resolve s) c s1)
              else drop_attached h (drop_resolve s) c s1)"
    using assms by (rule apply_drop_table_applied)
  have "baseline_relations s1 = baseline_relations s"
    using roots by (cases rule: drop_roots_cases) (auto simp: fold_baseline)
  then show ?thesis
    by (simp add: t drop_attached_def remove_dropped_constraints_def Let_def fold_baseline)
qed

lemma timeout_checks_evidence:
  assumes "set ms \<subseteq> range CheckTimeouts" "run_statement fc st w cp ms ps p = Some (Inr (failed, ps', p'))"
  shows "evidence_only (run_state (pr_run p)) (run_state (pr_run p')) \<and> set (pr_violations p) \<subseteq> set (pr_violations p')"
  using assms
proof (induction ms arbitrary: ps p)
  case (Cons m ms)
  let ?s = "run_state (pr_run p)"
  obtain subject where m: "m = CheckTimeouts subject" using Cons.prems(1) by auto
  obtain r where r: "apply_mutation (fc_order fc) (pre_cascade_of m ?s) m ?s = Some (r, ?s)" "r = Applied \<or> r = NotExecuted"
    by (cases "l_transaction_aborted (local ?s)") (simp_all add: m apply_mutation_def)
  let ?tr = "\<lparr>tr_mutation = m, tr_result = r, tr_pre_state = capture_pre_state_into ?s ps, tr_cascade_closure = pre_cascade_of m ?s\<rparr>"
  let ?q = "if r = NotExecuted then p else evaluate_rules fc st w ?tr p"
  have p: "p\<lparr>pr_run := on_state (\<lambda>_. ?s) (pr_run p)\<rparr> = p" by (simp add: on_state_def)
  have "run_statement fc st w cp ms (capture_pre_state_into ?s ps) ?q = Some (Inr (failed, ps', p'))"
    using Cons.prems(2) r by (auto simp: Let_def p)
  from Cons.IH [OF _ this] Cons.prems(1) have rest: "evidence_only (run_state (pr_run ?q)) (run_state (pr_run p'))"
    "set (pr_violations ?q) \<subseteq> set (pr_violations p')" by simp_all
  have "evidence_only ?s (run_state (pr_run ?q))" using evaluate_rules_evidence by simp
  moreover have "set (pr_violations p) \<subseteq> set (pr_violations ?q)"
    using evaluate_all_keep [of p fc st w ?tr "fc_rules fc"] by (simp add: evaluate_rules_def)
  ultimately show ?case using rest evidence_only_trans by blast
qed auto

text \<open>
  C11. No relation of the baseline disappears silently: when a \<^verbatim>\<open>DROP TABLE CASCADE\<close> that does not fail
  makes a relation of the synchronized database disappear that the statement does not name, the
  report has the finding at the highest tier, unless its rule is switched off.\<close>

theorem cascaded_baseline_drops_are_reported:
  assumes "fc_rules fc = modelled_rules" "active fc st ''destructive-cascade''" "lists_all (fc_order fc)"
    and "graph_wf (graph_of (run_state (pr_run p)))" "dt_cascade d" "set ms \<subseteq> range CheckTimeouts"
    and "run_statement fc st w cp (DropTable d # ms) ps p = Some (Inr (False, ps', p'))"
    and "i \<in> baseline_relations (run_state (pr_run p))" "i \<notin> oid ` set (dt_ids d)"
    and "relation_is_present (run_state (pr_run p)) i" "\<not> relation_is_present (run_state (pr_run p')) i"
  shows "\<exists>v \<in> set (pr_violations p'). v_rule_id v = ''destructive-cascade'' \<and> v_tier v = Tier1
    \<and> v_object_name v = display_ids (dt_ids d)"
proof -
  let ?s = "run_state (pr_run p)" and ?c = "cascade_for_relations (run_state (pr_run p)) (map oid (dt_ids d))"
  from assms(7) obtain r t where rt: "apply_mutation (fc_order fc) (pre_cascade_of (DropTable d) ?s) (DropTable d) ?s = Some (r, t)"
    by (auto simp: Let_def split: option.splits)
  let ?tr = "\<lparr>tr_mutation = DropTable d, tr_result = r, tr_pre_state = capture_pre_state_into ?s ps, tr_cascade_closure = Some ?c\<rparr>"
  let ?p1 = "p\<lparr>pr_run := on_state (\<lambda>_. t) (pr_run p)\<rparr>"
  let ?q = "if r = NotExecuted then ?p1 else evaluate_rules fc st w ?tr ?p1"
  have ok: "\<not> is_conflict r" using assms(7) rt by (auto simp: Let_def split: sum.splits)
  then have "run_statement fc st w cp ms (capture_pre_state_into ?s ps) ?q = Some (Inr (False, ps', p'))"
    using assms(5,7) rt by (simp add: Let_def split: if_splits)
  note rest = timeout_checks_evidence [OF assms(6) this]
  have "evidence_only t (run_state (pr_run ?q))" using evaluate_rules_evidence [of ?p1 fc st w ?tr] by simp
  then have "evidence_only t (run_state (pr_run p'))" using rest evidence_only_trans by blast
  then have "l_relations (local (run_state (pr_run p'))) = l_relations (local t)" by (rule evidence_only_fields)
  then have changed: "l_relations (local t) i \<noteq> l_relations (local ?s) i"
    using assms(10,11) unfolding relation_is_present_def by metis
  have a: "apply_drop_table (fc_order fc) d (Some ?c) ?s = (r, t)"
    using rt
  proof (cases rule: apply_mutation_cases)
    case skipped
    then show ?thesis using changed by simp
  next
    case (run u)
    then show ?thesis using ok assms(5) by simp
  qed
  have "finite (dropped_relations ?c)"
    by (simp add: cascade_for_relations_dropped [OF assms(4)] finite_cascade)
  then have i: "r = Applied" "i \<in> dropped_relations ?c"
    using drop_table_cascade_relations [OF assms(3) _ assms(5) a changed] by simp_all
  have aff: "cascade_affects_baseline t (tr_pre_state ?tr) (oid ` set (dt_ids d)) ?c"
    using i(2) assms(8,9) drop_table_baseline [of "fc_order fc" d "Some ?c" ?s t] a i(1) by (auto simp: cascade_affects_baseline_def)
  let ?v = "cascading_drop_finding d (cascade_pulls_foreign_keys t (oid ` set (dt_ids d)) ?c)"
  have "?v \<in> set (rule_evaluate cascading_drop_rule (rule_context_at fc ?tr u))" if "evidence_only t u" for u
    using aff i(1) assms(5) state_reads_blind(7,8) [OF that]
    by (simp add: cascading_drop_rule_def cascading_drop_evaluate_def rule_context_at_def Let_def)
  then have "reported fc st ?v \<in> set (pr_violations (evaluate_rules fc st w ?tr ?p1))"
    unfolding evaluate_rules_def
    by (intro fold_reported [where rl = cascading_drop_rule and s = t])
      (use assms(1,2) i(1) in \<open>simp_all add: modelled_rules_def speaks_def unkeyed_def cascading_drop_rule_def
        cascading_drop_finding_def finding_def\<close>)
  then have "reported fc st ?v \<in> set (pr_violations p')" using rest i(1) by auto
  then show ?thesis by (rule rev_bexI) (simp add: cascading_drop_finding_def finding_def)
qed

section \<open>All findings of a mutation\<close>

text \<open>
  C13. The findings without a key that one mutation adds to the report are those that the rules which
  are switched on state about it, each on the state right after the mutation, in the order of the
  registry: what a rule records as missing evidence never changes what a later one says, and a rule
  that cannot speak about an unresolved mutation says nothing.\<close>

theorem findings_of_a_mutation_exact:
  assumes "fc_rules fc = modelled_rules" "graph_wf (graph_of (run_state (pr_run p)))"
  shows "filter unkeyed (pr_violations (evaluate_rules fc st w tr p)) =
     filter unkeyed (pr_violations p)
     @ filter unkeyed (concat (map (stated fc st tr (run_state (pr_run p))) modelled_rules))"
  using registry.findings_exact [OF assms] assms(1) by simp

text \<open>
  A check of the timeouts is silent exactly when a positive \<^verbatim>\<open>lock_timeout\<close> is in effect that is shorter
  than every positive \<^verbatim>\<open>statement_timeout\<close> in effect.\<close>

theorem lock_timeout_rule_exact:
  assumes "tr_mutation tr = CheckTimeouts subject" "tr_result tr = Applied"
  shows "rule_evaluate require_lock_timeout_rule (rule_context_at fc tr s) = [] \<longleftrightarrow>
     (\<exists>l. effective_lock_timeout s = Some l \<and> 0 < l
        \<and> (\<forall>t. effective_statement_timeout s = Some t \<longrightarrow> 0 < t \<longrightarrow> l < t))"
  using assms
  by (cases "effective_lock_timeout s"; cases "effective_statement_timeout s")
    (auto simp: require_lock_timeout_rule_def timeout_evaluate_def rule_context_at_def lock_timeout_reason_def
      word_gt_0 not_less split: prod.splits)

text \<open>
  The tier of a drop or a truncation of several tables is read off the largest known estimate, so
  one table known to be empty hides another whose size is unknown, although that one alone counts
  with the configured default.\<close>

theorem empty_table_hides_unknown_size:
  assumes "ps_relations ps (oid a) = Some ra" "r_estimated_rows ra = Some 0"
    and "ps_relations ps (oid b) = Some rb" "r_estimated_rows rb = None" "default_rows c \<noteq> 0"
  shows "v_tier (irreversible_finding c ps [a, b]) = Tier3 \<and> v_tier (irreversible_finding c ps [b]) = Tier1"
  using assms by (simp add: irreversible_finding_def largest_estimate_def map_filter_simps finding_def)

section \<open>Concrete instances\<close>

lemma sample_file_simps [simp]:
  "fc_rules (sample_file rules) = rules" "fc_order (sample_file rules) = sample_order"
  "fc_config (sample_file rules) = config_default" "fc_file_ignores (sample_file rules) = {''opaque''}"
  by (simp_all add: sample_file_def)

lemma sample_active: "i \<noteq> ''opaque'' \<Longrightarrow> active (sample_file rules) sample_statement i"
  by (simp add: active_def sample_statement_def stmt_ignores_of_def is_rule_disabled_def config_default_def)

theorem failed_statements_are_reported_witness:
  "\<exists>ps' p'. run_statement (sample_file modelled_rules) sample_statement {} (capture sample_run [RollbackToSavepoint ''x''])
       [RollbackToSavepoint ''x''] pre_state_default (fresh_progress sample_run) = Some (Inr (True, ps', p'))
     \<and> (\<exists>v \<in> set (pr_violations p'). v_rule_id v = ''chain-conflict'' \<and> v_tier v = Tier1)"
proof -
  let ?m = "RollbackToSavepoint ''x''"
  have "apply_mutation sample_order None ?m sample_open = Some (fst (missing_savepoint ''x'' sample_open), sample_aborted)"
    using sample_missing(1) by (simp add: missing_savepoint_def Let_def)
  then obtain ps' p' where p: "run_statement (sample_file modelled_rules) sample_statement {} (capture sample_run [?m])
       [?m] pre_state_default (fresh_progress sample_run) = Some (Inr (True, ps', p'))"
    by (auto simp: sample_run_def fresh_progress_def capture_def after_conflict_def missing_savepoint_def conflict_def Let_def)
  have "apply_mutation h pre ?m s \<noteq> Some (Conflict ConcurrentInTransaction, t)" for h pre s t
    by (auto simp: apply_mutation_def apply_rollback_to_savepoint_def missing_savepoint_def conflict_def Let_def
        split: option.splits)
  moreover obtain ms1 m ms2 k t and q :: progress where m: "[?m] = ms1 @ m # ms2" and k: "conflict_reported k (pr_violations p')"
    and mt: "apply_mutation sample_order (pre_cascade_of m (run_state (pr_run q))) m (run_state (pr_run q)) = Some (Conflict k, t)"
    using failed_statements_are_reported [OF _ sample_active p] by (simp add: fresh_progress_def) blast
  moreover from m have "m = ?m" by (simp add: Cons_eq_append_conv)
  ultimately have "k \<noteq> ConcurrentInTransaction" by metis
  with p k show ?thesis by (auto simp: conflict_reported_def split: conflict_kind.splits)
qed

definition cascade_sample :: analysis_state where
  "cascade_sample = (drop_sample [sample_partition])\<lparr>baseline_relations := {Oid ''s'' ''p''},
     baseline_coverage := \<lparr>cov_schema_scope = AllNonSystem, cov_families = {FamRelations, FamDependencies}\<rparr>\<rparr>"

definition cascade_drop :: drop_table where
  "cascade_drop = (drop_of [''t''])\<lparr>dt_cascade := True\<rparr>"

lemma cascade_sample_simps [simp]:
  "local cascade_sample = local (drop_sample [sample_partition])" "baseline_relations cascade_sample = {Oid ''s'' ''p''}"
  "coverage_has (baseline_coverage cascade_sample) FamDependencies"
  by (simp_all add: cascade_sample_def coverage_has_def)

lemma cascade_drop_simps [simp]:
  "dt_ids cascade_drop = [object_id_new ''s'' ''t'']" "dt_cascade cascade_drop" "oid (object_id_new ''s'' n) = Oid ''s'' n"
  by (simp_all add: cascade_drop_def drop_of_def oid_def object_id_new_def)

lemma cascade_sample_closure:
  "Oid ''s'' ''p'' \<in> dropped_relations (cascade_for_relations cascade_sample [Oid ''s'' ''t''])"
proof -
  have "(Oid ''s'' ''t'', Oid ''s'' ''p'') \<in> cascade_rel cascade_sample"
    unfolding cascade_rel_def cascade_sample_simps drop_sample_resolve drop_sample_edges
    by (simp add: dependency_edge_is_current_def)
  then show ?thesis
    by (auto simp: cascade_for_relations_dropped drop_sample_wf drop_sample_resolve)
qed

lemma cascade_sample_applied:
  "\<exists>t. apply_drop_table sample_order cascade_drop (Some c) cascade_sample = (Applied, t)"
proof -
  have "extension_member_drop_conflict sample_order cascade_sample k i n = None" for k i n
    by (simp add: extension_member_drop_conflict_def sample_order_def) (simp add: drop_sample_defs)
  moreover have "relation_lookup cascade_sample (object_id_new ''s'' ''t'') (\<lambda>kind. kind = Table) = LookupPresent"
    by (simp add: relation_lookup_def lookup_shadowed_def object_id_new_def oid_def drop_sample_defs sample_relation_def
        add_column_def relation_new_def Let_def)
  ultimately show ?thesis
    by (simp add: apply_drop_table_def map_filter_simps present_targets_def drop_roots_def Let_def)
qed

theorem cascaded_baseline_drops_are_reported_witness:
  "\<exists>ps' p'. run_statement (sample_file modelled_rules) sample_statement {} (Full None) [DropTable cascade_drop]
       pre_state_default (fresh_progress \<lparr>run_state = cascade_sample, run_not_evaluated = []\<rparr>) = Some (Inr (False, ps', p'))
     \<and> (\<exists>v \<in> set (pr_violations p'). v_rule_id v = ''destructive-cascade'' \<and> v_tier v = Tier1)"
proof -
  let ?p = "fresh_progress \<lparr>run_state = cascade_sample, run_not_evaluated = []\<rparr>"
    and ?c = "cascade_for_relations cascade_sample [Oid ''s'' ''t'']"
  have s: "run_state (pr_run ?p) = cascade_sample" by (simp add: fresh_progress_def)
  have wf: "graph_wf (graph_of (run_state (pr_run ?p)))" unfolding s by (simp add: drop_sample_wf)
  obtain t where t: "apply_drop_table sample_order cascade_drop (Some ?c) cascade_sample = (Applied, t)"
    using cascade_sample_applied by blast
  have m: "apply_mutation sample_order (Some ?c) (DropTable cascade_drop) cascade_sample = Some (Applied, t)"
    by (simp add: apply_mutation_def t) (simp add: drop_sample_defs)
  then obtain ps' p' tr where run: "run_statement (sample_file modelled_rules) sample_statement {} (Full None) [DropTable cascade_drop]
       pre_state_default ?p = Some (Inr (False, ps', p'))"
    and p': "p' = evaluate_rules (sample_file modelled_rules) sample_statement {} tr (?p\<lparr>pr_run := on_state (\<lambda>_. t) (pr_run ?p)\<rparr>)"
    by (simp add: s Let_def)
  have "evidence_only t (run_state (pr_run p'))"
    unfolding p' using evaluate_rules_evidence [of "?p\<lparr>pr_run := on_state (\<lambda>_. t) (pr_run ?p)\<rparr>"
        "sample_file modelled_rules" sample_statement "{}" tr] by simp
  then have "l_relations (local (run_state (pr_run p'))) = l_relations (local t)" by (rule evidence_only_fields)
  moreover have "finite (dropped_relations ?c)"
    using wf unfolding s by (simp add: cascade_for_relations_dropped finite_cascade)
  then have "l_relations (local t) (Oid ''s'' ''p'') = Some Dropped"
    using drop_table_cascade_applied [OF sample_order_lists_all _ _ t] cascade_sample_closure by simp
  ultimately have absent: "\<not> relation_is_present (run_state (pr_run p')) (Oid ''s'' ''p'')" by (simp add: relation_is_present_def)
  have present: "relation_is_present (run_state (pr_run ?p)) (Oid ''s'' ''p'')"
    unfolding s relation_is_present_def by (simp add: drop_sample_defs)
  have "\<exists>v \<in> set (pr_violations p'). v_rule_id v = ''destructive-cascade'' \<and> v_tier v = Tier1
      \<and> v_object_name v = display_ids (dt_ids cascade_drop)"
    by (rule cascaded_baseline_drops_are_reported [OF _ sample_active _ wf _ _ run _ _ present absent])
      (simp_all add: s sample_order_lists_all)
  with run show ?thesis by blast
qed

theorem findings_of_a_mutation_exact_witness:
  "filter unkeyed (pr_violations (evaluate_rules (sample_file modelled_rules) sample_statement {}
      \<lparr>tr_mutation = OpaqueMutation DoBlock, tr_result = Applied, tr_pre_state = pre_state_default, tr_cascade_closure = None\<rparr>
      (fresh_progress \<lparr>run_state = cascade_sample, run_not_evaluated = []\<rparr>))) =
   [reported (sample_file modelled_rules) sample_statement
      (finding ''opaque-dynamic-sql'' KindOpaque ''opaque statement'' Tier2 ''Encountered opaque DO block'' opaque_recipe None)]"
proof -
  let ?p = "fresh_progress \<lparr>run_state = cascade_sample, run_not_evaluated = []\<rparr>"
  define fc where "fc = sample_file modelled_rules"
  have fc: "fc_rules fc = modelled_rules" "\<And>i. i \<noteq> ''opaque'' \<Longrightarrow> active fc sample_statement i"
    by (simp_all add: fc_def sample_active)
  have "graph_wf (graph_of (run_state (pr_run ?p)))" "pr_violations ?p = []" by (simp_all add: fresh_progress_def drop_sample_wf)
  then show ?thesis
    unfolding fc_def [symmetric] findings_of_a_mutation_exact [OF fc(1) \<open>graph_wf _\<close>]
    by (simp add: modelled_rules_def stated_def speaks_def rule_defs fc(2))
      (simp add: evaluate_defs rule_context_at_def drift_findings_def unkeyed_def finding_def)
qed

end
