(* ===== verification/Memberships.thy ===== *)
theory Memberships
  imports Roles
begin

text \<open>
  What the role statements promise: the membership graph stays acyclic and in step with its records,
  \<^verbatim>\<open>GRANT\<close> gives what it names, the cascade of a revoke removes what was delegated, and every
  statement returns.
\<close>

section \<open>The membership invariant\<close>

text \<open>
  With complete records, what a role is a member of is what the records of the member say; the
  memberships have no cycle.
\<close>

definition roles_in :: "role_membership_grantor list \<Rightarrow> oid \<Rightarrow> oid set" where
  "roles_in rs m = {mem_role r | r. r \<in> set rs \<and> mem_member r = m}"

definition projected :: "analysis_state \<Rightarrow> bool" where
  "projected s \<longleftrightarrow>
     (l_role_membership_grantors_complete (local s) \<longrightarrow>
        (\<forall>m role. l_roles (local s) m = Some (Present role) \<longrightarrow>
           set (role_member_of role) = roles_in (l_role_membership_grantors (local s)) m))"

definition memberships_ok :: "analysis_state \<Rightarrow> bool" where
  "memberships_ok s \<longleftrightarrow> roles_finite s \<and> acyclic (membership_rel s) \<and> projected s"

text \<open>The part of a state that memberships live in.\<close>

definition membership_view :: "analysis_state \<Rightarrow> _" where
  "membership_view s =
     (l_roles (local s), l_role_membership_grantors (local s), l_role_membership_grantors_complete (local s))"

lemma memberships_ok_view: "membership_view t = membership_view s \<Longrightarrow> memberships_ok t \<longleftrightarrow> memberships_ok s"
proof -
  assume view: "membership_view t = membership_view s"
  then have "memberships_of t = memberships_of s" by (intro ext) (simp add: membership_view_def memberships_of_def)
  with view show ?thesis by (simp add: membership_view_def memberships_ok_def projected_def membership_rel_def)
qed

lemma membership_view_frame [simp]:
  "membership_view (taint code scope s) = membership_view s"
  "membership_view (snapshot_role i s) = membership_view s"
  "membership_view (snapshot_role_membership_grantors s) = membership_view s"
  "membership_view (snapshot_relation i s) = membership_view s"
  "membership_view (put_relation i f s) = membership_view s"
  "membership_view (bump_generation s) = membership_view s"
  by (simp_all add: membership_view_def taint_def record_evidence_def mark_tainted_def Let_def snapshot_defs log_change_def
      put_relation_def upd_local_def bump_generation_def split: option.splits overlay.splits)

interpretation memberships: evidence_contract "preserving memberships_ok"
  by unfold_locales (auto simp: preserving_def memberships_ok_view [OF membership_view_frame(1)])

lemma preserving_same_view [holds_intros]:
  assumes "\<And>s. membership_view (f s) = membership_view s"
  shows "holds (preserving memberships_ok) (modify f)"
proof (rule memberships.holds_modify)
  show "preserving memberships_ok s (f s)" for s
    using memberships_ok_view [OF assms, of s] by (simp add: preserving_def)
qed

lemma member_of_projection:
  "set (role_member_of (fold (project_membership m) rs role)) = set (role_member_of role) \<union> roles_in rs m"
proof (induction rs arbitrary: role)
  case (Cons r rs)
  have "set (role_member_of (project_membership m r role)) = set (role_member_of role) \<union> roles_in [r] m"
    by (auto simp: project_membership_def roles_in_def push_new_def)
  moreover have "roles_in (r # rs) m = roles_in [r] m \<union> roles_in rs m" by (auto simp: roles_in_def)
  ultimately show ?case using Cons by auto
qed (simp add: roles_in_def)

lemma membership_rel_iff:
  "(m, p) \<in> membership_rel s \<longleftrightarrow> (\<exists>role. l_roles (local s) m = Some (Present role) \<and> p \<in> set (role_member_of role))"
  by (auto simp: membership_rel_def member_rel_def memberships_of_def split: option.splits overlay.splits)

text \<open>The state after the projection of one member.\<close>

lemma reconcile_fields:
  "l_role_membership_grantors (local (reconcile_membership_projection m s)) = l_role_membership_grantors (local s)"
  "l_role_membership_grantors_complete (local (reconcile_membership_projection m s)) = l_role_membership_grantors_complete (local s)"
  "m' \<noteq> m \<Longrightarrow> l_roles (local (reconcile_membership_projection m s)) m' = l_roles (local s) m'"
  "roles_finite (reconcile_membership_projection m s) \<longleftrightarrow> roles_finite s"
  by (auto simp: reconcile_membership_projection_def Let_def finite_dom_upd split: option.splits overlay.splits)

lemma reconcile_member:
  assumes "l_role_membership_grantors_complete (local s)"
    and "l_roles (local (reconcile_membership_projection m s)) m = Some (Present role)"
  shows "set (role_member_of role) = roles_in (l_role_membership_grantors (local s)) m"
  using assms member_of_projection [of m "l_role_membership_grantors (local s)"]
  by (auto simp: reconcile_membership_projection_def Let_def split: option.splits overlay.splits)

lemma reconcile_present:
  "l_roles (local (reconcile_membership_projection m s)) m = Some (Present role) \<Longrightarrow>
     \<exists>role'. l_roles (local s) m = Some (Present role')"
  by (auto simp: reconcile_membership_projection_def split: if_splits option.splits overlay.splits)

text \<open>Membership edges and records of one member replaced together.\<close>

lemma shrink_ok:
  assumes ok: "memberships_ok s" and fin: "roles_finite t"
    and comp: "l_role_membership_grantors_complete (local t) \<longrightarrow> l_role_membership_grantors_complete (local s)"
    and roles: "\<And>m'. m' \<noteq> m \<Longrightarrow> l_roles (local t) m' = l_roles (local s) m'"
    and records: "\<And>m'. m' \<noteq> m \<Longrightarrow>
        roles_in (l_role_membership_grantors (local t)) m' = roles_in (l_role_membership_grantors (local s)) m'"
    and here: "\<And>role. l_roles (local t) m = Some (Present role) \<Longrightarrow>
        (l_role_membership_grantors_complete (local t) \<longrightarrow>
           set (role_member_of role) = roles_in (l_role_membership_grantors (local t)) m)
        \<and> (\<exists>old. l_roles (local s) m = Some (Present old) \<and> set (role_member_of role) \<subseteq> set (role_member_of old))"
  shows "memberships_ok t"
proof -
  have "membership_rel t \<subseteq> membership_rel s"
  proof
    fix e assume "e \<in> membership_rel t"
    then obtain m' p role where e: "e = (m', p)" "l_roles (local t) m' = Some (Present role)" "p \<in> set (role_member_of role)"
      by (cases e) (auto simp: membership_rel_iff)
    show "e \<in> membership_rel s"
    proof (cases "m' = m")
      case True
      then show ?thesis using e here by (force simp: membership_rel_iff)
    next
      case False
      then show ?thesis using e roles by (simp add: membership_rel_iff)
    qed
  qed
  then have "acyclic (membership_rel t)" using ok by (auto simp: memberships_ok_def intro: acyclic_subset)
  moreover have "projected t"
    unfolding projected_def
  proof (intro impI allI)
    fix m' role assume *: "l_role_membership_grantors_complete (local t)" "l_roles (local t) m' = Some (Present role)"
    show "set (role_member_of role) = roles_in (l_role_membership_grantors (local t)) m'"
    proof (cases "m' = m")
      case True
      then show ?thesis using * here by blast
    next
      case False
      then show ?thesis using * roles records comp ok by (simp add: memberships_ok_def projected_def)
    qed
  qed
  ultimately show ?thesis using fin by (simp add: memberships_ok_def)
qed

lemma set_grantors_fields [simp]:
  "l_roles (local (set_grantors rs s)) = l_roles (local s)"
  "l_role_membership_grantors (local (set_grantors rs s)) = rs"
  "l_role_membership_grantors_complete (local (set_grantors rs s)) = l_role_membership_grantors_complete (local s)"
  by (simp_all add: set_grantors_def upd_local_def)

lemma snapshot_role_fields [simp]:
  "l_role_membership_grantors_complete (local (snapshot_role i s)) = l_role_membership_grantors_complete (local s)"
  by (simp add: snapshot_defs log_change_def)

lemma put_role_fields [simp]:
  "l_roles (local (put_role i v s)) = (l_roles (local s))(i := Some v)"
  "l_role_membership_grantors_complete (local (put_role i v s)) = l_role_membership_grantors_complete (local s)"
  by (simp_all add: put_role_def upd_local_def)

lemma reproject_ok:
  assumes ok: "memberships_ok s"
    and others: "\<And>m'. m' \<noteq> m \<Longrightarrow> roles_in rs m' = roles_in (l_role_membership_grantors (local s)) m'"
    and sub: "roles_in rs m \<subseteq> roles_in (l_role_membership_grantors (local s)) m"
  shows "memberships_ok (reproject m rs s)"
proof (rule shrink_ok [OF ok, where m = m])
  let ?u = "snapshot_role m (set_grantors rs s)"
  show "roles_finite (reproject m rs s)" using ok by (simp add: reproject_def reconcile_fields memberships_ok_def)
  show "l_role_membership_grantors_complete (local (reproject m rs s)) \<longrightarrow> l_role_membership_grantors_complete (local s)"
    by (simp add: reproject_def reconcile_fields)
  show "l_roles (local (reproject m rs s)) m' = l_roles (local s) m'" if "m' \<noteq> m" for m'
    using that by (simp add: reproject_def reconcile_fields)
  show "roles_in (l_role_membership_grantors (local (reproject m rs s))) m' = roles_in (l_role_membership_grantors (local s)) m'"
    if "m' \<noteq> m" for m'
    using that others by (simp add: reproject_def reconcile_fields)
  fix role assume now: "l_roles (local (reproject m rs s)) m = Some (Present role)"
  then obtain old where old: "l_roles (local s) m = Some (Present old)"
    using reconcile_present [of m ?u role] by (auto simp: reproject_def)
  show "(l_role_membership_grantors_complete (local (reproject m rs s)) \<longrightarrow>
           set (role_member_of role) = roles_in (l_role_membership_grantors (local (reproject m rs s))) m)
        \<and> (\<exists>old. l_roles (local s) m = Some (Present old) \<and> set (role_member_of role) \<subseteq> set (role_member_of old))"
  proof (cases "l_role_membership_grantors_complete (local s)")
    case True
    then have "set (role_member_of role) = roles_in rs m"
      using reconcile_member [of ?u m role] now by (simp add: reproject_def)
    moreover have "set (role_member_of old) = roles_in (l_role_membership_grantors (local s)) m"
      using ok True old by (simp add: memberships_ok_def projected_def)
    ultimately show ?thesis using old sub by (simp add: reproject_def reconcile_fields)
  next
    case False
    then have "role = old" using now old by (simp add: reproject_def reconcile_membership_projection_def)
    then show ?thesis using False old by (simp add: reproject_def reconcile_fields)
  qed
qed


lemma roles_in_edges: "roles_in rs m = {p. (m, p) \<in> set (map (\<lambda>r. (mem_member r, mem_role r)) rs)}"
  by (auto simp: roles_in_def)

lemma roles_in_update:
  assumes "k < length rs" "mem_member r = mem_member (rs ! k)" "mem_role r = mem_role (rs ! k)"
  shows "roles_in (rs[k := r]) m = roles_in rs m"
proof -
  let ?e = "\<lambda>r. (mem_member r, mem_role r)"
  have "map ?e (rs[k := r]) = (map ?e rs)[k := map ?e rs ! k]" using assms by (simp add: map_update)
  then have "map ?e (rs[k := r]) = map ?e rs" by simp
  then show ?thesis by (simp only: roles_in_edges)
qed

lemma roles_in_subset: "set rs \<subseteq> set rs' \<Longrightarrow> roles_in rs m \<subseteq> roles_in rs' m"
  by (auto simp: roles_in_def)

lemma roles_in_removed:
  assumes "k < length rs" "m \<noteq> mem_member (rs ! k)"
  shows "roles_in (take k rs @ drop (Suc k) rs) m = roles_in rs m"
proof -
  have "set rs = insert (rs ! k) (set (take k rs @ drop (Suc k) rs))"
    using assms(1) by (metis Un_insert_right id_take_nth_drop list.simps(15) set_append)
  with assms(2) show ?thesis by (auto simp: roles_in_def)
qed

lemma record_index_SomeD:
  assumes "membership_record_index s m p g = Some k"
  shows "k < length (l_role_membership_grantors (local s))"
    and "mem_member (l_role_membership_grantors (local s) ! k) = m"
    and "mem_role (l_role_membership_grantors (local s) ! k) = p"
  using position_SomeD [OF assms [unfolded membership_record_index_def]] by auto

lemma revoke_record_ok:
  assumes "memberships_ok (snd acc)"
  shows "memberships_ok (snd (revoke_record x c g pair acc))"
proof -
  obtain m p where pair: "pair = (m, p)" by (cases pair)
  obtain lost s where acc: "acc = (lost, s)" by (cases acc)
  let ?rs = "l_role_membership_grantors (local s)"
  show ?thesis
  proof (cases "membership_record_index s m p g")
    case None
    then show ?thesis using assms acc pair by (simp add: revoke_record_def)
  next
    case (Some k)
    note k = record_index_SomeD [OF Some]
    have upd: "memberships_ok (reproject m (?rs[k := r]) s)" if "mem_member r = m" "mem_role r = p" for r
      using assms acc k that by (intro reproject_ok) (simp_all add: roles_in_update)
    have del: "memberships_ok (reproject m (take k ?rs @ drop (Suc k) ?rs) s)"
    proof (rule reproject_ok)
      show "memberships_ok s" using assms acc by simp
      show "roles_in (take k ?rs @ drop (Suc k) ?rs) m \<subseteq> roles_in ?rs m"
        by (rule roles_in_subset) (auto dest: in_set_takeD in_set_dropD)
    qed (use k roles_in_removed in auto)
    show ?thesis using Some assms acc pair k upd del
      by (auto simp: revoke_record_def Let_def split: option.splits role_membership_option.splits)
  qed
qed

lemma remove_record_ok:
  assumes "memberships_ok s"
  shows "memberships_ok (remove_record r s)"
proof -
  let ?rs = "filter (\<lambda>x. \<not> (mem_member x = mem_member r \<and> mem_role x = mem_role r \<and> mem_grantor x = mem_grantor r))
      (l_role_membership_grantors (local s))"
  have "remove_record r s = reproject (mem_member r) ?rs s"
    by (simp add: remove_record_def reproject_def Let_def set_grantors_snapshot_role)
  also have "memberships_ok \<dots>" using assms by (rule reproject_ok) (auto simp: roles_in_def)
  finally show ?thesis .
qed

lemma fold_ok: "(\<And>x s. memberships_ok s \<Longrightarrow> memberships_ok (f x s)) \<Longrightarrow> memberships_ok s \<Longrightarrow> memberships_ok (fold f xs s)"
  by (induction xs arbitrary: s) auto

lemma fold_pair_ok:
  assumes "\<And>x acc. memberships_ok (snd acc) \<Longrightarrow> memberships_ok (snd (f x acc))" "memberships_ok (snd acc)"
  shows "memberships_ok (snd (fold f xs acc))"
  using assms(2) by (induction xs arbitrary: acc) (simp_all add: assms(1))

lemma snapshot_grantors_ok: "memberships_ok (snapshot_role_membership_grantors s) \<longleftrightarrow> memberships_ok s"
  by (rule memberships_ok_view) simp

lemma cascade_memberships_granted_by_ok: "memberships_ok s \<Longrightarrow> memberships_ok (cascade_memberships_granted_by gs s)"
  by (auto simp: cascade_memberships_granted_by_def Let_def snapshot_grantors_ok intro!: fold_ok remove_record_ok)

lemma revoke_records_ok: "memberships_ok s \<Longrightarrow> memberships_ok (revoke_records x c g members parents s)"
proof -
  assume ok: "memberships_ok s"
  obtain lost s2 where loop: "fold (revoke_record x c g) (List.product members parents)
      ([], if list_ex (\<lambda>(m, p). membership_record_index s m p g \<noteq> None) (List.product members parents)
           then snapshot_role_membership_grantors s else s) = (lost, s2)" by fastforce
  have "memberships_ok s2"
    using fold_pair_ok [of "revoke_record x c g" "([], if list_ex (\<lambda>(m, p). membership_record_index s m p g \<noteq> None)
        (List.product members parents) then snapshot_role_membership_grantors s else s)" "List.product members parents"]
      revoke_record_ok ok loop snapshot_grantors_ok [of s] by simp
  then show ?thesis using loop by (simp add: revoke_records_def Let_def cascade_memberships_granted_by_ok)
qed

lemma roles_in_forget_edge:
  "roles_in (l_role_membership_grantors (local (forget_edge m p s))) m' =
     (if m' = m then roles_in (l_role_membership_grantors (local s)) m - {p} else roles_in (l_role_membership_grantors (local s)) m')"
  by (auto simp: forget_edge_def roles_in_def is_edge_def)

lemma fold_forget_edge_fields:
  "l_roles (local (fold (forget_edge m) ps s)) = l_roles (local s)"
  "l_role_membership_grantors_complete (local (fold (forget_edge m) ps s)) = l_role_membership_grantors_complete (local s)"
  "roles_in (l_role_membership_grantors (local (fold (forget_edge m) ps s))) m' =
     (if m' = m then roles_in (l_role_membership_grantors (local s)) m - set ps else roles_in (l_role_membership_grantors (local s)) m')"
  by (induction ps arbitrary: s) (auto simp: roles_in_forget_edge, auto simp: forget_edge_def)

lemma member_of_forget_parents: "set (role_member_of (fold forget_parent ps role)) = set (role_member_of role) - set ps"
  by (induction ps arbitrary: role) (auto simp: forget_parent_def without_def)

lemma member_of_revoke_parents:
  "set (role_member_of (fold (revoke_parent x) ps role)) =
     (if x = None then set (role_member_of role) - set ps else set (role_member_of role))"
  by (induction ps arbitrary: role)
    (auto simp: revoke_parent_def forget_parent_def without_def split: option.splits role_membership_option.splits)

text \<open>A role loses the same memberships as its records do.\<close>

lemma lose_parents_ok:
  assumes ok: "memberships_ok s" and role: "l_roles (local s) m = Some (Present role)"
    and new: "set (role_member_of role') = set (role_member_of role) - set ps"
  shows "memberships_ok (fold (forget_edge m) ps (put_role m (Present role') (snapshot_role m s)))"
proof (rule shrink_ok [OF ok, where m = m])
  show "roles_finite (fold (forget_edge m) ps (put_role m (Present role') (snapshot_role m s)))"
    using ok by (simp add: fold_forget_edge_fields finite_dom_upd memberships_ok_def)
  fix r assume "l_roles (local (fold (forget_edge m) ps (put_role m (Present role') (snapshot_role m s)))) m = Some (Present r)"
  then have "r = role'" by (simp add: fold_forget_edge_fields)
  then show "(l_role_membership_grantors_complete (local (fold (forget_edge m) ps (put_role m (Present role') (snapshot_role m s)))) \<longrightarrow>
           set (role_member_of r) = roles_in (l_role_membership_grantors (local (fold (forget_edge m) ps (put_role m (Present role') (snapshot_role m s))))) m)
        \<and> (\<exists>old. l_roles (local s) m = Some (Present old) \<and> set (role_member_of r) \<subseteq> set (role_member_of old))"
    using ok role new by (auto simp: fold_forget_edge_fields memberships_ok_def projected_def)
qed (simp_all add: fold_forget_edge_fields)

lemma remove_edge_ok:
  assumes "memberships_ok s"
  shows "memberships_ok (remove_edge e s)"
proof -
  obtain m p where e: "e = (m, p)" by (cases e)
  show ?thesis
  proof (cases "\<exists>role. l_roles (local s) m = Some (Present role)")
    case True
    then obtain role where role: "l_roles (local s) m = Some (Present role)" by blast
    have "memberships_ok (fold (forget_edge m) [p] (put_role m (Present (forget_parent p role)) (snapshot_role m s)))"
      using assms role by (rule lose_parents_ok) (use member_of_forget_parents [of "[p]" role] in simp)
    then show ?thesis using role e by (simp add: remove_edge_def modify_role_def)
  next
    case False
    then have "remove_edge e s = forget_edge m p (snapshot_role m s)"
      using e by (auto simp: remove_edge_def modify_role_def split: option.splits overlay.splits)
    also have "memberships_ok \<dots>"
      using False assms
      by (intro shrink_ok [OF assms, where m = m]) (auto simp: roles_in_forget_edge memberships_ok_def, auto simp: forget_edge_def)
    finally show ?thesis .
  qed
qed

lemma cascade_role_memberships_ok: "memberships_ok s \<Longrightarrow> memberships_ok (cascade_role_memberships gs s)"
  by (auto simp: cascade_role_memberships_def Let_def snapshot_grantors_ok intro!: fold_ok remove_edge_ok)


lemma revoke_member_ok:
  assumes ok: "memberships_ok (snd acc)"
  shows "memberships_ok (snd (revoke_member x c parents m acc))"
proof -
  obtain lost s where acc: "acc = (lost, s)" by (cases acc)
  have snap: "memberships_ok (snapshot_role m s)" using ok acc memberships_ok_view [of "snapshot_role m s" s] by simp
  show ?thesis
  proof (cases "\<exists>role. l_roles (local s) m = Some (Present role)")
    case True
    then obtain role where role: "l_roles (local s) m = Some (Present role)" by blast
    have "memberships_ok (fold (forget_edge m) (if x = None then parents else [])
        (put_role m (Present (fold (revoke_parent x) parents role)) (snapshot_role m s)))"
      by (rule lose_parents_ok) (use ok acc role member_of_revoke_parents [of x parents role] in auto)
    then show ?thesis using acc role by (cases x) (simp_all add: revoke_member_def Let_def)
  next
    case False
    then show ?thesis using acc snap by (auto simp: revoke_member_def Let_def split: option.splits overlay.splits)
  qed
qed

lemma revoke_edges_ok: "memberships_ok s \<Longrightarrow> memberships_ok (revoke_edges x c members parents s)"
proof -
  assume ok: "memberships_ok s"
  let ?b = "members \<noteq> [] \<and> (c \<or> x = None) \<and> list_ex (\<lambda>r. mem_member r \<in> set members \<and> mem_role r \<in> set parents)
      (l_role_membership_grantors (local s))"
  let ?start = "(if c \<and> withdraws_admin x then members else [], if ?b then snapshot_role_membership_grantors s else s)"
  obtain lost s2 where loop: "fold (revoke_member x c parents) members ?start = (lost, s2)" by fastforce
  have "memberships_ok s2"
    using fold_pair_ok [of "revoke_member x c parents" ?start members] revoke_member_ok ok loop snapshot_grantors_ok [of s] by simp
  then show ?thesis using loop by (simp add: revoke_edges_def Let_def cascade_role_memberships_ok)
qed

lemma preserving_ok [holds_intros]:
  "(\<And>s. memberships_ok s \<Longrightarrow> memberships_ok (f s)) \<Longrightarrow> holds (preserving memberships_ok) (modify f)"
  by (rule memberships.holds_modify) (simp add: preserving_def)

lemma ok_relation [simp]: "memberships_ok (put_relation i f (snapshot_relation i s)) \<longleftrightarrow> memberships_ok s"
  by (rule memberships_ok_view) simp

lemma table_grants_keep_memberships [holds_intros]:
  "holds (preserving memberships_ok) (grant_tables g grantees ps ids)"
  "holds (preserving memberships_ok) (grant_all_tables h g grantees ps schemas)"
  "holds (preserving memberships_ok) (revoke_tables h v revokees ps ids)"
  "holds (preserving memberships_ok) (revoke_all_tables h v revokees ps schemas)"
  unfolding grant_tables_def grant_all_tables_def revoke_tables_def revoke_all_tables_def revoke_table_def
    apply_grant_to_relation_def apply_revoke_to_relation_def
  by (intro holds_intros; simp)+

lemma revoke_keeps_memberships: "holds (preserving memberships_ok) (apply_revoke h v)"
  unfolding apply_revoke_def revoke_roles_def
  by (cases "rm_target v")
    (auto intro!: holds_intros revoke_edges_ok revoke_records_ok split: prod.splits option.splits bool.splits)

section \<open>GRANT adds the memberships of the batch\<close>

lemma roles_in_append: "roles_in (xs @ ys) m = roles_in xs m \<union> roles_in ys m"
  by (auto simp: roles_in_def)

lemma merge_record_edge [simp]: "mem_member (merge_record mo b r) = mem_member r" "mem_role (merge_record mo b r) = mem_role r"
  by (simp_all add: merge_record_def)

lemma grant_record_fields:
  "l_roles (local (grant_record mo g e s)) = l_roles (local s)"
  "l_role_membership_grantors_complete (local (grant_record mo g e s)) = l_role_membership_grantors_complete (local s)"
  "roles_in (l_role_membership_grantors (local (grant_record mo g e s))) m =
     roles_in (l_role_membership_grantors (local s)) m \<union> (if m = fst e then {snd e} else {})"
proof -
  obtain a p where e: "e = (a, p)" by (cases e)
  show "l_roles (local (grant_record mo g e s)) = l_roles (local s)"
    "l_role_membership_grantors_complete (local (grant_record mo g e s)) = l_role_membership_grantors_complete (local s)"
    using e by (simp_all add: grant_record_def Let_def split: option.splits)
  show "roles_in (l_role_membership_grantors (local (grant_record mo g e s))) m =
     roles_in (l_role_membership_grantors (local s)) m \<union> (if m = fst e then {snd e} else {})"
  proof (cases "membership_record_index s a p g")
    case None
    have "roles_in [r] m = (if mem_member r = m then {mem_role r} else {})" for r by (auto simp: roles_in_def)
    then show ?thesis using None e by (auto simp: grant_record_def Let_def roles_in_append)
  next
    case (Some k)
    note k = record_index_SomeD [OF Some]
    then have "p \<in> roles_in (l_role_membership_grantors (local s)) a"
      unfolding roles_in_def using nth_mem [OF k(1)] by blast
    then show ?thesis using Some e k by (auto simp: grant_record_def Let_def roles_in_update)
  qed
qed

lemma grant_legacy_record_fields:
  "l_roles (local (grant_legacy_record mo g e s)) = l_roles (local s)"
  "l_role_membership_grantors_complete (local (grant_legacy_record mo g e s)) = l_role_membership_grantors_complete (local s)"
  by (auto simp: grant_legacy_record_def Let_def split: prod.splits)

lemma fold_grant_record_fields:
  "l_roles (local (fold (grant_record mo g) es s)) = l_roles (local s)"
  "l_role_membership_grantors_complete (local (fold (grant_record mo g) es s)) = l_role_membership_grantors_complete (local s)"
  "roles_in (l_role_membership_grantors (local (fold (grant_record mo g) es s))) m =
     roles_in (l_role_membership_grantors (local s)) m \<union> {p. (m, p) \<in> set es}"
  by (induction es arbitrary: s) (auto simp: grant_record_fields)

lemma fold_grant_legacy_record_fields:
  "l_roles (local (fold (grant_legacy_record mo g) es s)) = l_roles (local s)"
  "l_role_membership_grantors_complete (local (fold (grant_legacy_record mo g) es s)) = l_role_membership_grantors_complete (local s)"
  by (induction es arbitrary: s) (simp_all add: grant_legacy_record_fields)

lemma touch_member_fields:
  "l_role_membership_grantors (local (touch_member b mo v ps m s)) = l_role_membership_grantors (local s)"
  "l_role_membership_grantors_complete (local (touch_member b mo v ps m s)) = l_role_membership_grantors_complete (local s)"
  "m' \<noteq> m \<Longrightarrow> l_roles (local (touch_member b mo v ps m s)) m' = l_roles (local s) m'"
  "roles_finite (touch_member b mo v ps m s) \<longleftrightarrow> roles_finite s"
  by (auto simp: touch_member_def Let_def reconcile_fields modify_role_def finite_dom_upd split: option.splits overlay.splits)

lemma member_of_grant_parents: "set (role_member_of (fold (grant_parent mo v) ps role)) = set (role_member_of role) \<union> set ps"
  by (induction ps arbitrary: role) (auto simp: grant_parent_def Let_def push_new_def)

text \<open>What a touched member is a member of afterwards.\<close>

definition touched_members :: "bool \<Rightarrow> oid list \<Rightarrow> analysis_state \<Rightarrow> oid \<Rightarrow> role_state \<Rightarrow> oid set" where
  "touched_members b ps s m old =
     (if b then roles_in (l_role_membership_grantors (local s)) m else set (role_member_of old) \<union> set ps)"

lemma touch_member_member_of:
  assumes "b \<longrightarrow> l_role_membership_grantors_complete (local s)"
    and "l_roles (local (touch_member b mo v ps m s)) m = Some (Present role)"
  shows "\<exists>old. l_roles (local s) m = Some (Present old) \<and> set (role_member_of role) = touched_members b ps s m old"
proof (cases b)
  case True
  then show ?thesis using assms reconcile_member [of "snapshot_role m s" m role] reconcile_present [of m "snapshot_role m s" role]
    by (auto simp: touch_member_def Let_def touched_members_def)
next
  case False
  then show ?thesis using assms
    by (auto simp: touch_member_def Let_def modify_role_def touched_members_def member_of_grant_parents
        split: option.splits overlay.splits)
qed

lemma fold_touch_fields:
  "l_role_membership_grantors (local (fold (touch_member b mo v ps) ms s)) = l_role_membership_grantors (local s)"
  "l_role_membership_grantors_complete (local (fold (touch_member b mo v ps) ms s)) = l_role_membership_grantors_complete (local s)"
  "roles_finite (fold (touch_member b mo v ps) ms s) \<longleftrightarrow> roles_finite s"
  by (induction ms arbitrary: s) (simp_all add: touch_member_fields)

lemma fold_touch_member_of:
  assumes "b \<longrightarrow> l_role_membership_grantors_complete (local s)"
    and "l_roles (local (fold (touch_member b mo v ps) ms s)) m = Some (Present role)"
  shows "\<exists>old. l_roles (local s) m = Some (Present old)
     \<and> set (role_member_of role) = (if m \<in> set ms then touched_members b ps s m old else set (role_member_of old))"
  using assms
proof (induction ms arbitrary: s)
  case (Cons x ms)
  let ?s = "touch_member b mo v ps x s"
  obtain mid where mid: "l_roles (local ?s) m = Some (Present mid)"
      "set (role_member_of role) = (if m \<in> set ms then touched_members b ps ?s m mid else set (role_member_of mid))"
    using Cons.IH [of ?s] Cons.prems by (auto simp: touch_member_fields)
  show ?case
  proof (cases "m = x")
    case True
    then obtain old where "l_roles (local s) m = Some (Present old)" "set (role_member_of mid) = touched_members b ps s m old"
      using touch_member_member_of [of b s mo v ps m mid] Cons.prems(1) mid(1) by auto
    then show ?thesis using mid(2) True by (auto simp: touched_members_def touch_member_fields)
  next
    case False
    then have "l_roles (local s) m = Some (Present mid)" using mid(1) touch_member_fields(3) by simp
    then show ?thesis using mid(2) False by (auto simp: touched_members_def touch_member_fields)
  qed
qed simp

lemma snapshot_grantors_fields:
  "l_roles (local (snapshot_role_membership_grantors s)) = l_roles (local s)"
  "l_role_membership_grantors (local (snapshot_role_membership_grantors s)) = l_role_membership_grantors (local s)"
  "l_role_membership_grantors_complete (local (snapshot_role_membership_grantors s)) = l_role_membership_grantors_complete (local s)"
  by (simp_all add: snapshot_defs log_change_def)

lemma forget_completeness_fields:
  "l_roles (local (forget_completeness s)) = l_roles (local s)"
  "l_role_membership_grantors_complete (local (forget_completeness s)) = False"
  by (simp_all add: forget_completeness_def upd_local_def)

text \<open>The records before the members are touched.\<close>

lemma grant_memberships_records:
  fixes s g
  defines "b \<equiv> g \<noteq> None \<and> l_role_membership_grantors_complete (local s)"
  obtains u where
    "grant_memberships h mo g members parents s =
       fold (touch_member b mo (conservative_num (effective_pg_version s)) parents) (ho_ids h (set members)) u"
    "l_roles (local u) = l_roles (local s)"
    "l_role_membership_grantors_complete (local u) = b"
    "\<And>m. b \<Longrightarrow> roles_in (l_role_membership_grantors (local u)) m
         = roles_in (l_role_membership_grantors (local s)) m \<union> (if m \<in> set members then set parents else {})"
proof
  let ?u = "case g of
      Some g' \<Rightarrow> fold (if b then grant_record mo g' else grant_legacy_record mo g')
        (List.product members parents) (snapshot_role_membership_grantors s)
    | None \<Rightarrow> forget_completeness (snapshot_role_membership_grantors s)"
  show "grant_memberships h mo g members parents s =
       fold (touch_member b mo (conservative_num (effective_pg_version s)) parents) (ho_ids h (set members)) ?u"
    unfolding grant_memberships_def Let_def b_def by (rule refl)
  show "l_roles (local ?u) = l_roles (local s)" "l_role_membership_grantors_complete (local ?u) = b"
    by (auto simp: b_def fold_grant_record_fields fold_grant_legacy_record_fields forget_completeness_fields
      snapshot_grantors_fields split: option.splits)
  show "roles_in (l_role_membership_grantors (local ?u)) m
         = roles_in (l_role_membership_grantors (local s)) m \<union> (if m \<in> set members then set parents else {})" if b for m
    using that by (auto simp: b_def fold_grant_record_fields snapshot_grantors_fields split: option.splits)
qed

lemma grant_memberships_ok:
  assumes ok: "memberships_ok s" and h: "lists_all h"
    and new: "acyclic (membership_rel s \<union> set members \<times> set parents)"
  shows "memberships_ok (grant_memberships h mo g members parents s)"
    and "membership_rel (grant_memberships h mo g members parents s) \<subseteq> membership_rel s \<union> set members \<times> set parents"
proof -
  let ?b = "g \<noteq> None \<and> l_role_membership_grantors_complete (local s)"
  let ?t = "grant_memberships h mo g members parents s"
  obtain u where t: "?t = fold (touch_member ?b mo (conservative_num (effective_pg_version s)) parents) (ho_ids h (set members)) u"
    and u: "l_roles (local u) = l_roles (local s)" "l_role_membership_grantors_complete (local u) = ?b"
      "\<And>m. ?b \<Longrightarrow> roles_in (l_role_membership_grantors (local u)) m
         = roles_in (l_role_membership_grantors (local s)) m \<union> (if m \<in> set members then set parents else {})"
    using grant_memberships_records [of h mo g members parents s] by blast
  have order: "set (ho_ids h (set members)) = set members" using h by (simp add: lists_all_def)
  have role: "\<exists>old. l_roles (local s) m = Some (Present old)
      \<and> set (role_member_of role) = (if m \<in> set members then touched_members ?b parents u m old else set (role_member_of old))"
    if "l_roles (local ?t) m = Some (Present role)" for m role
    using fold_touch_member_of [of ?b u mo "conservative_num (effective_pg_version s)" parents "ho_ids h (set members)" m role]
      that u(1,2) order by (simp add: t)
  have old: "set (role_member_of old) = roles_in (l_role_membership_grantors (local s)) m"
    if ?b "l_roles (local s) m = Some (Present old)" for m old
    using ok that by (simp add: memberships_ok_def projected_def)
  have touched: "touched_members ?b parents u m old = set (role_member_of old) \<union> set parents"
    if "m \<in> set members" "l_roles (local s) m = Some (Present old)" for m old
    using that old u(3) [of m] by (auto simp: touched_members_def)
  show sub: "membership_rel ?t \<subseteq> membership_rel s \<union> set members \<times> set parents"
  proof
    fix e assume "e \<in> membership_rel ?t"
    then obtain m p r where "e = (m, p)" "l_roles (local ?t) m = Some (Present r)" "p \<in> set (role_member_of r)"
      by (cases e) (auto simp: membership_rel_iff)
    then show "e \<in> membership_rel s \<union> set members \<times> set parents"
      using role [of m r] touched by (auto simp: membership_rel_iff split: if_splits)
  qed
  have "projected ?t"
    unfolding projected_def
  proof (intro impI allI)
    fix m r assume "l_role_membership_grantors_complete (local ?t)" and r: "l_roles (local ?t) m = Some (Present r)"
    then have b: ?b using u(2) by (simp add: t fold_touch_fields)
    obtain o' where o': "l_roles (local s) m = Some (Present o')"
      "set (role_member_of r) = (if m \<in> set members then touched_members ?b parents u m o' else set (role_member_of o'))"
      using role [OF r] by blast
    have "roles_in (l_role_membership_grantors (local ?t)) m
        = roles_in (l_role_membership_grantors (local s)) m \<union> (if m \<in> set members then set parents else {})"
      using u(3) [of m] b by (simp add: t fold_touch_fields)
    then show "set (role_member_of r) = roles_in (l_role_membership_grantors (local ?t)) m"
      using o' touched [of m o'] old [OF b o'(1)] by auto
  qed
  moreover have "acyclic (membership_rel ?t)" using new sub by (rule acyclic_subset)
  moreover have "roles_finite ?t" using ok u(1) by (simp add: t fold_touch_fields memberships_ok_def)
  ultimately show "memberships_ok ?t" by (simp add: memberships_ok_def)
qed

lemma batch_pairs: "(\<lambda>(m, p). (m, oid p)) ` set (List.product ms ps) = set ms \<times> set (map oid ps)"
  by auto

lemma checked_grant_ok:
  assumes "lists_all h"
  shows "holds (preserving memberships_ok)
    (andthen (reject_cycles ms ps) (\<lambda>_. modify (grant_memberships h mo g ms (map oid ps))))"
  unfolding holds_def preserving_def
proof (intro allI impI)
  fix s r t
  assume run: "andthen (reject_cycles ms ps) (\<lambda>_. modify (grant_memberships h mo g ms (map oid ps))) s = Some (r, t)"
    and ok: "memberships_ok s"
  obtain c where c: "first_cycle (List.product ms ps) (memberships_of s) = Some c"
      "c = None \<longleftrightarrow> acyclic (membership_rel s \<union> set ms \<times> set (map oid ps))"
    using first_cycle_exact [of "memberships_of s" "List.product ms ps"] ok finite_memberships [of s]
    unfolding batch_pairs membership_rel_def memberships_ok_def by blast
  show "memberships_ok t"
  proof (cases c)
    case None
    then have "t = grant_memberships h mo g ms (map oid ps) s"
      using run c(1) by (simp add: andthen_def reject_cycles_def query_def ret_def modify_def)
    then show ?thesis using grant_memberships_ok(1) [OF ok assms] c(2) None by simp
  next
    case (Some e)
    then have "t = s" using run c(1) by (auto simp: andthen_def reject_cycles_def query_def return_with_def split: prod.splits)
    with ok show ?thesis by simp
  qed
qed

lemma grant_keeps_memberships:
  assumes "lists_all h"
  shows "holds (preserving memberships_ok) (apply_grant h g)"
  unfolding apply_grant_def grant_roles_def
  by (cases "gm_target g") (auto intro!: holds_intros checked_grant_ok [OF assms])

section \<open>What GRANT leaves\<close>

definition holds_privilege :: "analysis_state \<Rightarrow> oid \<Rightarrow> oid \<Rightarrow> privilege \<Rightarrow> bool" where
  "holds_privilege s i role p \<longleftrightarrow>
     (\<exists>relation. l_relations (local s) i = Some (Present relation) \<and> has_privilege (r_privileges relation) role p)"

definition is_relation :: "analysis_state \<Rightarrow> oid \<Rightarrow> bool" where
  "is_relation s i \<longleftrightarrow> (\<exists>relation. l_relations (local s) i = Some (Present relation))"

text \<open>No relation goes and no privilege is lost.\<close>

definition privileges_grow :: "analysis_state \<Rightarrow> analysis_state \<Rightarrow> bool" where
  "privileges_grow s t \<longleftrightarrow>
     (\<forall>i. is_relation s i \<longrightarrow> is_relation t i)
     \<and> (\<forall>i role p. holds_privilege s i role p \<longrightarrow> holds_privilege t i role p)"

lemma relations_taint [simp]: "l_relations (local (taint code scope s)) = l_relations (local s)"
  by (simp add: taint_def record_evidence_def mark_tainted_def Let_def snapshot_defs log_change_def)

interpretation growth: evidence_contract privileges_grow
  by unfold_locales (auto simp: privileges_grow_def holds_privilege_def is_relation_def)

lemma has_privilege_grant_from:
  "has_privilege (grant_from g ps grantor w m) role p \<longleftrightarrow>
     has_privilege m role p \<or> (role = g \<and> (p \<in> ps \<or> (p \<noteq> PAll \<and> PAll \<in> ps)))"
  by (auto simp: grant_from_def has_privilege_def grant_def grant_with_option_def mextend_def mget_def Let_def split: option.splits)

lemma has_privilege_grants:
  "has_privilege (fold (\<lambda>g. grant_from g ps grantor w) gs m) role p \<longleftrightarrow>
     has_privilege m role p \<or> (role \<in> set gs \<and> (p \<in> ps \<or> (p \<noteq> PAll \<and> PAll \<in> ps)))"
  by (induction gs arbitrary: m) (auto simp: has_privilege_grant_from)

lemma relations_snapshot_relation [simp]: "l_relations (local (snapshot_relation i s)) = l_relations (local s)"
  by (simp add: snapshot_defs log_change_def)

lemma relations_grant_to_relation:
  "l_relations (local (apply_grant_to_relation i ps gs w g s)) =
     (case l_relations (local s) i of
        Some (Present relation) \<Rightarrow>
          (l_relations (local s))(i \<mapsto> Present (on_privileges (fold (\<lambda>r. grant_from r ps g w) gs) relation))
      | _ \<Rightarrow> l_relations (local s))"
  by (simp add: apply_grant_to_relation_def put_relation_def upd_local_def split: option.splits overlay.splits)

lemma grant_to_relation_grows: "privileges_grow s (apply_grant_to_relation i ps gs w g s)"
  by (auto simp: privileges_grow_def holds_privilege_def is_relation_def relations_grant_to_relation
      on_privileges_def has_privilege_grants split: option.splits overlay.splits)


context step_contract
begin

text \<open>Every item of a loop that runs to its end has had its turn.\<close>

lemma for_each_turn:
  assumes "for_each f xs s = Some (Inr (), t)" "x \<in> set xs" "\<And>x. holds R (f x)"
  shows "\<exists>u v. R s u \<and> f x u = Some (Inr (), v) \<and> R v t"
  using assms(1,2)
proof (induction xs arbitrary: s)
  case (Cons a xs)
  then obtain u where u: "f a s = Some (Inr (), u)" "for_each f xs u = Some (Inr (), t)" by (auto simp: andthen_Inr)
  have su: "R s u" using u(1) assms(3) by (auto simp: holds_def)
  have ut: "R u t" using u(2) holds_for_each [of f xs] assms(3) by (auto simp: holds_def)
  show ?case
  proof (cases "x = a")
    case True
    then show ?thesis using u(1) ut contract_refl by blast
  next
    case False
    then show ?thesis using Cons.IH [OF u(2)] Cons.prems(2) su contract_trans by auto
  qed
qed simp

lemma holds_run: "holds R m \<Longrightarrow> m s = Some (r, t) \<Longrightarrow> R s t"
  by (auto simp: holds_def)

end







lemma growth_modify_grant [holds_intros]:
  "holds privileges_grow (modify (apply_grant_to_relation i ps gs w g))"
  by (rule growth.holds_modify) (rule grant_to_relation_grows)




section \<open>What the cascade over plain edges removes\<close>

text \<open>Whom a role passed a membership to that is still in force, and the memberships so passed.\<close>

definition delegated_to :: "analysis_state \<Rightarrow> (oid \<times> oid) set" where
  "delegated_to s =
     {(mem_grantor r, mem_member r) | r. r \<in> set (l_role_membership_grantors (local s))
        \<and> is_member_of s (mem_member r) (mem_role r)}"

definition granted_edges :: "analysis_state \<Rightarrow> oid set \<Rightarrow> (oid \<times> oid) set" where
  "granted_edges s A =
     {(mem_member r, mem_role r) | r. r \<in> set (l_role_membership_grantors (local s))
        \<and> is_member_of s (mem_member r) (mem_role r) \<and> mem_grantor r \<in> A}"

definition delegates :: "analysis_state \<Rightarrow> oid set \<Rightarrow> oid set" where
  "delegates s A = (delegated_to s)\<^sup>* `` A"

lemma granted_edges_Un: "granted_edges s (A \<union> B) = granted_edges s A \<union> granted_edges s B"
  by (auto simp: granted_edges_def)

lemma granted_edges_mono: "A \<subseteq> B \<Longrightarrow> granted_edges s A \<subseteq> granted_edges s B"
  by (auto simp: granted_edges_def)

lemma delegated_members: "delegated_to s `` A = fst ` granted_edges s A"
  by (force simp: delegated_to_def granted_edges_def)

lemma delegates_closed:
  assumes "delegated_to s `` V \<subseteq> V \<union> P"
  shows "delegates s V \<subseteq> V \<union> delegates s P"
proof
  fix y assume "y \<in> delegates s V"
  then obtain x where x: "x \<in> V" "(x, y) \<in> (delegated_to s)\<^sup>*" by (auto simp: delegates_def)
  from x(2,1) show "y \<in> V \<union> delegates s P"
  proof (induction rule: rtrancl_induct)
    case (step y z)
    then consider "y \<in> V" | "y \<in> delegates s P" by blast
    then show ?case
    proof cases
      case 1
      then have "z \<in> V \<union> P" using step.hyps(2) assms by blast
      then show ?thesis by (auto simp: delegates_def)
    next
      case 2
      then show ?thesis using step.hyps(2) by (auto simp: delegates_def intro: rtrancl_into_rtrancl)
    qed
  qed simp
qed

lemma collect_edge_sets:
  assumes "set (fst acc) = A" "set (snd acc) = B"
  shows "set (fst (collect_edge s g r acc)) =
      A \<union> (if mem_grantor r = g \<and> is_member_of s (mem_member r) (mem_role r) then {(mem_member r, mem_role r)} else {})"
    and "set (snd (collect_edge s g r acc)) =
      B \<union> fst ` (set (fst (collect_edge s g r acc)) - A)"
  using assms by (auto simp: collect_edge_def insert_Diff_if split: prod.splits)

lemma collect_edges_sets:
  "set (fst (collect_edges s g (removals, pending))) = set removals \<union> granted_edges s {g}"
  "set (snd (collect_edges s g (removals, pending))) = set pending \<union> fst ` (granted_edges s {g} - set removals)"
proof -
  have *: "set (fst (fold (collect_edge s g) rs acc)) =
        set (fst acc) \<union> {(mem_member r, mem_role r) | r. r \<in> set rs \<and> mem_grantor r = g \<and> is_member_of s (mem_member r) (mem_role r)}
      \<and> set (snd (fold (collect_edge s g) rs acc)) =
        set (snd acc) \<union> fst ` (set (fst (fold (collect_edge s g) rs acc)) - set (fst acc))" for rs acc
  proof (induction rs arbitrary: acc)
    case (Cons r rs)
    note c = collect_edge_sets [of acc "set (fst acc)" "set (snd acc)" s g r, OF refl refl]
    have "set (fst acc) \<subseteq> set (fst (collect_edge s g r acc))" using c(1) by blast
    moreover have "set (fst (collect_edge s g r acc)) \<subseteq> set (fst (fold (collect_edge s g) rs (collect_edge s g r acc)))"
      using Cons.IH [of "collect_edge s g r acc"] by blast
    ultimately show ?case using Cons.IH [of "collect_edge s g r acc"] c by (auto split: if_splits)
  qed simp
  have e: "granted_edges s {g} = {(mem_member r, mem_role r) | r. r \<in> set (l_role_membership_grantors (local s))
      \<and> mem_grantor r = g \<and> is_member_of s (mem_member r) (mem_role r)}" by (auto simp: granted_edges_def)
  show fst: "set (fst (collect_edges s g (removals, pending))) = set removals \<union> granted_edges s {g}"
    using * [of "l_role_membership_grantors (local s)" "(removals, pending)"] by (simp add: collect_edges_def e)
  have "set removals \<union> granted_edges s {g} - set removals = granted_edges s {g} - set removals" by auto
  then show "set (snd (collect_edges s g (removals, pending))) = set pending \<union> fst ` (granted_edges s {g} - set removals)"
    using * [of "l_role_membership_grantors (local s)" "(removals, pending)"] fst by (simp add: collect_edges_def)
qed

lemma membership_closure_exact:
  assumes "granted_edges s visited \<subseteq> set removals" "fst ` set removals \<subseteq> visited \<union> set pending"
  shows "set (membership_closure s pending visited removals) = set removals \<union> granted_edges s (delegates s (set pending))"
  using assms
proof (induction s pending visited removals rule: membership_closure.induct)
  case (1 s visited removals)
  then show ?case by (simp add: delegates_def granted_edges_def)
next
  case (2 s g pending visited removals)
  show ?case
  proof (cases "g \<in> visited")
    case True
    have "delegated_to s `` visited \<subseteq> visited \<union> set pending"
      using image_mono [OF "2.prems"(1), of fst] "2.prems"(2) True by (auto simp: delegated_members)
    then have "delegates s visited \<subseteq> visited \<union> delegates s (set pending)" by (rule delegates_closed)
    then have "delegates s (set (g # pending)) \<subseteq> visited \<union> delegates s (set pending)"
      using True by (auto simp: delegates_def)
    then have "granted_edges s (delegates s (set (g # pending))) \<subseteq> set removals \<union> granted_edges s (delegates s (set pending))"
      using granted_edges_mono [of "delegates s (set (g # pending))" "visited \<union> delegates s (set pending)" s]
        granted_edges_Un [of s visited] "2.prems"(1) by blast
    moreover have "granted_edges s (delegates s (set pending)) \<subseteq> granted_edges s (delegates s (set (g # pending)))"
      by (rule granted_edges_mono) (auto simp: delegates_def)
    moreover have "fst ` set removals \<subseteq> visited \<union> set pending" using "2.prems"(2) True by auto
    ultimately show ?thesis using "2.IH"(1) [OF True "2.prems"(1)] True by auto
  next
    case False
    obtain R P where RP: "collect_edges s g (removals, pending) = (R, P)" by fastforce
    have R: "set R = set removals \<union> granted_edges s {g}"
      and P: "set P = set pending \<union> fst ` (granted_edges s {g} - set removals)"
      using collect_edges_sets [of s g removals pending] RP by simp_all
    have seen: "granted_edges s (insert g visited) \<subseteq> set R"
      using "2.prems"(1) granted_edges_Un [of s "{g}" visited] R by auto
    have "fst ` set R = fst ` (set removals \<union> (granted_edges s {g} - set removals))" using R by simp
    then have "fst ` set R = fst ` set removals \<union> fst ` (granted_edges s {g} - set removals)" by (simp only: image_Un)
    then have members: "fst ` set R \<subseteq> insert g visited \<union> set P" using "2.prems"(2) P by auto
    have IH: "set (membership_closure s P (insert g visited) R) = set R \<union> granted_edges s (delegates s (set P))"
      using "2.IH"(2) [OF False RP [symmetric] seen members] .
    have "delegated_to s `` insert g visited \<subseteq> insert g visited \<union> set P"
      using image_mono [OF seen, of fst] members unfolding delegated_members by (rule order_trans)
    then have "delegates s (insert g visited) \<subseteq> insert g visited \<union> delegates s (set P)" by (rule delegates_closed)
    moreover have "delegates s (set (g # pending)) \<subseteq> delegates s (insert g visited) \<union> delegates s (set P)"
      using P by (auto simp: delegates_def)
    ultimately have "delegates s (set (g # pending)) \<subseteq> insert g visited \<union> delegates s (set P)" by blast
    then have le: "granted_edges s (delegates s (set (g # pending))) \<subseteq> set R \<union> granted_edges s (delegates s (set P))"
      using granted_edges_mono [of "delegates s (set (g # pending))" "insert g visited \<union> delegates s (set P)" s]
        granted_edges_Un [of s "insert g visited"] seen by blast
    have "fst ` (granted_edges s {g} - set removals) \<subseteq> delegated_to s `` {g}" unfolding delegated_members by blast
    then have "set P \<subseteq> delegates s (set (g # pending))" using P by (auto simp: delegates_def)
    then have "delegates s (set P) \<subseteq> delegates s (set (g # pending))"
      by (auto simp: delegates_def intro: rtrancl_trans)
    then have ge: "granted_edges s (delegates s (set P)) \<subseteq> granted_edges s (delegates s (set (g # pending)))"
      by (rule granted_edges_mono)
    have "granted_edges s {g} \<subseteq> granted_edges s (delegates s (set (g # pending)))"
      by (rule granted_edges_mono) (auto simp: delegates_def)
    then show ?thesis using IH le ge R False RP by auto
  qed
qed

lemma membership_rel_is_member: "(m, p) \<in> membership_rel s \<longleftrightarrow> is_member_of s m p"
  by (auto simp: membership_rel_iff is_member_of_def split: option.splits overlay.splits)

lemma remove_edge_effect:
  "membership_rel (remove_edge e s) = membership_rel s - {e}"
  "l_role_membership_grantors (local (remove_edge e s)) =
     filter (\<lambda>r. (mem_member r, mem_role r) \<noteq> e) (l_role_membership_grantors (local s))"
proof -
  obtain m p where e: "e = (m, p)" by (cases e)
  show "membership_rel (remove_edge e s) = membership_rel s - {e}"
    by (auto simp: e membership_rel_iff remove_edge_def forget_edge_def modify_role_def forget_parent_def without_def
        split: option.splits overlay.splits if_splits)
  show "l_role_membership_grantors (local (remove_edge e s)) =
     filter (\<lambda>r. (mem_member r, mem_role r) \<noteq> e) (l_role_membership_grantors (local s))"
    by (simp add: e remove_edge_def forget_edge_def modify_role_def is_edge_def split: option.splits overlay.splits)
qed

lemma remove_edges_effect:
  "membership_rel (fold remove_edge es s) = membership_rel s - set es"
  "l_role_membership_grantors (local (fold remove_edge es s)) =
     filter (\<lambda>r. (mem_member r, mem_role r) \<notin> set es) (l_role_membership_grantors (local s))"
  by (induction es arbitrary: s) (auto simp: remove_edge_effect intro: filter_cong)

lemma membership_rel_snapshot [simp]: "membership_rel (snapshot_role_membership_grantors s) = membership_rel s"
  by (auto simp: membership_rel_iff snapshot_grantors_fields)

text \<open>
  C34. The cascade of a revoke over plain membership edges removes exactly what was delegated: a
  membership and its records go when a record says that a role that lost its authority granted it,
  directly or through others who got theirs from such a role, and everything else stays.
\<close>

theorem cascade_role_memberships_exact:
  "membership_rel (cascade_role_memberships initial s) =
     membership_rel s - granted_edges s (delegates s (set initial))
   \<and> l_role_membership_grantors (local (cascade_role_memberships initial s)) =
     filter (\<lambda>r. (mem_member r, mem_role r) \<notin> granted_edges s (delegates s (set initial)))
       (l_role_membership_grantors (local s))"
proof -
  let ?E = "membership_closure s (rev initial) {} []"
  have E: "set ?E = granted_edges s (delegates s (set initial))"
    using membership_closure_exact [of s "{}" "[]" "rev initial"] by (simp add: granted_edges_def)
  show ?thesis
  proof (cases "?E = []")
    case True
    then have "granted_edges s (delegates s (set initial)) = {}" using E by simp
    then show ?thesis using True by (simp add: cascade_role_memberships_def)
  next
    case False
    then show ?thesis using E
      by (simp add: cascade_role_memberships_def remove_edges_effect snapshot_grantors_fields)
  qed
qed


section \<open>Properties\<close>

text \<open>
  C30. Role memberships never form a cycle and never leave their records: \<^verbatim>\<open>GRANT\<close> and \<^verbatim>\<open>REVOKE\<close>, whatever
  their target and their result, keep the roles finite, the membership graph acyclic and, while the
  records are complete, every role a member of exactly the roles its records name. The lists of
  options that a membership carries are not part of this.
\<close>

theorem grant_and_revoke_keep_memberships:
  assumes "lists_all h" "memberships_ok s"
    and "finish (apply_grant h g) s = Some (r, t) \<or> finish (apply_revoke h v) s = Some (r, t)"
  shows "memberships_ok t"
  using assms memberships.holds_finish [OF grant_keeps_memberships [OF assms(1)], of g s r t]
    memberships.holds_finish [OF revoke_keeps_memberships, of h v s r t]
  by (auto simp: preserving_def)

text \<open>
  C35. \<^verbatim>\<open>GRANT\<close> and \<^verbatim>\<open>REVOKE\<close> return: with finitely many roles the walks over memberships and the
  two cascades end, whatever cycles the catalogue has.
\<close>

theorem role_statements_return:
  assumes "graph_wf (graph_of s)" "roles_finite s"
  shows "(\<exists>r t. finish (apply_grant h g) s = Some (r, t)) \<and> (\<exists>r t. finish (apply_revoke h v) s = Some (r, t))"
  using finish_terminates [OF terminates_grant assms, of h g] finish_terminates [OF terminates_revoke assms, of h v]
  by auto

section \<open>Samples\<close>

definition sample_record :: "string \<Rightarrow> string \<Rightarrow> string \<Rightarrow> bool \<Rightarrow> role_membership_grantor" where
  "sample_record member role grantor admin =
     \<lparr>mem_member = Oid [] member, mem_role = Oid [] role, mem_grantor = Oid [] grantor,
      mem_admin = admin, mem_inherit = True, mem_set = True\<rparr>"

definition membership_sample :: analysis_state where
  "membership_sample = upd_local
     (\<lambda>l. l\<lparr>l_roles := Map.empty, l_role_membership_grantors :=
        [sample_record ''bob'' ''a'' ''dba'' True, sample_record ''bob'' ''b'' ''dba'' True,
         sample_record ''carol'' ''b'' ''bob'' False]\<rparr>) sample_state"

lemmas membership_sample_defs = membership_sample_def sample_record_def upd_local_def sample_state_def sample_local_def




text \<open>
  The cascade over records does not look at the role a membership is of. Revoking a role from a
  grantor also takes away what that grantor passed on of other roles, although it still holds
  \<^verbatim>\<open>ADMIN\<close> on them: here \<^verbatim>\<open>bob\<close> loses \<^verbatim>\<open>a\<close>, keeps \<^verbatim>\<open>b\<close> with \<^verbatim>\<open>ADMIN\<close>, and \<^verbatim>\<open>carol\<close> loses \<^verbatim>\<open>b\<close>.
\<close>

theorem cascade_crosses_roles:
  "l_role_membership_grantors (local membership_sample) =
     [sample_record ''bob'' ''a'' ''dba'' True, sample_record ''bob'' ''b'' ''dba'' True,
      sample_record ''carol'' ''b'' ''bob'' False]
   \<and> l_role_membership_grantors (local
       (revoke_records None True (Oid [] ''dba'') [Oid [] ''bob''] [Oid [] ''a''] membership_sample)) =
     [sample_record ''bob'' ''b'' ''dba'' True]"
proof -
  let ?s = "snapshot_role_membership_grantors membership_sample"
  let ?left = "[sample_record ''bob'' ''b'' ''dba'' True, sample_record ''carol'' ''b'' ''bob'' False]"
  have records: "l_role_membership_grantors (local membership_sample) =
      sample_record ''bob'' ''a'' ''dba'' True # ?left" by (simp add: membership_sample_defs)
  let ?u = "reproject (Oid [] ''bob'') ?left ?s"
  have found: "membership_record_index membership_sample (Oid [] ''bob'') (Oid [] ''a'') (Oid [] ''dba'') = Some 0"
    by (simp add: membership_record_index_def records sample_record_def)
  have found': "membership_record_index ?s (Oid [] ''bob'') (Oid [] ''a'') (Oid [] ''dba'') = Some 0"
    using found by (simp add: membership_record_index_def snapshot_grantors_fields)
  have other: "\<not> membership_admin_from_other_record ?s (Oid [] ''bob'') (Oid [] ''a'') (Some 0)"
    by (simp add: membership_admin_from_other_record_def snapshot_grantors_fields records sample_record_def)
  have first: "fold (revoke_record None True (Oid [] ''dba'')) [(Oid [] ''bob'', Oid [] ''a'')] ([], ?s) = ([Oid [] ''bob''], ?u)"
    using found' other by (simp add: revoke_record_def Let_def snapshot_grantors_fields records sample_record_def)
  have u: "l_role_membership_grantors (local ?u) = ?left" by (simp add: reproject_def reconcile_fields)
  have cascade: "l_role_membership_grantors (local (cascade_memberships_granted_by [Oid [] ''bob''] v)) =
      [sample_record ''bob'' ''b'' ''dba'' True]" if v: "l_role_membership_grantors (local v) = ?left" for v
  proof -
    have "revoked_records v (Oid [] ''bob'') = [sample_record ''carol'' ''b'' ''bob'' False]"
      unfolding revoked_records_def membership_admin_from_other_record_def v by (simp add: sample_record_def)
    moreover have "\<not> mem_admin (sample_record ''carol'' ''b'' ''bob'' False)" by (simp add: sample_record_def)
    ultimately have "delegation_closure v [Oid [] ''bob''] {} [] = [sample_record ''carol'' ''b'' ''bob'' False]" by simp
    then have "cascade_memberships_granted_by [Oid [] ''bob''] v =
        remove_record (sample_record ''carol'' ''b'' ''bob'' False) (snapshot_role_membership_grantors v)"
      by (simp add: cascade_memberships_granted_by_def)
    then show ?thesis
      by (simp add: remove_record_def Let_def reconcile_fields snapshot_grantors_fields v) (simp add: sample_record_def)
  qed
  show ?thesis using records first found cascade [OF u] by (simp add: revoke_records_def Let_def)
qed

text \<open>Four roles with complete records: \<^verbatim>\<open>app\<close> is in \<^verbatim>\<open>team\<close>, and the superuser \<^verbatim>\<open>dba\<close> puts \<^verbatim>\<open>team\<close> in \<^verbatim>\<open>org\<close>.\<close>

definition team_sample :: analysis_state where
  "team_sample = upd_local
     (\<lambda>l. l\<lparr>l_roles := [Oid [] ''app'' \<mapsto> Present (sample_role_state ''app'' [Oid [] ''team'']),
         Oid [] ''team'' \<mapsto> Present (sample_role_state ''team'' []),
         Oid [] ''org'' \<mapsto> Present (sample_role_state ''org'' []),
         Oid [] ''dba'' \<mapsto> Present ((sample_role_state ''dba'' [])\<lparr>role_is_superuser := True\<rparr>)],
       l_role_membership_grantors := [sample_record ''app'' ''team'' ''dba'' False]\<rparr>) sample_state"

definition team_grant :: grant_mutation where
  "team_grant = \<lparr>gm_privileges = AllPrivileges, gm_target = Roles [object_id_new [] ''org''],
     gm_grantees = [Named ''team'' False], gm_with_grant_option = False, gm_role_options = [],
     gm_granted_by = Some (Named ''dba'' False)\<rparr>"

lemmas team_sample_defs = team_sample_def sample_record_def upd_local_def sample_state_def sample_local_def sample_role_state_def

lemma team_sample_rel: "membership_rel team_sample = {(Oid [] ''app'', Oid [] ''team'')}"
  by (auto simp: membership_rel_iff team_sample_defs split: if_splits)

lemma team_sample_ok: "memberships_ok team_sample"
proof -
  have "projected team_sample" by (auto simp: projected_def roles_in_def team_sample_defs split: if_splits)
  moreover have "acyclic (membership_rel team_sample)"
    unfolding team_sample_rel acyclic_def by (auto simp: trancl_insert elim: tranclE)
  moreover have "roles_finite team_sample" by (simp add: team_sample_defs)
  ultimately show ?thesis by (simp add: memberships_ok_def)
qed

lemma team_sample_finite: "graph_wf (graph_of team_sample)" "roles_finite team_sample"
  by (simp_all add: team_sample_defs graph_wf_new)

lemma team_granted:
  "finish (apply_grant sample_order team_grant) team_sample =
     Some (Applied, grant_memberships sample_order no_options (Some (Oid [] ''dba'')) [Oid [] ''team''] [Oid [] ''org''] team_sample)"
proof -
  have "role_lookup team_sample (Oid [] n) = LookupPresent" if "n \<in> {''team'', ''org'', ''dba''}" for n
    using that by (auto simp: role_lookup_def team_sample_defs)
  moreover have "role_membership_grantor team_sample (Some (Named ''dba'' False)) = Some (Oid [] ''dba'')"
    by (simp add: role_membership_grantor_def role_fact_identity_def or_else_def)
  moreover have "can_administer True (Oid [] ''dba'') [Oid [] ''org''] team_sample = Some (Some True)" "l_roles_known (local team_sample)"
    by (simp_all add: can_administer_def present_role_def team_sample_defs)
  moreover have "first_cycle [(Oid [] ''team'', object_id_new [] ''org'')] (memberships_of team_sample) = Some None"
    by (simp add: role_search.simps visit_cycle_def memberships_of_def oid_def object_id_new_def team_sample_defs)
  moreover have "effective_pg_version team_sample = Observed 170000" by (simp add: effective_pg_version_def team_sample_defs)
  ultimately show ?thesis
    by (simp add: finish_def apply_grant_def grant_roles_def team_grant_def andthen_def validate_grant_targets_def
        validate_target_role_def validate_grant_roles_def validate_role_facts_def validate_role_fact_def role_fact_identity_def
        resolve_grant_privileges_def require_membership_options_def authorize_memberships_def reject_cycles_def
        ret_def asks_def query_def modify_def oid_def object_id_new_def)
qed

lemma team_granted_fields:
  fixes t
  defines "t \<equiv> grant_memberships sample_order no_options (Some (Oid [] ''dba'')) [Oid [] ''team''] [Oid [] ''org''] team_sample"
  shows "l_role_membership_grantors_complete (local t)"
    and "\<exists>role. l_roles (local t) (Oid [] ''app'') = Some (Present role)"
    and "\<exists>role. l_roles (local t) (Oid [] ''team'') = Some (Present role)"
    and "roles_in (l_role_membership_grantors (local t)) (Oid [] ''app'') = {Oid [] ''team''}"
    and "roles_in (l_role_membership_grantors (local t)) (Oid [] ''team'') = {Oid [] ''org''}"
proof -
  have start: "l_role_membership_grantors_complete (local team_sample)"
    "l_role_membership_grantors (local team_sample) = [sample_record ''app'' ''team'' ''dba'' False]"
    "l_roles (local team_sample) (Oid [] ''app'') = Some (Present (sample_role_state ''app'' [Oid [] ''team'']))"
    "l_roles (local team_sample) (Oid [] ''team'') = Some (Present (sample_role_state ''team'' []))"
    by (simp_all add: team_sample_defs)
  define u where "u = fold (grant_record no_options (Oid [] ''dba'')) [(Oid [] ''team'', Oid [] ''org'')]
      (snapshot_role_membership_grantors team_sample)"
  define v where "v = snapshot_role (Oid [] ''team'') u"
  have t: "t = reconcile_membership_projection (Oid [] ''team'') v"
    using start(1) by (simp add: t_def u_def v_def grant_memberships_def Let_def sample_order_def touch_member_def)
  have "membership_view v = membership_view u" by (simp add: v_def)
  then have v: "l_roles (local v) = l_roles (local team_sample)" "l_role_membership_grantors_complete (local v)"
    "roles_in (l_role_membership_grantors (local v)) m =
       roles_in [sample_record ''app'' ''team'' ''dba'' False] m \<union> {p. (m, p) \<in> {(Oid [] ''team'', Oid [] ''org'')}}" for m
    unfolding membership_view_def u_def prod.inject fold_grant_record_fields(1,2) snapshot_grantors_fields
    using fold_grant_record_fields(3) [of no_options "Oid [] ''dba''" "[(Oid [] ''team'', Oid [] ''org'')]" "snapshot_role_membership_grantors team_sample" m]
    by (simp_all only: start snapshot_grantors_fields list.set simp_thms)
  show "l_role_membership_grantors_complete (local t)" by (simp add: t reconcile_fields v)
  show "roles_in (l_role_membership_grantors (local t)) (Oid [] ''app'') = {Oid [] ''team''}"
    "roles_in (l_role_membership_grantors (local t)) (Oid [] ''team'') = {Oid [] ''org''}"
    unfolding t reconcile_fields v by (auto simp: roles_in_def sample_record_def)
  show "\<exists>role. l_roles (local t) (Oid [] ''app'') = Some (Present role)"
    "\<exists>role. l_roles (local t) (Oid [] ''team'') = Some (Present role)"
    by (simp_all add: t reconcile_membership_projection_def Let_def v start)
qed

theorem grant_and_revoke_keep_memberships_witness:
  "\<exists>t. finish (apply_grant sample_order team_grant) team_sample = Some (Applied, t) \<and> memberships_ok t
     \<and> {(Oid [] ''app'', Oid [] ''team''), (Oid [] ''team'', Oid [] ''org'')} \<subseteq> membership_rel t"
proof -
  let ?t = "grant_memberships sample_order no_options (Some (Oid [] ''dba'')) [Oid [] ''team''] [Oid [] ''org''] team_sample"
  have ok: "memberships_ok ?t"
    using grant_and_revoke_keep_memberships [OF sample_order_lists_all team_sample_ok] team_granted by blast
  then have "{(Oid [] ''app'', Oid [] ''team''), (Oid [] ''team'', Oid [] ''org'')} \<subseteq> membership_rel ?t"
    using team_granted_fields by (auto simp: memberships_ok_def projected_def membership_rel_iff)
  with ok team_granted show ?thesis by blast
qed


definition team_revoke :: revoke_mutation where
  "team_revoke = \<lparr>rm_grant_option_only = False, rm_role_option = None, rm_privileges = AllPrivileges,
     rm_target = Roles [object_id_new [] ''team''], rm_revokees = [Named ''app'' False],
     rm_granted_by = Some (Named ''dba'' False), rm_cascade = True\<rparr>"

theorem role_statements_return_witness:
  "(\<exists>r t. finish (apply_grant sample_order team_grant) team_sample = Some (r, t))
   \<and> (\<exists>r t. finish (apply_revoke sample_order team_revoke) team_sample = Some (r, t))"
  by (rule role_statements_return [OF team_sample_finite])




end
