(* ===== verification/Sequence_Catalogue.thy ===== *)
theory Sequence_Catalogue
  imports Sequences
begin

text \<open>
  What the three sequence statements keep of the catalogue: every sequence has parameters that its
  type admits, a value known exactly lies within the bounds, and the ownership edges of the graph
  are exactly the owners the sequences record.
\<close>

section \<open>The invariant\<close>

definition sequence_ok :: "oid \<Rightarrow> sequence_state \<Rightarrow> bool" where
  "sequence_ok i q \<longleftrightarrow>
     seq_id q = i \<and> parameters_ok (seq_parameters q)
     \<and> (seq_runtime_exact q \<longrightarrow>
          (\<exists>v. seqr_last_value (seq_runtime q) = Some v
             \<and> sint (seqp_min_value (seq_parameters q)) \<le> sint v \<and> sint v \<le> sint (seqp_max_value (seq_parameters q))))
     \<and> (seq_kind q = Standalone \<longleftrightarrow> seq_owned_by q = None)"

definition owner_of :: "(oid \<rightharpoonup> sequence_state overlay) \<Rightarrow> oid \<Rightarrow> (oid \<times> string) option" where
  "owner_of m i =
     (case m i of Some (Present q) \<Rightarrow> map_option (\<lambda>(table, c). (oid table, c)) (seq_owned_by q) | _ \<Rightarrow> None)"

definition catalogue_ok :: "(oid \<rightharpoonup> sequence_state overlay) \<Rightarrow> dependency_edge list \<Rightarrow> bool" where
  "catalogue_ok m es \<longleftrightarrow>
     (\<forall>i q. m i = Some (Present q) \<longrightarrow> sequence_ok i q)
     \<and> (\<forall>i t c. edge_new i t (SequenceOwnedBy c) \<in> set es \<longleftrightarrow> owner_of m i = Some (t, c))"

definition sequences_ok :: "analysis_state \<Rightarrow> bool" where
  "sequences_ok s \<longleftrightarrow> graph_wf (graph_of s) \<and> catalogue_ok (l_sequences (local s)) (edges (graph_of s))"

lemma sequences_ok_wf: "sequences_ok s \<Longrightarrow> graph_wf (graph_of s)"
  by (simp add: sequences_ok_def)

lemma is_owner_kind: "(case k of SequenceOwnedBy _ \<Rightarrow> True | _ \<Rightarrow> False) \<longleftrightarrow> (\<exists>c. k = SequenceOwnedBy c)"
  by (cases k) simp_all


lemma sequences_ok_taint [simp]: "sequences_ok (taint code scope s) = sequences_ok s"
  by (simp add: sequences_ok_def)

lemma parameters_ok_persistence [simp]: "parameters_ok (p\<lparr>seqp_persistence := x\<rparr>) = parameters_ok p"
  by (cases "sequence_type (seqp_data_type p)") (simp_all add: parameters_ok_def)

section \<open>Updates\<close>

lemma catalogue_ok_entry:
  assumes "catalogue_ok m es" "m i = Some (Present q)" "sequence_ok i q'" "seq_owned_by q' = seq_owned_by q"
  shows "catalogue_ok (m(i := Some (Present q'))) es"
  using assms by (auto simp: catalogue_ok_def owner_of_def)

lemma update_sequence_ok:
  assumes "sequences_ok s" "\<And>q. present_sequence s i = Some q \<Longrightarrow> sequence_ok i q \<Longrightarrow> sequence_ok i (f q) \<and> seq_owned_by (f q) = seq_owned_by q"
  shows "sequences_ok (update_sequence i f s)"
proof (cases "present_sequence s i")
  case None
  then have "update_sequence i f s = put_sequence i (l_sequences (local s) i) (snapshot_sequence i s)"
    by (auto simp: update_sequence_def present_sequence_def split: option.splits overlay.splits)
  then show ?thesis using assms(1) by (simp add: sequences_ok_def put_sequence_def upd_local_def snapshot_defs log_change_def)
next
  case (Some q)
  then have q: "l_sequences (local s) i = Some (Present q)" by (auto simp: present_sequence_def split: option.splits overlay.splits)
  then have "sequence_ok i q" using assms(1) by (auto simp: sequences_ok_def catalogue_ok_def)
  then have "catalogue_ok ((l_sequences (local s))(i := Some (Present (f q)))) (edges (graph_of s))"
    using assms Some q catalogue_ok_entry by (auto simp: sequences_ok_def)
  then show ?thesis
    by (simp add: sequences_ok_def update_sequence_def put_sequence_def upd_local_def snapshot_defs log_change_def q
        sequences_ok_wf [OF assms(1)])
qed

lemma begin_creation_ok [simp]: "sequences_ok (begin_creation i s) = sequences_ok s"
  by (simp add: sequences_ok_def begin_creation_def bump_generation_def upd_local_def snapshot_defs log_change_def)

lemma add_owner_edges:
  "graph_wf (graph_of s) \<Longrightarrow> set (edges (graph_of (add_owner_edge i w s))) =
     set (edges (graph_of s)) \<union> (case w of Some (table, c) \<Rightarrow> {owner_edge i table c} | None \<Rightarrow> {})"
  by (auto simp: add_owner_edge_def on_graph_def snapshot_defs log_change_def set_edges_add split: option.splits)

lemma new_sequence_ok:
  assumes "created_parameters c = Inr p"
  shows "sequence_ok (oid (cs_id c)) (new_sequence c p s)"
proof -
  obtain p0 where p0: "init_sequence_parameters (sequence_parameters_default\<lparr>seqp_persistence := cs_persistence c\<rparr>)
      (from_identity_options (cs_options c)) True = Inr p0" "\<exists>x. p = p0\<lparr>seqp_persistence := x\<rparr>"
    using assms by (auto simp: created_parameters_def bind_result_Inr Let_def split: option.splits intro!: that exI [of _ "seqp_persistence p"])
  from init_parameters_ok [OF p0(1)] have "parameters_ok p0" by simp
  with p0(2) have "parameters_ok p" by auto
  then show ?thesis
    by (cases "cs_owned_by c") (auto simp: sequence_ok_def new_sequence_def sequence_runtime_fresh_def parameters_ok_def split: option.splits)
qed

lemma insert_sequence_ok:
  assumes "sequences_ok s" "\<not> sequence_is_present s (oid (cs_id c))" "created_parameters c = Inr p"
  shows "sequences_ok (add_owner_edge (cs_id c) (cs_owned_by c) (insert_sequence c p s))"
proof -
  let ?t = "insert_sequence c p s" and ?i = "oid (cs_id c)"
  let ?u = "add_owner_edge (cs_id c) (cs_owned_by c) ?t"
  have wf: "graph_wf (graph_of s)" by (rule sequences_ok_wf [OF assms(1)])
  obtain s1 where t: "l_sequences (local ?t) = (l_sequences (local s))(?i := Some (Present (new_sequence c p s1)))"
    "graph_of ?t = graph_of s"
    by (simp add: insert_sequence_def begin_creation_def bump_generation_def put_sequence_def upd_local_def snapshot_defs
        log_change_def Let_def)
  have u: "l_sequences (local ?u) = l_sequences (local ?t)"
    by (simp add: add_owner_edge_def on_graph_def snapshot_defs log_change_def split: option.splits)
  have none: "owner_of (l_sequences (local s)) ?i = None"
    using assms(2) by (auto simp: owner_of_def sequence_is_present_def split: option.splits overlay.splits)
  have own: "owner_of (l_sequences (local ?t)) j =
      (if j = ?i then map_option (\<lambda>(table, c). (oid table, c)) (cs_owned_by c) else owner_of (l_sequences (local s)) j)" for j
    by (simp add: owner_of_def t new_sequence_def)
  have "edge_new j b (SequenceOwnedBy x) \<in> set (edges (graph_of ?u)) \<longleftrightarrow> owner_of (l_sequences (local ?t)) j = Some (b, x)" for j b x
    using assms(1) none unfolding own add_owner_edges [of ?t, unfolded t(2), OF wf]
    by (auto simp: sequences_ok_def catalogue_ok_def owner_edge_def edge_new_def split: option.splits)
  moreover have "sequence_ok j q" if "l_sequences (local ?t) j = Some (Present q)" for j q
    using that assms(1) new_sequence_ok [OF assms(3)] unfolding t
    by (auto simp: sequences_ok_def catalogue_ok_def split: if_splits)
  moreover have "graph_wf (graph_of ?u)"
    by (rule logged_keeps_wf [OF logged_trans [OF insert_sequence_logged add_owner_edge_logged] wf])
  ultimately show ?thesis by (simp add: sequences_ok_def catalogue_ok_def u)
qed

lemma set_owned_by_ok:
  assumes "sequences_ok s" "present_sequence s (oid i) = Some q"
  shows "sequences_ok (set_owned_by i w s)"
proof -
  let ?t = "set_owned_by i w s" and ?i = "oid i"
  have q: "l_sequences (local s) ?i = Some (Present q)"
    using assms(2) by (auto simp: present_sequence_def split: option.splits overlay.splits)
  have t: "l_sequences (local ?t) = (l_sequences (local s))(?i := Some (Present
      (q\<lparr>seq_owned_by := w, seq_kind := (if w \<noteq> None then Owned else Standalone)\<rparr>)))"
    by (simp add: set_owned_by_eq on_graph_def update_sequence_def put_sequence_def upd_local_def snapshot_defs log_change_def q)
  have g: "graph_of ?t = owner_graph i w (graph_of s)"
    by (simp add: set_owned_by_eq on_graph_def update_sequence_def put_sequence_def upd_local_def snapshot_defs log_change_def)
  have e: "set (edges (owner_graph i w g)) =
      {e \<in> set (edges g). \<not> ((\<exists>c. edge_kind e = SequenceOwnedBy c) \<and> dependent e = ?i)}
      \<union> (case w of Some (table, c) \<Rightarrow> {owner_edge i table c} | None \<Rightarrow> {})" if "graph_wf g" for g
    using that unfolding owner_graph_def is_owner_kind
    by (auto simp: Let_def set_edges_add graph_wf_retain set_retain split: option.splits)
  have own: "owner_of (l_sequences (local ?t)) j =
      (if j = ?i then map_option (\<lambda>(table, c). (oid table, c)) w else owner_of (l_sequences (local s)) j)" for j
    by (simp add: owner_of_def t)
  have "edge_new j b (SequenceOwnedBy x) \<in> set (edges (graph_of ?t)) \<longleftrightarrow> owner_of (l_sequences (local ?t)) j = Some (b, x)" for j b x
    using assms(1) unfolding own g e [OF sequences_ok_wf [OF assms(1)]]
    by (auto simp: sequences_ok_def catalogue_ok_def owner_edge_def edge_new_def split: option.splits)
  moreover have "sequence_ok j r" if "l_sequences (local ?t) j = Some (Present r)" for j r
    using that assms(1) q unfolding t by (cases w) (auto simp: sequences_ok_def catalogue_ok_def sequence_ok_def split: if_splits)
  moreover have "graph_wf (graph_of ?t)" by (rule logged_keeps_wf [OF set_owned_by_logged sequences_ok_wf [OF assms(1)]])
  ultimately show ?thesis by (simp add: sequences_ok_def catalogue_ok_def)
qed

lemma rename_sequence_edge_kind: "edge_kind (rename_sequence_edge i n e) = edge_kind e"
  by (simp add: rename_sequence_edge_def split: dependency_kind.split)

lemma rename_owner_edge:
  "rename_sequence_edge i n (edge_new k b (SequenceOwnedBy x)) = edge_new (if k = i then n else k) b (SequenceOwnedBy x)"
  by (simp add: rename_sequence_edge_def edge_new_def)

lemma move_sequence_ok:
  assumes "sequences_ok s" "present_sequence s i = Some q" "\<not> sequence_is_present s n"
  shows "sequences_ok (move_sequence i n s)"
proof -
  let ?t = "move_sequence i n s"
  have q: "l_sequences (local s) i = Some (Present q)" "i \<noteq> n"
    using assms(2,3) by (auto simp: present_sequence_def sequence_is_present_def split: option.splits overlay.splits)
  have t: "l_sequences (local ?t) = (l_sequences (local s))(i := None, n := Some (Present (q\<lparr>seq_id := n\<rparr>)))"
    by (simp add: move_sequence_def move_baseline_sequence_def on_graph_def move_sequence_entry_def snapshot_defs log_change_def q)
  have g: "graph_of ?t = rename_sequence_graph i n (graph_of s)"
    by (simp add: move_sequence_def move_baseline_sequence_def on_graph_def move_sequence_entry_def snapshot_defs log_change_def)
  have e: "set (edges (rename_sequence_graph i n g)) =
      insert (edge_new i n RenameTo) (rename_sequence_edge i n ` set (edges g))" for g
    by (simp add: rename_sequence_graph_def propagate_sequence_rename_def set_edges_add graph_wf_rewrite graph_store.edges_rewrite)
  have r: "edge_new j b (SequenceOwnedBy x) = rename_sequence_edge i n f \<longleftrightarrow>
      (\<exists>k. f = edge_new k b (SequenceOwnedBy x) \<and> j = (if k = i then n else k))" for j b x f
  proof
    assume eq: "edge_new j b (SequenceOwnedBy x) = rename_sequence_edge i n f"
    then have "edge_kind f = SequenceOwnedBy x" using rename_sequence_edge_kind [of i n f] by (simp add: edge_new_def flip: eq)
    then have "f = edge_new (dependent f) (referenced f) (SequenceOwnedBy x)" by (simp add: edge_new_def)
    then show "\<exists>k. f = edge_new k b (SequenceOwnedBy x) \<and> j = (if k = i then n else k)"
      using eq rename_owner_edge [of i n "dependent f" "referenced f" x]
      by (intro exI [of _ "dependent f"]) (auto simp: edge_new_def)
  qed (auto simp: rename_owner_edge)
  have none: "owner_of (l_sequences (local s)) n = None"
    using assms(3) by (auto simp: owner_of_def sequence_is_present_def split: option.splits overlay.splits)
  have own: "owner_of (l_sequences (local ?t)) j =
      (if j = n then owner_of (l_sequences (local s)) i else if j = i then None else owner_of (l_sequences (local s)) j)" for j
    by (simp add: owner_of_def t q)
  have "edge_new j b (SequenceOwnedBy x) \<in> set (edges (graph_of ?t)) \<longleftrightarrow>
      (\<exists>k. edge_new k b (SequenceOwnedBy x) \<in> set (edges (graph_of s)) \<and> j = (if k = i then n else k))" for j b x
    unfolding g e image_iff insert_iff r by (auto simp: edge_new_def)
  then have "edge_new j b (SequenceOwnedBy x) \<in> set (edges (graph_of ?t)) \<longleftrightarrow> owner_of (l_sequences (local ?t)) j = Some (b, x)" for j b x
    using assms(1) none q(2) unfolding own by (auto simp: sequences_ok_def catalogue_ok_def split: if_splits)
  moreover have "sequence_ok j r" if "l_sequences (local ?t) j = Some (Present r)" for j r
    using that assms(1) q unfolding t by (auto simp: sequences_ok_def catalogue_ok_def sequence_ok_def split: if_splits)
  moreover have "graph_wf (graph_of ?t)" by (rule logged_keeps_wf [OF move_sequence_logged sequences_ok_wf [OF assms(1)]])
  ultimately show ?thesis by (simp add: sequences_ok_def catalogue_ok_def)
qed


lemma drop_sequences_ok:
  assumes "sequences_ok s"
  shows "sequences_ok (retain_graph (without_dropped_sequences (oid ` set targets)) (fold (\<lambda>i. drop_sequence (oid i)) targets s))"
proof -
  let ?d = "fold (\<lambda>i. drop_sequence (oid i)) targets s" and ?A = "oid ` set targets"
  let ?t = "retain_graph (without_dropped_sequences ?A) ?d"
  have f: "?d = fold drop_sequence (map oid targets) s" by (simp add: fold_map comp_def)
  have m: "l_sequences (local ?t) = (\<lambda>j. if j \<in> ?A then Some Dropped else l_sequences (local s) j)"
    unfolding f by (simp add: retain_graph_def on_graph_def snapshot_defs log_change_def fold_drop_sequence fun_eq_iff)
  have g: "graph_of ?d = graph_of s" unfolding f by (simp add: frame_simps)
  have e: "set (edges (graph_of ?t)) = {e \<in> set (edges (graph_of s)). without_dropped_sequences ?A e}"
    by (simp add: retain_graph_def on_graph_def snapshot_defs log_change_def set_retain g)
  have own: "owner_of (l_sequences (local ?t)) j = (if j \<in> ?A then None else owner_of (l_sequences (local s)) j)" for j
    by (simp add: owner_of_def m)
  have "edge_new j b (SequenceOwnedBy x) \<in> set (edges (graph_of ?t)) \<longleftrightarrow> owner_of (l_sequences (local ?t)) j = Some (b, x)" for j b x
    using assms unfolding own e by (auto simp: sequences_ok_def catalogue_ok_def without_dropped_sequences_def edge_new_def)
  moreover have "sequence_ok j q" if "l_sequences (local ?t) j = Some (Present q)" for j q
    using that assms unfolding m by (auto simp: sequences_ok_def catalogue_ok_def split: if_splits)
  moreover have "graph_wf (graph_of ?t)"
    by (rule logged_keeps_wf [OF _ sequences_ok_wf [OF assms]])
      (rule logged_trans [OF logged_fold_from [OF logged_refl drop_steps_logged(2)] retain_graph_logged])
  ultimately show ?thesis by (simp add: sequences_ok_def catalogue_ok_def)
qed

lemma clear_default_ok [simp]: "sequences_ok (clear_default k s) = sequences_ok s"
  by (simp add: sequences_ok_def clear_default_def upd_local_def snapshot_defs log_change_def split: prod.splits)

lemma clear_sequence_defaults_ok [simp]: "sequences_ok (clear_sequence_defaults_on_cascade h q s) = sequences_ok s"
proof -
  have "sequences_ok (fold clear_default ks u) = sequences_ok u" for ks u by (induction ks arbitrary: u) simp_all
  then show ?thesis by (simp add: clear_sequence_defaults_on_cascade_def split: prod.splits)
qed

lemma clear_all_defaults_ok [simp]: "sequences_ok (fold (clear_sequence_defaults_on_cascade h) qs s) = sequences_ok s"
  by (induction qs arbitrary: s) simp_all

section \<open>The handlers\<close>

lemma wp_check_new_owner:
  "Q () s \<Longrightarrow> E s \<Longrightarrow> E (taint UnknownObjectState ChainScope s) \<Longrightarrow> wp (check_new_owner c) Q E s"
  unfolding check_new_owner_def ensure_owning_table_def
  by (simp add: wp_simps split: option.split overlay.split object_lookup.split)

lemma create_sequence_ok: "sequences_ok s \<Longrightarrow> wp (apply_create_sequence c) (\<lambda>_. sequences_ok) sequences_ok s"
  unfolding apply_create_sequence_def
  by (auto simp: wp_simps relation_namespace_is_taken_def relation_namespace_object_is_present_def
      split: sum.split object_lookup.split intro!: wp_check_new_owner insert_sequence_ok)

lemma wp_find_sequence:
  "E s \<Longrightarrow> E (taint UnknownObjectState ChainScope s) \<Longrightarrow>
   (\<And>q. present_sequence s (oid (as_id a)) = Some q \<Longrightarrow> Q q s) \<Longrightarrow> wp (find_sequence a) Q E s"
  unfolding find_sequence_def by (auto simp: wp_simps split: object_lookup.split option.split)

lemma merged_parameters_ok:
  assumes "merged_parameters p xs = Inr (os, p')" "parameters_ok p"
  shows "parameters_ok p' \<and> (\<forall>r. os_restart os = Some r \<longrightarrow>
      sint (seqp_min_value p') \<le> sint (restart_value p' r) \<and> sint (restart_value p' r) \<le> sint (seqp_max_value p'))"
proof -
  obtain m where m: "init_sequence_parameters p os False = Inr m"
    "p' = (case os_logged os of Some b \<Rightarrow> m\<lparr>seqp_persistence := logged_persistence b\<rparr> | None \<Rightarrow> m)"
    using assms(1) by (auto simp: merged_parameters_def bind_result_Inr)
  have "seqp_increment p \<noteq> 0 \<and> 0 < sint (seqp_cache_size p)"
    using assms(2) by (auto simp: parameters_ok_def split: option.splits)
  from init_parameters_ok [OF m(1)] this show ?thesis using m(2) by (auto simp: restart_value_def split: option.splits)
qed

lemma with_parameters_ok:
  assumes "sequence_ok i q" "merged_parameters (seq_parameters q) xs = Inr (os, p)"
    and "restart_runtime os p = None \<Longrightarrow> sequence_runtime_bounds_conflict q p = None"
  shows "sequence_ok i (with_parameters p (restart_runtime os p) q)"
proof -
  have p: "parameters_ok p" "\<And>r. os_restart os = Some r \<Longrightarrow>
      sint (seqp_min_value p) \<le> sint (restart_value p r) \<and> sint (restart_value p r) \<le> sint (seqp_max_value p)"
    using merged_parameters_ok [OF assms(2)] assms(1) by (auto simp: sequence_ok_def)
  show ?thesis
  proof (cases "os_restart os")
    case None
    then have "restart_runtime os p = None" by (simp add: restart_runtime_def)
    then show ?thesis using assms(1) assms(3) p(1)
      by (auto simp: sequence_ok_def with_parameters_def sequence_runtime_bounds_conflict_def slt_def not_less split: if_splits)
  next
    case (Some r)
    then show ?thesis using assms(1) p
      by (auto simp: sequence_ok_def with_parameters_def restart_runtime_def sequence_runtime_fresh_def)
  qed
qed

lemma alter_owned_by_ok:
  assumes "sequences_ok s" "present_sequence s (oid (as_id a)) = Some q"
  shows "wp (apply_alter_sequence_owned_by a current w) (\<lambda>_. sequences_ok) sequences_ok s"
  using assms unfolding apply_alter_sequence_owned_by_def
  by (auto simp: wp_simps ensure_owning_table_def split: option.split overlay.split object_lookup.split intro!: set_owned_by_ok)

lemma alter_owner_ok:
  assumes "sequences_ok s"
  shows "wp (alter_sequence_owner a current r) (\<lambda>_. sequences_ok) sequences_ok s"
proof -
  have "sequences_ok u \<Longrightarrow> sequences_ok (update_sequence i (\<lambda>q. q\<lparr>seq_owner := x\<rparr>) u)" for u i x
    by (rule update_sequence_ok) (auto simp: sequence_ok_def)
  then show ?thesis using assms unfolding alter_sequence_owner_def coverage_gap_def
    by (auto simp: wp_simps ensure_owning_table_def split: option.split overlay.split object_lookup.split)
qed

lemma alter_name_ok:
  assumes "sequences_ok s" "present_sequence s (oid (as_id a)) = Some q"
  shows "wp (alter_sequence_name a current n) (\<lambda>_. sequences_ok) sequences_ok s"
  using assms unfolding alter_sequence_name_def
  by (auto simp: wp_simps relation_namespace_is_taken_def relation_namespace_object_is_present_def
      split: option.split object_lookup.split intro!: move_sequence_ok)

lemma alter_effect_ok:
  assumes "sequences_ok s" "present_sequence s (oid (as_id a)) = Some q"
  shows "wp (alter_sequence_effect a current) (\<lambda>_. sequences_ok) sequences_ok s"
  using alter_owned_by_ok [OF assms] alter_owner_ok [OF assms(1)] alter_name_ok [OF assms] assms(1)
  by (auto simp: alter_sequence_effect_def wp_simps split: option.split alter_sequence_action.split)

lemma update_present:
  "present_sequence s i = Some q \<Longrightarrow> present_sequence (update_sequence i f s) i = Some (f q)"
  by (auto simp: present_sequence_def update_sequence_def put_sequence_def upd_local_def split: option.splits overlay.splits)

lemma present_sequence_taint [simp]: "present_sequence (taint code scope s) = present_sequence s"
  by (simp add: present_sequence_def fun_eq_iff)

lemma alter_merged_ok:
  assumes ok: "sequences_ok s" and q: "present_sequence s (oid (as_id a)) = Some q"
    and m: "merged_parameters (seq_parameters q) (as_options a) = Inr (os, p)"
    and b: "restart_runtime os p = None \<Longrightarrow> sequence_runtime_bounds_conflict q p = None"
  shows "wp (andthen (if p \<noteq> seq_parameters q \<or> restart_runtime os p \<noteq> None
      then modify (update_sequence (oid (as_id a)) (with_parameters p (restart_runtime os p))) else ret ())
      (\<lambda>_. alter_sequence_effect a q)) (\<lambda>_. sequences_ok) sequences_ok s"
proof -
  let ?f = "with_parameters p (restart_runtime os p)"
  have "sequences_ok (update_sequence (oid (as_id a)) ?f s)"
  proof (rule update_sequence_ok [OF ok])
    fix q' assume "present_sequence s (oid (as_id a)) = Some q'" "sequence_ok (oid (as_id a)) q'"
    then show "sequence_ok (oid (as_id a)) (?f q') \<and> seq_owned_by (?f q') = seq_owned_by q'"
      using with_parameters_ok [OF _ m b] q by (auto simp: with_parameters_def Let_def split: option.splits)
  qed
  from alter_effect_ok [OF this update_present [OF q]] alter_effect_ok [OF ok q]
  show ?thesis by (simp add: wp_simps)
qed

lemma wp_check_current_value:
  assumes "E s" "(restart = None \<Longrightarrow> sequence_runtime_bounds_conflict q p = None) \<Longrightarrow> Q () s \<and> Q () (taint BaselineStale ChainScope s)"
  shows "wp (check_current_value q p restart) Q E s"
  using assms unfolding check_current_value_def by (auto simp: wp_simps split: option.split)

lemma alter_sequence_ok:
  assumes "sequences_ok s"
  shows "wp (apply_alter_sequence a) (\<lambda>_. sequences_ok) sequences_ok s"
  unfolding apply_alter_sequence_def wp_andthen [of "find_sequence a"]
proof (rule wp_find_sequence)
  fix q assume q: "present_sequence s (oid (as_id a)) = Some q"
  let ?rest = "\<lambda>r. case r of Inl r \<Rightarrow> return_with r | Inr (os, p) \<Rightarrow>
      (let restart = restart_runtime os p in andthen (check_current_value q p restart) (\<lambda>_.
        andthen (if p \<noteq> seq_parameters q \<or> restart \<noteq> None
          then modify (update_sequence (oid (as_id a)) (with_parameters p restart)) else ret ())
          (\<lambda>_. alter_sequence_effect a q)))"
  show "wp (?rest (merged_parameters (seq_parameters q) (as_options a))) (\<lambda>_. sequences_ok) sequences_ok s"
  proof (cases "merged_parameters (seq_parameters q) (as_options a)")
    case (Inr x)
    obtain os p where x: "x = (os, p)" by (cases x)
    note m = Inr [unfolded x]
    show ?thesis unfolding m sum.case prod.case Let_def wp_andthen [of "check_current_value q p _"]
    proof (rule wp_check_current_value)
      assume "restart_runtime os p = None \<Longrightarrow> sequence_runtime_bounds_conflict q p = None"
      then show "wp (andthen (if p \<noteq> seq_parameters q \<or> restart_runtime os p \<noteq> None
            then modify (update_sequence (oid (as_id a)) (with_parameters p (restart_runtime os p))) else ret ())
            (\<lambda>_. alter_sequence_effect a q)) (\<lambda>_. sequences_ok) sequences_ok s
        \<and> wp (andthen (if p \<noteq> seq_parameters q \<or> restart_runtime os p \<noteq> None
            then modify (update_sequence (oid (as_id a)) (with_parameters p (restart_runtime os p))) else ret ())
            (\<lambda>_. alter_sequence_effect a q)) (\<lambda>_. sequences_ok) sequences_ok (taint BaselineStale ChainScope s)"
        using alter_merged_ok [OF _ _ m] assms q by simp
    qed (rule assms)
  qed (simp add: wp_simps assms)
qed (simp_all add: assms)

lemma drop_sequence_ok:
  assumes "sequences_ok s"
  shows "wp (apply_drop_sequence h d) (\<lambda>_. sequences_ok) sequences_ok s"
proof -
  have checks: "sequences_ok u \<Longrightarrow> wp (check_extension_member h i) (\<lambda>_. sequences_ok) sequences_ok u"
    "sequences_ok u \<Longrightarrow> wp (check_dropped_sequence d i) (\<lambda>_. sequences_ok) sequences_ok u"
    "sequences_ok u \<Longrightarrow> wp (check_sequence_dependents d i) (\<lambda>_. sequences_ok) sequences_ok u" for i u
    by (simp_all add: check_extension_member_def check_dropped_sequence_def check_sequence_dependents_def wp_simps
        split: option.split object_lookup.split)
  show ?thesis unfolding apply_drop_sequence_def
    by (intro wp_for_each_then [where I = sequences_ok, THEN wp_andthen [THEN iffD2]])
     (auto simp: wp_simps assms checks simp del: set_filter intro!: drop_sequences_ok wp_for_each_then [where I = sequences_ok])
qed

text \<open>
  C31. \<^verbatim>\<open>CREATE\<close>, \<^verbatim>\<open>ALTER\<close> and \<^verbatim>\<open>DROP SEQUENCE\<close> keep the sequence catalogue well formed, whatever the
  statement and however it ends: every sequence has parameters its type admits, a current value that
  is known exactly lies between the bounds, its kind says whether it is owned, and the dependency
  graph has the ownership edge of a sequence exactly when the sequence records that owner.\<close>

theorem sequence_statements_keep_catalogue:
  assumes "sequences_ok s"
    and "m = apply_create_sequence c \<or> m = apply_alter_sequence a \<or> m = apply_drop_sequence h d"
    and "finish m s = Some (r, t)"
  shows "sequences_ok t"
proof -
  have "wp m (\<lambda>_. sequences_ok) sequences_ok s"
    using assms(1,2) create_sequence_ok alter_sequence_ok drop_sequence_ok by blast
  from wp_finish [OF this assms(3)] show ?thesis by simp
qed


definition sample_create :: create_sequence where
  "sample_create = \<lparr>cs_id = object_id_new ''pg_temp'' ''q'', cs_if_not_exists = False, cs_owned_by = None,
     cs_persistence = SeqTemporary,
     cs_options = \<lparr>iso_data_type = None, iso_start_value = Some 7, iso_increment = None, iso_min_value = None,
       iso_max_value = None, iso_cache_size = None, iso_cycle = None, iso_persistence = None, iso_sequence_name = None\<rparr>\<rparr>"

lemma sample_create_parameters:
  "created_parameters sample_create = Inr (sequence_parameters_default\<lparr>seqp_start_value := 7, seqp_persistence := SeqTemporary\<rparr>)"
proof -
  have "trim ''bigint'' = ''bigint''" by (simp add: trim_plain byte_def)
  then have t: "sequence_type ''bigint'' = Some (''bigint'', 0x8000000000000000, 0x7FFFFFFFFFFFFFFF)"
    by (simp add: sequence_type_def to_ascii_lowercase_def ascii_lower_def byte_def)
  then show ?thesis
    by (simp add: created_parameters_def sample_create_def from_identity_options_def init_sequence_parameters_def
        merge_type_def bind_result_def merge_increment_def merge_cycle_def merge_max_def merge_min_def merge_start_def
        check_restart_def merge_cache_def slt_def Let_def sequence_parameters_default_def option_set_persistence_def)
qed

lemma sample_create_applied:
  "\<exists>t. finish (apply_create_sequence sample_create) (drop_sample []) = Some (Applied, t)
     \<and> sequence_is_present t (Oid ''pg_temp'' ''q'')"
proof -
  have e: "ensure_creation_target (cs_id sample_create) s = (Inr (), s)" for s
    by (simp add: ensure_creation_target_def sample_create_def object_id_new_def is_session_temp_schema_def session_temp_schema_def)
  have n: "\<not> relation_namespace_is_taken (drop_sample []) (oid (cs_id sample_create))"
    by (simp add: relation_namespace_is_taken_def relation_namespace_object_is_present_def relation_is_present_def
        sequence_is_present_def index_is_present_def type_is_present_def sample_create_def object_id_new_def oid_def
        drop_sample_defs graph_new_def)
  have o: "cs_owned_by sample_create = None" by (simp add: sample_create_def)
  show ?thesis
    by (simp add: apply_create_sequence_def finish_def andthen_def ensure_def asks_def e n sample_create_parameters
        check_new_owner_def o ret_def modify_def add_owner_edge_def)
      (simp add: insert_sequence_def put_sequence_def upd_local_def Let_def sequence_is_present_def sample_create_def
        object_id_new_def oid_def)
qed

theorem sequence_statements_keep_catalogue_witness:
  "\<exists>t. finish (apply_create_sequence sample_create) (drop_sample []) = Some (Applied, t)
     \<and> sequence_is_present t (Oid ''pg_temp'' ''q'') \<and> sequences_ok t"
proof -
  have "sequences_ok (drop_sample [])"
    by (simp add: sequences_ok_def catalogue_ok_def owner_of_def drop_sample_edges drop_sample_wf)
      (simp add: drop_sample_defs)
  then show ?thesis using sample_create_applied sequence_statements_keep_catalogue by blast
qed

text \<open>
  Whether an expression counts as a reference to a sequence does not depend on \<^verbatim>\<open>nextval\<close>: it does
  exactly when some literal in it spells the name of the sequence, whatever the function around it.
\<close>

theorem reference_needs_no_nextval:
  "expression_references_sequence i e \<longleftrightarrow> (\<exists>v. Literal v \<in> subexprs e \<and> sequence_literal_matches v i)"
proof (induction e rule: subexprs.induct)
  case (1 f args)
  then show ?case by (cases args) (auto simp: list_ex_iff)
qed auto


text \<open>
  With the baseline covering a name, \<^verbatim>\<open>ALTER SEQUENCE IF EXISTS\<close> on it does nothing when no such
  sequence was ever seen, but conflicts when an earlier statement dropped the sequence.
\<close>

theorem alter_if_exists_after_drop:
  assumes "\<not> lookup_shadowed s (as_id a)" "baseline_covers_family_object s (oid (as_id a)) FamSequences" "as_if_exists a"
  shows "(l_sequences (local s) (oid (as_id a)) = None \<longrightarrow> finish (apply_alter_sequence a) s = Some (NoOp, s))
    \<and> (l_sequences (local s) (oid (as_id a)) = Some Dropped \<longrightarrow>
         finish (apply_alter_sequence a) s = Some (no_sequence (as_id a), s))"
  using assms by (simp add: apply_alter_sequence_def find_sequence_def sequence_lookup_def finish_def andthen_def
      asks_def return_with_def)

definition sample_alter :: alter_sequence where
  "sample_alter = \<lparr>as_id = object_id_new ''s'' ''q'', as_if_exists = True, as_options = [], as_action = None\<rparr>"

definition dropped_sample :: analysis_state where
  "dropped_sample = (drop_sample [])\<lparr>baseline_available := True,
     baseline_coverage := \<lparr>cov_schema_scope = AllNonSystem, cov_families = {FamSequences}\<rparr>, baseline_schemas := None,
     local := (local (drop_sample []))\<lparr>l_sequences := [Oid ''s'' ''q'' \<mapsto> Dropped]\<rparr>\<rparr>"

theorem alter_if_exists_after_drop_witness:
  "finish (apply_alter_sequence sample_alter) dropped_sample = Some (no_sequence (object_id_new ''s'' ''q''), dropped_sample)"
proof -
  have "\<not> lookup_shadowed dropped_sample (as_id sample_alter)" "as_if_exists sample_alter"
    by (simp_all add: lookup_shadowed_def sample_alter_def object_id_new_def)
  moreover have "baseline_covers_family_object dropped_sample (oid (as_id sample_alter)) FamSequences"
    by (simp add: baseline_covers_family_object_def baseline_covers_object_def dropped_sample_def sample_alter_def
        object_id_new_def oid_def in_scope_def coverage_has_def is_session_temp_schema_def)
  moreover have "l_sequences (local dropped_sample) (oid (as_id sample_alter)) = Some Dropped"
    by (simp add: dropped_sample_def sample_alter_def object_id_new_def oid_def)
  ultimately show ?thesis using alter_if_exists_after_drop by (simp add: sample_alter_def)
qed

end
