(* ===== verification/Spec2Isabelle.thy ===== *)
theory Spec2Isabelle
  imports Rules Memberships Sequence_Catalogue
begin

text \<open>
  \<^bold>\<open>safe-migrate\<close> is a static analyzer of PostgreSQL migrations. It reads a chain of SQL files,
  resolves every statement to mutations of a modelled catalog, applies them to an analysis state
  that starts from a synchronized baseline, and evaluates rules on every transition. This
  development models that core as executable definitions and proves what makes it correct. Paths
  are relative to \<^verbatim>\<open>src/src/_internal/\<close> unless they start with \<^verbatim>\<open>src/\<close>.

  \<^bold>\<open>How the parts fit together.\<close> The engine (\<^verbatim>\<open>engine/engine.rs\<close>) loops over the statements of a
  file. For each it takes a checkpoint, brings the pre-state the rules see up to date, hands every
  mutation to the dispatcher (\<^verbatim>\<open>analysis/state/apply.rs\<close>), restores the checkpoint when a mutation
  conflicts, and lets the rules report. A handler changes the local state only after recording a
  snapshot in the top transaction frame (\<^verbatim>\<open>snapshots.rs\<close>), which \<^verbatim>\<open>rollback.rs\<close> undoes. Handlers
  consult the dependency graph (\<^verbatim>\<open>analysis/graph.rs\<close>), the search path (\<^verbatim>\<open>analysis/namespace.rs\<close>), the
  role graph (\<^verbatim>\<open>roles.rs\<close>) and the coverage of the baseline, and record evidence when they cannot
  know; the certainty of a finding is read off that evidence (\<^verbatim>\<open>report/violations.rs\<close>).

  \<^bold>\<open>Theories, from the bottom up.\<close>
  \<^item> \<open>SM_Prelude\<close>: the collections of simplification rules, list searches and map idioms.
  \<^item> \<open>Identifiers\<close> (\<^verbatim>\<open>ast/identifiers.rs\<close>): case folding, truncation to 63 bytes at a character
    boundary, identities and their order. A string is the list of its UTF-8 bytes.
  \<^item> \<open>Privileges\<close> (\<^verbatim>\<open>model/relation.rs\<close>): the privilege matrix with grant options and the provenance
    of each grant; every operation keeps the four maps coherent.
  \<^item> \<open>Expr_IR\<close> (\<^verbatim>\<open>analysis/expr_ir.rs\<close>), \<open>Index_Model\<close> (\<^verbatim>\<open>model/index.rs\<close>): expression summaries; the
    three-valued comparison of index definitions, sound for every completion of what is unknown.
  \<^item> \<open>Dependency_Graph\<close> (\<^verbatim>\<open>analysis/graph.rs\<close>): edges, the edge set and the cached indexes as state; the
    invariant under all operations, rename chains, cycle checks, indexed lookups.
  \<^item> \<open>Relation_Model\<close> (\<^verbatim>\<open>model/relation.rs\<close>, \<^verbatim>\<open>model/column.rs\<close>), \<open>Catalog_Model\<close> (the other files of
    \<^verbatim>\<open>model/\<close>, \<^verbatim>\<open>db/cache/coverage.rs\<close>), \<open>Namespace\<close>, \<open>Evidence\<close>: the data of the catalog, unqualified
    lookup, the canonical evidence log.
  \<^item> \<open>Analysis_State\<close> (\<^verbatim>\<open>state/mod.rs\<close>, \<^verbatim>\<open>snapshots.rs\<close>, \<^verbatim>\<open>rollback.rs\<close>, \<^verbatim>\<open>evidence.rs\<close>, \<^verbatim>\<open>lookup.rs\<close>,
    \<^verbatim>\<open>accessors.rs\<close>, \<^verbatim>\<open>schemas.rs\<close>): the state as a record, one constructor per undo entry.
  \<^item> \<open>Undo_Log\<close>: the locale of undo journals, its interpretation on the analyzer's log, and the
    notion of a \<open>logged\<close> step with one introduction rule per kind of entry.
  \<^item> \<open>Session\<close> (\<^verbatim>\<open>roles.rs\<close>, \<^verbatim>\<open>apply_settings.rs\<close>), \<open>Cascade\<close> (\<^verbatim>\<open>cascade.rs\<close>), \<open>Drop_Table\<close>
    (\<^verbatim>\<open>apply_relation/drop.rs\<close>), \<open>Transactions\<close> (\<^verbatim>\<open>apply_transaction.rs\<close>, \<^verbatim>\<open>apply.rs\<close>): handlers and the
    dispatcher \<open>apply_mutation\<close>.
  \<^item> \<open>Handlers\<close>: how the remaining handlers are written. A handler is a function of the state whose
    result is \<open>None\<close> (a loop that diverges), \<open>Inl\<close> (an early return with its \<open>mutation_result\<close>) or
    \<open>Inr\<close>; \<open>andthen\<close>, \<open>ensure\<close>, \<open>modify\<close>, \<open>for_each\<close> and \<open>finish\<close> compose it in the order of the code. The
    locale \<open>step_contract\<close> and its extension by evidence carry a relation between the states before
    and after through these combinators; it is interpreted on the undo journal and on every
    invariant below. \<open>wp\<close> is the weakest precondition of a handler, \<open>total\<close> says that it returns.
    The locale \<open>saved_entry\<close> is the contract of a snapshot taken once per statement: after it, every
    change of the saved part is logged.
  \<^item> \<open>Roles\<close>, \<open>Memberships\<close> (\<^verbatim>\<open>apply_role.rs\<close>, \<^verbatim>\<open>grants.rs\<close>): role statements, grants on relations and of
    memberships; acyclic memberships that, while the grantor records are complete, are those the
    records name; the two cascades against their closures.
  \<^item> \<open>Names\<close> (\<^verbatim>\<open>names.rs\<close>), \<open>Sequence_Parameters\<close>, \<open>Sequences\<close>, \<open>Sequence_Catalogue\<close>
    (\<^verbatim>\<open>apply_sequence.rs\<close>): generated names; the options of a sequence and their ranges, the sequence
    statements, the ownership edges of the graph as a view of the recorded owners.
  \<^item> \<open>Triggers\<close> (\<^verbatim>\<open>apply_policy_trigger.rs\<close>), \<open>Maintenance\<close> (\<^verbatim>\<open>apply_misc.rs\<close>): policies and triggers, with
    three views of the triggers of a table in step; locks, databases, vacuum and reindexing.
  \<^item> \<open>Schema_Handlers\<close> (\<^verbatim>\<open>apply_schema.rs\<close>, \<^verbatim>\<open>schemas.rs\<close>): \<^verbatim>\<open>CREATE SCHEMA\<close> and \<^verbatim>\<open>ALTER SCHEMA\<close> with the
    move of a namespace; \<open>Subscriptions\<close>, \<open>Publications\<close> (\<^verbatim>\<open>apply_replication.rs\<close>, \<^verbatim>\<open>publication.rs\<close>):
    the replication statements. \<open>Ddl\<close> collects these statements in one datatype with one application
    function, which the dispatcher calls.
  \<^item> \<open>Pre_State\<close> (\<^verbatim>\<open>pre_state.rs\<close>), \<open>Sql_Text\<close> (the text passes of the engine), \<open>Report\<close>
    (\<^verbatim>\<open>report/violations.rs\<close>), \<open>Configuration\<close> (\<^verbatim>\<open>src/src/api/config.rs\<close>, \<^verbatim>\<open>rules/registry.rs\<close>) and \<open>Engine\<close>
    (\<^verbatim>\<open>engine/engine.rs\<close>, \<^verbatim>\<open>rules/mod.rs\<close>).
  \<^item> \<open>Rules\<close> (\<^verbatim>\<open>rules/\<close>): the sixteen rules that look at modelled mutations. The locale \<open>evidence_blind\<close> is
    their contract: a rule reads the catalog, never the evidence log; it is interpreted on them.

  \<^bold>\<open>What the lemmas show.\<close> Every modelled handler is logged, hence the transaction machine refines one
  that keeps a copy of the state per open frame: \<^verbatim>\<open>ROLLBACK\<close> and \<^verbatim>\<open>ROLLBACK TO\<close> restore exactly the
  states they name. On top of it the engine is atomic per statement, whichever of its two checkpoints
  it took; the analysis of a chain ends; keyed findings are reported once; certainty depends on the
  past of a statement only. What the rules state reaches the report: every failed statement with the
  reason of the conflict that made it fail, and every relation of the baseline that a cascade takes
  away unnamed. \<^verbatim>\<open>DROP TABLE\<close> drops exactly the closure it is given, with the sequences, constraints and
  edges that belong to it and no others; the closure that the engine passes for \<^verbatim>\<open>CASCADE\<close> starts from
  every table named, also from absent ones. \<^verbatim>\<open>ALTER SCHEMA RENAME\<close> is compared with a description of what
  follows the new name and what keeps the old one, written apart from its loops. The remaining
  properties fix single components: searches of the graph and of the role catalogue against their
  closures, index comparison, privileges, name resolution, sequence options, generated names, text
  passes and validation; and five invariants across statements, of the memberships, of the sequences with their ownership edges, of the triggers with
  their two other views, of the slots of subscriptions, and of the edges of publications.
  Several theorems state where the code departs from its intention.

  \<^bold>\<open>Conventions.\<close> Machine integers keep their width (\<open>u64\<close> is \<open>64 word\<close>). Hash sets and maps are sets and
  partial maps; where the code iterates over one, the order is an argument (\<open>hash_order\<close> lists a
  finite set), so that statements hold for every order. Results are \<open>mutation_result\<close> values, early
  returns sums. Indices into vectors follow the source: the last frame is the innermost one.

  \<^bold>\<open>Loops and fuel.\<close> \<open>walk_cascade\<close> runs on fuel, the number of edges plus two, because each
  level of the recursion visits a new endpoint of an edge; \<open>cascade_closure_exact\<close> shows that it
  suffices. The worklists over roles are \<open>partial_function (option)\<close>; with finitely many roles they
  return, and so does every mutation (\<open>apply_mutation_result\<close>) and the whole analysis. The other loops
  are structural or have a measure.

  \<^bold>\<open>Not modelled.\<close> The parser and its syntax tree (an external crate), the extraction of facts and
  their resolution (\<^verbatim>\<open>ast/visitor\<close>, \<^verbatim>\<open>analysis/resolver\<close>), whose result is a field of a \<open>statement\<close>;
  the handlers of the statements that \<open>mutation\<close> does not list (\<^verbatim>\<open>DROP SCHEMA\<close>, and the statements on
  tables other than their drop, views, indexes, types, routines and extensions); the rules that match
  only such statements (a rule is a record of its methods, and the engine is modelled for every
  list); catalog synchronization, cache files, rendering of reports and the command line, which are
  input and output. In the state, four catalogues that no modelled operation
  reads (built-in types, operator classes, casts, aggregates) are left out; the list of rules that
  could not be evaluated is a field of the engine's \<open>run\<close>.
\<close>

end
